(* ===== verification/JsPrelude.thy ===== *)
theory JsPrelude
  imports Complex_Main "HOL-Library.List_Lexorder" "HOL-Library.Char_ord" "HOL-Library.Multiset"
begin

text \<open>
  What every component of the development shares: JavaScript values that may be
  \<open>undefined\<close>, \<open>null\<close> or present, the sequencing of fallible computations that
  thread a state, and the few facts on lists that the component proofs use.

  Conventions. A TypeScript property \<open>x: T | null\<close> is a \<open>T option\<close>. A property
  that an older build may have left out altogether (\<open>x?: T | null\<close>) is a
  \<open>T field\<close>, so that \<open>=== null\<close>, \<open>!== undefined\<close>, \<open>?? null\<close> and truthiness
  are told apart as the language does. An instant written by \<open>toISOString()\<close> is an
  \<open>iso\<close>, a \<open>Date.now()\<close> reading is an \<open>int\<close> of milliseconds, and a JavaScript
  number that the code only carries along is a \<open>real\<close>.
\<close>

type_synonym iso = string
type_synonym number = real

section \<open>Possibly absent values\<close>

datatype 'a field = Undef | Null | Val 'a

text \<open>\<open>x ?? null\<close>: both kinds of absence become the one \<open>None\<close>.\<close>

fun coalesce :: "'a field \<Rightarrow> 'a option" where
  "coalesce Undef = None"
| "coalesce Null = None"
| "coalesce (Val a) = Some a"

text \<open>A \<open>T | null\<close> stored in a property of its own is never \<open>undefined\<close>.\<close>

fun nullable :: "'a option \<Rightarrow> 'a field" where
  "nullable None = Null"
| "nullable (Some a) = Val a"

text \<open>Truthiness of a string: \<open>undefined\<close>, \<open>null\<close> and \<open>''\<close> are falsy.\<close>

fun truthy :: "string field \<Rightarrow> bool" where
  "truthy (Val s) = (s \<noteq> [])"
| "truthy _ = False"

lemma coalesce_nullable [simp]: "coalesce (nullable x) = x"
  by (cases x) simp_all

lemma coalesce_None_iff: "coalesce x = None \<longleftrightarrow> x = Undef \<or> x = Null"
  by (cases x) simp_all

lemma coalesce_Some_iff [simp]: "coalesce x = Some a \<longleftrightarrow> x = Val a"
  by (cases x) auto

lemma nullable_eq_iff [simp]:
  "nullable x = Undef \<longleftrightarrow> False" "nullable x = Null \<longleftrightarrow> x = None" "nullable x = Val a \<longleftrightarrow> x = Some a"
  by (cases x; simp)+

lemma truthy_iff: "truthy x \<longleftrightarrow> (\<exists>s. x = Val s \<and> s \<noteq> [])"
  by (cases x) auto

section \<open>JSON values\<close>

datatype json =
  JNull | JBool bool | JNum number | JStr string | JArr "json list" | JObj "(string \<times> json) list"

section \<open>Sequencing\<close>

text \<open>
  An asynchronous function of the source is modelled by a function that returns either the
  value it threw (\<open>Inl\<close>) or its result (\<open>Inr\<close>), with the state it left behind.
  \<open>and_then r k\<close> is the code after an \<open>await\<close> that may throw; \<open>attempt r h k\<close> is
  \<open>try\<close>/\<open>catch\<close>.
\<close>

definition and_then :: "('e + 'a) \<times> 's \<Rightarrow> ('a \<Rightarrow> 's \<Rightarrow> ('e + 'b) \<times> 's) \<Rightarrow> ('e + 'b) \<times> 's" where
  "and_then r k = (case r of (Inl e, s) \<Rightarrow> (Inl e, s) | (Inr a, s) \<Rightarrow> k a s)"

definition attempt :: "('e + 'a) \<times> 's \<Rightarrow> ('e \<Rightarrow> 's \<Rightarrow> 'r) \<Rightarrow> ('a \<Rightarrow> 's \<Rightarrow> 'r) \<Rightarrow> 'r" where
  "attempt r h k = (case r of (Inl e, s) \<Rightarrow> h e s | (Inr a, s) \<Rightarrow> k a s)"

lemma and_then_simps [simp]:
  "and_then (Inl e, s) k = (Inl e, s)"
  "and_then (Inr a, s) k = k a s"
  by (simp_all add: and_then_def)

lemma attempt_simps [simp]:
  "attempt (Inl e, s) h k = h e s"
  "attempt (Inr a, s) h k = k a s"
  by (simp_all add: attempt_def)

lemma and_then_cases [case_names throws returns]:
  assumes "and_then r k = (x, t)"
  obtains e where "r = (Inl e, t)" "x = Inl e"
  | a s where "r = (Inr a, s)" "k a s = (x, t)"
  using assms by (cases r; cases "fst r") auto

text \<open>
  The interface of a relation between the states before and after a computation: it holds when
  nothing happened and it composes. The sequencing operators respect every such relation.
\<close>

locale state_rel =
  fixes rel :: "'s \<Rightarrow> 's \<Rightarrow> bool"
  assumes rel_refl: "rel s s"
    and rel_trans: "rel s t \<Longrightarrow> rel t u \<Longrightarrow> rel s u"
begin

lemma and_then_rel:
  assumes "rel s (snd r)" "\<And>a t. r = (Inr a, t) \<Longrightarrow> rel t (snd (k a t))"
  shows "rel s (snd (and_then r k))"
  using assms by (cases r; cases "fst r") (auto intro: rel_trans)

lemma attempt_rel:
  assumes "rel s (snd r)" "\<And>e t. r = (Inl e, t) \<Longrightarrow> rel t (snd (h e t))"
    "\<And>a t. r = (Inr a, t) \<Longrightarrow> rel t (snd (k a t))"
  shows "rel s (snd (attempt r h k))"
  using assms by (cases r; cases "fst r") (auto intro: rel_trans)

lemma step_rel: "rel s t \<Longrightarrow> rel t (snd r) \<Longrightarrow> rel s (snd r)"
  by (rule rel_trans)

end

section \<open>Lists\<close>

text \<open>\<open>[...xs].find(p)\<close> is \<^const>\<open>List.find\<close>; \<open>undefined\<close> is \<open>None\<close>.\<close>

lemma find_in_set: "List.find P xs = Some x \<Longrightarrow> x \<in> set xs \<and> P x"
  by (auto simp: find_Some_iff)

lemma find_least_sorted:
  assumes "sorted (map f xs)" "List.find P xs = Some x" "y \<in> set xs" "P y"
  shows "f x \<le> f y"
proof -
  obtain i where i: "i < length xs" "P (xs ! i)" "x = xs ! i" "\<And>j. j < i \<Longrightarrow> \<not> P (xs ! j)"
    using assms(2) by (auto simp: find_Some_iff)
  obtain j where j: "j < length xs" "y = xs ! j"
    using assms(3) by (auto simp: in_set_conv_nth)
  have "i \<le> j" using i(4)[of j] j(2) assms(4) by (cases "j < i") auto
  then show ?thesis
    using sorted_nth_mono[OF assms(1), of i j] i j by simp
qed

lemma filter_map_ids:
  assumes "\<And>x. x \<in> set xs \<Longrightarrow> key (f x) = key x"
  shows "map key (map f xs) = map key xs"
  using assms by (induction xs) auto

named_theorems frame \<open>what an operation leaves unchanged\<close>

end
