(* ===== verification/Custody.thy ===== *)
theory Custody
  imports JsPrelude
begin

text \<open>
  \<open>frontend/driver-pwa/lib/session/custody-context.ts\<close>: who is capturing evidence on this
  phone and under which custody period of which trip. The module's variables (\<open>state\<close>,
  \<open>generation\<close>, \<open>authSubject\<close>) are one record; the announcements that \<open>setTimeout(..., 0)\<close>
  puts off are kept as the values still to be delivered.
\<close>

section \<open>State\<close>

record custody_stamp =
  stamp_actorId :: "string option"
  stamp_custodySequence :: "int option"

record custody_context =
  ctx_actorId :: "string option"
  ctx_tripId :: "string option"
  ctx_custodySequence :: "int option"

record actor_lease =
  lease_actorId :: string
  lease_generation :: nat

record custody_module =
  cm_state :: custody_context
  cm_generation :: nat
  cm_authSubject :: "string option"
  cm_announced :: "string option list"
  cm_tripNotices :: nat

definition emptyContext :: custody_context where
  "emptyContext = \<lparr>ctx_actorId = None, ctx_tripId = None, ctx_custodySequence = None\<rparr>"

definition initialModule :: custody_module where
  "initialModule = \<lparr>cm_state = emptyContext, cm_generation = 0, cm_authSubject = None,
     cm_announced = [], cm_tripNotices = 0\<rparr>"

section \<open>Operations\<close>

definition actorGeneration :: "custody_module \<Rightarrow> nat" where
  "actorGeneration m = cm_generation m"

definition currentActorId :: "custody_module \<Rightarrow> string option" where
  "currentActorId m = ctx_actorId (cm_state m)"

text \<open>\<open>Inl\<close> carries the message of the \<open>Error\<close> the code throws.\<close>

definition accountChanged :: string where
  "accountChanged = ''Account changed; captured work is retained.''"

definition assertActorGeneration :: "custody_module \<Rightarrow> nat \<Rightarrow> string + unit" where
  "assertActorGeneration m expected =
     (if cm_generation m \<noteq> expected then Inl accountChanged else Inr ())"

definition announceActor :: "string option \<Rightarrow> custody_module \<Rightarrow> custody_module" where
  "announceActor a m = m\<lparr>cm_announced := cm_announced m @ [a]\<rparr>"

definition invalidateActorLease :: "custody_module \<Rightarrow> custody_module" where
  "invalidateActorLease m =
     announceActor None (m\<lparr>cm_generation := Suc (cm_generation m), cm_state := emptyContext\<rparr>)"

definition observeAuthSession :: "string option \<Rightarrow> custody_module \<Rightarrow> custody_module" where
  "observeAuthSession subject m =
     (if subject \<noteq> cm_authSubject m
      then invalidateActorLease (m\<lparr>cm_authSubject := subject\<rparr>)
      else m)"

definition bindActorLease :: "string \<Rightarrow> nat \<Rightarrow> custody_module \<Rightarrow> bool \<times> custody_module" where
  "bindActorLease actorId expected m =
     (if cm_generation m \<noteq> expected then (False, m)
      else if ctx_actorId (cm_state m) \<noteq> Some actorId
      then (True, announceActor (Some actorId)
              (m\<lparr>cm_state := \<lparr>ctx_actorId = Some actorId, ctx_tripId = None, ctx_custodySequence = None\<rparr>\<rparr>))
      else (True, m))"

definition captureActorLease :: "custody_module \<Rightarrow> actor_lease option" where
  "captureActorLease m = (case ctx_actorId (cm_state m) of
       None \<Rightarrow> None
     | Some a \<Rightarrow> Some \<lparr>lease_actorId = a, lease_generation = cm_generation m\<rparr>)"

definition isActorLeaseCurrent :: "actor_lease \<Rightarrow> custody_module \<Rightarrow> bool" where
  "isActorLeaseCurrent l m \<longleftrightarrow>
     lease_generation l = cm_generation m \<and> Some (lease_actorId l) = ctx_actorId (cm_state m)"

definition assertActorLease :: "actor_lease \<Rightarrow> custody_module \<Rightarrow> string + unit" where
  "assertActorLease l m = (if \<not> isActorLeaseCurrent l m then Inl accountChanged else Inr ())"

definition setCustodyContext :: "custody_context \<Rightarrow> custody_module \<Rightarrow> custody_module" where
  "setCustodyContext nxt m =
     (if ctx_actorId nxt \<noteq> ctx_actorId (cm_state m) then m
      else let changed = ctx_tripId nxt \<noteq> ctx_tripId (cm_state m)
                 \<or> ctx_custodySequence nxt \<noteq> ctx_custodySequence (cm_state m)
           in m\<lparr>cm_state := nxt,
                cm_tripNotices := (if changed then Suc (cm_tripNotices m) else cm_tripNotices m)\<rparr>)"

definition captureCustody :: "string \<Rightarrow> custody_module \<Rightarrow> custody_stamp" where
  "captureCustody tripId m =
     \<lparr>stamp_actorId = ctx_actorId (cm_state m),
      stamp_custodySequence =
        (if ctx_tripId (cm_state m) = Some tripId then ctx_custodySequence (cm_state m) else None)\<rparr>"

text \<open>\<open>(x ?? 0)\<close>: an unknown period compares as the period before any substitution.\<close>

definition orZero :: "int option \<Rightarrow> int" where
  "orZero x = (case x of None \<Rightarrow> 0 | Some n \<Rightarrow> n)"

definition isCurrentTripCustody :: "string \<Rightarrow> custody_stamp \<Rightarrow> custody_module \<Rightarrow> bool" where
  "isCurrentTripCustody tripId stamp m \<longleftrightarrow>
     ctx_tripId (cm_state m) = Some tripId
     \<and> ctx_actorId (cm_state m) = stamp_actorId stamp
     \<and> orZero (ctx_custodySequence (cm_state m)) = orZero (stamp_custodySequence stamp)"

section \<open>Histories\<close>

text \<open>Everything that can happen to the module, in the order in which it happens.\<close>

datatype custody_event =
    Invalidate
  | Observe "string option"
  | Bind string nat
  | SetContext custody_context

fun custody_step :: "custody_event \<Rightarrow> custody_module \<Rightarrow> custody_module" where
  "custody_step Invalidate m = invalidateActorLease m"
| "custody_step (Observe s) m = observeAuthSession s m"
| "custody_step (Bind a g) m = snd (bindActorLease a g m)"
| "custody_step (SetContext c) m = setCustodyContext c m"

abbreviation custody_run :: "custody_event list \<Rightarrow> custody_module \<Rightarrow> custody_module" where
  "custody_run es m \<equiv> fold custody_step es m"

lemmas custody_defs =
  actorGeneration_def currentActorId_def announceActor_def invalidateActorLease_def
  observeAuthSession_def bindActorLease_def captureActorLease_def isActorLeaseCurrent_def
  setCustodyContext_def captureCustody_def Let_def

lemma custody_step_generation: "cm_generation m \<le> cm_generation (custody_step e m)"
  by (cases e) (auto simp: custody_defs)

lemma custody_run_generation: "cm_generation m \<le> cm_generation (custody_run es m)"
proof (induction es arbitrary: m)
  case (Cons e es)
  then show ?case using custody_step_generation[of m e] by (auto intro: order_trans)
qed simp

text \<open>Within one generation the bound driver can only be replaced by another binding.\<close>

definition keeps_binding :: "string \<Rightarrow> custody_event \<Rightarrow> bool" where
  "keeps_binding a e = (case e of Bind b g \<Rightarrow> b = a | _ \<Rightarrow> True)"

lemma custody_step_same_generation:
  assumes "cm_generation (custody_step e m) = cm_generation m"
    and "ctx_actorId (cm_state m) = Some a" "keeps_binding a e"
  shows "ctx_actorId (cm_state (custody_step e m)) = Some a"
  using assms by (cases e) (auto simp: custody_defs keeps_binding_def)

section \<open>Where a stamp comes from\<close>

text \<open>
  The invariant of a history \<open>E\<close>: the signed-in driver was bound in the current generation,
  and the trip and period that a stamp would carry came from one \<open>setCustodyContext\<close>.
\<close>

definition custody_inv :: "custody_event set \<Rightarrow> custody_module \<Rightarrow> bool" where
  "custody_inv E m \<longleftrightarrow>
     (\<forall>a. ctx_actorId (cm_state m) = Some a \<longrightarrow> Bind a (cm_generation m) \<in> E)
     \<and> (ctx_tripId (cm_state m) = None \<and> ctx_custodySequence (cm_state m) = None
        \<or> SetContext (cm_state m) \<in> E)"

lemma custody_inv_initial: "custody_inv E initialModule"
  by (simp add: custody_inv_def initialModule_def emptyContext_def)

lemma custody_inv_step: "custody_inv E m \<Longrightarrow> custody_inv (insert e E) (custody_step e m)"
  by (cases e) (auto simp: custody_inv_def custody_defs emptyContext_def)

lemma custody_inv_run: "custody_inv E m \<Longrightarrow> custody_inv (E \<union> set es) (custody_run es m)"
proof (induction es arbitrary: E m)
  case (Cons e es)
  from Cons.IH[OF custody_inv_step[OF Cons.prems, of e]] show ?case by simp
qed simp

text \<open>Property C22. Every stamp taken on a trip is honest about its origin: the capturing account was
  bound by a profile resolved in the current sign-in generation, and a custody period is only
  ever stamped if the server's answer for that same trip, fed in for that same account,
  reported it. A period learned for another trip or another account is never borrowed.\<close>

theorem stamp_provenance:
  assumes "stamp_actorId (captureCustody t (custody_run es initialModule)) = Some a"
  shows "Bind a (cm_generation (custody_run es initialModule)) \<in> set es
    \<and> (\<forall>n. stamp_custodySequence (captureCustody t (custody_run es initialModule)) = Some n \<longrightarrow>
          SetContext \<lparr>ctx_actorId = Some a, ctx_tripId = Some t, ctx_custodySequence = Some n\<rparr> \<in> set es)"
proof -
  define m where "m = custody_run es initialModule"
  have inv: "custody_inv (set es) m"
    using custody_inv_run[OF custody_inv_initial[of "{}"], of es] by (simp add: m_def)
  have a: "ctx_actorId (cm_state m) = Some a"
    using assms by (simp add: m_def captureCustody_def)
  have ctx: "cm_state m = \<lparr>ctx_actorId = Some a, ctx_tripId = Some t, ctx_custodySequence = Some n\<rparr>"
    if "stamp_custodySequence (captureCustody t m) = Some n" for n
    using that a by (cases "cm_state m") (auto simp: captureCustody_def split: if_splits)
  show ?thesis
    unfolding m_def[symmetric]
    using inv a ctx by (fastforce simp: custody_inv_def)
qed

theorem stamp_provenance_witness:
  "let es = [Observe (Some ''sub''), Bind ''A'' 1,
             SetContext \<lparr>ctx_actorId = Some ''A'', ctx_tripId = Some ''t'', ctx_custodySequence = Some 2\<rparr>]
   in stamp_actorId (captureCustody ''t'' (custody_run es initialModule)) = Some ''A''
      \<and> stamp_custodySequence (captureCustody ''t'' (custody_run es initialModule)) = Some 2
      \<and> Bind ''A'' (cm_generation (custody_run es initialModule)) \<in> set es"
proof -
  let ?es = "[Observe (Some ''sub''), Bind ''A'' 1,
             SetContext \<lparr>ctx_actorId = Some ''A'', ctx_tripId = Some ''t'', ctx_custodySequence = Some 2\<rparr>]"
  have h: "stamp_actorId (captureCustody ''t'' (custody_run ?es initialModule)) = Some ''A''"
    by (simp add: custody_defs initialModule_def emptyContext_def)
  have q: "stamp_custodySequence (captureCustody ''t'' (custody_run ?es initialModule)) = Some 2"
    by (simp add: custody_defs initialModule_def emptyContext_def)
  show ?thesis unfolding Let_def using h q stamp_provenance[OF h] by blast
qed

section \<open>A lease does not survive a session boundary\<close>

definition session_boundary :: "custody_event \<Rightarrow> custody_module \<Rightarrow> bool" where
  "session_boundary e m \<longleftrightarrow> e = Invalidate \<or> (\<exists>s. e = Observe s \<and> s \<noteq> cm_authSubject m)"

lemma boundary_advances: "session_boundary e m \<Longrightarrow> cm_generation m < cm_generation (custody_step e m)"
  by (auto simp: session_boundary_def custody_defs)

lemma capture_generation: "captureActorLease m = Some l \<Longrightarrow> lease_generation l = cm_generation m"
  by (auto simp: captureActorLease_def split: option.splits)

lemma stale_generation_dead: "lease_generation l < cm_generation m \<Longrightarrow> \<not> isActorLeaseCurrent l m"
  by (simp add: isActorLeaseCurrent_def)

text \<open>Property C23. A lease taken by one sign-in is dead for good once a session boundary (a sign-out, or
  another authentication subject) has happened, whatever follows it: not even the same driver
  signing back in (account A, then B, then A again) makes the old lease current.\<close>

theorem lease_never_revives:
  assumes "captureActorLease m = Some l" and "session_boundary e (custody_run before m)"
  shows "\<not> isActorLeaseCurrent l (custody_run after (custody_step e (custody_run before m)))"
proof (rule stale_generation_dead)
  have "lease_generation l \<le> cm_generation (custody_run before m)"
    using capture_generation[OF assms(1)] custody_run_generation[of m before] by simp
  also have "\<dots> < cm_generation (custody_step e (custody_run before m))"
    by (rule boundary_advances[OF assms(2)])
  also have "\<dots> \<le> cm_generation (custody_run after (custody_step e (custody_run before m)))"
    by (rule custody_run_generation)
  finally show "lease_generation l
    < cm_generation (custody_run after (custody_step e (custody_run before m)))" .
qed

theorem lease_never_revives_witness:
  "let m = custody_run [Observe (Some ''a''), Bind ''A'' 1] initialModule;
       l = \<lparr>lease_actorId = ''A'', lease_generation = 1\<rparr>;
       m' = custody_run [Bind ''A'' 3] (custody_step (Observe (Some ''a'')) (custody_run [Observe None] m))
   in captureActorLease m = Some l \<and> isActorLeaseCurrent l m
      \<and> currentActorId m' = Some ''A'' \<and> \<not> isActorLeaseCurrent l m'"
proof -
  let ?m = "custody_run [Observe (Some ''a''), Bind ''A'' 1] initialModule"
  let ?l = "\<lparr>lease_actorId = ''A'', lease_generation = 1\<rparr> :: actor_lease"
  have l: "captureActorLease ?m = Some ?l" and cur: "isActorLeaseCurrent ?l ?m"
    by (simp_all add: custody_defs initialModule_def emptyContext_def)
  have b: "session_boundary (Observe (Some ''a'')) (custody_run [Observe None] ?m)"
    by (simp add: session_boundary_def custody_defs initialModule_def emptyContext_def)
  have again: "currentActorId (custody_run [Bind ''A'' 3]
      (custody_step (Observe (Some ''a'')) (custody_run [Observe None] ?m))) = Some ''A''"
    by (simp add: custody_defs initialModule_def emptyContext_def numeral_3_eq_3)
  show ?thesis unfolding Let_def
    using l cur again lease_never_revives[OF l b, of "[Bind ''A'' 3]"] by blast
qed

text \<open>
  The boundary is needed: two bindings inside one generation would bring a lease back. The
  program binds only the resolved profile of one session, so a generation has one driver.
\<close>

lemma rebinding_revives_a_lease:
  "let m = custody_run [Bind ''A'' 0] initialModule;
       l = \<lparr>lease_actorId = ''A'', lease_generation = 0\<rparr>
   in captureActorLease m = Some l
      \<and> \<not> isActorLeaseCurrent l (custody_run [Bind ''B'' 0] m)
      \<and> isActorLeaseCurrent l (custody_run [Bind ''B'' 0, Bind ''A'' 0] m)"
  by (simp add: custody_defs initialModule_def emptyContext_def)

end
