(* ===== verification/Conflict.thy ===== *)
theory Conflict
  imports JsPrelude
begin

text \<open>
  What a failed request means. The coded errors of \<open>lib/api/client.ts\<close> and
  \<open>shared/lib/types/driver-substitution.ts\<close>, the classification of a failed live write of
  \<open>lib/offline/live-write-conflict.ts\<close> and \<open>lib/utils/is-queueable-failure.ts\<close>.
\<close>

section \<open>Errors\<close>

text \<open>
  \<open>SubstitutionErrorCode\<close> and the one code outside it. \<open>Unknown_code\<close> is a code this build
  does not list: \<open>readError\<close> does not narrow against the known list.
\<close>

datatype conflict_code =
    TRIP_HANDED_OVER
  | CUSTODY_CONTEXT_CHANGED
  | CUSTODY_CONTEXT_REQUIRED
  | SUBSTITUTION_VERSION_CHANGED
  | SUBSTITUTION_NOT_PENDING
  | DRIVER_UNAVAILABLE
  | INCOMING_DRIVER_INACTIVE
  | LICENCE_INVALID
  | IDENTITY_ATTESTATION_FORBIDDEN
  | IDENTITY_NOT_VERIFIED
  | IDEMPOTENCY_KEY_REUSED
  | EVIDENCE_ALREADY_RECORDED
  | SUBSTITUTIONS_DISABLED
  | PHASE_OVERRIDDEN
  | Unknown_code string

record api_error_detail =
  aed_code :: conflict_code
  aed_requestId :: "string option"
  aed_currentVersion :: "int option"
  aed_evidenceId :: "string option"

record api_error =
  ae_status :: int
  ae_message :: string
  ae_retryAfterMs :: "number option"
  ae_detail :: "api_error_detail option"

definition ae_code :: "api_error \<Rightarrow> conflict_code option" where
  "ae_code e = map_option aed_code (ae_detail e)"

text \<open>
  What an \<open>await\<close> can throw, as the code tells them apart: an \<open>ApiError\<close>, a \<open>TypeError\<close>
  (\<open>fetch\<close> without a connection) or any other \<open>Error\<close>.
\<close>

datatype js_error = ApiErr api_error | TypeErr string | OtherErr string

fun error_message :: "js_error \<Rightarrow> string" where
  "error_message (ApiErr e) = ae_message e"
| "error_message (TypeErr m) = m"
| "error_message (OtherErr m) = m"

text \<open>\<open>new ApiError(status, message)\<close>.\<close>

definition plainApiError :: "int \<Rightarrow> string \<Rightarrow> js_error" where
  "plainApiError status message =
     ApiErr \<lparr>ae_status = status, ae_message = message, ae_retryAfterMs = None, ae_detail = None\<rparr>"

definition SUBSTITUTION_ERROR_STATUS :: "conflict_code \<rightharpoonup> int" where
  "SUBSTITUTION_ERROR_STATUS c = (case c of
       IDENTITY_ATTESTATION_FORBIDDEN \<Rightarrow> Some 403
     | SUBSTITUTIONS_DISABLED \<Rightarrow> Some 503
     | PHASE_OVERRIDDEN \<Rightarrow> None
     | Unknown_code _ \<Rightarrow> None
     | _ \<Rightarrow> Some 409)"

section \<open>Retained captures\<close>

record retained_attention =
  att_code :: "conflict_code option"
  att_status :: int
  att_reason :: string
  att_lateEligible :: bool
  att_at :: iso

datatype live_write_failure =
    Transient "number option"
  | Duplicate "string option"
  | Retain retained_attention

definition DEFAULT_RATE_LIMIT_RETRY_MS :: number where
  "DEFAULT_RATE_LIMIT_RETRY_MS = 60000"

fun CODED_REASONS :: "conflict_code \<Rightarrow> string option" where
  "CODED_REASONS TRIP_HANDED_OVER = Some
     ''You handed this trip over before this was sent. It is kept on this phone. Send it as late evidence.''"
| "CODED_REASONS CUSTODY_CONTEXT_CHANGED = Some
     ''The trip changed driver after you captured this. It is kept under the period you captured it in. Send it as late evidence.''"
| "CODED_REASONS CUSTODY_CONTEXT_REQUIRED = Some
     ''This was captured before the app recorded the custody period, so it cannot be sent on its own. Keep it for review or export it.''"
| "CODED_REASONS IDEMPOTENCY_KEY_REUSED = Some
     ''The server already holds a different version of this capture. It is kept on this phone for review.''"
| "CODED_REASONS _ = None"

definition LATE_ELIGIBLE :: "conflict_code \<Rightarrow> bool" where
  "LATE_ELIGIBLE c \<longleftrightarrow> c \<in> {TRIP_HANDED_OVER, CUSTODY_CONTEXT_CHANGED}"

definition PHASE_OVERRIDDEN_REASON :: string where
  "PHASE_OVERRIDDEN_REASON =
     ''The dispatcher closed this step while your capture was waiting. It is kept on this phone.''"

definition UNRECOGNISED_REASON :: string where
  "UNRECOGNISED_REASON = ''The server did not accept this. It is kept on this phone for review.''"

definition retainedAttention :: "iso \<Rightarrow> conflict_code option \<Rightarrow> int \<Rightarrow> string \<Rightarrow> retained_attention" where
  "retainedAttention now code status message =
     \<lparr>att_code = code,
      att_status = status,
      att_reason = (case Option.bind code CODED_REASONS of
          Some reason \<Rightarrow> reason
        | None \<Rightarrow> if message \<noteq> [] then message else UNRECOGNISED_REASON),
      att_lateEligible = (case code of None \<Rightarrow> False | Some c \<Rightarrow> LATE_ELIGIBLE c),
      att_at = now\<rparr>"

fun classifyLiveWriteFailure :: "iso \<Rightarrow> js_error \<Rightarrow> live_write_failure" where
  "classifyLiveWriteFailure now (ApiErr e) =
     (if ae_status e = 429 then
        Transient (Some (case ae_retryAfterMs e of None \<Rightarrow> DEFAULT_RATE_LIMIT_RETRY_MS | Some d \<Rightarrow> d))
      else if ae_status e = 0 \<or> ae_status e = 401 \<or> ae_status e = 408 then Transient None
      else if ae_status e < 400 \<or> 500 \<le> ae_status e then Transient None
      else if ae_code e = Some EVIDENCE_ALREADY_RECORDED then
        Duplicate (Option.bind (ae_detail e) aed_evidenceId)
      else Retain (retainedAttention now (ae_code e) (ae_status e) (ae_message e)))"
| "classifyLiveWriteFailure now _ = Transient None"

definition isCustodyConflict :: "retained_attention \<Rightarrow> bool" where
  "isCustodyConflict a \<longleftrightarrow> att_code a = Some TRIP_HANDED_OVER
     \<or> att_code a = Some CUSTODY_CONTEXT_CHANGED
     \<or> att_code a = Some CUSTODY_CONTEXT_REQUIRED"

definition isPhaseOverridden :: "retained_attention \<Rightarrow> bool" where
  "isPhaseOverridden a \<longleftrightarrow> att_code a = Some PHASE_OVERRIDDEN"

fun isQueueableFailure :: "js_error \<Rightarrow> bool" where
  "isQueueableFailure (ApiErr e) \<longleftrightarrow> ae_status e = 0 \<or> 500 \<le> ae_status e"
| "isQueueableFailure (TypeErr _) \<longleftrightarrow> True"
| "isQueueableFailure (OtherErr _) \<longleftrightarrow> False"

section \<open>What the classification promises\<close>

text \<open>A definite refusal of the evidence itself: a client error other than sign-in, timeout and rate.\<close>

definition definite_refusal :: "js_error \<Rightarrow> bool" where
  "definite_refusal err \<longleftrightarrow> (\<exists>e. err = ApiErr e \<and> 400 \<le> ae_status e \<and> ae_status e < 500
     \<and> ae_status e \<notin> {401, 408, 429})"

definition proven_duplicate :: "js_error \<Rightarrow> bool" where
  "proven_duplicate err \<longleftrightarrow> definite_refusal err
     \<and> (\<exists>e. err = ApiErr e \<and> ae_code e = Some EVIDENCE_ALREADY_RECORDED)"

lemma classify_duplicate_iff:
  "(\<exists>x. classifyLiveWriteFailure now err = Duplicate x) \<longleftrightarrow> proven_duplicate err"
  by (cases err) (auto simp: proven_duplicate_def definite_refusal_def)

lemma classify_retain_iff:
  "(\<exists>a. classifyLiveWriteFailure now err = Retain a) \<longleftrightarrow> definite_refusal err \<and> \<not> proven_duplicate err"
  by (cases err) (auto simp: proven_duplicate_def definite_refusal_def)

lemma classify_retain_attention:
  "classifyLiveWriteFailure now err = Retain a \<Longrightarrow>
     \<exists>e. err = ApiErr e \<and> a = retainedAttention now (ae_code e) (ae_status e) (ae_message e)"
  by (cases err) (auto split: if_splits)

lemma retainedAttention_reason: "att_reason (retainedAttention now c s m) \<noteq> []"
proof (cases "Option.bind c CODED_REASONS")
  case None
  then show ?thesis by (simp add: retainedAttention_def UNRECOGNISED_REASON_def)
next
  case (Some r)
  then obtain c' where c: "c = Some c'" "CODED_REASONS c' = Some r" by (cases c) auto
  have "r \<noteq> []" using c(2) by (cases c' rule: CODED_REASONS.cases) auto
  then show ?thesis using Some by (simp add: retainedAttention_def)
qed

text \<open>Property C25. The classification of a failed send loses no evidence: only the server's coded proof
  (EVIDENCE_ALREADY_RECORDED on a definite client-error status) may clear an item; every other
  definite refusal, a 409 with any other or unknown code included, is retained with a non-empty
  reason; and everything else (no response, sign-in, timeout, rate limit, server error) is
  transient, where a rate limit always carries a delay.\<close>

theorem classification_clears_only_proven_duplicates:
  "((\<exists>x. classifyLiveWriteFailure now err = Duplicate x) \<longleftrightarrow> proven_duplicate err)
   \<and> (definite_refusal err \<and> \<not> proven_duplicate err \<longleftrightarrow>
        (\<exists>a. classifyLiveWriteFailure now err = Retain a \<and> att_reason a \<noteq> []))
   \<and> (\<not> definite_refusal err \<longleftrightarrow>
        (\<exists>d. classifyLiveWriteFailure now err = Transient d
           \<and> (d = None \<longleftrightarrow> \<not> (\<exists>e. err = ApiErr e \<and> ae_status e = 429))))"
proof (intro conjI)
  show "(\<exists>x. classifyLiveWriteFailure now err = Duplicate x) \<longleftrightarrow> proven_duplicate err"
    by (rule classify_duplicate_iff)
  show "definite_refusal err \<and> \<not> proven_duplicate err \<longleftrightarrow>
        (\<exists>a. classifyLiveWriteFailure now err = Retain a \<and> att_reason a \<noteq> [])"
    using classify_retain_iff[of now err] classify_retain_attention[of now err]
      retainedAttention_reason by metis
  show "\<not> definite_refusal err \<longleftrightarrow>
        (\<exists>d. classifyLiveWriteFailure now err = Transient d
           \<and> (d = None \<longleftrightarrow> \<not> (\<exists>e. err = ApiErr e \<and> ae_status e = 429)))"
    by (cases err) (auto simp: definite_refusal_def)
qed

text \<open>Of the codes of the driver-substitution contract, sent with the status the contract
  fixes for them, exactly one clears a queued item, exactly one (the feature switched off, 503)
  is retried, and all others keep the capture for the driver.\<close>

theorem contract_codes_outcome:
  assumes "SUBSTITUTION_ERROR_STATUS c = Some st"
  shows "let f = classifyLiveWriteFailure now (ApiErr \<lparr>ae_status = st, ae_message = m, ae_retryAfterMs = r,
             ae_detail = Some \<lparr>aed_code = c, aed_requestId = q, aed_currentVersion = v, aed_evidenceId = ev\<rparr>\<rparr>)
         in (f = Duplicate ev \<longleftrightarrow> c = EVIDENCE_ALREADY_RECORDED)
            \<and> (f = Transient None \<longleftrightarrow> c = SUBSTITUTIONS_DISABLED)
            \<and> ((\<exists>a. f = Retain a \<and> att_code a = Some c) \<longleftrightarrow>
                 c \<noteq> EVIDENCE_ALREADY_RECORDED \<and> c \<noteq> SUBSTITUTIONS_DISABLED)"
  using assms
  by (cases c) (auto simp: SUBSTITUTION_ERROR_STATUS_def ae_code_def retainedAttention_def Let_def)

theorem contract_codes_outcome_witness:
  "SUBSTITUTION_ERROR_STATUS SUBSTITUTIONS_DISABLED = Some 503
   \<and> classifyLiveWriteFailure ''now'' (ApiErr \<lparr>ae_status = 503, ae_message = [], ae_retryAfterMs = None,
        ae_detail = Some \<lparr>aed_code = SUBSTITUTIONS_DISABLED, aed_requestId = None,
           aed_currentVersion = None, aed_evidenceId = None\<rparr>\<rparr>) = Transient None"
proof -
  have h: "SUBSTITUTION_ERROR_STATUS SUBSTITUTIONS_DISABLED = Some 503"
    by (simp add: SUBSTITUTION_ERROR_STATUS_def)
  show ?thesis using h contract_codes_outcome[OF h] by (simp add: Let_def)
qed

text \<open>The two readings of a failure agree where both apply: whatever the online submitter
  queues for replay is transient for the queue that will replay it (so a queued capture is never
  parked or cleared by the very failure that queued it), and only a capture that custody moved
  on from is ever offered as late evidence, never one that dispatch closed.\<close>

theorem queueable_is_transient_and_late_is_custody:
  "(isQueueableFailure err \<longrightarrow> (\<exists>d. classifyLiveWriteFailure now err = Transient d))
   \<and> (classifyLiveWriteFailure now err = Retain a \<and> att_lateEligible a \<longrightarrow>
        isCustodyConflict a \<and> \<not> isPhaseOverridden a)"
proof (intro conjI impI)
  assume "isQueueableFailure err"
  then show "\<exists>d. classifyLiveWriteFailure now err = Transient d"
    by (cases err) auto
next
  assume "classifyLiveWriteFailure now err = Retain a \<and> att_lateEligible a"
  then show "isCustodyConflict a" and "\<not> isPhaseOverridden a"
    using classify_retain_attention[of now err a]
    by (auto simp: retainedAttention_def LATE_ELIGIBLE_def isCustodyConflict_def isPhaseOverridden_def
        split: option.splits)
qed

theorem queueable_is_transient_and_late_is_custody_witness:
  "let a = retainedAttention ''now'' (Some TRIP_HANDED_OVER) 409 []
   in isQueueableFailure (TypeErr ''offline'')
      \<and> (\<exists>d. classifyLiveWriteFailure ''now'' (TypeErr ''offline'') = Transient d)
      \<and> classifyLiveWriteFailure ''now'' (ApiErr \<lparr>ae_status = 409, ae_message = [], ae_retryAfterMs = None,
            ae_detail = Some \<lparr>aed_code = TRIP_HANDED_OVER, aed_requestId = None,
              aed_currentVersion = None, aed_evidenceId = None\<rparr>\<rparr>) = Retain a
      \<and> isCustodyConflict a"
proof -
  let ?a = "retainedAttention ''now'' (Some TRIP_HANDED_OVER) 409 []"
  let ?e = "ApiErr \<lparr>ae_status = 409, ae_message = [], ae_retryAfterMs = None,
            ae_detail = Some \<lparr>aed_code = TRIP_HANDED_OVER, aed_requestId = None,
              aed_currentVersion = None, aed_evidenceId = None\<rparr>\<rparr>"
  have c: "classifyLiveWriteFailure ''now'' ?e = Retain ?a"
    by (simp add: ae_code_def)
  have l: "att_lateEligible ?a" by (simp add: retainedAttention_def LATE_ELIGIBLE_def)
  have q: "isQueueableFailure (TypeErr ''offline'')" by simp
  show ?thesis unfolding Let_def
    using q c l queueable_is_transient_and_late_is_custody[of "TypeErr ''offline''" "''now''" ?a]
      queueable_is_transient_and_late_is_custody[of ?e "''now''" ?a] by blast
qed

end
