(* ===== verification/PhasePlan.thy ===== *)
theory PhasePlan
  imports JsPrelude
begin

text \<open>
  The committed phase plan of a trip as the driver's app reads it:
  \<open>shared/lib/types/phase.ts\<close> (the ledger row), \<open>shared/lib/constants/phase-meta.ts\<close>
  (names, step recipes, evidence roles per phase type) and \<open>lib/phase/derive.ts\<close> (where the
  trip is, what the driver does next). The plan is data: no length is assumed.
\<close>

section \<open>The ledger row\<close>

datatype phase_type =
    Trip_creation | Activation | Loading | Departure | In_transit | Arrival | Unloading | Confirmation

datatype seal_condition = Intact | Damaged | Missing

datatype phase_status = Ph_pending | Ph_in_progress | Ph_completed | Ph_exception | Ph_overridden

datatype anchor_status = Not_required | Anchor_pending | Anchored | Anchor_failed

datatype coarse_trip_status = Trip_created | Trip_active | Trip_closed | Trip_cancelled | Exception_hold

record phase_row =
  phase_event_id :: string
  phase_trip_id :: string
  phase_kind :: phase_type
  trip_stop_id :: "string option"
  stop_sequence :: "int option"
  sequence_number :: int
  phase_state :: phase_status
  anchor_state :: anchor_status
  step_recipe :: "string list"
  blocked_on :: "string field"

text \<open>
  What the server found when it compared the driver's phone with the truck tracker at capture
  (\<open>shared/lib/types/action-location.ts\<close>): the two fixes, their comparison and the precinct as it
  stood then.
\<close>

datatype proximity_verdict = Within_limit | Separated | Unverified_proximity

datatype proximity_reason =
  Missing_phone | Missing_tracker | Missing_time | Missing_accuracy | Poor_accuracy | Stale_fix | Time_skew | Future_fix

type_synonym lat_lng = "number \<times> number"

record location_assessment =
  la_schema_version :: int
  la_policy_version :: string
  la_evaluated_at :: string
  la_driver_lat :: "number option"
  la_driver_lng :: "number option"
  la_driver_captured_at :: "string option"
  la_driver_accuracy_metres :: "number option"
  la_tracker_lat :: "number option"
  la_tracker_lng :: "number option"
  la_tracker_captured_at :: "string option"
  la_separation_metres :: "number option"
  la_proximity :: proximity_verdict
  la_reasons :: "proximity_reason list"
  la_max_separation_metres :: number
  la_max_age_seconds :: number
  la_max_skew_seconds :: number
  la_max_phone_accuracy_metres :: number
  la_expected_trip_stop_id :: "string option"
  la_precinct_id :: "string option"
  la_precinct_lat :: "number option"
  la_precinct_lng :: "number option"
  la_precinct_radius_metres :: "number option"
  la_precinct_geofence_polygon :: "lat_lng list field"
  la_precinct_tolerance_metres :: "number option"
  la_driver_in_precinct :: "bool option"
  la_truck_in_precinct :: "bool option"

text \<open>The evidence columns of the row, filled as the phase completes.\<close>

record phase_descriptor = phase_row +
  dispatcher_override_user_id :: "string option"
  dispatcher_override_note :: "string option"
  driver_phone_lat :: "number option"
  driver_phone_lng :: "number option"
  horse_gps_lat :: "number option"
  horse_gps_lng :: "number option"
  pulsit_geofence_confirmed :: "bool option"
  action_location_assessment :: "location_assessment field"
  row_driver_captured_at :: "string field"
  row_seal_number :: "string option"
  row_seal_condition :: "seal_condition field"
  row_seal_photo_artifact_id :: "string option"
  row_waybill_photo_artifact_id :: "string option"
  row_gate_photo_artifact_id :: "string option"
  row_pod_photo_artifact_id :: "string option"
  row_linehaul_photo_artifact_id :: "string field"
  row_linehaul_pdf_artifact_id :: "string field"
  row_pod_signature_artifact_id :: "string option"
  parcel_count_origin :: "int option"
  parcel_count_destination :: "int option"
  row_driver_visual_count :: "int option"
  event_hash :: "string option"
  blockchain_receipt_id :: "string option"
  row_idempotency_key :: "string option"
  completed_at :: "string option"
  row_created_at :: string
  row_updated_at :: string

record phase_step =
  ps_phase_event_id :: string
  ps_stepIndex :: nat
  ps_slug :: string
  ps_displayName :: string

section \<open>Per-type constants\<close>

fun PHASE_NAMES :: "phase_type \<Rightarrow> string" where
  "PHASE_NAMES Trip_creation = ''Trip Created''"
| "PHASE_NAMES Activation = ''Activation''"
| "PHASE_NAMES Loading = ''Loading''"
| "PHASE_NAMES Departure = ''Departure''"
| "PHASE_NAMES In_transit = ''In Transit''"
| "PHASE_NAMES Arrival = ''Arrival''"
| "PHASE_NAMES Unloading = ''Unloading''"
| "PHASE_NAMES Confirmation = ''Confirmation''"

fun STEP_SLUGS :: "phase_type \<Rightarrow> string list" where
  "STEP_SLUGS Trip_creation = []"
| "STEP_SLUGS Activation = [''2-verification'']"
| "STEP_SLUGS Loading = [''1-linehaul'']"
| "STEP_SLUGS Departure = [''2-capture-seal'', ''4-departure'']"
| "STEP_SLUGS In_transit = []"
| "STEP_SLUGS Arrival = [''2-seal-verify'']"
| "STEP_SLUGS Unloading = [''4-visual-count'']"
| "STEP_SLUGS Confirmation = [''1-pod-photo'', ''2-receiver-handover'', ''3-reconciliation'', ''4-closed'']"

fun STEP_NAMES :: "phase_type \<Rightarrow> string list" where
  "STEP_NAMES Trip_creation = []"
| "STEP_NAMES Activation = [''Verification'']"
| "STEP_NAMES Loading = [''Linehaul'']"
| "STEP_NAMES Departure = [''Capture Seal'', ''Confirm Departure'']"
| "STEP_NAMES In_transit = []"
| "STEP_NAMES Arrival = [''Inspect Seal'']"
| "STEP_NAMES Unloading = [''Visual Count'']"
| "STEP_NAMES Confirmation = [''Photograph POD'', ''Receiver Handover'', ''Reconciliation'', ''Trip Closed'']"

definition ANCHORED_PHASES :: "phase_type list" where
  "ANCHORED_PHASES =
     [Trip_creation, Activation, Loading, Departure, In_transit, Arrival, Unloading, Confirmation]"

datatype evidence_role =
    Linehaul_photo | Linehaul_pdf | Seal_photo | Waybill_photo | Pod_photo | Pod_signature

text \<open>A role as its text, the stem of its column.\<close>

fun role_text :: "evidence_role \<Rightarrow> string" where
  "role_text Linehaul_photo = ''linehaul_photo''"
| "role_text Linehaul_pdf = ''linehaul_pdf''"
| "role_text Seal_photo = ''seal_photo''"
| "role_text Waybill_photo = ''waybill_photo''"
| "role_text Pod_photo = ''pod_photo''"
| "role_text Pod_signature = ''pod_signature''"

fun EVIDENCE_ROLES :: "phase_type \<Rightarrow> evidence_role list" where
  "EVIDENCE_ROLES Loading = [Linehaul_photo, Linehaul_pdf]"
| "EVIDENCE_ROLES Departure = [Seal_photo, Waybill_photo]"
| "EVIDENCE_ROLES Arrival = [Seal_photo]"
| "EVIDENCE_ROLES Confirmation = [Pod_photo, Pod_signature]"
| "EVIDENCE_ROLES _ = []"

section \<open>Derivation\<close>

definition RESOLVED_STATUSES :: "phase_status list" where
  "RESOLVED_STATUSES = [Ph_completed, Ph_exception, Ph_overridden]"

definition isResolved :: "'a phase_row_scheme \<Rightarrow> bool" where
  "isResolved p \<longleftrightarrow> phase_state p \<in> set RESOLVED_STATUSES"

definition bySequence :: "'a phase_row_scheme list \<Rightarrow> 'a phase_row_scheme list" where
  "bySequence phases = sort_key sequence_number phases"

definition currentPhase :: "'a phase_row_scheme list \<Rightarrow> 'a phase_row_scheme option" where
  "currentPhase phases = List.find (\<lambda>p. \<not> isResolved p) (bySequence phases)"

definition actionablePhase :: "'a phase_row_scheme list \<Rightarrow> 'a phase_row_scheme option" where
  "actionablePhase phases =
     List.find (\<lambda>p. \<not> isResolved p \<and> 0 < length (STEP_SLUGS (phase_kind p))) (bySequence phases)"

text \<open>The plan argument may be \<open>null\<close> or \<open>undefined\<close>: both are falsy.\<close>

definition contextPhaseEventId :: "'a phase_row_scheme list field \<Rightarrow> string option" where
  "contextPhaseEventId phases = (case phases of
       Val ps \<Rightarrow> map_option phase_event_id (currentPhase ps)
     | _ \<Rightarrow> None)"

definition stepsFor :: "'a phase_row_scheme \<Rightarrow> phase_step list" where
  "stepsFor p = map (\<lambda>i. \<lparr>ps_phase_event_id = phase_event_id p, ps_stepIndex = i,
       ps_slug = STEP_SLUGS (phase_kind p) ! i, ps_displayName = STEP_NAMES (phase_kind p) ! i\<rparr>)
     [0..<length (STEP_SLUGS (phase_kind p))]"

record plan_progress =
  pp_completed :: nat
  pp_total :: nat

definition planProgress :: "'a phase_row_scheme list \<Rightarrow> plan_progress" where
  "planProgress phases = \<lparr>pp_completed = length (filter isResolved phases), pp_total = length phases\<rparr>"

definition isFinalPhase :: "'a phase_row_scheme list \<Rightarrow> 'a phase_row_scheme \<Rightarrow> bool" where
  "isFinalPhase phases phase \<longleftrightarrow>
     (if length phases = 0 then False
      else list_all (\<lambda>other. sequence_number other \<le> sequence_number phase) phases)"

definition isPhaseBlocked :: "'a phase_row_scheme \<Rightarrow> bool" where
  "isPhaseBlocked p \<longleftrightarrow> coalesce (blocked_on p) \<noteq> None"

definition isAnchored :: "'a phase_row_scheme \<Rightarrow> bool" where
  "isAnchored p \<longleftrightarrow> phase_kind p \<in> set ANCHORED_PHASES"

definition isDriving :: "'a phase_row_scheme list \<Rightarrow> bool" where
  "isDriving phases \<longleftrightarrow> map_option phase_kind (currentPhase phases) = Some In_transit"

section \<open>Correctness\<close>

lemmas plan_defs = currentPhase_def actionablePhase_def bySequence_def

lemma bySequence_set [simp]: "set (bySequence xs) = set xs"
  by (simp add: bySequence_def)

lemma bySequence_sorted: "sorted (map sequence_number (bySequence xs))"
  by (simp add: bySequence_def)

lemma bySequence_perm:
  assumes "distinct (map sequence_number xs)" "mset xs = mset ys"
  shows "bySequence xs = bySequence ys"
proof -
  have "inj_on sequence_number (set xs)" using assms(1) by (simp add: distinct_map)
  then show ?thesis
    unfolding bySequence_def
    by (intro sort_key_inj_key_eq) (auto simp: assms(2))
qed

lemma find_None_bySequence: "List.find P (bySequence xs) = None \<longleftrightarrow> (\<forall>p\<in>set xs. \<not> P p)"
  by (auto simp: find_None_iff)

lemma find_Some_bySequence:
  assumes "List.find P (bySequence xs) = Some p"
  shows "p \<in> set xs" "P p" "q \<in> set xs \<Longrightarrow> P q \<Longrightarrow> sequence_number p \<le> sequence_number q"
  using find_in_set[OF assms] find_least_sorted[OF bySequence_sorted assms] by auto

lemma currentPhase_None_iff: "currentPhase xs = None \<longleftrightarrow> (\<forall>p\<in>set xs. isResolved p)"
  by (simp add: currentPhase_def find_None_bySequence)

text \<open>Where the trip is depends on the ledger alone, not on the order the server sent it in:
  with the plan's distinct sequence numbers, any reordering gives the same current phase and the
  same next driver action; the current phase is an unresolved row no later than any other
  unresolved row; and there is none exactly when every row is resolved.\<close>

theorem current_phase_order_independent:
  assumes "distinct (map sequence_number xs)" "mset xs = mset ys"
  shows "currentPhase xs = currentPhase ys \<and> actionablePhase xs = actionablePhase ys
    \<and> (currentPhase xs = None \<longleftrightarrow> (\<forall>p\<in>set xs. isResolved p))
    \<and> (\<forall>p. currentPhase xs = Some p \<longrightarrow> p \<in> set xs \<and> \<not> isResolved p
          \<and> (\<forall>q\<in>set xs. \<not> isResolved q \<longrightarrow> sequence_number p \<le> sequence_number q))"
  using bySequence_perm[OF assms] currentPhase_None_iff[of xs]
    find_Some_bySequence[of "\<lambda>p. \<not> isResolved p" xs]
  unfolding currentPhase_def actionablePhase_def by auto

definition demo_row :: "int \<Rightarrow> phase_type \<Rightarrow> phase_status \<Rightarrow> phase_row" where
  "demo_row n k st = \<lparr>phase_event_id = replicate (nat n) (CHR ''p''), phase_trip_id = ''t'', phase_kind = k,
     trip_stop_id = None, stop_sequence = None, sequence_number = n, phase_state = st,
     anchor_state = Anchor_pending, step_recipe = STEP_SLUGS k, blocked_on = Undef\<rparr>"

theorem current_phase_order_independent_witness:
  "let xs = [demo_row 2 Unloading Ph_pending, demo_row 1 In_transit Ph_pending]
   in currentPhase xs = Some (demo_row 1 In_transit Ph_pending) \<and> currentPhase xs = currentPhase (rev xs)"
proof -
  let ?xs = "[demo_row 2 Unloading Ph_pending, demo_row 1 In_transit Ph_pending]"
  have d: "distinct (map sequence_number ?xs)" by (simp add: demo_row_def)
  have m: "mset ?xs = mset (rev ?xs)" by simp
  have c: "currentPhase ?xs = Some (demo_row 1 In_transit Ph_pending)"
    by (simp add: plan_defs demo_row_def isResolved_def RESOLVED_STATUSES_def)
  show ?thesis unfolding Let_def using c current_phase_order_independent[OF d m] by blast
qed

text \<open>The driver's next action never lies before the trip's position: it is the current phase
  itself when that phase has capture steps, and a strictly later row when it has none (the
  drive). While the trip is driving, the next action is therefore never the drive itself.\<close>

theorem actionable_relative_to_current:
  assumes "currentPhase xs = Some c" "actionablePhase xs = Some a" "distinct (map sequence_number xs)"
  shows "(STEP_SLUGS (phase_kind c) \<noteq> [] \<longrightarrow> a = c)
    \<and> (STEP_SLUGS (phase_kind c) = [] \<longrightarrow> sequence_number c < sequence_number a)
    \<and> (isDriving xs \<longrightarrow> phase_kind a \<noteq> In_transit \<and> sequence_number c < sequence_number a)"
proof -
  have c: "c \<in> set xs" "\<not> isResolved c"
      "\<And>q. q \<in> set xs \<Longrightarrow> \<not> isResolved q \<Longrightarrow> sequence_number c \<le> sequence_number q"
    using find_Some_bySequence[OF assms(1)[unfolded currentPhase_def]] by auto
  have a: "a \<in> set xs" "\<not> isResolved a" "STEP_SLUGS (phase_kind a) \<noteq> []"
      "\<And>q. q \<in> set xs \<Longrightarrow> \<not> isResolved q \<Longrightarrow> STEP_SLUGS (phase_kind q) \<noteq> []
        \<Longrightarrow> sequence_number a \<le> sequence_number q"
    using find_Some_bySequence[OF assms(2)[unfolded actionablePhase_def]] by auto
  have inj: "p = q" if "p \<in> set xs" "q \<in> set xs" "sequence_number p = sequence_number q" for p q
    using that assms(3) by (auto simp: distinct_map inj_on_def)
  have le: "sequence_number c \<le> sequence_number a" using c a by blast
  have same: "a = c" if "STEP_SLUGS (phase_kind c) \<noteq> []"
    using inj[of a c] a c that le by (meson order_antisym)
  have lt: "sequence_number c < sequence_number a" if "STEP_SLUGS (phase_kind c) = []"
    using inj[of c a] le a(1,3) c(1) that by (auto simp: less_le)
  show ?thesis
    using same lt a(3) by (auto simp: isDriving_def assms(1))
qed

theorem actionable_relative_to_current_witness:
  "let xs = [demo_row 1 In_transit Ph_pending, demo_row 2 Unloading Ph_pending]
   in isDriving xs \<and> actionablePhase xs = Some (demo_row 2 Unloading Ph_pending)
      \<and> sequence_number (demo_row 1 In_transit Ph_pending) < sequence_number (demo_row 2 Unloading Ph_pending)"
proof -
  let ?xs = "[demo_row 1 In_transit Ph_pending, demo_row 2 Unloading Ph_pending]"
  have c: "currentPhase ?xs = Some (demo_row 1 In_transit Ph_pending)"
    and a: "actionablePhase ?xs = Some (demo_row 2 Unloading Ph_pending)"
    and d: "distinct (map sequence_number ?xs)"
    by (simp_all add: plan_defs demo_row_def isResolved_def RESOLVED_STATUSES_def)
  have dr: "isDriving ?xs" using c by (simp add: isDriving_def demo_row_def)
  show ?thesis unfolding Let_def using a dr actionable_relative_to_current[OF c a d] by blast
qed

text \<open>The ledger after its current row is resolved, as a completed submission leaves it.\<close>

definition resolve_current :: "'a phase_row_scheme list \<Rightarrow> 'a phase_row_scheme list" where
  "resolve_current xs = (case currentPhase xs of
       None \<Rightarrow> xs
     | Some c \<Rightarrow> map (\<lambda>p. if phase_event_id p = phase_event_id c
                            then p\<lparr>phase_state := Ph_completed\<rparr> else p) xs)"

lemma resolve_current_ids: "map phase_event_id (resolve_current xs) = map phase_event_id xs"
  by (auto simp: resolve_current_def split: option.splits)

lemma filter_one_more:
  assumes "distinct (map key xs)" "c \<in> set xs" "P (f c)" "\<not> P c"
    and "\<And>p. key p = key c \<Longrightarrow> key (f p) = key c"
  shows "length (filter P (map (\<lambda>p. if key p = key c then f p else p) xs)) = Suc (length (filter P xs))"
  using assms(1,2)
proof (induction xs)
  case (Cons x xs)
  show ?case
  proof (cases "x = c")
    case True
    then have "map (\<lambda>p. if key p = key c then f p else p) xs = xs"
      using Cons.prems(1) by (intro map_idI) (auto simp: image_iff)
    then show ?thesis using True assms(3,4) by simp
  next
    case False
    then have "c \<in> set xs" "key x \<noteq> key c" using Cons.prems by auto
    then show ?thesis using Cons by simp
  qed
qed simp

lemma resolve_current_progress:
  assumes "distinct (map phase_event_id xs)" "currentPhase xs \<noteq> None"
  shows "pp_completed (planProgress (resolve_current xs)) = Suc (pp_completed (planProgress xs))"
proof -
  obtain c where c: "currentPhase xs = Some c" using assms(2) by auto
  have "c \<in> set xs" "\<not> isResolved c"
    using find_Some_bySequence[OF c[unfolded currentPhase_def]] by auto
  then show ?thesis
    using filter_one_more[OF assms(1), of c isResolved "\<lambda>p. p\<lparr>phase_state := Ph_completed\<rparr>"]
    by (simp add: resolve_current_def planProgress_def c isResolved_def RESOLVED_STATUSES_def)
qed

lemma planProgress_done: "currentPhase xs = None \<longleftrightarrow> pp_completed (planProgress xs) = pp_total (planProgress xs)"
proof -
  have "(\<forall>p\<in>set xs. isResolved p) \<longleftrightarrow> filter isResolved xs = xs" by (simp add: filter_id_conv)
  also have "\<dots> \<longleftrightarrow> length (filter isResolved xs) = length xs"
    using length_filter_less[of _ xs isResolved] by (metis filter_id_conv less_irrefl)
  finally show ?thesis by (simp add: currentPhase_None_iff planProgress_def)
qed

text \<open>A plan of any length is finished after exactly as many completions of its current
  phase as the progress indicator still shows outstanding, and no sooner.\<close>

theorem plan_finishes:
  assumes "distinct (map phase_event_id xs)"
  shows "currentPhase ((resolve_current ^^ k) xs) = None \<longleftrightarrow>
         pp_total (planProgress xs) \<le> pp_completed (planProgress xs) + k"
  using assms
proof (induction k arbitrary: xs)
  case 0
  have "pp_completed (planProgress xs) \<le> pp_total (planProgress xs)" by (simp add: planProgress_def)
  then show ?case using planProgress_done[of xs] by auto
next
  case (Suc k)
  let ?ys = "resolve_current xs"
  have d: "distinct (map phase_event_id ?ys)" by (simp add: resolve_current_ids Suc.prems)
  have t: "pp_total (planProgress ?ys) = pp_total (planProgress xs)"
    by (auto simp: planProgress_def resolve_current_def split: option.splits)
  have step: "currentPhase ((resolve_current ^^ Suc k) xs) = currentPhase ((resolve_current ^^ k) ?ys)"
    by (simp add: funpow_swap1)
  show ?case
  proof (cases "currentPhase xs")
    case None
    then have "?ys = xs" by (simp add: resolve_current_def)
    then show ?thesis using step Suc.IH[OF d] planProgress_done[of xs] None by simp
  next
    case (Some c)
    then have "pp_completed (planProgress ?ys) = Suc (pp_completed (planProgress xs))"
      using resolve_current_progress[OF Suc.prems] by simp
    then show ?thesis using step Suc.IH[OF d] t by simp
  qed
qed

theorem plan_finishes_witness:
  "let xs = [demo_row 1 Departure Ph_completed, demo_row 2 In_transit Ph_pending, demo_row 3 Arrival Ph_pending]
   in currentPhase ((resolve_current ^^ 2) xs) = None \<and> currentPhase ((resolve_current ^^ 1) xs) \<noteq> None"
proof -
  let ?xs = "[demo_row 1 Departure Ph_completed, demo_row 2 In_transit Ph_pending, demo_row 3 Arrival Ph_pending]"
  have d: "distinct (map phase_event_id ?xs)" by (simp add: demo_row_def numeral_nat)
  have t: "pp_total (planProgress ?xs) = 3" "pp_completed (planProgress ?xs) = 1"
    by (simp_all add: planProgress_def demo_row_def isResolved_def RESOLVED_STATUSES_def)
  show ?thesis unfolding Let_def using plan_finishes[OF d, of 2] plan_finishes[OF d, of 1] t by simp
qed

text \<open>Every step of a phase has its name, and a phase type is anchored whichever it is.\<close>

lemma steps_have_names: "length (STEP_NAMES k) = length (STEP_SLUGS k)"
  by (cases k) simp_all

lemma all_anchored: "isAnchored p"
  by (cases "phase_kind p") (simp_all add: isAnchored_def ANCHORED_PHASES_def)

lemma blocked_iff: "isPhaseBlocked p \<longleftrightarrow> (\<exists>s. blocked_on p = Val s)"
  by (cases "blocked_on p") (simp_all add: isPhaseBlocked_def)

end
