(* ===== verification/PhaseRequest.thy ===== *)
theory PhaseRequest
  imports Conflict PhasePlan
begin

text \<open>
  From a captured draft to the body of \<open>POST /trips/{id}/phases/{event}/complete\<close>:
  \<open>lib/types/evidence-draft.ts\<close>, \<open>lib/types/location.ts\<close>, \<open>lib/ocr/sealSource.ts\<close> and
  \<open>buildPhaseCompleteRequest\<close> of \<open>lib/api/phases.ts\<close>. The upload of an image is the
  caller's (\<open>ArtifactResolver\<close>), so it is a parameter here as it is there; it threads a
  state of its own.
\<close>

section \<open>Drafts\<close>

record driver_position =
  pos_lat :: number
  pos_lng :: number
  pos_accuracyM :: "number option"
  pos_capturedAt :: "string option"

record location_acknowledgement =
  acknowledgedAt :: iso
  ack_reason :: string

text \<open>
  The seven draft interfaces are cast from one stored JSON object without a check
  (\<open>evidence as LoadingEvidence\<close>), so a draft is one object with every property any of them
  names; a property the stored object does not have reads as \<open>Undef\<close>.
\<close>

record phase_evidence =
  ev_capturedAt :: "iso field"
  ev_linehaulPhotoDataUrl :: "string field"
  ev_linehaulPhotoArtifactId :: "string field"
  ev_linehaulPdfDataUrl :: "string field"
  ev_linehaulPdfArtifactId :: "string field"
  ev_sealNumber :: "string field"
  ev_sealNumberOcr :: "string field"
  ev_sealPhotoDataUrl :: "string field"
  ev_sealPhotoArtifactId :: "string field"
  ev_waybillPhotoDataUrl :: "string field"
  ev_waybillPhotoArtifactId :: "string field"
  ev_waybillHandedOver :: "bool field"
  ev_driverVisualCount :: "int field"
  ev_sealCondition :: "seal_condition field"
  ev_sealNumberAtArrival :: "string field"
  ev_sealNumberAtArrivalOcr :: "string field"
  ev_podPhotoDataUrl :: "string field"
  ev_podPhotoArtifactId :: "string field"
  ev_podSignatureArtifactId :: "string field"
  ev_receiverConfirmedAt :: "iso field"
  ev_reconciliationNote :: "string field"

definition emptyEvidence :: phase_evidence where
  "emptyEvidence = \<lparr>ev_capturedAt = Undef, ev_linehaulPhotoDataUrl = Undef,
     ev_linehaulPhotoArtifactId = Undef, ev_linehaulPdfDataUrl = Undef, ev_linehaulPdfArtifactId = Undef,
     ev_sealNumber = Undef, ev_sealNumberOcr = Undef, ev_sealPhotoDataUrl = Undef,
     ev_sealPhotoArtifactId = Undef, ev_waybillPhotoDataUrl = Undef, ev_waybillPhotoArtifactId = Undef,
     ev_waybillHandedOver = Undef, ev_driverVisualCount = Undef, ev_sealCondition = Undef,
     ev_sealNumberAtArrival = Undef, ev_sealNumberAtArrivalOcr = Undef, ev_podPhotoDataUrl = Undef,
     ev_podPhotoArtifactId = Undef, ev_podSignatureArtifactId = Undef, ev_receiverConfirmedAt = Undef,
     ev_reconciliationNote = Undef\<rparr>"

section \<open>Seal number source\<close>

datatype seal_number_source = Ocr_confirmed | Ocr_corrected | Typed

definition sealNumberSource :: "string option \<Rightarrow> string field \<Rightarrow> seal_number_source" where
  "sealNumberSource ocrValue finalValue = (case ocrValue of
       None \<Rightarrow> Typed
     | Some v \<Rightarrow> if finalValue = Val v then Ocr_confirmed else Ocr_corrected)"

text \<open>\<open>trim\<close> removes white space at both ends, here that of ASCII: the Unicode spaces are not modelled.\<close>

definition isWhite :: "char \<Rightarrow> bool" where
  "isWhite c \<longleftrightarrow> c \<in> {CHR '' '', CHR 0x09, CHR 0x0A, CHR 0x0B, CHR 0x0C, CHR 0x0D}"

definition trim :: "string \<Rightarrow> string" where
  "trim s = rev (dropWhile isWhite (rev (dropWhile isWhite s)))"

definition canReplaceWithOcr :: "string option \<Rightarrow> string option \<Rightarrow> bool" where
  "canReplaceWithOcr current previousOcr = (case current of
       None \<Rightarrow> True
     | Some c \<Rightarrow> if trim c = [] then True
                 else previousOcr \<noteq> None \<and> current = previousOcr)"

section \<open>The wire body\<close>

text \<open>A property that is \<open>undefined\<close> is left out of the JSON body: \<open>None\<close> or \<open>Undef\<close>.\<close>

datatype phase_body =
    Activation_body
  | Loading_body (linehaul_photo_artifact_id: "string field") (linehaul_pdf_artifact_id: "string field")
  | Departure_body (waybill_photo_artifact_id: "string field") (seal_number: "string field")
      (departure_seal_photo_id: "string field") (departure_seal_source: seal_number_source)
  | Arrival_body (body_seal_condition: "seal_condition field") (seal_number_at_arrival: "string option")
      (arrival_seal_source: "seal_number_source option") (arrival_seal_photo_id: "string field")
  | Unloading_body
  | Confirmation_body (pod_photo_artifact_id: "string field") (pod_signature_artifact_id: "string field")
      (body_driver_visual_count: "int option")
  | In_transit_body

record phase_complete_request =
  rq_phase_type :: phase_type
  rq_driver_phone_lat :: "number option"
  rq_driver_phone_lng :: "number option"
  rq_driver_accuracy_metres :: "number option"
  rq_idempotency_key :: string
  rq_driver_captured_at :: iso
  rq_acknowledged_at :: "iso option"
  rq_acknowledged_reason :: "string option"
  rq_custody_sequence :: "int option"
  rq_body :: phase_body

record phase_request_input =
  in_tripId :: string
  in_phaseEventId :: string
  in_phaseType :: phase_type
  in_evidence :: phase_evidence
  in_idempotencyKey :: string
  in_position :: "driver_position option"
  in_driverCapturedAt :: iso
  in_acknowledgement :: "location_acknowledgement option"

datatype artifact_type = Photo | Document

record artifact_attribution =
  attr_phaseEventId :: string
  attr_role :: evidence_role

record artifact_request =
  ar_tripId :: string
  ar_artifactType :: artifact_type
  ar_readyId :: "string field"
  ar_dataUrl :: "string field"
  ar_capturedAt :: iso
  ar_attribution :: artifact_attribution

type_synonym 's resolver = "artifact_request \<Rightarrow> 's \<Rightarrow> (js_error + string field) \<times> 's"

text \<open>The position fields: none, or latitude and longitude with the accuracy if known.\<close>

definition driverPosition :: "driver_position option \<Rightarrow> number option \<times> number option \<times> number option" where
  "driverPosition p = (case p of
       None \<Rightarrow> (None, None, None)
     | Some q \<Rightarrow> (Some (pos_lat q), Some (pos_lng q), pos_accuracyM q))"

definition locationWarningAcknowledgement ::
    "location_acknowledgement option \<Rightarrow> iso option \<times> string option" where
  "locationWarningAcknowledgement a =
     (map_option acknowledgedAt a, map_option ack_reason a)"

text \<open>The fields every variant carries, with the variant's own ones.\<close>

definition requestOf :: "phase_request_input \<Rightarrow> phase_body \<Rightarrow> phase_complete_request" where
  "requestOf inp body = (let (lat, lng, acc) = driverPosition (in_position inp);
        (ackAt, ackReason) = locationWarningAcknowledgement (in_acknowledgement inp)
     in \<lparr>rq_phase_type = in_phaseType inp, rq_driver_phone_lat = lat, rq_driver_phone_lng = lng,
         rq_driver_accuracy_metres = acc, rq_idempotency_key = in_idempotencyKey inp,
         rq_driver_captured_at = in_driverCapturedAt inp, rq_acknowledged_at = ackAt,
         rq_acknowledged_reason = ackReason, rq_custody_sequence = None, rq_body = body\<rparr>)"

definition optionalLinehaulPdfId :: "'s resolver \<Rightarrow> artifact_request \<Rightarrow> 's \<Rightarrow> (js_error + string field) \<times> 's" where
  "optionalLinehaulPdfId resolve request s =
     attempt (resolve request s)
       (\<lambda>err s'. if isQueueableFailure err then (Inl err, s') else (Inr Null, s'))
       (\<lambda>i s'. (Inr i, s'))"

text \<open>
  \<open>Promise.all\<close> of two uploads: both have started when the first one fails, so both have
  their effect; the first in order that failed is what is thrown.
\<close>

definition both :: "('s \<Rightarrow> ('e + 'a) \<times> 's) \<Rightarrow> ('s \<Rightarrow> ('e + 'b) \<times> 's) \<Rightarrow> 's \<Rightarrow> ('e + 'a \<times> 'b) \<times> 's" where
  "both f g s = (let (x, s1) = f s; (y, s2) = g s1 in
     ((case (x, y) of (Inl e, _) \<Rightarrow> Inl e | (Inr _, Inl e) \<Rightarrow> Inl e | (Inr a, Inr b) \<Rightarrow> Inr (a, b)), s2))"

section \<open>buildPhaseCompleteRequest\<close>

definition NO_FIX :: string where
  "NO_FIX = ''Could not get your location. Move to open sky, check that Location is enabled for this app, and swipe again.''"
definition DEPARTURE_INCOMPLETE :: string where
  "DEPARTURE_INCOMPLETE = ''Departure evidence incomplete: seal photo and seal number are required.''"
definition ARRIVAL_INCOMPLETE :: string where
  "ARRIVAL_INCOMPLETE = ''Arrival evidence incomplete: seal condition and seal photo are required.''"
definition ARRIVAL_NO_NUMBER :: string where
  "ARRIVAL_NO_NUMBER = ''Arrival evidence incomplete: seal number is required unless the seal is missing.''"
definition CONFIRMATION_INCOMPLETE :: string where
  "CONFIRMATION_INCOMPLETE = ''Confirmation evidence incomplete: POD photo and receiver confirmation are required.''"
definition NOT_A_DRIVER_ACTION :: string where
  "NOT_A_DRIVER_ACTION = ''submitPhase: trip_creation is never completed by a driver action''"

text \<open>One upload of this phase, in the given slot.\<close>

definition slot :: "phase_request_input \<Rightarrow> iso \<Rightarrow> artifact_type \<Rightarrow> string field \<Rightarrow> string field \<Rightarrow> evidence_role
    \<Rightarrow> artifact_request" where
  "slot inp capturedAt ty ready url role =
     \<lparr>ar_tripId = in_tripId inp, ar_artifactType = ty, ar_readyId = ready, ar_dataUrl = url,
      ar_capturedAt = capturedAt,
      ar_attribution = \<lparr>attr_phaseEventId = in_phaseEventId inp, attr_role = role\<rparr>\<rparr>"

definition buildActivation :: "phase_request_input \<Rightarrow> 's \<Rightarrow> (js_error + phase_complete_request) \<times> 's" where
  "buildActivation inp s = (case in_position inp of
       None \<Rightarrow> (Inl (OtherErr NO_FIX), s)
     | Some _ \<Rightarrow> (Inr (requestOf inp Activation_body), s))"

definition buildLoading :: "phase_request_input \<Rightarrow> iso \<Rightarrow> 's resolver \<Rightarrow> 's
    \<Rightarrow> (js_error + phase_complete_request) \<times> 's" where
  "buildLoading inp capturedAt resolve s = (let e = in_evidence inp in
     and_then
       (if ev_linehaulPhotoDataUrl e \<noteq> Null
        then resolve (slot inp capturedAt Photo (ev_linehaulPhotoArtifactId e) (ev_linehaulPhotoDataUrl e) Linehaul_photo) s
        else (Inr Null, s))
       (\<lambda>photo s1. and_then
          (case coalesce (ev_linehaulPdfDataUrl e) of
             Some url \<Rightarrow> optionalLinehaulPdfId resolve
               (slot inp capturedAt Document (nullable (coalesce (ev_linehaulPdfArtifactId e))) (Val url) Linehaul_pdf) s1
           | None \<Rightarrow> (Inr (nullable (coalesce (ev_linehaulPdfArtifactId e))), s1))
          (\<lambda>pdf s2. (Inr (requestOf inp (Loading_body photo pdf)), s2))))"

definition buildDeparture :: "phase_request_input \<Rightarrow> iso \<Rightarrow> 's resolver \<Rightarrow> 's
    \<Rightarrow> (js_error + phase_complete_request) \<times> 's" where
  "buildDeparture inp capturedAt resolve s = (let e = in_evidence inp in
     if ev_sealPhotoDataUrl e = Null \<or> ev_sealNumber e = Null then (Inl (OtherErr DEPARTURE_INCOMPLETE), s)
     else and_then
       (both
         (\<lambda>s. case coalesce (ev_waybillPhotoDataUrl e) of
             Some url \<Rightarrow> resolve (slot inp capturedAt Photo (nullable (coalesce (ev_waybillPhotoArtifactId e)))
                            (Val url) Waybill_photo) s
           | None \<Rightarrow> (Inr Null, s))
         (resolve (slot inp capturedAt Photo (ev_sealPhotoArtifactId e) (ev_sealPhotoDataUrl e) Seal_photo))
         s)
       (\<lambda>(waybill, seal) s'. (Inr (requestOf inp (Departure_body waybill (ev_sealNumber e) seal
            (sealNumberSource (coalesce (ev_sealNumberOcr e)) (ev_sealNumber e)))), s')))"

definition buildArrival :: "phase_request_input \<Rightarrow> iso \<Rightarrow> 's resolver \<Rightarrow> 's
    \<Rightarrow> (js_error + phase_complete_request) \<times> 's" where
  "buildArrival inp capturedAt resolve s = (let e = in_evidence inp in
     if ev_sealCondition e = Null \<or> \<not> truthy (ev_sealPhotoDataUrl e) then (Inl (OtherErr ARRIVAL_INCOMPLETE), s)
     else if ev_sealCondition e \<noteq> Val Missing \<and> ev_sealNumberAtArrival e = Null
     then (Inl (OtherErr ARRIVAL_NO_NUMBER), s)
     else and_then
       (resolve (slot inp capturedAt Photo (ev_sealPhotoArtifactId e) (ev_sealPhotoDataUrl e) Seal_photo) s)
       (\<lambda>seal s'. (Inr (requestOf inp (if ev_sealCondition e = Val Missing
            then Arrival_body (ev_sealCondition e) None None seal
            else Arrival_body (ev_sealCondition e) (coalesce (ev_sealNumberAtArrival e))
                   (Some (sealNumberSource (coalesce (ev_sealNumberAtArrivalOcr e))
                      (case coalesce (ev_sealNumberAtArrival e) of None \<Rightarrow> Val [] | Some n \<Rightarrow> Val n)))
                   seal)), s')))"

definition buildConfirmation :: "phase_request_input \<Rightarrow> iso \<Rightarrow> 's resolver \<Rightarrow> 's
    \<Rightarrow> (js_error + phase_complete_request) \<times> 's" where
  "buildConfirmation inp capturedAt resolve s = (let e = in_evidence inp in
     if ev_podPhotoDataUrl e = Null \<or> \<not> truthy (ev_podSignatureArtifactId e)
     then (Inl (OtherErr CONFIRMATION_INCOMPLETE), s)
     else and_then
       (resolve (slot inp capturedAt Photo (ev_podPhotoArtifactId e) (ev_podPhotoDataUrl e) Pod_photo) s)
       (\<lambda>pod s'. (Inr (requestOf inp (Confirmation_body pod (ev_podSignatureArtifactId e)
            (coalesce (ev_driverVisualCount e)))), s')))"

definition buildPhaseCompleteRequest :: "iso \<Rightarrow> phase_request_input \<Rightarrow> 's resolver \<Rightarrow> 's
    \<Rightarrow> (js_error + phase_complete_request) \<times> 's" where
  "buildPhaseCompleteRequest now inp resolve s =
     (let capturedAt = (case coalesce (ev_capturedAt (in_evidence inp)) of None \<Rightarrow> now | Some t \<Rightarrow> t)
      in case in_phaseType inp of
           Activation \<Rightarrow> buildActivation inp s
         | Loading \<Rightarrow> buildLoading inp capturedAt resolve s
         | Departure \<Rightarrow> buildDeparture inp capturedAt resolve s
         | Arrival \<Rightarrow> buildArrival inp capturedAt resolve s
         | Unloading \<Rightarrow> (Inr (requestOf inp Unloading_body), s)
         | Confirmation \<Rightarrow> buildConfirmation inp capturedAt resolve s
         | In_transit \<Rightarrow> (Inr (requestOf inp In_transit_body), s)
         | Trip_creation \<Rightarrow> (Inl (OtherErr NOT_A_DRIVER_ACTION), s))"

lemmas build_defs = buildPhaseCompleteRequest_def buildActivation_def buildLoading_def
  buildDeparture_def buildArrival_def buildConfirmation_def

section \<open>The resolver's contract\<close>

text \<open>
  The interface between the body builder and whoever uploads. \<open>rel s t\<close>: uploads for this
  trip, this ledger row and one of the evidence slots of this phase type, dated as the draft is, lead from
  \<open>s\<close> to \<open>t\<close>.
\<close>

definition dated_as :: "phase_request_input \<Rightarrow> iso \<Rightarrow> bool" where
  "dated_as inp c \<longleftrightarrow> (\<forall>t. ev_capturedAt (in_evidence inp) = Val t \<longrightarrow> c = t)"

definition attributed :: "phase_request_input \<Rightarrow> artifact_request \<Rightarrow> bool" where
  "attributed inp r \<longleftrightarrow> ar_tripId r = in_tripId inp
     \<and> attr_phaseEventId (ar_attribution r) = in_phaseEventId inp
     \<and> attr_role (ar_attribution r) \<in> set (EVIDENCE_ROLES (in_phaseType inp))
     \<and> dated_as inp (ar_capturedAt r)"

locale artifact_resolver = state_rel rel
  for rel :: "'s \<Rightarrow> 's \<Rightarrow> bool" +
  fixes resolve :: "'s resolver"
    and inp :: phase_request_input
  assumes resolve_rel: "attributed inp r \<Longrightarrow> rel s (snd (resolve r s))"
begin

lemma slot_attributed:
  "role \<in> set (EVIDENCE_ROLES (in_phaseType inp)) \<Longrightarrow> dated_as inp c \<Longrightarrow> attributed inp (slot inp c ty ready url role)"
  by (simp add: attributed_def slot_def)

lemma slot_rel:
  "role \<in> set (EVIDENCE_ROLES (in_phaseType inp)) \<Longrightarrow> dated_as inp c \<Longrightarrow> rel s (snd (resolve (slot inp c ty ready url role) s))"
  by (intro resolve_rel slot_attributed)

lemma optional_rel:
  assumes "attributed inp r"
  shows "rel s (snd (optionalLinehaulPdfId resolve r s))"
  unfolding optionalLinehaulPdfId_def
  by (rule attempt_rel) (auto intro: resolve_rel assms rel_refl)

lemma both_rel:
  assumes "\<And>s. rel s (snd (f s))" "\<And>s. rel s (snd (g s))"
  shows "rel s (snd (both f g s))"
  using rel_trans[OF assms(1)[of s] assms(2)[of "snd (f s)"]]
  by (auto simp: both_def Let_def split: prod.splits)

lemma loading_rel:
  assumes "in_phaseType inp = Loading" "dated_as inp c"
  shows "rel s (snd (buildLoading inp c resolve s))"
  unfolding buildLoading_def Let_def
  by (intro and_then_rel)
    (auto simp: assms intro!: slot_rel optional_rel slot_attributed intro: rel_refl split: option.split)

lemma departure_rel:
  assumes "in_phaseType inp = Departure" "dated_as inp c"
  shows "rel s (snd (buildDeparture inp c resolve s))"
  unfolding buildDeparture_def Let_def
  by (auto simp: assms rel_refl intro!: and_then_rel both_rel slot_rel split: option.split)

lemma arrival_rel:
  assumes "in_phaseType inp = Arrival" "dated_as inp c"
  shows "rel s (snd (buildArrival inp c resolve s))"
  unfolding buildArrival_def Let_def
  by (auto simp: assms rel_refl intro!: and_then_rel slot_rel)

lemma confirmation_rel:
  assumes "in_phaseType inp = Confirmation" "dated_as inp c"
  shows "rel s (snd (buildConfirmation inp c resolve s))"
  unfolding buildConfirmation_def Let_def
  by (auto simp: assms rel_refl intro!: and_then_rel slot_rel)

lemma build_rel: "rel s (snd (buildPhaseCompleteRequest now inp resolve s))"
proof -
  have dated: "dated_as inp (case coalesce (ev_capturedAt (in_evidence inp)) of None \<Rightarrow> now | Some t \<Rightarrow> t)"
    by (auto simp: dated_as_def split: option.split)
  have start_rel: "rel s (snd (buildActivation inp s))"
    by (simp add: buildActivation_def rel_refl split: option.split)
  show ?thesis
    by (cases "in_phaseType inp")
      (simp_all add: buildPhaseCompleteRequest_def Let_def start_rel rel_refl
         loading_rel departure_rel arrival_rel confirmation_rel dated)
qed

end

section \<open>Every upload is attributed to its slot\<close>

text \<open>The resolver that keeps a list of what it was asked, around any other.\<close>

definition log_resolve :: "'s resolver \<Rightarrow> ('s \<times> artifact_request list) resolver" where
  "log_resolve resolve r st = (let (x, s') = resolve r (fst st) in (x, (s', snd st @ [r])))"

definition asks_attributed :: "phase_request_input \<Rightarrow> 's \<times> artifact_request list \<Rightarrow> 's \<times> artifact_request list \<Rightarrow> bool" where
  "asks_attributed inp s t \<longleftrightarrow> (\<exists>rs. snd t = snd s @ rs \<and> list_all (attributed inp) rs)"

interpretation logged: artifact_resolver "asks_attributed inp" "log_resolve resolve" inp
  for inp :: phase_request_input and resolve :: "'s resolver"
proof unfold_locales
  show "asks_attributed inp s s" for s :: "'s \<times> artifact_request list" by (simp add: asks_attributed_def)
  show "asks_attributed inp s u" if "asks_attributed inp s t" "asks_attributed inp t u"
    for s t u :: "'s \<times> artifact_request list"
    using that by (auto simp: asks_attributed_def)
  show "asks_attributed inp s (snd (log_resolve resolve r s))" if "attributed inp r" for r s
    using that by (auto simp: asks_attributed_def log_resolve_def split: prod.split)
qed

text \<open>Whatever is uploaded while a phase body is built is filed under the submission's own trip
  and ledger row, in an evidence slot that the phase type has: no photo of one phase can be
  attributed to another phase or to a slot of another phase type, and it is dated as the draft is. This holds for every draft,
  stale or malformed ones included, and for every behaviour of the uploader.\<close>

theorem uploads_attributed_to_their_slot:
  "list_all (attributed inp) (snd (snd (buildPhaseCompleteRequest now inp (log_resolve resolve) (s, []))))"
  using logged.build_rel[of inp "(s, [])" now resolve] by (auto simp: asks_attributed_def)

section \<open>The body is the capture, unchanged\<close>

lemma requestOf_fields [simp]:
  "rq_phase_type (requestOf inp b) = in_phaseType inp"
  "rq_idempotency_key (requestOf inp b) = in_idempotencyKey inp"
  "rq_driver_captured_at (requestOf inp b) = in_driverCapturedAt inp"
  "rq_acknowledged_at (requestOf inp b) = map_option acknowledgedAt (in_acknowledgement inp)"
  "rq_acknowledged_reason (requestOf inp b) = map_option ack_reason (in_acknowledgement inp)"
  "rq_driver_phone_lat (requestOf inp b) = map_option pos_lat (in_position inp)"
  "rq_driver_phone_lng (requestOf inp b) = map_option pos_lng (in_position inp)"
  "rq_driver_accuracy_metres (requestOf inp b) = Option.bind (in_position inp) pos_accuracyM"
  "rq_custody_sequence (requestOf inp b) = None"
  "rq_body (requestOf inp b) = b"
  by (auto simp: requestOf_def driverPosition_def locationWarningAcknowledgement_def Let_def
      split: option.split)

lemma build_is_requestOf:
  assumes "buildPhaseCompleteRequest now inp resolve s = (Inr q, t)"
  shows "\<exists>b. q = requestOf inp b"
  using assms
  by (auto simp: build_defs Let_def split: phase_type.splits option.splits if_splits
      elim!: and_then_cases)

text \<open>A body that goes out carries exactly what the driver captured: the idempotency key, the
  swipe instant, the position and the acknowledgement of the capture, whatever the clock and the
  uploads did meanwhile; so a replay hours later presents the first attempt's identity.\<close>

theorem body_keeps_capture_identity:
  assumes "buildPhaseCompleteRequest now inp resolve s = (Inr q, t)"
  shows "rq_phase_type q = in_phaseType inp
    \<and> rq_idempotency_key q = in_idempotencyKey inp
    \<and> rq_driver_captured_at q = in_driverCapturedAt inp
    \<and> rq_driver_phone_lat q = map_option pos_lat (in_position inp)
    \<and> rq_driver_phone_lng q = map_option pos_lng (in_position inp)
    \<and> rq_acknowledged_at q = map_option acknowledgedAt (in_acknowledgement inp)"
  using build_is_requestOf[OF assms] by auto

definition demo_input :: "phase_type \<Rightarrow> phase_evidence \<Rightarrow> phase_request_input" where
  "demo_input k e = \<lparr>in_tripId = ''t'', in_phaseEventId = ''p'', in_phaseType = k, in_evidence = e,
     in_idempotencyKey = ''key'', in_position = None, in_driverCapturedAt = ''swipe'', in_acknowledgement = None\<rparr>"

text \<open>An uploader that answers every request with an id and counts the uploads.\<close>

definition demo_upload :: "nat resolver" where
  "demo_upload r n = (Inr (Val ''artifact''), Suc n)"

theorem body_keeps_capture_identity_witness:
  "let inp = demo_input Unloading emptyEvidence;
       q = requestOf inp Unloading_body
   in buildPhaseCompleteRequest ''later'' inp demo_upload 0 = (Inr q, 0)
      \<and> rq_idempotency_key q = ''key'' \<and> rq_driver_captured_at q = ''swipe''"
proof -
  let ?inp = "demo_input Unloading emptyEvidence"
  have h: "buildPhaseCompleteRequest ''later'' ?inp demo_upload 0 = (Inr (requestOf ?inp Unloading_body), 0)"
    by (simp add: buildPhaseCompleteRequest_def demo_input_def Let_def)
  show ?thesis unfolding Let_def
    using h body_keeps_capture_identity[OF h] by (simp add: demo_input_def)
qed

section \<open>When a draft can be submitted\<close>

text \<open>
  What the server requires of a phase's request, from its schema (\<open>backend/app/schemas/phases.py\<close>, the
  \<open>PhaseCompleteRequest\<close> union) and not from the builder: the variant of the phase with its required members; a
  position with both axes or none, and always one for activation; an arrival's seal number unless the seal is
  missing, and then none. The schema's formats (the seal pattern, identifiers that must differ, a linehaul PDF
  only with its scan) are not part of it.
\<close>

fun given :: "'a field \<Rightarrow> bool" where
  "given (Val _) = True"
| "given _ = False"

definition meets_schema :: "phase_complete_request \<Rightarrow> bool" where
  "meets_schema q \<longleftrightarrow> (rq_driver_phone_lat q = None) = (rq_driver_phone_lng q = None)
     \<and> (case (rq_phase_type q, rq_body q) of
         (Activation, Activation_body) \<Rightarrow> rq_driver_phone_lat q \<noteq> None
       | (Loading, Loading_body _ _) \<Rightarrow> True
       | (Departure, Departure_body _ number seal _) \<Rightarrow> given number \<and> given seal
       | (Arrival, Arrival_body condition number _ seal) \<Rightarrow> given condition \<and> given seal
           \<and> (number = None \<longleftrightarrow> condition = Val Missing)
       | (Unloading, Unloading_body) \<Rightarrow> True
       | (Confirmation, Confirmation_body pod signature _) \<Rightarrow> given pod \<and> given signature
       | (In_transit, In_transit_body) \<Rightarrow> True
       | _ \<Rightarrow> False)"

text \<open>
  A request made of a draft: it is for the draft's phase, under its key and swipe instant, from its
  position; it states what the draft states; and it names a photo only where the draft has one.
\<close>

definition made_of :: "phase_request_input \<Rightarrow> phase_complete_request \<Rightarrow> bool" where
  "made_of inp q \<longleftrightarrow> (let e = in_evidence inp; photo = (\<lambda>i url. given i \<longrightarrow> given url) in
     rq_phase_type q = in_phaseType inp \<and> rq_idempotency_key q = in_idempotencyKey inp
     \<and> rq_driver_captured_at q = in_driverCapturedAt inp
     \<and> rq_driver_phone_lat q = map_option pos_lat (in_position inp)
     \<and> rq_driver_phone_lng q = map_option pos_lng (in_position inp)
     \<and> (case rq_body q of
         Loading_body scan _ \<Rightarrow> photo scan (ev_linehaulPhotoDataUrl e)
       | Departure_body _ number seal _ \<Rightarrow> number = ev_sealNumber e \<and> photo seal (ev_sealPhotoDataUrl e)
       | Arrival_body condition number _ seal \<Rightarrow> condition = ev_sealCondition e
           \<and> number \<in> {None, coalesce (ev_sealNumberAtArrival e)} \<and> photo seal (ev_sealPhotoDataUrl e)
       | Confirmation_body pod signature visual \<Rightarrow> photo pod (ev_podPhotoDataUrl e)
           \<and> signature = ev_podSignatureArtifactId e \<and> visual = coalesce (ev_driverVisualCount e)
       | _ \<Rightarrow> True))"

text \<open>
  A draft as its interface declares it (\<open>lib/types/evidence-draft.ts\<close>): the properties of its phase are there, null
  until they are captured, and an image or an identifier is not the empty string. Older stored drafts need not
  be like that; see \<open>arrival_number_left_out\<close>.
\<close>

definition declared_draft :: "phase_request_input \<Rightarrow> bool" where
  "declared_draft inp \<longleftrightarrow> (let e = in_evidence inp; captured = (\<lambda>x. x = Null \<or> truthy x) in case in_phaseType inp of
       Loading \<Rightarrow> captured (ev_linehaulPhotoDataUrl e)
     | Departure \<Rightarrow> captured (ev_sealPhotoDataUrl e) \<and> ev_sealNumber e \<noteq> Undef
     | Arrival \<Rightarrow> captured (ev_sealPhotoDataUrl e) \<and> ev_sealCondition e \<noteq> Undef \<and> ev_sealNumberAtArrival e \<noteq> Undef
     | Confirmation \<Rightarrow> captured (ev_podPhotoDataUrl e) \<and> captured (ev_podSignatureArtifactId e)
     | _ \<Rightarrow> True)"

text \<open>What the driver is told, per phase.\<close>

fun refusals :: "phase_type \<Rightarrow> string list" where
  "refusals Activation = [NO_FIX]"
| "refusals Departure = [DEPARTURE_INCOMPLETE]"
| "refusals Arrival = [ARRIVAL_INCOMPLETE, ARRIVAL_NO_NUMBER]"
| "refusals Confirmation = [CONFIRMATION_INCOMPLETE]"
| "refusals Trip_creation = [NOT_A_DRIVER_ACTION]"
| "refusals _ = []"

lemma given_iff: "given x \<longleftrightarrow> (\<exists>v. x = Val v)"
  by (cases x) simp_all

lemma captured_given:
  "x \<noteq> Undef \<Longrightarrow> x \<noteq> Null \<longleftrightarrow> given x"
  "y = Null \<or> truthy y \<Longrightarrow> y \<noteq> Null \<longleftrightarrow> given y"
  "y = Null \<or> truthy y \<Longrightarrow> truthy y \<longleftrightarrow> given y"
  by (cases x; cases y; simp)+

lemma schema_body:
  assumes "meets_schema q" "made_of inp q"
  shows "in_phaseType inp \<noteq> Trip_creation"
    and "in_phaseType inp = Activation \<Longrightarrow> in_position inp \<noteq> None"
    and "in_phaseType inp = Departure \<Longrightarrow> given (ev_sealNumber (in_evidence inp)) \<and> given (ev_sealPhotoDataUrl (in_evidence inp))"
    and "in_phaseType inp = Arrival \<Longrightarrow> given (ev_sealCondition (in_evidence inp)) \<and> given (ev_sealPhotoDataUrl (in_evidence inp))
      \<and> (ev_sealCondition (in_evidence inp) = Val Missing \<or> given (ev_sealNumberAtArrival (in_evidence inp)))"
    and "in_phaseType inp = Confirmation \<Longrightarrow> given (ev_podPhotoDataUrl (in_evidence inp)) \<and> given (ev_podSignatureArtifactId (in_evidence inp))"
  using assms by (cases "rq_body q"; auto simp: meets_schema_def made_of_def given_iff Let_def split: phase_type.splits)+

text \<open>Uploads that answer with an id.\<close>

definition answers_ids :: "'s resolver \<Rightarrow> bool" where
  "answers_ids resolve \<longleftrightarrow> (\<forall>r s. \<exists>i t. resolve r s = (Inr (Val i), t))"

lemma resolved: "answers_ids resolve \<Longrightarrow> \<exists>i t. resolve r s = (Inr (Val i), t)"
  by (simp add: answers_ids_def)

text \<open>How a build ends: with a request that is as required, or refused in the state it started in.\<close>

definition ends_well :: "phase_request_input \<Rightarrow> 's \<Rightarrow> (js_error + phase_complete_request) \<times> 's \<Rightarrow> bool" where
  "ends_well inp s y \<longleftrightarrow> (case fst y of
       Inr q \<Rightarrow> made_of inp q \<and> meets_schema q
     | Inl err \<Rightarrow> snd y = s \<and> err \<in> OtherErr ` set (refusals (in_phaseType inp)) \<and> (\<forall>q. made_of inp q \<longrightarrow> \<not> meets_schema q))"

lemmas end_defs = ends_well_def made_of_def meets_schema_def Let_def

lemma loading_ends:
  assumes "answers_ids resolve" "declared_draft inp" "in_phaseType inp = Loading"
  shows "ends_well inp s (buildLoading inp c resolve s)"
proof -
  let ?e = "in_evidence inp"
  have pdf: "\<exists>i t. optionalLinehaulPdfId resolve r u = (Inr i, t)" for r u
    using resolved[OF assms(1), of r u] by (auto simp: optionalLinehaulPdfId_def)
  obtain scan s1 where scan: "(if ev_linehaulPhotoDataUrl ?e \<noteq> Null
      then resolve (slot inp c Photo (ev_linehaulPhotoArtifactId ?e) (ev_linehaulPhotoDataUrl ?e) Linehaul_photo) s
      else (Inr Null, s)) = (Inr scan, s1)" "given scan \<longrightarrow> ev_linehaulPhotoDataUrl ?e \<noteq> Null"
    using resolved[OF assms(1)] by (cases "ev_linehaulPhotoDataUrl ?e = Null") fastforce+
  then have "given scan \<longrightarrow> given (ev_linehaulPhotoDataUrl ?e)"
    using assms(2,3) by (auto simp: declared_draft_def truthy_iff)
  moreover obtain doc s2 where "(case coalesce (ev_linehaulPdfDataUrl ?e) of
      Some url \<Rightarrow> optionalLinehaulPdfId resolve (slot inp c Document (nullable (coalesce (ev_linehaulPdfArtifactId ?e))) (Val url) Linehaul_pdf) s1
    | None \<Rightarrow> (Inr (nullable (coalesce (ev_linehaulPdfArtifactId ?e))), s1)) = (Inr doc, s2)"
    using pdf by (cases "coalesce (ev_linehaulPdfDataUrl ?e)") fastforce+
  ultimately show ?thesis using assms(3) scan(1) by (simp add: buildLoading_def end_defs)
qed

lemma departure_ends:
  assumes "answers_ids resolve" "declared_draft inp" "in_phaseType inp = Departure"
  shows "ends_well inp s (buildDeparture inp c resolve s)"
proof (cases "ev_sealPhotoDataUrl (in_evidence inp) = Null \<or> ev_sealNumber (in_evidence inp) = Null")
  case True
  then have "\<forall>q. made_of inp q \<longrightarrow> \<not> meets_schema q" using schema_body(3)[OF _ _ assms(3)] by auto
  then show ?thesis using True assms(3) by (simp add: buildDeparture_def ends_well_def Let_def)
next
  case False
  let ?e = "in_evidence inp"
  have here: "given (ev_sealPhotoDataUrl ?e)" "given (ev_sealNumber ?e)"
    using False assms(2,3) captured_given by (auto simp: declared_draft_def Let_def)
  obtain waybill s1 where w: "(case coalesce (ev_waybillPhotoDataUrl ?e) of
      Some url \<Rightarrow> resolve (slot inp c Photo (nullable (coalesce (ev_waybillPhotoArtifactId ?e))) (Val url) Waybill_photo) s
    | None \<Rightarrow> (Inr Null, s)) = (Inr waybill, s1)"
    using resolved[OF assms(1)] by (cases "coalesce (ev_waybillPhotoDataUrl ?e)") fastforce+
  obtain seal s2 where "resolve (slot inp c Photo (ev_sealPhotoArtifactId ?e) (ev_sealPhotoDataUrl ?e) Seal_photo) s1 = (Inr (Val seal), s2)"
    using resolved[OF assms(1)] by blast
  then show ?thesis using False w here assms(3) by (simp add: buildDeparture_def both_def end_defs)
qed

lemma arrival_ends:
  assumes "answers_ids resolve" "declared_draft inp" "in_phaseType inp = Arrival"
  shows "ends_well inp s (buildArrival inp c resolve s)"
proof -
  let ?e = "in_evidence inp"
  obtain seal t where seal: "resolve (slot inp c Photo (ev_sealPhotoArtifactId ?e) (ev_sealPhotoDataUrl ?e) Seal_photo) s = (Inr (Val seal), t)"
    using resolved[OF assms(1)] by blast
  have photo: "truthy (ev_sealPhotoDataUrl ?e) \<longleftrightarrow> given (ev_sealPhotoDataUrl ?e)"
    and condition: "ev_sealCondition ?e \<noteq> Null \<longleftrightarrow> given (ev_sealCondition ?e)"
    and number: "ev_sealNumberAtArrival ?e \<noteq> Null \<longleftrightarrow> given (ev_sealNumberAtArrival ?e)"
    using assms(2,3) captured_given(1)[of "ev_sealCondition ?e"] captured_given(1)[of "ev_sealNumberAtArrival ?e"]
      captured_given(3)[of "ev_sealPhotoDataUrl ?e"] by (simp_all add: declared_draft_def Let_def)
  show ?thesis
  proof (cases "given (ev_sealCondition ?e) \<and> given (ev_sealPhotoDataUrl ?e)
      \<and> (ev_sealCondition ?e = Val Missing \<or> given (ev_sealNumberAtArrival ?e))")
    case True
    then show ?thesis using seal photo condition number assms(3)
      by (auto simp: buildArrival_def end_defs given_iff)
  next
    case False
    then have "\<forall>q. made_of inp q \<longrightarrow> \<not> meets_schema q" using schema_body(4)[OF _ _ assms(3)] by blast
    then show ?thesis using False photo condition number assms(3) by (auto simp: buildArrival_def ends_well_def Let_def)
  qed
qed

lemma confirmation_ends:
  assumes "answers_ids resolve" "declared_draft inp" "in_phaseType inp = Confirmation"
  shows "ends_well inp s (buildConfirmation inp c resolve s)"
proof -
  let ?e = "in_evidence inp"
  obtain pod t where pod: "resolve (slot inp c Photo (ev_podPhotoArtifactId ?e) (ev_podPhotoDataUrl ?e) Pod_photo) s = (Inr (Val pod), t)"
    using resolved[OF assms(1)] by blast
  have photo: "ev_podPhotoDataUrl ?e \<noteq> Null \<longleftrightarrow> given (ev_podPhotoDataUrl ?e)"
    and signature: "truthy (ev_podSignatureArtifactId ?e) \<longleftrightarrow> given (ev_podSignatureArtifactId ?e)"
    using assms(2,3) captured_given(2)[of "ev_podPhotoDataUrl ?e"] captured_given(3)[of "ev_podSignatureArtifactId ?e"]
    by (simp_all add: declared_draft_def Let_def)
  show ?thesis
  proof (cases "given (ev_podPhotoDataUrl ?e) \<and> given (ev_podSignatureArtifactId ?e)")
    case True
    then show ?thesis using pod photo signature assms(3) by (auto simp: buildConfirmation_def end_defs)
  next
    case False
    then have "\<forall>q. made_of inp q \<longrightarrow> \<not> meets_schema q" using schema_body(5)[OF _ _ assms(3)] by blast
    then show ?thesis using False photo signature assms(3) by (auto simp: buildConfirmation_def ends_well_def Let_def)
  qed
qed


text \<open>A departure without its seal number is refused; a complete arrival gives its body.\<close>

definition demo_arrival :: phase_request_input where
  "demo_arrival = demo_input Arrival (emptyEvidence\<lparr>ev_sealCondition := Val Damaged, ev_sealNumberAtArrival := Val ''AB-1234'',
     ev_sealPhotoDataUrl := Val ''data:''\<rparr>)"


text \<open>The seal number of an arrival. A number is left out of the body when the seal is missing and,
  beyond what the code says it allows, also when a stale stored draft has no
  \<open>sealNumberAtArrival\<close> property at all: the completeness test compares with \<open>null\<close> only.\<close>

theorem arrival_number_left_out:
  assumes "in_phaseType inp = Arrival"
    and "buildPhaseCompleteRequest now inp resolve s = (Inr q, t)"
  shows "seal_number_at_arrival (rq_body q) = None \<longleftrightarrow>
      ev_sealCondition (in_evidence inp) = Val Missing \<or> ev_sealNumberAtArrival (in_evidence inp) = Undef"
  using assms(2)
  by (cases "ev_sealNumberAtArrival (in_evidence inp)")
    (auto simp: build_defs assms(1) Let_def split: if_splits elim!: and_then_cases)

theorem arrival_number_left_out_witness:
  "let e = emptyEvidence\<lparr>ev_sealCondition := Val Intact, ev_sealPhotoDataUrl := Val ''data:''\<rparr>;
       q = requestOf (demo_input Arrival e) (Arrival_body (Val Intact) None (Some Typed) (Val ''artifact''))
   in buildPhaseCompleteRequest ''now'' (demo_input Arrival e) demo_upload 0 = (Inr q, 1)
      \<and> seal_number_at_arrival (rq_body q) = None"
proof -
  let ?e = "emptyEvidence\<lparr>ev_sealCondition := Val Intact, ev_sealPhotoDataUrl := Val ''data:''\<rparr>"
  let ?q = "requestOf (demo_input Arrival ?e) (Arrival_body (Val Intact) None (Some Typed) (Val ''artifact''))"
  have k: "in_phaseType (demo_input Arrival ?e) = Arrival" by (simp add: demo_input_def)
  have h: "buildPhaseCompleteRequest ''now'' (demo_input Arrival ?e) demo_upload 0 = (Inr ?q, 1)"
    by (simp add: buildPhaseCompleteRequest_def buildArrival_def demo_input_def Let_def emptyEvidence_def
        demo_upload_def sealNumberSource_def)
  have u: "ev_sealNumberAtArrival (in_evidence (demo_input Arrival ?e)) = Undef"
    by (simp add: demo_input_def emptyEvidence_def)
  show ?thesis unfolding Let_def using h arrival_number_left_out[OF k h] u by blast
qed

text \<open>The linehaul PDF never costs the driver the loading: when the scan itself is stored, a
  refusal of the PDF that a retry cannot help completes the loading without the PDF, and only a
  failure worth retrying fails the attempt.\<close>

theorem linehaul_pdf_is_optional:
  assumes "in_phaseType inp = Loading"
    and "ev_capturedAt (in_evidence inp) = Val c"
    and "ev_linehaulPhotoDataUrl (in_evidence inp) = Val photoUrl"
    and "ev_linehaulPdfDataUrl (in_evidence inp) = Val pdfUrl"
    and "resolve (slot inp c Photo (ev_linehaulPhotoArtifactId (in_evidence inp)) (Val photoUrl) Linehaul_photo) s
           = (Inr photo, s1)"
    and "resolve (slot inp c Document (nullable (coalesce (ev_linehaulPdfArtifactId (in_evidence inp)))) (Val pdfUrl)
           Linehaul_pdf) s1 = (Inl err, s2)"
  shows "buildPhaseCompleteRequest now inp resolve s =
    (if isQueueableFailure err then Inl err else Inr (requestOf inp (Loading_body photo Null)), s2)"
  using assms by (simp add: buildPhaseCompleteRequest_def buildLoading_def optionalLinehaulPdfId_def Let_def)

definition pdf_refused :: "nat resolver" where
  "pdf_refused r n = (if attr_role (ar_attribution r) = Linehaul_pdf
     then (Inl (plainApiError 413 ''Photo is too large to upload. Retake it.''), Suc n)
     else (Inr (Val ''scan''), Suc n))"

theorem linehaul_pdf_is_optional_witness:
  "let inp = demo_input Loading (emptyEvidence\<lparr>ev_capturedAt := Val ''c'', ev_linehaulPhotoDataUrl := Val ''scan-url'',
                ev_linehaulPdfDataUrl := Val ''pdf-url'', ev_linehaulPhotoArtifactId := Null\<rparr>)
   in buildPhaseCompleteRequest ''now'' inp pdf_refused 0 = (Inr (requestOf inp (Loading_body (Val ''scan'') Null)), 2)"
proof -
  let ?inp = "demo_input Loading (emptyEvidence\<lparr>ev_capturedAt := Val ''c'', ev_linehaulPhotoDataUrl := Val ''scan-url'',
                ev_linehaulPdfDataUrl := Val ''pdf-url'', ev_linehaulPhotoArtifactId := Null\<rparr>)"
  have 1: "in_phaseType ?inp = Loading" "ev_capturedAt (in_evidence ?inp) = Val ''c''"
    "ev_linehaulPhotoDataUrl (in_evidence ?inp) = Val ''scan-url''"
    "ev_linehaulPdfDataUrl (in_evidence ?inp) = Val ''pdf-url''"
    by (simp_all add: demo_input_def)
  have 2: "pdf_refused (slot ?inp ''c'' Photo (ev_linehaulPhotoArtifactId (in_evidence ?inp)) (Val ''scan-url'') Linehaul_photo) 0
       = (Inr (Val ''scan''), 1)"
    "pdf_refused (slot ?inp ''c'' Document (nullable (coalesce (ev_linehaulPdfArtifactId (in_evidence ?inp)))) (Val ''pdf-url'') Linehaul_pdf) 1
       = (Inl (plainApiError 413 ''Photo is too large to upload. Retake it.''), 2)"
    by (simp_all add: pdf_refused_def slot_def)
  show ?thesis unfolding Let_def
    using linehaul_pdf_is_optional[OF 1 2] by (simp add: plainApiError_def)
qed

end
