(* ===== verification/Captures.thy ===== *)
theory Captures
  imports PhaseRequest
begin

text \<open>
  What the driver captures besides phases, as the wire types carry it: checkpoints
  (\<open>lib/api/checkpoints.ts\<close>), location fixes (\<open>lib/api/locations.ts\<close>) and incident reports
  (\<open>lib/api/exceptions.ts\<close>).
\<close>

section \<open>Location fixes\<close>

record location_ping =
  ping_lat :: number
  ping_lng :: number
  ping_accuracy_m :: "number option"
  ping_context :: string
  ping_recorded_at :: iso

section \<open>Checkpoints\<close>

record checkpoint_evidence =
  cp_gpsLat :: "number option"
  cp_gpsLng :: "number option"
  cp_selfieDataUrl :: "string field"
  cp_cargoPhotoDataUrl :: string
  cp_note :: string
  cp_isDeviation :: bool
  cp_capturedAt :: iso
  cp_clientReportId :: "string field"
  cp_accuracyM :: "number field"
  cp_phaseEventId :: "string field"
  cp_custodySequence :: "int field"

record checkpoint_artifact_ids =
  cargoPhotoId :: string
  selfieId :: "string option"

record log_checkpoint_body =
  lcb_checkpoint_type :: string
  lcb_driver_phone_lat :: "number option"
  lcb_driver_phone_lng :: "number option"
  lcb_driver_captured_at :: iso
  lcb_driver_accuracy_metres :: "number option"
  lcb_client_report_id :: "string option"
  lcb_phase_event_id :: "string option"
  lcb_selfie_artifact_id :: "string option"
  lcb_cargo_photo_artifact_id :: string
  lcb_note :: "string option"
  lcb_is_deviation :: bool
  lcb_custody_sequence :: "int option"

text \<open>\<open>x ? {k: x} : {}\<close>: the property is left out when the string is falsy.\<close>

definition if_truthy :: "string field \<Rightarrow> string option" where
  "if_truthy x = (if truthy x then coalesce x else None)"

definition checkpointRequestBody :: "checkpoint_evidence \<Rightarrow> checkpoint_artifact_ids \<Rightarrow> log_checkpoint_body" where
  "checkpointRequestBody evidence ids =
     \<lparr>lcb_checkpoint_type = ''manual'',
      lcb_driver_phone_lat = (if cp_gpsLat evidence \<noteq> None \<and> cp_gpsLng evidence \<noteq> None then cp_gpsLat evidence else None),
      lcb_driver_phone_lng = (if cp_gpsLat evidence \<noteq> None \<and> cp_gpsLng evidence \<noteq> None then cp_gpsLng evidence else None),
      lcb_driver_captured_at = cp_capturedAt evidence,
      lcb_driver_accuracy_metres = coalesce (cp_accuracyM evidence),
      lcb_client_report_id = if_truthy (cp_clientReportId evidence),
      lcb_phase_event_id = if_truthy (cp_phaseEventId evidence),
      lcb_selfie_artifact_id = selfieId ids,
      lcb_cargo_photo_artifact_id = cargoPhotoId ids,
      lcb_note = (if cp_note evidence = [] then None else Some (cp_note evidence)),
      lcb_is_deviation = cp_isDeviation evidence,
      lcb_custody_sequence = None\<rparr>"

text \<open>Half a position never goes out.\<close>

lemma checkpoint_position_whole:
  "lcb_driver_phone_lat (checkpointRequestBody e ids) = None \<longleftrightarrow>
   lcb_driver_phone_lng (checkpointRequestBody e ids) = None"
  by (auto simp: checkpointRequestBody_def)

section \<open>Incident reports\<close>

record raise_exception_body =
  reb_exception_type :: string
  reb_description :: string
  reb_supporting_artifact_id :: "string option"
  reb_supporting_artifact_ids :: "string list option"
  reb_phase_event_id :: "string option"
  reb_gps_lat :: "number option"
  reb_gps_lng :: "number option"
  reb_driver_captured_at :: "iso option"
  reb_driver_accuracy_metres :: "number option"
  reb_client_report_id :: "string option"
  reb_vehicle_type :: "string option"
  reb_trailer_id :: "string option"
  reb_custody_sequence :: "int option"

text \<open>\<open>ExceptionReportBody\<close> omits the photo ids; here they are the two fields left \<open>None\<close>.\<close>

definition withoutPhotoIds :: "raise_exception_body \<Rightarrow> raise_exception_body" where
  "withoutPhotoIds b = b\<lparr>reb_supporting_artifact_id := None, reb_supporting_artifact_ids := None\<rparr>"

text \<open>The ordered photo ids, with the first one repeated in the older field.\<close>

definition withPhotoIds :: "raise_exception_body \<Rightarrow> string list \<Rightarrow> raise_exception_body" where
  "withPhotoIds b ids = (case ids of
       [] \<Rightarrow> b
     | i # _ \<Rightarrow> b\<lparr>reb_supporting_artifact_ids := Some ids, reb_supporting_artifact_id := Some i\<rparr>)"

record legacy_exception_entry =
  le_id :: string
  le_tripId :: string
  le_body :: raise_exception_body
  le_photoDataUrl :: "string option"
  le_photoCapturedAt :: "iso option"
  le_enqueuedAt :: iso

end
