(* ===== verification/QueueStorage.thy ===== *)
theory QueueStorage
  imports Captures
begin

text \<open>
  \<open>lib/offline/queue-storage.ts\<close>: the \<open>localStorage\<close> half of the offline queue, its entry
  shapes and its one-way migration to version 2.
\<close>

section \<open>Entries\<close>

datatype queue_item_status = Pending | Needs_attention | Quarantined

record phase_capture =
  pc_phaseEventId :: string
  pc_phaseType :: phase_type
  pc_evidence :: phase_evidence
  pc_idempotencyKey :: string
  pc_position :: "driver_position option"
  pc_driverCapturedAt :: iso
  pc_acknowledgement :: "location_acknowledgement option"

datatype sendable_body =
    Phase_capture phase_capture
  | Checkpoint_capture checkpoint_evidence
  | Location_capture "location_ping list"

text \<open>\<open>QueueItemCustody\<close> and the fields every sendable entry has, with its capture.\<close>

record sendable_entry =
  se_id :: string
  se_tripId :: string
  se_actorId :: "string field"
  se_custodySequence :: "int field"
  se_status :: "queue_item_status option"
  se_attention :: "retained_attention field"
  se_enqueuedAt :: iso
  se_body :: sendable_body

text \<open>
  A stored array element that is none of the known shapes: what the code looks at, and its text.
  (The JSON value \<open>null\<close> is not among them: reading a property of it would throw.)
\<close>

record malformed_value =
  mf_isRecord :: bool
  mf_kind :: "string option"
  mf_id :: "string option"
  mf_tripId :: "string option"
  mf_text :: string

datatype queue_entry =
    Sendable sendable_entry
  | Legacy legacy_exception_entry
  | Unreadable string queue_entry iso
  | Malformed malformed_value

definition SENDABLE_KINDS :: "string set" where
  "SENDABLE_KINDS = {''phase'', ''checkpoint'', ''location''}"

fun isSendableEntry :: "queue_entry \<Rightarrow> bool" where
  "isSendableEntry (Sendable _) = True"
| "isSendableEntry (Malformed m) = (case mf_kind m of Some k \<Rightarrow> k \<in> SENDABLE_KINDS | None \<Rightarrow> False)"
| "isSendableEntry _ = False"

fun isLegacyException :: "queue_entry \<Rightarrow> bool" where
  "isLegacyException (Legacy _) = True"
| "isLegacyException (Malformed m) = (mf_kind m = Some ''exception'')"
| "isLegacyException _ = False"

fun entryStatus :: "queue_entry \<Rightarrow> queue_item_status" where
  "entryStatus (Unreadable _ _ _) = Quarantined"
| "entryStatus (Legacy _) = Pending"
| "entryStatus (Sendable e) = (case se_status e of None \<Rightarrow> Pending | Some st \<Rightarrow> st)"
| "entryStatus (Malformed m) = (if mf_kind m = Some ''unreadable'' then Quarantined else Pending)"

fun entry_id :: "queue_entry \<Rightarrow> string option" where
  "entry_id (Sendable e) = Some (se_id e)"
| "entry_id (Legacy l) = Some (le_id l)"
| "entry_id (Unreadable i _ _) = Some i"
| "entry_id (Malformed m) = mf_id m"

section \<open>The store\<close>

text \<open>
  A stored text is what \<open>JSON.parse\<close> makes of it: not JSON, a JSON value that is not an array,
  or an array. \<open>ls_accepts\<close> says which texts \<open>setItem\<close> stores (quota), \<open>ls_readable\<close> whether
  storage can be read at all; \<open>ls_present\<close> is false outside a browser. The version marker is
  the number its text reads as.
\<close>

datatype queue_text = Not_json string | Not_array string | Json_array "queue_entry list"

record local_storage =
  ls_present :: bool
  ls_readable :: bool
  ls_queue :: "queue_text option"
  ls_version :: "int option"
  ls_backup :: "queue_text option"
  ls_accepts :: "queue_text \<Rightarrow> bool"
  ls_acceptsVersion :: bool

definition QUEUE_VERSION :: int where
  "QUEUE_VERSION = 2"

definition loadQueue :: "local_storage \<Rightarrow> queue_entry list" where
  "loadQueue ls =
     (if \<not> ls_present ls \<or> \<not> ls_readable ls then []
      else case ls_queue ls of Some (Json_array es) \<Rightarrow> es | _ \<Rightarrow> [])"

definition writeQueue :: "queue_entry list \<Rightarrow> local_storage \<Rightarrow> bool \<times> local_storage" where
  "writeQueue es ls =
     (if \<not> ls_present ls then (True, ls)
      else if ls_accepts ls (Json_array es) then (True, ls\<lparr>ls_queue := Some (Json_array es)\<rparr>)
      else (False, ls))"

section \<open>Migration\<close>

definition quarantine :: "sendable_entry \<Rightarrow> sendable_entry" where
  "quarantine e = e\<lparr>se_actorId := Null, se_custodySequence := nullable (coalesce (se_custodySequence e)),
     se_status := Some Quarantined, se_attention := Null\<rparr>"

text \<open>
  \<open>fresh\<close> is the \<open>crypto.randomUUID()\<close> an entry without an id gets. The last branch for a
  malformed value is never taken: a record with a sendable kind, an id and a trip is an entry.
\<close>

fun migrateEntry :: "iso \<Rightarrow> string \<Rightarrow> queue_entry \<Rightarrow> queue_entry" where
  "migrateEntry now fresh (Malformed m) =
     (case (mf_isRecord m, mf_kind m, mf_id m) of
        (True, Some k, Some i) \<Rightarrow>
          if k = ''exception'' then Malformed m
          else if k \<notin> SENDABLE_KINDS \<or> mf_tripId m = None then Unreadable i (Malformed m) now
          else Malformed m
      | _ \<Rightarrow> Unreadable fresh (Malformed m) now)"
| "migrateEntry now fresh (Legacy l) = Legacy l"
| "migrateEntry now fresh (Unreadable i raw t) = Unreadable i (Unreadable i raw t) now"
| "migrateEntry now fresh (Sendable e) =
     (if se_actorId e \<noteq> Undef then Sendable e else Sendable (quarantine e))"

fun migrateEntries :: "iso \<Rightarrow> (nat \<Rightarrow> string) \<Rightarrow> nat \<Rightarrow> queue_entry list \<Rightarrow> queue_entry list" where
  "migrateEntries now uuid n [] = []"
| "migrateEntries now uuid n (e # es) = migrateEntry now (uuid n) e # migrateEntries now uuid (Suc n) es"

text \<open>
  The result is the code's boolean with the store. The two stores before the queue write keep a
  text that is not a list; a refused write ends the run.
\<close>

definition migrateQueueForCustody :: "iso \<Rightarrow> (nat \<Rightarrow> string) \<Rightarrow> nat \<Rightarrow> local_storage \<Rightarrow> bool \<times> local_storage" where
  "migrateQueueForCustody now uuid n ls =
     (if \<not> ls_present ls then (True, ls)
      else if \<not> ls_readable ls then (False, ls)
      else if (case ls_version ls of Some v \<Rightarrow> QUEUE_VERSION \<le> v | None \<Rightarrow> False) then (True, ls)
      else
        let finish = (\<lambda>parsed ls1.
              let (ok, ls2) = writeQueue (migrateEntries now uuid n parsed) ls1 in
              if \<not> ok then (False, ls2)
              else if ls_acceptsVersion ls2 then (True, ls2\<lparr>ls_version := Some QUEUE_VERSION\<rparr>)
              else (False, ls2))
        in case ls_queue ls of
             None \<Rightarrow> finish [] ls
           | Some (Json_array es) \<Rightarrow> finish es ls
           | Some raw \<Rightarrow>
               if \<not> ls_accepts ls raw then (False, ls)
               else let ls1 = ls\<lparr>ls_backup := Some raw\<rparr> in
                 if ls_backup ls1 \<noteq> Some raw then (False, ls1) else finish [] ls1)"

definition saveQueue :: "iso \<Rightarrow> (nat \<Rightarrow> string) \<Rightarrow> nat \<Rightarrow> queue_entry list \<Rightarrow> local_storage \<Rightarrow> bool \<times> local_storage" where
  "saveQueue now uuid n es ls =
     (let (ok, ls1) = migrateQueueForCustody now uuid n ls in
      if \<not> ok then (False, ls1) else writeQueue es ls1)"

definition updateQueue :: "iso \<Rightarrow> (nat \<Rightarrow> string) \<Rightarrow> nat \<Rightarrow> (queue_entry list \<Rightarrow> queue_entry list)
    \<Rightarrow> local_storage \<Rightarrow> bool \<times> local_storage" where
  "updateQueue now uuid n change ls = saveQueue now uuid n (change (loadQueue ls)) ls"

definition readUnreadableQueueBackup :: "local_storage \<Rightarrow> queue_text option" where
  "readUnreadableQueueBackup ls =
     (if ls_present ls \<and> ls_readable ls then ls_backup ls else None)"

definition clearUnreadableQueueBackup :: "local_storage \<Rightarrow> local_storage" where
  "clearUnreadableQueueBackup ls = (if ls_present ls \<and> ls_readable ls then ls\<lparr>ls_backup := None\<rparr> else ls)"

section \<open>Reading back what was written\<close>

lemma loadQueue_write:
  "ls_present ls \<Longrightarrow> ls_readable ls \<Longrightarrow> writeQueue es ls = (True, ls') \<Longrightarrow> loadQueue ls' = es"
  by (auto simp: writeQueue_def loadQueue_def split: if_splits)

lemma writeQueue_frame [frame]:
  "writeQueue es ls = (ok, ls') \<Longrightarrow> ls_present ls' = ls_present ls \<and> ls_readable ls' = ls_readable ls
     \<and> ls_accepts ls' = ls_accepts ls \<and> ls_version ls' = ls_version ls \<and> ls_backup ls' = ls_backup ls
     \<and> ls_acceptsVersion ls' = ls_acceptsVersion ls"
  by (auto simp: writeQueue_def split: if_splits)

lemma migrate_frame [frame]:
  "migrateQueueForCustody now uuid n ls = (ok, ls') \<Longrightarrow> ls_present ls' = ls_present ls \<and> ls_readable ls' = ls_readable ls"
  by (auto simp: migrateQueueForCustody_def writeQueue_def Let_def split: if_splits option.splits queue_text.splits)

lemma migrate_current:
  "ls_version ls = Some v \<Longrightarrow> QUEUE_VERSION \<le> v \<Longrightarrow> ls_readable ls \<Longrightarrow> migrateQueueForCustody now uuid n ls = (True, ls)"
  by (simp add: migrateQueueForCustody_def)

lemma migrate_version:
  "migrateQueueForCustody now uuid n ls = (True, ls') \<Longrightarrow> ls_present ls \<Longrightarrow> \<exists>v. ls_version ls' = Some v \<and> QUEUE_VERSION \<le> v"
  by (auto simp: migrateQueueForCustody_def writeQueue_def Let_def QUEUE_VERSION_def
      split: if_splits option.splits queue_text.splits)

text \<open>A migrated store: its marker says version 2, so every later run returns at once.\<close>

definition migrated :: "local_storage \<Rightarrow> bool" where
  "migrated ls \<longleftrightarrow> ls_present ls \<and> ls_readable ls \<and> (\<exists>v. ls_version ls = Some v \<and> QUEUE_VERSION \<le> v)"

lemma migrated_migrate: "migrated ls \<Longrightarrow> migrateQueueForCustody now uuid n ls = (True, ls)"
  by (auto simp: migrated_def migrate_current)

lemma migrated_save: "migrated ls \<Longrightarrow> saveQueue now uuid n es ls = writeQueue es ls"
  by (simp add: saveQueue_def migrated_migrate)

lemma migrated_write: "migrated ls \<Longrightarrow> writeQueue es ls = (ok, ls') \<Longrightarrow> migrated ls'"
  by (auto simp: migrated_def dest: writeQueue_frame)

lemma migrated_saveE:
  assumes "migrated ls" "saveQueue now uuid n es ls = (ok, ls')"
  shows "migrated ls' \<and> loadQueue ls' = (if ok then es else loadQueue ls)"
  using assms migrated_write[OF assms(1), of es ok ls'] loadQueue_write[of ls es ls']
  by (auto simp: migrated_save migrated_def writeQueue_def split: if_splits)

section \<open>The migration loses nothing\<close>

text \<open>
  What may become of a stored element. A capture that says who took it is not touched; one of an earlier
  build keeps its id, trip, period, instant and content, names no capturer and is quarantined (an older
  mark gives way to the quarantine); an incident report is not touched; anything else stays as it is or is
  kept verbatim inside an unreadable entry.
\<close>

fun still_holds :: "queue_entry \<Rightarrow> queue_entry \<Rightarrow> bool" where
  "still_holds (Sendable e) new \<longleftrightarrow> (\<exists>e'. new = Sendable e'
     \<and> (if se_actorId e = Undef
        then se_id e' = se_id e \<and> se_tripId e' = se_tripId e \<and> se_body e' = se_body e
           \<and> se_enqueuedAt e' = se_enqueuedAt e \<and> coalesce (se_custodySequence e') = coalesce (se_custodySequence e)
           \<and> se_actorId e' = Null \<and> se_status e' = Some Quarantined
        else e' = e))"
| "still_holds (Legacy l) new \<longleftrightarrow> new = Legacy l"
| "still_holds (Unreadable i raw t) new \<longleftrightarrow> new = Unreadable i raw t \<or> (\<exists>t'. new = Unreadable i (Unreadable i raw t) t')"
| "still_holds (Malformed m) new \<longleftrightarrow> new = Malformed m \<or> (\<exists>i t. new = Unreadable i (Malformed m) t)"

lemma migrateEntry_still_holds: "still_holds e (migrateEntry now fresh e)"
  by (cases "(now, fresh, e)" rule: migrateEntry.cases) (auto simp: quarantine_def split: option.split bool.split)

lemma migrateEntries_still_hold: "list_all2 still_holds es (migrateEntries now uuid n es)"
  by (induction es arbitrary: n) (simp_all add: migrateEntry_still_holds)

lemma migrateEntry_id: "entry_id e = Some i \<Longrightarrow> entry_id (migrateEntry now fresh e) = Some i \<or> (\<exists>m. e = Malformed m)"
  by (cases "(now, fresh, e)" rule: migrateEntry.cases) (auto simp: quarantine_def)

definition unattributed :: "queue_entry \<Rightarrow> bool" where
  "unattributed e \<longleftrightarrow> (\<exists>s. e = Sendable s \<and> se_actorId s = Undef)"

lemma migrateEntry_attributes: "\<not> unattributed (migrateEntry now fresh e)"
  by (cases "(now, fresh, e)" rule: migrateEntry.cases)
    (auto simp: unattributed_def quarantine_def split: option.split bool.split)

lemma migrateEntries_attribute: "e \<in> set (migrateEntries now uuid n es) \<Longrightarrow> \<not> unattributed e"
  by (induction es arbitrary: n) (auto simp: migrateEntry_attributes)

lemma migrate_outcome:
  assumes "migrateQueueForCustody now uuid n ls = (ok, ls')"
  shows "case ls_queue ls of
      None \<Rightarrow> ls_queue ls' \<in> {None, Some (Json_array [])}
    | Some (Json_array es) \<Rightarrow> ls_queue ls' \<in> {ls_queue ls, Some (Json_array (migrateEntries now uuid n es))}
    | Some raw \<Rightarrow> ls_queue ls' = Some raw \<or> (ls_queue ls' = Some (Json_array []) \<and> ls_backup ls' = Some raw)"
  using assms
  by (auto simp: migrateQueueForCustody_def writeQueue_def Let_def split: if_splits option.splits queue_text.splits)

text \<open>Property C26. An interrupted or refused migration costs nothing: at whatever write it stops, the stored queue
  is still there: untouched, or as the migrated list with one entry for each stored element, in their order -
  a capture with its own id, trip, period, instant and content, unchanged when its capturer is on record and
  quarantined when it is not, an incident report unchanged, anything unreadable verbatim -
  or (when it was no list at all) as its exact text in the backup.\<close>

theorem migration_loses_nothing:
  "case migrateQueueForCustody now uuid n ls of (ok, ls') \<Rightarrow>
     (case ls_queue ls of
        None \<Rightarrow> ls_queue ls' \<in> {None, Some (Json_array [])}
      | Some (Json_array es) \<Rightarrow> (\<exists>es'. ls_queue ls' = Some (Json_array es') \<and> (es' = es \<or> list_all2 still_holds es es'))
      | Some raw \<Rightarrow> ls_queue ls' = Some raw \<or> (ls_queue ls' = Some (Json_array []) \<and> ls_backup ls' = Some raw))"
proof -
  obtain ok ls' where m: "migrateQueueForCustody now uuid n ls = (ok, ls')" by fastforce
  show ?thesis
    using migrate_outcome[OF m] migrateEntries_still_hold[of _ now uuid n]
    by (auto simp: m split: option.splits queue_text.splits)
qed

text \<open>After a migration that completes on an older store, every capture in the queue says who took it or
  is quarantined: none is left without a capturer field, and those that had none are quarantined.\<close>

theorem migration_attributes_every_capture:
  assumes "migrateQueueForCustody now uuid n ls = (True, ls')"
    and "ls_present ls" "ls_version ls = None \<or> (\<exists>v. ls_version ls = Some v \<and> v < QUEUE_VERSION)"
  shows "migrated ls'
    \<and> (\<forall>e\<in>set (loadQueue ls'). \<not> unattributed e)
    \<and> (\<forall>s i. ls_queue ls = Some (Json_array (map Sendable s)) \<and> i < length s \<and> se_actorId (s ! i) = Undef
         \<longrightarrow> entryStatus (loadQueue ls' ! i) = Quarantined)"
proof -
  have r: "ls_readable ls" using assms by (auto simp: migrateQueueForCustody_def split: if_splits)
  then have mig: "migrated ls'"
    using migrate_version[OF assms(1,2)] migrate_frame[OF assms(1)] assms(2) by (simp add: migrated_def)
  have q: "loadQueue ls' = (case ls_queue ls of Some (Json_array es) \<Rightarrow> migrateEntries now uuid n es | _ \<Rightarrow> [])"
    using assms r
    by (auto simp: migrateQueueForCustody_def loadQueue_def writeQueue_def Let_def
        split: if_splits option.splits queue_text.splits)
  have nth: "i < length es \<Longrightarrow> migrateEntries now uuid k es ! i = migrateEntry now (uuid (k + i)) (es ! i)" for es i k
    by (induction es arbitrary: i k) (auto simp: nth_Cons split: nat.split)
  show ?thesis
    using mig q migrateEntries_attribute[of _ now uuid n]
    by (auto simp: nth quarantine_def split: option.splits queue_text.splits)
qed

definition demo_storage :: "queue_entry list \<Rightarrow> int option \<Rightarrow> local_storage" where
  "demo_storage es v = \<lparr>ls_present = True, ls_readable = True, ls_queue = Some (Json_array es), ls_version = v,
     ls_backup = None, ls_accepts = (\<lambda>_. True), ls_acceptsVersion = True\<rparr>"

definition demo_location :: "string \<Rightarrow> string field \<Rightarrow> sendable_entry" where
  "demo_location i actor = \<lparr>se_id = i, se_tripId = ''t'', se_actorId = actor, se_custodySequence = Undef,
     se_status = None, se_attention = Undef, se_enqueuedAt = ''at'', se_body = Location_capture []\<rparr>"

theorem migration_attributes_every_capture_witness:
  "let ls = demo_storage (map Sendable [demo_location ''old'' Undef]) None;
       ls' = snd (migrateQueueForCustody ''now'' (\<lambda>_. ''u'') 0 ls)
   in fst (migrateQueueForCustody ''now'' (\<lambda>_. ''u'') 0 ls) \<and> entryStatus (loadQueue ls' ! 0) = Quarantined"
proof -
  let ?ls = "demo_storage (map Sendable [demo_location ''old'' Undef]) None"
  let ?r = "migrateQueueForCustody ''now'' (\<lambda>_. ''u'') 0 ?ls"
  have f: "fst ?r" by (simp add: migrateQueueForCustody_def demo_storage_def writeQueue_def)
  have h: "?r = (True, snd ?r)" using f by (metis prod.collapse)
  have p: "ls_present ?ls" and v: "ls_version ?ls = None \<or> (\<exists>v. ls_version ?ls = Some v \<and> v < QUEUE_VERSION)"
    and q: "ls_queue ?ls = Some (Json_array (map Sendable [demo_location ''old'' Undef]))"
    by (simp_all add: demo_storage_def)
  have u: "se_actorId ([demo_location ''old'' Undef] ! 0) = Undef" by (simp add: demo_location_def)
  have "entryStatus (loadQueue (snd ?r) ! 0) = Quarantined"
    using migration_attributes_every_capture[OF h p v] q u by (metis length_greater_0_conv list.discI)
  then show ?thesis unfolding Let_def using f by blast
qed

text \<open>
  Running again after the marker could not be written: entries that were readable are untouched,
  one already wrapped as unreadable is wrapped a second time (its id and content stay).
\<close>

lemma migrateEntry_again:
  "migrateEntry now' fresh' (migrateEntry now fresh (Sendable s)) = migrateEntry now fresh (Sendable s)"
  "migrateEntry now' fresh' (migrateEntry now fresh (Legacy l)) = Legacy l"
  by (simp_all add: quarantine_def)

lemma migrateEntry_wraps_again:
  "migrateEntry now' fresh' (Unreadable i raw t) \<noteq> Unreadable i raw t"
proof
  assume "migrateEntry now' fresh' (Unreadable i raw t) = Unreadable i raw t"
  then have "size (Unreadable i raw t) = size raw" by simp
  then show False by simp
qed

text \<open>A change to the queue is computed from the queue as it was read, and on a store whose migration
  is still outstanding the write that follows it puts the unmigrated entries back behind the version
  marker: a version-1 capture then stays without a capturer and is never quarantined. Once the store
  is migrated every update is an exact read-modify-write that keeps it migrated.\<close>

theorem update_is_exact_once_migrated:
  "(migrated ls \<longrightarrow> (case updateQueue now uuid n change ls of (ok, ls') \<Rightarrow>
        migrated ls' \<and> loadQueue ls' = (if ok then change (loadQueue ls) else loadQueue ls)))
   \<and> (let old = demo_storage [Sendable (demo_location ''old'' Undef)] None;
          ls' = snd (updateQueue now uuid n (\<lambda>es. es) old)
      in migrated ls' \<and> loadQueue ls' = [Sendable (demo_location ''old'' Undef)]
         \<and> (\<exists>e\<in>set (loadQueue ls'). unattributed e) \<and> entryStatus (loadQueue ls' ! 0) = Pending)"
proof
  show "migrated ls \<longrightarrow> (case updateQueue now uuid n change ls of (ok, ls') \<Rightarrow>
        migrated ls' \<and> loadQueue ls' = (if ok then change (loadQueue ls) else loadQueue ls))"
    using migrated_saveE by (auto simp: updateQueue_def split: prod.split)
  show "let old = demo_storage [Sendable (demo_location ''old'' Undef)] None;
          ls' = snd (updateQueue now uuid n (\<lambda>es. es) old)
      in migrated ls' \<and> loadQueue ls' = [Sendable (demo_location ''old'' Undef)]
         \<and> (\<exists>e\<in>set (loadQueue ls'). unattributed e) \<and> entryStatus (loadQueue ls' ! 0) = Pending"
    by (simp add: updateQueue_def saveQueue_def migrateQueueForCustody_def writeQueue_def loadQueue_def
        demo_storage_def demo_location_def migrated_def unattributed_def)
qed

theorem update_is_exact_once_migrated_witness:
  "let ls = demo_storage [Sendable (demo_location ''a'' (Val ''A''))] (Some 2);
       ls' = snd (updateQueue ''now'' (\<lambda>_. ''u'') 0 (filter (\<lambda>e. entry_id e \<noteq> Some ''a'')) ls)
   in migrated ls \<and> migrated ls' \<and> loadQueue ls' = []"
proof -
  let ?ls = "demo_storage [Sendable (demo_location ''a'' (Val ''A''))] (Some 2)"
  let ?f = "filter (\<lambda>e. entry_id e \<noteq> Some ''a'')"
  have m: "migrated ?ls" by (simp add: migrated_def demo_storage_def QUEUE_VERSION_def)
  have ok: "fst (updateQueue ''now'' (\<lambda>_. ''u'') 0 ?f ?ls)"
    using m by (simp add: updateQueue_def migrated_save) (simp add: writeQueue_def demo_storage_def)
  have e: "?f (loadQueue ?ls) = []" by (simp add: loadQueue_def demo_storage_def demo_location_def)
  show ?thesis unfolding Let_def
    using m ok e update_is_exact_once_migrated[where ls = ?ls and now = "''now''" and uuid = "\<lambda>_. ''u''" and n = 0
        and change = ?f]
    by (auto split: prod.splits)
qed

end
