(* ===== verification/KeyedStore.thy ===== *)
theory KeyedStore
  imports JsPrelude
begin

text \<open>
  An IndexedDB object store with a key path, as the two stores of the app use it
  (\<open>lib/offline/exception-store.ts\<close>, \<open>lib/offline/substitution-store.ts\<close>): records kept
  in the order of their string keys, \<open>get\<close>, \<open>getAll\<close>, \<open>put\<close> (insert or replace) and
  \<open>delete\<close>. The interface the stores rely on is a locale, interpreted on this model.
\<close>

section \<open>The model\<close>

definition db_get :: "('a \<Rightarrow> string) \<Rightarrow> string \<Rightarrow> 'a list \<Rightarrow> 'a option" where
  "db_get key k db = List.find (\<lambda>x. key x = k) db"

fun db_put :: "('a \<Rightarrow> string) \<Rightarrow> 'a \<Rightarrow> 'a list \<Rightarrow> 'a list" where
  "db_put key x [] = [x]"
| "db_put key x (y # ys) =
     (if key x = key y then x # ys
      else if key x < key y then x # y # ys
      else y # db_put key x ys)"

definition db_delete :: "('a \<Rightarrow> string) \<Rightarrow> string \<Rightarrow> 'a list \<Rightarrow> 'a list" where
  "db_delete key k db = filter (\<lambda>x. key x \<noteq> k) db"

text \<open>Read-modify-write in one transaction: nothing is stored when there is no record or no change.\<close>

definition db_update :: "('a \<Rightarrow> string) \<Rightarrow> string \<Rightarrow> ('a \<Rightarrow> 'a option) \<Rightarrow> 'a list \<Rightarrow> 'a list" where
  "db_update key k change db = (case db_get key k db of
       None \<Rightarrow> db
     | Some current \<Rightarrow> (case change current of None \<Rightarrow> db | Some nxt \<Rightarrow> db_put key nxt db))"

definition db_inv :: "('a \<Rightarrow> string) \<Rightarrow> 'a list \<Rightarrow> bool" where
  "db_inv key db \<longleftrightarrow> sorted_wrt (<) (map key db)"

section \<open>The interface\<close>

locale keyed_store =
  fixes key :: "'a \<Rightarrow> string"
    and get :: "string \<Rightarrow> 'db \<Rightarrow> 'a option"
    and put :: "'a \<Rightarrow> 'db \<Rightarrow> 'db"
    and del :: "string \<Rightarrow> 'db \<Rightarrow> 'db"
    and all :: "'db \<Rightarrow> 'a list"
    and inv :: "'db \<Rightarrow> bool"
  assumes get_put: "inv db \<Longrightarrow> get k (put x db) = (if k = key x then Some x else get k db)"
    and get_del: "inv db \<Longrightarrow> get k (del j db) = (if k = j then None else get k db)"
    and all_get: "inv db \<Longrightarrow> x \<in> set (all db) \<longleftrightarrow> get (key x) db = Some x"
    and get_key: "get k db = Some x \<Longrightarrow> key x = k"
    and inv_put: "inv db \<Longrightarrow> inv (put x db)"
    and inv_del: "inv db \<Longrightarrow> inv (del k db)"
    and all_distinct: "inv db \<Longrightarrow> distinct (map key (all db))"
begin

definition update :: "string \<Rightarrow> ('a \<Rightarrow> 'a option) \<Rightarrow> 'db \<Rightarrow> 'db" where
  "update k change db = (case get k db of
       None \<Rightarrow> db | Some x \<Rightarrow> (case change x of None \<Rightarrow> db | Some y \<Rightarrow> put y db))"

lemma inv_update: "inv db \<Longrightarrow> inv (update k change db)"
  by (auto simp: update_def inv_put split: option.split)

lemma get_update:
  assumes "inv db" "\<And>x y. change x = Some y \<Longrightarrow> key y = key x"
  shows "get j (update k change db) =
    (if j = k then (case get k db of None \<Rightarrow> None
        | Some x \<Rightarrow> (case change x of None \<Rightarrow> Some x | Some y \<Rightarrow> Some y))
     else get j db)"
  using assms by (auto simp: update_def get_put dest!: get_key split: option.split)

lemma all_put: "inv db \<Longrightarrow> x \<in> set (all (put y db)) \<longleftrightarrow> x = y \<or> (x \<in> set (all db) \<and> key x \<noteq> key y)"
  by (auto simp: all_get inv_put get_put)

lemma all_del: "inv db \<Longrightarrow> x \<in> set (all (del k db)) \<longleftrightarrow> x \<in> set (all db) \<and> key x \<noteq> k"
  by (auto simp: all_get inv_del get_del)

end

section \<open>The model satisfies the interface\<close>

lemma db_put_keys: "set (map key (db_put key x db)) = insert (key x) (set (map key db))"
  by (induction key x db rule: db_put.induct) auto

lemma db_inv_put: "db_inv key db \<Longrightarrow> db_inv key (db_put key x db)"
  unfolding db_inv_def
proof (induction key x db rule: db_put.induct)
  case (2 key x y ys)
  have "\<forall>k\<in>set (map key (db_put key x ys)). key y < k" if "key y < key x" "\<forall>k\<in>set (map key ys). key y < k"
    using that db_put_keys[of key x ys] by simp
  then show ?case using 2 by (auto dest: less_trans)
qed simp

lemma db_get_put:
  "db_inv key db \<Longrightarrow> db_get key k (db_put key x db) = (if k = key x then Some x else db_get key k db)"
proof (induction key x db rule: db_put.induct)
  case (1 key x)
  then show ?case by (simp add: db_get_def)
next
  case (2 key x y ys)
  have tail: "db_inv key ys" using 2 by (simp add: db_inv_def)
  show ?case using 2 tail by (auto simp: db_get_def)
qed

lemma db_get_delete: "db_get key k (db_delete key j db) = (if k = j then None else db_get key k db)"
  by (induction db) (auto simp: db_get_def db_delete_def)

lemma db_get_key: "db_get key k db = Some x \<Longrightarrow> key x = k"
  by (auto simp: db_get_def find_Some_iff)

lemma db_all_get: "db_inv key db \<Longrightarrow> x \<in> set db \<longleftrightarrow> db_get key (key x) db = Some x"
  by (induction db) (auto simp: db_get_def db_inv_def)

lemma db_inv_distinct: "db_inv key db \<Longrightarrow> distinct (map key db)"
  unfolding db_inv_def by (induction db) auto

interpretation db: keyed_store key "db_get key" "db_put key" "db_delete key" "\<lambda>db. db" "db_inv key"
  rewrites "keyed_store.update (db_get key) (db_put key) = db_update key"
  for key :: "'a \<Rightarrow> string"
proof -
  show store: "keyed_store key (db_get key) (db_put key) (db_delete key) (\<lambda>db. db) (db_inv key)"
    by unfold_locales
      (auto simp: db_get_put db_get_delete db_all_get db_get_key db_inv_put db_inv_distinct,
       auto simp: db_inv_def db_delete_def sorted_wrt_filter sorted_wrt_map)
  show "keyed_store.update (db_get key) (db_put key) = db_update key"
    by (intro ext) (simp add: keyed_store.update_def[OF store] db_update_def)
qed

text \<open>A record whose key is present is replaced where it stands.\<close>

lemma db_put_present:
  "db_inv key db \<Longrightarrow> key x \<in> key ` set db \<Longrightarrow>
   db_put key x db = map (\<lambda>y. if key y = key x then x else y) db"
proof (induction key x db rule: db_put.induct)
  case (2 key x y ys)
  then have above: "\<forall>z\<in>set ys. key y < key z" by (simp add: db_inv_def)
  then have "key x = key y \<Longrightarrow> map (\<lambda>y. if key y = key x then x else y) ys = ys"
    by (intro map_idI) auto
  moreover have "\<not> key x < key y" if "key x \<noteq> key y" using 2 above that by auto
  ultimately show ?case using 2 by (auto simp: db_inv_def)
qed simp

lemma db_inv_Nil [simp]: "db_inv key []"
  by (simp add: db_inv_def)

end
