(* ===== verification/DataUrl.thy ===== *)
theory DataUrl
  imports JsPrelude "HOL-Library.Sublist"
begin

text \<open>
  Photos between their two forms: the data URL a camera produced and the \<open>Blob\<close> kept in
  IndexedDB (\<open>blobToDataUrl\<close> and \<open>dataUrlToBlob\<close> of \<open>lib/offline/exception-sync.ts\<close>), with
  the parts of the platform they use: \<open>atob\<close>, \<open>decodeURIComponent\<close> and
  \<open>FileReader.readAsDataURL\<close>. A string of bytes is a \<open>char list\<close>.
\<close>

section \<open>Base 64\<close>

definition base64_alphabet :: string where
  "base64_alphabet = ''ABCDEFGHIJKLMNOPQRSTUVWXYZabcdefghijklmnopqrstuvwxyz0123456789+/''"

definition b64char :: "nat \<Rightarrow> char" where
  "b64char n = base64_alphabet ! n"

fun index_from :: "nat \<Rightarrow> string \<Rightarrow> char \<Rightarrow> nat option" where
  "index_from n [] c = None"
| "index_from n (x # xs) c = (if x = c then Some n else index_from (Suc n) xs c)"

definition b64val :: "char \<Rightarrow> nat option" where
  "b64val c = index_from 0 base64_alphabet c"

fun b64_groups :: "string \<Rightarrow> string" where
  "b64_groups (x # y # z # r) =
     (let a = of_char x :: nat; b = of_char y; c = of_char z
      in [b64char (a div 4), b64char (a mod 4 * 16 + b div 16), b64char (b mod 16 * 4 + c div 64), b64char (c mod 64)]
         @ b64_groups r)"
| "b64_groups [x, y] =
     (let a = of_char x :: nat; b = of_char y
      in [b64char (a div 4), b64char (a mod 4 * 16 + b div 16), b64char (b mod 16 * 4), CHR ''=''])"
| "b64_groups [x] =
     (let a = of_char x :: nat in [b64char (a div 4), b64char (a mod 4 * 16), CHR ''='', CHR ''=''])"
| "b64_groups [] = []"

fun unb64_groups :: "nat list \<Rightarrow> string" where
  "unb64_groups (a # b # c # d # r) =
     [char_of (a * 4 + b div 16), char_of (b mod 16 * 16 + c div 4), char_of (c mod 4 * 64 + d)] @ unb64_groups r"
| "unb64_groups [a, b, c] = [char_of (a * 4 + b div 16), char_of (b mod 16 * 16 + c div 4)]"
| "unb64_groups [a, b] = [char_of (a * 4 + b div 16)]"
| "unb64_groups _ = []"

fun all_some :: "'a option list \<Rightarrow> 'a list option" where
  "all_some [] = Some []"
| "all_some (None # _) = None"
| "all_some (Some x # xs) = map_option ((#) x) (all_some xs)"

definition drop_padding :: "string \<Rightarrow> string" where
  "drop_padding s =
     (if length s mod 4 = 0 then
        (if suffix ''=='' s then take (length s - 2) s
         else if suffix ''='' s then take (length s - 1) s else s)
      else s)"

definition isAsciiWhite :: "char \<Rightarrow> bool" where
  "isAsciiWhite c \<longleftrightarrow> c \<in> {CHR '' '', CHR 0x09, CHR 0x0A, CHR 0x0C, CHR 0x0D}"

definition atob :: "string \<Rightarrow> string + string" where
  "atob text =
     (let s = drop_padding (filter (Not \<circ> isAsciiWhite) text) in
      if length s mod 4 = 1 then Inl ''InvalidCharacterError''
      else case all_some (map b64val s) of
             None \<Rightarrow> Inl ''InvalidCharacterError''
           | Some ns \<Rightarrow> Inr (unb64_groups ns))"

section \<open>Percent decoding\<close>

fun hexval :: "char \<Rightarrow> nat option" where
  "hexval c = (let n = of_char c :: nat in
     if 48 \<le> n \<and> n \<le> 57 then Some (n - 48)
     else if 65 \<le> n \<and> n \<le> 70 then Some (n - 55)
     else if 97 \<le> n \<and> n \<le> 102 then Some (n - 87) else None)"

text \<open>One escape \<open>%XX\<close> at the head of a text.\<close>

fun escape :: "string \<Rightarrow> (nat \<times> string) option" where
  "escape (p # h # l # r) =
     (if p \<noteq> CHR ''%'' then None else case (hexval h, hexval l) of
        (Some a, Some b) \<Rightarrow> Some (16 * a + b, r) | _ \<Rightarrow> None)"
| "escape _ = None"

lemma escape_shorter: "escape s = Some (n, r) \<Longrightarrow> length r < length s"
  by (induction s rule: escape.induct) (auto split: if_splits option.splits)

text \<open>\<open>k\<close> continuation bytes of a UTF-8 sequence, added to the value so far.\<close>

fun continuation :: "nat \<Rightarrow> nat \<Rightarrow> string \<Rightarrow> (nat \<times> string) option" where
  "continuation 0 v s = Some (v, s)"
| "continuation (Suc k) v s = (case escape s of
      Some (b, r) \<Rightarrow> if b div 64 = 2 then continuation k (v * 64 + b mod 64) r else None
    | None \<Rightarrow> None)"

lemma continuation_shorter: "continuation k v s = Some (n, r) \<Longrightarrow> length r \<le> length s"
  by (induction k v s rule: continuation.induct)
    (fastforce split: option.splits if_splits dest: escape_shorter)+

text \<open>
  The code units of a code point, each as the byte that storing it in a \<open>Uint8Array\<close> keeps:
  one unit below 65536, a surrogate pair above.
\<close>

definition units :: "nat \<Rightarrow> string" where
  "units v = (if v < 65536 then [char_of (v mod 256)]
     else [char_of ((55296 + (v - 65536) div 1024) mod 256), char_of ((56320 + (v - 65536) mod 1024) mod 256)])"

definition utf8_head :: "nat \<Rightarrow> (nat \<times> nat \<times> nat \<times> nat) option" where
  \<comment> \<open>continuation bytes, initial bits, least and greatest code point of the form\<close>
  "utf8_head b = (if b < 128 then Some (0, b, 0, 127)
     else if 192 \<le> b \<and> b < 224 then Some (1, b - 192, 128, 2047)
     else if 224 \<le> b \<and> b < 240 then Some (2, b - 224, 2048, 65535)
     else if 240 \<le> b \<and> b < 248 then Some (3, b - 240, 65536, 1114111) else None)"

definition code_point :: "string \<Rightarrow> (nat \<times> string) option" where
  "code_point s = (case escape s of
      None \<Rightarrow> None
    | Some (b, r) \<Rightarrow> (case utf8_head b of
        None \<Rightarrow> None
      | Some (k, v, lo, hi) \<Rightarrow> (case continuation k v r of
          None \<Rightarrow> None
        | Some (n, r') \<Rightarrow> if lo \<le> n \<and> n \<le> hi \<and> \<not> (55296 \<le> n \<and> n \<le> 57343) then Some (n, r') else None)))"

lemma code_point_shorter: "code_point s = Some (n, r) \<Longrightarrow> length r < length s"
  by (auto simp: code_point_def split: option.splits if_splits prod.splits
      dest!: escape_shorter continuation_shorter)

function decodeURIComponent :: "string \<Rightarrow> string + string" where
  "decodeURIComponent [] = Inr []"
| "decodeURIComponent (c # s) =
     (if c = CHR ''%'' then
        (case code_point (c # s) of
           None \<Rightarrow> Inl ''URI malformed''
         | Some (n, r) \<Rightarrow> (case decodeURIComponent r of Inl e \<Rightarrow> Inl e | Inr t \<Rightarrow> Inr (units n @ t)))
      else (case decodeURIComponent s of Inl e \<Rightarrow> Inl e | Inr t \<Rightarrow> Inr (c # t)))"
  by pat_completeness auto
termination
  by (relation "measure length") (auto dest: code_point_shorter)

section \<open>Blobs\<close>

record blob =
  blob_type :: string
  blob_bytes :: string

definition ascii_lower :: "char \<Rightarrow> char" where
  "ascii_lower c = (let n = of_char c :: nat in if 65 \<le> n \<and> n \<le> 90 then char_of (n + 32) else c)"

fun indexOfChar :: "char \<Rightarrow> string \<Rightarrow> nat option" where
  "indexOfChar c [] = None"
| "indexOfChar c (x # xs) = (if x = c then Some 0 else map_option Suc (indexOfChar c xs))"

text \<open>\<open>s.replace(pat, '')\<close>: the first occurrence is removed.\<close>

fun removeFirst :: "string \<Rightarrow> string \<Rightarrow> string" where
  "removeFirst pat [] = []"
| "removeFirst pat (c # s) = (if prefix pat (c # s) then drop (length pat) (c # s) else c # removeFirst pat s)"

definition BASE64_MARKER :: string where "BASE64_MARKER = '';base64''"
definition DEFAULT_MIME :: string where "DEFAULT_MIME = ''application/octet-stream''"

definition decodeBody :: "string \<Rightarrow> string \<Rightarrow> string + blob" where
  "decodeBody header payload =
     (let stripped = removeFirst BASE64_MARKER header;
          mime = (if stripped = [] then DEFAULT_MIME else stripped)
      in case (if suffix BASE64_MARKER header then atob payload else decodeURIComponent payload) of
           Inl e \<Rightarrow> Inl e
         | Inr binary \<Rightarrow> Inr \<lparr>blob_type = map ascii_lower mime, blob_bytes = binary\<rparr>)"

definition dataUrlToBlob :: "string \<Rightarrow> string + blob" where
  "dataUrlToBlob dataUrl = (case indexOfChar (CHR '','') dataUrl of
       None \<Rightarrow> Inl ''Malformed data URL''
     | Some separator \<Rightarrow>
         if \<not> prefix ''data:'' dataUrl then Inl ''Malformed data URL''
         else decodeBody (drop 5 (take separator dataUrl)) (drop (Suc separator) dataUrl))"

definition blobToDataUrl :: "blob \<Rightarrow> string" where
  "blobToDataUrl b = ''data:'' @ (if blob_type b = [] then DEFAULT_MIME else blob_type b) @ '';base64,''
     @ b64_groups (blob_bytes b)"

section \<open>The round trip\<close>

lemma b64_table:
  "n < 64 \<Longrightarrow> b64val (b64char n) = Some n \<and> b64char n \<noteq> CHR ''='' \<and> \<not> isAsciiWhite (b64char n)"
proof -
  have "list_all (\<lambda>n. b64val (b64char n) = Some n \<and> b64char n \<noteq> CHR ''='' \<and> \<not> isAsciiWhite (b64char n)) [0..<64]"
    by code_simp
  then show "n < 64 \<Longrightarrow> ?thesis" by (simp add: list_all_iff)
qed

text \<open>The encoding as sextets and padding.\<close>

fun sextets :: "string \<Rightarrow> nat list" where
  "sextets (x # y # z # r) =
     (let a = of_char x :: nat; b = of_char y; c = of_char z
      in [a div 4, a mod 4 * 16 + b div 16, b mod 16 * 4 + c div 64, c mod 64] @ sextets r)"
| "sextets [x, y] = (let a = of_char x :: nat; b = of_char y
      in [a div 4, a mod 4 * 16 + b div 16, b mod 16 * 4])"
| "sextets [x] = (let a = of_char x :: nat in [a div 4, a mod 4 * 16])"
| "sextets [] = []"

fun padding :: "string \<Rightarrow> nat" where
  "padding (x # y # z # r) = padding r"
| "padding [x, y] = 1"
| "padding [x] = 2"
| "padding [] = 0"

lemma b64_groups_sextets: "b64_groups bs = map b64char (sextets bs) @ replicate (padding bs) (CHR ''='')"
  by (induction bs rule: b64_groups.induct) (auto simp: Let_def numeral_2_eq_2)

lemma byte_bounds:
  "(of_char x :: nat) div 4 < 64" "(of_char x :: nat) div 16 < 16" "(of_char x :: nat) div 64 < 4"
  using nat_of_char_less_256[of x] by (simp_all add: div_less_iff_less_mult)

lemma sextet_bounds:
  "(of_char x :: nat) mod 4 * 16 + (of_char y :: nat) div 16 < 64"
  "(of_char x :: nat) mod 16 * 4 + (of_char y :: nat) div 64 < 64"
  "(of_char x :: nat) mod 4 * 16 < 64" "(of_char x :: nat) mod 16 * 4 < 64" "(of_char x :: nat) mod 64 < 64"
proof -
  have "(of_char x :: nat) mod 4 < 4" "(of_char x :: nat) mod 16 < 16" by simp_all
  then show "(of_char x :: nat) mod 4 * 16 + (of_char y :: nat) div 16 < 64"
    "(of_char x :: nat) mod 16 * 4 + (of_char y :: nat) div 64 < 64"
    "(of_char x :: nat) mod 4 * 16 < 64" "(of_char x :: nat) mod 16 * 4 < 64" "(of_char x :: nat) mod 64 < 64"
    using byte_bounds[of y] by linarith+
qed

lemma sextets_bound: "n \<in> set (sextets bs) \<Longrightarrow> n < 64"
  by (induction bs rule: sextets.induct) (auto simp: Let_def byte_bounds sextet_bounds)

lemma sextets_length: "(length (sextets bs) + padding bs) mod 4 = 0 \<and> padding bs \<le> 2
    \<and> length (sextets bs) mod 4 \<noteq> 1"
proof (induction bs rule: sextets.induct)
  case (1 x y z r)
  then show ?case by (simp add: Let_def)
qed (auto simp: Let_def)

lemma unb64_sextets: "unb64_groups (sextets bs) = bs"
proof (induction bs rule: sextets.induct)
  case (1 x y z r)
  then show ?case using byte_bounds[of x] byte_bounds[of y] byte_bounds[of z]
    by (simp add: Let_def add.commute mult.commute)
next
  case (2 x y)
  then show ?case using byte_bounds[of x] byte_bounds[of y]
    by (simp add: Let_def add.commute mult.commute)
next
  case (3 x)
  then show ?case by (simp add: Let_def mult.commute)
qed simp

lemma drop_padding_encoded:
  assumes "CHR ''='' \<notin> set s" "k \<le> 2" "(length s + k) mod 4 = 0"
  shows "drop_padding (s @ replicate k (CHR ''='')) = s"
proof -
  have last: "s = ys @ [CHR ''=''] \<longleftrightarrow> False" "s = ys @ [CHR ''='', CHR ''=''] \<longleftrightarrow> False" for ys
    using assms(1) by auto
  consider "k = 0" | "k = 1" | "k = 2" using assms(2) by linarith
  then show ?thesis
    using assms(3) by cases (auto simp: drop_padding_def suffix_def last numeral_2_eq_2)
qed

lemma all_some_vals: "\<forall>n\<in>set ns. n < 64 \<Longrightarrow> all_some (map b64val (map b64char ns)) = Some ns"
  by (induction ns) (auto simp: b64_table)

lemma atob_encode: "atob (b64_groups bs) = Inr bs"
proof -
  let ?s = "map b64char (sextets bs)"
  have nums: "b64char n \<noteq> CHR ''='' \<and> \<not> isAsciiWhite (b64char n)" if "n \<in> set (sextets bs)" for n
    using b64_table[OF sextets_bound[OF that]] by blast
  have eq: "CHR ''='' \<notin> set ?s" using nums by fastforce
  have "\<not> isAsciiWhite (CHR ''='')" by code_simp
  then have ws: "\<forall>c\<in>set (b64_groups bs). \<not> isAsciiWhite c"
    using nums by (auto simp: b64_groups_sextets)
  have "filter (Not \<circ> isAsciiWhite) (b64_groups bs) = b64_groups bs"
    using ws by (simp add: filter_id_conv)
  moreover have "drop_padding (b64_groups bs) = ?s"
    unfolding b64_groups_sextets using drop_padding_encoded[OF eq] sextets_length[of bs] by simp
  ultimately show ?thesis
    using sextets_length[of bs] all_some_vals[of "sextets bs"] sextets_bound
    by (simp add: atob_def unb64_sextets)
qed

lemma indexOfChar_append: "c \<notin> set xs \<Longrightarrow> indexOfChar c (xs @ c # ys) = Some (length xs)"
  by (induction xs) auto

lemma removeFirst_at_end:
  assumes "\<not> sublist pat s" "pat \<noteq> []" "hd pat \<notin> set (tl pat)"
  shows "removeFirst pat (s @ pat) = s"
  using assms(1)
proof (induction s)
  case Nil
  then show ?case using assms(2) by (cases pat) auto
next
  case (Cons c s)
  have "\<not> prefix pat (c # s @ pat)"
  proof
    assume p: "prefix pat (c # s @ pat)"
    show False
    proof (cases "length pat \<le> length (c # s)")
      case True
      then have "prefix pat (c # s)" using p prefix_length_prefix[of pat "(c # s) @ pat" "c # s"] by auto
      then show False using Cons.prems prefix_imp_sublist by blast
    next
      case False
      then have lt: "length (c # s) < length pat" by simp
      obtain zs where "(c # s) @ pat = pat @ zs" using p by (auto simp: prefix_def)
      then have "((c # s) @ pat) ! length (c # s) = (pat @ zs) ! length (c # s)" by simp
      then have "hd pat = pat ! length (c # s)"
        using lt assms(2) by (simp only: nth_append) (simp add: hd_conv_nth)
      moreover have "pat ! length (c # s) \<in> set (tl pat)"
        using lt by (cases pat) auto
      ultimately show False using assms(3) by simp
    qed
  qed
  moreover have "\<not> sublist pat s" using Cons.prems by (meson sublist_Cons_right)
  ultimately show ?case using Cons.IH by simp
qed

text \<open>A photo survives being stored: a Blob read back as a data URL and decoded again has the same
  type and the same bytes, whatever the bytes are.\<close>

theorem blob_roundtrip:
  assumes "blob_type b \<noteq> []" "map ascii_lower (blob_type b) = blob_type b"
    and "CHR '','' \<notin> set (blob_type b)" "\<not> sublist BASE64_MARKER (blob_type b)"
  shows "dataUrlToBlob (blobToDataUrl b) = Inr b"
proof -
  let ?head = "''data:'' @ blob_type b @ BASE64_MARKER"
  have url: "blobToDataUrl b = ?head @ CHR '','' # b64_groups (blob_bytes b)"
    by (simp add: blobToDataUrl_def BASE64_MARKER_def assms(1))
  define n where "n = length ?head"
  have sep: "indexOfChar (CHR '','') (blobToDataUrl b) = Some n"
    unfolding url n_def using assms(3) by (intro indexOfChar_append) (simp add: BASE64_MARKER_def)
  have header: "drop 5 (take n (blobToDataUrl b)) = blob_type b @ BASE64_MARKER"
    unfolding url n_def by simp
  have payload: "drop (Suc n) (blobToDataUrl b) = b64_groups (blob_bytes b)"
    unfolding url n_def by simp
  have pre: "prefix ''data:'' (blobToDataUrl b)" unfolding url by simp
  have rm: "removeFirst BASE64_MARKER (blob_type b @ BASE64_MARKER) = blob_type b"
    using assms(4) by (intro removeFirst_at_end) (simp_all add: BASE64_MARKER_def)
  have suf: "suffix BASE64_MARKER (blob_type b @ BASE64_MARKER)" by (simp add: suffix_def)
  have "dataUrlToBlob (blobToDataUrl b) = decodeBody (blob_type b @ BASE64_MARKER) (b64_groups (blob_bytes b))"
    using pre by (simp only: dataUrlToBlob_def sep option.case header payload not_True_eq_False if_False simp_thms)
  also have "\<dots> = Inr b"
    using assms(1,2) suf by (simp add: decodeBody_def rm atob_encode)
  finally show ?thesis .
qed

theorem blob_roundtrip_witness:
  "let b = \<lparr>blob_type = ''image/jpeg'', blob_bytes = [CHR 0xFF, CHR 0xD8, CHR 0x00, CHR 0x2C]\<rparr>
   in dataUrlToBlob (blobToDataUrl b) = Inr b"
proof -
  let ?b = "\<lparr>blob_type = ''image/jpeg'', blob_bytes = [CHR 0xFF, CHR 0xD8, CHR 0x00, CHR 0x2C]\<rparr>"
  have 1: "blob_type ?b \<noteq> []" by simp
  have 2: "map ascii_lower (blob_type ?b) = blob_type ?b" by code_simp
  have 3: "CHR '','' \<notin> set (blob_type ?b)" by simp
  have 4: "\<not> sublist BASE64_MARKER (blob_type ?b)" by code_simp
  show ?thesis unfolding Let_def by (rule blob_roundtrip[OF 1 2 3 4])
qed

end
