(* ===== verification/ExceptionStore.thy ===== *)
theory ExceptionStore
  imports KeyedStore Captures QueueStorage DataUrl
begin

text \<open>
  The durable store of incident reports (\<open>lib/offline/exception-store.ts\<close>): one record per
  report draft, with its ordered photos and the artifact id of each photo that has already been
  uploaded. Every operation is one transaction on the object store; how a transaction can fail,
  and what other tabs do around it, is modelled where the operations are called.
\<close>

section \<open>Data\<close>

record exception_photo =
  photo_id :: string
  photo_blob :: "blob option"
  photo_capturedAt :: iso
  photo_uploadedArtifactId :: "string option"

record exception_envelope =
  env_clientReportId :: string
  env_tripId :: string
  env_body :: raise_exception_body
  env_photos :: "exception_photo list"
  env_status :: queue_item_status
  env_attentionReason :: "string option"
  env_attentionPhotoId :: "string option"
  env_actorId :: "string field"
  env_attention :: "retained_attention field"
  env_createdAt :: iso
  env_updatedAt :: iso

datatype exception_store_failure = Unavailable | Quota | OtherFailure

record exception_store_error =
  failure :: exception_store_failure
  failure_message :: string

type_synonym exception_db = "exception_envelope list"

text \<open>
  \<open>classify\<close>: an error that is already classified passes through; otherwise its \<open>DOMException\<close>
  name (empty for any other error) tells a full disk from the rest.
\<close>

datatype raw_store_error =
  Classified exception_store_error
| DomError (dom_name: string) (dom_message: string)
| PlainError string
| NotAnError

definition classify :: "raw_store_error \<Rightarrow> string \<Rightarrow> exception_store_error" where
  "classify error fallback = (case error of
       Classified e \<Rightarrow> e
     | _ \<Rightarrow>
        let name = (case error of DomError n _ \<Rightarrow> n | _ \<Rightarrow> []);
            message = (case error of DomError _ m \<Rightarrow> m | PlainError m \<Rightarrow> m | _ \<Rightarrow> fallback)
        in \<lparr>failure = (if name = ''QuotaExceededError'' then Quota else OtherFailure),
            failure_message = (if message = [] then fallback else message)\<rparr>)"

section \<open>Operations\<close>

text \<open>\<open>new Map(existing.map(...))\<close>: of two photos with one id the later entry is kept.\<close>

definition known_upload :: "exception_photo list \<Rightarrow> string \<Rightarrow> string option" where
  "known_upload existing i =
     (case map_of (rev (map (\<lambda>p. (photo_id p, photo_uploadedArtifactId p)) existing)) i of
        None \<Rightarrow> None | Some recorded \<Rightarrow> recorded)"

definition mergePhotos :: "exception_photo list \<Rightarrow> exception_photo list \<Rightarrow> exception_photo list" where
  "mergePhotos existing incoming = map (\<lambda>p.
     (case (photo_uploadedArtifactId p, known_upload existing (photo_id p)) of
        (None, Some recorded) \<Rightarrow>
          if recorded = [] then p else p\<lparr>photo_uploadedArtifactId := Some recorded\<rparr>
      | _ \<Rightarrow> p)) incoming"

definition getExceptionEnvelope :: "string \<Rightarrow> exception_db \<Rightarrow> exception_envelope option" where
  "getExceptionEnvelope clientReportId db = db_get env_clientReportId clientReportId db"

definition saveExceptionEnvelope :: "exception_envelope \<Rightarrow> exception_db \<Rightarrow> exception_db" where
  "saveExceptionEnvelope envelope db =
     db_put env_clientReportId
       (case db_get env_clientReportId (env_clientReportId envelope) db of
          Some existing \<Rightarrow> envelope\<lparr>env_createdAt := env_createdAt existing,
                                    env_photos := mergePhotos (env_photos existing) (env_photos envelope)\<rparr>
        | None \<Rightarrow> envelope) db"

definition listExceptionEnvelopes :: "exception_db \<Rightarrow> exception_envelope list" where
  "listExceptionEnvelopes db = sort_key env_createdAt db"

definition update :: "iso \<Rightarrow> string \<Rightarrow> (exception_envelope \<Rightarrow> exception_envelope option)
    \<Rightarrow> exception_db \<Rightarrow> exception_db" where
  "update now clientReportId change db =
     db_update env_clientReportId clientReportId
       (\<lambda>current. map_option (\<lambda>e. e\<lparr>env_updatedAt := now\<rparr>) (change current)) db"

definition recordPhotoUploaded :: "iso \<Rightarrow> string \<Rightarrow> string \<Rightarrow> string \<Rightarrow> exception_db \<Rightarrow> exception_db" where
  "recordPhotoUploaded now clientReportId photoId artifactId =
     update now clientReportId (\<lambda>current.
       if \<not> (\<exists>p\<in>set (env_photos current). photo_id p = photoId) then None
       else Some (current\<lparr>env_photos := map (\<lambda>p. if photo_id p = photoId
                    then p\<lparr>photo_uploadedArtifactId := Some artifactId\<rparr> else p) (env_photos current)\<rparr>))"

definition markExceptionNeedsAttention :: "iso \<Rightarrow> string \<Rightarrow> string \<Rightarrow> string option
    \<Rightarrow> retained_attention option \<Rightarrow> exception_db \<Rightarrow> exception_db" where
  "markExceptionNeedsAttention now clientReportId reason photoId attn =
     update now clientReportId (\<lambda>current. Some (current\<lparr>
        env_status := Needs_attention, env_attentionReason := Some reason,
        env_attentionPhotoId := photoId, env_attention := nullable attn\<rparr>))"

definition unattributed :: "exception_envelope \<Rightarrow> bool" where
  "unattributed envelope \<longleftrightarrow> \<not> (env_actorId envelope \<noteq> Undef \<or> env_status envelope = Quarantined)"

definition quarantined_copy :: "iso \<Rightarrow> exception_envelope \<Rightarrow> exception_envelope" where
  "quarantined_copy now envelope =
     envelope\<lparr>env_status := Quarantined, env_actorId := Null, env_updatedAt := now\<rparr>"

text \<open>One transaction over a snapshot of the store: a \<open>put\<close> per unattributed record, and their number.\<close>

definition quarantineUnattributedEnvelopes :: "iso \<Rightarrow> exception_db \<Rightarrow> nat \<times> exception_db" where
  "quarantineUnattributedEnvelopes now db =
     fold (\<lambda>envelope (count, d). if unattributed envelope
             then (count + 1, db_put env_clientReportId (quarantined_copy now envelope) d)
             else (count, d)) db (0, db)"

definition resetExceptionToPending :: "iso \<Rightarrow> string \<Rightarrow> exception_db \<Rightarrow> exception_db" where
  "resetExceptionToPending now clientReportId =
     update now clientReportId (\<lambda>current. if env_status current = Quarantined then None
       else Some (current\<lparr>env_status := Pending, env_attentionReason := None,
                          env_attentionPhotoId := None, env_attention := Null\<rparr>))"

definition removeExceptionEnvelope :: "string \<Rightarrow> exception_db \<Rightarrow> exception_db" where
  "removeExceptionEnvelope clientReportId db = db_delete env_clientReportId clientReportId db"

abbreviation store_ok :: "exception_db \<Rightarrow> bool" where
  "store_ok \<equiv> db_inv env_clientReportId"

lemmas store_ops = saveExceptionEnvelope_def update_def recordPhotoUploaded_def
  markExceptionNeedsAttention_def resetExceptionToPending_def removeExceptionEnvelope_def

section \<open>One record at a time\<close>

lemma save_ok [simp]: "store_ok db \<Longrightarrow> store_ok (saveExceptionEnvelope e db)"
  by (simp add: saveExceptionEnvelope_def db.inv_put)

lemma update_ok [simp]: "store_ok db \<Longrightarrow> store_ok (update now i change db)"
  by (simp add: update_def db.inv_update)

lemma remove_ok [simp]: "store_ok db \<Longrightarrow> store_ok (removeExceptionEnvelope i db)"
  by (simp add: removeExceptionEnvelope_def db.inv_del)

lemma updates_ok [simp]:
  assumes "store_ok db"
  shows "store_ok (markExceptionNeedsAttention now i reason p attn db)" "store_ok (recordPhotoUploaded now i q a db)"
    "store_ok (resetExceptionToPending now i db)"
  by (simp_all add: assms markExceptionNeedsAttention_def recordPhotoUploaded_def resetExceptionToPending_def)

text \<open>What a save stores: the caller's copy, with the creation time and uploads already on record.\<close>

definition saved :: "exception_envelope option \<Rightarrow> exception_envelope \<Rightarrow> exception_envelope" where
  "saved before envelope = (case before of
       None \<Rightarrow> envelope
     | Some existing \<Rightarrow> envelope\<lparr>env_createdAt := env_createdAt existing,
                                 env_photos := mergePhotos (env_photos existing) (env_photos envelope)\<rparr>)"

lemma saved_key [simp]: "env_clientReportId (saved b e) = env_clientReportId e"
  by (simp add: saved_def split: option.split)

lemma save_saved: "saveExceptionEnvelope e db =
    db_put env_clientReportId (saved (getExceptionEnvelope (env_clientReportId e) db) e) db"
  by (simp add: saveExceptionEnvelope_def saved_def getExceptionEnvelope_def split: option.split)

lemma get_save:
  "store_ok db \<Longrightarrow> getExceptionEnvelope i (saveExceptionEnvelope e db) =
     (if i = env_clientReportId e then Some (saved (getExceptionEnvelope i db) e) else getExceptionEnvelope i db)"
  by (simp add: save_saved db.get_put getExceptionEnvelope_def)

lemma get_changed:
  assumes "store_ok db" "\<And>x y. change x = Some y \<Longrightarrow> env_clientReportId y = env_clientReportId x"
  shows "getExceptionEnvelope j (update now i change db) =
    (if j = i then (case getExceptionEnvelope i db of None \<Rightarrow> None
        | Some x \<Rightarrow> (case change x of None \<Rightarrow> Some x | Some y \<Rightarrow> Some (y\<lparr>env_updatedAt := now\<rparr>)))
     else getExceptionEnvelope j db)"
  using assms unfolding update_def getExceptionEnvelope_def
  by (subst db.get_update) (auto split: option.split)

text \<open>The three updates, as functions on the one record they touch.\<close>

definition touch :: "(exception_envelope \<Rightarrow> exception_envelope option) \<Rightarrow> iso \<Rightarrow> exception_envelope \<Rightarrow> exception_envelope" where
  "touch change now e = (case change e of None \<Rightarrow> e | Some e' \<Rightarrow> e'\<lparr>env_updatedAt := now\<rparr>)"

lemma get_update_touch:
  assumes "store_ok db" "\<And>x y. change x = Some y \<Longrightarrow> env_clientReportId y = env_clientReportId x"
  shows "getExceptionEnvelope j (update now i change db) =
    (if j = i then map_option (touch change now) (getExceptionEnvelope i db) else getExceptionEnvelope j db)"
  by (subst get_changed[OF assms]) (auto simp: touch_def split: option.splits)

definition set_upload :: "string \<Rightarrow> string \<Rightarrow> exception_photo \<Rightarrow> exception_photo" where
  "set_upload photoId artifactId p = (if photo_id p = photoId then p\<lparr>photo_uploadedArtifactId := Some artifactId\<rparr> else p)"

lemma set_upload_simps [simp]:
  "photo_id (set_upload i a p) = photo_id p"
  "photo_id p = i \<Longrightarrow> photo_uploadedArtifactId (set_upload i a p) = Some a"
  "photo_id p \<noteq> i \<Longrightarrow> set_upload i a p = p"
  by (simp_all add: set_upload_def)

definition with_upload :: "string \<Rightarrow> string \<Rightarrow> iso \<Rightarrow> exception_envelope \<Rightarrow> exception_envelope" where
  "with_upload photoId artifactId now e = (if photoId \<notin> photo_id ` set (env_photos e) then e
     else e\<lparr>env_photos := map (set_upload photoId artifactId) (env_photos e), env_updatedAt := now\<rparr>)"

definition with_attention :: "string \<Rightarrow> string option \<Rightarrow> retained_attention option \<Rightarrow> iso
    \<Rightarrow> exception_envelope \<Rightarrow> exception_envelope" where
  "with_attention reason photoId attn now e = e\<lparr>env_status := Needs_attention, env_attentionReason := Some reason,
     env_attentionPhotoId := photoId, env_attention := nullable attn, env_updatedAt := now\<rparr>"

definition released :: "iso \<Rightarrow> exception_envelope \<Rightarrow> exception_envelope" where
  "released now e = (if env_status e = Quarantined then e else e\<lparr>env_status := Pending,
     env_attentionReason := None, env_attentionPhotoId := None, env_attention := Null, env_updatedAt := now\<rparr>)"

definition quarantine_step :: "iso \<Rightarrow> exception_envelope \<Rightarrow> exception_envelope" where
  "quarantine_step now e = (if unattributed e then quarantined_copy now e else e)"

lemma changed_createdAt [simp]:
  "env_createdAt (with_upload p a now e) = env_createdAt e"
  "env_createdAt (with_attention reason q attn now e) = env_createdAt e"
  "env_createdAt (released now e) = env_createdAt e"
  "env_createdAt (quarantine_step now e) = env_createdAt e"
  by (simp_all add: with_upload_def with_attention_def released_def quarantine_step_def quarantined_copy_def)

lemma changed_photos [simp]:
  "env_photos (with_attention reason q attn now e) = env_photos e"
  "env_photos (released now e) = env_photos e"
  "env_photos (quarantine_step now e) = env_photos e"
  by (simp_all add: with_attention_def released_def quarantine_step_def quarantined_copy_def)

lemma get_upload: "store_ok db \<Longrightarrow> getExceptionEnvelope j (recordPhotoUploaded now i p a db) =
    (if j = i then map_option (with_upload p a now) (getExceptionEnvelope i db) else getExceptionEnvelope j db)"
  unfolding recordPhotoUploaded_def
  by (subst get_update_touch) (auto simp: touch_def with_upload_def image_iff set_upload_def[abs_def]
      intro!: option.map_cong split: if_splits)

lemma get_mark: "store_ok db \<Longrightarrow> getExceptionEnvelope j (markExceptionNeedsAttention now i reason p attn db) =
    (if j = i then map_option (with_attention reason p attn now) (getExceptionEnvelope i db)
     else getExceptionEnvelope j db)"
  unfolding markExceptionNeedsAttention_def
  by (subst get_update_touch) (auto simp: touch_def with_attention_def intro!: option.map_cong)

lemma get_reset: "store_ok db \<Longrightarrow> getExceptionEnvelope j (resetExceptionToPending now i db) =
    (if j = i then map_option (released now) (getExceptionEnvelope i db) else getExceptionEnvelope j db)"
  unfolding resetExceptionToPending_def
  by (subst get_update_touch) (auto simp: touch_def released_def intro!: option.map_cong split: if_splits)

lemma get_remove: "store_ok db \<Longrightarrow>
    getExceptionEnvelope j (removeExceptionEnvelope i db) = (if j = i then None else getExceptionEnvelope j db)"
  by (simp add: removeExceptionEnvelope_def getExceptionEnvelope_def db.get_del)

lemma get_key: "getExceptionEnvelope i db = Some e \<Longrightarrow> env_clientReportId e = i"
  by (simp add: getExceptionEnvelope_def db.get_key)

lemma in_store: "store_ok db \<Longrightarrow> e \<in> set db \<longleftrightarrow> getExceptionEnvelope (env_clientReportId e) db = Some e"
  by (simp add: getExceptionEnvelope_def db.all_get)

lemma listed [simp]: "set (listExceptionEnvelopes db) = set db"
  by (simp add: listExceptionEnvelopes_def)

section \<open>The migration\<close>

lemma quarantined_copy_key [simp]: "env_clientReportId (quarantined_copy now e) = env_clientReportId e"
  by (simp add: quarantined_copy_def)

lemma quarantine_step_key [simp]: "env_clientReportId (quarantine_step now e) = env_clientReportId e"
  by (simp add: quarantine_step_def)

lemma quarantine_fold:
  assumes "store_ok d" "distinct (map env_clientReportId xs)" "set xs \<subseteq> set d"
  shows "fold (\<lambda>envelope (count, d). if unattributed envelope
             then (count + 1, db_put env_clientReportId (quarantined_copy now envelope) d)
             else (count, d)) xs (c, d) =
    (c + length (filter unattributed xs),
     map (\<lambda>e. if e \<in> set xs then quarantine_step now e else e) d)"
  using assms
proof (induction xs arbitrary: c d)
  case (Cons x xs)
  let ?d = "map (\<lambda>e. if e = x then quarantine_step now e else e) d"
  have same: "e = x" if "e \<in> set d" "env_clientReportId e = env_clientReportId x" for e
    using that Cons.prems by (metis in_store list.set_intros(1) option.inject subsetD)
  have put: "db_put env_clientReportId (quarantined_copy now x) d = ?d" if "unattributed x"
    using Cons.prems same that
    by (subst db_put_present) (auto simp: quarantine_step_def intro!: map_cong)
  have noop: "?d = d" if "\<not> unattributed x" using that by (auto simp: quarantine_step_def intro: map_idI)
  have keys: "map env_clientReportId ?d = map env_clientReportId d" by auto
  have ok: "store_ok ?d" using Cons.prems(1) by (simp only: db_inv_def keys)
  have other: "x \<notin> set xs" "set xs \<subseteq> set ?d" using Cons.prems by (auto simp: image_iff)
  have fresh: "quarantine_step now x \<notin> set xs" 
    using Cons.prems(2) by (metis distinct.simps(2) image_eqI list.set_map list.simps(9) quarantine_step_key)
  have twice: "map (\<lambda>e. if e \<in> set xs then quarantine_step now e else e) ?d =
      map (\<lambda>e. if e \<in> set (x # xs) then quarantine_step now e else e) d"
    using other(1) fresh by auto
  show ?case
    using Cons.IH[OF ok _ other(2)] Cons.prems(2) put noop twice by (cases "unattributed x") auto
qed auto

lemma quarantine_eq:
  "store_ok db \<Longrightarrow> quarantineUnattributedEnvelopes now db =
     (length (filter unattributed db), map (quarantine_step now) db)"
  unfolding quarantineUnattributedEnvelopes_def
  by (subst quarantine_fold) (auto simp: db_inv_distinct)

lemma quarantine_ok [simp]: "store_ok db \<Longrightarrow> store_ok (snd (quarantineUnattributedEnvelopes now db))"
  by (simp add: quarantine_eq db_inv_def comp_def)

lemma find_map_key:
  "(\<And>x. key (f x) = key x) \<Longrightarrow> List.find (\<lambda>x. key x = k) (map f xs) = map_option f (List.find (\<lambda>x. key x = k) xs)"
  by (induction xs) auto

lemma get_quarantine: "store_ok db \<Longrightarrow>
    getExceptionEnvelope i (snd (quarantineUnattributedEnvelopes now db)) =
    map_option (quarantine_step now) (getExceptionEnvelope i db)"
  by (simp add: quarantine_eq getExceptionEnvelope_def db_get_def find_map_key)

lemma quarantine_step_attributed [simp]: "\<not> unattributed (quarantine_step now e)"
  by (simp add: quarantine_step_def quarantined_copy_def unattributed_def)

section \<open>Sequences of operations\<close>

text \<open>Everything any caller, in any tab, can do to the store, one transaction at a time.\<close>

datatype store_op =
  Save_report exception_envelope
| Record_upload iso string string string
| Mark_attention iso string string "string option" "retained_attention option"
| Quarantine_all iso
| Reset_report iso string
| Remove_report string

fun store_step :: "store_op \<Rightarrow> exception_db \<Rightarrow> exception_db" where
  "store_step (Save_report e) db = saveExceptionEnvelope e db"
| "store_step (Record_upload now r p a) db = recordPhotoUploaded now r p a db"
| "store_step (Mark_attention now r reason p attn) db = markExceptionNeedsAttention now r reason p attn db"
| "store_step (Quarantine_all now) db = snd (quarantineUnattributedEnvelopes now db)"
| "store_step (Reset_report now r) db = resetExceptionToPending now r db"
| "store_step (Remove_report r) db = removeExceptionEnvelope r db"

definition store_run :: "store_op list \<Rightarrow> exception_db \<Rightarrow> exception_db" where
  "store_run ops db = fold store_step ops db"

lemma store_step_ok [simp]: "store_ok db \<Longrightarrow> store_ok (store_step op db)"
  by (cases op) (simp_all add: recordPhotoUploaded_def markExceptionNeedsAttention_def resetExceptionToPending_def)

lemma store_run_ok: "store_ok db \<Longrightarrow> store_ok (store_run ops db)"
  unfolding store_run_def by (induction ops arbitrary: db) auto

text \<open>A report that is not removed stays, and its creation time never changes.\<close>

lemma step_keeps:
  assumes "store_ok db" "getExceptionEnvelope r db = Some e" "op \<noteq> Remove_report r"
  shows "\<exists>e'. getExceptionEnvelope r (store_step op db) = Some e' \<and> env_createdAt e' = env_createdAt e"
  using assms
  by (cases op) (auto simp: get_save saved_def get_upload get_mark get_reset get_quarantine get_remove)

text \<open>Whatever sequence of saves, uploads, refusals, migrations and retries runs over
  the store, a report that nobody removes is still there, with the creation time it was first saved
  with (so its place in the sending order never moves).\<close>

theorem report_never_lost:
  assumes "store_ok db" "getExceptionEnvelope r db = Some e" "Remove_report r \<notin> set ops"
  shows "\<exists>e'. getExceptionEnvelope r (store_run ops db) = Some e' \<and> env_createdAt e' = env_createdAt e"
  using assms
proof (induction ops arbitrary: db e)
  case Nil
  then show ?case by (simp add: store_run_def)
next
  case (Cons op ops)
  then obtain e' where e': "getExceptionEnvelope r (store_step op db) = Some e'" "env_createdAt e' = env_createdAt e"
    using step_keeps[of db r e op] by auto
  then show ?case
    using Cons.IH[of "store_step op db" e'] Cons.prems by (simp add: store_run_def)
qed

definition demo_body :: raise_exception_body where
  "demo_body = \<lparr>reb_exception_type = ''delay'', reb_description = ''road closed'', reb_supporting_artifact_id = None,
     reb_supporting_artifact_ids = None, reb_phase_event_id = None, reb_gps_lat = None, reb_gps_lng = None,
     reb_driver_captured_at = None, reb_driver_accuracy_metres = None, reb_client_report_id = None,
     reb_vehicle_type = None, reb_trailer_id = None, reb_custody_sequence = None\<rparr>"

definition demo_photo :: "string option \<Rightarrow> exception_photo" where
  "demo_photo a = \<lparr>photo_id = ''p'', photo_blob = None, photo_capturedAt = ''t0'', photo_uploadedArtifactId = a\<rparr>"

definition demo_report :: "string \<Rightarrow> string field \<Rightarrow> string option \<Rightarrow> exception_envelope" where
  "demo_report r actor a = \<lparr>env_clientReportId = r, env_tripId = ''trip'', env_body = demo_body,
     env_photos = [demo_photo a], env_status = Pending, env_attentionReason = None, env_attentionPhotoId = None,
     env_actorId = actor, env_attention = Null, env_createdAt = ''t0'', env_updatedAt = ''t0''\<rparr>"

lemmas demo_defs = demo_report_def demo_photo_def demo_body_def

lemma report_never_lost_witness:
  "\<exists>e'. getExceptionEnvelope ''r'' (store_run [Save_report ((demo_report ''r'' (Val ''a'') None)\<lparr>env_createdAt := ''t9''\<rparr>),
       Remove_report ''s'', Reset_report ''t1'' ''r''] [demo_report ''r'' (Val ''a'') None]) = Some e'
     \<and> env_createdAt e' = ''t0''"
  using report_never_lost[where db = "[demo_report ''r'' (Val ''a'') None]" and r = "''r''"
      and e = "demo_report ''r'' (Val ''a'') None"
      and ops = "[Save_report ((demo_report ''r'' (Val ''a'') None)\<lparr>env_createdAt := ''t9''\<rparr>),
       Remove_report ''s'', Reset_report ''t1'' ''r'']"]
  by (simp add: demo_report_def db_inv_def getExceptionEnvelope_def db_get_def)

text \<open>An upload on record survives.\<close>

definition uploaded :: "string \<Rightarrow> exception_envelope \<Rightarrow> bool" where
  "uploaded p e \<longleftrightarrow> p \<in> photo_id ` set (env_photos e) \<and>
     (\<forall>q\<in>set (env_photos e). photo_id q = p \<longrightarrow> (\<exists>a. photo_uploadedArtifactId q = Some a \<and> a \<noteq> []))"

text \<open>Steps that keep the photo in the report and record only real artifact ids.\<close>

fun keeps_photo :: "string \<Rightarrow> string \<Rightarrow> store_op \<Rightarrow> bool" where
  "keeps_photo r p (Save_report e) = (env_clientReportId e = r \<longrightarrow> p \<in> photo_id ` set (env_photos e) \<and>
     (\<forall>q\<in>set (env_photos e). photo_uploadedArtifactId q \<noteq> Some []))"
| "keeps_photo r p (Record_upload now i q a) = (a \<noteq> [])"
| "keeps_photo r p (Remove_report i) = (i \<noteq> r)"
| "keeps_photo r p _ = True"

lemma known_upload_uploaded:
  assumes "uploaded p e"
  shows "\<exists>a. known_upload (env_photos e) p = Some a \<and> a \<noteq> []"
proof -
  let ?xs = "rev (map (\<lambda>q. (photo_id q, photo_uploadedArtifactId q)) (env_photos e))"
  have "p \<in> fst ` set ?xs" using assms by (auto simp: uploaded_def image_iff)
  then obtain v where v: "map_of ?xs p = Some v"
    by (metis map_of_eq_None_iff not_None_eq)
  then have "(p, v) \<in> set ?xs" by (rule map_of_SomeD)
  then show ?thesis using assms v by (auto simp: uploaded_def known_upload_def)
qed

lemma mergePhotos_uploaded:
  assumes "uploaded p e" "p \<in> photo_id ` set (env_photos e')"
    "\<forall>q\<in>set (env_photos e'). photo_uploadedArtifactId q \<noteq> Some []"
  shows "uploaded p (saved (Some e) e')"
proof -
  obtain a where a: "known_upload (env_photos e) p = Some a" "a \<noteq> []"
    using known_upload_uploaded[OF assms(1)] by blast
  then show ?thesis
    using assms(2,3) unfolding uploaded_def saved_def mergePhotos_def
    by (auto simp: image_iff split: option.split)
qed

lemma with_upload_ids [simp]: "map photo_id (env_photos (with_upload p a now e)) = map photo_id (env_photos e)"
  by (auto simp: with_upload_def)

lemma with_upload_id_set [simp]:
  "photo_id ` set (env_photos (with_upload p a now e)) = photo_id ` set (env_photos e)"
  by (metis list.set_map with_upload_ids)

lemma with_upload_photo:
  "q \<in> set (env_photos (with_upload p a now e)) \<Longrightarrow> photo_id q = p \<Longrightarrow> photo_uploadedArtifactId q = Some a"
  by (cases "p \<in> photo_id ` set (env_photos e)") (auto simp: with_upload_def)

lemma with_upload_other:
  "q \<in> set (env_photos (with_upload p a now e)) \<Longrightarrow> photo_id q \<noteq> p \<Longrightarrow> q \<in> set (env_photos e)"
  by (cases "p \<in> photo_id ` set (env_photos e)") (auto simp: with_upload_def)

lemma uploaded_with_upload:
  assumes "uploaded p e" "a \<noteq> []"
  shows "uploaded p (with_upload q a now e)"
  unfolding uploaded_def
proof (intro conjI ballI impI)
  show "p \<in> photo_id ` set (env_photos (with_upload q a now e))" using assms(1) by (simp add: uploaded_def)
next
  fix x assume x: "x \<in> set (env_photos (with_upload q a now e))" "photo_id x = p"
  show "\<exists>a. photo_uploadedArtifactId x = Some a \<and> a \<noteq> []"
    using assms x with_upload_photo[OF x(1)] with_upload_other[OF x(1)]
    by (cases "p = q") (auto simp: uploaded_def)
qed

lemma with_upload_uploaded: "p \<in> photo_id ` set (env_photos e) \<Longrightarrow> a \<noteq> [] \<Longrightarrow> uploaded p (with_upload p a now e)"
  unfolding uploaded_def by (auto dest: with_upload_photo simp del: image_iff)

lemma step_uploaded:
  assumes "store_ok db" "getExceptionEnvelope r db = Some e" "uploaded p e" "keeps_photo r p op"
  shows "\<exists>e'. getExceptionEnvelope r (store_step op db) = Some e' \<and> uploaded p e'"
proof (cases op)
  case (Save_report e')
  then show ?thesis
    using assms by (auto simp: get_save intro!: mergePhotos_uploaded)
next
  case (Record_upload now i q a)
  then show ?thesis using assms uploaded_with_upload by (auto simp: get_upload)
qed (use assms in \<open>auto simp: get_mark get_reset get_quarantine get_remove uploaded_def\<close>)

text \<open>Once the artifact id of a photo is recorded, no later operation that keeps that
  photo in the report forgets it, not even a save of a stale in-memory copy that never heard of the
  upload: a photo is uploaded once.\<close>

theorem upload_never_forgotten:
  assumes "store_ok db" "getExceptionEnvelope r db = Some e" "p \<in> photo_id ` set (env_photos e)" "a \<noteq> []"
    "\<forall>op\<in>set ops. keeps_photo r p op"
  shows "\<exists>e'. getExceptionEnvelope r (store_run (Record_upload now r p a # ops) db) = Some e' \<and>
      p \<in> photo_id ` set (env_photos e') \<and>
      (\<forall>q\<in>set (env_photos e'). photo_id q = p \<longrightarrow> photo_uploadedArtifactId q \<notin> {None, Some []})"
proof -
  let ?db = "recordPhotoUploaded now r p a db"
  have start: "\<exists>e'. getExceptionEnvelope r ?db = Some e' \<and> uploaded p e'"
    using assms(1-4) by (auto simp: get_upload intro: with_upload_uploaded)
  have "\<exists>e'. getExceptionEnvelope r (store_run ops d) = Some e' \<and> uploaded p e'"
    if "store_ok d" "\<exists>e'. getExceptionEnvelope r d = Some e' \<and> uploaded p e'" for d
    using that assms(5)
  proof (induction ops arbitrary: d)
    case (Cons op ops)
    then show ?case using step_uploaded[of d r _ p op] by (fastforce simp: store_run_def)
  qed (simp add: store_run_def)
  moreover have "store_ok ?db" using assms(1) by (simp add: recordPhotoUploaded_def)
  ultimately obtain e' where e': "getExceptionEnvelope r (store_run ops ?db) = Some e'" "uploaded p e'"
    using start by blast
  then show ?thesis by (intro exI[of _ e']) (auto simp: store_run_def uploaded_def)
qed

lemma upload_never_forgotten_witness:
  "\<exists>e'. getExceptionEnvelope ''r'' (store_run [Record_upload ''t1'' ''r'' ''p'' ''art'',
        Save_report (demo_report ''r'' (Val ''a'') None)] [demo_report ''r'' (Val ''a'') None]) = Some e' \<and>
      ''p'' \<in> photo_id ` set (env_photos e') \<and>
      (\<forall>q\<in>set (env_photos e'). photo_id q = ''p'' \<longrightarrow> photo_uploadedArtifactId q \<notin> {None, Some []})"
  by (rule upload_never_forgotten[where e = "demo_report ''r'' (Val ''a'') None"])
    (simp_all add: demo_defs db_inv_def getExceptionEnvelope_def db_get_def)

text \<open>The migration quarantines exactly the reports that never recorded who captured
  them, reports their number, leaves every other report and every photo as it was, and has nothing
  left to do when it runs again; a quarantined report is released by no later retry, refusal or
  upload.\<close>

theorem quarantine_is_final:
  assumes "store_ok db"
  shows "quarantineUnattributedEnvelopes now db = (length (filter unattributed db),
           map (\<lambda>e. if unattributed e then e\<lparr>env_status := Quarantined, env_actorId := Null, env_updatedAt := now\<rparr>
                    else e) db)
    \<and> quarantineUnattributedEnvelopes later (snd (quarantineUnattributedEnvelopes now db)) =
           (0, snd (quarantineUnattributedEnvelopes now db))
    \<and> (\<forall>r e. getExceptionEnvelope r db = Some e \<longrightarrow> env_status e = Quarantined \<longrightarrow>
         resetExceptionToPending later r db = db)"
proof (intro conjI allI impI)
  have eq: "quarantine_step now = (\<lambda>e. if unattributed e
      then e\<lparr>env_status := Quarantined, env_actorId := Null, env_updatedAt := now\<rparr> else e)"
    by (simp add: fun_eq_iff quarantine_step_def quarantined_copy_def)
  show "quarantineUnattributedEnvelopes now db = (length (filter unattributed db),
           map (\<lambda>e. if unattributed e then e\<lparr>env_status := Quarantined, env_actorId := Null, env_updatedAt := now\<rparr>
                    else e) db)"
    using quarantine_eq[OF assms, of now] unfolding eq .
  have "filter unattributed (map (quarantine_step now) db) = []" by (simp add: filter_empty_conv)
  moreover have "map (quarantine_step later) (map (quarantine_step now) db) = map (quarantine_step now) db"
    by (intro map_idI) (auto simp: quarantine_step_def[of later])
  ultimately show "quarantineUnattributedEnvelopes later (snd (quarantineUnattributedEnvelopes now db)) =
           (0, snd (quarantineUnattributedEnvelopes now db))"
    using quarantine_eq[OF quarantine_ok[OF assms, of now], of later] by (simp add: quarantine_eq assms)
next
  fix r e
  assume "getExceptionEnvelope r db = Some e" "env_status e = Quarantined"
  then show "resetExceptionToPending later r db = db"
    by (simp add: resetExceptionToPending_def update_def db_update_def getExceptionEnvelope_def)
qed

lemma quarantine_is_final_witness:
  "quarantineUnattributedEnvelopes ''t'' [demo_report ''r'' Undef None] =
     (1, [(demo_report ''r'' Null None)\<lparr>env_status := Quarantined, env_updatedAt := ''t''\<rparr>])
   \<and> resetExceptionToPending ''t'' ''r'' [(demo_report ''r'' Null None)\<lparr>env_status := Quarantined\<rparr>] =
     [(demo_report ''r'' Null None)\<lparr>env_status := Quarantined\<rparr>]"
  using quarantine_is_final[where db = "[demo_report ''r'' Undef None]" and now = "''t''"]
    quarantine_is_final[where db = "[(demo_report ''r'' Null None)\<lparr>env_status := Quarantined\<rparr>]" and later = "''t''"]
  by (simp add: demo_report_def db_inv_def getExceptionEnvelope_def db_get_def unattributed_def)

text \<open>Listing returns every stored report once, oldest first, so reports are sent in the
  order they happened.\<close>

theorem listing_is_sending_order:
  "mset (listExceptionEnvelopes db) = mset db \<and> sorted (map env_createdAt (listExceptionEnvelopes db))"
  by (simp add: listExceptionEnvelopes_def)

end
