(* ===== verification/ReportLock.thy ===== *)
theory ReportLock
  imports JsPrelude
begin

text \<open>
  The per-report lock of \<open>lib/offline/exception-sync.ts\<close> that page submits, background flushes and
  re-enqueues share: the module's \<open>held\<close> set and \<open>waiters\<close> map, its three operations, and the
  protocol they implement (one holder per report, waiters served in arrival order).

  A caller is a ticket; the callback it leaves in the queue of a report resolves its promise with
  a release function, so being shifted off the queue is being granted the lock.
\<close>

section \<open>The module\<close>

type_synonym ticket = nat

record locks =
  held :: "string set"
  waiters :: "string \<Rightarrow> ticket list"

definition no_locks :: locks where
  "no_locks = \<lparr>held = {}, waiters = (\<lambda>_. [])\<rparr>"

text \<open>\<open>Some t\<close> is the waiter that the lock was handed to.\<close>

definition releaseReportLock :: "string \<Rightarrow> locks \<Rightarrow> ticket option \<times> locks" where
  "releaseReportLock i l = (case waiters l i of
       t # rest \<Rightarrow> (Some t, l\<lparr>waiters := (waiters l)(i := rest)\<rparr>)
     | [] \<Rightarrow> (None, l\<lparr>waiters := (waiters l)(i := []), held := held l - {i}\<rparr>))"

definition tryReportLock :: "string \<Rightarrow> locks \<Rightarrow> bool \<times> locks" where
  "tryReportLock i l = (if i \<in> held l then (False, l) else (True, l\<lparr>held := insert i (held l)\<rparr>))"

text \<open>\<open>True\<close>: the promise is resolved at once; \<open>False\<close>: the caller waits.\<close>

definition waitReportLock :: "string \<Rightarrow> ticket \<Rightarrow> locks \<Rightarrow> bool \<times> locks" where
  "waitReportLock i t l = (let (got, l1) = tryReportLock i l in
     if got then (True, l1) else (False, l1\<lparr>waiters := (waiters l1)(i := waiters l1 i @ [t])\<rparr>))"

lemma try_twice: "tryReportLock i l = (True, l') \<Longrightarrow> tryReportLock i l' = (False, l')"
  by (auto simp: tryReportLock_def split: if_splits)

lemma release_try [simp]: "waiters l i = [] \<Longrightarrow> i \<notin> held l \<Longrightarrow>
    releaseReportLock i (snd (tryReportLock i l)) = (None, l)"
  by (cases l) (auto simp: tryReportLock_def releaseReportLock_def fun_upd_idem)

section \<open>The protocol\<close>

text \<open>
  A run of the module under any number of callers. \<open>holders\<close> records who has a release function
  that is not used yet, \<open>served\<close> the grants made so far to waiters of each report, \<open>arrived\<close> the
  waiters in the order they joined. A caller has one outstanding request and releases what it holds.
\<close>

record lock_world =
  lw_locks :: locks
  lw_holders :: "(string \<times> ticket) set"
  lw_arrived :: "string \<Rightarrow> ticket list"
  lw_served :: "string \<Rightarrow> ticket list"
  lw_next :: ticket

definition start :: lock_world where
  "start = \<lparr>lw_locks = no_locks, lw_holders = {}, lw_arrived = (\<lambda>_. []), lw_served = (\<lambda>_. []), lw_next = 0\<rparr>"

inductive lock_step :: "lock_world \<Rightarrow> lock_world \<Rightarrow> bool" where
  try_ok: "tryReportLock i (lw_locks w) = (True, l) \<Longrightarrow>
     lock_step w (w\<lparr>lw_locks := l, lw_holders := insert (i, lw_next w) (lw_holders w), lw_next := Suc (lw_next w)\<rparr>)"
| try_busy: "tryReportLock i (lw_locks w) = (False, l) \<Longrightarrow> lock_step w (w\<lparr>lw_locks := l\<rparr>)"
| wait_ok: "waitReportLock i (lw_next w) (lw_locks w) = (True, l) \<Longrightarrow>
     lock_step w (w\<lparr>lw_locks := l, lw_holders := insert (i, lw_next w) (lw_holders w), lw_next := Suc (lw_next w)\<rparr>)"
| wait_queued: "waitReportLock i (lw_next w) (lw_locks w) = (False, l) \<Longrightarrow>
     lock_step w (w\<lparr>lw_locks := l, lw_arrived := (lw_arrived w)(i := lw_arrived w i @ [lw_next w]),
                    lw_next := Suc (lw_next w)\<rparr>)"
| release_free: "(i, t) \<in> lw_holders w \<Longrightarrow> releaseReportLock i (lw_locks w) = (None, l) \<Longrightarrow>
     lock_step w (w\<lparr>lw_locks := l, lw_holders := lw_holders w - {(i, t)}\<rparr>)"
| release_hand: "(i, t) \<in> lw_holders w \<Longrightarrow> releaseReportLock i (lw_locks w) = (Some u, l) \<Longrightarrow>
     lock_step w (w\<lparr>lw_locks := l, lw_holders := insert (i, u) (lw_holders w - {(i, t)}),
                    lw_served := (lw_served w)(i := lw_served w i @ [u])\<rparr>)"

inductive lock_reachable :: "lock_world \<Rightarrow> bool" where
  begins: "lock_reachable start"
| steps: "lock_reachable w \<Longrightarrow> lock_step w w' \<Longrightarrow> lock_reachable w'"

inductive_cases lock_stepE: "lock_step w w'"

definition lock_inv :: "lock_world \<Rightarrow> bool" where
  "lock_inv w \<longleftrightarrow>
     (\<forall>i. i \<in> held (lw_locks w) \<longleftrightarrow> (\<exists>t. (i, t) \<in> lw_holders w)) \<and>
     (\<forall>i t u. (i, t) \<in> lw_holders w \<longrightarrow> (i, u) \<in> lw_holders w \<longrightarrow> t = u) \<and>
     (\<forall>i. waiters (lw_locks w) i \<noteq> [] \<longrightarrow> i \<in> held (lw_locks w)) \<and>
     (\<forall>i. lw_arrived w i = lw_served w i @ waiters (lw_locks w) i)"

lemma lock_invD:
  assumes "lock_inv w"
  shows "i \<in> held (lw_locks w) \<longleftrightarrow> (\<exists>t. (i, t) \<in> lw_holders w)"
    and "(i, t) \<in> lw_holders w \<Longrightarrow> (i, u) \<in> lw_holders w \<Longrightarrow> t = u"
    and "waiters (lw_locks w) i \<noteq> [] \<Longrightarrow> i \<in> held (lw_locks w)"
    and "lw_arrived w i = lw_served w i @ waiters (lw_locks w) i"
  using assms unfolding lock_inv_def by blast+

lemma lock_inv_step:
  assumes "lock_step w w'" "lock_inv w"
  shows "lock_inv w'"
  using assms(1)
proof cases
  case (try_ok i l)
  then show ?thesis using lock_invD[OF assms(2)] unfolding lock_inv_def
    by (auto simp: tryReportLock_def split: if_splits)
next
  case (try_busy i l)
  then show ?thesis using assms(2) by (auto simp: tryReportLock_def lock_inv_def split: if_splits)
next
  case (wait_ok i l)
  then show ?thesis using lock_invD[OF assms(2)] unfolding lock_inv_def
    by (auto simp: waitReportLock_def tryReportLock_def split: if_splits)
next
  case (wait_queued i l)
  then have "i \<in> held (lw_locks w)"
    "l = (lw_locks w)\<lparr>waiters := (waiters (lw_locks w))(i := waiters (lw_locks w) i @ [lw_next w])\<rparr>"
    by (auto simp: waitReportLock_def tryReportLock_def split: if_splits)
  then show ?thesis using lock_invD[OF assms(2)] wait_queued(1) unfolding lock_inv_def by simp
next
  case (release_free i t l)
  then have l: "waiters (lw_locks w) i = []" "l = (lw_locks w)\<lparr>waiters := (waiters (lw_locks w))(i := []),
      held := held (lw_locks w) - {i}\<rparr>"
    by (auto simp: releaseReportLock_def split: list.splits)
  show ?thesis
    unfolding lock_inv_def release_free(1) l(2)
    using lock_invD[OF assms(2)] release_free(2) l(1) by auto
next
  case (release_hand i t u l)
  then obtain rest where l: "waiters (lw_locks w) i = u # rest"
    "l = (lw_locks w)\<lparr>waiters := (waiters (lw_locks w))(i := rest)\<rparr>"
    by (auto simp: releaseReportLock_def split: list.splits)
  show ?thesis
    unfolding lock_inv_def release_hand(1) l(2)
    using lock_invD[OF assms(2)] release_hand(2) l(1) by auto
qed

lemma reachable_inv: "lock_reachable w \<Longrightarrow> lock_inv w"
proof (induction rule: lock_reachable.induct)
  case begins
  then show ?case by (simp add: lock_inv_def start_def no_locks_def)
qed (rule lock_inv_step)

text \<open>Property C24. In every run of the lock, by any number of callers, a report has at most one
  holder; it is held exactly when the \<open>held\<close> set says so; whoever waits does so behind a holder, so
  no waiter is stranded; and waiters are served in the order they arrived.\<close>

theorem report_lock_correct:
  assumes "lock_reachable w"
  shows "((i, t) \<in> lw_holders w \<longrightarrow> (i, u) \<in> lw_holders w \<longrightarrow> t = u)
    \<and> (i \<in> held (lw_locks w) \<longleftrightarrow> (\<exists>t. (i, t) \<in> lw_holders w))
    \<and> (waiters (lw_locks w) i \<noteq> [] \<longrightarrow> (\<exists>t. (i, t) \<in> lw_holders w))
    \<and> lw_arrived w i = lw_served w i @ waiters (lw_locks w) i"
  using lock_invD[OF reachable_inv[OF assms]] by metis

definition demo_run :: lock_world where
  "demo_run = \<lparr>lw_locks = \<lparr>held = {''r''}, waiters = (\<lambda>_. [])(''r'' := [1])\<rparr>, lw_holders = {(''r'', 0)},
     lw_arrived = (\<lambda>_. [])(''r'' := [1]), lw_served = (\<lambda>_. []), lw_next = 2\<rparr>"

lemma demo_run_reachable: "lock_reachable demo_run"
proof -
  let ?w = "start\<lparr>lw_locks := \<lparr>held = {''r''}, waiters = (\<lambda>_. [])\<rparr>, lw_holders := {(''r'', 0)}, lw_next := Suc 0\<rparr>"
  have "lock_step start ?w"
    using lock_step.try_ok[where i = "''r''" and w = start and l = "\<lparr>held = {''r''}, waiters = (\<lambda>_. [])\<rparr>"]
    by (simp add: start_def tryReportLock_def no_locks_def)
  moreover have "lock_step ?w demo_run"
    using lock_step.wait_queued[where i = "''r''" and w = ?w
        and l = "\<lparr>held = {''r''}, waiters = (\<lambda>_. [])(''r'' := [1])\<rparr>"]
    by (simp add: start_def demo_run_def waitReportLock_def tryReportLock_def numeral_2_eq_2)
  ultimately show ?thesis by (meson lock_reachable.intros)
qed

lemma report_lock_correct_witness:
  "waiters (lw_locks demo_run) ''r'' \<noteq> [] \<and> (\<exists>t. (''r'', t) \<in> lw_holders demo_run)"
  using report_lock_correct[OF demo_run_reachable, where i = "''r''"] by (simp add: demo_run_def)

text \<open>Releasing a report that somebody waits for never makes it free: it goes to the
  earliest waiter in the same step, so a third caller that tries in between is refused.\<close>

theorem handover_leaves_no_gap:
  assumes "releaseReportLock i l = (Some t, l')" "i \<in> held l"
  shows "tryReportLock i l' = (False, l') \<and> waiters l i = t # waiters l' i"
  using assms by (auto simp: releaseReportLock_def tryReportLock_def split: list.splits)

lemma handover_leaves_no_gap_witness:
  "tryReportLock ''r'' \<lparr>held = {''r''}, waiters = (\<lambda>_. [])\<rparr> = (False, \<lparr>held = {''r''}, waiters = (\<lambda>_. [])\<rparr>)"
  using handover_leaves_no_gap[where i = "''r''" and l = "\<lparr>held = {''r''}, waiters = (\<lambda>_. [])(''r'' := [1])\<rparr>"
      and t = 1 and l' = "\<lparr>held = {''r''}, waiters = (\<lambda>_. [])\<rparr>"]
  by (simp add: releaseReportLock_def fun_upd_idem)

end
