(* ===== verification/Substitution.thy ===== *)
theory Substitution
  imports PhasePlan PhaseRequest KeyedStore
begin

text \<open>
  A driver's own check at a handover of the trip, before anything is sent: the contract's shapes
  (\<open>shared/lib/types/driver-substitution.ts\<close>), the capture as the phone stores it
  (\<open>lib/offline/substitution-store.ts\<close>), the reading of a request (\<open>lib/utils/driver-substitution.ts\<close>), the
  seal format (\<open>lib/utils/seal-format.ts\<close>) and the pure rules of \<open>lib/hooks/useSubstitutionCapture.ts\<close>:
  what has to be checked, what is still missing, and the body that is sent.

  A text the driver reads is a constructor with the values it prints.
\<close>

section \<open>The contract\<close>

datatype request_format = Planned_v1 | Immediate_v2
datatype location_unavailable_reason = Permission_denied | Location_timeout | Position_unavailable | Location_unknown
datatype substitution_state = Sub_pending | Sub_completed | Sub_cancelled
datatype substitution_role = Outgoing | Incoming
datatype substitution_seal_condition = Sub_intact | Sub_damaged | Sub_missing | Sub_not_applicable
datatype substitution_action =
  Confirm_outgoing | Confirm_incoming | Cancel_action | Replace_action | Complete_attested | Attest_identity
datatype completion_blocker = Incoming_driver_inactive | Licence_invalid | Driver_unavailable | Identity_not_verified
datatype vehicle_type = Horse | Trailer

record driver_contact =
  contact_id :: string
  contact_full_name :: string
  contact_phone_number :: string

record vehicle_ref =
  veh_id :: string
  veh_registration :: string
  veh_type :: vehicle_type

record seal_check =
  chk_vehicle_id :: string
  chk_condition :: substitution_seal_condition
  chk_seal_number :: "string option"
  chk_photo_artifact_ids :: "string list"
  chk_not_applicable_reason :: "string option"

record confirmation_summary =
  conf_id :: string
  conf_role :: substitution_role
  conf_driver_id :: string
  conf_captured_at :: iso
  conf_received_at :: iso

text \<open>The fields of a request that the app's own logic reads.\<close>

record substitution_request =
  sr_id :: string
  sr_trip_id :: string
  sr_version :: int
  sr_state :: substitution_state
  sr_outgoing :: driver_contact
  sr_incoming :: driver_contact
  sr_vehicles :: "vehicle_ref list"
  sr_request_format :: "request_format option"
  sr_confirmations :: "confirmation_summary list"
  sr_missing_confirmations :: "substitution_role list"
  sr_completion_blocked_by :: "completion_blocker option"
  sr_replacement_request_id :: "string option"
  sr_permitted_actions :: "substitution_action list"

record substitution_context = substitution_request +
  sr_current_phase :: "phase_type option"

record confirm_substitution =
  cs_client_request_id :: string
  cs_expected_version :: int
  cs_captured_at :: iso
  cs_latitude :: "number option"
  cs_longitude :: "number option"
  cs_accuracy_metres :: "number option"
  cs_confirmed_vehicle_ids :: "string list"
  cs_seal_checks :: "seal_check list"
  cs_discrepancy_note :: "string option"

text \<open>The body of the first version, and the later one with the observation of the position.\<close>

datatype confirmation_body =
  Legacy_body (core: confirm_substitution)
| Observation_body (core: confirm_substitution) (location_observed_at: "iso option")
    (location_unavailable_reason: "location_unavailable_reason option")

section \<open>Reading a request\<close>

definition substitutionRoleFor :: "'z substitution_request_scheme \<Rightarrow> string \<Rightarrow> substitution_role option" where
  "substitutionRoleFor request driverId =
     (if contact_id (sr_incoming request) = driverId then Some Incoming
      else if contact_id (sr_outgoing request) = driverId then Some Outgoing
      else if Confirm_incoming \<in> set (sr_permitted_actions request) then Some Incoming
      else if Confirm_outgoing \<in> set (sr_permitted_actions request) then Some Outgoing
      else None)"

fun counterpartOf :: "'z substitution_request_scheme \<Rightarrow> substitution_role \<Rightarrow> driver_contact" where
  "counterpartOf request Incoming = sr_outgoing request"
| "counterpartOf request Outgoing = sr_incoming request"

definition hasConfirmed :: "'z substitution_request_scheme \<Rightarrow> substitution_role \<Rightarrow> bool" where
  "hasConfirmed request role \<longleftrightarrow> list_ex (\<lambda>c. conf_role c = role) (sr_confirmations request)"

fun other_role :: "substitution_role \<Rightarrow> substitution_role" where
  "other_role Incoming = Outgoing"
| "other_role Outgoing = Incoming"

datatype status_line =
  Handover_complete
| Replaced_by_new
| Handover_cancelled
| Acceptance_saved
| Transfer_authorised
| Waiting_on_dispatch
| Waiting_for_your_check
| Waiting_for string
| Waiting_for_server

definition substitutionStatusLine :: "'z substitution_request_scheme \<Rightarrow> substitution_role \<Rightarrow> status_line" where
  "substitutionStatusLine request role =
     (if sr_state request = Sub_completed then Handover_complete
      else if sr_state request = Sub_cancelled
        then (if sr_replacement_request_id request \<noteq> None then Replaced_by_new else Handover_cancelled)
      else if sr_request_format request = Some Immediate_v2 \<and> role = Outgoing
        then (if hasConfirmed request Incoming then Acceptance_saved else Transfer_authorised)
      else if sr_completion_blocked_by request \<noteq> None then Waiting_on_dispatch
      else if \<not> hasConfirmed request role then Waiting_for_your_check
      else if other_role role \<in> set (sr_missing_confirmations request)
        then Waiting_for (contact_full_name (counterpartOf request role))
      else Waiting_for_server)"

definition ownConfirmation :: "substitution_context \<Rightarrow> string \<Rightarrow> confirmation_summary option" where
  "ownConfirmation context actorId = List.find (\<lambda>c. conf_driver_id c = actorId) (sr_confirmations context)"

section \<open>Seal numbers\<close>

text \<open>Texts are ASCII here; \<open>toUpperCase\<close> maps the letters a to z.\<close>

definition upper :: "char \<Rightarrow> char" where
  "upper c = (if CHR ''a'' \<le> c \<and> c \<le> CHR ''z'' then char_of (of_char c - 32 :: nat) else c)"

definition normalizeSeal :: "string \<Rightarrow> string" where
  "normalizeSeal value = map upper (trim value)"

definition is_capital :: "char \<Rightarrow> bool" where
  "is_capital c \<longleftrightarrow> CHR ''A'' \<le> c \<and> c \<le> CHR ''Z''"

definition is_digit :: "char \<Rightarrow> bool" where
  "is_digit c \<longleftrightarrow> CHR ''0'' \<le> c \<and> c \<le> CHR ''9''"

definition seal_format :: "string \<Rightarrow> bool" where
  "seal_format s \<longleftrightarrow> length s = 7 \<and> list_all is_capital (take 2 s) \<and> s ! 2 = CHR ''-'' \<and> list_all is_digit (drop 3 s)"

definition isValidSealFormat :: "string \<Rightarrow> bool" where
  "isValidSealFormat value = seal_format (normalizeSeal value)"

section \<open>The capture on the phone\<close>

record capture_photo =
  cph_id :: string
  cph_dataUrl :: string
  cph_capturedAt :: iso
  cph_uploadRequestId :: string
  cph_uploadedArtifactId :: "string option"

record capture_seal_check =
  csc_vehicleId :: string
  csc_condition :: "substitution_seal_condition option"
  csc_sealNumber :: string
  csc_notApplicableReason :: string
  csc_photos :: "capture_photo list"

record capture_position =
  cpos_latitude :: number
  cpos_longitude :: number
  cpos_accuracyMetres :: "number option"

datatype capture_status = Cap_draft | Cap_sending | Cap_saved | Cap_retained

datatype capture_format = Observation_v2

text \<open>
  The server's last answer: what its reply to the confirmation parsed to, or the context read
  that showed the confirmation after its reply was lost.
\<close>

datatype capture_answer = Reply "json option" | Context_read substitution_context

record substitution_capture =
  cap_key :: string
  cap_actorId :: string
  cap_tripId :: string
  cap_requestId :: string
  cap_role :: substitution_role
  cap_status :: capture_status
  cap_expectedVersion :: int
  cap_clientRequestId :: string
  cap_submittedBody :: "confirmation_body option"
  cap_captureFormat :: "capture_format field"
  cap_locationObservedAt :: "iso field"
  cap_locationUnavailableReason :: "location_unavailable_reason field"
  cap_confirmedVehicleIds :: "string list"
  cap_sealChecks :: "capture_seal_check list"
  cap_discrepancyNote :: string
  cap_capturedAt :: "iso option"
  cap_position :: "capture_position option"
  cap_result :: "capture_answer option"
  cap_note :: "string option"
  cap_createdAt :: iso
  cap_updatedAt :: iso

definition captureKey :: "string \<Rightarrow> string \<Rightarrow> string" where
  "captureKey actorId requestId = actorId @ '':'' @ requestId"

text \<open>Properties that an older build left out read as \<open>null\<close>.\<close>

definition read_capture :: "substitution_capture \<Rightarrow> substitution_capture" where
  "read_capture c = c\<lparr>cap_captureFormat := nullable (coalesce (cap_captureFormat c)),
     cap_locationObservedAt := nullable (coalesce (cap_locationObservedAt c)),
     cap_locationUnavailableReason := nullable (coalesce (cap_locationUnavailableReason c))\<rparr>"

definition map_photos :: "(capture_photo \<Rightarrow> capture_photo) \<Rightarrow> substitution_capture \<Rightarrow> substitution_capture" where
  "map_photos f c = c\<lparr>cap_sealChecks := map (\<lambda>check. check\<lparr>csc_photos := map f (csc_photos check)\<rparr>) (cap_sealChecks c)\<rparr>"

definition with_artifact :: "string \<Rightarrow> string \<Rightarrow> capture_photo \<Rightarrow> capture_photo" where
  "with_artifact photoId artifactId photo =
     (if cph_id photo = photoId then photo\<lparr>cph_uploadedArtifactId := Some artifactId\<rparr> else photo)"

section \<open>What has to be checked\<close>

definition SUBSTITUTION_TEXT_MAX_LENGTH :: nat where
  "SUBSTITUTION_TEXT_MAX_LENGTH = 1000"

definition sealApplicableVehicles :: "vehicle_ref list \<Rightarrow> vehicle_ref list" where
  "sealApplicableVehicles vehicles = (let trailers = filter (\<lambda>v. veh_type v = Trailer) vehicles in
     if trailers \<noteq> [] then trailers else filter (\<lambda>v. veh_type v = Horse) vehicles)"

datatype seal_expectation = None_yet | Possible | Expected | Unknown_position

definition PHASES_BEFORE_SEAL :: "phase_type list" where
  "PHASES_BEFORE_SEAL = [Trip_creation, Activation, Loading]"

definition SEAL_APPLYING_PHASE :: phase_type where
  "SEAL_APPLYING_PHASE = Departure"

definition sealExpectation :: "substitution_context \<Rightarrow> seal_expectation" where
  "sealExpectation context = (case sr_current_phase context of
       None \<Rightarrow> Unknown_position
     | Some phase \<Rightarrow> if phase \<in> set PHASES_BEFORE_SEAL then None_yet
         else if phase = SEAL_APPLYING_PHASE then Possible else Expected)"

definition NO_SEAL_YET_REASON :: string where
  "NO_SEAL_YET_REASON = ''No seal applied yet: the trip has not departed''"

definition emptySealCheck :: "string \<Rightarrow> capture_seal_check" where
  "emptySealCheck vehicleId = \<lparr>csc_vehicleId = vehicleId, csc_condition = None, csc_sealNumber = [],
     csc_notApplicableReason = [], csc_photos = []\<rparr>"

definition noSealYetCheck :: "string \<Rightarrow> capture_seal_check" where
  "noSealYetCheck vehicleId = (emptySealCheck vehicleId)
     \<lparr>csc_condition := Some Sub_not_applicable, csc_notApplicableReason := NO_SEAL_YET_REASON\<rparr>"

definition newCapture :: "iso \<Rightarrow> string \<Rightarrow> string \<Rightarrow> substitution_context \<Rightarrow> substitution_role \<Rightarrow> substitution_capture" where
  "newCapture now uuid actorId context role =
     \<lparr>cap_key = captureKey actorId (sr_id context), cap_actorId = actorId, cap_tripId = sr_trip_id context,
      cap_requestId = sr_id context, cap_role = role, cap_status = Cap_draft,
      cap_expectedVersion = sr_version context, cap_clientRequestId = uuid, cap_submittedBody = None,
      cap_captureFormat = Val Observation_v2, cap_locationObservedAt = Null, cap_locationUnavailableReason = Null,
      cap_confirmedVehicleIds = [],
      cap_sealChecks = map (\<lambda>vehicle. if sealExpectation context = None_yet
          then noSealYetCheck (veh_id vehicle) else emptySealCheck (veh_id vehicle)) (sealApplicableVehicles (sr_vehicles context)),
      cap_discrepancyNote = [], cap_capturedAt = None, cap_position = None, cap_result = None, cap_note = None,
      cap_createdAt = now, cap_updatedAt = now\<rparr>"

section \<open>What is still missing\<close>

datatype capture_problem =
  Confirm_every_vehicle "string list"
| Record_the_seal string
| Seal_number_format string
| Photograph_the_seal string
| Photograph_where string
| Say_why_no_seal string
| Reason_too_long string
| Note_too_long

definition hasText :: "string \<Rightarrow> bool" where
  "hasText value \<longleftrightarrow> trim value \<noteq> []"

definition registration_of :: "vehicle_ref list \<Rightarrow> capture_seal_check \<Rightarrow> string" where
  "registration_of vehicles check = (case List.find (\<lambda>v. veh_id v = csc_vehicleId check) vehicles of
       Some v \<Rightarrow> veh_registration v | None \<Rightarrow> ''vehicle'')"

definition check_problems :: "vehicle_ref list \<Rightarrow> capture_seal_check \<Rightarrow> capture_problem list" where
  "check_problems vehicles check = (let registration = registration_of vehicles check; photos = csc_photos check in
     case csc_condition check of
       None \<Rightarrow> [Record_the_seal registration]
     | Some Sub_missing \<Rightarrow> if photos = [] then [Photograph_where registration] else []
     | Some Sub_not_applicable \<Rightarrow>
         if \<not> hasText (csc_notApplicableReason check) then [Say_why_no_seal registration]
         else if SUBSTITUTION_TEXT_MAX_LENGTH < length (csc_notApplicableReason check) then [Reason_too_long registration]
         else []
     | Some _ \<Rightarrow>
         (if \<not> isValidSealFormat (csc_sealNumber check) then [Seal_number_format registration] else [])
         @ (if photos = [] then [Photograph_the_seal registration] else []))"

definition captureProblems :: "substitution_capture \<Rightarrow> vehicle_ref list \<Rightarrow> capture_problem list" where
  "captureProblems capture vehicles =
     (let unchecked = filter (\<lambda>v. veh_id v \<notin> set (cap_confirmedVehicleIds capture)) vehicles in
      (if unchecked \<noteq> [] then [Confirm_every_vehicle (map veh_registration unchecked)] else [])
      @ concat (map (check_problems vehicles) (cap_sealChecks capture))
      @ (if SUBSTITUTION_TEXT_MAX_LENGTH < length (cap_discrepancyNote capture) then [Note_too_long] else []))"

section \<open>The body\<close>

definition sealCheckBody :: "capture_seal_check \<Rightarrow> substitution_seal_condition \<Rightarrow> seal_check" where
  "sealCheckBody check condition =
     \<lparr>chk_vehicle_id = csc_vehicleId check, chk_condition = condition,
      chk_seal_number = (if condition = Sub_intact \<or> condition = Sub_damaged
        then Some (normalizeSeal (csc_sealNumber check)) else None),
      chk_photo_artifact_ids = List.map_filter cph_uploadedArtifactId (csc_photos check),
      chk_not_applicable_reason = (if condition = Sub_not_applicable
        then Some (trim (csc_notApplicableReason check)) else None)\<rparr>"

definition NEEDS_CAPTURE_TIME :: string where
  "NEEDS_CAPTURE_TIME = ''A confirmation needs its capture time.''"

definition legacyConfirmationBody :: "substitution_capture \<Rightarrow> string + confirm_substitution" where
  "legacyConfirmationBody capture = (case cap_capturedAt capture of
       None \<Rightarrow> Inl NEEDS_CAPTURE_TIME
     | Some capturedAt \<Rightarrow> let note = trim (cap_discrepancyNote capture) in Inr
        \<lparr>cs_client_request_id = cap_clientRequestId capture, cs_expected_version = cap_expectedVersion capture,
         cs_captured_at = capturedAt,
         cs_latitude = map_option cpos_latitude (cap_position capture),
         cs_longitude = map_option cpos_longitude (cap_position capture),
         cs_accuracy_metres = Option.bind (cap_position capture) cpos_accuracyMetres,
         cs_confirmed_vehicle_ids = cap_confirmedVehicleIds capture,
         cs_seal_checks = concat (map (\<lambda>check. case csc_condition check of
             None \<Rightarrow> [] | Some condition \<Rightarrow> [sealCheckBody check condition]) (cap_sealChecks capture)),
         cs_discrepancy_note = (if note = [] then None else Some note)\<rparr>)"

definition confirmationBody :: "substitution_capture \<Rightarrow> string + confirmation_body" where
  "confirmationBody capture = map_sum id (\<lambda>b. Observation_body b (coalesce (cap_locationObservedAt capture))
     (coalesce (cap_locationUnavailableReason capture))) (legacyConfirmationBody capture)"

text \<open>The body of a capture: the one that was fixed, or the one its format asks for.\<close>

definition body_of :: "substitution_capture \<Rightarrow> string + confirmation_body" where
  "body_of capture = (case cap_submittedBody capture of
       Some b \<Rightarrow> Inr b
     | None \<Rightarrow> if cap_captureFormat capture = Val Observation_v2 then confirmationBody capture
         else map_sum id Legacy_body (legacyConfirmationBody capture))"


section \<open>A ready check is one the contract accepts\<close>

text \<open>The contract's rule for one seal check (the comment on \<open>SealCheck\<close>).\<close>

definition in_bounds :: "string \<Rightarrow> bool" where
  "in_bounds s \<longleftrightarrow> s \<noteq> [] \<and> length s \<le> SUBSTITUTION_TEXT_MAX_LENGTH"

definition meets_contract :: "seal_check \<Rightarrow> bool" where
  "meets_contract check = (case chk_condition check of
       Sub_missing \<Rightarrow> chk_seal_number check = None \<and> chk_photo_artifact_ids check \<noteq> [] \<and> chk_not_applicable_reason check = None
     | Sub_not_applicable \<Rightarrow> chk_seal_number check = None \<and> pred_option in_bounds (chk_not_applicable_reason check)
         \<and> chk_not_applicable_reason check \<noteq> None
     | _ \<Rightarrow> chk_seal_number check \<noteq> None \<and> pred_option seal_format (chk_seal_number check)
         \<and> chk_photo_artifact_ids check \<noteq> [] \<and> chk_not_applicable_reason check = None)"

definition photos_uploaded :: "substitution_capture \<Rightarrow> bool" where
  "photos_uploaded c \<longleftrightarrow> list_all (\<lambda>check. list_all (\<lambda>p. cph_uploadedArtifactId p \<noteq> None) (csc_photos check)) (cap_sealChecks c)"

lemma length_trim: "length (trim s) \<le> length s"
proof -
  have "length (trim s) \<le> length (dropWhile isWhite s)"
    using length_dropWhile_le[of isWhite "rev (dropWhile isWhite s)"] by (simp add: trim_def)
  then show ?thesis using length_dropWhile_le[of isWhite s] by simp
qed

lemma uploaded_ids: "list_all (\<lambda>p. cph_uploadedArtifactId p \<noteq> None) ps \<Longrightarrow>
    List.map_filter cph_uploadedArtifactId ps = map (the \<circ> cph_uploadedArtifactId) ps"
  by (induction ps) (auto simp: map_filter_simps)

lemma ready_seal_check:
  assumes "check_problems vehicles check = []" "list_all (\<lambda>p. cph_uploadedArtifactId p \<noteq> None) (csc_photos check)"
  obtains condition where "csc_condition check = Some condition" "meets_contract (sealCheckBody check condition)"
proof (cases "csc_condition check")
  case None
  then show thesis using assms(1) by (simp add: check_problems_def Let_def)
next
  case (Some condition)
  have ids: "List.map_filter cph_uploadedArtifactId (csc_photos check) = [] \<longleftrightarrow> csc_photos check = []"
    using assms(2) by (simp add: uploaded_ids)
  have "meets_contract (sealCheckBody check condition)"
    using assms(1) Some ids length_trim[of "csc_notApplicableReason check"]
    by (cases condition) (auto simp: check_problems_def Let_def meets_contract_def sealCheckBody_def in_bounds_def
        hasText_def isValidSealFormat_def split: if_splits)
  then show thesis using Some that by blast
qed

lemma ready_seal_checks:
  assumes "concat (map (check_problems vehicles) checks) = []"
    "list_all (\<lambda>check. list_all (\<lambda>p. cph_uploadedArtifactId p \<noteq> None) (csc_photos check)) checks"
  shows "\<exists>bodies. concat (map (\<lambda>check. case csc_condition check of
      None \<Rightarrow> [] | Some condition \<Rightarrow> [sealCheckBody check condition]) checks) = bodies
    \<and> map chk_vehicle_id bodies = map csc_vehicleId checks \<and> list_all meets_contract bodies"
  using assms
proof (induction checks)
  case (Cons check checks)
  obtain condition where "csc_condition check = Some condition" "meets_contract (sealCheckBody check condition)"
    using Cons.prems by (auto elim: ready_seal_check)
  then show ?case using Cons by (simp add: sealCheckBody_def)
qed simp

text \<open>A check the screen lets the driver confirm is one the contract accepts: once its photos
  are uploaded its body confirms every vehicle, answers for exactly the vehicles the check was opened with and in
  that order, and each answer has a seal number in the right format and a photo where a seal can be read, a photo
  and no number where it is missing, and a reason of 1 to 1000 characters where there is none to expect. The note
  is absent or within its bounds, and a position is sent whole or not at all.\<close>
theorem ready_check_meets_the_contract:
  assumes "captureProblems c vehicles = []" "photos_uploaded c" "legacyConfirmationBody c = Inr b"
  shows "set (map veh_id vehicles) \<subseteq> set (cs_confirmed_vehicle_ids b)
    \<and> map chk_vehicle_id (cs_seal_checks b) = map csc_vehicleId (cap_sealChecks c)
    \<and> list_all meets_contract (cs_seal_checks b)
    \<and> pred_option in_bounds (cs_discrepancy_note b)
    \<and> (cs_latitude b = None) = (cs_longitude b = None) \<and> (cs_latitude b = None \<longrightarrow> cs_accuracy_metres b = None)"
proof -
  have problems: "filter (\<lambda>v. veh_id v \<notin> set (cap_confirmedVehicleIds c)) vehicles = []"
    "concat (map (check_problems vehicles) (cap_sealChecks c)) = []"
    "length (cap_discrepancyNote c) \<le> SUBSTITUTION_TEXT_MAX_LENGTH"
    using assms(1) by (auto simp: captureProblems_def Let_def split: if_splits)
  have b: "cs_confirmed_vehicle_ids b = cap_confirmedVehicleIds c"
    "cs_seal_checks b = concat (map (\<lambda>check. case csc_condition check of
       None \<Rightarrow> [] | Some condition \<Rightarrow> [sealCheckBody check condition]) (cap_sealChecks c))"
    "cs_discrepancy_note b = (if trim (cap_discrepancyNote c) = [] then None else Some (trim (cap_discrepancyNote c)))"
    "(cs_latitude b = None) = (cs_longitude b = None)" "cs_latitude b = None \<longrightarrow> cs_accuracy_metres b = None"
    using assms(3) by (auto simp: legacyConfirmationBody_def Let_def split: option.splits)
  have "set (map veh_id vehicles) \<subseteq> set (cs_confirmed_vehicle_ids b)"
    using problems(1) b(1) by (auto simp: filter_empty_conv)
  moreover have "map chk_vehicle_id (cs_seal_checks b) = map csc_vehicleId (cap_sealChecks c)
      \<and> list_all meets_contract (cs_seal_checks b)"
    using ready_seal_checks[OF problems(2)] assms(2) b(2) by (auto simp: photos_uploaded_def)
  moreover have "pred_option in_bounds (cs_discrepancy_note b)"
    using b(3) problems(3) length_trim[of "cap_discrepancyNote c"] by (simp add: in_bounds_def)
  ultimately show ?thesis using b(4,5) by blast
qed

definition demo_context :: substitution_context where
  "demo_context = \<lparr>sr_id = ''r'', sr_trip_id = ''T'', sr_version = 3, sr_state = Sub_pending,
     sr_outgoing = \<lparr>contact_id = ''B'', contact_full_name = ''Ben'', contact_phone_number = []\<rparr>,
     sr_incoming = \<lparr>contact_id = ''A'', contact_full_name = ''Ann'', contact_phone_number = []\<rparr>,
     sr_vehicles = [\<lparr>veh_id = ''h'', veh_registration = ''H1'', veh_type = Horse\<rparr>], sr_request_format = Some Immediate_v2,
     sr_confirmations = [], sr_missing_confirmations = [Incoming], sr_completion_blocked_by = None,
     sr_replacement_request_id = None, sr_permitted_actions = [Confirm_incoming], sr_current_phase = Some In_transit\<rparr>"

definition demo_check :: substitution_capture where
  "demo_check = (newCapture ''t'' ''u'' ''A'' demo_context Incoming)\<lparr>cap_confirmedVehicleIds := [''h''], cap_capturedAt := Some ''t'',
     cap_sealChecks := [\<lparr>csc_vehicleId = ''h'', csc_condition = Some Sub_intact, csc_sealNumber = '' ab-1234'',
       csc_notApplicableReason = [], csc_photos = [\<lparr>cph_id = ''p'', cph_dataUrl = [], cph_capturedAt = ''t'',
         cph_uploadRequestId = ''q'', cph_uploadedArtifactId = Some ''a''\<rparr>]\<rparr>]\<rparr>"

lemma demo_number: "normalizeSeal '' ab-1234'' = ''AB-1234''"
  by code_simp

lemma demo_check_ready: "captureProblems demo_check (sr_vehicles demo_context) = []"
  by (simp add: captureProblems_def check_problems_def demo_check_def demo_context_def newCapture_def isValidSealFormat_def
        demo_number seal_format_def is_capital_def is_digit_def less_eq_char_def SUBSTITUTION_TEXT_MAX_LENGTH_def)

lemma ready_check_meets_the_contract_witness:
  "\<exists>b. legacyConfirmationBody demo_check = Inr b \<and> list_all meets_contract (cs_seal_checks b)
    \<and> map chk_seal_number (cs_seal_checks b) = [Some ''AB-1234'']"
proof -
  have up: "photos_uploaded demo_check" by (simp add: photos_uploaded_def demo_check_def)
  let ?b = "projr (legacyConfirmationBody demo_check)"
  have b: "legacyConfirmationBody demo_check = Inr ?b"
    by (simp add: legacyConfirmationBody_def demo_check_def Let_def)
  have number: "map chk_seal_number (cs_seal_checks ?b) = [Some ''AB-1234'']"
    by (simp add: legacyConfirmationBody_def demo_check_def sealCheckBody_def demo_number Let_def)
  show ?thesis
    using ready_check_meets_the_contract[OF demo_check_ready up b] b number by (intro exI[of _ ?b] conjI) simp_all
qed

end
