(* ===== verification/World.thy ===== *)
theory World
  imports Custody Conflict QueueStorage ExceptionStore ReportLock Substitution
begin

text \<open>
  The state the asynchronous code of the driver app shares, and what can happen to it while that
  code waits. Every \<open>await\<close> of the source is a point where other tasks of the tab, other tabs and
  the user run; here it is \<open>await\<close>, which applies the events the environment has in store for
  that moment. The environment also answers for the network, the session library, IndexedDB, the
  clock and the source of random ids. All of them are arbitrary functions of the moment, so a
  theorem over every environment covers every interleaving.
\<close>

section \<open>Requests\<close>

record artifact_form =
  af_artifact_type :: artifact_type
  af_captured_at :: iso
  af_captured_lat :: "number option"
  af_captured_lng :: "number option"
  af_file :: blob
  af_fileName :: string
  af_trip_id :: "string option"
  af_attribution :: "artifact_attribution option"
  af_custody_sequence :: "int option"
  af_client_request_id :: "string option"
  af_role :: "substitution_role option"

datatype late_payload =
  Late_phase phase_complete_request
| Late_exception raise_exception_body
| Late_checkpoint log_checkpoint_body
| Late_location "location_ping list"

record late_evidence_request =
  ler_client_request_id :: string
  ler_custody_sequence :: int
  ler_captured_at :: iso
  ler_original_idempotency_key :: "string option"
  ler_evidence :: late_payload
  ler_artifact_ids :: "string field list"

datatype payload =
  No_body
| Form artifact_form
| Phase_complete phase_complete_request
| Location_preview number number iso "number option"
| Log_checkpoint log_checkpoint_body
| Record_locations "location_ping list" "int option"
| Raise_exception raise_exception_body
| Late_evidence late_evidence_request
| Confirm_substitution confirmation_body

datatype http_method = GET | POST

record api_call =
  call_method :: http_method
  call_path :: string
  call_payload :: payload
  call_timeoutMs :: "int option"

text \<open>A request as it left the phone: with which token, and under whose sign-in.\<close>

record wire_request =
  wr_call :: api_call
  wr_token :: "string option"
  wr_generation :: nat
  wr_actor :: "string option"

section \<open>Answers\<close>

text \<open>\<open>rs_body = None\<close>: the body is not JSON, so \<open>res.json()\<close> rejects.\<close>

record response =
  rs_status :: int
  rs_statusText :: string
  rs_retryAfter :: "string option"
  rs_body :: "json option"

datatype fetch_result = Response response | Timed_out | Network_failure string

section \<open>The world\<close>

text \<open>
  The progress of sending one retained capture as late evidence (\<open>lib/offline/substitution-store.ts\<close>). The
  answer kept as the receipt may itself be \<open>undefined\<close>.
\<close>

record late_upload =
  lu_requestId :: string
  lu_artifactId :: "string option"

record late_progress =
  lp_sourceId :: string
  lp_actorId :: string
  lp_tripId :: string
  lp_custodySequence :: int
  lp_clientRequestId :: string
  lp_uploads :: "string \<rightharpoonup> late_upload"
  lp_receipt :: "json option option"
  lp_createdAt :: iso
  lp_updatedAt :: iso

record queue_counts =
  qc_pending :: nat
  qc_attention :: nat
  qc_otherAccounts :: nat

text \<open>
  The fields from the flush mutex on are the module variables of \<open>lib/hooks/useOfflineQueue.ts\<close> (the flush mutex, the
  retry timer, the counts last read from IndexedDB and those published) and the two counters.
\<close>

record world =
  w_custody :: custody_module
  w_ls :: local_storage
  w_db :: exception_db
  w_late :: "late_progress list"
  w_captures :: "substitution_capture list"
  w_locks :: locks
  w_volatile :: "string \<rightharpoonup> (string \<rightharpoonup> string)"
  w_wire :: "wire_request list"
  w_signOuts :: nat
  w_signedOutReason :: "string option"
  w_flushing :: bool
  w_retryAt :: "number option"
  w_envelopeCounts :: queue_counts
  w_published :: queue_counts
  w_uuids :: nat
  w_tick :: nat

datatype world_event =
  Ev_Custody custody_event
| Ev_Storage "local_storage \<Rightarrow> local_storage"
| Ev_Reports "exception_db \<Rightarrow> exception_db"
| Ev_Locks "locks \<Rightarrow> locks"
| Ev_Late "late_progress list \<Rightarrow> late_progress list"
| Ev_Captures "substitution_capture list \<Rightarrow> substitution_capture list"

fun apply_event :: "world_event \<Rightarrow> world \<Rightarrow> world" where
  "apply_event (Ev_Custody e) w = w\<lparr>w_custody := custody_step e (w_custody w)\<rparr>"
| "apply_event (Ev_Storage f) w = w\<lparr>w_ls := f (w_ls w)\<rparr>"
| "apply_event (Ev_Reports f) w = w\<lparr>w_db := f (w_db w)\<rparr>"
| "apply_event (Ev_Locks f) w = w\<lparr>w_locks := f (w_locks w)\<rparr>"
| "apply_event (Ev_Late f) w = w\<lparr>w_late := f (w_late w)\<rparr>"
| "apply_event (Ev_Captures f) w = w\<lparr>w_captures := f (w_captures w)\<rparr>"

text \<open>
  The session library does not answer in time, or fails. \<open>fetch(dataUrl)\<close> yields a blob or a
  \<open>TypeError\<close> with a message.
\<close>

datatype session_failure = Session_timeout | Session_failure string

record env =
  env_events :: "nat \<Rightarrow> world_event list"
  env_now :: "nat \<Rightarrow> iso"
  env_ms :: "nat \<Rightarrow> number"
  env_uuid :: "nat \<Rightarrow> string"
  env_token :: "nat \<Rightarrow> session_failure + string option"
  env_refresh :: "nat \<Rightarrow> session_failure + string option"
  env_fetch :: "nat \<Rightarrow> wire_request \<Rightarrow> fetch_result"
  env_decode :: "nat \<Rightarrow> string field \<Rightarrow> string + blob"
  env_readable :: "nat \<Rightarrow> bool"
  env_db :: "nat \<Rightarrow> exception_store_error option"
  env_lateDb :: "nat \<Rightarrow> string option"
  env_show :: "json \<Rightarrow> string"
  env_baseUrl :: string
  env_demo :: bool
  env_parseDate :: "string \<Rightarrow> number option"

text \<open>One \<open>await\<close>: whatever else runs in the meantime.\<close>

definition await :: "env \<Rightarrow> world \<Rightarrow> world" where
  "await E w = (fold apply_event (env_events E (w_tick w)) w)\<lparr>w_tick := Suc (w_tick w)\<rparr>"

abbreviation now_of :: "env \<Rightarrow> world \<Rightarrow> iso" where
  "now_of E w \<equiv> env_now E (w_tick w)"

abbreviation generation_of :: "world \<Rightarrow> nat" where
  "generation_of w \<equiv> actorGeneration (w_custody w)"

text \<open>\<open>crypto.randomUUID()\<close>.\<close>

definition randomUUID :: "env \<Rightarrow> world \<Rightarrow> string \<times> world" where
  "randomUUID E w = (env_uuid E (w_uuids w), w\<lparr>w_uuids := Suc (w_uuids w)\<rparr>)"

definition assert_generation :: "nat \<Rightarrow> world \<Rightarrow> (js_error + unit) \<times> world" where
  "assert_generation g w = (case assertActorGeneration (w_custody w) g of
       Inl m \<Rightarrow> (Inl (OtherErr m), w) | Inr u \<Rightarrow> (Inr u, w))"

text \<open>
  One IndexedDB transaction of \<open>transact\<close>: it opens, and then either fails without any effect or
  runs its work and commits.
\<close>

definition transact :: "env \<Rightarrow> (iso \<Rightarrow> exception_db \<Rightarrow> 'a \<times> exception_db) \<Rightarrow> world
    \<Rightarrow> (exception_store_error + 'a) \<times> world" where
  "transact E work w = (let w1 = await E w in
     case env_db E (w_tick w1) of
       Some err \<Rightarrow> (Inl err, await E w1)
     | None \<Rightarrow> let (r, db) = work (now_of E w1) (w_db w1) in (Inr r, await E (w1\<lparr>w_db := db\<rparr>)))"

text \<open>Operations on the queue in \<open>localStorage\<close> are synchronous; a migration inside one takes ids.\<close>

definition ls_save :: "env \<Rightarrow> queue_entry list \<Rightarrow> world \<Rightarrow> bool \<times> world" where
  "ls_save E es w = (let (ok, ls) = saveQueue (now_of E w) (env_uuid E) (w_uuids w) es (w_ls w)
     in (ok, w\<lparr>w_ls := ls, w_uuids := w_uuids w + length (loadQueue (w_ls w))\<rparr>))"

definition ls_update :: "env \<Rightarrow> (queue_entry list \<Rightarrow> queue_entry list) \<Rightarrow> world \<Rightarrow> bool \<times> world" where
  "ls_update E change w = ls_save E (change (loadQueue (w_ls w))) w"

definition ls_migrate :: "env \<Rightarrow> world \<Rightarrow> bool \<times> world" where
  "ls_migrate E w = (let (ok, ls) = migrateQueueForCustody (now_of E w) (env_uuid E) (w_uuids w) (w_ls w)
     in (ok, w\<lparr>w_ls := ls, w_uuids := w_uuids w + length (loadQueue (w_ls w))\<rparr>))"

section \<open>What an await leaves alone\<close>

lemma apply_events_frame [simp]:
  "w_wire (fold apply_event es w) = w_wire w"
  "w_volatile (fold apply_event es w) = w_volatile w"
  "w_signOuts (fold apply_event es w) = w_signOuts w"
  "w_flushing (fold apply_event es w) = w_flushing w"
  "w_uuids (fold apply_event es w) = w_uuids w"
  "w_tick (fold apply_event es w) = w_tick w"
proof -
  have "w_wire (apply_event e w) = w_wire w \<and> w_volatile (apply_event e w) = w_volatile w
      \<and> w_signOuts (apply_event e w) = w_signOuts w \<and> w_flushing (apply_event e w) = w_flushing w \<and> w_uuids (apply_event e w) = w_uuids w
      \<and> w_tick (apply_event e w) = w_tick w" for e w
    by (cases e) auto
  then have "w_wire (fold apply_event es w) = w_wire w \<and> w_volatile (fold apply_event es w) = w_volatile w
      \<and> w_signOuts (fold apply_event es w) = w_signOuts w \<and> w_flushing (fold apply_event es w) = w_flushing w \<and> w_uuids (fold apply_event es w) = w_uuids w
      \<and> w_tick (fold apply_event es w) = w_tick w" for w
    by (induction es arbitrary: w) auto
  then show "w_wire (fold apply_event es w) = w_wire w" "w_volatile (fold apply_event es w) = w_volatile w"
    "w_signOuts (fold apply_event es w) = w_signOuts w" "w_flushing (fold apply_event es w) = w_flushing w" "w_uuids (fold apply_event es w) = w_uuids w"
    "w_tick (fold apply_event es w) = w_tick w" by auto
qed

lemma await_frame [simp]:
  "w_wire (await E w) = w_wire w"
  "w_volatile (await E w) = w_volatile w"
  "w_signOuts (await E w) = w_signOuts w"
  "w_uuids (await E w) = w_uuids w"
  "w_tick (await E w) = Suc (w_tick w)"
  by (simp_all add: await_def)

text \<open>With no events nothing changes but the moment.\<close>

lemma await_quiet: "env_events E (w_tick w) = [] \<Longrightarrow> await E w = w\<lparr>w_tick := Suc (w_tick w)\<rparr>"
  by (simp add: await_def)

lemma assert_generation_simps:
  "assert_generation g w = (if generation_of w = g then (Inr (), w) else (Inl (OtherErr accountChanged), w))"
  by (simp add: assert_generation_def assertActorGeneration_def actorGeneration_def)

lemma events_generation: "generation_of w \<le> generation_of (fold apply_event es w)"
proof (induction es arbitrary: w)
  case (Cons e es)
  have "generation_of w \<le> generation_of (apply_event e w)"
    by (cases e) (auto simp: actorGeneration_def custody_step_generation)
  then show ?case using Cons[of "apply_event e w"] by simp
qed simp

lemma await_generation: "generation_of w \<le> generation_of (await E w)"
  using events_generation[of w] by (simp add: await_def)

section \<open>The relation between the worlds before and after\<close>

text \<open>
  Every operation below is a sequence of awaits, of requests and of steps that touch one part of
  the world. \<open>world_rel\<close> is the interface of a relation that all of them respect: it is kept by an
  await, by an allowed request and by the bookkeeping steps. The operations' lemmas are proved once
  against it, and used with the relations that matter: nothing but allowed requests leaves the
  phone, the generation only grows, a stored capture stays.
\<close>

text \<open>The log of requests, with the stamp of the moment they leave.\<close>

definition stamped :: "api_call \<Rightarrow> string option \<Rightarrow> world \<Rightarrow> wire_request" where
  "stamped c token w = \<lparr>wr_call = c, wr_token = token, wr_generation = generation_of w,
     wr_actor = currentActorId (w_custody w)\<rparr>"

definition emit :: "wire_request \<Rightarrow> world \<Rightarrow> world" where
  "emit r w = w\<lparr>w_wire := w_wire w @ [r]\<rparr>"

locale world_rel = state_rel R for R :: "world \<Rightarrow> world \<Rightarrow> bool" +
  fixes E :: env and allowed :: "wire_request \<Rightarrow> bool"
  assumes await_rel: "R w (await E w)"
    and emit_rel: "allowed (stamped c token w) \<Longrightarrow> R w (emit (stamped c token w) w)"
    and signOut_rel: "R w (w\<lparr>w_signedOutReason := r, w_signOuts := n\<rparr>)"
    and uuid_rel: "R w (w\<lparr>w_uuids := k\<rparr>)"
    and volatile_rel: "R w (w\<lparr>w_volatile := v\<rparr>)"
    and module_rel: "R w (w\<lparr>w_flushing := b, w_retryAt := t1, w_envelopeCounts := q1, w_published := q2\<rparr>)"
    and locks_rel: "R w (w\<lparr>w_locks := l\<rparr>)"
    and late_rel: "R w (w\<lparr>w_late := d\<rparr>)"
begin

lemma await_step: "R w u \<Longrightarrow> R w (await E u)"
  by (rule rel_trans[OF _ await_rel])

lemma assert_rel: "R w (snd (assert_generation g w))"
  by (simp add: assert_generation_simps rel_refl)

lemma randomUUID_rel: "R w (snd (randomUUID E w))"
  by (simp add: randomUUID_def uuid_rel)

end

text \<open>The requests made between two moments, all of a kind.\<close>

definition sends_only :: "(wire_request \<Rightarrow> bool) \<Rightarrow> world \<Rightarrow> world \<Rightarrow> bool" where
  "sends_only P w w' \<longleftrightarrow> (\<exists>rs. w_wire w' = w_wire w @ rs \<and> list_all P rs)"

interpretation sends: world_rel "sends_only P" E P for P :: "wire_request \<Rightarrow> bool" and E :: env
proof unfold_locales
  show "sends_only P s u" if "sends_only P s t" "sends_only P t u" for s t u
    using that by (auto simp: sends_only_def)
qed (auto simp: sends_only_def emit_def)

lemma sends_only_mono: "sends_only P w w' \<Longrightarrow> (\<And>r. P r \<Longrightarrow> Q r) \<Longrightarrow> sends_only Q w w'"
  by (auto simp: sends_only_def list_all_iff)

definition generation_grows :: "world \<Rightarrow> world \<Rightarrow> bool" where
  "generation_grows w w' \<longleftrightarrow> generation_of w \<le> generation_of w'"

interpretation grows: world_rel generation_grows E "\<lambda>_. True" for E :: env
  by unfold_locales (auto simp: generation_grows_def emit_def await_generation)

text \<open>A property of the stored captures that no event of the environment takes away.\<close>

definition keeps :: "(local_storage \<Rightarrow> exception_db \<Rightarrow> bool) \<Rightarrow> world \<Rightarrow> world \<Rightarrow> bool" where
  "keeps Q w w' \<longleftrightarrow> (Q (w_ls w) (w_db w) \<longrightarrow> Q (w_ls w') (w_db w'))"

definition undisturbed :: "env \<Rightarrow> (local_storage \<Rightarrow> exception_db \<Rightarrow> bool) \<Rightarrow> bool" where
  "undisturbed E Q \<longleftrightarrow> (\<forall>n. \<forall>e\<in>set (env_events E n). \<forall>w. keeps Q w (apply_event e w))"

lemma undisturbed_await:
  assumes "undisturbed E Q" "Q (w_ls w) (w_db w)"
  shows "Q (w_ls (await E w)) (w_db (await E w))"
proof -
  have "Q (w_ls (fold apply_event es w)) (w_db (fold apply_event es w))"
    if "\<forall>e\<in>set es. \<forall>w. keeps Q w (apply_event e w)" "Q (w_ls w) (w_db w)" for es w
    using that by (induction es arbitrary: w) (auto simp: keeps_def)
  then show ?thesis using assms by (simp add: await_def undisturbed_def)
qed

text \<open>The relation "what \<open>Q\<close> says stays true, if no event of the environment breaks it".\<close>

definition guarded :: "env \<Rightarrow> (local_storage \<Rightarrow> exception_db \<Rightarrow> bool) \<Rightarrow> world \<Rightarrow> world \<Rightarrow> bool" where
  "guarded E Q w w' \<longleftrightarrow> (undisturbed E Q \<longrightarrow> keeps Q w w')"

interpretation guarded: world_rel "guarded E Q" E "\<lambda>_. True"
  for E :: env and Q :: "local_storage \<Rightarrow> exception_db \<Rightarrow> bool"
  by unfold_locales (auto simp: guarded_def keeps_def emit_def undisturbed_await)

lemma transact_guarded:
  assumes "\<And>now ls db. Q ls db \<Longrightarrow> Q ls (snd (work now db))"
  shows "guarded E Q w (snd (transact E work w))"
proof -
  let ?w = "await E w"
  have 1: "guarded E Q w (await E ?w)" by (intro guarded.await_step guarded.rel_refl)
  obtain r db where rd: "work (now_of E ?w) (w_db ?w) = (r, db)" by force
  have "guarded E Q ?w (?w\<lparr>w_db := db\<rparr>)"
    using assms[of "w_ls ?w" "w_db ?w" "now_of E ?w"] rd by (simp add: guarded_def keeps_def)
  then have 2: "guarded E Q w (await E (?w\<lparr>w_db := db\<rparr>))"
    by (rule guarded.await_step[OF guarded.rel_trans[OF guarded.await_rel]])
  show ?thesis
  proof (cases "env_db E (w_tick ?w)")
    case None
    then have "snd (transact E work w) = await E (?w\<lparr>w_db := db\<rparr>)"
      using rd by (simp only: transact_def Let_def option.case prod.case snd_conv)
    then show ?thesis using 2 by (simp only:)
  next
    case (Some err)
    then have "snd (transact E work w) = await E ?w"
      by (simp only: transact_def Let_def option.case snd_conv)
    then show ?thesis using 1 by (simp only:)
  qed
qed

lemma transact_wire [simp]: "w_wire (snd (transact E work w)) = w_wire w"
  by (simp add: transact_def Let_def split: option.split prod.split)

section \<open>A quiet world\<close>

text \<open>
  An environment in which nothing interferes and every request is answered with an id, and a phone
  on which the driver \<open>A\<close> is signed in on trip \<open>T\<close> in custody period 1. Examples start from here.
\<close>

definition answer :: "int \<Rightarrow> json \<Rightarrow> fetch_result" where
  "answer status body = Response \<lparr>rs_status = status, rs_statusText = ''status'', rs_retryAfter = None, rs_body = Some body\<rparr>"

definition quiet :: env where
  "quiet = \<lparr>env_events = (\<lambda>_. []), env_now = (\<lambda>_. ''now''), env_ms = (\<lambda>_. 0), env_uuid = (\<lambda>n. replicate n (CHR ''u'')),
     env_token = (\<lambda>_. Inr (Some ''token'')), env_refresh = (\<lambda>_. Inr (Some ''fresh'')),
     env_fetch = (\<lambda>_ _. answer 200 (JObj [(''id'', JStr ''stored'')])),
     env_decode = (\<lambda>_ _. Inr \<lparr>blob_type = ''image/jpeg'', blob_bytes = ''x''\<rparr>), env_readable = (\<lambda>_. True),
     env_db = (\<lambda>_. None), env_lateDb = (\<lambda>_. None), env_show = (\<lambda>_. []), env_baseUrl = ''http://api'', env_demo = False, env_parseDate = (\<lambda>_. None)\<rparr>"

definition phone_storage :: "queue_entry list \<Rightarrow> local_storage" where
  "phone_storage es = \<lparr>ls_present = True, ls_readable = True, ls_queue = Some (Json_array es), ls_version = Some 2,
     ls_backup = None, ls_accepts = (\<lambda>_. True), ls_acceptsVersion = True\<rparr>"

definition no_counts :: queue_counts where
  "no_counts = \<lparr>qc_pending = 0, qc_attention = 0, qc_otherAccounts = 0\<rparr>"

definition demo_world :: "queue_entry list \<Rightarrow> world" where
  "demo_world es = \<lparr>w_custody = initialModule\<lparr>cm_state := \<lparr>ctx_actorId = Some ''A'', ctx_tripId = Some ''T'',
       ctx_custodySequence = Some 1\<rparr>\<rparr>,
     w_ls = phone_storage es, w_db = [], w_late = [], w_captures = [], w_locks = no_locks, w_volatile = Map.empty, w_wire = [], w_signOuts = 0,
     w_signedOutReason = None, w_flushing = False, w_retryAt = None, w_envelopeCounts = no_counts,
     w_published = no_counts, w_uuids = 0, w_tick = 0\<rparr>"

lemma quiet_simps [simp]:
  "env_events quiet n = []" "env_now quiet n = ''now''" "env_ms quiet n = 0" "env_uuid quiet k = replicate k (CHR ''u'')"
  "env_token quiet n = Inr (Some ''token'')" "env_refresh quiet n = Inr (Some ''fresh'')"
  "env_fetch quiet n r = answer 200 (JObj [(''id'', JStr ''stored'')])"
  "env_decode quiet n u = Inr \<lparr>blob_type = ''image/jpeg'', blob_bytes = ''x''\<rparr>"
  "env_readable quiet n" "env_db quiet n = None" "env_lateDb quiet n = None" "env_baseUrl quiet = ''http://api''" "\<not> env_demo quiet"
  by (simp_all add: quiet_def)

lemma quiet_await [simp]: "await (quiet\<lparr>env_fetch := f\<rparr>) w = w\<lparr>w_tick := Suc (w_tick w)\<rparr>"
  "await quiet w = w\<lparr>w_tick := Suc (w_tick w)\<rparr>"
  by (simp_all add: await_quiet quiet_def)

end
