(* ===== verification/ApiClient.thy ===== *)
theory ApiClient
  imports World
begin

text \<open>
  The fetch wrapper of the driver app (\<open>lib/api/client.ts\<close>): resolving a token, one request with
  its account checks, reading an error body, the one retry after an expired token, and the sign-out
  of a device that a newer login has superseded.
\<close>

section \<open>Errors from responses\<close>

definition SESSION_SUPERSEDED_MESSAGE :: string where
  "SESSION_SUPERSEDED_MESSAGE = ''Signed in on another device.''"

definition REQUEST_TIMEOUT_MS :: int where
  "REQUEST_TIMEOUT_MS = 12000"

text \<open>\<open>Number(raw)\<close> of a decimal literal; \<open>None\<close> stands for \<open>NaN\<close> and the infinities.\<close>

fun digits :: "string \<Rightarrow> string \<times> string" where
  "digits [] = ([], [])"
| "digits (c # s) = (if CHR ''0'' \<le> c \<and> c \<le> CHR ''9'' then (let (d, r) = digits s in (c # d, r)) else ([], c # s))"

definition nat_of_digits :: "string \<Rightarrow> nat" where
  "nat_of_digits = foldl (\<lambda>n c. 10 * n + (of_char c - 48)) 0"

definition js_number :: "string \<Rightarrow> number option" where
  "js_number raw = (let s = trim raw;
       (sign, s1) = (case s of c # r \<Rightarrow> if c = CHR ''-'' then (- 1, r) else if c = CHR ''+'' then (1, r) else (1, s)
                     | [] \<Rightarrow> (1, []));
       (whole, s2) = digits s1;
       (frac, s3) = (case s2 of c # r \<Rightarrow> if c = CHR ''.'' then digits r else ([], s2) | [] \<Rightarrow> ([], []));
       mantissa = real (nat_of_digits (whole @ frac)) / 10 ^ length frac
     in if s = [] then Some 0
        else if whole = [] \<and> frac = [] then None
        else case s3 of
          [] \<Rightarrow> Some (sign * mantissa)
        | c # r \<Rightarrow> if c \<noteq> CHR ''e'' \<and> c \<noteq> CHR ''E'' then None
            else (let (down, ds) = (case r of c # r' \<Rightarrow> if c = CHR ''-'' then (True, r')
                                      else if c = CHR ''+'' then (False, r') else (False, r) | [] \<Rightarrow> (False, []));
                      (e, rest) = digits ds
                  in if e = [] \<or> rest \<noteq> [] then None
                     else Some (sign * (if down then mantissa / 10 ^ nat_of_digits e
                                        else mantissa * 10 ^ nat_of_digits e))))"

definition retryAfterMilliseconds :: "env \<Rightarrow> number \<Rightarrow> response \<Rightarrow> number option" where
  "retryAfterMilliseconds E now res =
     (if rs_status res \<noteq> 429 then None
      else case rs_retryAfter res of
        None \<Rightarrow> None
      | Some raw \<Rightarrow>
         if raw = [] then None
         else case js_number raw of
           Some seconds \<Rightarrow> if 0 \<le> seconds then Some (seconds * 1000)
             else map_option (\<lambda>retryAt. max 0 (retryAt - now)) (env_parseDate E raw)
         | None \<Rightarrow> map_option (\<lambda>retryAt. max 0 (retryAt - now)) (env_parseDate E raw))"

text \<open>Reading a property: \<open>TypeError\<close> on \<open>null\<close>, \<open>undefined\<close> (\<open>None\<close>) when there is none.\<close>

fun json_get :: "string \<Rightarrow> json \<Rightarrow> js_error + json option" where
  "json_get k JNull = Inl (TypeErr ''Cannot read properties of null'')"
| "json_get k (JObj ps) = Inr (map_of (rev ps) k)"
| "json_get k _ = Inr None"

fun nullableString :: "json option \<Rightarrow> string option" where
  "nullableString (Some (JStr s)) = Some s"
| "nullableString _ = None"

fun nullableNumber :: "json option \<Rightarrow> number option" where
  "nullableNumber (Some (JNum n)) = Some n"
| "nullableNumber _ = None"

text \<open>The stable codes by their wire text; any other text is an unknown code.\<close>

definition KNOWN_CODES :: "(string \<times> conflict_code) list" where
  "KNOWN_CODES =
    [(''TRIP_HANDED_OVER'', TRIP_HANDED_OVER), (''CUSTODY_CONTEXT_CHANGED'', CUSTODY_CONTEXT_CHANGED),
     (''CUSTODY_CONTEXT_REQUIRED'', CUSTODY_CONTEXT_REQUIRED),
     (''SUBSTITUTION_VERSION_CHANGED'', SUBSTITUTION_VERSION_CHANGED),
     (''SUBSTITUTION_NOT_PENDING'', SUBSTITUTION_NOT_PENDING), (''DRIVER_UNAVAILABLE'', DRIVER_UNAVAILABLE),
     (''INCOMING_DRIVER_INACTIVE'', INCOMING_DRIVER_INACTIVE), (''LICENCE_INVALID'', LICENCE_INVALID),
     (''IDENTITY_ATTESTATION_FORBIDDEN'', IDENTITY_ATTESTATION_FORBIDDEN),
     (''IDENTITY_NOT_VERIFIED'', IDENTITY_NOT_VERIFIED), (''IDEMPOTENCY_KEY_REUSED'', IDEMPOTENCY_KEY_REUSED),
     (''EVIDENCE_ALREADY_RECORDED'', EVIDENCE_ALREADY_RECORDED), (''SUBSTITUTIONS_DISABLED'', SUBSTITUTIONS_DISABLED),
     (''PHASE_OVERRIDDEN'', PHASE_OVERRIDDEN)]"

definition code_of_text :: "string \<Rightarrow> conflict_code" where
  "code_of_text s = (case map_of KNOWN_CODES s of Some c \<Rightarrow> c | None \<Rightarrow> Unknown_code s)"

text \<open>
  \<open>readError\<close>: the message and the coded part of an error body. \<open>String(message)\<close> of a value that
  is not a string is \<open>env_show\<close>.
\<close>

definition readError :: "env \<Rightarrow> response \<Rightarrow> js_error + string \<times> api_error_detail option" where
  "readError E res = (let
       statusText = rs_statusText res;
       body = (case rs_body res of None \<Rightarrow> JObj [(''detail'', JStr statusText)] | Some b \<Rightarrow> b);
       text = (\<lambda>v. case v of None \<Rightarrow> statusText | Some JNull \<Rightarrow> statusText | Some (JStr s) \<Rightarrow> s | Some j \<Rightarrow> env_show E j)
     in case json_get ''detail'' body of
          Inl e \<Rightarrow> Inl e
        | Inr (Some (JArr items)) \<Rightarrow>
            Inr (text (case items of [] \<Rightarrow> None | i # _ \<Rightarrow> (case json_get ''msg'' i of Inl _ \<Rightarrow> None | Inr m \<Rightarrow> m)), None)
        | Inr (Some (JObj coded)) \<Rightarrow>
            (let prop = map_of (rev coded);
                 message = (case nullableString (prop ''message'') of Some m \<Rightarrow> m | None \<Rightarrow> statusText)
             in case prop ''code'' of
                  Some (JStr code) \<Rightarrow> Inr (message, Some \<lparr>aed_code = code_of_text code,
                     aed_requestId = nullableString (prop ''request_id''),
                     aed_currentVersion = map_option floor (nullableNumber (prop ''current_version'')),
                     aed_evidenceId = nullableString (prop ''evidence_id'')\<rparr>)
                | _ \<Rightarrow> Inr (message, None))
        | Inr raw \<Rightarrow> Inr (text raw, None))"

section \<open>One request\<close>

definition rs_ok :: "response \<Rightarrow> bool" where
  "rs_ok res \<longleftrightarrow> 200 \<le> rs_status res \<and> rs_status res \<le> 299"

definition checkAccount :: "nat \<Rightarrow> world \<Rightarrow> (js_error + unit) \<times> world" where
  "checkAccount g w = ((if generation_of w \<noteq> g then Inl (plainApiError 0 accountChanged) else Inr ()), w)"

text \<open>The token: the cache, or one bounded session lookup; both are the environment's answer.\<close>

definition resolveToken :: "env \<Rightarrow> world \<Rightarrow> (js_error + string option) \<times> world" where
  "resolveToken E w = (let w1 = await E w in
     (case env_token E (w_tick w1) of
        Inl Session_timeout \<Rightarrow> Inl (plainApiError 0 ''Auth session lookup timed out after 8000ms'')
      | Inl (Session_failure m) \<Rightarrow> Inl (OtherErr m)
      | Inr token \<Rightarrow> Inr token, w1))"

definition signOutSupersededDevice :: "env \<Rightarrow> world \<Rightarrow> world" where
  "signOutSupersededDevice E w = await E (w\<lparr>w_signedOutReason := Some SESSION_SUPERSEDED_MESSAGE, w_signOuts := Suc (w_signOuts w)\<rparr>)"

text \<open>The token's own truthiness decides whether an \<open>Authorization\<close> header goes out.\<close>

definition header_token :: "string option \<Rightarrow> string option" where
  "header_token t = (if t = Some [] then None else t)"

fun text_of_nat :: "nat \<Rightarrow> string" where
  "text_of_nat n = (if n < 10 then [char_of (48 + n)] else text_of_nat (n div 10) @ [char_of (48 + n mod 10)])"

declare text_of_nat.simps [simp del]

definition timeout_of :: "api_call \<Rightarrow> int" where
  "timeout_of c = (case call_timeoutMs c of None \<Rightarrow> REQUEST_TIMEOUT_MS | Some ms \<Rightarrow> ms)"

definition fetch :: "env \<Rightarrow> api_call \<Rightarrow> string option \<Rightarrow> world \<Rightarrow> (js_error + response) \<times> world" where
  "fetch E c token w = (let r = stamped c (header_token token) w; w1 = await E (emit r w) in
     (case env_fetch E (w_tick w1) r of
        Response res \<Rightarrow> Inr res
      | Timed_out \<Rightarrow> Inl (plainApiError 0 (''Request to '' @ env_baseUrl E @ call_path c @ '' timed out after ''
          @ text_of_nat (nat (timeout_of c)) @ ''ms''))
      | Network_failure m \<Rightarrow> Inl (TypeErr m), w1))"

text \<open>What is left to do after one exchange: nothing, or a retry with a fresh token.\<close>

datatype exchange = Finished "json option" | Retry_with string

definition refreshed :: "env \<Rightarrow> world \<Rightarrow> string option \<times> world" where
  "refreshed E w = (let w1 = await E w in
     ((case env_refresh E (w_tick w1) of Inr (Some t) \<Rightarrow> if t = [] then None else Some t | _ \<Rightarrow> None), w1))"

definition fail_with :: "env \<Rightarrow> response \<Rightarrow> string \<times> api_error_detail option \<Rightarrow> world \<Rightarrow> (js_error + exchange) \<times> world" where
  "fail_with E res parsed w = (Inl (ApiErr \<lparr>ae_status = rs_status res, ae_message = fst parsed,
     ae_retryAfterMs = retryAfterMilliseconds E (env_ms E (w_tick w)) res, ae_detail = snd parsed\<rparr>), w)"

definition on_refusal :: "env \<Rightarrow> string option \<Rightarrow> nat \<Rightarrow> response \<Rightarrow> world \<Rightarrow> (js_error + exchange) \<times> world" where
  "on_refusal E retryToken g res w =
     and_then (readError E res, await E w) (\<lambda>parsed w1.
     and_then (checkAccount g w1) (\<lambda>_ w2.
       if rs_status res = 401 \<and> fst parsed = SESSION_SUPERSEDED_MESSAGE
       then and_then (checkAccount g w2) (\<lambda>_ w3.
              (Inl (plainApiError (rs_status res) SESSION_SUPERSEDED_MESSAGE), signOutSupersededDevice E w3))
       else if rs_status res = 401 \<and> retryToken = None
       then and_then (checkAccount g w2) (\<lambda>_ w3.
              case refreshed E w3 of
                (Some fresh, w4) \<Rightarrow> and_then (checkAccount g w4) (\<lambda>_ w5. (Inr (Retry_with fresh), w5))
              | (None, w4) \<Rightarrow> fail_with E res parsed w4)
       else fail_with E res parsed w2))"

definition on_success :: "env \<Rightarrow> nat \<Rightarrow> response \<Rightarrow> world \<Rightarrow> (js_error + exchange) \<times> world" where
  "on_success E g res w =
     and_then (checkAccount g w) (\<lambda>_ w1.
       if rs_status res = 204 then (Inr (Finished None), w1)
       else (let w2 = await E w1 in case rs_body res of
            None \<Rightarrow> (Inl (OtherErr ''Unexpected token in JSON''), w2)
          | Some body \<Rightarrow> and_then (checkAccount g w2) (\<lambda>_ w3. (Inr (Finished (Some body)), w3))))"

definition exchange :: "env \<Rightarrow> api_call \<Rightarrow> string option \<Rightarrow> nat \<Rightarrow> world \<Rightarrow> (js_error + exchange) \<times> world" where
  "exchange E c retryToken g w =
     and_then (checkAccount g w) (\<lambda>_ w1.
     and_then (case retryToken of Some t \<Rightarrow> (Inr (Some t), w1) | None \<Rightarrow> resolveToken E w1) (\<lambda>token w2.
     and_then (checkAccount g w2) (\<lambda>_ w3.
     and_then (fetch E c token w3) (\<lambda>res w4.
     and_then (checkAccount g w4) (\<lambda>_ w5.
       if rs_ok res then on_success E g res w5 else on_refusal E retryToken g res w5)))))"

function request_with :: "env \<Rightarrow> api_call \<Rightarrow> string option \<Rightarrow> nat \<Rightarrow> world \<Rightarrow> (js_error + json option) \<times> world" where
  "request_with E c retryToken g w = (case exchange E c retryToken g w of
       (Inl e, w') \<Rightarrow> (Inl e, w')
     | (Inr (Finished body), w') \<Rightarrow> (Inr body, w')
     | (Inr (Retry_with fresh), w') \<Rightarrow>
         if retryToken = None then request_with E c (Some fresh) g w' else (Inl (OtherErr []), w'))"
  by pat_completeness auto
termination by (relation "measure (\<lambda>(_, _, r, _, _). if r = None then 1 else 0)") auto

declare request_with.simps [simp del]

text \<open>The generation is that of the moment the call is made.\<close>

definition request :: "env \<Rightarrow> api_call \<Rightarrow> world \<Rightarrow> (js_error + json option) \<times> world" where
  "request E c w = request_with E c None (generation_of w) w"

definition api_post :: "env \<Rightarrow> string \<Rightarrow> payload \<Rightarrow> int option \<Rightarrow> world \<Rightarrow> (js_error + json option) \<times> world" where
  "api_post E path body timeout w =
     request E \<lparr>call_method = POST, call_path = path, call_payload = body, call_timeoutMs = timeout\<rparr> w"

definition api_get :: "env \<Rightarrow> string \<Rightarrow> int option \<Rightarrow> world \<Rightarrow> (js_error + json option) \<times> world" where
  "api_get E path timeout w =
     request E \<lparr>call_method = GET, call_path = path, call_payload = No_body, call_timeoutMs = timeout\<rparr> w"

section \<open>Every request is made under its own sign-in\<close>

lemma checkAccount_simps:
  "checkAccount g w = (if generation_of w = g then (Inr (), w) else (Inl (plainApiError 0 accountChanged), w))"
  by (simp add: checkAccount_def)

context world_rel begin

lemma check_rel: "R w (snd (checkAccount g w))"
  by (simp add: checkAccount_simps rel_refl)

lemma fail_rel: "R w (snd (fail_with E res parsed w))"
  by (simp add: fail_with_def rel_refl)

lemma refreshed_rel: "R w (snd (refreshed E w))"
  by (simp add: refreshed_def Let_def await_rel)

lemma fetch_rel:
  assumes "allowed (stamped c (header_token token) w)"
  shows "R w (snd (fetch E c token w))"
  by (simp add: fetch_def Let_def await_step emit_rel assms)

lemma signOut_step: "R w (signOutSupersededDevice E w)"
  by (simp add: signOutSupersededDevice_def await_step signOut_rel)

lemma refusal_rel: "R w (snd (on_refusal E rt g res w))"
  unfolding on_refusal_def
proof (intro and_then_rel, goal_cases)
  case (3 parsed w1 u w2)
  have "R w2 (snd (case refreshed E w2 of
      (Some fresh, w4) \<Rightarrow> and_then (checkAccount g w4) (\<lambda>_ w5. (Inr (Retry_with fresh), w5))
    | (None, w4) \<Rightarrow> fail_with E res parsed w4))"
    using refreshed_rel[of w2]
    by (auto simp: fail_with_def checkAccount_simps split: prod.split option.split)
  then show ?case
    by (auto simp: fail_rel checkAccount_simps rel_refl signOut_step)
qed (simp_all add: await_rel check_rel)

lemma success_rel: "R w (snd (on_success E g res w))"
  unfolding on_success_def
  by (intro and_then_rel check_rel)
    (auto simp: Let_def rel_refl checkAccount_simps intro: await_rel split: option.split)

lemma resolveToken_rel: "R w (snd (resolveToken E w))"
  by (simp add: resolveToken_def Let_def await_rel)

lemma exchange_rel:
  assumes "\<And>w token. generation_of w = g \<Longrightarrow> allowed (stamped c token w)"
  shows "R w (snd (exchange E c rt g w))"
  unfolding exchange_def
proof (intro and_then_rel, goal_cases)
  case (4 a t token w2 u w3)
  then have "generation_of w3 = g" by (auto simp: checkAccount_simps split: if_splits)
  then show ?case by (intro fetch_rel assms)
qed (auto simp: check_rel resolveToken_rel refusal_rel success_rel rel_refl split: option.split)

lemma request_with_rel:
  assumes "\<And>w token. generation_of w = g \<Longrightarrow> allowed (stamped c token w)"
  shows "R w (snd (request_with E c rt g w))"
proof -
  have last: "R w (snd (request_with E c (Some t) g w))" for t w
    using exchange_rel[where g = g and w = w and c = c and rt = "Some t"] assms
    by (auto simp: request_with.simps split: prod.split sum.split exchange.split)
  show ?thesis
  proof (cases rt)
    case None
    then show ?thesis
      using exchange_rel[where g = g and w = w and c = c and rt = None] assms last
      by (auto simp: request_with.simps[of E c None] split: prod.split sum.split exchange.split intro: rel_trans)
  qed (simp add: last)
qed

lemma request_rel:
  assumes "\<And>w' token. generation_of w' = generation_of w \<Longrightarrow> allowed (stamped c token w')"
  shows "R w (snd (request E c w))"
  unfolding request_def by (rule request_with_rel) (rule assms)

end

section \<open>What a request guarantees\<close>

lemma silent_wire: "sends_only (\<lambda>_. False) w w' \<longleftrightarrow> w_wire w' = w_wire w"
  by (auto simp: sends_only_def list_all_iff)

lemma wire_frame [simp]:
  "w_wire (snd (on_refusal E rt g res w)) = w_wire w"
  "w_wire (snd (on_success E g res w)) = w_wire w"
  "w_wire (snd (checkAccount g w)) = w_wire w"
  "w_wire (snd (resolveToken E w)) = w_wire w"
  using sends.refusal_rel[where P = "\<lambda>_. False"] sends.success_rel[where P = "\<lambda>_. False"]
    sends.check_rel[where P = "\<lambda>_. False"] sends.resolveToken_rel[where P = "\<lambda>_. False"]
  by (simp_all add: silent_wire)

lemma fetch_wire: "w_wire (snd (fetch E c token w)) = w_wire w @ [stamped c (header_token token) w]"
  by (simp add: fetch_def Let_def emit_def)

text \<open>Counting requests along a sequence.\<close>

definition sent :: "world \<Rightarrow> nat" where
  "sent w = length (w_wire w)"

lemma and_then_sent:
  assumes "sent (snd r) \<le> sent w + a" "\<And>x t. r = (Inr x, t) \<Longrightarrow> sent (snd (k x t)) \<le> sent t + b"
  shows "sent (snd (and_then r k)) \<le> sent w + (a + b)"
  using assms by (cases r; cases "fst r") (force simp: le_diff_conv)+

lemma sent_frame [simp]:
  "sent (snd (on_refusal E rt g res w)) = sent w"
  "sent (snd (on_success E g res w)) = sent w"
  "sent (snd (checkAccount g w)) = sent w"
  "sent (snd (resolveToken E w)) = sent w"
  "sent (snd (fetch E c token w)) = Suc (sent w)"
  by (simp_all add: sent_def fetch_wire)

lemma exchange_sent: "sent (snd (exchange E c rt g w)) \<le> sent w + 1"
proof -
  have "sent (snd (exchange E c rt g w)) \<le> sent w + (0 + (0 + (0 + (1 + (0 + 0)))))"
    unfolding exchange_def
    by (intro and_then_sent) (auto split: option.split)
  then show ?thesis by simp
qed

lemma retry_only_once: "exchange E c (Some t) g w \<noteq> (Inr (Retry_with f), w')"
  unfolding exchange_def on_success_def on_refusal_def Let_def
  by (auto simp: fail_with_def split: if_splits option.splits elim!: and_then_cases)

lemma request_with_sent:
  "sent (snd (request_with E c rt g w)) \<le> sent w + (if rt = None then 2 else 1)"
proof -
  have last: "sent (snd (request_with E c (Some t) g w)) \<le> sent w + 1" for t w
    using exchange_sent[of E c "Some t" g w]
    by (auto simp: request_with.simps split: prod.split sum.split exchange.split)
  show ?thesis
  proof (cases rt)
    case None
    have "sent (snd (request_with E c (Some f) g u)) \<le> sent w + 2"
      if "exchange E c None g w = (Inr (Retry_with f), u)" for f u
      using exchange_sent[of E c None g w] last[of f u] that by simp
    then show ?thesis
      using exchange_sent[of E c None g w] None
      by (auto simp: request_with.simps[of E c None] split: prod.split sum.split exchange.split)
  next
    case (Some f)
    then show ?thesis using last[of f w] by simp
  qed
qed

text \<open>A result is returned only under the sign-in of the call.\<close>

lemma exchange_generation:
  "exchange E c rt g w = (Inr x, w') \<Longrightarrow> generation_of w' = g"
  unfolding exchange_def on_success_def on_refusal_def Let_def
  by (auto simp: fail_with_def checkAccount_simps split: if_splits option.splits prod.splits elim!: and_then_cases)

lemma request_with_generation:
  "request_with E c rt g w = (Inr b, w') \<Longrightarrow> generation_of w' = g"
  by (induction E c rt g w rule: request_with.induct)
    (auto simp: request_with.simps dest: exchange_generation split: prod.splits sum.splits exchange.splits if_splits)

text \<open>Property C21. A request belongs to the sign-in it was made under: everything it puts on the
  wire is its own call, sent while that sign-in was current, at most two times (the call and one
  retry with a refreshed token); and an answer is handed to the caller only if the same sign-in is
  still current when the body has been read, however the account changed while it was waiting.\<close>

theorem answer_belongs_to_the_account:
  assumes "request E c w = (r, w')"
  shows "(\<exists>rs. w_wire w' = w_wire w @ rs \<and> length rs \<le> 2
            \<and> list_all (\<lambda>q. wr_call q = c \<and> wr_generation q = generation_of w) rs)
    \<and> (\<forall>body. r = Inr body \<longrightarrow> generation_of w' = generation_of w)"
proof -
  have "sends_only (\<lambda>q. wr_call q = c \<and> wr_generation q = generation_of w) w (snd (request E c w))"
    by (rule sends.request_rel) (simp add: stamped_def)
  moreover have "sent (snd (request E c w)) \<le> sent w + 2"
    unfolding request_def using request_with_sent[of E c None] by simp
  ultimately show ?thesis
    using assms request_with_generation[of E c None "generation_of w" w]
    by (auto simp: sends_only_def sent_def request_def)
qed


definition demo_call :: api_call where
  "demo_call = \<lparr>call_method = GET, call_path = ''/x'', call_payload = No_body, call_timeoutMs = None\<rparr>"

lemmas request_defs = request_def request_with.simps exchange_def on_success_def fetch_def resolveToken_def
  checkAccount_simps rs_ok_def Let_def emit_def

lemma answer_belongs_to_the_account_witness:
  "generation_of (snd (request quiet demo_call (demo_world []))) = generation_of (demo_world [])
   \<and> fst (request quiet demo_call (demo_world [])) = Inr (Some (JObj [(''id'', JStr ''stored'')]))"
proof -
  have run: "fst (request quiet demo_call (demo_world [])) = Inr (Some (JObj [(''id'', JStr ''stored'')]))"
    by (simp add: request_defs answer_def)
  obtain r w' where rw: "request quiet demo_call (demo_world []) = (r, w')" by force
  show ?thesis using answer_belongs_to_the_account[OF rw] run rw by simp
qed

section \<open>Signing out a superseded device\<close>

lemma signOut_frame [simp]:
  "w_signOuts (snd (checkAccount g w)) = w_signOuts w"
  "w_signOuts (snd (resolveToken E w)) = w_signOuts w"
  "w_signOuts (snd (fetch E c token w)) = w_signOuts w"
  "w_signOuts (snd (on_success E g res w)) = w_signOuts w"
  "w_signOuts (snd (refreshed E w)) = w_signOuts w"
  by (auto simp: checkAccount_simps resolveToken_def fetch_def emit_def on_success_def and_then_def Let_def
      refreshed_def split: option.split)

text \<open>A device is signed out only by the answer that it was superseded, and that answer is final.\<close>

definition superseded :: "js_error" where
  "superseded = plainApiError 401 SESSION_SUPERSEDED_MESSAGE"

lemma and_then_signOut:
  assumes "w_signOuts (snd r) = w_signOuts w"
    "\<And>x t. r = (Inr x, t) \<Longrightarrow> w_signOuts (snd (k x t)) = w_signOuts t
        \<or> w_signOuts (snd (k x t)) = Suc (w_signOuts t) \<and> fst (k x t) = Inl superseded"
  shows "w_signOuts (snd (and_then r k)) = w_signOuts w
        \<or> w_signOuts (snd (and_then r k)) = Suc (w_signOuts w) \<and> fst (and_then r k) = Inl superseded"
  using assms by (cases r; cases "fst r") force+

lemma refusal_signOut:
  "w_signOuts (snd (on_refusal E rt g res w)) = w_signOuts w
   \<or> w_signOuts (snd (on_refusal E rt g res w)) = Suc (w_signOuts w)
     \<and> fst (on_refusal E rt g res w) = Inl superseded"
proof -
  have retry: "w_signOuts (snd (case refreshed E u of
        (Some fresh, w4) \<Rightarrow> and_then (checkAccount g w4) (\<lambda>_ w5. (Inr (Retry_with fresh), w5))
      | (None, w4) \<Rightarrow> fail_with E res parsed w4)) = w_signOuts u" for u parsed
    by (cases "refreshed E u")
      (use signOut_frame(5)[of E u] in \<open>auto simp: fail_with_def checkAccount_simps split: option.split\<close>)
  show ?thesis
    unfolding on_refusal_def
    by (intro and_then_signOut)
      (auto simp: retry fail_with_def checkAccount_simps signOutSupersededDevice_def superseded_def plainApiError_def)
qed

lemma exchange_signOut:
  "w_signOuts (snd (exchange E c rt g w)) = w_signOuts w
   \<or> w_signOuts (snd (exchange E c rt g w)) = Suc (w_signOuts w) \<and> fst (exchange E c rt g w) = Inl superseded"
  unfolding exchange_def
  by (intro and_then_signOut) (auto simp: refusal_signOut split: option.split)

lemma request_with_signOut:
  "w_signOuts (snd (request_with E c rt g w)) = w_signOuts w
   \<or> w_signOuts (snd (request_with E c rt g w)) = Suc (w_signOuts w) \<and> fst (request_with E c rt g w) = Inl superseded"
proof (induction E c rt g w rule: request_with.induct)
  case (1 E c rt g w)
  then show ?case
    using exchange_signOut[of E c rt g w] retry_only_once[of E c _ g w]
    by (cases rt) (fastforce simp: request_with.simps[of E c] split: prod.split sum.split exchange.split)+
qed

text \<open>A request signs the phone out only because the server said that another device has
  taken over the account: it does so at most once, the caller then gets that error and no result,
  and an ordinary expired token (any other 401) never signs anybody out.\<close>

theorem only_a_superseded_device_signs_out:
  "w_signOuts (snd (request E c w)) = w_signOuts w
   \<or> w_signOuts (snd (request E c w)) = Suc (w_signOuts w)
     \<and> fst (request E c w) = Inl (plainApiError 401 SESSION_SUPERSEDED_MESSAGE)"
  using request_with_signOut[of E c None] by (simp add: request_def superseded_def)

section \<open>Coded errors\<close>

lemma json_get_object: "json_get k j = Inr (Some v) \<Longrightarrow> \<exists>ps. j = JObj ps \<and> map_of (rev ps) k = Some v"
  by (cases j) auto

lemma code_of_text_iff: "code_of_text s = EVIDENCE_ALREADY_RECORDED \<longleftrightarrow> s = ''EVIDENCE_ALREADY_RECORDED''"
  by (auto simp: code_of_text_def KNOWN_CODES_def split: option.splits if_splits)

text \<open>The one code that lets the app clear a capture is read from exactly one shape of
  answer: a \<open>detail\<close> object whose \<open>code\<close> is that very text. Legacy string details, field errors and
  codes this build does not know never read as it.\<close>

theorem duplicate_code_is_read_exactly:
  "(\<exists>m d. readError E res = Inr (m, Some d) \<and> aed_code d = EVIDENCE_ALREADY_RECORDED) \<longleftrightarrow>
   (\<exists>ps coded. rs_body res = Some (JObj ps) \<and> map_of (rev ps) ''detail'' = Some (JObj coded)
      \<and> map_of (rev coded) ''code'' = Some (JStr ''EVIDENCE_ALREADY_RECORDED''))"
  (is "?lhs \<longleftrightarrow> ?rhs")
proof
  assume ?lhs
  then obtain m d where md: "readError E res = Inr (m, Some d)" "aed_code d = EVIDENCE_ALREADY_RECORDED" by blast
  then show ?rhs
    unfolding readError_def Let_def
    by (auto simp: code_of_text_iff split: option.splits json.splits sum.splits dest!: json_get_object)
next
  assume ?rhs
  then show ?lhs by (auto simp: readError_def code_of_text_iff Let_def)
qed

text \<open>A coded error is the server's answer to the very call that failed.\<close>

definition answers :: "env \<Rightarrow> api_call \<Rightarrow> response \<Rightarrow> bool" where
  "answers E c res \<longleftrightarrow> (\<exists>n r. wr_call r = c \<and> env_fetch E n r = Response res)"

definition coded :: "js_error \<Rightarrow> bool" where
  "coded err \<longleftrightarrow> (\<exists>e. err = ApiErr e \<and> ae_detail e \<noteq> None)"

definition server_said :: "env \<Rightarrow> api_call \<Rightarrow> js_error \<Rightarrow> bool" where
  "server_said E c err \<longleftrightarrow> (\<exists>e res m. err = ApiErr e \<and> answers E c res \<and> rs_status res = ae_status e
     \<and> readError E res = Inr (m, ae_detail e))"

lemma uncoded [simp]: "\<not> coded (plainApiError st m)" "\<not> coded (TypeErr m)" "\<not> coded (OtherErr m)"
  by (auto simp: coded_def plainApiError_def)

lemma readError_uncoded: "readError E res = Inl e \<Longrightarrow> \<not> coded e"
  by (auto simp: readError_def Let_def split: option.splits json.splits sum.splits elim: json_get.elims)

lemma fetch_answer: "fetch E c token w = (Inr res, w') \<Longrightarrow> answers E c res"
  unfolding answers_def
  by (intro exI[of _ "Suc (w_tick w)"] exI[of _ "stamped c (header_token token) w"])
    (auto simp: fetch_def stamped_def emit_def Let_def split: fetch_result.splits)

lemma fetch_uncoded: "fetch E c token w = (Inl e, w') \<Longrightarrow> \<not> coded e"
  by (auto simp: fetch_def Let_def split: fetch_result.splits)

lemma server_saidI:
  "answers E c res \<Longrightarrow> readError E res = Inr parsed \<Longrightarrow> fail_with E res parsed w = (Inl e, w') \<Longrightarrow> server_said E c e"
  unfolding server_said_def fail_with_def
  by (intro exI[of _ "\<lparr>ae_status = rs_status res, ae_message = fst parsed,
     ae_retryAfterMs = retryAfterMilliseconds E (env_ms E (w_tick w)) res, ae_detail = snd parsed\<rparr>"]
     exI[of _ res] exI[of _ "fst parsed"]) auto

lemma refusal_coded:
  assumes "on_refusal E rt g res w = (Inl e, w')" "coded e" "answers E c res"
  shows "server_said E c e"
  using assms unfolding on_refusal_def
  by (auto simp: checkAccount_simps dest: readError_uncoded intro: server_saidI[OF assms(3)]
      split: if_splits option.splits prod.splits elim!: and_then_cases)

lemma success_uncoded: "on_success E g res w = (Inl e, w') \<Longrightarrow> \<not> coded e"
  by (auto simp: on_success_def checkAccount_simps Let_def split: if_splits option.splits elim!: and_then_cases)

lemma exchange_coded:
  assumes "exchange E c rt g w = (Inl e, w')" "coded e"
  shows "server_said E c e"
  using assms unfolding exchange_def
  by (auto simp: checkAccount_simps resolveToken_def Let_def dest: fetch_uncoded
      split: if_splits option.splits sum.splits session_failure.splits elim!: and_then_cases)
    (metis fetch_answer refusal_coded success_uncoded)+

lemma request_coded:
  assumes "request E c w = (Inl e, w')" "coded e"
  shows "server_said E c e"
proof -
  have "request_with E c rt g w = (Inl e, w') \<Longrightarrow> server_said E c e" for rt g w
    using assms(2)
    by (induction E c rt g w rule: request_with.induct)
      (auto simp: request_with.simps dest: exchange_coded split: prod.splits sum.splits exchange.splits if_splits)
  then show ?thesis using assms(1) by (simp add: request_def)
qed

section \<open>A call the server has settled\<close>

text \<open>What the server says by a success, and by the one code that stands for an earlier success.\<close>

definition says_recorded :: "response \<Rightarrow> bool" where
  "says_recorded res \<longleftrightarrow> (\<exists>ps coded. rs_body res = Some (JObj ps) \<and> map_of (rev ps) ''detail'' = Some (JObj coded)
     \<and> map_of (rev coded) ''code'' = Some (JStr ''EVIDENCE_ALREADY_RECORDED''))"

definition server_has :: "env \<Rightarrow> api_call \<Rightarrow> bool" where
  "server_has E c \<longleftrightarrow> (\<exists>res. answers E c res \<and> (rs_ok res \<or> says_recorded res))"

text \<open>The body of a success; a 204 has none.\<close>

definition success_body :: "response \<Rightarrow> json option \<Rightarrow> bool" where
  "success_body res b \<longleftrightarrow> rs_ok res \<and> b = (if rs_status res = 204 then None else rs_body res)"

lemma on_success_body: "on_success E g res w = (Inr (Finished b), w') \<Longrightarrow> rs_ok res \<Longrightarrow> success_body res b"
  by (auto simp: on_success_def success_body_def checkAccount_simps Let_def split: if_splits option.splits elim!: and_then_cases)

lemma exchange_accepted:
  "exchange E call rt g w = (Inr (Finished b), w') \<Longrightarrow> \<exists>res. answers E call res \<and> success_body res b"
  unfolding exchange_def on_refusal_def Let_def
  by (auto simp: checkAccount_simps fail_with_def split: if_splits option.splits prod.splits elim!: and_then_cases)
    (metis fetch_answer on_success_body)+

lemma request_accepted:
  assumes "request E call w = (Inr b, w')"
  shows "\<exists>res. answers E call res \<and> success_body res b"
proof -
  have "request_with E call rt g w = (Inr b, w') \<Longrightarrow> \<exists>res. answers E call res \<and> success_body res b" for rt g w
    by (induction E call rt g w rule: request_with.induct)
      (auto simp: request_with.simps dest: exchange_accepted split: prod.splits sum.splits exchange.splits if_splits)
  then show ?thesis using assms by (simp add: request_def)
qed

lemma request_has: "request E c w = (Inr b, w') \<Longrightarrow> server_has E c"
  using request_accepted unfolding server_has_def success_body_def by blast

lemma proven_coded: "proven_duplicate e \<Longrightarrow> coded e"
  by (auto simp: proven_duplicate_def coded_def ae_code_def)

lemma said_recorded:
  assumes "server_said E c err" "proven_duplicate err"
  shows "server_has E c"
proof -
  obtain e res m where e: "err = ApiErr e" "answers E c res" "readError E res = Inr (m, ae_detail e)"
    using assms(1) by (auto simp: server_said_def)
  obtain d where "ae_detail e = Some d" "aed_code d = EVIDENCE_ALREADY_RECORDED"
    using assms(2) e(1) by (auto simp: proven_duplicate_def ae_code_def)
  then have "says_recorded res" using e(3) duplicate_code_is_read_exactly[of E res] by (auto simp: says_recorded_def)
  then show ?thesis using e(2) by (auto simp: server_has_def)
qed

lemma request_recorded: "request E c w = (Inl err, w') \<Longrightarrow> proven_duplicate err \<Longrightarrow> server_has E c"
  using request_coded proven_coded said_recorded by blast

end
