(* ===== verification/Submit.thy ===== *)
theory Submit
  imports ApiClient
begin

text \<open>
  The writes a capture turns into: photo uploads (\<open>lib/api/artifacts.ts\<close>), the phase completion
  (\<open>lib/api/phases.ts\<close>), checkpoints, location batches and incident reports, and
  \<open>sendEntry\<close> of \<open>lib/hooks/useOfflineQueue.ts\<close>, which replays a queued capture through them.

  An upload captures the sign-in at its call. Two uploads that the code starts together are
  modelled one after the other, both with the sign-in of the moment they were started.
\<close>

section \<open>Artifacts\<close>

record artifact_upload =
  up_tripId :: string
  up_artifactType :: artifact_type
  up_dataUrl :: "string field"
  up_capturedAt :: iso
  up_capturedLat :: "number option"
  up_capturedLng :: "number option"
  up_attribution :: "artifact_attribution option"
  up_custodySequence :: "int option"

definition MAX_ARTIFACT_UPLOAD_BYTES :: nat where
  "MAX_ARTIFACT_UPLOAD_BYTES = 10 * 1024 * 1024"

definition ARTIFACT_UPLOAD_TIMEOUT_MS :: int where
  "ARTIFACT_UPLOAD_TIMEOUT_MS = 30000"

definition TOO_LARGE :: js_error where
  "TOO_LARGE = plainApiError 413 ''Photo is too large to upload. Retake it.''"

fun artifact_type_text :: "artifact_type \<Rightarrow> string" where
  "artifact_type_text Photo = ''photo''"
| "artifact_type_text Document = ''document''"

definition fileExtension :: "blob \<Rightarrow> string" where
  "fileExtension b = (if blob_type b = ''application/pdf'' then ''pdf'' else ''jpg'')"

text \<open>\<open>artifactFormData\<close>, with the generation captured when it was called.\<close>

definition artifactFormData :: "env \<Rightarrow> nat \<Rightarrow> artifact_upload \<Rightarrow> world \<Rightarrow> (js_error + artifact_form) \<times> world" where
  "artifactFormData E g upload w = (let w1 = await E w in
     and_then (case env_decode E (w_tick w1) (up_dataUrl upload) of
         Inl m \<Rightarrow> Inl (TypeErr m) | Inr blob \<Rightarrow> Inr blob, w1) (\<lambda>blob w2.
     and_then (assert_generation g w2) (\<lambda>_ w3.
       if MAX_ARTIFACT_UPLOAD_BYTES < length (blob_bytes blob) then (Inl TOO_LARGE, w3)
       else (Inr \<lparr>af_artifact_type = up_artifactType upload, af_captured_at = up_capturedAt upload,
               af_captured_lat = up_capturedLat upload, af_captured_lng = up_capturedLng upload,
               af_file = blob,
               af_fileName = artifact_type_text (up_artifactType upload) @ ''.'' @ fileExtension blob,
               af_trip_id = None, af_attribution = None, af_custody_sequence = None,
               af_client_request_id = None, af_role = None\<rparr>, w3))))"

text \<open>The id of an answer, as the response schema promises it.\<close>

definition artifact_id :: "json option \<Rightarrow> js_error + string" where
  "artifact_id body = (case body of
       None \<Rightarrow> Inl (TypeErr ''Cannot read properties of undefined'')
     | Some j \<Rightarrow> (case json_get ''id'' j of
         Inl e \<Rightarrow> Inl e
       | Inr (Some (JStr i)) \<Rightarrow> Inr i
       | Inr _ \<Rightarrow> Inl (TypeErr ''artifact without an id'')))"

definition uploadArtifact :: "env \<Rightarrow> nat \<Rightarrow> artifact_upload \<Rightarrow> world \<Rightarrow> (js_error + string) \<times> world" where
  "uploadArtifact E g params w =
     and_then (artifactFormData E g params w) (\<lambda>form w1.
     and_then (assert_generation g w1) (\<lambda>_ w2.
     and_then (api_post E ''/api/v1/artifacts''
         (Form (form\<lparr>af_trip_id := Some (up_tripId params), af_attribution := up_attribution params,
                     af_custody_sequence := up_custodySequence params\<rparr>))
         (Some ARTIFACT_UPLOAD_TIMEOUT_MS) w2) (\<lambda>body w3. (artifact_id body, w3))))"

section \<open>Phases\<close>

definition PHASE_SUBMIT_TIMEOUT_MS :: int where
  "PHASE_SUBMIT_TIMEOUT_MS = 30000"

definition LOCATION_PREVIEW_TIMEOUT_MS :: int where
  "LOCATION_PREVIEW_TIMEOUT_MS = 5000"

definition trip_path :: "string \<Rightarrow> string \<Rightarrow> string" where
  "trip_path tripId rest = ''/api/v1/trips/'' @ tripId @ rest"

definition previewPhaseLocation :: "env \<Rightarrow> string \<Rightarrow> string \<Rightarrow> driver_position \<Rightarrow> iso \<Rightarrow> world
    \<Rightarrow> (js_error + json option) \<times> world" where
  "previewPhaseLocation E tripId phaseEventId capture capturedAt w =
     api_post E (trip_path tripId (''/phases/'' @ phaseEventId @ ''/location-preview''))
       (Location_preview (pos_lat capture) (pos_lng capture) capturedAt (pos_accuracyM capture))
       (Some LOCATION_PREVIEW_TIMEOUT_MS) w"

definition completePhase :: "env \<Rightarrow> string \<Rightarrow> string \<Rightarrow> phase_complete_request \<Rightarrow> world
    \<Rightarrow> (js_error + json option) \<times> world" where
  "completePhase E tripId phaseEventId rq w =
     api_post E (trip_path tripId (''/phases/'' @ phaseEventId @ ''/complete'')) (Phase_complete rq)
       (Some PHASE_SUBMIT_TIMEOUT_MS) w"

definition RECEIPT_MISSING :: js_error where
  "RECEIPT_MISSING = OtherErr ''Artifact receipt missing; phase completion is unconfirmed.''"

definition artifactIdFor :: "env \<Rightarrow> artifact_request \<Rightarrow> int option \<Rightarrow> world \<Rightarrow> (js_error + string field) \<times> world" where
  "artifactIdFor E rq custodySequence w =
     (if ar_readyId rq \<noteq> Null then (Inr (ar_readyId rq), w)
      else attempt
        (uploadArtifact E (generation_of w)
           \<lparr>up_tripId = ar_tripId rq, up_artifactType = ar_artifactType rq,
            up_dataUrl = ar_dataUrl rq, up_capturedAt = ar_capturedAt rq,
            up_capturedLat = None, up_capturedLng = None,
            up_attribution = Some (ar_attribution rq), up_custodySequence = custodySequence\<rparr> w)
        (\<lambda>err w1. case err of
            ApiErr e \<Rightarrow>
              if ae_code e = Some EVIDENCE_ALREADY_RECORDED
              then (case Option.bind (ae_detail e) aed_evidenceId of
                      Some i \<Rightarrow> if i = [] then (Inl RECEIPT_MISSING, w1) else (Inr (Val i), w1)
                    | None \<Rightarrow> (Inl RECEIPT_MISSING, w1))
              else (Inl err, w1)
          | _ \<Rightarrow> (Inl err, w1))
        (\<lambda>i w1. (Inr (Val i), w1)))"

record submit_phase_result =
  sp_ok :: bool
  sp_trip :: "json option"
  sp_phaseStatus :: "json option"

text \<open>\<open>phases.find(p => p.phase_event_id === id)\<close>\<close>

fun find_phase :: "string \<Rightarrow> json list \<Rightarrow> js_error + json option" where
  "find_phase i [] = Inr None"
| "find_phase i (p # ps) = (case json_get ''phase_event_id'' p of
     Inl e \<Rightarrow> Inl e
   | Inr v \<Rightarrow> if v = Some (JStr i) then Inr (Some p) else find_phase i ps)"

text \<open>The status of the addressed phase in the returned trip (\<open>?? null\<close>).\<close>

definition phase_status_in :: "string \<Rightarrow> json option \<Rightarrow> js_error + json option" where
  "phase_status_in phaseEventId body = (case body of
       None \<Rightarrow> Inl (TypeErr ''Cannot read properties of undefined'')
     | Some trip \<Rightarrow> (case json_get ''phases'' trip of
         Inl e \<Rightarrow> Inl e
       | Inr (Some (JArr ps)) \<Rightarrow> (case find_phase phaseEventId ps of
           Inl e \<Rightarrow> Inl e
         | Inr None \<Rightarrow> Inr None
         | Inr (Some p) \<Rightarrow> (case json_get ''status'' p of
             Inl e \<Rightarrow> Inl e | Inr (Some JNull) \<Rightarrow> Inr None | Inr st \<Rightarrow> Inr st))
       | Inr _ \<Rightarrow> Inl (TypeErr ''phases.find is not a function'')))"

definition phase_resolver :: "env \<Rightarrow> nat \<Rightarrow> int option \<Rightarrow> world resolver" where
  "phase_resolver E g custodySequence artifact w =
     and_then (assert_generation g w) (\<lambda>_ w1. artifactIdFor E artifact custodySequence w1)"

definition submitPhase :: "env \<Rightarrow> phase_request_input \<Rightarrow> int option \<Rightarrow> world
    \<Rightarrow> (js_error + submit_phase_result) \<times> world" where
  "submitPhase E inp custodySequence w = (let g = generation_of w in
     if env_demo E then (Inr \<lparr>sp_ok = True, sp_trip = None, sp_phaseStatus = Some (JStr ''completed'')\<rparr>, await E w)
     else and_then (buildPhaseCompleteRequest (now_of E w) inp (phase_resolver E g custodySequence) w) (\<lambda>rq w1.
     and_then (assert_generation g w1) (\<lambda>_ w2.
     and_then (completePhase E (in_tripId inp) (in_phaseEventId inp) (rq\<lparr>rq_custody_sequence := custodySequence\<rparr>) w2)
       (\<lambda>body w3. case phase_status_in (in_phaseEventId inp) body of
          Inl e \<Rightarrow> (Inl e, w3)
        | Inr st \<Rightarrow> (Inr \<lparr>sp_ok = True, sp_trip = body, sp_phaseStatus = st\<rparr>, w3)))))"

section \<open>Checkpoints, locations, incident reports\<close>

definition logCheckpoint :: "env \<Rightarrow> string \<Rightarrow> log_checkpoint_body \<Rightarrow> world \<Rightarrow> (js_error + json option) \<times> world" where
  "logCheckpoint E tripId body w = api_post E (trip_path tripId ''/checkpoints'') (Log_checkpoint body) None w"

definition checkpoint_upload :: "string \<Rightarrow> checkpoint_evidence \<Rightarrow> string \<Rightarrow> int option \<Rightarrow> artifact_upload" where
  "checkpoint_upload tripId evidence dataUrl custodySequence =
     \<lparr>up_tripId = tripId, up_artifactType = Photo, up_dataUrl = Val dataUrl,
      up_capturedAt = cp_capturedAt evidence, up_capturedLat = None, up_capturedLng = None,
      up_attribution = None, up_custodySequence = custodySequence\<rparr>"

definition submitCheckpoint :: "env \<Rightarrow> string \<Rightarrow> checkpoint_evidence \<Rightarrow> world \<Rightarrow> (js_error + json option) \<times> world" where
  "submitCheckpoint E tripId evidence w = (let g = generation_of w in
     if env_demo E then (Inr None, await E w)
     else let custodySequence = coalesce (cp_custodySequence evidence) in
     and_then (both
         (uploadArtifact E g (checkpoint_upload tripId evidence (cp_cargoPhotoDataUrl evidence) custodySequence))
         (\<lambda>w. case coalesce (cp_selfieDataUrl evidence) of
            None \<Rightarrow> (Inr None, w)
          | Some selfie \<Rightarrow> and_then (uploadArtifact E g (checkpoint_upload tripId evidence selfie custodySequence) w)
              (\<lambda>i w'. (Inr (Some i), w'))) w)
       (\<lambda>(cargo, selfie) w1. and_then (assert_generation g w1) (\<lambda>_ w2.
          logCheckpoint E tripId
            ((checkpointRequestBody evidence \<lparr>cargoPhotoId = cargo, selfieId = selfie\<rparr>)
               \<lparr>lcb_custody_sequence := custodySequence\<rparr>) w2)))"

definition recordLocations :: "env \<Rightarrow> string \<Rightarrow> location_ping list \<Rightarrow> int option \<Rightarrow> world
    \<Rightarrow> (js_error + json option) \<times> world" where
  "recordLocations E tripId pings custodySequence w =
     api_post E (trip_path tripId ''/locations'') (Record_locations pings custodySequence) None w"

definition raiseException :: "env \<Rightarrow> string \<Rightarrow> raise_exception_body \<Rightarrow> world \<Rightarrow> (js_error + json option) \<times> world" where
  "raiseException E tripId body w = api_post E (trip_path tripId ''/exceptions'') (Raise_exception body) None w"

section \<open>Replaying a queued capture\<close>

definition phase_input :: "string \<Rightarrow> phase_capture \<Rightarrow> phase_request_input" where
  "phase_input tripId c = \<lparr>in_tripId = tripId, in_phaseEventId = pc_phaseEventId c, in_phaseType = pc_phaseType c,
     in_evidence = pc_evidence c, in_idempotencyKey = pc_idempotencyKey c, in_position = pc_position c,
     in_driverCapturedAt = pc_driverCapturedAt c, in_acknowledgement = pc_acknowledgement c\<rparr>"

definition sendEntry :: "env \<Rightarrow> sendable_entry \<Rightarrow> world \<Rightarrow> (js_error + unit) \<times> world" where
  "sendEntry E entry w = (let custodySequence = coalesce (se_custodySequence entry) in
     case se_body entry of
       Phase_capture c \<Rightarrow>
         and_then (submitPhase E (phase_input (se_tripId entry) c) custodySequence w) (\<lambda>_ w'. (Inr (), w'))
     | Checkpoint_capture evidence \<Rightarrow>
         and_then (submitCheckpoint E (se_tripId entry) (evidence\<lparr>cp_custodySequence := nullable custodySequence\<rparr>) w)
           (\<lambda>_ w'. (Inr (), w'))
     | Location_capture pings \<Rightarrow>
         and_then (recordLocations E (se_tripId entry) pings custodySequence w) (\<lambda>_ w'. (Inr (), w')))"


section \<open>What the writes put on the wire\<close>

definition upload_call :: "string \<Rightarrow> artifact_attribution option \<Rightarrow> int option \<Rightarrow> artifact_form \<Rightarrow> api_call" where
  "upload_call tripId attribution custodySequence form =
     \<lparr>call_method = POST, call_path = ''/api/v1/artifacts'',
      call_payload = Form (form\<lparr>af_trip_id := Some tripId, af_attribution := attribution,
                     af_custody_sequence := custodySequence\<rparr>),
      call_timeoutMs = Some ARTIFACT_UPLOAD_TIMEOUT_MS\<rparr>"

definition complete_call :: "string \<Rightarrow> string \<Rightarrow> phase_complete_request \<Rightarrow> api_call" where
  "complete_call tripId phaseEventId rq =
     \<lparr>call_method = POST, call_path = trip_path tripId (''/phases/'' @ phaseEventId @ ''/complete''),
      call_payload = Phase_complete rq, call_timeoutMs = Some PHASE_SUBMIT_TIMEOUT_MS\<rparr>"

text \<open>
  The calls that belong to a capture: its own trip, its own custody period, its own identity and instants. A
  photo of a phase is filed in one of the phase's own slots and dated as its draft was (by the clock only when the
  draft has no date); the photos of a checkpoint are dated as the checkpoint.
\<close>

definition text_in :: "string field \<Rightarrow> string option" where
  "text_in f = (case f of Val s \<Rightarrow> if s = [] then None else Some s | _ \<Rightarrow> None)"

definition call_of_entry :: "sendable_entry \<Rightarrow> api_call \<Rightarrow> bool" where
  "call_of_entry e c = (let s = coalesce (se_custodySequence e); t = se_tripId e in
     (case call_payload c of
        Form f \<Rightarrow> call_path c = ''/api/v1/artifacts'' \<and> af_trip_id f = Some t \<and> af_custody_sequence f = s
          \<and> af_client_request_id f = None \<and> af_role f = None
          \<and> (case se_body e of
               Phase_capture p \<Rightarrow> (\<exists>a. af_attribution f = Some a \<and> attr_phaseEventId a = pc_phaseEventId p
                   \<and> attr_role a \<in> set (EVIDENCE_ROLES (pc_phaseType p)))
                 \<and> (\<forall>d. ev_capturedAt (pc_evidence p) = Val d \<longrightarrow> af_captured_at f = d)
             | Checkpoint_capture ev \<Rightarrow> af_attribution f = None \<and> af_captured_at f = cp_capturedAt ev
             | Location_capture _ \<Rightarrow> False)
      | Phase_complete rq \<Rightarrow> (case se_body e of
          Phase_capture p \<Rightarrow> call_path c = trip_path t (''/phases/'' @ pc_phaseEventId p @ ''/complete'')
             \<and> rq_phase_type rq = pc_phaseType p
             \<and> rq_idempotency_key rq = pc_idempotencyKey p \<and> rq_driver_captured_at rq = pc_driverCapturedAt p
             \<and> rq_driver_phone_lat rq = map_option pos_lat (pc_position p)
             \<and> rq_driver_phone_lng rq = map_option pos_lng (pc_position p)
             \<and> rq_acknowledged_at rq = map_option acknowledgedAt (pc_acknowledgement p)
             \<and> rq_custody_sequence rq = s
        | _ \<Rightarrow> False)
      | Log_checkpoint b \<Rightarrow> (case se_body e of
          Checkpoint_capture ev \<Rightarrow> call_path c = trip_path t ''/checkpoints'' \<and> lcb_custody_sequence b = s
             \<and> lcb_client_report_id b = text_in (cp_clientReportId ev) \<and> lcb_phase_event_id b = text_in (cp_phaseEventId ev)
             \<and> lcb_driver_captured_at b = cp_capturedAt ev \<and> lcb_is_deviation b = cp_isDeviation ev
        | _ \<Rightarrow> False)
      | Record_locations pings q \<Rightarrow> (case se_body e of
          Location_capture ps \<Rightarrow> call_path c = trip_path t ''/locations'' \<and> pings = ps \<and> q = s
        | _ \<Rightarrow> False)
      | _ \<Rightarrow> False))"

text \<open>What a form carries over from the upload it is made of.\<close>

definition form_for :: "artifact_type \<Rightarrow> iso \<Rightarrow> artifact_form \<Rightarrow> bool" where
  "form_for ty capturedAt form \<longleftrightarrow> af_artifact_type form = ty \<and> af_captured_at form = capturedAt
     \<and> af_client_request_id form = None \<and> af_role form = None"

lemma artifactFormData_form:
  "artifactFormData E g upload w = (Inr form, w') \<Longrightarrow> form_for (up_artifactType upload) (up_capturedAt upload) form"
  by (auto simp: artifactFormData_def form_for_def Let_def elim!: and_then_cases split: sum.splits if_splits)

lemma text_in_truthy: "if_truthy f = text_in f"
  by (cases f) (auto simp: if_truthy_def text_in_def)

text \<open>
  The interface of a write: under one sign-in \<open>g\<close>, every call that is \<open>ok\<close> is allowed to leave.
  What each write sends is proved once here.
\<close>

locale write_rel = world_rel R E allowed
  for R :: "world \<Rightarrow> world \<Rightarrow> bool" and E :: env and allowed :: "wire_request \<Rightarrow> bool" +
  fixes g :: nat and ok :: "api_call \<Rightarrow> bool"
  assumes ok_allowed: "generation_of w = g \<Longrightarrow> ok c \<Longrightarrow> allowed (stamped c token w)"
begin

lemma assert_generation_returns: "assert_generation g w = (Inr u, w') \<Longrightarrow> w' = w \<and> generation_of w = g"
  by (auto simp: assert_generation_simps split: if_splits)

lemma post_rel:
  assumes "generation_of w = g" "ok \<lparr>call_method = POST, call_path = p, call_payload = b, call_timeoutMs = t\<rparr>"
  shows "R w (snd (api_post E p b t w))"
  unfolding api_post_def by (rule request_rel) (use assms ok_allowed in auto)

lemma form_rel: "R w (snd (artifactFormData E g upload w))"
  unfolding artifactFormData_def Let_def
  by (rule rel_trans[OF await_rel], intro and_then_rel)
    (auto simp: rel_refl assert_rel)

lemma upload_rel:
  assumes "\<And>form. form_for (up_artifactType params) (up_capturedAt params) form \<Longrightarrow>
      ok (upload_call (up_tripId params) (up_attribution params) (up_custodySequence params) form)"
  shows "R w (snd (uploadArtifact E g params w))"
  unfolding uploadArtifact_def
proof (intro and_then_rel, goal_cases)
  case (3 form t u v)
  then show ?case
    using assms[OF artifactFormData_form[OF 3(1)]] assert_generation_returns[of t] unfolding upload_call_def
    by (auto intro!: post_rel)
qed (auto simp: form_rel assert_rel rel_refl)

lemma artifactIdFor_rel:
  assumes "\<And>form. form_for (ar_artifactType rq) (ar_capturedAt rq) form \<Longrightarrow>
      ok (upload_call (ar_tripId rq) (Some (ar_attribution rq)) custodySequence form)" "generation_of w = g"
  shows "R w (snd (artifactIdFor E rq custodySequence w))"
proof (cases "ar_readyId rq \<noteq> Null")
  case True
  then show ?thesis by (simp add: artifactIdFor_def rel_refl)
next
  case False
  let ?up = "\<lparr>up_tripId = ar_tripId rq, up_artifactType = ar_artifactType rq, up_dataUrl = ar_dataUrl rq,
      up_capturedAt = ar_capturedAt rq, up_capturedLat = None, up_capturedLng = None,
      up_attribution = Some (ar_attribution rq), up_custodySequence = custodySequence\<rparr>"
  have "R w (snd (uploadArtifact E g ?up w))" using assms(1) by (intro upload_rel) simp
  then show ?thesis
    using False assms(2) unfolding artifactIdFor_def
    by (auto intro!: attempt_rel simp: rel_refl split: js_error.split option.split)
qed

lemma resolver_rel:
  assumes "\<And>form r. attributed inp r \<Longrightarrow> form_for (ar_artifactType r) (ar_capturedAt r) form \<Longrightarrow>
      ok (upload_call (ar_tripId r) (Some (ar_attribution r)) custodySequence form)"
  shows "artifact_resolver R (phase_resolver E g custodySequence) inp"
proof unfold_locales
  fix r s
  assume "attributed inp r"
  then show "R s (snd (phase_resolver E g custodySequence r s))"
    unfolding phase_resolver_def
    by (intro and_then_rel artifactIdFor_rel assms) (auto simp: assert_rel dest: assert_generation_returns)
qed

lemma submitPhase_rel:
  assumes "\<And>form r. attributed inp r \<Longrightarrow> form_for (ar_artifactType r) (ar_capturedAt r) form \<Longrightarrow>
      ok (upload_call (ar_tripId r) (Some (ar_attribution r)) custodySequence form)"
    "\<And>b. ok (complete_call (in_tripId inp) (in_phaseEventId inp) ((requestOf inp b)\<lparr>rq_custody_sequence := custodySequence\<rparr>))"
    "generation_of w = g"
  shows "R w (snd (submitPhase E inp custodySequence w))"
proof (cases "env_demo E")
  case True
  then show ?thesis by (simp add: submitPhase_def Let_def await_rel)
next
  case False
  have "R w (snd (and_then (buildPhaseCompleteRequest (now_of E w) inp (phase_resolver E g custodySequence) w) (\<lambda>rq w1.
     and_then (assert_generation g w1) (\<lambda>_ w2.
     and_then (completePhase E (in_tripId inp) (in_phaseEventId inp) (rq\<lparr>rq_custody_sequence := custodySequence\<rparr>) w2)
       (\<lambda>body w3. case phase_status_in (in_phaseEventId inp) body of
          Inl e \<Rightarrow> (Inl e, w3)
        | Inr st \<Rightarrow> (Inr \<lparr>sp_ok = True, sp_trip = body, sp_phaseStatus = st\<rparr>, w3))))))"
  proof (intro and_then_rel, goal_cases)
    case 1
    then show ?case by (rule artifact_resolver.build_rel[OF resolver_rel]) (rule assms(1))
  next
    case (3 rq t u v)
    from 3(1) obtain b where "rq = requestOf inp b" by (blast dest: build_is_requestOf)
    then show ?case
      using 3 assms(2)[of b] assert_generation_returns[of t]
      unfolding completePhase_def complete_call_def by (auto intro!: post_rel)
  qed (auto simp: assert_rel rel_refl split: sum.split)
  then show ?thesis using False assms(3) by (simp add: submitPhase_def Let_def)
qed

lemma both_rel:
  assumes "\<And>s. R s (snd (f s))" "\<And>s. R s (snd (h s))"
  shows "R s (snd (both f h s))"
  using rel_trans[OF assms(1)[of s] assms(2)[of "snd (f s)"]]
  by (auto simp: both_def Let_def split: prod.splits)

lemma submitCheckpoint_rel:
  assumes "\<And>form. form_for Photo (cp_capturedAt evidence) form \<Longrightarrow>
      ok (upload_call tripId None (coalesce (cp_custodySequence evidence)) form)"
    "\<And>b ids. b = (checkpointRequestBody evidence ids)\<lparr>lcb_custody_sequence := coalesce (cp_custodySequence evidence)\<rparr> \<Longrightarrow>
        ok \<lparr>call_method = POST, call_path = trip_path tripId ''/checkpoints'', call_payload = Log_checkpoint b,
            call_timeoutMs = None\<rparr>"
    "generation_of w = g"
  shows "R w (snd (submitCheckpoint E tripId evidence w))"
proof (cases "env_demo E")
  case True
  then show ?thesis by (simp add: submitCheckpoint_def Let_def await_rel)
next
  case False
  let ?seq = "coalesce (cp_custodySequence evidence)"
  have up: "R u (snd (uploadArtifact E g (checkpoint_upload tripId evidence url ?seq) u))" for url u
    by (rule upload_rel) (simp add: checkpoint_upload_def assms(1))
  have sf: "R u (snd (case coalesce (cp_selfieDataUrl evidence) of None \<Rightarrow> (Inr None, u)
     | Some selfie \<Rightarrow> and_then (uploadArtifact E g (checkpoint_upload tripId evidence selfie ?seq) u)
          (\<lambda>i w'. (Inr (Some i), w'))))" for u
    by (auto simp: rel_refl intro!: and_then_rel up split: option.split)
  have "R w (snd (and_then (both
         (uploadArtifact E g (checkpoint_upload tripId evidence (cp_cargoPhotoDataUrl evidence) ?seq))
         (\<lambda>w. case coalesce (cp_selfieDataUrl evidence) of
            None \<Rightarrow> (Inr None, w)
          | Some selfie \<Rightarrow> and_then (uploadArtifact E g (checkpoint_upload tripId evidence selfie ?seq) w)
              (\<lambda>i w'. (Inr (Some i), w'))) w)
       (\<lambda>(cargo, selfie) w1. and_then (assert_generation g w1) (\<lambda>_ w2.
          logCheckpoint E tripId
            ((checkpointRequestBody evidence \<lparr>cargoPhotoId = cargo, selfieId = selfie\<rparr>)
               \<lparr>lcb_custody_sequence := ?seq\<rparr>) w2))))"
  proof (rule and_then_rel[OF both_rel[OF up sf]], clarify)
    fix cargo selfie t
    show "R t (snd (and_then (assert_generation g t) (\<lambda>_ w2. logCheckpoint E tripId
            ((checkpointRequestBody evidence \<lparr>cargoPhotoId = cargo, selfieId = selfie\<rparr>)
               \<lparr>lcb_custody_sequence := ?seq\<rparr>) w2)))"
      unfolding logCheckpoint_def
      by (rule and_then_rel[OF assert_rel], rule post_rel)
        (auto dest!: assert_generation_returns intro: assms(2))
  qed
  then show ?thesis using False assms(3) by (simp add: submitCheckpoint_def Let_def)
qed

lemma recordLocations_rel:
  assumes "ok \<lparr>call_method = POST, call_path = trip_path tripId ''/locations'',
      call_payload = Record_locations pings s, call_timeoutMs = None\<rparr>" "generation_of w = g"
  shows "R w (snd (recordLocations E tripId pings s w))"
  unfolding recordLocations_def by (rule post_rel) (use assms in auto)

lemma raiseException_rel:
  assumes "ok \<lparr>call_method = POST, call_path = trip_path tripId ''/exceptions'',
      call_payload = Raise_exception b, call_timeoutMs = None\<rparr>" "generation_of w = g"
  shows "R w (snd (raiseException E tripId b w))"
  unfolding raiseException_def by (rule post_rel) (use assms in auto)

lemma sendEntry_rel:
  assumes "\<And>c. call_of_entry e c \<Longrightarrow> ok c" "generation_of w = g"
  shows "R w (snd (sendEntry E e w))"
proof -
  have "R w (snd (submitPhase E (phase_input (se_tripId e) p) (coalesce (se_custodySequence e)) w))"
    if "se_body e = Phase_capture p" for p
    by (rule submitPhase_rel) (use that assms(2) in \<open>auto intro!: assms(1)
      simp: call_of_entry_def upload_call_def complete_call_def attributed_def dated_as_def form_for_def phase_input_def Let_def\<close>)
  moreover have "R w (snd (submitCheckpoint E (se_tripId e)
      (ev\<lparr>cp_custodySequence := nullable (coalesce (se_custodySequence e))\<rparr>) w))"
    if "se_body e = Checkpoint_capture ev" for ev
    by (rule submitCheckpoint_rel) (use that assms(2) in \<open>auto intro!: assms(1)
      simp: call_of_entry_def upload_call_def checkpointRequestBody_def form_for_def text_in_truthy Let_def\<close>)
  moreover have "R w (snd (recordLocations E (se_tripId e) ps (coalesce (se_custodySequence e)) w))"
    if "se_body e = Location_capture ps" for ps
    by (rule recordLocations_rel) (use that assms(2) in \<open>auto intro!: assms(1) simp: call_of_entry_def Let_def\<close>)
  ultimately show ?thesis
    unfolding sendEntry_def Let_def
    by (cases "se_body e") (auto intro!: and_then_rel simp: rel_refl)
qed

end

section \<open>A queued capture is filed for itself\<close>

definition sent_for :: "sendable_entry \<Rightarrow> nat \<Rightarrow> wire_request \<Rightarrow> bool" where
  "sent_for e g r \<longleftrightarrow> wr_generation r = g \<and> call_of_entry e (wr_call r)"

interpretation entry_writes: write_rel "sends_only (sent_for e g)" E "sent_for e g" g "call_of_entry e"
  for e :: sendable_entry and g :: nat and E :: env
  by unfold_locales (simp add: sent_for_def stamped_def)

lemma sendEntry_sends:
  "sends_only (sent_for e (generation_of w)) w (snd (sendEntry E e w))"
  by (rule entry_writes.sendEntry_rel) auto

text \<open>A write touches nothing that is stored.\<close>

interpretation guarded_writes: write_rel "guarded E Q" E "\<lambda>_. True" g "\<lambda>_. True"
  for E :: env and Q :: "local_storage \<Rightarrow> exception_db \<Rightarrow> bool" and g :: nat
  by unfold_locales simp

lemma sendEntry_guarded: "guarded E Q w (snd (sendEntry E e w))"
  by (rule guarded_writes.sendEntry_rel[where g = "generation_of w"]) auto


section \<open>A phase is a proven duplicate only if its own endpoint says so\<close>

text \<open>Where an error of the body builder comes from.\<close>

lemma optional_error:
  "optionalLinehaulPdfId resolve r s = (Inl e, t) \<Longrightarrow> \<exists>r s t. resolve r s = (Inl e, t)"
  by (auto simp: optionalLinehaulPdfId_def attempt_def split: prod.splits sum.splits if_splits)

lemma both_error:
  "both f h s = (Inl e, t) \<Longrightarrow> (\<exists>s t. f s = (Inl e, t)) \<or> (\<exists>s t. h s = (Inl e, t))"
  by (auto simp: both_def Let_def split: prod.splits sum.splits)

lemma build_error:
  assumes "buildPhaseCompleteRequest now inp resolve s = (Inl e, t)"
  shows "(\<exists>r s t. resolve r s = (Inl e, t)) \<or> (\<exists>m. e = OtherErr m)"
  using assms
  by (auto simp: build_defs Let_def split: phase_type.splits option.splits if_splits elim!: and_then_cases
      dest!: optional_error both_error)

lemma assert_uncoded: "assert_generation g w = (Inl e, w') \<Longrightarrow> \<not> coded e"
  by (auto simp: assert_generation_simps split: if_splits)

lemma artifactIdFor_not_duplicate:
  assumes "artifactIdFor E rq s w = (Inl e, w')"
  shows "\<not> proven_duplicate e"
  using assms unfolding artifactIdFor_def RECEIPT_MISSING_def
  by (auto simp: proven_duplicate_def attempt_def split: if_splits prod.splits sum.splits js_error.splits option.splits)

lemma resolver_not_duplicate:
  "phase_resolver E g s r w = (Inl e, w') \<Longrightarrow> \<not> proven_duplicate e"
  by (auto simp: phase_resolver_def elim!: and_then_cases dest: assert_uncoded proven_coded artifactIdFor_not_duplicate)

lemma phase_status_uncoded: "phase_status_in i body = Inl e \<Longrightarrow> \<not> coded e"
proof -
  have jg: "json_get k j = Inl e \<Longrightarrow> \<not> coded e" for k j by (cases j) auto
  have "find_phase i ps = Inl e \<Longrightarrow> \<not> coded e" for ps
    by (induction ps) (auto split: sum.splits if_splits dest: jg)
  then show "phase_status_in i body = Inl e \<Longrightarrow> \<not> coded e"
    by (auto simp: phase_status_in_def split: option.splits sum.splits json.splits dest: jg)
qed

lemma submitPhase_duplicate:
  assumes "submitPhase E inp q w = (Inl e, w')" "proven_duplicate e"
  shows "\<exists>b. server_said E (complete_call (in_tripId inp) (in_phaseEventId inp)
      ((requestOf inp b)\<lparr>rq_custody_sequence := q\<rparr>)) e"
proof -
  have post: "server_said E (complete_call (in_tripId inp) (in_phaseEventId inp) (rq\<lparr>rq_custody_sequence := q\<rparr>)) e"
    if "completePhase E (in_tripId inp) (in_phaseEventId inp) (rq\<lparr>rq_custody_sequence := q\<rparr>) u = (Inl e, v)" for rq u v
    using that proven_coded[OF assms(2)] unfolding completePhase_def complete_call_def api_post_def
    by (rule request_coded)
  show ?thesis
    using assms proven_coded[OF assms(2)] unfolding submitPhase_def Let_def
    by (auto split: if_splits sum.splits elim!: and_then_cases
        dest!: build_error build_is_requestOf assert_uncoded phase_status_uncoded
        dest: resolver_not_duplicate post)
qed

text \<open>A queued phase counts as already recorded only if the server answered with that code
  to the completion of this very phase, under the key of this very capture; an upload that the
  server already holds never clears the submission it belongs to.\<close>

theorem phase_cleared_only_by_its_endpoint:
  assumes "sendEntry E e w = (Inl err, w')" "se_body e = Phase_capture p"
    "classifyLiveWriteFailure now err = Duplicate x"
  shows "\<exists>rq res m d. rq_idempotency_key rq = pc_idempotencyKey p
      \<and> rq_custody_sequence rq = coalesce (se_custodySequence e)
      \<and> answers E (complete_call (se_tripId e) (pc_phaseEventId p) rq) res
      \<and> readError E res = Inr (m, Some d) \<and> aed_code d = EVIDENCE_ALREADY_RECORDED"
proof -
  have dup: "proven_duplicate err" using assms(3) classify_duplicate_iff by blast
  have "submitPhase E (phase_input (se_tripId e) p) (coalesce (se_custodySequence e)) w = (Inl err, w')"
    using assms(1,2) by (auto simp: sendEntry_def Let_def elim!: and_then_cases)
  from submitPhase_duplicate[OF this dup] obtain b where
    "server_said E (complete_call (se_tripId e) (pc_phaseEventId p)
      ((requestOf (phase_input (se_tripId e) p) b)\<lparr>rq_custody_sequence := coalesce (se_custodySequence e)\<rparr>)) err"
    by (auto simp: phase_input_def)
  moreover obtain ae d where "err = ApiErr ae" "ae_detail ae = Some d" "aed_code d = EVIDENCE_ALREADY_RECORDED"
    using dup by (auto simp: proven_duplicate_def ae_code_def)
  ultimately show ?thesis
    unfolding server_said_def
    by (intro exI[of _ "(requestOf (phase_input (se_tripId e) p) b)\<lparr>rq_custody_sequence := coalesce (se_custodySequence e)\<rparr>"])
      (auto simp: phase_input_def)
qed

text \<open>An in-transit phase without photos, and a server that has it already.\<close>

definition demo_capture :: phase_capture where
  "demo_capture = \<lparr>pc_phaseEventId = ''P'', pc_phaseType = In_transit, pc_evidence = emptyEvidence,
     pc_idempotencyKey = ''K'', pc_position = None, pc_driverCapturedAt = ''swipe'', pc_acknowledgement = None\<rparr>"

definition demo_phase_entry :: "string \<Rightarrow> sendable_entry" where
  "demo_phase_entry i = \<lparr>se_id = i, se_tripId = ''T'', se_actorId = Val ''A'', se_custodySequence = Val 1,
     se_status = Some Pending, se_attention = Null, se_enqueuedAt = ''swipe'', se_body = Phase_capture demo_capture\<rparr>"

definition already_recorded :: env where
  "already_recorded = quiet\<lparr>env_fetch := (\<lambda>_ _. answer 409 (JObj [(''detail'', JObj
     [(''code'', JStr ''EVIDENCE_ALREADY_RECORDED''), (''message'', JStr ''recorded'')])]))\<rparr>"

lemmas submit_defs = sendEntry_def submitPhase_def phase_input_def buildPhaseCompleteRequest_def completePhase_def
  api_post_def request_def request_with.simps exchange_def on_success_def on_refusal_def fail_with_def fetch_def
  resolveToken_def checkAccount_simps assert_generation_simps rs_ok_def emit_def

definition recorded_error :: js_error where
  "recorded_error = ApiErr \<lparr>ae_status = 409, ae_message = ''recorded'', ae_retryAfterMs = None,
     ae_detail = Some \<lparr>aed_code = EVIDENCE_ALREADY_RECORDED, aed_requestId = None, aed_currentVersion = None,
       aed_evidenceId = None\<rparr>\<rparr>"

lemma demo_recorded:
  "fst (sendEntry already_recorded (demo_phase_entry ''e'') (demo_world [])) = Inl recorded_error"
  by (simp add: submit_defs demo_phase_entry_def demo_capture_def already_recorded_def answer_def Let_def
      readError_def code_of_text_def KNOWN_CODES_def retryAfterMilliseconds_def SESSION_SUPERSEDED_MESSAGE_def
      recorded_error_def emptyEvidence_def)

lemma phase_cleared_only_by_its_endpoint_witness:
  "\<exists>rq res. rq_idempotency_key rq = ''K''
      \<and> answers already_recorded (complete_call ''T'' ''P'' rq) res"
proof -
  obtain w' where run: "sendEntry already_recorded (demo_phase_entry ''e'') (demo_world []) = (Inl recorded_error, w')"
    using demo_recorded by (cases "sendEntry already_recorded (demo_phase_entry ''e'') (demo_world [])") auto
  have "classifyLiveWriteFailure ''now'' recorded_error = Duplicate None"
    by (simp add: recorded_error_def ae_code_def)
  from phase_cleared_only_by_its_endpoint[OF run _ this, of demo_capture] show ?thesis
    by (auto simp: demo_phase_entry_def demo_capture_def)
qed

lemma demo_recorded_wire:
  "length (w_wire (snd (sendEntry already_recorded (demo_phase_entry ''e'') (demo_world [])))) = 1"
  "w_wire (demo_world []) = []" "generation_of (demo_world []) = 0"
  by (simp_all add: submit_defs demo_phase_entry_def demo_capture_def already_recorded_def answer_def Let_def
      readError_def code_of_text_def KNOWN_CODES_def retryAfterMilliseconds_def SESSION_SUPERSEDED_MESSAGE_def
      emptyEvidence_def demo_world_def initialModule_def actorGeneration_def)


end
