(* ===== verification/ExceptionSync.thy ===== *)
theory ExceptionSync
  imports Submit
begin

text \<open>
  Sending an incident report (\<open>lib/offline/exception-sync.ts\<close>): every photo is uploaded once and its
  id recorded before the next one, the report is posted with the complete ordered list of ids, and
  the stored copy goes only after the server's answer. \<open>post\<close> is the caller's request.
\<close>

section \<open>Outcomes\<close>

datatype send_outcome =
  Acknowledged
| Transient_outcome "number option"
| Rejected string "string option" int retained_attention
| Busy
| Not_yours

definition MISSING_BYTES_REASON :: string where
  "MISSING_BYTES_REASON = ''photo bytes missing''"
definition PHOTO_NOT_STORED :: string where
  "PHOTO_NOT_STORED = ''The photo could not be stored on the server.''"
definition COULD_NOT_READ :: string where
  "COULD_NOT_READ = ''Could not read photo''"

datatype failure_kind =
  Failed_transient "number option"
| Failed_duplicate
| Failed_rejected string int retained_attention

definition classify_failure :: "iso \<Rightarrow> js_error \<Rightarrow> failure_kind" where
  "classify_failure now err = (case classifyLiveWriteFailure now err of
       Transient d \<Rightarrow> Failed_transient d
     | Duplicate _ \<Rightarrow> Failed_duplicate
     | Retain a \<Rightarrow> Failed_rejected (att_reason a) (att_status a) a)"

text \<open>A transaction whose failure the code only logs.\<close>

definition transact_quietly :: "env \<Rightarrow> (iso \<Rightarrow> exception_db \<Rightarrow> exception_db) \<Rightarrow> world \<Rightarrow> world" where
  "transact_quietly E work w = snd (transact E (\<lambda>now db. ((), work now db)) w)"

definition markAttention :: "env \<Rightarrow> exception_envelope \<Rightarrow> bool \<Rightarrow> string \<Rightarrow> string option \<Rightarrow> retained_attention option
    \<Rightarrow> world \<Rightarrow> world" where
  "markAttention E envelope durable reason photoId attn w =
     (if \<not> durable then w
      else transact_quietly E (\<lambda>now. markExceptionNeedsAttention now (env_clientReportId envelope) reason photoId attn) w)"

section \<open>The photos\<close>

text \<open>\<open>memory.set(photo, artifact)\<close> in the map of this report.\<close>

definition remember_id :: "string \<Rightarrow> string \<Rightarrow> string \<Rightarrow> world \<Rightarrow> world" where
  "remember_id report photo artifact w =
     w\<lparr>w_volatile := (w_volatile w)(report \<mapsto>
        ((case w_volatile w report of None \<Rightarrow> Map.empty | Some m \<Rightarrow> m)(photo \<mapsto> artifact)))\<rparr>"

definition photo_upload :: "exception_envelope \<Rightarrow> exception_photo \<Rightarrow> blob \<Rightarrow> artifact_upload" where
  "photo_upload envelope item blob =
     \<lparr>up_tripId = env_tripId envelope, up_artifactType = Photo, up_dataUrl = Val (blobToDataUrl blob),
      up_capturedAt = photo_capturedAt item, up_capturedLat = None, up_capturedLng = None,
      up_attribution = None, up_custodySequence = reb_custody_sequence (env_body envelope)\<rparr>"

text \<open>What is done about a photo that could not be uploaded.\<close>

definition photo_failed :: "env \<Rightarrow> exception_envelope \<Rightarrow> bool \<Rightarrow> exception_photo \<Rightarrow> js_error \<Rightarrow> world \<Rightarrow> send_outcome \<times> world" where
  "photo_failed E envelope durable item err w = (case classify_failure (now_of E w) err of
       Failed_transient d \<Rightarrow> (Transient_outcome d, w)
     | other \<Rightarrow>
        let attn = (case other of Failed_rejected _ _ a \<Rightarrow> a
                      | _ \<Rightarrow> retainedAttention (now_of E w) None 0 PHOTO_NOT_STORED)
        in (Rejected (att_reason attn) (Some (photo_id item)) (att_status attn) attn,
            markAttention E envelope durable (att_reason attn) (Some (photo_id item)) (Some attn) w))"

definition upload_photo :: "env \<Rightarrow> exception_envelope \<Rightarrow> bool \<Rightarrow> actor_lease \<Rightarrow> exception_photo \<Rightarrow> world
    \<Rightarrow> (send_outcome + string) \<times> world" where
  "upload_photo E envelope durable lease item w = (case photo_blob item of
       None \<Rightarrow>
         let attn = retainedAttention (now_of E w) None 0 MISSING_BYTES_REASON
         in (Inl (Rejected MISSING_BYTES_REASON (Some (photo_id item)) 0 attn),
             markAttention E envelope durable MISSING_BYTES_REASON (Some (photo_id item)) (Some attn) w)
     | Some blob \<Rightarrow>
         let w1 = await E w in
         if \<not> env_readable E (w_tick w1)
         then (case photo_failed E envelope durable item (OtherErr COULD_NOT_READ) w1 of (r, w2) \<Rightarrow> (Inl r, w2))
         else if \<not> isActorLeaseCurrent lease (w_custody w1) then (Inl Not_yours, w1)
         else attempt (uploadArtifact E (generation_of w1) (photo_upload envelope item blob) w1)
           (\<lambda>err w2. case photo_failed E envelope durable item err w2 of (r, w3) \<Rightarrow> (Inl r, w3))
           (\<lambda>artifact w2.
              let w3 = remember_id (env_clientReportId envelope) (photo_id item) artifact w2
              in (Inr artifact,
                  if durable
                  then transact_quietly E (\<lambda>now. recordPhotoUploaded now (env_clientReportId envelope) (photo_id item) artifact) w3
                  else w3)))"

text \<open>The loop over the photos, with the ids known so far; it ends early with an outcome.\<close>

fun upload_photos :: "env \<Rightarrow> exception_envelope \<Rightarrow> bool \<Rightarrow> actor_lease \<Rightarrow> (exception_photo \<times> string option) list \<Rightarrow> world
    \<Rightarrow> (send_outcome + string list) \<times> world" where
  "upload_photos E envelope durable lease [] w = (Inr [], w)"
| "upload_photos E envelope durable lease ((item, known) # rest) w =
     (if \<not> isActorLeaseCurrent lease (w_custody w) then (Inl Not_yours, w)
      else and_then (case known of Some i \<Rightarrow> (Inr i, w) | None \<Rightarrow> upload_photo E envelope durable lease item w)
        (\<lambda>i w1. and_then (upload_photos E envelope durable lease rest w1) (\<lambda>is w2. (Inr (i # is), w2))))"

section \<open>The report\<close>

type_synonym post_request = "string list \<Rightarrow> world \<Rightarrow> (js_error + json option) \<times> world"

definition finish_report :: "env \<Rightarrow> exception_envelope \<Rightarrow> bool \<Rightarrow> world \<Rightarrow> send_outcome \<times> world" where
  "finish_report E envelope durable w =
     (let w1 = w\<lparr>w_volatile := (w_volatile w)(env_clientReportId envelope := None)\<rparr>
      in (Acknowledged,
          if durable then transact_quietly E (\<lambda>_. removeExceptionEnvelope (env_clientReportId envelope)) w1 else w1))"

definition post_report :: "env \<Rightarrow> exception_envelope \<Rightarrow> bool \<Rightarrow> actor_lease \<Rightarrow> post_request \<Rightarrow> string list \<Rightarrow> world
    \<Rightarrow> send_outcome \<times> world" where
  "post_report E envelope durable lease post ids w =
     (if \<not> isActorLeaseCurrent lease (w_custody w) then (Not_yours, w)
      else attempt (post ids w)
        (\<lambda>err w1. case classify_failure (now_of E w1) err of
            Failed_transient d \<Rightarrow> (Transient_outcome d, w1)
          | Failed_rejected reason status attn \<Rightarrow>
              (Rejected reason None status attn, markAttention E envelope durable reason None (Some attn) w1)
          | Failed_duplicate \<Rightarrow> finish_report E envelope durable w1)
        (\<lambda>_ w1. finish_report E envelope durable w1))"

text \<open>The ids already known: recorded on the photo, or remembered in this session.\<close>

definition known_ids :: "exception_envelope \<Rightarrow> (string \<rightharpoonup> string) \<Rightarrow> (exception_photo \<times> string option) list" where
  "known_ids envelope memory = map (\<lambda>p. (p, case photo_uploadedArtifactId p of
       Some i \<Rightarrow> Some i | None \<Rightarrow> memory (photo_id p))) (env_photos envelope)"

definition run :: "env \<Rightarrow> exception_envelope \<Rightarrow> bool \<Rightarrow> post_request \<Rightarrow> world \<Rightarrow> send_outcome \<times> world" where
  "run E envelope durable post w = (case captureActorLease (w_custody w) of
       None \<Rightarrow> (Not_yours, w)
     | Some lease \<Rightarrow>
         if env_status envelope = Quarantined \<or> env_actorId envelope \<noteq> Val (lease_actorId lease) then (Not_yours, w)
         else let report = env_clientReportId envelope;
                  memory = (case w_volatile w report of None \<Rightarrow> Map.empty | Some m \<Rightarrow> m);
                  w1 = w\<lparr>w_volatile := (w_volatile w)(report \<mapsto> memory)\<rparr>
              in (case upload_photos E envelope durable lease (known_ids envelope memory) w1 of
                    (Inl outcome, w2) \<Rightarrow> (outcome, w2)
                  | (Inr ids, w2) \<Rightarrow> post_report E envelope durable lease post ids w2))"

definition take_lock :: "string \<Rightarrow> world \<Rightarrow> bool \<times> world" where
  "take_lock i w = (case tryReportLock i (w_locks w) of (got, l) \<Rightarrow> (got, w\<lparr>w_locks := l\<rparr>))"

definition drop_lock :: "string \<Rightarrow> world \<Rightarrow> world" where
  "drop_lock i w = w\<lparr>w_locks := snd (releaseReportLock i (w_locks w))\<rparr>"

definition sendExceptionReport :: "env \<Rightarrow> exception_envelope \<Rightarrow> bool \<Rightarrow> bool \<Rightarrow> post_request \<Rightarrow> world \<Rightarrow> send_outcome \<times> world" where
  "sendExceptionReport E envelope durable lockHeld post w =
     (if lockHeld then run E envelope durable post w
      else (case take_lock (env_clientReportId envelope) w of
          (False, w1) \<Rightarrow> (Busy, w1)
        | (True, w1) \<Rightarrow> (case run E envelope durable post w1 of
            (outcome, w2) \<Rightarrow> (outcome, drop_lock (env_clientReportId envelope) w2))))"

section \<open>What the sender respects\<close>

text \<open>The relations the sender needs: besides requests, it marks, records and removes its own report.\<close>

locale report_rel = write_rel R E allowed g ok
  for R :: "world \<Rightarrow> world \<Rightarrow> bool" and E :: env and allowed :: "wire_request \<Rightarrow> bool"
    and g :: nat and ok :: "api_call \<Rightarrow> bool" +
  fixes report :: string
  assumes mark_rel: "R w (transact_quietly E (\<lambda>now. markExceptionNeedsAttention now report reason p attn) w)"
    and record_rel: "R w (transact_quietly E (\<lambda>now. recordPhotoUploaded now report q a) w)"
begin

lemma markAttention_rel:
  "env_clientReportId envelope = report \<Longrightarrow> R w (markAttention E envelope durable reason p attn w)"
  by (simp add: markAttention_def rel_refl mark_rel)

lemma photo_failed_rel:
  "env_clientReportId envelope = report \<Longrightarrow> R w (snd (photo_failed E envelope durable item err w))"
  by (auto simp: photo_failed_def Let_def rel_refl markAttention_rel split: failure_kind.split)

lemma upload_photo_rel:
  assumes "\<And>form. ok (upload_call (env_tripId envelope) None (reb_custody_sequence (env_body envelope)) form)"
    "lease_generation lease = g" "env_clientReportId envelope = report"
  shows "R w (snd (upload_photo E envelope durable lease item w))"
proof (cases "photo_blob item")
  case None
  then show ?thesis by (simp add: upload_photo_def Let_def markAttention_rel assms(3))
next
  case (Some blob)
  let ?w = "await E w"
  have failed: "R u (snd (case photo_failed E envelope durable item err u of (r, w2) \<Rightarrow> (Inl r, w2)))" for err u
    using photo_failed_rel[OF assms(3), of u durable item err]
    by (cases "photo_failed E envelope durable item err u") simp
  have up: "R ?w (snd (uploadArtifact E (generation_of ?w) (photo_upload envelope item blob) ?w))"
    if "isActorLeaseCurrent lease (w_custody ?w)"
  proof -
    have "generation_of ?w = g"
      using that assms(2) by (simp add: isActorLeaseCurrent_def actorGeneration_def)
    then show ?thesis using assms(1) by (simp only:) (rule upload_rel, simp add: photo_upload_def)
  qed
  have "R ?w (snd (upload_photo E envelope durable lease item w))"
    using Some failed up unfolding upload_photo_def remember_id_def
    by (auto simp: Let_def rel_refl intro!: attempt_rel volatile_rel rel_trans[OF volatile_rel record_rel] assms(3)[symmetric]
        simp: assms(3))
  then show ?thesis by (rule rel_trans[OF await_rel])
qed

lemma upload_photos_rel:
  assumes "\<And>form. ok (upload_call (env_tripId envelope) None (reb_custody_sequence (env_body envelope)) form)"
    "lease_generation lease = g" "env_clientReportId envelope = report"
  shows "R w (snd (upload_photos E envelope durable lease items w))"
proof (induction items arbitrary: w)
  case (Cons x items)
  obtain item known where x: "x = (item, known)" by force
  show ?case
    using Cons upload_photo_rel[OF assms] unfolding x
    by (auto simp: rel_refl intro!: and_then_rel split: option.split)
qed (simp add: rel_refl)

end

section \<open>A report is sent by its capturer, for itself\<close>

text \<open>The body with the complete list of photo ids (\<open>reportRequestBody\<close>), and the request posting it.\<close>

definition reportRequestBody :: "exception_envelope \<Rightarrow> string list \<Rightarrow> raise_exception_body" where
  "reportRequestBody envelope ids = withPhotoIds (env_body envelope) ids"

definition report_post :: "env \<Rightarrow> exception_envelope \<Rightarrow> post_request" where
  "report_post E envelope ids = raiseException E (env_tripId envelope) (reportRequestBody envelope ids)"

definition call_of_report :: "exception_envelope \<Rightarrow> api_call \<Rightarrow> bool" where
  "call_of_report e c = (case call_payload c of
       Form f \<Rightarrow> af_trip_id f = Some (env_tripId e) \<and> af_custody_sequence f = reb_custody_sequence (env_body e)
     | Raise_exception b \<Rightarrow> call_path c = trip_path (env_tripId e) ''/exceptions'' \<and> (\<exists>ids. b = reportRequestBody e ids)
     | _ \<Rightarrow> False)"

definition sent_for_report :: "exception_envelope \<Rightarrow> nat \<Rightarrow> wire_request \<Rightarrow> bool" where
  "sent_for_report e g r \<longleftrightarrow> wr_generation r = g \<and> call_of_report e (wr_call r)"

lemma quietly_wire [simp]: "w_wire (transact_quietly E work w) = w_wire w"
  by (simp add: transact_quietly_def)

interpretation report_writes: report_rel "sends_only (sent_for_report e g)" E "sent_for_report e g" g "call_of_report e" i
  for e :: exception_envelope and g :: nat and E :: env and i :: string
  by unfold_locales (auto simp: sent_for_report_def stamped_def sends_only_def)

lemma quietly_guarded:
  "(\<And>now ls db. Q ls db \<Longrightarrow> Q ls (work now db)) \<Longrightarrow> guarded E Q w (transact_quietly E work w)"
  unfolding transact_quietly_def by (rule transact_guarded) simp

text \<open>A stored report: the store is well formed and has it.\<close>

definition report_kept :: "string \<Rightarrow> local_storage \<Rightarrow> exception_db \<Rightarrow> bool" where
  "report_kept r ls db \<longleftrightarrow> store_ok db \<and> getExceptionEnvelope r db \<noteq> None"

lemma mark_kept: "report_kept r ls db \<Longrightarrow> report_kept r ls (markExceptionNeedsAttention now i reason p attn db)"
  by (auto simp: report_kept_def get_mark)

lemma record_kept: "report_kept r ls db \<Longrightarrow> report_kept r ls (recordPhotoUploaded now i p a db)"
  by (auto simp: report_kept_def get_upload)

interpretation kept_report: report_rel "guarded E (report_kept r)" E "\<lambda>_. True" g "\<lambda>_. True" i
  for E :: env and r :: string and g :: nat and i :: string
  by unfold_locales (auto intro!: quietly_guarded mark_kept record_kept)

text \<open>Both at once, for whatever relation the sender respects.\<close>

context report_rel begin

lemma run_rel:
  assumes "\<And>form. ok (upload_call (env_tripId envelope) None (reb_custody_sequence (env_body envelope)) form)"
    and "env_clientReportId envelope = report" "generation_of w = g"
    and post: "\<And>ids w. generation_of w = g \<Longrightarrow> R w (snd (post ids w))"
    and last: "\<And>w. durable \<Longrightarrow> fst (run E envelope durable post w') = Acknowledged \<Longrightarrow>
        R w (transact_quietly E (\<lambda>_. removeExceptionEnvelope report) w)"
    and w: "w = w'"
  shows "R w (snd (run E envelope durable post w))"
proof (cases "captureActorLease (w_custody w)")
  case None
  then show ?thesis by (simp add: run_def rel_refl)
next
  case (Some lease)
  then have lg: "lease_generation lease = g"
    using assms(3) by (auto simp: captureActorLease_def actorGeneration_def split: option.splits)
  show ?thesis
  proof (cases "env_status envelope = Quarantined \<or> env_actorId envelope \<noteq> Val (lease_actorId lease)")
    case True
    then show ?thesis using Some by (simp add: run_def rel_refl)
  next
    case False
    let ?memory = "case w_volatile w report of None \<Rightarrow> Map.empty | Some m \<Rightarrow> m"
    let ?w = "w\<lparr>w_volatile := (w_volatile w)(report \<mapsto> ?memory)\<rparr>"
    obtain x w2 where up: "upload_photos E envelope durable lease (known_ids envelope ?memory) ?w = (x, w2)" by force
    have R2: "R w w2"
      using rel_trans[OF volatile_rel upload_photos_rel[OF assms(1) lg assms(2)]]
      by (metis up snd_conv)
    show ?thesis
    proof (cases x)
      case (Inl outcome)
      then show ?thesis using Some False up R2 assms(2) by (simp add: run_def Let_def)
    next
      case (Inr ids)
      have eq: "run E envelope durable post w = post_report E envelope durable lease post ids w2"
        using Some False up Inr assms(2) by (simp add: run_def Let_def)
      have fin: "R u (snd (finish_report E envelope durable u))"
        if "fst (run E envelope durable post w) = Acknowledged" for u
      proof (cases durable)
        case True
        then show ?thesis
          using rel_trans[OF volatile_rel last] that w assms(2) by (simp add: finish_report_def Let_def)
      qed (simp add: finish_report_def Let_def volatile_rel)
      have ack: "fst (finish_report E envelope durable u) = Acknowledged" for u
        by (simp add: finish_report_def Let_def)
      have "R w2 (snd (post_report E envelope durable lease post ids w2))"
      proof (cases "isActorLeaseCurrent lease (w_custody w2)")
        case True
        then have "generation_of w2 = g" using lg by (simp add: isActorLeaseCurrent_def actorGeneration_def)
        from post[OF this] have p: "R w2 (snd (post ids w2))" .
        obtain y u where pu: "post ids w2 = (y, u)" by force
        show ?thesis
        proof (cases y)
          case (Inl err)
          then show ?thesis
            using True pu p fin ack markAttention_rel[OF assms(2)] unfolding eq
            by (auto simp: post_report_def intro: rel_trans split: failure_kind.splits)
        next
          case (Inr b)
          then show ?thesis using True pu p fin ack unfolding eq
            by (auto simp: post_report_def intro: rel_trans)
        qed
      qed (simp add: post_report_def rel_refl)
      then show ?thesis unfolding eq by (rule rel_trans[OF R2])
    qed
  qed
qed

end

lemma post_of_report_sends:
  "generation_of w = g \<Longrightarrow> sends_only (sent_for_report e g) w (snd (report_post E e ids w))"
  unfolding report_post_def
  by (rule report_writes.raiseException_rel) (auto simp: call_of_report_def)

lemma run_not_yours:
  "\<not> (\<exists>lease. captureActorLease (w_custody w) = Some lease \<and> env_status e \<noteq> Quarantined
        \<and> env_actorId e = Val (lease_actorId lease)) \<Longrightarrow> run E e durable post w = (Not_yours, w)"
  by (auto simp: run_def split: option.split)

text \<open>Sending a stored report makes requests only under the sign-in it started with, only
  for the report's own trip and its stored custody period and with its own body; and it makes none
  at all unless the signed-in driver is the one who captured it and it is not quarantined.\<close>

theorem report_sent_only_by_its_capturer:
  "\<exists>rs. w_wire (snd (run E e durable (report_post E e) w)) = w_wire w @ rs
     \<and> (\<forall>r\<in>set rs. wr_generation r = generation_of w \<and> call_of_report e (wr_call r))
     \<and> (rs \<noteq> [] \<longrightarrow> env_status e \<noteq> Quarantined \<and> (\<exists>a. currentActorId (w_custody w) = Some a \<and> env_actorId e = Val a))"
proof (cases "\<exists>lease. captureActorLease (w_custody w) = Some lease \<and> env_status e \<noteq> Quarantined
        \<and> env_actorId e = Val (lease_actorId lease)")
  case True
  have "sends_only (sent_for_report e (generation_of w)) w (snd (run E e durable (report_post E e) w))"
    by (rule report_writes.run_rel[where w' = w and i = "env_clientReportId e"])
      (auto simp: call_of_report_def upload_call_def post_of_report_sends sends_only_def[of _ _ "transact_quietly E x y" for x y])
  then show ?thesis
    using True by (auto simp: sends_only_def sent_for_report_def list_all_iff captureActorLease_def
        currentActorId_def split: option.splits)
next
  case False
  then show ?thesis by (simp add: run_not_yours)
qed

lemma report_sent_only_by_its_capturer_witness:
  "w_wire (snd (run quiet (demo_report ''r'' (Val ''B'') None) True
      (report_post quiet (demo_report ''r'' (Val ''B'') None)) (demo_world []))) = []"
proof -
  let ?e = "demo_report ''r'' (Val ''B'') None" and ?w = "demo_world []"
  have actor: "currentActorId (w_custody ?w) = Some ''A''" and start: "w_wire ?w = []"
    by (simp_all add: demo_world_def currentActorId_def)
  obtain rs where rs: "w_wire (snd (run quiet ?e True (report_post quiet ?e) ?w)) = w_wire ?w @ rs"
    "rs \<noteq> [] \<longrightarrow> env_status ?e \<noteq> Quarantined \<and> (\<exists>a. currentActorId (w_custody ?w) = Some a \<and> env_actorId ?e = Val a)"
    using report_sent_only_by_its_capturer[of quiet ?e True ?w] by blast
  have "rs = []" using rs(2) actor by (cases rs) (simp_all add: demo_report_def)
  then show ?thesis using rs(1) start by simp
qed

section \<open>Acknowledged means complete\<close>

lemma upload_photos_outcome:
  "upload_photos E e durable lease items w = (Inl outcome, w') \<Longrightarrow> outcome \<noteq> Acknowledged"
proof (induction items arbitrary: w)
  case (Cons x items)
  have photo: "fst (photo_failed E e durable item err u) \<noteq> Acknowledged" for item err u
    by (simp add: photo_failed_def Let_def split: failure_kind.split)
  have "fst (upload_photo E e durable lease item u) \<noteq> Inl Acknowledged" for item u
    using photo by (auto simp: upload_photo_def attempt_def Let_def split: option.split prod.split sum.split) (metis fst_conv)+
  then have up: "upload_photo E e durable lease item u = (Inl out, v) \<Longrightarrow> out \<noteq> Acknowledged" for item u out v
    by (metis fst_conv)
  obtain item known where x: "x = (item, known)" by force
  show ?case
    using Cons.prems Cons.IH unfolding x
    by (auto split: if_splits option.splits elim!: and_then_cases dest: up)
qed simp

lemma upload_photos_known:
  assumes "upload_photos E e durable lease items w = (Inr ids, w')"
  shows "length ids = length items \<and> (\<forall>k<length items. \<forall>i. snd (items ! k) = Some i \<longrightarrow> ids ! k = i)"
  using assms
proof (induction items arbitrary: w ids w')
  case (Cons x items)
  obtain item known where x: "x = (item, known)" by force
  from Cons.prems obtain i w1 rest where
    h: "(case known of Some i \<Rightarrow> (Inr i, w) | None \<Rightarrow> upload_photo E e durable lease item w) = (Inr i, w1)"
    and t: "upload_photos E e durable lease items w1 = (Inr rest, w')" "ids = i # rest"
    unfolding x by (auto split: if_splits elim!: and_then_cases)
  show ?case
    using Cons.IH[OF t(1)] h t(2) unfolding x
    by (auto simp: nth_Cons split: nat.split option.splits)
qed simp

text \<open>A report counts as acknowledged only when it was posted with the id of every one of
  its photos, in their order and with the ids already on record reused, and the server accepted
  that post or answered that it has this report already.\<close>

theorem acknowledged_report_is_complete:
  assumes "run E e durable post w = (Acknowledged, w')"
  shows "\<exists>ids u v. length ids = length (env_photos e)
    \<and> (\<forall>k<length ids. \<forall>i. photo_uploadedArtifactId (env_photos e ! k) = Some i \<longrightarrow> ids ! k = i)
    \<and> ((\<exists>body. post ids u = (Inr body, v)) \<or> (\<exists>err. post ids u = (Inl err, v) \<and> proven_duplicate err))"
proof -
  obtain lease memory w1 ids w2 where
    up: "upload_photos E e durable lease (known_ids e memory) w1 = (Inr ids, w2)"
    and pr: "post_report E e durable lease post ids w2 = (Acknowledged, w')"
    using assms unfolding run_def Let_def
    by (auto split: option.splits if_splits prod.splits sum.splits dest: upload_photos_outcome)
  have len: "length ids = length (env_photos e)"
    and reuse: "photo_uploadedArtifactId (env_photos e ! k) = Some i \<Longrightarrow> k < length ids \<Longrightarrow> ids ! k = i" for k i
    using upload_photos_known[OF up] by (auto simp: known_ids_def)
  obtain x v where pv: "post ids w2 = (x, v)" by force
  have "(\<exists>body. x = Inr body) \<or> (\<exists>err. x = Inl err \<and> proven_duplicate err)"
  proof (cases x)
    case (Inl err)
    then have "classify_failure (now_of E v) err = Failed_duplicate"
      using pr pv by (auto simp: post_report_def split: if_splits failure_kind.splits)
    then show ?thesis
      using Inl classify_duplicate_iff[of "now_of E v" err]
      by (auto simp: classify_failure_def split: live_write_failure.splits)
  qed simp
  then show ?thesis using len reuse pv by (intro exI[of _ ids] exI[of _ w2] exI[of _ v]) auto
qed

definition demo_signed_report :: exception_envelope where
  "demo_signed_report = (demo_report ''r'' (Val ''A'') (Some ''art''))\<lparr>env_photos := [demo_photo (Some ''art'')]\<rparr>"

lemma demo_run_acknowledged:
  "fst (run quiet demo_signed_report False (report_post quiet demo_signed_report) (demo_world [])) = Acknowledged"
  by (simp add: run_def captureActorLease_def demo_world_def demo_signed_report_def demo_defs known_ids_def Let_def
      isActorLeaseCurrent_def post_report_def finish_report_def report_post_def raiseException_def api_post_def
      request_defs initialModule_def answer_def actorGeneration_def)

lemma acknowledged_report_is_complete_witness:
  "\<exists>ids. length ids = 1 \<and> ids ! 0 = ''art''"
proof -
  let ?e = demo_signed_report
  obtain w' where run: "run quiet ?e False (report_post quiet ?e) (demo_world []) = (Acknowledged, w')"
    using demo_run_acknowledged by (cases "run quiet ?e False (report_post quiet ?e) (demo_world [])") auto
  show ?thesis
    using acknowledged_report_is_complete[OF run]
    by (auto simp: demo_signed_report_def demo_defs)
qed

section \<open>A report stays until the server has it\<close>

text \<open>A stored report with the content it was captured with; uploads may have been recorded on its photos.\<close>

definition same_report :: "exception_envelope \<Rightarrow> exception_envelope \<Rightarrow> bool" where
  "same_report x x' \<longleftrightarrow> env_tripId x' = env_tripId x \<and> env_actorId x' = env_actorId x \<and> env_body x' = env_body x
     \<and> env_createdAt x' = env_createdAt x
     \<and> list_all2 (\<lambda>p p'. p' = p \<or> (\<exists>a. p' = p\<lparr>photo_uploadedArtifactId := Some a\<rparr>)) (env_photos x) (env_photos x')"

definition report_held :: "exception_envelope \<Rightarrow> local_storage \<Rightarrow> exception_db \<Rightarrow> bool" where
  "report_held x ls db \<longleftrightarrow> store_ok db
     \<and> (\<exists>x'. getExceptionEnvelope (env_clientReportId x) db = Some x' \<and> same_report x x')"

lemma same_report_refl: "same_report x x"
  by (simp add: same_report_def list_all2_refl)

lemma same_report_changed:
  assumes "same_report x y"
  shows "same_report x (with_attention reason q attn now y)" "same_report x (with_upload p a now y)"
proof -
  show "same_report x (with_attention reason q attn now y)" using assms by (simp add: same_report_def with_attention_def)
  have "list_all2 (\<lambda>r r'. r' = r \<or> (\<exists>a. r' = r\<lparr>photo_uploadedArtifactId := Some a\<rparr>)) ps (map (set_upload p a) qs)"
    if "list_all2 (\<lambda>r r'. r' = r \<or> (\<exists>a. r' = r\<lparr>photo_uploadedArtifactId := Some a\<rparr>)) ps qs" for ps qs
    using that by (induction rule: list_all2_induct) (auto simp: set_upload_def)
  then show "same_report x (with_upload p a now y)" using assms by (auto simp: same_report_def with_upload_def)
qed

lemma mark_held: "report_held x ls db \<Longrightarrow> report_held x ls (markExceptionNeedsAttention now i reason p attn db)"
  by (auto simp: report_held_def get_mark same_report_changed)

lemma record_held: "report_held x ls db \<Longrightarrow> report_held x ls (recordPhotoUploaded now i p a db)"
  by (auto simp: report_held_def get_upload same_report_changed)

interpretation held_report: report_rel "guarded E (report_held x)" E "\<lambda>_. True" g "\<lambda>_. True" i
  for E :: env and x :: exception_envelope and g :: nat and i :: string
  by unfold_locales (auto intro!: quietly_guarded mark_held record_held)

text \<open>The call that posts a report with the ids of its photos.\<close>

definition report_call :: "exception_envelope \<Rightarrow> string list \<Rightarrow> api_call" where
  "report_call e ids = \<lparr>call_method = POST, call_path = trip_path (env_tripId e) ''/exceptions'',
     call_payload = Raise_exception (reportRequestBody e ids), call_timeoutMs = None\<rparr>"

lemma report_post_request: "report_post E e ids w = request E (report_call e ids) w"
  by (simp add: report_post_def raiseException_def api_post_def report_call_def)

text \<open>Property C7. A stored report goes from the phone only when the server has it: sending a report leaves
  every stored report in place with its content, unless it is the report that was sent, and the server answered
  the very request that posts it, with one artifact id for each of its photos and the ids on record reused, by a
  success or by the code that says it was recorded before. This holds whatever the network, the session,
  the database and the photo uploads did, as long as nobody else deletes the report.\<close>

theorem report_kept_unless_acknowledged:
  assumes "run E e durable (report_post E e) w = (outcome, w')"
    "undisturbed E (report_held x)" "store_ok (w_db w)" "getExceptionEnvelope r (w_db w) = Some x"
  shows "(\<exists>x'. getExceptionEnvelope r (w_db w') = Some x' \<and> same_report x x')
    \<or> r = env_clientReportId e \<and> (\<exists>ids. length ids = length (env_photos e)
         \<and> (\<forall>k<length ids. \<forall>i. photo_uploadedArtifactId (env_photos e ! k) = Some i \<longrightarrow> ids ! k = i)
         \<and> server_has E (report_call e ids))"
proof (cases "r = env_clientReportId e \<and> outcome = Acknowledged")
  case True
  then show ?thesis
    using acknowledged_report_is_complete[of E e durable "report_post E e" w w'] assms(1)
    unfolding report_post_request by (blast intro: request_has request_recorded)
next
  case False
  have key: "env_clientReportId x = r" using get_key[OF assms(4)] .
  have "guarded E (report_held x) w (snd (run E e durable (report_post E e) w))"
  proof (rule held_report.run_rel[where w' = w and i = "env_clientReportId e" and g = "generation_of w"])
    fix u
    assume "fst (run E e durable (report_post E e) w) = Acknowledged"
    then show "guarded E (report_held x) u (transact_quietly E (\<lambda>_. removeExceptionEnvelope (env_clientReportId e)) u)"
      using False assms(1) key by (intro quietly_guarded) (auto simp: report_held_def get_remove)
  qed (auto simp: report_post_def intro: guarded_writes.raiseException_rel)
  then show ?thesis using assms key same_report_refl[of x] by (auto simp: guarded_def keeps_def report_held_def)
qed

text \<open>A network that never answers.\<close>

definition out_of_reach :: env where
  "out_of_reach = quiet\<lparr>env_fetch := (\<lambda>_ _. Timed_out)\<rparr>"

lemma out_of_reach_has [simp]: "\<not> server_has out_of_reach c"
  by (simp add: server_has_def answers_def out_of_reach_def)

lemma report_kept_unless_acknowledged_witness:
  "\<exists>x'. getExceptionEnvelope ''r'' (w_db (snd (run out_of_reach demo_signed_report True (report_post out_of_reach demo_signed_report)
      ((demo_world [])\<lparr>w_db := [demo_signed_report]\<rparr>)))) = Some x' \<and> same_report demo_signed_report x'"
proof -
  let ?w = "(demo_world [])\<lparr>w_db := [demo_signed_report]\<rparr>"
  obtain outcome w' where r: "run out_of_reach demo_signed_report True (report_post out_of_reach demo_signed_report) ?w = (outcome, w')"
    by force
  have "undisturbed out_of_reach (report_held demo_signed_report)" by (simp add: undisturbed_def out_of_reach_def)
  moreover have "store_ok (w_db ?w)" "getExceptionEnvelope ''r'' (w_db ?w) = Some demo_signed_report"
    by (simp_all add: demo_signed_report_def demo_report_def db_inv_def getExceptionEnvelope_def db_get_def)
  ultimately show ?thesis using report_kept_unless_acknowledged[OF r] by (simp add: r)
qed

end
