(* ===== verification/LegacyMigration.thy ===== *)
theory LegacyMigration
  imports ExceptionSync
begin

text \<open>
  The one-way move of incident reports that an older build left in \<open>localStorage\<close> into the report
  store (\<open>lib/offline/legacy-exception-migration.ts\<close>).
\<close>

section \<open>One entry\<close>

definition LEGACY_PHOTO_ID_PREFIX :: string where
  "LEGACY_PHOTO_ID_PREFIX = ''legacy-photo:''"

text \<open>\<open>Inl\<close>: the photo's data URL does not decode, so the conversion throws.\<close>

definition legacyEntryToEnvelope :: "legacy_exception_entry \<Rightarrow> string + exception_envelope" where
  "legacyEntryToEnvelope entry = (let
       uploaded = reb_supporting_artifact_id (le_body entry);
       body = withoutPhotoIds (le_body entry);
       photoId = LEGACY_PHOTO_ID_PREFIX @ le_id entry;
       takenAt = (case le_photoCapturedAt entry of None \<Rightarrow> le_enqueuedAt entry | Some t \<Rightarrow> t);
       photo = (\<lambda>blob. \<lparr>photo_id = photoId, photo_blob = blob, photo_capturedAt = takenAt,
                        photo_uploadedArtifactId = uploaded\<rparr>);
       envelope = (\<lambda>photos.
         \<lparr>env_clientReportId = (case reb_client_report_id body of None \<Rightarrow> le_id entry | Some i \<Rightarrow> i),
          env_tripId = le_tripId entry, env_body = body, env_photos = photos, env_status = Quarantined,
          env_attentionReason = None, env_attentionPhotoId = None, env_actorId = Null, env_attention = Undef,
          env_createdAt = le_enqueuedAt entry, env_updatedAt = le_enqueuedAt entry\<rparr>)
     in case le_photoDataUrl entry of
          Some (c # url) \<Rightarrow> (case dataUrlToBlob (c # url) of
              Inl e \<Rightarrow> Inl e | Inr blob \<Rightarrow> Inr (envelope [photo (Some blob)]))
        | _ \<Rightarrow> Inr (envelope (case uploaded of Some (c # i) \<Rightarrow> [photo None] | _ \<Rightarrow> [])))"

section \<open>The move\<close>

definition group_key :: "legacy_exception_entry \<Rightarrow> string" where
  "group_key entry = (case reb_client_report_id (le_body entry) of None \<Rightarrow> le_id entry | Some i \<Rightarrow> i)"

text \<open>A \<open>Map\<close> keeps the order in which its keys were first set.\<close>

fun group_add :: "legacy_exception_entry \<Rightarrow> (string \<times> legacy_exception_entry list) list
    \<Rightarrow> (string \<times> legacy_exception_entry list) list" where
  "group_add entry [] = [(group_key entry, [entry])]"
| "group_add entry ((k, es) # gs) =
     (if k = group_key entry then (k, es @ [entry]) # gs else (k, es) # group_add entry gs)"

definition groups_of :: "legacy_exception_entry list \<Rightarrow> (string \<times> legacy_exception_entry list) list" where
  "groups_of entries = fold group_add entries []"

text \<open>Every distinct photo of the group, the first one with an id winning.\<close>

fun distinct_photos :: "exception_photo list \<Rightarrow> exception_photo list" where
  "distinct_photos [] = []"
| "distinct_photos (p # ps) = p # distinct_photos (filter (\<lambda>q. photo_id q \<noteq> photo_id p) ps)"

text \<open>\<open>entries.map(legacyEntryToEnvelope)\<close>: the first entry that throws ends the group.\<close>

fun group_envelopes :: "legacy_exception_entry list \<Rightarrow> string + exception_envelope list" where
  "group_envelopes [] = Inr []"
| "group_envelopes (e # es) = (case legacyEntryToEnvelope e of
     Inl m \<Rightarrow> Inl m
   | Inr x \<Rightarrow> (case group_envelopes es of Inl m \<Rightarrow> Inl m | Inr xs \<Rightarrow> Inr (x # xs)))"

definition merged_envelope :: "exception_envelope list \<Rightarrow> exception_envelope" where
  "merged_envelope es = (hd es)\<lparr>env_photos := distinct_photos (concat (map env_photos es))\<rparr>"

text \<open>
  \<open>readLegacy\<close> and \<open>dropLegacy\<close> of \<open>migrateLegacyExceptions\<close>, which this is called with. A malformed
  stored value of kind \<open>exception\<close> has no report body: reading its report id is a \<open>TypeError\<close>.
\<close>

fun legacy_of :: "queue_entry \<Rightarrow> legacy_exception_entry option" where
  "legacy_of (Legacy l) = Some l"
| "legacy_of _ = None"

definition dropLegacy :: "env \<Rightarrow> string list \<Rightarrow> world \<Rightarrow> bool \<times> world" where
  "dropLegacy E ids w = ls_save E (filter (\<lambda>e. \<not> (\<exists>i\<in>set ids. entry_id e = Some i)) (loadQueue (w_ls w))) w"

definition migrate_group :: "env \<Rightarrow> legacy_exception_entry list \<Rightarrow> world \<Rightarrow> bool \<times> world" where
  "migrate_group E entries w = (case group_envelopes entries of
       Inl _ \<Rightarrow> (False, w)
     | Inr envelopes \<Rightarrow>
        (case transact E (\<lambda>_ db. ((), saveExceptionEnvelope (merged_envelope envelopes) db)) w of
           (Inl _, w1) \<Rightarrow> (False, w1)
         | (Inr _, w1) \<Rightarrow> dropLegacy E (map le_id entries) w1))"

fun migrate_groups :: "env \<Rightarrow> (string \<times> legacy_exception_entry list) list \<Rightarrow> world \<Rightarrow> (nat \<times> nat) \<times> world" where
  "migrate_groups E [] w = ((0, 0), w)"
| "migrate_groups E (g # gs) w = (case migrate_group E (snd g) w of (done, w1) \<Rightarrow>
     (case migrate_groups E gs w1 of ((m, f), w2) \<Rightarrow> (if done then (Suc m, f) else (m, Suc f), w2)))"

definition migrateLegacyExceptionEntries :: "env \<Rightarrow> world \<Rightarrow> (js_error + nat \<times> nat) \<times> world" where
  "migrateLegacyExceptionEntries E w = (let legacy = filter isLegacyException (loadQueue (w_ls w)) in
     if \<exists>e\<in>set legacy. legacy_of e = None then (Inl (TypeErr ''Cannot read properties of undefined''), w)
     else (case migrate_groups E (groups_of (List.map_filter legacy_of legacy)) w of (counts, w1) \<Rightarrow> (Inr counts, w1)))"

end
