(* ===== verification/OfflineQueue.thy ===== *)
theory OfflineQueue
  imports LegacyMigration
begin

text \<open>
  The offline queue (\<open>lib/hooks/useOfflineQueue.ts\<close>): counting what waits on the phone, flushing it,
  retrying what was refused, and enqueueing captures. The flush is one pass over the reports in
  IndexedDB and one over the entries in \<open>localStorage\<close>.
\<close>

section \<open>Counts\<close>

text \<open>The capturer of a stored value; a value of no known shape has none.\<close>

fun entry_actor :: "queue_entry \<Rightarrow> string field" where
  "entry_actor (Sendable e) = se_actorId e"
| "entry_actor _ = Undef"

datatype count_class = Counts_pending | Counts_attention | Counts_other

definition entry_class :: "string option \<Rightarrow> queue_entry \<Rightarrow> count_class" where
  "entry_class actorId entry =
     (if entryStatus entry = Quarantined then Counts_attention
      else if isLegacyException entry then Counts_pending
      else if isSendableEntry entry \<and> entry_actor entry \<noteq> nullable actorId then Counts_other
      else if entryStatus entry = Needs_attention then Counts_attention
      else Counts_pending)"

definition envelope_class :: "string option \<Rightarrow> exception_envelope \<Rightarrow> count_class" where
  "envelope_class actorId envelope =
     (if env_status envelope = Quarantined then Counts_attention
      else if coalesce (env_actorId envelope) \<noteq> None \<and> env_actorId envelope \<noteq> nullable actorId then Counts_other
      else if env_status envelope = Needs_attention then Counts_attention
      else Counts_pending)"

fun count_one :: "count_class \<Rightarrow> queue_counts \<Rightarrow> queue_counts" where
  "count_one Counts_pending q = q\<lparr>qc_pending := Suc (qc_pending q)\<rparr>"
| "count_one Counts_attention q = q\<lparr>qc_attention := Suc (qc_attention q)\<rparr>"
| "count_one Counts_other q = q\<lparr>qc_otherAccounts := Suc (qc_otherAccounts q)\<rparr>"

definition localQueueCounts :: "world \<Rightarrow> queue_counts" where
  "localQueueCounts w = (let actorId = currentActorId (w_custody w)
     in fold (\<lambda>entry. count_one (entry_class actorId entry)) (loadQueue (w_ls w)) no_counts)"

definition envelope_counts :: "string option \<Rightarrow> exception_envelope list \<Rightarrow> queue_counts" where
  "envelope_counts actorId es = fold (\<lambda>envelope. count_one (envelope_class actorId envelope)) es no_counts"

definition add_counts :: "queue_counts \<Rightarrow> queue_counts \<Rightarrow> queue_counts" where
  "add_counts p q = \<lparr>qc_pending = qc_pending p + qc_pending q, qc_attention = qc_attention p + qc_attention q,
     qc_otherAccounts = qc_otherAccounts p + qc_otherAccounts q\<rparr>"

definition publishCounts :: "world \<Rightarrow> world" where
  "publishCounts w = w\<lparr>w_published := add_counts (localQueueCounts w) (w_envelopeCounts w)\<rparr>"

definition refreshExceptionCounts :: "env \<Rightarrow> world \<Rightarrow> world" where
  "refreshExceptionCounts E w = publishCounts
     (case transact E (\<lambda>_ db. (listExceptionEnvelopes db, db)) w of
        (Inl _, w1) \<Rightarrow> w1
      | (Inr envelopes, w1) \<Rightarrow> w1\<lparr>w_envelopeCounts := envelope_counts (currentActorId (w_custody w1)) envelopes\<rparr>)"

section \<open>The retry timer\<close>

definition clearRateLimitRetry :: "world \<Rightarrow> world" where
  "clearRateLimitRetry w = w\<lparr>w_retryAt := None\<rparr>"

definition scheduleRateLimitRetry :: "env \<Rightarrow> number \<Rightarrow> world \<Rightarrow> world" where
  "scheduleRateLimitRetry E delayMs w = (let retryAt = env_ms E (w_tick w) + delayMs in
     case w_retryAt w of
       Some earlier \<Rightarrow> if earlier \<le> retryAt then w else w\<lparr>w_retryAt := Some retryAt\<rparr>
     | None \<Rightarrow> w\<lparr>w_retryAt := Some retryAt\<rparr>)"

section \<open>Migrations before a flush\<close>

definition migrateForCustody :: "env \<Rightarrow> world \<Rightarrow> world" where
  "migrateForCustody E w = snd (transact E quarantineUnattributedEnvelopes (snd (ls_migrate E w)))"

section \<open>Reports\<close>

definition flush_report :: "env \<Rightarrow> exception_envelope \<Rightarrow> world \<Rightarrow> world" where
  "flush_report E listed w = (case take_lock (env_clientReportId listed) w of
       (False, w1) \<Rightarrow> w1
     | (True, w1) \<Rightarrow> drop_lock (env_clientReportId listed)
         (case transact E (\<lambda>_ db. (getExceptionEnvelope (env_clientReportId listed) db, db)) w1 of
            (Inr (Some stored), w2) \<Rightarrow>
              if env_status stored \<noteq> Pending then w2
              else (case sendExceptionReport E stored True True (report_post E stored) w2 of
                 (Transient_outcome (Some d), w3) \<Rightarrow> scheduleRateLimitRetry E d w3
               | (_, w3) \<Rightarrow> w3)
          | (_, w2) \<Rightarrow> w2))"

fun flush_reports :: "env \<Rightarrow> actor_lease option \<Rightarrow> string option \<Rightarrow> exception_envelope list \<Rightarrow> world \<Rightarrow> world" where
  "flush_reports E lease actorId [] w = w"
| "flush_reports E lease actorId (listed # rest) w = (case lease of
     None \<Rightarrow> w
   | Some l \<Rightarrow>
      if \<not> isActorLeaseCurrent l (w_custody w) then w
      else flush_reports E lease actorId rest
        (if env_status listed \<noteq> Pending then w
         else if coalesce (env_actorId listed) = None \<or> env_actorId listed \<noteq> nullable actorId then w
         else flush_report E listed w))"

definition flushExceptionEnvelopes :: "env \<Rightarrow> world \<Rightarrow> world" where
  "flushExceptionEnvelopes E w = (let lease = captureActorLease (w_custody w) in
     case transact E (\<lambda>_ db. (listExceptionEnvelopes db, db)) w of
       (Inl _, w1) \<Rightarrow> w1
     | (Inr envelopes, w1) \<Rightarrow> flush_reports E lease (currentActorId (w_custody w1)) envelopes w1)"

section \<open>Entries\<close>

definition isSendableNow :: "sendable_entry \<Rightarrow> string option \<Rightarrow> bool" where
  "isSendableNow entry actorId \<longleftrightarrow> entryStatus (Sendable entry) = Pending
     \<and> coalesce (se_actorId entry) \<noteq> None \<and> se_actorId entry = nullable actorId"

definition is_phase :: "sendable_entry \<Rightarrow> bool" where
  "is_phase e = (case se_body e of Phase_capture _ \<Rightarrow> True | _ \<Rightarrow> False)"

text \<open>What one pass has decided so far.\<close>

record flush_pass =
  disposedIds :: "string set"
  retained :: "string \<rightharpoonup> retained_attention"
  stalledTripIds :: "string set"

definition new_pass :: flush_pass where
  "new_pass = \<lparr>disposedIds = {}, retained = Map.empty, stalledTripIds = {}\<rparr>"

definition entry_failed :: "env \<Rightarrow> sendable_entry \<Rightarrow> js_error \<Rightarrow> flush_pass \<Rightarrow> world \<Rightarrow> flush_pass \<times> world" where
  "entry_failed E entry err p w = (case classifyLiveWriteFailure (now_of E w) err of
       Duplicate _ \<Rightarrow> (p\<lparr>disposedIds := insert (se_id entry) (disposedIds p)\<rparr>, w)
     | Retain a \<Rightarrow>
        (let p1 = p\<lparr>retained := (retained p)(se_id entry \<mapsto> a)\<rparr> in
         (if is_phase entry \<and> \<not> isPhaseOverridden a
          then p1\<lparr>stalledTripIds := insert (se_tripId entry) (stalledTripIds p1)\<rparr> else p1, w))
     | Transient d \<Rightarrow>
        (if is_phase entry then p\<lparr>stalledTripIds := insert (se_tripId entry) (stalledTripIds p)\<rparr> else p,
         case d of Some ms \<Rightarrow> scheduleRateLimitRetry E ms w | None \<Rightarrow> w))"

definition flush_entry :: "env \<Rightarrow> string option \<Rightarrow> queue_entry \<Rightarrow> flush_pass \<Rightarrow> world \<Rightarrow> flush_pass \<times> world" where
  "flush_entry E actorId entry p w = (case entry of
       Sendable e \<Rightarrow>
         if \<not> isSendableNow e actorId then (p, w)
         else if is_phase e \<and> se_tripId e \<in> stalledTripIds p then (p, w)
         else attempt (sendEntry E e w)
           (\<lambda>err w1. entry_failed E e err p w1)
           (\<lambda>_ w1. (p\<lparr>disposedIds := insert (se_id e) (disposedIds p)\<rparr>, w1))
     | _ \<Rightarrow> (p, w))"

fun flush_entries :: "env \<Rightarrow> actor_lease \<Rightarrow> string option \<Rightarrow> queue_entry list \<Rightarrow> flush_pass \<Rightarrow> world
    \<Rightarrow> flush_pass \<times> world" where
  "flush_entries E lease actorId [] p w = (p, w)"
| "flush_entries E lease actorId (entry # rest) p w =
     (if \<not> isActorLeaseCurrent lease (w_custody w) then (p, w)
      else (case flush_entry E actorId entry p w of (p1, w1) \<Rightarrow> flush_entries E lease actorId rest p1 w1))"

text \<open>The one change of the stored queue: what is finished goes, what was refused is marked in place.\<close>

definition apply_pass :: "flush_pass \<Rightarrow> queue_entry list \<Rightarrow> queue_entry list" where
  "apply_pass p entries =
     map (\<lambda>entry. case entry of
         Sendable e \<Rightarrow> (case retained p (se_id e) of
             None \<Rightarrow> Sendable e
           | Some a \<Rightarrow> Sendable (e\<lparr>se_status := Some Needs_attention, se_attention := Val a\<rparr>))
       | other \<Rightarrow> other)
     (filter (\<lambda>entry. \<not> (\<exists>i\<in>disposedIds p. entry_id entry = Some i)) entries)"

section \<open>The flush\<close>

text \<open>Everything before the queue is read: the lease to go on with, or \<open>None\<close> when the flush ends.\<close>

definition flush_prepare :: "env \<Rightarrow> world \<Rightarrow> actor_lease option \<times> world" where
  "flush_prepare E w = (let lease = captureActorLease (w_custody w) in
     case migrateLegacyExceptionEntries E (migrateForCustody E (w\<lparr>w_flushing := True\<rparr>)) of
       (Inl _, w1) \<Rightarrow> (None, w1)
     | (Inr _, w1) \<Rightarrow> (case lease of
          None \<Rightarrow> (None, w1)
        | Some l \<Rightarrow> if \<not> isActorLeaseCurrent l (w_custody w1) then (None, w1)
                    else (Some l, flushExceptionEnvelopes E w1)))"

definition send_queue :: "env \<Rightarrow> actor_lease \<Rightarrow> world \<Rightarrow> flush_pass \<times> world" where
  "send_queue E lease w =
     flush_entries E lease (currentActorId (w_custody w)) (loadQueue (w_ls w)) new_pass w"

definition commit_pass :: "env \<Rightarrow> flush_pass \<Rightarrow> world \<Rightarrow> world" where
  "commit_pass E p w =
     (let w1 = (if disposedIds p \<noteq> {} \<or> dom (retained p) \<noteq> {} then snd (ls_update E (apply_pass p) w) else w);
          w2 = refreshExceptionCounts E w1
      in if qc_pending (w_published w2) = 0 then clearRateLimitRetry w2 else w2)"

definition flush_body :: "env \<Rightarrow> world \<Rightarrow> world" where
  "flush_body E w = (case flush_prepare E w of
       (None, w1) \<Rightarrow> w1
     | (Some l, w1) \<Rightarrow> (case send_queue E l w1 of (p, w2) \<Rightarrow> commit_pass E p w2))"

definition flushQueue :: "env \<Rightarrow> world \<Rightarrow> world" where
  "flushQueue E w = (if w_flushing w then w else (flush_body E w)\<lparr>w_flushing := False\<rparr>)"

section \<open>Try again\<close>

definition retryable_attention :: "retained_attention field \<Rightarrow> bool" where
  "retryable_attention a \<longleftrightarrow> (case coalesce a of None \<Rightarrow> True | Some x \<Rightarrow> \<not> (isCustodyConflict x \<or> isPhaseOverridden x))"

fun retry_envelopes :: "env \<Rightarrow> string option \<Rightarrow> exception_envelope list \<Rightarrow> world \<Rightarrow> world" where
  "retry_envelopes E actorId [] w = w"
| "retry_envelopes E actorId (e # es) w =
     (if env_status e \<noteq> Needs_attention \<or> env_actorId e \<noteq> nullable actorId then retry_envelopes E actorId es w
      else if \<not> retryable_attention (env_attention e) then retry_envelopes E actorId es w
      else (case transact E (\<lambda>now db. ((), resetExceptionToPending now (env_clientReportId e) db)) w of
              (Inl _, w1) \<Rightarrow> w1
            | (Inr _, w1) \<Rightarrow> retry_envelopes E actorId es w1))"

definition retry_entry :: "string option \<Rightarrow> queue_entry \<Rightarrow> queue_entry" where
  "retry_entry actorId entry = (case entry of
       Sendable e \<Rightarrow> if se_status e = Some Needs_attention \<and> se_actorId e = nullable actorId
                        \<and> retryable_attention (se_attention e)
                     then Sendable (e\<lparr>se_status := Some Pending, se_attention := Null\<rparr>) else entry
     | _ \<Rightarrow> entry)"

definition retryAttention :: "env \<Rightarrow> world \<Rightarrow> world" where
  "retryAttention E w = (let actorId = currentActorId (w_custody w);
       w1 = (case transact E (\<lambda>_ db. (listExceptionEnvelopes db, db)) w of
               (Inl _, w1) \<Rightarrow> w1 | (Inr envelopes, w1) \<Rightarrow> retry_envelopes E actorId envelopes w1);
       w2 = snd (ls_update E (map (retry_entry actorId)) w1)
     in flushQueue E (refreshExceptionCounts E w2))"

section \<open>Enqueueing\<close>

definition stampFor :: "string \<Rightarrow> custody_stamp option \<Rightarrow> world \<Rightarrow> custody_stamp" where
  "stampFor tripId custody w = (case custody of Some stamp \<Rightarrow> stamp | None \<Rightarrow> captureCustody tripId (w_custody w))"

text \<open>A new entry: the stamp taken at capture, pending unless the server has refused it already.\<close>

definition new_entry :: "string \<Rightarrow> string \<Rightarrow> custody_stamp \<Rightarrow> retained_attention option \<Rightarrow> iso \<Rightarrow> sendable_body \<Rightarrow> sendable_entry" where
  "new_entry i tripId stamp attn now body =
     \<lparr>se_id = i, se_tripId = tripId, se_actorId = nullable (stamp_actorId stamp),
      se_custodySequence = nullable (stamp_custodySequence stamp),
      se_status = Some (if attn = None then Pending else Needs_attention),
      se_attention = (case attn of None \<Rightarrow> Undef | Some a \<Rightarrow> Val a), se_enqueuedAt = now, se_body = body\<rparr>"

definition append_entry :: "env \<Rightarrow> sendable_entry \<Rightarrow> world \<Rightarrow> bool \<times> world" where
  "append_entry E e w = ls_save E (loadQueue (w_ls w) @ [Sendable e]) w"

definition without_pdf :: "phase_capture \<Rightarrow> phase_capture" where
  "without_pdf c = c\<lparr>pc_evidence := (pc_evidence c)\<lparr>ev_linehaulPdfDataUrl := Null\<rparr>\<rparr>"

definition enqueuePhase :: "env \<Rightarrow> string \<Rightarrow> phase_capture \<Rightarrow> custody_stamp option \<Rightarrow> retained_attention option
    \<Rightarrow> string option \<Rightarrow> world \<Rightarrow> bool \<times> world" where
  "enqueuePhase E tripId capture custody attn originalKey w =
     (case randomUUID E w of (i, w1) \<Rightarrow>
        let c = capture\<lparr>pc_idempotencyKey := (case originalKey of None \<Rightarrow> i | Some k \<Rightarrow> k)\<rparr>;
            entry = new_entry i tripId (stampFor tripId custody w1) attn (now_of E w1) (Phase_capture c)
        in case append_entry E entry w1 of
             (True, w2) \<Rightarrow> (True, publishCounts w2)
           | (False, w2) \<Rightarrow>
               if truthy (ev_linehaulPdfDataUrl (pc_evidence c))
               then (case append_entry E (entry\<lparr>se_body := Phase_capture (without_pdf c)\<rparr>) w2 of
                       (ok, w3) \<Rightarrow> (ok, publishCounts w3))
               else (False, publishCounts w2))"

definition enqueueCheckpoint :: "env \<Rightarrow> string \<Rightarrow> checkpoint_evidence \<Rightarrow> retained_attention option \<Rightarrow> world \<Rightarrow> bool \<times> world" where
  "enqueueCheckpoint E tripId evidence attn w =
     (case randomUUID E w of (i, w1) \<Rightarrow>
        let custody = (if cp_custodySequence evidence \<noteq> Undef
              then Some \<lparr>stamp_actorId = currentActorId (w_custody w1), stamp_custodySequence = coalesce (cp_custodySequence evidence)\<rparr>
              else None);
            entry = new_entry i tripId (stampFor tripId custody w1) attn (now_of E w1) (Checkpoint_capture evidence)
        in case append_entry E entry w1 of (ok, w2) \<Rightarrow> (ok, publishCounts w2))"

definition enqueueLocation :: "env \<Rightarrow> string \<Rightarrow> location_ping list \<Rightarrow> custody_stamp option \<Rightarrow> retained_attention option
    \<Rightarrow> world \<Rightarrow> bool \<times> world" where
  "enqueueLocation E tripId pings custody attn w =
     (case randomUUID E w of (i, w1) \<Rightarrow>
        let entry = new_entry i tripId (stampFor tripId custody w1) attn (now_of E w1) (Location_capture pings)
        in case append_entry E entry w1 of (ok, w2) \<Rightarrow> (ok, publishCounts w2))"

end
