(* ===== verification/FlushSafety.thy ===== *)
theory FlushSafety
  imports OfflineQueue
begin

text \<open>
  What a flush of the offline queue guarantees: who and what it sends for, that nothing stored is
  lost, that a phase is never sent past a stalled one, and that the counts shown to the driver cover
  everything that is stored.
\<close>

section \<open>Stored lists\<close>

lemma migrate_queue:
  "loadQueue (snd (migrateQueueForCustody now u n ls)) \<in> {loadQueue ls, migrateEntries now u n (loadQueue ls)}"
  by (auto simp: migrateQueueForCustody_def loadQueue_def writeQueue_def Let_def split: option.splits queue_text.splits)

lemma write_queue: "loadQueue (snd (writeQueue es ls)) \<in> {es, loadQueue ls}"
  by (auto simp: loadQueue_def writeQueue_def)

lemma save_queue:
  "loadQueue (snd (saveQueue now u n es ls)) \<in> {es, loadQueue ls, migrateEntries now u n (loadQueue ls)}"
proof -
  obtain ok ls1 where m: "migrateQueueForCustody now u n ls = (ok, ls1)" by force
  show ?thesis using migrate_queue[of now u n ls] write_queue[of es ls1] m
    by (auto simp: saveQueue_def)
qed

section \<open>Bookkeeping touches nothing stored\<close>

lemma unstored_guarded:
  "guarded E Q w (w\<lparr>w_locks := l\<rparr>)" "guarded E Q w (w\<lparr>w_retryAt := t\<rparr>)" "guarded E Q w (w\<lparr>w_flushing := b\<rparr>)"
  "guarded E Q w (w\<lparr>w_published := c\<rparr>)" "guarded E Q w (w\<lparr>w_envelopeCounts := c\<rparr>)" "guarded E Q w (w\<lparr>w_uuids := k\<rparr>)"
  by (simp_all add: guarded_def keeps_def)

lemma schedule_guarded: "guarded E Q w (scheduleRateLimitRetry E d w)"
  by (auto simp: scheduleRateLimitRetry_def Let_def guarded.rel_refl unstored_guarded split: option.split)

lemma read_guarded: "guarded E Q w (snd (transact E (\<lambda>now db. (f db, db)) w))"
  by (rule transact_guarded) simp

lemma refresh_guarded: "guarded E Q w (refreshExceptionCounts E w)"
proof -
  let ?t = "transact E (\<lambda>_ db. (listExceptionEnvelopes db, db)) w"
  have 1: "guarded E Q w (snd ?t)" by (rule read_guarded)
  have p: "guarded E Q u (publishCounts u)" for u by (simp add: publishCounts_def unstored_guarded)
  obtain x u where xu: "?t = (x, u)" by force
  show ?thesis
    using 1 xu guarded.rel_trans[OF 1 p] guarded.rel_trans[OF guarded.rel_trans[OF 1 unstored_guarded(5)] p]
    by (cases x) (simp_all add: refreshExceptionCounts_def)
qed

section \<open>Invariants of what is stored\<close>

text \<open>
  The interface between the flush and a property of the stored captures: it survives the migrations,
  the marks and removals of the report sender, and the change that a pass makes to the queue. What
  may be dropped after the legacy migration are the entries of older builds.
\<close>

locale capture_invariant =
  fixes QL :: "queue_entry list \<Rightarrow> bool" and QD :: "exception_db \<Rightarrow> bool"
    and droppable :: "string \<Rightarrow> bool" and passes :: "flush_pass \<Rightarrow> bool"
  assumes QL_migrate: "QL es \<Longrightarrow> QL (migrateEntries now u n es)"
    and QL_legacy: "QL es \<Longrightarrow> Legacy l \<in> set es \<Longrightarrow> droppable (le_id l)"
    and QL_drop: "\<forall>i\<in>set ids. droppable i \<Longrightarrow> QL es \<Longrightarrow>
        QL (filter (\<lambda>e. \<not> (\<exists>i\<in>set ids. entry_id e = Some i)) es)"
    and QL_apply: "passes p \<Longrightarrow> QL es \<Longrightarrow> QL (apply_pass p es)"
    and QD_mark: "QD db \<Longrightarrow> QD (markExceptionNeedsAttention now i reason q attn db)"
    and QD_record: "QD db \<Longrightarrow> QD (recordPhotoUploaded now i photo a db)"
    and QD_remove: "QD db \<Longrightarrow> QD (removeExceptionEnvelope i db)"
    and QD_quarantine: "QD db \<Longrightarrow> QD (snd (quarantineUnattributedEnvelopes now db))"
    and QD_save: "QD db \<Longrightarrow> env_actorId e = Null \<Longrightarrow> QD (saveExceptionEnvelope e db)"
begin

definition stored :: "local_storage \<Rightarrow> exception_db \<Rightarrow> bool" where
  "stored ls db \<longleftrightarrow> QL (loadQueue ls) \<and> QD db"

lemma save_rel:
  assumes "QL (loadQueue (w_ls w)) \<Longrightarrow> QL es"
  shows "guarded E stored w (snd (ls_save E es w))"
proof -
  obtain ok ls where sv: "saveQueue (now_of E w) (env_uuid E) (w_uuids w) es (w_ls w) = (ok, ls)" by force
  have "QL (loadQueue (w_ls w)) \<Longrightarrow> QL (loadQueue ls)"
    using save_queue[of "now_of E w" "env_uuid E" "w_uuids w" es "w_ls w"] assms QL_migrate sv by auto
  then show ?thesis using sv by (simp add: ls_save_def guarded_def keeps_def stored_def)
qed

lemma migrate_rel: "guarded E stored w (snd (ls_migrate E w))"
proof -
  obtain ok ls where sv: "migrateQueueForCustody (now_of E w) (env_uuid E) (w_uuids w) (w_ls w) = (ok, ls)" by force
  have "QL (loadQueue (w_ls w)) \<Longrightarrow> QL (loadQueue ls)"
    using migrate_queue[of "now_of E w" "env_uuid E" "w_uuids w" "w_ls w"] QL_migrate sv by auto
  then show ?thesis using sv by (simp add: ls_migrate_def guarded_def keeps_def stored_def)
qed

lemmas read_rel = read_guarded[where Q = stored]

lemma custody_rel: "guarded E stored w (migrateForCustody E w)"
  unfolding migrateForCustody_def
  by (rule guarded.rel_trans[OF migrate_rel], rule transact_guarded) (simp add: stored_def QD_quarantine)

lemma drop_rel: "\<forall>i\<in>set ids. droppable i \<Longrightarrow> guarded E stored w (snd (dropLegacy E ids w))"
  unfolding dropLegacy_def by (rule save_rel) (rule QL_drop)

lemma group_key_actor: "group_envelopes es = Inr (x # xs) \<Longrightarrow> env_actorId x = Null"
  by (cases es) (auto simp: legacyEntryToEnvelope_def Let_def split: sum.splits option.splits list.splits)

lemma group_rel:
  assumes "es \<noteq> []" "\<forall>l\<in>set es. droppable (le_id l)"
  shows "guarded E stored w (snd (migrate_group E es w))"
proof (cases "group_envelopes es")
  case (Inl m)
  then show ?thesis by (simp add: migrate_group_def guarded.rel_refl)
next
  case (Inr xs)
  have "xs \<noteq> []" using Inr assms(1) by (cases es) (auto split: sum.splits)
  then have null: "env_actorId (merged_envelope xs) = Null"
    using group_key_actor[of es] Inr by (cases xs) (auto simp: merged_envelope_def)
  let ?t = "transact E (\<lambda>_ db. ((), saveExceptionEnvelope (merged_envelope xs) db)) w"
  have 1: "guarded E stored w (snd ?t)"
    by (rule transact_guarded) (simp add: stored_def QD_save null)
  have 2: "guarded E stored (snd ?t) (snd (dropLegacy E (map le_id es) (snd ?t)))"
    by (rule drop_rel) (use assms(2) in auto)
  obtain x u where xu: "?t = (x, u)" by force
  show ?thesis
  proof (cases x)
    case (Inl e)
    then have "snd (migrate_group E es w) = u" using xu Inr by (simp add: migrate_group_def)
    then show ?thesis using 1 xu by simp
  next
    case (Inr v)
    then have "snd (migrate_group E es w) = snd (dropLegacy E (map le_id es) u)"
      using xu \<open>group_envelopes es = Inr xs\<close> by (simp add: migrate_group_def)
    then show ?thesis using guarded.rel_trans[OF 1 2] xu by simp
  qed
qed

lemma groups_rel:
  assumes "\<forall>g\<in>set gs. snd g \<noteq> [] \<and> (\<forall>l\<in>set (snd g). droppable (le_id l))"
  shows "guarded E stored w (snd (migrate_groups E gs w))"
  using assms
proof (induction gs arbitrary: w)
  case (Cons g gs)
  let ?g = "migrate_group E (snd g) w"
  have 1: "guarded E stored w (snd ?g)" by (rule group_rel) (use Cons.prems in simp_all)
  have "guarded E stored (snd ?g) (snd (migrate_groups E gs (snd ?g)))"
    by (rule Cons.IH) (use Cons.prems in simp)
  from guarded.rel_trans[OF 1 this] have 3: "guarded E stored w (snd (migrate_groups E gs (snd ?g)))" .
  obtain d u where du: "?g = (d, u)" by force
  obtain m f v where v: "migrate_groups E gs u = ((m, f), v)" by (metis prod.exhaust)
  then have "snd (migrate_groups E (g # gs) w) = v" using du by simp
  then show ?case using 3 du v by simp
qed (simp add: guarded.rel_refl)

end

text \<open>Grouping keeps the entries, in non-empty groups.\<close>

lemma group_add_set:
  "\<forall>g\<in>set gs. snd g \<noteq> [] \<Longrightarrow> \<forall>g\<in>set (group_add l gs). snd g \<noteq> []"
  "(\<Union>g\<in>set (group_add l gs). set (snd g)) = insert l (\<Union>g\<in>set gs. set (snd g))"
  by (induction l gs rule: group_add.induct) auto

lemma groups_of_set:
  "\<forall>g\<in>set (groups_of es). snd g \<noteq> []" "(\<Union>g\<in>set (groups_of es). set (snd g)) = set es"
proof -
  have "(\<forall>g\<in>set (fold group_add es gs). snd g \<noteq> []) \<and>
      (\<Union>g\<in>set (fold group_add es gs). set (snd g)) = set es \<union> (\<Union>g\<in>set gs. set (snd g))"
    if "\<forall>g\<in>set gs. snd g \<noteq> []" for gs
    using that
  proof (induction es arbitrary: gs)
    case (Cons e es)
    show ?case
      using Cons.IH[OF group_add_set(1)[OF Cons.prems, of e]]
      by (simp only: fold.simps comp_apply group_add_set(2) list.set) simp
  qed simp
  from this[of "[]"] show "\<forall>g\<in>set (groups_of es). snd g \<noteq> []"
    "(\<Union>g\<in>set (groups_of es). set (snd g)) = set es"
    by (auto simp: groups_of_def)
qed


context capture_invariant begin

lemma legacy_rel: "guarded E stored w (snd (migrateLegacyExceptionEntries E w))"
proof (cases "undisturbed E stored \<and> stored (w_ls w) (w_db w)")
  case False
  then show ?thesis by (auto simp: guarded_def keeps_def)
next
  case True
  define es where "es = filter isLegacyException (loadQueue (w_ls w))"
  define ls where "ls = List.map_filter legacy_of es"
  have legacy: "Legacy l \<in> set (loadQueue (w_ls w))" if "l \<in> set ls" for l
    using that unfolding ls_def es_def
    by (auto simp: map_filter_def elim!: legacy_of.elims)
  have "\<forall>g\<in>set (groups_of ls). snd g \<noteq> [] \<and> (\<forall>l\<in>set (snd g). droppable (le_id l))"
    using groups_of_set[of ls] legacy QL_legacy True unfolding stored_def by blast
  then have "guarded E stored w (snd (migrate_groups E (groups_of ls) w))" by (rule groups_rel)
  then show ?thesis
    unfolding migrateLegacyExceptionEntries_def es_def[symmetric] Let_def ls_def[symmetric]
    by (simp add: guarded.rel_refl split: prod.split) (metis snd_conv)
qed

end

sublocale capture_invariant \<subseteq> captured: report_rel "guarded E stored" E "\<lambda>_. True" g "\<lambda>_. True" i
  for E :: env and g :: nat and i :: string
  by unfold_locales (auto intro!: quietly_guarded simp: stored_def QD_mark QD_record)

context capture_invariant begin

lemma remove_rel: "guarded E stored w (transact_quietly E (\<lambda>_. removeExceptionEnvelope i) w)"
  by (rule quietly_guarded) (simp add: stored_def QD_remove)

lemma run_guarded: "guarded E stored w (snd (run E e durable (report_post E e) w))"
  by (rule captured.run_rel[where w' = w and i = "env_clientReportId e" and g = "generation_of w"])
    (auto simp: report_post_def intro: guarded_writes.raiseException_rel remove_rel)

lemmas lock_rel = unstored_guarded(1)[where Q = stored]
lemmas retry_rel = unstored_guarded(2)[where Q = stored]
lemmas flags_rel = unstored_guarded(3-5)[where Q = stored]
lemmas schedule_rel = schedule_guarded[where Q = stored]
lemmas refresh_rel = refresh_guarded[where Q = stored]

lemma flush_report_rel: "guarded E stored w (flush_report E e w)"
proof -
  let ?i = "env_clientReportId e"
  obtain got l where lk: "tryReportLock ?i (w_locks w) = (got, l)" by force
  let ?w = "w\<lparr>w_locks := l\<rparr>"
  let ?t = "transact E (\<lambda>_ db. (getExceptionEnvelope ?i db, db)) ?w"
  obtain x u where xu: "?t = (x, u)" by force
  have "guarded E stored ?w u" using read_rel[of E ?w "getExceptionEnvelope ?i"] xu by simp
  from guarded.rel_trans[OF lock_rel this] have u: "guarded E stored w u" .
  have d: "guarded E stored w v \<Longrightarrow> guarded E stored w (drop_lock i v)" for v i
    unfolding drop_lock_def by (rule guarded.rel_trans[OF _ lock_rel])
  show ?thesis
  proof (cases "got \<and> (\<exists>s. x = Inr (Some s) \<and> env_status s = Pending)")
    case True
    then obtain s where s: "got" "x = Inr (Some s)" "env_status s = Pending" by blast
    obtain out v where v: "run E s True (report_post E s) u = (out, v)" by force
    have "guarded E stored u v" using run_guarded[of E u s True] v by simp
    from guarded.rel_trans[OF u this] have v': "guarded E stored w v" .
    show ?thesis
      using s lk xu v d[OF v'] d[OF guarded.rel_trans[OF v' schedule_rel]]
      by (auto simp: flush_report_def take_lock_def sendExceptionReport_def split: send_outcome.split option.split)
  next
    case False
    then show ?thesis
      using lk xu d[OF u] lock_rel
      by (cases x) (auto simp: flush_report_def take_lock_def split: option.split bool.split)
  qed
qed

lemma flush_reports_rel: "guarded E stored w (flush_reports E lease actorId es w)"
proof (induction es arbitrary: w)
  case (Cons e es)
  have "guarded E stored w (flush_reports E lease actorId es (flush_report E e w))"
    by (rule guarded.rel_trans[OF flush_report_rel Cons.IH])
  then show ?case using Cons.IH[of w] by (cases lease) (simp_all add: guarded.rel_refl)
qed (simp add: guarded.rel_refl)

lemma envelopes_rel: "guarded E stored w (flushExceptionEnvelopes E w)"
proof -
  let ?t = "transact E (\<lambda>_ db. (listExceptionEnvelopes db, db)) w"
  obtain x u where xu: "?t = (x, u)" by force
  have u: "guarded E stored w u" using read_rel[of E w listExceptionEnvelopes] xu by simp
  show ?thesis
  proof (cases x)
    case (Inr es)
    have "guarded E stored w (flush_reports E lease a es u)" for lease a
      by (rule guarded.rel_trans[OF u flush_reports_rel])
    then show ?thesis using xu Inr by (simp add: flushExceptionEnvelopes_def Let_def)
  qed (use xu u in \<open>simp add: flushExceptionEnvelopes_def Let_def\<close>)
qed

lemma prepare_rel: "guarded E stored w (snd (flush_prepare E w))"
proof -
  let ?w = "migrateForCustody E (w\<lparr>w_flushing := True\<rparr>)"
  have "guarded E stored w ?w" by (rule guarded.rel_trans[OF flags_rel(1) custody_rel])
  from guarded.rel_trans[OF this legacy_rel]
  have 1: "guarded E stored w (snd (migrateLegacyExceptionEntries E ?w))" .
  obtain x u where xu: "migrateLegacyExceptionEntries E ?w = (x, u)" by force
  have u: "guarded E stored w u" using 1 xu by simp
  have v: "guarded E stored w (flushExceptionEnvelopes E u)" by (rule guarded.rel_trans[OF u envelopes_rel])
  show ?thesis
    using xu u v by (cases x) (simp_all add: flush_prepare_def Let_def split: option.split)
qed

lemma failed_rel: "guarded E stored w (snd (entry_failed E e err p w))"
  by (auto simp: entry_failed_def Let_def guarded.rel_refl schedule_rel split: live_write_failure.split option.split)

lemma entry_rel: "guarded E stored w (snd (flush_entry E actorId entry p w))"
proof (cases entry)
  case (Sendable e)
  have "guarded E stored w (snd (attempt (sendEntry E e w) (\<lambda>err w1. entry_failed E e err p w1)
            (\<lambda>_ w1. (p\<lparr>disposedIds := insert (se_id e) (disposedIds p)\<rparr>, w1))))"
    by (rule guarded.attempt_rel[OF sendEntry_guarded failed_rel]) (simp add: guarded.rel_refl)
  then show ?thesis by (simp add: flush_entry_def Sendable guarded.rel_refl)
qed (simp_all add: flush_entry_def guarded.rel_refl)

lemma entries_rel: "guarded E stored w (snd (flush_entries E lease actorId es p w))"
proof (induction es arbitrary: p w)
  case (Cons e es)
  obtain q u where qu: "flush_entry E actorId e p w = (q, u)" by force
  have "guarded E stored w u" using entry_rel[of E w actorId e p] qu by simp
  from guarded.rel_trans[OF this Cons.IH] show ?case using qu by (simp add: guarded.rel_refl)
qed (simp add: guarded.rel_refl)

lemma commit_rel:
  assumes "passes p"
  shows "guarded E stored w (commit_pass E p w)"
proof -
  let ?w1 = "if disposedIds p \<noteq> {} \<or> dom (retained p) \<noteq> {} then snd (ls_update E (apply_pass p) w) else w"
  have "guarded E stored w (snd (ls_update E (apply_pass p) w))"
    unfolding ls_update_def by (rule save_rel) (rule QL_apply[OF assms])
  then have "guarded E stored w ?w1" by (simp add: guarded.rel_refl)
  from guarded.rel_trans[OF this refresh_rel]
  have 2: "guarded E stored w (refreshExceptionCounts E ?w1)" .
  have "guarded E stored w (clearRateLimitRetry (refreshExceptionCounts E ?w1))"
    unfolding clearRateLimitRetry_def by (rule guarded.rel_trans[OF 2 retry_rel])
  then show ?thesis using 2 by (simp add: commit_pass_def Let_def)
qed

text \<open>The pass that a flush makes over the queue.\<close>

lemma flush_rel:
  assumes "\<And>l u p v. flush_prepare E w = (Some l, u) \<Longrightarrow> send_queue E l u = (p, v) \<Longrightarrow> passes p"
  shows "guarded E stored w (flushQueue E w)"
proof -
  obtain x u where xu: "flush_prepare E w = (x, u)" by force
  have u: "guarded E stored w u" using prepare_rel[of E w] xu by simp
  have "guarded E stored w (flush_body E w)"
  proof (cases x)
    case (Some l)
    obtain p v where pv: "send_queue E l u = (p, v)" by force
    have "guarded E stored u v" using entries_rel[of E u l] pv unfolding send_queue_def by (metis snd_conv)
    from guarded.rel_trans[OF guarded.rel_trans[OF u this] commit_rel[OF assms]] xu Some pv
    show ?thesis by (simp add: flush_body_def)
  qed (simp add: flush_body_def xu u)
  from guarded.rel_trans[OF this flags_rel(1)] show ?thesis by (simp add: flushQueue_def guarded.rel_refl)
qed

end


section \<open>Only the driver's own pending captures are sent\<close>

lemma attempt_snd_cases:
  assumes "attempt r h k = (x, t)"
  obtains e u where "r = (Inl e, u)" "h e u = (x, t)" | a u where "r = (Inr a, u)" "k a u = (x, t)"
  using assms by (cases r; cases "fst r") auto

lemma schedule_frame [simp]:
  "w_wire (scheduleRateLimitRetry E d w) = w_wire w" "w_custody (scheduleRateLimitRetry E d w) = w_custody w"
  "w_ls (scheduleRateLimitRetry E d w) = w_ls w" "w_db (scheduleRateLimitRetry E d w) = w_db w"
  by (simp_all add: scheduleRateLimitRetry_def Let_def split: option.split)

lemma failed_wire [simp]: "w_wire (snd (entry_failed E e err p w)) = w_wire w"
  by (simp add: entry_failed_def Let_def split: live_write_failure.split option.split)

text \<open>What an entry may put on the wire, given what the pass has decided so far.\<close>

definition sendable_in :: "flush_pass \<Rightarrow> string option \<Rightarrow> sendable_entry \<Rightarrow> bool" where
  "sendable_in p actorId e \<longleftrightarrow> isSendableNow e actorId \<and> \<not> (is_phase e \<and> se_tripId e \<in> stalledTripIds p)"

lemma flush_entry_sends:
  "sends_only (\<lambda>r. \<exists>e. entry = Sendable e \<and> sendable_in p actorId e \<and> sent_for e (generation_of w) r) w
     (snd (flush_entry E actorId entry p w))"
proof (cases "\<exists>e. entry = Sendable e \<and> sendable_in p actorId e")
  case True
  then obtain e where e: "entry = Sendable e" "sendable_in p actorId e" by blast
  have "w_wire (snd (flush_entry E actorId entry p w)) = w_wire (snd (sendEntry E e w))"
    using e by (cases "sendEntry E e w"; cases "fst (sendEntry E e w)")
      (auto simp: flush_entry_def sendable_in_def)
  then show ?thesis using sendEntry_sends[of e w E] e by (auto simp: sends_only_def list_all_iff)
next
  case False
  then have "flush_entry E actorId entry p w = (p, w)"
    by (auto simp: flush_entry_def sendable_in_def split: queue_entry.split)
  then show ?thesis by (simp add: sends_only_def)
qed

lemma stalled_grows:
  "stalledTripIds p \<subseteq> stalledTripIds (fst (flush_entry E actorId entry p w))"
  by (auto simp: flush_entry_def attempt_def entry_failed_def Let_def
      split: queue_entry.split prod.split sum.split live_write_failure.split)

lemma flush_entries_sends:
  "sends_only (\<lambda>r. \<exists>e. Sendable e \<in> set es \<and> sendable_in p actorId e \<and> sent_for e (lease_generation lease) r) w
     (snd (flush_entries E lease actorId es p w))"
proof (induction es arbitrary: p w)
  case (Cons entry es)
  show ?case
  proof (cases "isActorLeaseCurrent lease (w_custody w)")
    case True
    then have g: "generation_of w = lease_generation lease" by (simp add: isActorLeaseCurrent_def actorGeneration_def)
    let ?P = "\<lambda>r. \<exists>e. Sendable e \<in> set (entry # es) \<and> sendable_in p actorId e \<and> sent_for e (lease_generation lease) r"
    obtain q u where qu: "flush_entry E actorId entry p w = (q, u)" by force
    have "sends_only ?P w u"
      using flush_entry_sends[of entry p actorId w E] qu g by (auto elim!: sends_only_mono)
    moreover have "sendable_in q actorId e \<Longrightarrow> sendable_in p actorId e" for e
      using stalled_grows[of p E actorId entry w] qu by (auto simp: sendable_in_def)
    then have "sends_only ?P u (snd (flush_entries E lease actorId es q u))"
      by (intro sends_only_mono[OF Cons.IH]) auto
    ultimately show ?thesis using True qu by (auto intro: sends.rel_trans)
  qed (simp add: sends.rel_refl)
qed (simp add: sends.rel_refl)

text \<open>Property C2. A pass over the queue makes requests only under the sign-in the flush started with,
  and each of them is for a stored capture that is still pending and was captured by the driver
  that sign-in belongs to: nobody else's capture, nothing quarantined and nothing that was refused
  is ever sent, however the account changes while the pass runs.\<close>

theorem queue_sends_only_own_pending:
  "\<exists>rs. w_wire (snd (send_queue E lease w)) = w_wire w @ rs \<and>
     (\<forall>r\<in>set rs. wr_generation r = lease_generation lease \<and>
        (\<exists>e. Sendable e \<in> set (loadQueue (w_ls w)) \<and> se_actorId e = Val (lease_actorId lease)
           \<and> entryStatus (Sendable e) = Pending \<and> call_of_entry e (wr_call r)))"
proof (cases "isActorLeaseCurrent lease (w_custody w) \<or> loadQueue (w_ls w) = []")
  case False
  then have "send_queue E lease w = (new_pass, w)" by (cases "loadQueue (w_ls w)") (auto simp: send_queue_def)
  then show ?thesis by simp
next
  case True
  let ?a = "currentActorId (w_custody w)"
  have actor: "isSendableNow e ?a \<Longrightarrow> Sendable e \<in> set (loadQueue (w_ls w)) \<Longrightarrow>
      se_actorId e = Val (lease_actorId lease) \<and> entryStatus (Sendable e) = Pending" for e
    using True by (auto simp: isSendableNow_def isActorLeaseCurrent_def currentActorId_def coalesce_None_iff
        dest: sym)
  show ?thesis
    using flush_entries_sends[of "loadQueue (w_ls w)" new_pass ?a lease w E] actor
    unfolding send_queue_def sends_only_def list_all_iff sendable_in_def sent_for_def by blast
qed

section \<open>No phase is sent past a stalled one\<close>

lemma failed_outcome:
  assumes "entry_failed E e err p w = (q, u)" "is_phase e"
  shows "se_id e \<in> disposedIds q \<or> (\<exists>a. retained q (se_id e) = Some a \<and> isPhaseOverridden a)
      \<or> se_tripId e \<in> stalledTripIds q"
  using assms by (auto simp: entry_failed_def Let_def split: live_write_failure.splits if_splits)

text \<open>Property C3. The phases of one trip are sent in order: when a pending phase was not accepted, proven
  already recorded or overridden by dispatch, the rest of the pass sends nothing for any later
  phase of that trip, while other trips and other kinds of captures go on.\<close>

theorem phases_never_overtake:
  assumes "flush_entry E a (Sendable e) p w = (p1, w1)" "is_phase e" "isSendableNow e a"
  shows "se_id e \<in> disposedIds p1 \<or> (\<exists>x. retained p1 (se_id e) = Some x \<and> isPhaseOverridden x)
    \<or> (\<exists>rs. w_wire (snd (flush_entries E lease a rest p1 w1)) = w_wire w1 @ rs \<and>
         (\<forall>r\<in>set rs. \<exists>e'. Sendable e' \<in> set rest \<and> call_of_entry e' (wr_call r)
             \<and> \<not> (is_phase e' \<and> se_tripId e' = se_tripId e)))"
proof -
  have "se_id e \<in> disposedIds p1 \<or> (\<exists>x. retained p1 (se_id e) = Some x \<and> isPhaseOverridden x)
      \<or> se_tripId e \<in> stalledTripIds p1"
    using assms by (auto simp: flush_entry_def dest: failed_outcome split: if_splits elim!: attempt_snd_cases)
  moreover have "\<exists>rs. w_wire (snd (flush_entries E lease a rest p1 w1)) = w_wire w1 @ rs \<and>
         (\<forall>r\<in>set rs. \<exists>e'. Sendable e' \<in> set rest \<and> call_of_entry e' (wr_call r)
             \<and> \<not> (is_phase e' \<and> se_tripId e' = se_tripId e))" if "se_tripId e \<in> stalledTripIds p1"
  proof -
    obtain rs where rs: "w_wire (snd (flush_entries E lease a rest p1 w1)) = w_wire w1 @ rs"
      "\<And>r. r \<in> set rs \<Longrightarrow> \<exists>e'. Sendable e' \<in> set rest \<and> sendable_in p1 a e' \<and> sent_for e' (lease_generation lease) r"
      using flush_entries_sends[of rest p1 a lease w1 E] by (auto simp: sends_only_def list_all_iff)
    have "\<exists>e'. Sendable e' \<in> set rest \<and> call_of_entry e' (wr_call r) \<and> \<not> (is_phase e' \<and> se_tripId e' = se_tripId e)"
      if r: "r \<in> set rs" for r
      using rs(2)[OF r] \<open>se_tripId e \<in> stalledTripIds p1\<close> by (auto simp: sendable_in_def sent_for_def)
    then show ?thesis using rs(1) by blast
  qed
  ultimately show ?thesis by blast
qed

section \<open>Only finished captures go\<close>

text \<open>What has to have happened for an entry to be cleared, or to be marked with a refusal.\<close>

definition finished_by :: "env \<Rightarrow> actor_lease \<Rightarrow> sendable_entry \<Rightarrow> bool" where
  "finished_by E lease e \<longleftrightarrow> (\<exists>u v. isActorLeaseCurrent lease (w_custody u) \<and>
     (sendEntry E e u = (Inr (), v) \<or> (\<exists>err. sendEntry E e u = (Inl err, v) \<and> proven_duplicate err)))"

definition refused_with :: "env \<Rightarrow> actor_lease \<Rightarrow> sendable_entry \<Rightarrow> retained_attention \<Rightarrow> bool" where
  "refused_with E lease e a \<longleftrightarrow> (\<exists>u v err. isActorLeaseCurrent lease (w_custody u) \<and>
     sendEntry E e u = (Inl err, v) \<and> classifyLiveWriteFailure (now_of E v) err = Retain a)"

definition justified :: "env \<Rightarrow> actor_lease \<Rightarrow> string option \<Rightarrow> queue_entry list \<Rightarrow> flush_pass \<Rightarrow> bool" where
  "justified E lease actorId es p \<longleftrightarrow>
     (\<forall>i\<in>disposedIds p. \<exists>e. Sendable e \<in> set es \<and> se_id e = i \<and> isSendableNow e actorId \<and> finished_by E lease e) \<and>
     (\<forall>i a. retained p i = Some a \<longrightarrow>
        (\<exists>e. Sendable e \<in> set es \<and> se_id e = i \<and> isSendableNow e actorId \<and> refused_with E lease e a))"

lemma entry_justified:
  assumes "justified E lease actorId es p" "entry \<in> set es" "isActorLeaseCurrent lease (w_custody w)"
  shows "justified E lease actorId es (fst (flush_entry E actorId entry p w))"
proof (cases "\<exists>e. entry = Sendable e \<and> sendable_in p actorId e")
  case False
  then have "flush_entry E actorId entry p w = (p, w)"
    by (auto simp: flush_entry_def sendable_in_def split: queue_entry.split)
  then show ?thesis using assms(1) by simp
next
  case True
  then obtain e where e: "entry = Sendable e" "isSendableNow e actorId" "sendable_in p actorId e"
    by (auto simp: sendable_in_def)
  obtain x v where xv: "sendEntry E e w = (x, v)" by force
  have eq: "flush_entry E actorId entry p w = attempt (x, v) (\<lambda>err w1. entry_failed E e err p w1)
      (\<lambda>_ w1. (p\<lparr>disposedIds := insert (se_id e) (disposedIds p)\<rparr>, w1))"
    using e xv by (auto simp: flush_entry_def sendable_in_def)
  show ?thesis
  proof (cases x)
    case (Inr u)
    then have "finished_by E lease e" using xv assms(3) unfolding finished_by_def by auto
    then show ?thesis using eq Inr assms(1,2) e by (auto simp: justified_def)
  next
    case (Inl err)
    have fin: "finished_by E lease e" if "classifyLiveWriteFailure now err = Duplicate d" for now d
      using that xv Inl assms(3) classify_duplicate_iff unfolding finished_by_def by blast
    have ref: "refused_with E lease e a" if "classifyLiveWriteFailure (now_of E v) err = Retain a" for a
      using that xv Inl assms(3) unfolding refused_with_def by blast
    show ?thesis
      using eq Inl assms(1,2) e
      by (auto simp: justified_def entry_failed_def Let_def dest!: fin ref split: live_write_failure.splits)
  qed
qed

lemma entries_justified:
  "justified E lease actorId es p \<Longrightarrow> set fs \<subseteq> set es \<Longrightarrow>
     justified E lease actorId es (fst (flush_entries E lease actorId fs p w))"
proof (induction fs arbitrary: p w)
  case (Cons f fs)
  obtain q u where qu: "flush_entry E actorId f p w = (q, u)" by force
  show ?case
    using Cons.IH[of q u] entry_justified[of E lease actorId es p f w] Cons.prems qu
    by (cases "isActorLeaseCurrent lease (w_custody w)") simp_all
qed simp

lemma send_queue_justified:
  "justified E lease (currentActorId (w_custody w)) (loadQueue (w_ls w)) (fst (send_queue E lease w))"
  unfolding send_queue_def by (rule entries_justified) (simp_all add: justified_def new_pass_def)

text \<open>An id is cleared by a pass only if an entry with that id was accepted by the server,
  or proven to be recorded there already, while its own driver was signed in; and an entry is
  marked only with the refusal the server gave it.\<close>

theorem pass_is_justified:
  assumes "send_queue E lease w = (p, w')"
  shows "(\<forall>i\<in>disposedIds p. \<exists>e u v. Sendable e \<in> set (loadQueue (w_ls w)) \<and> se_id e = i
        \<and> isActorLeaseCurrent lease (w_custody u)
        \<and> (sendEntry E e u = (Inr (), v) \<or> (\<exists>err. sendEntry E e u = (Inl err, v) \<and> proven_duplicate err)))
    \<and> (\<forall>i a. retained p i = Some a \<longrightarrow> (\<exists>e u v err. Sendable e \<in> set (loadQueue (w_ls w)) \<and> se_id e = i
        \<and> sendEntry E e u = (Inl err, v) \<and> classifyLiveWriteFailure (now_of E v) err = Retain a))"
  using send_queue_justified[of E lease w] assms
  unfolding justified_def finished_by_def refused_with_def by (simp only: fst_conv) blast

section \<open>Nothing is lost\<close>

text \<open>
  The same capture in a later version of the queue: identity and content, and the capturer with the
  custody period unless it had none when it was stored.
\<close>

definition same_capture :: "sendable_entry \<Rightarrow> sendable_entry \<Rightarrow> bool" where
  "same_capture e e' \<longleftrightarrow> se_id e' = se_id e \<and> se_tripId e' = se_tripId e \<and> se_enqueuedAt e' = se_enqueuedAt e
     \<and> se_body e' = se_body e
     \<and> (se_actorId e \<noteq> Undef \<longrightarrow> se_actorId e' = se_actorId e \<and> se_custodySequence e' = se_custodySequence e)"

definition holds_capture :: "sendable_entry \<Rightarrow> queue_entry list \<Rightarrow> bool" where
  "holds_capture e es \<longleftrightarrow> (\<exists>e'. Sendable e' \<in> set es \<and> same_capture e e')
     \<and> (\<forall>e'. Sendable e' \<in> set es \<longrightarrow> se_id e' = se_id e \<longrightarrow> same_capture e e')
     \<and> (\<forall>l. Legacy l \<in> set es \<longrightarrow> le_id l \<noteq> se_id e)"

lemma migrateEntries_set:
  "x \<in> set (migrateEntries now u n es) \<Longrightarrow> \<exists>y\<in>set es. \<exists>k. x = migrateEntry now (u k) y"
  by (induction es arbitrary: n) auto

lemma migrateEntries_has:
  "y \<in> set es \<Longrightarrow> \<exists>k. migrateEntry now (u k) y \<in> set (migrateEntries now u n es)"
  by (induction es arbitrary: n) auto

definition migrated_sendable :: "sendable_entry \<Rightarrow> sendable_entry" where
  "migrated_sendable e = (if se_actorId e \<noteq> Undef then e else quarantine e)"

lemma migrateEntry_Sendable: "migrateEntry now f (Sendable e) = Sendable (migrated_sendable e)"
  by (simp add: migrated_sendable_def)

lemma migrateEntry_is_Sendable:
  "migrateEntry now f y = Sendable x \<Longrightarrow> \<exists>e. y = Sendable e \<and> x = migrated_sendable e"
  by (cases "(now, f, y)" rule: migrateEntry.cases)
    (auto simp: migrated_sendable_def split: if_splits option.splits bool.splits)

lemma migrateEntry_is_Legacy: "migrateEntry now f y = Legacy l \<Longrightarrow> y = Legacy l"
  by (cases "(now, f, y)" rule: migrateEntry.cases) (auto split: if_splits option.splits bool.splits)

lemma same_migrated: "same_capture e e' \<Longrightarrow> same_capture e (migrated_sendable e')"
  by (auto simp: same_capture_def migrated_sendable_def quarantine_def)

lemma migrated_id [simp]: "se_id (migrated_sendable e) = se_id e"
  by (simp add: migrated_sendable_def quarantine_def)

lemma holds_migrate: "holds_capture e es \<Longrightarrow> holds_capture e (migrateEntries now u n es)"
  unfolding holds_capture_def
proof (elim conjE exE, intro conjI allI impI)
  fix e' assume "Sendable e' \<in> set es" "same_capture e e'"
  then show "\<exists>e'. Sendable e' \<in> set (migrateEntries now u n es) \<and> same_capture e e'"
    using migrateEntries_has[of "Sendable e'" es now u n] same_migrated
    unfolding migrateEntry_Sendable by blast
next
  fix x assume all: "\<forall>e'. Sendable e' \<in> set es \<longrightarrow> se_id e' = se_id e \<longrightarrow> same_capture e e'"
    and x: "Sendable x \<in> set (migrateEntries now u n es)" "se_id x = se_id e"
  obtain y where "Sendable y \<in> set es" "x = migrated_sendable y"
    using migrateEntries_set[OF x(1)] migrateEntry_is_Sendable by metis
  then show "same_capture e x" using all x(2) same_migrated by simp
next
  fix l assume "\<forall>l. Legacy l \<in> set es \<longrightarrow> le_id l \<noteq> se_id e" "Legacy l \<in> set (migrateEntries now u n es)"
  then show "le_id l \<noteq> se_id e" using migrateEntries_set migrateEntry_is_Legacy by metis
qed

definition marked :: "flush_pass \<Rightarrow> sendable_entry \<Rightarrow> sendable_entry" where
  "marked p e = (case retained p (se_id e) of None \<Rightarrow> e
     | Some a \<Rightarrow> e\<lparr>se_status := Some Needs_attention, se_attention := Val a\<rparr>)"

lemma apply_pass_eq:
  "apply_pass p es = map (\<lambda>entry. case entry of Sendable e \<Rightarrow> Sendable (marked p e) | other \<Rightarrow> other)
     (filter (\<lambda>entry. \<not> (\<exists>i\<in>disposedIds p. entry_id entry = Some i)) es)"
  unfolding apply_pass_def marked_def
  by (intro map_cong refl) (auto split: queue_entry.split option.split)

lemma apply_pass_Sendable:
  "Sendable x \<in> set (apply_pass p es) \<longleftrightarrow> (\<exists>e. Sendable e \<in> set es \<and> se_id e \<notin> disposedIds p \<and> x = marked p e)"
proof
  assume "Sendable x \<in> set (apply_pass p es)"
  then obtain y where "y \<in> set es" "\<not> (\<exists>i\<in>disposedIds p. entry_id y = Some i)"
    "Sendable x = (case y of Sendable e \<Rightarrow> Sendable (marked p e) | other \<Rightarrow> other)"
    unfolding apply_pass_eq by auto
  then show "\<exists>e. Sendable e \<in> set es \<and> se_id e \<notin> disposedIds p \<and> x = marked p e"
    by - (cases y, auto)
next
  assume "\<exists>e. Sendable e \<in> set es \<and> se_id e \<notin> disposedIds p \<and> x = marked p e"
  then obtain e where e: "Sendable e \<in> set es" "se_id e \<notin> disposedIds p" "x = marked p e" by blast
  have "Sendable x = (case Sendable e of Sendable e \<Rightarrow> Sendable (marked p e) | other \<Rightarrow> other)" using e(3) by simp
  then show "Sendable x \<in> set (apply_pass p es)"
    unfolding apply_pass_eq using e(1,2) by (auto intro!: image_eqI[of _ _ "Sendable e"])
qed

lemma apply_pass_Legacy: "Legacy l \<in> set (apply_pass p es) \<Longrightarrow> Legacy l \<in> set es"
  by (auto simp: apply_pass_eq split: queue_entry.splits)

lemma same_marked: "same_capture e e' \<Longrightarrow> same_capture e (marked p e')" "se_id (marked p e) = se_id e"
  by (auto simp: same_capture_def marked_def split: option.split)

lemma holds_apply: "se_id e \<notin> disposedIds p \<Longrightarrow> holds_capture e es \<Longrightarrow> holds_capture e (apply_pass p es)"
  unfolding holds_capture_def
proof (elim conjE exE, intro conjI allI impI)
  fix e' assume d: "se_id e \<notin> disposedIds p" and e': "Sendable e' \<in> set es" "same_capture e e'"
  have "se_id e' \<notin> disposedIds p" using d e'(2) by (simp add: same_capture_def)
  then have "Sendable (marked p e') \<in> set (apply_pass p es)" using e'(1) by (auto simp: apply_pass_Sendable)
  then show "\<exists>e'. Sendable e' \<in> set (apply_pass p es) \<and> same_capture e e'" using same_marked(1)[OF e'(2)] by blast
next
  fix x assume all: "\<forall>e'. Sendable e' \<in> set es \<longrightarrow> se_id e' = se_id e \<longrightarrow> same_capture e e'"
    and x: "Sendable x \<in> set (apply_pass p es)" "se_id x = se_id e"
  then obtain y where "Sendable y \<in> set es" "x = marked p y" by (auto simp: apply_pass_Sendable)
  then show "same_capture e x" using all x(2) same_marked by auto
qed (auto dest: apply_pass_Legacy)

lemma holds_drop:
  assumes "\<forall>i\<in>set ids. i \<noteq> se_id e" "holds_capture e es"
  shows "holds_capture e (filter (\<lambda>x. \<not> (\<exists>i\<in>set ids. entry_id x = Some i)) es)"
proof -
  obtain e' where e': "Sendable e' \<in> set es" "same_capture e e'" using assms(2) by (auto simp: holds_capture_def)
  then have "se_id e' \<notin> set ids" using assms(1) by (auto simp: same_capture_def)
  then have "Sendable e' \<in> set (filter (\<lambda>x. \<not> (\<exists>i\<in>set ids. entry_id x = Some i)) es)" using e'(1) by auto
  then show ?thesis using assms(2) e'(2) unfolding holds_capture_def by auto
qed

interpretation kept_entry: capture_invariant "holds_capture e" "\<lambda>_. True" "\<lambda>i. i \<noteq> se_id e" "\<lambda>p. se_id e \<notin> disposedIds p"
  for e :: sendable_entry
proof unfold_locales
  fix es now u n l ids p
  show "holds_capture e (migrateEntries now u n es)" if "holds_capture e es" using that by (rule holds_migrate)
  show "le_id l \<noteq> se_id e" if "holds_capture e es" "Legacy l \<in> set es" using that by (simp add: holds_capture_def)
  show "holds_capture e (filter (\<lambda>x. \<not> (\<exists>i\<in>set ids. entry_id x = Some i)) es)"
    if "\<forall>i\<in>set ids. i \<noteq> se_id e" "holds_capture e es" using that by (rule holds_drop)
  show "holds_capture e (apply_pass p es)" if "se_id e \<notin> disposedIds p" "holds_capture e es"
    using that by (rule holds_apply)
qed simp_all


section \<open>Examples\<close>

definition demo_lease :: actor_lease where
  "demo_lease = \<lparr>lease_actorId = ''A'', lease_generation = 0\<rparr>"

definition other_entry :: sendable_entry where
  "other_entry = (demo_phase_entry ''b'')\<lparr>se_actorId := Val ''B''\<rparr>"

lemma demo_queue [simp]: "loadQueue (w_ls (demo_world es)) = es"
  by (simp add: demo_world_def phone_storage_def loadQueue_def)

lemma demo_actor [simp]: "currentActorId (w_custody (demo_world es)) = Some ''A''"
  by (simp add: demo_world_def currentActorId_def)

lemma queue_sends_only_own_pending_witness:
  "w_wire (snd (send_queue quiet demo_lease (demo_world [Sendable other_entry]))) = w_wire (demo_world [Sendable other_entry])"
proof -
  obtain rs where "w_wire (snd (send_queue quiet demo_lease (demo_world [Sendable other_entry]))) =
      w_wire (demo_world [Sendable other_entry]) @ rs"
    "\<forall>r\<in>set rs. \<exists>e. Sendable e \<in> {Sendable other_entry} \<and> se_actorId e = Val (lease_actorId demo_lease)"
    using queue_sends_only_own_pending[of quiet demo_lease "demo_world [Sendable other_entry]"] by fastforce
  then show ?thesis by (cases rs) (auto simp: other_entry_def demo_lease_def)
qed

lemma phases_never_overtake_witness:
  "case flush_entry quiet (Some ''A'') (Sendable (demo_phase_entry ''e'')) new_pass (demo_world []) of (p1, w1) \<Rightarrow>
     ''e'' \<in> disposedIds p1 \<or> (\<exists>x. retained p1 ''e'' = Some x \<and> isPhaseOverridden x)
    \<or> (\<exists>rs. w_wire (snd (flush_entries quiet demo_lease (Some ''A'') [Sendable (demo_phase_entry ''f'')] p1 w1)) = w_wire w1 @ rs \<and>
         (\<forall>r\<in>set rs. \<exists>e'. Sendable e' \<in> {Sendable (demo_phase_entry ''f'')} \<and> call_of_entry e' (wr_call r)
             \<and> \<not> (is_phase e' \<and> se_tripId e' = ''T'')))"
proof -
  obtain p1 w1 where fe: "flush_entry quiet (Some ''A'') (Sendable (demo_phase_entry ''e'')) new_pass (demo_world []) = (p1, w1)"
    by force
  have "is_phase (demo_phase_entry ''e'')" "isSendableNow (demo_phase_entry ''e'') (Some ''A'')"
    by (simp_all add: demo_phase_entry_def is_phase_def isSendableNow_def)
  from phases_never_overtake[OF fe this, where lease = demo_lease and rest = "[Sendable (demo_phase_entry ''f'')]"]
  show ?thesis unfolding fe by (simp add: demo_phase_entry_def)
qed

lemma demo_pass:
  "''e'' \<in> disposedIds (fst (send_queue already_recorded demo_lease (demo_world [Sendable (demo_phase_entry ''e'')])))"
proof -
  let ?w = "demo_world [Sendable (demo_phase_entry ''e'')]"
  have sent: "fst (sendEntry already_recorded (demo_phase_entry ''e'') ?w) = Inl recorded_error"
    by (simp add: submit_defs demo_phase_entry_def demo_capture_def already_recorded_def answer_def Let_def
      readError_def code_of_text_def KNOWN_CODES_def retryAfterMilliseconds_def SESSION_SUPERSEDED_MESSAGE_def
      recorded_error_def emptyEvidence_def)
  have dup: "classifyLiveWriteFailure now recorded_error = Duplicate None" for now
    by (simp add: recorded_error_def ae_code_def)
  obtain w1 where run: "sendEntry already_recorded (demo_phase_entry ''e'') ?w = (Inl recorded_error, w1)"
    using sent by (cases "sendEntry already_recorded (demo_phase_entry ''e'') ?w") auto
  have "isSendableNow (demo_phase_entry ''e'') (Some ''A'')" "se_id (demo_phase_entry ''e'') = ''e''"
    by (simp_all add: isSendableNow_def demo_phase_entry_def)
  then have "flush_entry already_recorded (Some ''A'') (Sendable (demo_phase_entry ''e'')) new_pass ?w
      = (new_pass\<lparr>disposedIds := {''e''}\<rparr>, w1)"
    by (simp add: flush_entry_def run entry_failed_def dup new_pass_def)
  moreover have "isActorLeaseCurrent demo_lease (w_custody ?w)"
    by (simp add: isActorLeaseCurrent_def demo_lease_def demo_world_def initialModule_def)
  ultimately show ?thesis by (simp add: send_queue_def demo_queue demo_actor)
qed

lemma pass_is_justified_witness:
  "\<exists>e u v. Sendable e = Sendable (demo_phase_entry ''e'') \<and> isActorLeaseCurrent demo_lease (w_custody u)
    \<and> (sendEntry already_recorded e u = (Inr (), v)
        \<or> (\<exists>err. sendEntry already_recorded e u = (Inl err, v) \<and> proven_duplicate err))"
proof -
  let ?w = "demo_world [Sendable (demo_phase_entry ''e'')]"
  obtain p w' where sq: "send_queue already_recorded demo_lease ?w = (p, w')" by force
  have "''e'' \<in> disposedIds p" using demo_pass by (simp add: sq)
  then show ?thesis using pass_is_justified[OF sq] by (fastforce simp: demo_queue)
qed


section \<open>What the driver sees\<close>

definition total :: "queue_counts \<Rightarrow> nat" where
  "total q = qc_pending q + qc_attention q + qc_otherAccounts q"

lemma total_one [simp]: "total (count_one c q) = Suc (total q)"
  by (cases c) (simp_all add: total_def)

lemma total_fold: "total (fold (\<lambda>x. count_one (f x)) xs q) = total q + length xs"
  by (induction xs arbitrary: q) auto

lemma total_simps [simp]: "total no_counts = 0" "total (add_counts p q) = total p + total q"
  by (simp_all add: total_def no_counts_def add_counts_def)

text \<open>The counts the driver sees leave nothing out: after a refresh that could read the
  report store, what waits, what needs attention and what is held for other accounts add up to
  everything that is stored in the queue and in the report store, each item counted once.\<close>

theorem counts_cover_everything:
  assumes "transact E (\<lambda>_ db. (listExceptionEnvelopes db, db)) w = (Inr es, w1)"
  shows "qc_pending (w_published (refreshExceptionCounts E w)) + qc_attention (w_published (refreshExceptionCounts E w))
      + qc_otherAccounts (w_published (refreshExceptionCounts E w)) = length (loadQueue (w_ls w1)) + length es"
proof -
  have "total (w_published (refreshExceptionCounts E w)) = length (loadQueue (w_ls w1)) + length es"
    by (simp add: refreshExceptionCounts_def assms publishCounts_def localQueueCounts_def envelope_counts_def
        total_fold Let_def)
  then show ?thesis by (simp add: total_def)
qed

lemma counts_cover_everything_witness:
  "qc_pending (w_published (refreshExceptionCounts quiet (demo_world [Sendable other_entry])))
   + qc_attention (w_published (refreshExceptionCounts quiet (demo_world [Sendable other_entry])))
   + qc_otherAccounts (w_published (refreshExceptionCounts quiet (demo_world [Sendable other_entry]))) = 1"
proof -
  let ?w = "demo_world [Sendable other_entry]"
  have "transact quiet (\<lambda>_ db. (listExceptionEnvelopes db, db)) ?w = (Inr [], ?w\<lparr>w_tick := 2\<rparr>)"
    by (simp add: transact_def Let_def demo_world_def listExceptionEnvelopes_def numeral_2_eq_2)
  from counts_cover_everything[OF this] show ?thesis by simp
qed

section \<open>Try again\<close>

definition parked :: "sendable_entry \<Rightarrow> queue_entry list \<Rightarrow> bool" where
  "parked e es \<longleftrightarrow> Sendable e \<in> set es \<and> (\<forall>e'. Sendable e' \<in> set es \<longrightarrow> se_id e' = se_id e \<longrightarrow> e' = e)
     \<and> (\<forall>l. Legacy l \<in> set es \<longrightarrow> le_id l \<noteq> se_id e) \<and> se_actorId e \<noteq> Undef"

lemma parked_migrate: "parked e es \<Longrightarrow> parked e (migrateEntries now u n es)"
  unfolding parked_def
proof (elim conjE, intro conjI allI impI)
  assume "Sendable e \<in> set es" "se_actorId e \<noteq> Undef"
  then show "Sendable e \<in> set (migrateEntries now u n es)"
    using migrateEntries_has[of "Sendable e" es now u n] unfolding migrateEntry_Sendable
    by (simp add: migrated_sendable_def)
next
  fix x assume all: "\<forall>e'. Sendable e' \<in> set es \<longrightarrow> se_id e' = se_id e \<longrightarrow> e' = e" and e: "se_actorId e \<noteq> Undef"
    and x: "Sendable x \<in> set (migrateEntries now u n es)" "se_id x = se_id e"
  obtain y where "Sendable y \<in> set es" "x = migrated_sendable y"
    using migrateEntries_set[OF x(1)] migrateEntry_is_Sendable by metis
  then show "x = e" using all x(2) e by (auto simp: migrated_sendable_def quarantine_def split: if_splits)
next
  fix l assume "\<forall>l. Legacy l \<in> set es \<longrightarrow> le_id l \<noteq> se_id e" "Legacy l \<in> set (migrateEntries now u n es)"
  then show "le_id l \<noteq> se_id e" using migrateEntries_set migrateEntry_is_Legacy by metis
qed

lemma parked_map:
  assumes "parked e es" "f (Sendable e) = Sendable e"
    "\<And>x y. f x = Sendable y \<Longrightarrow> \<exists>z. x = Sendable z \<and> se_id z = se_id y" "\<And>x l. f x = Legacy l \<Longrightarrow> x = Legacy l"
  shows "parked e (map f es)"
  unfolding parked_def
proof (intro conjI allI impI)
  show "Sendable e \<in> set (map f es)" using assms(1,2) by (force simp: parked_def)
  show "x = e" if x: "Sendable x \<in> set (map f es)" "se_id x = se_id e" for x
  proof -
    obtain y where y: "y \<in> set es" "f y = Sendable x" using x(1) by auto
    obtain z where z: "y = Sendable z" "se_id z = se_id x" using assms(3)[OF y(2)] by blast
    then have "z = e" using assms(1) x(2) y(1) by (simp add: parked_def)
    then show ?thesis using assms(2) y(2) z(1) by simp
  qed
  show "le_id l \<noteq> se_id e" if l: "Legacy l \<in> set (map f es)" for l
  proof -
    obtain y where "y \<in> set es" "Legacy l = f y" using l by auto
    then show ?thesis using assms(1) assms(4)[of y l] by (auto simp: parked_def)
  qed
qed (use assms(1) in \<open>simp add: parked_def\<close>)

definition untouched :: "sendable_entry \<Rightarrow> flush_pass \<Rightarrow> bool" where
  "untouched e p \<longleftrightarrow> se_id e \<notin> disposedIds p \<and> retained p (se_id e) = None"

lemma parked_filter:
  "parked e es \<Longrightarrow> P (Sendable e) \<Longrightarrow> parked e (filter P es)"
  by (auto simp: parked_def)

lemma parked_apply:
  assumes "untouched e p" "parked e es"
  shows "parked e (apply_pass p es)"
  unfolding apply_pass_eq
proof (rule parked_map[OF parked_filter[OF assms(2)]])
  show "\<not> (\<exists>i\<in>disposedIds p. entry_id (Sendable e) = Some i)" using assms(1) by (simp add: untouched_def)
  show "(case Sendable e of Sendable e \<Rightarrow> Sendable (marked p e) | other \<Rightarrow> other) = Sendable e"
    using assms(1) by (simp add: untouched_def marked_def)
  show "\<exists>z. x = Sendable z \<and> se_id z = se_id y"
    if "(case x of Sendable e \<Rightarrow> Sendable (marked p e) | other \<Rightarrow> other) = Sendable y" for x y
    using that same_marked(2) by - (cases x, auto)
  show "x = Legacy l" if "(case x of Sendable e \<Rightarrow> Sendable (marked p e) | other \<Rightarrow> other) = Legacy l" for x l
    using that by - (cases x, auto)
qed

interpretation parked_entry: capture_invariant "parked e" "\<lambda>_. True" "\<lambda>i. i \<noteq> se_id e" "untouched e"
  for e :: sendable_entry
proof unfold_locales
  fix es now u n l ids p
  show "parked e (migrateEntries now u n es)" if "parked e es" using that by (rule parked_migrate)
  show "le_id l \<noteq> se_id e" if "parked e es" "Legacy l \<in> set es" using that by (simp add: parked_def)
  show "parked e (filter (\<lambda>x. \<not> (\<exists>i\<in>set ids. entry_id x = Some i)) es)"
    if "\<forall>i\<in>set ids. i \<noteq> se_id e" "parked e es" using that by (intro parked_filter) auto
  show "parked e (apply_pass p es)" if "untouched e p" "parked e es"
    using that by (rule parked_apply)
qed simp_all

lemma retry_envelopes_rel:
  "guarded E (parked_entry.stored e) w (retry_envelopes E a es w)"
proof (induction es arbitrary: w)
  case (Cons x es)
  let ?t = "transact E (\<lambda>now db. ((), resetExceptionToPending now (env_clientReportId x) db)) w"
  have t: "guarded E (parked_entry.stored e) w (snd ?t)"
    by (rule transact_guarded) (simp add: parked_entry.stored_def)
  obtain y u where yu: "?t = (y, u)" by force
  have "guarded E (parked_entry.stored e) w u" using t yu by simp
  from this guarded.rel_trans[OF this Cons.IH] Cons.IH[of w] show ?case using yu by (cases y) simp_all
qed (simp add: guarded.rel_refl)

lemma retry_entry_fixed:
  "se_attention e = Val a \<Longrightarrow> isCustodyConflict a \<or> isPhaseOverridden a \<Longrightarrow> retry_entry actorId (Sendable e) = Sendable e"
  by (auto simp: retry_entry_def retryable_attention_def)

text \<open>Trying again never resends what can only be refused again: a capture refused because
  custody moved on, or because dispatch overrode its phase, stays exactly as it is, marked with its
  reason and waiting for the driver, through the retry and the flush that follows it.\<close>

theorem conflict_is_never_retried:
  assumes "parked e (loadQueue (w_ls w))" "se_status e = Some Needs_attention" "se_attention e = Val a"
    "isCustodyConflict a \<or> isPhaseOverridden a" "undisturbed E (\<lambda>ls db. parked e (loadQueue ls))"
  shows "Sendable e \<in> set (loadQueue (w_ls (retryAttention E w)))"
proof -
  have st: "parked_entry.stored e = (\<lambda>ls db. parked e (loadQueue ls))"
    by (simp add: fun_eq_iff parked_entry.stored_def)
  let ?a = "currentActorId (w_custody w)"
  let ?t = "transact E (\<lambda>_ db. (listExceptionEnvelopes db, db)) w"
  define w1 where "w1 = (case ?t of (Inl _, w1) \<Rightarrow> w1 | (Inr envelopes, w1) \<Rightarrow> retry_envelopes E ?a envelopes w1)"
  obtain x u where xu: "?t = (x, u)" by force
  have u: "guarded E (parked_entry.stored e) w u"
    using parked_entry.read_rel[of E e w listExceptionEnvelopes] xu by simp
  have 1: "guarded E (parked_entry.stored e) w w1"
    using u guarded.rel_trans[OF u retry_envelopes_rel] xu by (cases x) (simp_all add: w1_def)
  have "parked e es \<Longrightarrow> parked e (map (retry_entry ?a) es)" for es
    by (rule parked_map) (use retry_entry_fixed[OF assms(3,4)] in
      \<open>auto simp: retry_entry_def split: queue_entry.splits if_splits\<close>)
  then have "guarded E (parked_entry.stored e) w1 (snd (ls_update E (map (retry_entry ?a)) w1))"
    unfolding ls_update_def by (intro parked_entry.save_rel)
  from guarded.rel_trans[OF guarded.rel_trans[OF 1 this] parked_entry.refresh_rel]
  have 2: "guarded E (parked_entry.stored e) w (refreshExceptionCounts E (snd (ls_update E (map (retry_entry ?a)) w1)))"
    (is "guarded _ _ _ ?w2") .
  have p2: "parked e (loadQueue (w_ls ?w2))" using 2 assms(1,5) unfolding st guarded_def keeps_def by blast
  have "guarded E (parked_entry.stored e) ?w2 (flushQueue E ?w2)"
  proof (rule parked_entry.flush_rel)
    fix l u p v
    assume pr: "flush_prepare E ?w2 = (Some l, u)" and sq: "send_queue E l u = (p, v)"
    have "parked e (loadQueue (w_ls u))"
      using parked_entry.prepare_rel[of E e ?w2] pr p2 assms(5) unfolding st guarded_def keeps_def by simp
    moreover have "\<not> isSendableNow e (currentActorId (w_custody u))" using assms(2) by (simp add: isSendableNow_def)
    moreover have "justified E l (currentActorId (w_custody u)) (loadQueue (w_ls u)) p"
      using send_queue_justified[of E l u] sq by simp
    ultimately show "untouched e p"
      unfolding untouched_def justified_def parked_def by (cases "retained p (se_id e)") auto
  qed
  then have "parked e (loadQueue (w_ls (flushQueue E ?w2)))"
    using p2 assms(5) unfolding st guarded_def keeps_def by blast
  then show ?thesis by (simp add: retryAttention_def w1_def Let_def parked_def)
qed

definition parked_demo :: sendable_entry where
  "parked_demo = (demo_phase_entry ''p'')\<lparr>se_status := Some Needs_attention,
     se_attention := Val (retainedAttention ''now'' (Some TRIP_HANDED_OVER) 409 [])\<rparr>"

lemma conflict_is_never_retried_witness:
  "Sendable parked_demo \<in> set (loadQueue (w_ls (retryAttention quiet (demo_world [Sendable parked_demo]))))"
  by (rule conflict_is_never_retried[where a = "retainedAttention ''now'' (Some TRIP_HANDED_OVER) 409 []"])
    (simp_all add: parked_def parked_demo_def demo_phase_entry_def isCustodyConflict_def retainedAttention_def
      undisturbed_def)

section \<open>One flush at a time\<close>

text \<open>One flush runs at a time: while one is in flight, another one started by any mounted
  screen, timer or account change does nothing at all.\<close>

theorem one_flush_at_a_time:
  "w_flushing w \<longrightarrow> flushQueue E w = w"
  by (simp add: flushQueue_def)

end
