(* ===== verification/Enqueue.thy ===== *)
theory Enqueue
  imports FlushSafety
begin

text \<open>
  Putting captures into the offline queue and the report store (\<open>lib/hooks/useOfflineQueue.ts\<close>):
  what enqueueing a phase leaves in the queue, and the two ways an incident report reaches the store,
  both under the report's lock.
\<close>

section \<open>Enqueueing\<close>

lemma append_entry_effect:
  assumes "migrated (w_ls w)" "append_entry E e w = (ok, w')"
  shows "migrated (w_ls w') \<and> loadQueue (w_ls w') = (if ok then loadQueue (w_ls w) @ [Sendable e] else loadQueue (w_ls w))
    \<and> w_custody w' = w_custody w \<and> w_tick w' = w_tick w"
  using assms migrated_saveE[OF assms(1)] unfolding append_entry_def ls_save_def by (auto split: prod.splits)

lemma publish_frame [simp]: "w_ls (publishCounts w) = w_ls w"
  by (simp add: publishCounts_def)

text \<open>
  The entry that an enqueued phase becomes: its own trip, instant and evidence (the derived PDF copy
  perhaps left out), the given stamp, the wire key of the attempt, and its mark if it was refused.
\<close>

definition queued_as :: "string \<Rightarrow> phase_capture \<Rightarrow> custody_stamp \<Rightarrow> retained_attention option \<Rightarrow> string option
    \<Rightarrow> sendable_entry \<Rightarrow> bool" where
  "queued_as tripId c stamp attn key e \<longleftrightarrow> se_tripId e = tripId
     \<and> se_actorId e = nullable (stamp_actorId stamp) \<and> se_custodySequence e = nullable (stamp_custodySequence stamp)
     \<and> se_status e = Some (if attn = None then Pending else Needs_attention)
     \<and> coalesce (se_attention e) = attn
     \<and> (let p = c\<lparr>pc_idempotencyKey := (case key of None \<Rightarrow> se_id e | Some k \<Rightarrow> k)\<rparr>
        in se_body e = Phase_capture p \<or> se_body e = Phase_capture (without_pdf p))"

lemma enqueue_effect:
  assumes "migrated (w_ls w)" "enqueuePhase E tripId c custody attn key w = (ok, w')"
  shows "migrated (w_ls w') \<and> (\<not> ok \<longrightarrow> loadQueue (w_ls w') = loadQueue (w_ls w))
    \<and> (ok \<longrightarrow> (\<exists>e. loadQueue (w_ls w') = loadQueue (w_ls w) @ [Sendable e]
           \<and> queued_as tripId c (stampFor tripId custody w) attn key e))"
proof -
  obtain i w1 where r: "randomUUID E w = (i, w1)" by force
  have w1: "w_ls w1 = w_ls w" "stampFor t cu w1 = stampFor t cu w" for t cu
    using r by (auto simp: randomUUID_def stampFor_def split: option.split)
  let ?c = "c\<lparr>pc_idempotencyKey := (case key of None \<Rightarrow> i | Some k \<Rightarrow> k)\<rparr>"
  let ?e = "new_entry i tripId (stampFor tripId custody w) attn (now_of E w1) (Phase_capture ?c)"
  let ?e2 = "?e\<lparr>se_body := Phase_capture (without_pdf ?c)\<rparr>"
  obtain ok1 w2 where a: "append_entry E ?e w1 = (ok1, w2)" by force
  have e1: "migrated (w_ls w2)" "loadQueue (w_ls w2) = (if ok1 then loadQueue (w_ls w) @ [Sendable ?e] else loadQueue (w_ls w))"
    using append_entry_effect[OF _ a] assms(1) w1 by auto
  obtain ok2 w3 where b: "append_entry E ?e2 w2 = (ok2, w3)" by force
  have e2: "migrated (w_ls w3)" "loadQueue (w_ls w3) = (if ok2 then loadQueue (w_ls w2) @ [Sendable ?e2] else loadQueue (w_ls w2))"
    using append_entry_effect[OF e1(1) b] by auto
  have cases: "ok = True \<and> ok1 \<and> w' = publishCounts w2
      \<or> \<not> ok1 \<and> ok = ok2 \<and> w' = publishCounts w3 \<or> \<not> ok1 \<and> ok = False \<and> w' = publishCounts w2"
    using assms(2) unfolding enqueuePhase_def r prod.case Let_def w1(2) a b
    by (auto split: bool.splits if_splits)
  then show ?thesis
  proof (elim disjE)
    assume h: "ok = True \<and> ok1 \<and> w' = publishCounts w2"
    show ?thesis using h e1
      by (intro conjI impI exI[of _ ?e]) (auto simp: new_entry_def queued_as_def Let_def split: option.split)
  next
    assume h: "\<not> ok1 \<and> ok = ok2 \<and> w' = publishCounts w3"
    show ?thesis using h e1 e2
      by (intro conjI impI exI[of _ ?e2]) (auto simp: new_entry_def queued_as_def Let_def split: option.split)
  next
    assume h: "\<not> ok1 \<and> ok = False \<and> w' = publishCounts w2"
    show ?thesis using h e1 by simp
  qed
qed

text \<open>Enqueueing a phase tells the truth: it answers that the capture was kept exactly when it
  is in the stored queue, after everything that was there, with the capture's own trip, evidence
  and instant, the capturer and custody period of the moment of capture, and the wire key of an
  interrupted attempt if there was one. Only the derived PDF copy may have been left out, and then
  because storage refused the full entry. When nothing was kept, the queue is as it was.\<close>

theorem enqueue_tells_the_truth:
  assumes "migrated (w_ls w)" "enqueuePhase E tripId c custody attn key w = (ok, w')"
  shows "(\<not> ok \<longrightarrow> loadQueue (w_ls w') = loadQueue (w_ls w)) \<and>
    (ok \<longrightarrow> (\<exists>e p. loadQueue (w_ls w') = loadQueue (w_ls w) @ [Sendable e] \<and> se_body e = Phase_capture p
       \<and> se_tripId e = tripId
       \<and> se_actorId e = nullable (stamp_actorId (stampFor tripId custody w))
       \<and> se_custodySequence e = nullable (stamp_custodySequence (stampFor tripId custody w))
       \<and> se_status e = Some (if attn = None then Pending else Needs_attention)
       \<and> pc_idempotencyKey p = (case key of None \<Rightarrow> se_id e | Some k \<Rightarrow> k)
       \<and> pc_driverCapturedAt p = pc_driverCapturedAt c \<and> pc_phaseEventId p = pc_phaseEventId c
       \<and> (pc_evidence p = pc_evidence c \<or> pc_evidence p = (pc_evidence c)\<lparr>ev_linehaulPdfDataUrl := Null\<rparr>)))"
  using enqueue_effect[OF assms]
  by (force simp: queued_as_def Let_def without_pdf_def)

lemma demo_stamp: "stampFor ''T'' None (demo_world es) = \<lparr>stamp_actorId = Some ''A'', stamp_custodySequence = Some 1\<rparr>"
  by (simp add: stampFor_def captureCustody_def demo_world_def initialModule_def)

lemma enqueue_tells_the_truth_witness:
  "\<exists>e. loadQueue (w_ls (snd (enqueuePhase quiet ''T'' demo_capture None None None (demo_world [])))) = [Sendable e]
     \<and> se_actorId e = Val ''A'' \<and> se_custodySequence e = Val 1"
proof -
  let ?w = "demo_world []"
  have m: "migrated (w_ls ?w)" by (simp add: demo_world_def phone_storage_def migrated_def QUEUE_VERSION_def)
  obtain ok w' where eq: "enqueuePhase quiet ''T'' demo_capture None None None ?w = (ok, w')" by force
  have "ok"
    using eq m by (simp add: enqueuePhase_def randomUUID_def append_entry_def ls_save_def Let_def)
      (simp add: demo_world_def phone_storage_def writeQueue_def migrated_save split: prod.splits bool.splits)
  then show ?thesis
    using enqueue_tells_the_truth[OF m eq] demo_stamp unfolding eq demo_queue by auto
qed

section \<open>Waiting for the lock of a report\<close>

text \<open>
  The caller's continuation, the ticket \<open>t\<close>, is queued unless the lock is free; it runs when a holder
  hands the lock over. \<open>None\<close>: no holder has done so within the given number of awaits.
\<close>

fun wait_turn :: "env \<Rightarrow> nat \<Rightarrow> string \<Rightarrow> ticket \<Rightarrow> world \<Rightarrow> world option" where
  "wait_turn E 0 i t w = None"
| "wait_turn E (Suc n) i t w = (let w1 = await E w in
     if t \<notin> set (waiters (w_locks w1) i) then Some w1 else wait_turn E n i t w1)"

definition take_turn :: "env \<Rightarrow> nat \<Rightarrow> string \<Rightarrow> ticket \<Rightarrow> world \<Rightarrow> world option" where
  "take_turn E n i t w = (case waitReportLock i t (w_locks w) of
       (True, l) \<Rightarrow> Some (await E (w\<lparr>w_locks := l\<rparr>))
     | (False, l) \<Rightarrow> wait_turn E n i t (w\<lparr>w_locks := l\<rparr>))"

section \<open>Storing a report without sending it\<close>

record queued_exception_photo =
  qp_dataUrl :: string
  qp_capturedAt :: iso

text \<open>The photo records, each with an id of its own; a data URL that does not decode throws.\<close>

fun photo_records :: "env \<Rightarrow> queued_exception_photo list \<Rightarrow> world \<Rightarrow> (string + exception_photo list) \<times> world" where
  "photo_records E [] w = (Inr [], w)"
| "photo_records E (p # ps) w = (case randomUUID E w of (i, w1) \<Rightarrow>
     (case dataUrlToBlob (qp_dataUrl p) of
        Inl m \<Rightarrow> (Inl m, w1)
      | Inr b \<Rightarrow> (case photo_records E ps w1 of
            (Inl m, w2) \<Rightarrow> (Inl m, w2)
          | (Inr rs, w2) \<Rightarrow> (Inr (\<lparr>photo_id = i, photo_blob = Some b, photo_capturedAt = qp_capturedAt p,
                photo_uploadedArtifactId = None\<rparr> # rs), w2))))"

text \<open>A photo the caller has uploaded already is recorded by its id alone.\<close>

definition with_known_artifact :: "env \<Rightarrow> iso \<Rightarrow> string option \<Rightarrow> exception_photo list \<Rightarrow> world \<Rightarrow> exception_photo list \<times> world" where
  "with_known_artifact E now known records w =
     (if records = [] \<and> known \<notin> {None, Some []}
      then (case randomUUID E w of (i, w1) \<Rightarrow> ([\<lparr>photo_id = i, photo_blob = None, photo_capturedAt = now,
              photo_uploadedArtifactId = known\<rparr>], w1))
      else (records, w))"

definition new_envelope :: "string \<Rightarrow> string \<Rightarrow> raise_exception_body \<Rightarrow> exception_photo list \<Rightarrow> custody_stamp \<Rightarrow> iso \<Rightarrow> exception_envelope" where
  "new_envelope i tripId body photos stamp now =
     \<lparr>env_clientReportId = i, env_tripId = tripId,
      env_body = body\<lparr>reb_custody_sequence := (case reb_custody_sequence body of
          None \<Rightarrow> stamp_custodySequence stamp | Some k \<Rightarrow> Some k)\<rparr>,
      env_photos = photos, env_status = Pending, env_attentionReason = None, env_attentionPhotoId = None,
      env_actorId = nullable (stamp_actorId stamp), env_attention = Undef, env_createdAt = now, env_updatedAt = now\<rparr>"

text \<open>The answer is whether the report was kept, with how many photos; \<open>None\<close>: still waiting.\<close>

definition enqueueException :: "env \<Rightarrow> nat \<Rightarrow> ticket \<Rightarrow> string \<Rightarrow> raise_exception_body \<Rightarrow> queued_exception_photo list \<Rightarrow> world
    \<Rightarrow> ((bool \<times> nat) \<times> world) option" where
  "enqueueException E n t tripId body photos w =
     (case (case reb_client_report_id body of Some i \<Rightarrow> (i, w) | None \<Rightarrow> randomUUID E w) of (i, w0) \<Rightarrow>
      let now = now_of E w0; stamp = captureCustody tripId (w_custody w0) in
      (case photo_records E photos w0 of
         (Inl _, w1) \<Rightarrow> Some ((False, 0), w1)
       | (Inr decoded, w1) \<Rightarrow>
         (case with_known_artifact E now (reb_supporting_artifact_id body) decoded w1 of (records, w2) \<Rightarrow>
          (case take_turn E n i t w2 of
             None \<Rightarrow> None
           | Some w3 \<Rightarrow>
              (case transact E (\<lambda>_ db. ((), saveExceptionEnvelope
                      (new_envelope i tripId ((withoutPhotoIds body)\<lparr>reb_client_report_id := Some i\<rparr>) records stamp now) db)) w3 of
                 (Inl _, w4) \<Rightarrow> Some ((False, 0), drop_lock i w4)
               | (Inr _, w4) \<Rightarrow> Some ((True, length records), refreshExceptionCounts E (drop_lock i w4)))))))"

section \<open>Submitting a report\<close>

record draft_photo =
  dp_id :: string
  dp_dataUrl :: string
  dp_capturedAt :: iso

record exception_draft =
  ed_tripId :: string
  ed_clientReportId :: string
  ed_body :: raise_exception_body
  ed_photos :: "draft_photo list"

datatype exception_submit_outcome =
  Submit_acknowledged
| Saved_for_later
| Not_saved nat
| Submit_rejected string "nat option"

definition UNREADABLE_PHOTO_REASON :: string where
  "UNREADABLE_PHOTO_REASON = ''photo could not be read''"

text \<open>\<open>Inl k\<close>: the photo at position \<open>k\<close> cannot be decoded.\<close>

fun draft_records :: "nat \<Rightarrow> draft_photo list \<Rightarrow> nat + exception_photo list" where
  "draft_records k [] = Inr []"
| "draft_records k (p # ps) = (case dataUrlToBlob (dp_dataUrl p) of
     Inl _ \<Rightarrow> Inl k
   | Inr b \<Rightarrow> (case draft_records (Suc k) ps of
       Inl j \<Rightarrow> Inl j
     | Inr rs \<Rightarrow> Inr (\<lparr>photo_id = dp_id p, photo_blob = Some b, photo_capturedAt = dp_capturedAt p,
                      photo_uploadedArtifactId = None\<rparr> # rs)))"

fun findIndex :: "('a \<Rightarrow> bool) \<Rightarrow> 'a list \<Rightarrow> nat option" where
  "findIndex P [] = None"
| "findIndex P (x # xs) = (if P x then Some 0 else map_option Suc (findIndex P xs))"

text \<open>Save, then read the stored copy back: it has the artifact ids of earlier attempts.\<close>

definition save_draft :: "env \<Rightarrow> exception_envelope \<Rightarrow> world \<Rightarrow> (bool \<times> exception_envelope) \<times> world" where
  "save_draft E envelope w =
     (case transact E (\<lambda>_ db. ((), saveExceptionEnvelope envelope db)) w of
        (Inl _, w1) \<Rightarrow> ((False, envelope), w1)
      | (Inr _, w1) \<Rightarrow>
         (case transact E (\<lambda>_ db. (getExceptionEnvelope (env_clientReportId envelope) db, db)) w1 of
            (Inl _, w2) \<Rightarrow> ((False, envelope), w2)
          | (Inr None, w2) \<Rightarrow> ((True, envelope), w2)
          | (Inr (Some stored), w2) \<Rightarrow> ((True, stored), w2)))"

definition submit_outcome :: "env \<Rightarrow> exception_draft \<Rightarrow> bool \<Rightarrow> send_outcome \<Rightarrow> world \<Rightarrow> exception_submit_outcome \<times> world" where
  "submit_outcome E draft durable outcome w =
     (let kept = (if durable then Saved_for_later else Not_saved (length (ed_photos draft))) in
      case outcome of
        Acknowledged \<Rightarrow> (Submit_acknowledged, w)
      | Rejected reason photo _ _ \<Rightarrow> (Submit_rejected reason (findIndex (\<lambda>p. Some (dp_id p) = photo) (ed_photos draft)), w)
      | Transient_outcome (Some d) \<Rightarrow> (kept, scheduleRateLimitRetry E d w)
      | _ \<Rightarrow> (kept, w))"

definition send_draft :: "env \<Rightarrow> actor_lease option \<Rightarrow> exception_envelope \<Rightarrow> bool \<Rightarrow> post_request \<Rightarrow> world \<Rightarrow> send_outcome \<times> world" where
  "send_draft E lease envelope durable post w =
     (if (case lease of None \<Rightarrow> False | Some l \<Rightarrow> isActorLeaseCurrent l (w_custody w))
      then sendExceptionReport E envelope durable True post w else (Not_yours, w))"

definition submitExceptionReport :: "env \<Rightarrow> nat \<Rightarrow> ticket \<Rightarrow> exception_draft \<Rightarrow> post_request \<Rightarrow> world
    \<Rightarrow> (exception_submit_outcome \<times> world) option" where
  "submitExceptionReport E n t draft post w =
     (let lease = captureActorLease (w_custody w); now = now_of E w in
      case draft_records 0 (ed_photos draft) of
        Inl k \<Rightarrow> Some (Submit_rejected UNREADABLE_PHOTO_REASON (Some k), w)
      | Inr photos \<Rightarrow>
         let envelope = new_envelope (ed_clientReportId draft) (ed_tripId draft) (ed_body draft) photos
               (captureCustody (ed_tripId draft) (w_custody w)) now
         in (case take_turn E n (ed_clientReportId draft) t w of
               None \<Rightarrow> None
             | Some w1 \<Rightarrow>
                (case save_draft E envelope w1 of ((durable, current), w2) \<Rightarrow>
                (case send_draft E lease current durable post w2 of (outcome, w3) \<Rightarrow>
                   Some (submit_outcome E draft durable outcome
                     (refreshExceptionCounts E (drop_lock (ed_clientReportId draft) w3)))))))"

section \<open>The wait ends when the lock is handed over\<close>

lemma wait_turn_returns:
  assumes "t \<notin> set (waiters (w_locks ((await E ^^ Suc k) w)) i)" "k < n"
  shows "\<exists>w'. wait_turn E n i t w = Some w'"
  using assms
proof (induction k arbitrary: n w)
  case 0
  then show ?case by (cases n) (simp_all add: Let_def)
next
  case (Suc k)
  then obtain m where m: "n = Suc m" "k < m" by (cases n) auto
  have "t \<notin> set (waiters (w_locks ((await E ^^ Suc k) (await E w))) i)"
    using Suc.prems(1) by (simp add: funpow_swap1)
  from Suc.IH[OF this m(2)] show ?case using m(1)
    by (cases "t \<in> set (waiters (w_locks (await E w)) i)") (auto simp: Let_def)
qed

text \<open>As soon as a handover happens within the awaits granted, waiting ends; a free lock is not waited for.\<close>

lemma take_turn_returns:
  assumes "i \<notin> held (w_locks w)
    \<or> k < n \<and> t \<notin> set (waiters (w_locks ((await E ^^ Suc k) (w\<lparr>w_locks := snd (waitReportLock i t (w_locks w))\<rparr>))) i)"
  shows "\<exists>w'. take_turn E n i t w = Some w'"
proof -
  obtain got l where l: "waitReportLock i t (w_locks w) = (got, l)" by force
  have "i \<notin> held (w_locks w) \<Longrightarrow> got" using l by (auto simp: waitReportLock_def tryReportLock_def)
  then show ?thesis using assms l wait_turn_returns[where t = t and E = E and k = k and w = "w\<lparr>w_locks := l\<rparr>" and i = i and n = n]
    by (cases got) (auto simp: take_turn_def)
qed

lemma wait_turn_guarded: "wait_turn E n i t w = Some w' \<Longrightarrow> guarded E Q w w'"
proof (induction n arbitrary: w)
  case (Suc n)
  show ?case
  proof (cases "t \<notin> set (waiters (w_locks (await E w)) i)")
    case True
    then have "w' = await E w" using Suc.prems by (simp add: Let_def)
    then show ?thesis by (simp add: guarded.await_rel)
  next
    case False
    then have "wait_turn E n i t (await E w) = Some w'" using Suc.prems by (simp add: Let_def)
    from guarded.rel_trans[OF guarded.await_rel Suc.IH[OF this]] show ?thesis .
  qed
qed simp

lemma take_turn_guarded:
  assumes "take_turn E n i t w = Some w'"
  shows "guarded E Q w w'"
proof -
  obtain got l where l: "waitReportLock i t (w_locks w) = (got, l)" by force
  have "guarded E Q (w\<lparr>w_locks := l\<rparr>) w'"
    using assms l guarded.await_rel by (cases got) (auto simp: take_turn_def dest: wait_turn_guarded)
  from guarded.rel_trans[OF unstored_guarded(1) this] show ?thesis .
qed

section \<open>What the driver is told about a report is true\<close>

lemma photo_records_guarded: "guarded E Q w (snd (photo_records E ps w))"
proof (induction ps arbitrary: w)
  case (Cons p ps)
  have "guarded E Q w (snd (photo_records E ps (w\<lparr>w_uuids := Suc (w_uuids w)\<rparr>)))"
    by (rule guarded.rel_trans[OF unstored_guarded(6) Cons.IH])
  then show ?case
    by (auto simp: randomUUID_def unstored_guarded split: sum.split prod.split)
qed (simp add: guarded.rel_refl)

lemma known_artifact_guarded: "guarded E Q w (snd (with_known_artifact E now k rs w))"
  by (auto simp: with_known_artifact_def randomUUID_def unstored_guarded guarded.rel_refl)

text \<open>A save that committed leaves the report in the store.\<close>

lemma save_stores:
  assumes "transact E (\<lambda>_ db. ((), saveExceptionEnvelope e db)) w = (Inr u, w')"
    "undisturbed E (report_kept (env_clientReportId e))" "undisturbed E (\<lambda>ls db. store_ok db)" "store_ok (w_db w)"
  shows "report_kept (env_clientReportId e) (w_ls w') (w_db w')"
proof -
  let ?w = "await E w"
  have "store_ok (w_db ?w)" using undisturbed_await[OF assms(3), of w] assms(4) by simp
  then have "report_kept (env_clientReportId e) (w_ls ?w) (saveExceptionEnvelope e (w_db ?w))"
    by (simp add: report_kept_def save_ok get_save)
  then have "report_kept (env_clientReportId e) (w_ls (await E (?w\<lparr>w_db := saveExceptionEnvelope e (w_db ?w)\<rparr>)))
      (w_db (await E (?w\<lparr>w_db := saveExceptionEnvelope e (w_db ?w)\<rparr>)))"
    by (intro undisturbed_await[OF assms(2)]) simp
  then show ?thesis using assms(1) by (auto simp: transact_def Let_def split: option.splits)
qed

lemma keeps_store:
  "guarded E (\<lambda>ls db. store_ok db) w w' \<Longrightarrow> undisturbed E (\<lambda>ls db. store_ok db) \<Longrightarrow> store_ok (w_db w) \<Longrightarrow> store_ok (w_db w')"
  by (simp add: guarded_def keeps_def)

lemma still_kept:
  "guarded E (report_kept r) w w' \<Longrightarrow> undisturbed E (report_kept r) \<Longrightarrow> report_kept r (w_ls w) (w_db w)
    \<Longrightarrow> report_kept r (w_ls w') (w_db w')"
  by (simp add: guarded_def keeps_def)

lemma drop_refresh_kept:
  assumes "undisturbed E (report_kept r)" "report_kept r (w_ls w) (w_db w)"
  shows "report_kept r (w_ls (refreshExceptionCounts E (drop_lock i w))) (w_db (refreshExceptionCounts E (drop_lock i w)))"
  unfolding drop_lock_def
  by (rule still_kept[OF guarded.rel_trans[OF unstored_guarded(1) refresh_guarded] assms])

lemma new_envelope_id [simp]: "env_clientReportId (new_envelope i tripId body photos stamp now) = i"
  by (simp add: new_envelope_def)

lemma enqueued_kept:
  assumes "enqueueException E n t tripId body photos w = Some ((True, k), w')" "reb_client_report_id body = Some r"
    and u: "undisturbed E (report_kept r)" "undisturbed E (\<lambda>ls db. store_ok db)" "store_ok (w_db w)"
  shows "report_kept r (w_ls w') (w_db w')"
proof -
  let ?ok = "\<lambda>ls db. store_ok db"
  obtain x w1 where pr: "photo_records E photos w = (x, w1)" by force
  obtain records w2 where ka: "with_known_artifact E (now_of E w) (reb_supporting_artifact_id body) (case x of Inr d \<Rightarrow> d) w1
      = (records, w2)" by force
  have "guarded E ?ok w w2"
    using guarded.rel_trans[OF photo_records_guarded[where E = E and Q = ?ok and ps = photos and w = w]
        known_artifact_guarded[where now = "now_of E w" and k = "reb_supporting_artifact_id body" and rs = "case x of Inr d \<Rightarrow> d"]]
    by (simp add: pr ka)
  then have ok2: "store_ok (w_db w2)" using keeps_store u by blast
  let ?env = "new_envelope r tripId ((withoutPhotoIds body)\<lparr>reb_client_report_id := Some r\<rparr>) records
      (captureCustody tripId (w_custody w)) (now_of E w)"
  from assms(1) obtain d w3 y w4 where e: "x = Inr d" "take_turn E n r t w2 = Some w3"
      "transact E (\<lambda>_ db. ((), saveExceptionEnvelope ?env db)) w3 = (Inr y, w4)"
      "w' = refreshExceptionCounts E (drop_lock r w4)"
    using pr ka assms(2) unfolding enqueueException_def
    by (auto simp: Let_def split: sum.splits option.splits prod.splits)
  have "store_ok (w_db w3)" using keeps_store[OF take_turn_guarded[OF e(2)] u(2) ok2] .
  then have "report_kept r (w_ls w4) (w_db w4)" using save_stores[OF e(3)] u(1,2) by simp
  then show ?thesis unfolding e(4) by (rule drop_refresh_kept[OF u(1)])
qed

lemma saved_draft_kept:
  assumes "save_draft E envelope w = ((True, current), w')" "env_clientReportId envelope = r"
    and "undisturbed E (report_kept r)" "undisturbed E (\<lambda>ls db. store_ok db)" "store_ok (w_db w)"
  shows "report_kept r (w_ls w') (w_db w')"
proof -
  let ?read = "\<lambda>w1. transact E (\<lambda>_ db. (getExceptionEnvelope (env_clientReportId envelope) db, db)) w1"
  from assms(1) obtain y w1 where sv: "transact E (\<lambda>_ db. ((), saveExceptionEnvelope envelope db)) w = (Inr y, w1)"
      and rd: "w' = snd (?read w1)"
    by (auto simp: save_draft_def split: sum.splits prod.splits option.splits)
  have "report_kept r (w_ls w1) (w_db w1)" using save_stores[OF sv] assms by simp
  then show ?thesis unfolding rd by (rule still_kept[OF read_guarded assms(3)])
qed

text \<open>Sending the saved copy keeps it stored unless the server acknowledged it.\<close>

lemma send_draft_kept:
  assumes "send_draft E lease envelope durable post w = (outcome, w')" "outcome \<noteq> Acknowledged"
    and "\<And>ids u. guarded E (report_kept r) u (snd (post ids u))"
  shows "guarded E (report_kept r) w w'"
proof (cases "\<exists>l. lease = Some l \<and> isActorLeaseCurrent l (w_custody w)")
  case True
  then have run: "run E envelope durable post w = (outcome, w')"
    using assms(1) by (auto simp: send_draft_def sendExceptionReport_def)
  have "guarded E (report_kept r) w (snd (run E envelope durable post w))"
    by (rule kept_report.run_rel[where w' = w and i = "env_clientReportId envelope" and g = "generation_of w"])
      (use run assms(2,3) in auto)
  then show ?thesis using run by simp
next
  case False
  then show ?thesis using assms(1) by (auto simp: send_draft_def guarded.rel_refl split: option.splits)
qed

lemma submitted_kept:
  assumes "submitExceptionReport E n t draft post w = Some (Saved_for_later, w')" "ed_clientReportId draft = r"
    and u: "undisturbed E (report_kept r)" "undisturbed E (\<lambda>ls db. store_ok db)" "store_ok (w_db w)"
    and post: "\<And>ids u. guarded E (report_kept r) u (snd (post ids u))"
  shows "report_kept r (w_ls w') (w_db w')"
proof -
  from assms(1) obtain photos where dr: "draft_records 0 (ed_photos draft) = Inr photos"
    by (auto simp: submitExceptionReport_def Let_def split: sum.splits)
  let ?env = "new_envelope r (ed_tripId draft) (ed_body draft) photos (captureCustody (ed_tripId draft) (w_custody w)) (now_of E w)"
  from assms(1,2) obtain w1 durable current w2 outcome w3 where e:
      "take_turn E n r t w = Some w1" "save_draft E ?env w1 = ((durable, current), w2)"
      "send_draft E (captureActorLease (w_custody w)) current durable post w2 = (outcome, w3)"
      "submit_outcome E draft durable outcome (refreshExceptionCounts E (drop_lock r w3)) = (Saved_for_later, w')"
    unfolding submitExceptionReport_def by (auto simp: dr Let_def split: option.splits prod.splits)
  have o: "durable" "outcome \<noteq> Acknowledged"
    using e(4) by (auto simp: submit_outcome_def Let_def split: send_outcome.splits option.splits if_splits)
  have "store_ok (w_db w1)" using keeps_store[OF take_turn_guarded[OF e(1)] u(2,3)] .
  then have "report_kept r (w_ls w2) (w_db w2)" using saved_draft_kept[of E ?env w1 current w2 r] e(2) o(1) u by simp
  then have "report_kept r (w_ls w3) (w_db w3)" by (rule still_kept[OF send_draft_kept[OF e(3) o(2) post] u(1)])
  then have k: "report_kept r (w_ls (refreshExceptionCounts E (drop_lock r w3))) (w_db (refreshExceptionCounts E (drop_lock r w3)))"
    by (rule drop_refresh_kept[OF u(1)])
  have "w' = refreshExceptionCounts E (drop_lock r w3) \<or> (\<exists>d. w' = scheduleRateLimitRetry E d (refreshExceptionCounts E (drop_lock r w3)))"
    using e(4) by (auto simp: submit_outcome_def Let_def split: send_outcome.splits option.splits if_splits)
  then show ?thesis using k still_kept[OF schedule_guarded u(1) k] by auto
qed

text \<open>What the driver is told about an incident report is true. When a report is said to be
  kept, by the enqueue or by a submission that could not be finished, it is in the report store, however
  long the caller waited for the report's lock and whatever the network did, as long as nobody else
  deletes it.\<close>

theorem told_saved_is_stored:
  assumes "undisturbed E (report_kept r)" "undisturbed E (\<lambda>ls db. store_ok db)" "store_ok (w_db w)"
    and "\<And>ids u. guarded E (report_kept r) u (snd (post ids u))"
    and "reb_client_report_id body = Some r" "ed_clientReportId draft = r"
  shows "(enqueueException E n t tripId body photos w = Some ((True, k), v) \<longrightarrow> getExceptionEnvelope r (w_db v) \<noteq> None)
    \<and> (submitExceptionReport E n t draft post w = Some (Saved_for_later, v) \<longrightarrow> getExceptionEnvelope r (w_db v) \<noteq> None)"
  using enqueued_kept[OF _ assms(5,1,2,3)] submitted_kept[OF _ assms(6,1,2,3,4)] by (auto simp: report_kept_def)

lemma told_saved_is_stored_witness:
  "\<exists>v. enqueueException quiet 1 0 ''T'' (demo_body\<lparr>reb_client_report_id := Some ''r''\<rparr>) [] (demo_world []) = Some ((True, 0), v)
     \<and> getExceptionEnvelope ''r'' (w_db v) \<noteq> None"
proof -
  let ?b = "demo_body\<lparr>reb_client_report_id := Some ''r''\<rparr>"
  let ?post = "\<lambda>ids u. (Inr None, u)"
  let ?d = "\<lparr>ed_tripId = ''T'', ed_clientReportId = ''r'', ed_body = ?b, ed_photos = []\<rparr>"
  obtain v where v: "enqueueException quiet 1 0 ''T'' ?b [] (demo_world []) = Some ((True, 0), v)"
    by (auto simp: enqueueException_def demo_body_def with_known_artifact_def take_turn_def waitReportLock_def
        tryReportLock_def demo_world_def no_locks_def transact_def Let_def)
  have "getExceptionEnvelope ''r'' (w_db v) \<noteq> None"
    using told_saved_is_stored[of quiet "''r''" "demo_world []" ?post ?b ?d 1 0 "''T''" "[]" 0 v] v
    by (simp add: undisturbed_def guarded.rel_refl demo_body_def) (simp add: demo_world_def)
  then show ?thesis using v by blast
qed

end
