(* ===== verification/PhaseSubmitter.thy ===== *)
theory PhaseSubmitter
  imports Enqueue
begin

text \<open>
  The background phase submission (\<open>lib/submission/phase-submitter.ts\<close>): the position it goes out
  with, one submission from the swipe to its outcome, and the module's store of what is submitting
  and what failed. The callbacks of a request (the offline queue, the refetch of the trip) are
  fields of the request, as in the source.
\<close>

section \<open>The position of a submission\<close>

definition POSITION_FALLBACK_MAX_AGE_MS :: number where
  "POSITION_FALLBACK_MAX_AGE_MS = 60000"

record timestamped_fix =
  fix_position :: driver_position
  fix_capturedAtMs :: number
  fix_generation :: nat

definition rememberFix :: "env \<Rightarrow> driver_position \<Rightarrow> nat \<Rightarrow> world \<Rightarrow> timestamped_fix option \<Rightarrow> timestamped_fix option" where
  "rememberFix E position g w lastKnownFix =
     (if generation_of w \<noteq> g then lastKnownFix
      else Some \<lparr>fix_position = position, fix_capturedAtMs = env_ms E (w_tick w), fix_generation = g\<rparr>)"

definition recentFix :: "env \<Rightarrow> nat \<Rightarrow> world \<Rightarrow> timestamped_fix option \<Rightarrow> driver_position option" where
  "recentFix E g w lastKnownFix = (case lastKnownFix of
       None \<Rightarrow> None
     | Some f \<Rightarrow> if fix_generation f \<noteq> g \<or> generation_of w \<noteq> g then None
         else if env_ms E (w_tick w) - fix_capturedAtMs f \<le> POSITION_FALLBACK_MAX_AGE_MS then Some (fix_position f)
         else None)"

text \<open>
  The wait for the fix: \<open>captured\<close> is what the promise gave within the budget, \<open>None\<close> when the budget
  ran out, the promise rejected or it gave \<open>null\<close>; \<open>cache\<close> is \<open>lastKnownFix\<close> when the wait ends.
\<close>

definition resolvePosition :: "env \<Rightarrow> driver_position option \<Rightarrow> timestamped_fix option \<Rightarrow> nat \<Rightarrow> world
    \<Rightarrow> driver_position option \<times> timestamped_fix option \<times> world" where
  "resolvePosition E captured cache g w = (let w1 = await E w in
     case captured of
       Some p \<Rightarrow> (Some p, rememberFix E p g w1 cache, w1)
     | None \<Rightarrow> (recentFix E g w1 cache, cache, w1))"

section \<open>One submission\<close>

text \<open>A trip is the server's JSON; \<open>None\<close> is \<open>null\<close>.\<close>

datatype submission_outcome =
  Recorded "json option" "json option"
| Hold "json option"
| Queued
| Conflict_outcome string
| Failed string
| Retained_outcome (retained_message: string) (retained_persisted: bool) (retained_handedOver: bool)

type_synonym enqueue_phase = "string \<Rightarrow> phase_capture \<Rightarrow> custody_stamp option \<Rightarrow> retained_attention option
    \<Rightarrow> string option \<Rightarrow> world \<Rightarrow> bool \<times> world"

record phase_submission_request =
  sr_tripId :: string
  sr_phaseEventId :: string
  sr_phaseType :: phase_type
  sr_evidence :: phase_evidence
  sr_idempotencyKey :: string
  sr_driverCapturedAt :: iso
  sr_acknowledgement :: "location_acknowledgement option"
  sr_custody :: "custody_stamp option"
  sr_enqueuePhase :: enqueue_phase
  sr_refetchTrip :: "world \<Rightarrow> (js_error + json option) \<times> world"

definition DEFAULT_CONFLICT_MESSAGE :: string where
  "DEFAULT_CONFLICT_MESSAGE = ''Trip state changed unexpectedly. Please retry from the trip screen.''"

text \<open>The apostrophe of the source is U+2019; the model's text has the ASCII one.\<close>

definition QUEUE_STORAGE_FAILED_MESSAGE :: string where
  "QUEUE_STORAGE_FAILED_MESSAGE = ''Couldn'' @ [CHR 0x27] @ ''t save on this phone. Storage is full or unavailable. Try again.''"

text \<open>Properties of a JSON object that is not \<open>null\<close>; \<open>None\<close> is \<open>undefined\<close>.\<close>

definition status_in :: "json \<Rightarrow> json option" where
  "status_in j = (case json_get ''status'' j of Inl _ \<Rightarrow> None | Inr v \<Rightarrow> v)"

definition addressedPhaseOf :: "json option \<Rightarrow> string \<Rightarrow> js_error + json option" where
  "addressedPhaseOf trip phaseEventId = (case trip of
       None \<Rightarrow> Inr None
     | Some JNull \<Rightarrow> Inr None
     | Some t \<Rightarrow> (case json_get ''phases'' t of
           Inl e \<Rightarrow> Inl e
         | Inr (Some (JArr ps)) \<Rightarrow> find_phase phaseEventId ps
         | Inr _ \<Rightarrow> Inl (TypeErr ''phases.find is not a function'')))"

definition is_overridden :: "json option \<Rightarrow> bool" where
  "is_overridden phase \<longleftrightarrow> (\<exists>p. phase = Some p \<and> status_in p = Some (JStr ''overridden''))"

definition isResolvedPhase :: "json option \<Rightarrow> bool" where
  "isResolvedPhase phase \<longleftrightarrow> (\<exists>p. phase = Some p \<and> status_in p \<notin> {Some (JStr ''pending''), Some (JStr ''in_progress'')})"

definition on_hold :: "json option \<Rightarrow> bool" where
  "on_hold trip \<longleftrightarrow> (\<exists>t. trip = Some t \<and> t \<noteq> JNull \<and> status_in t = Some (JStr ''exception_hold''))"

definition overriddenAttention :: "iso \<Rightarrow> retained_attention" where
  "overriddenAttention now = retainedAttention now (Some PHASE_OVERRIDDEN) 409 PHASE_OVERRIDDEN_REASON"

text \<open>The capture as it is handed to the queue, and as it is submitted.\<close>

definition submission_capture :: "phase_submission_request \<Rightarrow> driver_position option \<Rightarrow> phase_capture" where
  "submission_capture r position = \<lparr>pc_phaseEventId = sr_phaseEventId r, pc_phaseType = sr_phaseType r,
     pc_evidence = sr_evidence r, pc_idempotencyKey = sr_idempotencyKey r, pc_position = position,
     pc_driverCapturedAt = sr_driverCapturedAt r, pc_acknowledgement = sr_acknowledgement r\<rparr>"

definition enqueue_capture :: "phase_submission_request \<Rightarrow> custody_stamp \<Rightarrow> driver_position option \<Rightarrow> retained_attention option
    \<Rightarrow> world \<Rightarrow> bool \<times> world" where
  "enqueue_capture r custody position attn =
     sr_enqueuePhase r (sr_tripId r) (submission_capture r position) (Some custody) attn (Some (sr_idempotencyKey r))"

definition retainAfterAccountChange :: "phase_submission_request \<Rightarrow> custody_stamp \<Rightarrow> driver_position option \<Rightarrow> world
    \<Rightarrow> (js_error + submission_outcome) \<times> world" where
  "retainAfterAccountChange r custody position w = (case enqueue_capture r custody position None w of
       (persisted, w1) \<Rightarrow> (Inr (Retained_outcome accountChanged persisted False), w1))"

definition retain_refused :: "phase_submission_request \<Rightarrow> custody_stamp \<Rightarrow> driver_position option \<Rightarrow> retained_attention \<Rightarrow> bool
    \<Rightarrow> world \<Rightarrow> (js_error + submission_outcome) \<times> world" where
  "retain_refused r custody position a handedOver w = (case enqueue_capture r custody position (Some a) w of
       (persisted, w1) \<Rightarrow> (Inr (Retained_outcome (att_reason a) persisted handedOver), w1))"

text \<open>An uncoded 409: the plan is read again to tell an earlier success from a conflict.\<close>

definition resolve_conflict :: "env \<Rightarrow> phase_submission_request \<Rightarrow> custody_stamp \<Rightarrow> driver_position option \<Rightarrow> nat \<Rightarrow> string
    \<Rightarrow> world \<Rightarrow> (js_error + submission_outcome) \<times> world" where
  "resolve_conflict E r custody position g message w =
     (let conflict = Conflict_outcome (if message = [] then DEFAULT_CONFLICT_MESSAGE else message) in
      attempt (sr_refetchTrip r w)
        (\<lambda>_ w1. if generation_of w1 \<noteq> g then retainAfterAccountChange r custody position w1 else (Inr conflict, w1))
        (\<lambda>fetched w1.
          if generation_of w1 \<noteq> g then retainAfterAccountChange r custody position w1
          else (case addressedPhaseOf fetched (sr_phaseEventId r) of
              Inl e \<Rightarrow> (Inl e, w1)
            | Inr phase \<Rightarrow>
                if is_overridden phase then retain_refused r custody position (overriddenAttention (now_of E w1)) False w1
                else if on_hold fetched then (Inr (Hold fetched), w1)
                else if isResolvedPhase phase then (Inr (Recorded fetched phase), w1)
                else (Inr conflict, w1))))"

definition after_coded :: "env \<Rightarrow> phase_submission_request \<Rightarrow> custody_stamp \<Rightarrow> driver_position option \<Rightarrow> nat \<Rightarrow> js_error
    \<Rightarrow> world \<Rightarrow> (js_error + submission_outcome) \<times> world" where
  "after_coded E r custody position g err w =
     (if (case err of ApiErr e \<Rightarrow> ae_status e = 409 | _ \<Rightarrow> False)
      then resolve_conflict E r custody position g (error_message err) w
      else if isQueueableFailure err
      then (case enqueue_capture r custody position None w of (persisted, w1) \<Rightarrow>
              (Inr (if persisted then Queued else Failed QUEUE_STORAGE_FAILED_MESSAGE), w1))
      else (Inr (Failed (error_message err)), w))"

definition submission_failed :: "env \<Rightarrow> phase_submission_request \<Rightarrow> custody_stamp \<Rightarrow> driver_position option \<Rightarrow> nat \<Rightarrow> js_error
    \<Rightarrow> world \<Rightarrow> (js_error + submission_outcome) \<times> world" where
  "submission_failed E r custody position g err w =
     (if generation_of w \<noteq> g then retainAfterAccountChange r custody position w
      else if (case err of ApiErr e \<Rightarrow> ae_code e \<noteq> None | _ \<Rightarrow> False)
      then (case classifyLiveWriteFailure (now_of E w) err of
              Duplicate _ \<Rightarrow> (Inr (Recorded None None), w)
            | Retain a \<Rightarrow>
                if isPhaseOverridden a then retain_refused r custody position a False w
                else if isCustodyConflict a
                then retain_refused r custody position a (att_code a = Some TRIP_HANDED_OVER) w
                else after_coded E r custody position g err w
            | Transient _ \<Rightarrow> after_coded E r custody position g err w)
      else after_coded E r custody position g err w)"

text \<open>The stamp of the swipe: the caller's, or one taken now.\<close>

definition swipe_stamp :: "phase_submission_request \<Rightarrow> world \<Rightarrow> custody_stamp" where
  "swipe_stamp r w = (case sr_custody r of Some s \<Rightarrow> s | None \<Rightarrow> captureCustody (sr_tripId r) (w_custody w))"

definition runSubmission :: "env \<Rightarrow> phase_submission_request \<Rightarrow> driver_position option \<Rightarrow> timestamped_fix option \<Rightarrow> nat \<Rightarrow> world
    \<Rightarrow> (js_error + submission_outcome) \<times> world" where
  "runSubmission E r captured cache g w =
     (let custody = swipe_stamp r w in
      case resolvePosition E captured cache g w of (position, _, w1) \<Rightarrow>
        if generation_of w1 \<noteq> g then retainAfterAccountChange r custody position w1
        else attempt (submitPhase E (phase_input (sr_tripId r) (submission_capture r position)) (stamp_custodySequence custody) w1)
          (submission_failed E r custody position g)
          (\<lambda>result w2.
             if generation_of w2 \<noteq> g then retainAfterAccountChange r custody position w2
             else (case addressedPhaseOf (sp_trip result) (sr_phaseEventId r) of
                 Inl e \<Rightarrow> submission_failed E r custody position g e w2
               | Inr phase \<Rightarrow>
                   if is_overridden phase then retain_refused r custody position (overriddenAttention (now_of E w2)) False w2
                   else if on_hold (sp_trip result) then (Inr (Hold (sp_trip result)), w2)
                   else (Inr (Recorded (sp_trip result) phase), w2))))"

section \<open>A phase is only recorded when the server has it\<close>

lemma retain_not_recorded [simp]:
  "retainAfterAccountChange r custody position w = (Inr (Recorded t p), w') \<longleftrightarrow> False"
  "retain_refused r custody position a h w = (Inr (Recorded t p), w') \<longleftrightarrow> False"
  "retainAfterAccountChange r custody position w = (Inr (Hold t), w') \<longleftrightarrow> False"
  "retain_refused r custody position a h w = (Inr (Hold t), w') \<longleftrightarrow> False"
  by (auto simp: retainAfterAccountChange_def retain_refused_def split: prod.splits)

text \<open>What a refetch after an uncoded 409 may report: the addressed row is resolved, or the trip is held.\<close>

definition refetched :: "phase_submission_request \<Rightarrow> json option \<Rightarrow> json option \<Rightarrow> world \<Rightarrow> bool" where
  "refetched r trip phase w' \<longleftrightarrow> (\<exists>u. sr_refetchTrip r u = (Inr trip, w'))
     \<and> addressedPhaseOf trip (sr_phaseEventId r) = Inr phase \<and> \<not> is_overridden phase"

lemma resolved_by_refetch:
  assumes "resolve_conflict E r custody position g m w = (Inr out, w')"
  shows "out = Recorded t p \<Longrightarrow> generation_of w' = g \<and> refetched r t p w' \<and> isResolvedPhase p"
    and "out = Hold t \<Longrightarrow> generation_of w' = g \<and> (\<exists>p. refetched r t p w') \<and> on_hold t"
  using assms unfolding resolve_conflict_def attempt_def refetched_def
  by (auto simp: Let_def split: prod.splits sum.splits if_splits)

lemma uncoded_outcome:
  assumes "after_coded E r custody position g err w = (Inr out, w')"
  shows "out = Recorded t p \<Longrightarrow> generation_of w' = g \<and> refetched r t p w' \<and> isResolvedPhase p"
    and "out = Hold t \<Longrightarrow> generation_of w' = g \<and> (\<exists>p. refetched r t p w') \<and> on_hold t"
  using assms resolved_by_refetch[where E = E and r = r and custody = custody and position = position and g = g
      and m = "error_message err" and w = w and out = out and w' = w']
  unfolding after_coded_def by (auto split: if_splits prod.splits)

lemma failed_recorded:
  assumes "submission_failed E r custody position g err w = (Inr out, w')"
  shows "out = Recorded t p \<Longrightarrow> generation_of w' = g
      \<and> (proven_duplicate err \<and> w' = w \<and> t = None \<and> p = None \<or> refetched r t p w' \<and> isResolvedPhase p)"
    and "out = Hold t \<Longrightarrow> generation_of w' = g \<and> (\<exists>p. refetched r t p w') \<and> on_hold t"
proof -
  note uncoded = uncoded_outcome[where E = E and r = r and custody = custody and position = position and g = g
      and err = err and w = w and out = out and w' = w']
  show "out = Recorded t p \<Longrightarrow> generation_of w' = g
      \<and> (proven_duplicate err \<and> w' = w \<and> t = None \<and> p = None \<or> refetched r t p w' \<and> isResolvedPhase p)"
    using assms uncoded(1) classify_duplicate_iff[of "now_of E w" err] unfolding submission_failed_def
    by (auto split: if_splits live_write_failure.splits)
  show "out = Hold t \<Longrightarrow> generation_of w' = g \<and> (\<exists>p. refetched r t p w') \<and> on_hold t"
    using assms uncoded(2) unfolding submission_failed_def
    by (auto split: if_splits live_write_failure.splits)
qed

text \<open>The submission's own write.\<close>

abbreviation submits :: "env \<Rightarrow> phase_submission_request \<Rightarrow> driver_position option \<Rightarrow> int option \<Rightarrow> world
    \<Rightarrow> (js_error + submit_phase_result) \<times> world" where
  "submits E r position \<equiv> submitPhase E (phase_input (sr_tripId r) (submission_capture r position))"

lemma runSubmission_cases:
  assumes "runSubmission E r captured cache g w = (x, w')"
  obtains (away) position u where "u = await E w" "generation_of u \<noteq> g"
      "retainAfterAccountChange r (swipe_stamp r w) position u = (x, w')" "position = fst (resolvePosition E captured cache g w)"
  | (failed) position err u v where "u = await E w"
      "submits E r position (stamp_custodySequence (swipe_stamp r w)) u = (Inl err, v)"
      "submission_failed E r (swipe_stamp r w) position g err v = (x, w')" "position = fst (resolvePosition E captured cache g w)"
  | (odd) position result err u v where "u = await E w"
      "submits E r position (stamp_custodySequence (swipe_stamp r w)) u = (Inr result, v)"
      "addressedPhaseOf (sp_trip result) (sr_phaseEventId r) = Inl err"
      "submission_failed E r (swipe_stamp r w) position g err v = (x, w')" "position = fst (resolvePosition E captured cache g w)"
  | (left) position result u v where "u = await E w"
      "submits E r position (stamp_custodySequence (swipe_stamp r w)) u = (Inr result, v)" "generation_of v \<noteq> g"
      "retainAfterAccountChange r (swipe_stamp r w) position v = (x, w')" "position = fst (resolvePosition E captured cache g w)"
  | (answered) position result phase u v where "u = await E w" "generation_of v = g"
      "submits E r position (stamp_custodySequence (swipe_stamp r w)) u = (Inr result, v)"
      "addressedPhaseOf (sp_trip result) (sr_phaseEventId r) = Inr phase"
      "(if is_overridden phase
          then retain_refused r (swipe_stamp r w) position (overriddenAttention (now_of E v)) False v
          else if on_hold (sp_trip result) then (Inr (Hold (sp_trip result)), v)
          else (Inr (Recorded (sp_trip result) phase), v)) = (x, w')" "position = fst (resolvePosition E captured cache g w)"
proof -
  obtain position c where rp: "resolvePosition E captured cache g w = (position, c, await E w)"
    by (cases captured) (auto simp: resolvePosition_def Let_def)
  obtain y v where sb: "submits E r position (stamp_custodySequence (swipe_stamp r w)) (await E w) = (y, v)" by force
  show thesis
  proof (cases "generation_of (await E w) = g")
    case False
    then show thesis using assms that(1) by (simp add: runSubmission_def Let_def rp)
  next
    case True
    show thesis
    proof (cases y)
      case (Inl err)
      then show thesis
        using assms True sb that(2)[OF refl] by (simp add: runSubmission_def Let_def rp)
    next
      case (Inr result)
      show thesis
      proof (cases "generation_of v = g")
        case False
        then show thesis
          using assms True sb Inr that(4)[OF refl] by (simp add: runSubmission_def Let_def rp)
      next
        case gv: True
        show thesis
        proof (cases "addressedPhaseOf (sp_trip result) (sr_phaseEventId r)")
          case (Inl e)
          then show thesis
            using assms True sb Inr gv that(3)[OF refl] by (simp add: runSubmission_def Let_def rp)
        next
          case (Inr phase)
          have "(if is_overridden phase
              then retain_refused r (swipe_stamp r w) position (overriddenAttention (now_of E v)) False v
              else if on_hold (sp_trip result) then (Inr (Hold (sp_trip result)), v)
              else (Inr (Recorded (sp_trip result) phase), v)) = (x, w')"
            using assms True sb \<open>y = Inr result\<close> gv Inr
            by (simp add: runSubmission_def Let_def rp split del: if_split)
          with sb \<open>y = Inr result\<close> Inr show thesis by (intro that(5)[OF refl gv]) (simp_all add: rp)
        qed
      qed
    qed
  qed
qed

lemma addressed_uncoded: "addressedPhaseOf trip i = Inl err \<Longrightarrow> \<not> proven_duplicate err"
proof -
  have jg: "json_get k j = Inl e \<Longrightarrow> \<exists>m. e = TypeErr m" for k j e by (cases j) auto
  have fp: "find_phase i ps = Inl e \<Longrightarrow> \<exists>m. e = TypeErr m" for ps e
    by (induction ps) (auto split: sum.splits if_splits dest: jg)
  show "addressedPhaseOf trip i = Inl err \<Longrightarrow> \<not> proven_duplicate err"
    by (auto simp: addressedPhaseOf_def proven_duplicate_def split: option.splits sum.splits json.splits dest!: jg fp)
qed

text \<open>Property C27. The driver is told that a phase is recorded only when it is: the server accepted the
  completion of this very capture under the custody period of the swipe, or proved that it holds it
  already, or the plan read back after a conflict shows the phase resolved. In each case the same
  sign-in is still current, and a phase that dispatch overrode is never reported as recorded.\<close>

theorem recorded_only_when_it_is:
  assumes "runSubmission E r captured cache g w = (Inr (Recorded trip phase), w')"
  shows "generation_of w' = g \<and> \<not> is_overridden phase
    \<and> ((\<exists>position u result. submits E r position (stamp_custodySequence (swipe_stamp r w)) u = (Inr result, w')
          \<and> trip = sp_trip result)
       \<or> (\<exists>position u err. submits E r position (stamp_custodySequence (swipe_stamp r w)) u = (Inl err, w')
          \<and> proven_duplicate err)
       \<or> (\<exists>u. sr_refetchTrip r u = (Inr trip, w')) \<and> isResolvedPhase phase
          \<and> addressedPhaseOf trip (sr_phaseEventId r) = Inr phase)"
  using assms
proof (cases rule: runSubmission_cases)
  case (failed position err u v)
  from failed_recorded(1)[OF failed(3) refl] failed(2) show ?thesis
    by (auto simp: refetched_def is_overridden_def)
next
  case (odd position result err u v)
  from failed_recorded(1)[OF odd(4) refl] addressed_uncoded[OF odd(3)] show ?thesis
    by (auto simp: refetched_def)
next
  case (answered position result p u v)
  then show ?thesis by (auto split: if_splits)
qed simp_all

section \<open>What is said to be kept is in the queue\<close>

text \<open>
  Writing nothing stored on the way, a submission that keeps its capture ends with the enqueue; the mark it
  is kept with is none when it is to be sent again or its account is away, and the refusal the driver is told
  of when the server refused it for a change of custody or an override.
\<close>

definition kept_mark :: "nat \<Rightarrow> world \<Rightarrow> string \<Rightarrow> bool \<Rightarrow> retained_attention option \<Rightarrow> bool" where
  "kept_mark g u m h attn \<longleftrightarrow> (case attn of
       None \<Rightarrow> m = accountChanged \<and> \<not> h \<and> generation_of u \<noteq> g
     | Some a \<Rightarrow> m = att_reason a \<and> (h \<longleftrightarrow> att_code a = Some TRIP_HANDED_OVER) \<and> generation_of u = g
         \<and> att_code a \<in> Some ` {TRIP_HANDED_OVER, CUSTODY_CONTEXT_CHANGED, CUSTODY_CONTEXT_REQUIRED, PHASE_OVERRIDDEN})"

definition ends_kept :: "phase_submission_request \<Rightarrow> custody_stamp \<Rightarrow> driver_position option \<Rightarrow> nat \<Rightarrow> (world \<Rightarrow> bool)
    \<Rightarrow> js_error + submission_outcome \<Rightarrow> world \<Rightarrow> bool" where
  "ends_kept r custody position g S x w' \<longleftrightarrow>
     (x = Inr Queued \<longrightarrow> (\<exists>u. S u \<and> enqueue_capture r custody position None u = (True, w')))
     \<and> (\<forall>m h. x = Inr (Retained_outcome m True h) \<longrightarrow>
          (\<exists>attn u. S u \<and> enqueue_capture r custody position attn u = (True, w') \<and> kept_mark g u m h attn))"

lemma kept_markI:
  "generation_of u \<noteq> g \<Longrightarrow> kept_mark g u accountChanged False None"
  "generation_of u = g \<Longrightarrow> isCustodyConflict a \<or> isPhaseOverridden a \<Longrightarrow>
     kept_mark g u (att_reason a) (att_code a = Some TRIP_HANDED_OVER) (Some a)"
  by (auto simp: kept_mark_def isCustodyConflict_def isPhaseOverridden_def)

lemma retain_ends_kept:
  assumes "S w"
  shows "generation_of w \<noteq> g \<Longrightarrow> retainAfterAccountChange r custody position w = (x, w') \<Longrightarrow> ends_kept r custody position g S x w'"
    and "generation_of w = g \<Longrightarrow> isCustodyConflict a \<or> isPhaseOverridden a \<Longrightarrow> h = (att_code a = Some TRIP_HANDED_OVER)
      \<Longrightarrow> retain_refused r custody position a h w = (x, w') \<Longrightarrow> ends_kept r custody position g S x w'"
proof -
  assume "generation_of w \<noteq> g" "retainAfterAccountChange r custody position w = (x, w')"
  then show "ends_kept r custody position g S x w'"
    using assms kept_markI(1)[of w g] unfolding ends_kept_def retainAfterAccountChange_def
    by (cases "enqueue_capture r custody position None w") auto
next
  assume "generation_of w = g" "isCustodyConflict a \<or> isPhaseOverridden a" "h = (att_code a = Some TRIP_HANDED_OVER)"
    "retain_refused r custody position a h w = (x, w')"
  then show "ends_kept r custody position g S x w'"
    using assms kept_markI(2)[of w g a] unfolding ends_kept_def retain_refused_def
    by (cases "enqueue_capture r custody position (Some a) w") auto
qed

lemma overridden_ends_kept:
  assumes "S w" "generation_of w = g" "isPhaseOverridden a" "retain_refused r custody position a False w = (x, w')"
  shows "ends_kept r custody position g S x w'"
  using retain_ends_kept(2)[of S w g a False] assms by (simp add: isPhaseOverridden_def)

lemma overridden_mark [simp]: "isPhaseOverridden (overriddenAttention now)"
  by (simp add: isPhaseOverridden_def overriddenAttention_def retainedAttention_def)

lemma override_ends_kept:
  "S w \<Longrightarrow> generation_of w = g \<Longrightarrow> retain_refused r custody position (overriddenAttention now) False w = (x, w')
    \<Longrightarrow> ends_kept r custody position g S x w'"
  by (rule overridden_ends_kept[where S = S]) simp_all

lemma resolve_ends_kept:
  assumes "resolve_conflict E r custody position g m w = (x, w')" "S w" "\<And>u. S u \<Longrightarrow> S (snd (sr_refetchTrip r u))"
  shows "ends_kept r custody position g S x w'"
proof -
  obtain y v where y: "sr_refetchTrip r w = (y, v)" by force
  then have S: "S v" using assms(2) assms(3)[of w] by simp
  show ?thesis
    using assms(1) retain_ends_kept(1)[where S = S and w = v, OF S] override_ends_kept[where S = S and w = v, OF S]
    unfolding resolve_conflict_def Let_def y
    by (cases y) (auto simp: ends_kept_def[of _ _ _ _ _ "Inl e" for e] ends_kept_def[of _ _ _ _ _ "Inr (Hold t)" for t]
      ends_kept_def[of _ _ _ _ _ "Inr (Recorded t p)" for t p] ends_kept_def[of _ _ _ _ _ "Inr (Conflict_outcome c)" for c]
      split: sum.splits if_splits)
qed

lemma failed_ends_kept:
  assumes run: "submission_failed E r custody position g err w = (x, w')" and S: "S w" "\<And>u. S u \<Longrightarrow> S (snd (sr_refetchTrip r u))"
  shows "ends_kept r custody position g S x w'"
proof -
  have coded: "ends_kept r custody position g S x w'" if "after_coded E r custody position g err w = (x, w')"
    using that resolve_ends_kept[where S = S, OF _ S] S(1) unfolding after_coded_def
    by (auto simp: ends_kept_def[of _ _ _ _ _ "Inr Queued"] ends_kept_def[of _ _ _ _ _ "Inr (Failed c)" for c] split: if_splits prod.splits)
  consider (away) "generation_of w \<noteq> g" "retainAfterAccountChange r custody position w = (x, w')"
    | (told) "x = Inr (Recorded None None)"
    | (refused) a where "generation_of w = g" "isPhaseOverridden a" "retain_refused r custody position a False w = (x, w')"
    | (custody) a where "generation_of w = g" "isCustodyConflict a"
        "retain_refused r custody position a (att_code a = Some TRIP_HANDED_OVER) w = (x, w')"
    | (other) "after_coded E r custody position g err w = (x, w')"
    using run unfolding submission_failed_def
    by (cases "classifyLiveWriteFailure (now_of E w) err") (auto split: if_splits)
  then show ?thesis
  proof cases
    case away
    then show ?thesis by (rule retain_ends_kept(1)[where S = S, OF S(1)])
  next
    case told
    then show ?thesis by (simp add: ends_kept_def)
  next
    case (refused a)
    then show ?thesis by (rule overridden_ends_kept[where S = S, OF S(1)])
  next
    case (custody a)
    then show ?thesis by (intro retain_ends_kept(2)[where S = S and a = a, OF S(1)]) auto
  qed (rule coded)
qed

lemma submits_guarded: "guarded E Q w (snd (submits E r position k w))"
  by (rule guarded_writes.submitPhase_rel[where g = "generation_of w"]) auto

lemma run_ends_kept:
  assumes "runSubmission E r captured cache g w = (x, w')" "Q (w_ls w) (w_db w)" "undisturbed E Q"
    and "\<And>u. guarded E Q u (snd (sr_refetchTrip r u))"
  shows "ends_kept r (swipe_stamp r w) (fst (resolvePosition E captured cache g w)) g (\<lambda>u. Q (w_ls u) (w_db u)) x w'"
proof -
  have S1: "Q (w_ls (await E w)) (w_db (await E w))" by (rule undisturbed_await[OF assms(3,2)])
  have keep: "Q (w_ls u) (w_db u) \<Longrightarrow> Q (w_ls (snd (sr_refetchTrip r u))) (w_db (snd (sr_refetchTrip r u)))" for u
    using assms(3) assms(4)[of u] by (simp add: guarded_def keeps_def)
  have S2: "Q (w_ls v) (w_db v)" if "submits E r position k (await E w) = (y, v)" for position k y v
    using submits_guarded[where E = E and Q = Q and w = "await E w" and r = r and position = position and k = k] that S1 assms(3)
    by (simp add: guarded_def keeps_def)
  from assms(1) show ?thesis
  proof (cases rule: runSubmission_cases)
    case (away position u)
    then show ?thesis using retain_ends_kept(1)[of "\<lambda>u. Q (w_ls u) (w_db u)" u] S1 by blast
  next
    case (failed position err u v)
    then show ?thesis using failed_ends_kept[where S = "\<lambda>u. Q (w_ls u) (w_db u)"] S2 keep by blast
  next
    case (odd position result err u v)
    then show ?thesis using failed_ends_kept[where S = "\<lambda>u. Q (w_ls u) (w_db u)"] S2 keep by blast
  next
    case (left position result u v)
    then show ?thesis using retain_ends_kept(1)[of "\<lambda>u. Q (w_ls u) (w_db u)" v] S2 by blast
  next
    case (answered position result phase u v)
    then have "Q (w_ls v) (w_db v)" using S2 by blast
    from override_ends_kept[where S = "\<lambda>u. Q (w_ls u) (w_db u)", OF this answered(2)] answered(5,6) show ?thesis
      by (auto simp: ends_kept_def[of _ _ _ _ _ "Inr (Hold t)" for t] ends_kept_def[of _ _ _ _ _ "Inr (Recorded t p)" for t p]
          split: if_splits)
  qed
qed

lemma enqueue_custody: "w_custody (snd (enqueuePhase E tripId c custody attn key w)) = w_custody w"
  by (auto simp: enqueuePhase_def append_entry_def ls_save_def publishCounts_def randomUUID_def Let_def split: prod.split bool.split)

text \<open>Property C28. A swipe is never lost behind a comforting message: when a submission ends as queued, or as
  retained and stored, the capture is in the offline queue of the phone with the swipe's own trip,
  phase, evidence (the derived PDF copy left out when the storage has no room for it), instant, acknowledgement,
  idempotency key, capturer and custody period, and with the position of the swipe: the fix that came in time, or
  else the last fix of the same sign-in not older than a minute, or none. A queued capture waits to be sent without
  a mark; so does one retained because another account is signed in by now. One retained after a refusal
  carries the very reason the driver is told, under the custody or override code of the refusal, and "handed over" is said
  exactly when the code says so.\<close>

theorem kept_submission_is_queued:
  assumes "runSubmission E r captured cache g w = (Inr out, w')"
    and "out = Queued \<or> (\<exists>m h. out = Retained_outcome m True h)"
    and "sr_enqueuePhase r = enqueuePhase E" "sr_custody r = Some stamp"
    and "migrated (w_ls w)" "undisturbed E (\<lambda>ls db. migrated ls)"
    and "\<And>u. guarded E (\<lambda>ls db. migrated ls) u (snd (sr_refetchTrip r u))"
  shows "\<exists>position attn e. Sendable e \<in> set (loadQueue (w_ls w'))
    \<and> queued_as (sr_tripId r) (submission_capture r position) stamp attn (Some (sr_idempotencyKey r)) e
    \<and> (case (captured, cache) of
          (Some p, _) \<Rightarrow> position = Some p
        | (None, Some f) \<Rightarrow> position = (if fix_generation f = g \<and> generation_of (await E w) = g
             \<and> env_ms E (w_tick (await E w)) - fix_capturedAtMs f \<le> 60000 then Some (fix_position f) else None)
        | (None, None) \<Rightarrow> position = None)
    \<and> (out = Queued \<longrightarrow> attn = None)
    \<and> (\<forall>m h. out = Retained_outcome m True h \<longrightarrow> (case attn of
          None \<Rightarrow> m = accountChanged \<and> \<not> h \<and> generation_of w' \<noteq> g
        | Some a \<Rightarrow> m = att_reason a \<and> (h \<longleftrightarrow> att_code a = Some TRIP_HANDED_OVER) \<and> generation_of w' = g
            \<and> att_code a \<in> Some ` {TRIP_HANDED_OVER, CUSTODY_CONTEXT_CHANGED, CUSTODY_CONTEXT_REQUIRED, PHASE_OVERRIDDEN}))"
proof -
  let ?position = "fst (resolvePosition E captured cache g w)"
  have ends: "ends_kept r stamp ?position g (\<lambda>u. migrated (w_ls u)) (Inr out) w'"
    using run_ends_kept[OF assms(1,5,6,7)] assms(4) by (simp add: swipe_stamp_def)
  obtain attn u where e: "migrated (w_ls u)" "enqueue_capture r stamp ?position attn u = (True, w')"
      and q: "out = Queued \<longrightarrow> attn = None" and m: "\<forall>m h. out = Retained_outcome m True h \<longrightarrow> kept_mark g u m h attn"
    using assms(2)
  proof
    assume "out = Queued"
    then show thesis using ends that by (auto simp: ends_kept_def)
  next
    assume "\<exists>m h. out = Retained_outcome m True h"
    then obtain m h where o: "out = Retained_outcome m True h" by blast
    then obtain attn u where "migrated (w_ls u)" "enqueue_capture r stamp ?position attn u = (True, w')" "kept_mark g u m h attn"
      using ends unfolding ends_kept_def by blast
    then show thesis using that[of u attn] o by simp
  qed
  have enq: "enqueuePhase E (sr_tripId r) (submission_capture r ?position) (Some stamp) attn (Some (sr_idempotencyKey r)) u = (True, w')"
    using e(2) assms(3) by (simp add: enqueue_capture_def)
  from enqueue_effect[OF e(1) enq] obtain x where x: "loadQueue (w_ls w') = loadQueue (w_ls u) @ [Sendable x]"
      "queued_as (sr_tripId r) (submission_capture r ?position) stamp attn (Some (sr_idempotencyKey r)) x"
    by (auto simp: stampFor_def)
  have gen: "generation_of u = generation_of w'"
    using enqueue_custody[of E "sr_tripId r" "submission_capture r ?position" "Some stamp" attn "Some (sr_idempotencyKey r)" u]
    by (simp add: enq)
  show ?thesis
  proof (intro exI[of _ ?position] exI[of _ attn] exI[of _ x] conjI)
    show "Sendable x \<in> set (loadQueue (w_ls w'))" by (simp add: x(1))
    show "case (captured, cache) of (Some p, _) \<Rightarrow> ?position = Some p
        | (None, Some f) \<Rightarrow> ?position = (if fix_generation f = g \<and> generation_of (await E w) = g
             \<and> env_ms E (w_tick (await E w)) - fix_capturedAtMs f \<le> 60000 then Some (fix_position f) else None)
        | (None, None) \<Rightarrow> ?position = None"
      by (simp add: resolvePosition_def recentFix_def POSITION_FALLBACK_MAX_AGE_MS_def Let_def del: await_frame split: option.split)
    show "\<forall>m h. out = Retained_outcome m True h \<longrightarrow> (case attn of
          None \<Rightarrow> m = accountChanged \<and> \<not> h \<and> generation_of w' \<noteq> g
        | Some a \<Rightarrow> m = att_reason a \<and> (h \<longleftrightarrow> att_code a = Some TRIP_HANDED_OVER) \<and> generation_of w' = g
            \<and> att_code a \<in> Some ` {TRIP_HANDED_OVER, CUSTODY_CONTEXT_CHANGED, CUSTODY_CONTEXT_REQUIRED, PHASE_OVERRIDDEN})"
      using m unfolding kept_mark_def gen .
  qed (use x(2) q in simp_all)
qed

text \<open>A drive that ends where there is no signal, and one whose first attempt the server has already.\<close>

definition demo_submission :: "env \<Rightarrow> phase_submission_request" where
  "demo_submission E = \<lparr>sr_tripId = ''T'', sr_phaseEventId = ''P'', sr_phaseType = In_transit, sr_evidence = emptyEvidence,
     sr_idempotencyKey = ''K'', sr_driverCapturedAt = ''swipe'', sr_acknowledgement = None,
     sr_custody = Some \<lparr>stamp_actorId = Some ''A'', stamp_custodySequence = Some 1\<rparr>,
     sr_enqueuePhase = enqueuePhase E, sr_refetchTrip = (\<lambda>w. (Inr None, w))\<rparr>"

definition no_signal :: env where
  "no_signal = quiet\<lparr>env_fetch := (\<lambda>_ _. Timed_out)\<rparr>"

lemmas submission_defs = runSubmission_def resolvePosition_def recentFix_def swipe_stamp_def submission_capture_def
  demo_submission_def submission_failed_def

lemma recorded_only_when_it_is_witness:
  "\<exists>v. runSubmission already_recorded (demo_submission already_recorded) None None 0 (demo_world []) = (Inr (Recorded None None), v)
     \<and> generation_of v = 0"
proof -
  let ?r = "demo_submission already_recorded" and ?w = "demo_world []"
  have dup: "classifyLiveWriteFailure now recorded_error = Duplicate None" for now
    by (simp add: recorded_error_def ae_code_def)
  have sent: "fst (submitPhase already_recorded (phase_input ''T'' (submission_capture ?r None)) (Some 1) (await already_recorded ?w))
      = Inl recorded_error" and quiet_wait: "generation_of (await already_recorded ?w) = 0"
      and gen: "generation_of (snd (submitPhase already_recorded (phase_input ''T'' (submission_capture ?r None)) (Some 1)
          (await already_recorded ?w))) = 0"
    by (simp_all add: submit_defs submission_capture_def demo_submission_def already_recorded_def answer_def Let_def
      readError_def code_of_text_def KNOWN_CODES_def retryAfterMilliseconds_def SESSION_SUPERSEDED_MESSAGE_def
      recorded_error_def emptyEvidence_def demo_world_def initialModule_def actorGeneration_def)
  obtain v where v: "submitPhase already_recorded (phase_input ''T'' (submission_capture ?r None)) (Some 1)
      (await already_recorded ?w) = (Inl recorded_error, v)"
    using sent by (cases "submitPhase already_recorded (phase_input ''T'' (submission_capture ?r None)) (Some 1)
      (await already_recorded ?w)") auto
  have run: "runSubmission already_recorded ?r None None 0 ?w = (Inr (Recorded None None), v)"
    using quiet_wait gen v dup
    by (simp add: runSubmission_def resolvePosition_def recentFix_def swipe_stamp_def Let_def submission_failed_def
        demo_submission_def[of already_recorded] submission_capture_def recorded_error_def ae_code_def)
  from recorded_only_when_it_is[OF run] run show ?thesis by blast
qed

lemma kept_submission_is_queued_witness:
  "\<exists>v e. runSubmission no_signal (demo_submission no_signal) None None 0 (demo_world []) = (Inr Queued, v)
     \<and> Sendable e \<in> set (loadQueue (w_ls v)) \<and> se_status e = Some Pending
     \<and> (\<exists>c. se_body e = Phase_capture c \<and> pc_position c = None)"
proof -
  let ?r = "demo_submission no_signal" and ?w = "demo_world []"
  obtain err v where v: "submitPhase no_signal (phase_input ''T'' (submission_capture ?r None)) (Some 1)
      (await no_signal ?w) = (Inl (plainApiError 0 err), v)" and wait: "generation_of (await no_signal ?w) = 0"
      and gen: "generation_of v = 0" and ls: "w_ls v = w_ls ?w" "w_uuids v = 0"
    by (simp add: submit_defs submission_capture_def demo_submission_def no_signal_def Let_def
      emptyEvidence_def demo_world_def initialModule_def actorGeneration_def plainApiError_def)
  have m: "migrated (w_ls v)" by (simp add: ls demo_world_def phone_storage_def migrated_def QUEUE_VERSION_def)
  obtain ok u where q: "enqueue_capture ?r \<lparr>stamp_actorId = Some ''A'', stamp_custodySequence = Some 1\<rparr> None None v = (ok, u)"
    by force
  have ok: "ok"
    using q m by (simp add: enqueue_capture_def demo_submission_def enqueuePhase_def randomUUID_def append_entry_def ls_save_def Let_def)
      (simp add: ls demo_world_def phone_storage_def writeQueue_def migrated_save split: prod.splits bool.splits)
  have run: "runSubmission no_signal ?r None None 0 ?w = (Inr Queued, u)"
    using wait gen v q ok
    by (simp add: runSubmission_def resolvePosition_def recentFix_def swipe_stamp_def Let_def submission_failed_def after_coded_def
        demo_submission_def[of no_signal] submission_capture_def plainApiError_def ae_code_def)
  have "\<exists>position attn e. Sendable e \<in> set (loadQueue (w_ls u))
    \<and> queued_as (sr_tripId ?r) (submission_capture ?r position) \<lparr>stamp_actorId = Some ''A'', stamp_custodySequence = Some 1\<rparr>
        attn (Some (sr_idempotencyKey ?r)) e \<and> position = None \<and> attn = None"
    using kept_submission_is_queued[OF run, where stamp = "\<lparr>stamp_actorId = Some ''A'', stamp_custodySequence = Some 1\<rparr>"]
    by (simp add: demo_submission_def undisturbed_def no_signal_def guarded.rel_refl demo_world_def phone_storage_def
        migrated_def QUEUE_VERSION_def)
  then show ?thesis using run by (fastforce simp: queued_as_def without_pdf_def submission_capture_def Let_def)
qed

end
