(* ===== verification/SubmissionStore.thy ===== *)
theory SubmissionStore
  imports PhaseSubmitter
begin

text \<open>
  The module state of \<open>lib/submission/phase-submitter.ts\<close>: which submissions run, which failed and
  were not acknowledged, and what the screens are shown of it. Submissions start and settle in any
  order, and the account and the custody period change in between; the state machine at the end
  covers every such run.
\<close>

section \<open>The store\<close>

text \<open>\<open>JSON.stringify\<close> of the five parts is injective, so the key is the tuple itself.\<close>

type_synonym attempt_key = "nat \<times> string \<times> string option \<times> int \<times> string"

record submission_scope =
  sc_key :: attempt_key
  sc_generation :: nat
  sc_tripId :: string
  sc_phaseEventId :: string
  sc_custody :: custody_stamp

record submission_failure =
  sf_phaseEventId :: string
  sf_phaseType :: phase_type
  sf_message :: string

record submission_store =
  ss_inFlight :: "submission_scope list"
  ss_failures :: "(submission_scope \<times> submission_failure) list"
  ss_running :: "attempt_key set"

definition empty_store :: submission_store where
  "empty_store = \<lparr>ss_inFlight = [], ss_failures = [], ss_running = {}\<rparr>"

definition isCurrentScope :: "submission_scope \<Rightarrow> custody_module \<Rightarrow> bool" where
  "isCurrentScope scope m \<longleftrightarrow> sc_generation scope = actorGeneration m \<and> isCurrentTripCustody (sc_tripId scope) (sc_custody scope) m"

definition publish :: "custody_module \<Rightarrow> submission_scope list \<Rightarrow> (submission_scope \<times> submission_failure) list
    \<Rightarrow> submission_store \<Rightarrow> submission_store" where
  "publish m inFlight failures st = st\<lparr>ss_inFlight := filter (\<lambda>s. sc_generation s = actorGeneration m) inFlight,
     ss_failures := filter (\<lambda>f. sc_generation (fst f) = actorGeneration m) failures\<rparr>"

text \<open>What \<open>useSyncExternalStore\<close> reads; the previous snapshot is returned again when nothing differs.\<close>

record submission_snapshot =
  sn_inFlight :: "string list"
  sn_failures :: "submission_failure list"

definition EMPTY_STATE :: submission_snapshot where
  "EMPTY_STATE = \<lparr>sn_inFlight = [], sn_failures = []\<rparr>"

definition differs :: "'a list \<Rightarrow> 'a list \<Rightarrow> bool" where
  "differs xs ys \<longleftrightarrow> length xs \<noteq> length ys \<or> list_ex (\<lambda>i. xs ! i \<noteq> ys ! i) [0..<length xs]"

definition getSnapshot :: "custody_module \<Rightarrow> submission_store \<Rightarrow> submission_snapshot \<Rightarrow> submission_snapshot" where
  "getSnapshot m st snapshot =
     (let inFlight = map sc_phaseEventId (filter (\<lambda>s. isCurrentScope s m) (ss_inFlight st));
          failures = map snd (filter (\<lambda>f. isCurrentScope (fst f) m) (ss_failures st))
      in if inFlight = [] \<and> failures = [] then EMPTY_STATE
         else if differs inFlight (sn_inFlight snapshot) \<or> differs failures (sn_failures snapshot)
         then \<lparr>sn_inFlight = inFlight, sn_failures = failures\<rparr>
         else snapshot)"

text \<open>The listener on account changes.\<close>

definition on_actor_change :: "custody_module \<Rightarrow> submission_store \<Rightarrow> submission_store" where
  "on_actor_change m st =
     (if list_ex (\<lambda>s. sc_generation s \<noteq> actorGeneration m) (ss_inFlight st)
        \<or> list_ex (\<lambda>f. sc_generation (fst f) \<noteq> actorGeneration m) (ss_failures st)
      then publish m (ss_inFlight st) (ss_failures st) st else st)"

definition dismissPhaseSubmissionFailure :: "custody_module \<Rightarrow> string \<Rightarrow> submission_store \<Rightarrow> submission_store" where
  "dismissPhaseSubmissionFailure m phaseEventId st =
     publish m (ss_inFlight st) (filter (\<lambda>f. sf_phaseEventId (snd f) \<noteq> phaseEventId) (ss_failures st)) st"

text \<open>The message of a terminal outcome; the others leave no notice.\<close>

fun terminal_message :: "submission_outcome \<Rightarrow> string option" where
  "terminal_message (Failed m) = Some m"
| "terminal_message (Conflict_outcome m) = Some m"
| "terminal_message (Retained_outcome m _ _) = Some m"
| "terminal_message _ = None"

definition settle :: "custody_module \<Rightarrow> phase_submission_request \<Rightarrow> submission_outcome \<Rightarrow> submission_scope \<Rightarrow> submission_store
    \<Rightarrow> submission_store" where
  "settle m r outcome scope st =
     (let inFlight = filter (\<lambda>s. sc_key s \<noteq> sc_key scope) (ss_inFlight st);
          others = filter (\<lambda>f. sc_key (fst f) \<noteq> sc_key scope) (ss_failures st);
          failures = (case terminal_message outcome of
              Some msg \<Rightarrow> others @ [(scope, \<lparr>sf_phaseEventId = sr_phaseEventId r, sf_phaseType = sr_phaseType r, sf_message = msg\<rparr>)]
            | None \<Rightarrow> others)
      in publish m inFlight failures (st\<lparr>ss_running := ss_running st - {sc_key scope}\<rparr>))"

text \<open>An unexpected rejection settles as a failure.\<close>

definition settled_outcome :: "js_error + submission_outcome \<Rightarrow> submission_outcome" where
  "settled_outcome x = (case x of Inl e \<Rightarrow> Failed (error_message e) | Inr out \<Rightarrow> out)"

definition scope_of :: "custody_module \<Rightarrow> phase_submission_request \<Rightarrow> submission_scope" where
  "scope_of m r =
     (let g = actorGeneration m;
          custody = (case sr_custody r of Some s \<Rightarrow> s | None \<Rightarrow> captureCustody (sr_tripId r) m)
      in \<lparr>sc_key = (g, sr_tripId r, stamp_actorId custody, orZero (stamp_custodySequence custody), sr_phaseEventId r),
          sc_generation = g, sc_tripId = sr_tripId r, sc_phaseEventId = sr_phaseEventId r, sc_custody = custody\<rparr>)"

text \<open>
  The synchronous part of \<open>startPhaseSubmission\<close>: whether a run was started, under which scope and
  with which request (its stamp fixed at the swipe).
\<close>

definition startPhaseSubmission :: "custody_module \<Rightarrow> phase_submission_request \<Rightarrow> submission_store
    \<Rightarrow> (submission_scope \<times> phase_submission_request) option \<times> submission_store" where
  "startPhaseSubmission m r st =
     (let scope = scope_of m r in
      if sc_key scope \<in> ss_running st then (None, st)
      else (Some (scope, r\<lparr>sr_custody := Some (sc_custody scope)\<rparr>),
        publish m (ss_inFlight st @ [scope]) (filter (\<lambda>f. sc_key (fst f) \<noteq> sc_key scope) (ss_failures st))
          (st\<lparr>ss_running := insert (sc_key scope) (ss_running st)\<rparr>)))"

section \<open>Every run of the module\<close>

record submitter =
  sub_custody :: custody_module
  sub_store :: submission_store
  sub_outstanding :: "(submission_scope \<times> phase_submission_request) list"

inductive sub_step :: "submitter \<Rightarrow> submitter \<Rightarrow> bool" where
  sub_start: "startPhaseSubmission (sub_custody s) r (sub_store s) = (Some x, st) \<Longrightarrow>
     sub_step s (s\<lparr>sub_store := st, sub_outstanding := sub_outstanding s @ [x]\<rparr>)"
| sub_ignored: "startPhaseSubmission (sub_custody s) r (sub_store s) = (None, st) \<Longrightarrow> sub_step s (s\<lparr>sub_store := st\<rparr>)"
| sub_settle: "sub_outstanding s = xs @ (scope, r) # ys \<Longrightarrow>
     sub_step s (s\<lparr>sub_store := settle (sub_custody s) r (settled_outcome out) scope (sub_store s), sub_outstanding := xs @ ys\<rparr>)"
| sub_dismiss: "sub_step s (s\<lparr>sub_store := dismissPhaseSubmissionFailure (sub_custody s) p (sub_store s)\<rparr>)"
| sub_listener: "sub_step s (s\<lparr>sub_store := on_actor_change (sub_custody s) (sub_store s)\<rparr>)"
| sub_custody: "sub_step s (s\<lparr>sub_custody := custody_step e (sub_custody s)\<rparr>)"

definition sub_initial :: "custody_module \<Rightarrow> submitter" where
  "sub_initial m = \<lparr>sub_custody = m, sub_store = empty_store, sub_outstanding = []\<rparr>"

inductive sub_reachable :: "submitter \<Rightarrow> bool" where
  sub_start_state: "sub_reachable (sub_initial m)"
| sub_next: "sub_reachable s \<Longrightarrow> sub_step s s' \<Longrightarrow> sub_reachable s'"

inductive_cases sub_stepE: "sub_step s s'"

text \<open>The attempts of sign-in \<open>g\<close>.\<close>

abbreviation mine :: "nat \<Rightarrow> submission_scope list \<Rightarrow> submission_scope list" where
  "mine g \<equiv> filter (\<lambda>sc. sc_generation sc = g)"

definition store_inv :: "nat \<Rightarrow> submission_scope list \<Rightarrow> submission_store \<Rightarrow> bool" where
  "store_inv g out st \<longleftrightarrow> distinct (map sc_key out) \<and> ss_running st = sc_key ` set out
     \<and> mine g (ss_inFlight st) = mine g out
     \<and> (\<forall>sc\<in>set out \<union> set (ss_inFlight st). sc_generation sc \<le> g)
     \<and> (\<forall>f\<in>set (ss_failures st). sc_key (fst f) \<notin> ss_running st)
     \<and> distinct (map (\<lambda>f. sc_key (fst f)) (ss_failures st))"

abbreviation sub_inv :: "submitter \<Rightarrow> bool" where
  "sub_inv s \<equiv> store_inv (actorGeneration (sub_custody s)) (map fst (sub_outstanding s)) (sub_store s)"

lemma publish_simps [simp]:
  "ss_running (publish m i f st) = ss_running st"
  "ss_inFlight (publish m i f st) = filter (\<lambda>s. sc_generation s = actorGeneration m) i"
  "ss_failures (publish m i f st) = filter (\<lambda>x. sc_generation (fst x) = actorGeneration m) f"
  by (simp_all add: publish_def)


section \<open>The invariant\<close>

lemmas sub_defs = startPhaseSubmission_def settle_def dismissPhaseSubmissionFailure_def on_actor_change_def Let_def

lemma filter_other_keys:
  "distinct (map f (xs @ x # ys)) \<Longrightarrow> filter (\<lambda>s. f s \<noteq> f x) (filter P (xs @ x # ys)) = filter P (xs @ ys)"
  by (auto simp: filter_filter image_iff intro!: filter_cong arg_cong2[where f = append])

lemma scope_of_generation [simp]: "sc_generation (scope_of m r) = actorGeneration m"
  by (simp add: scope_of_def Let_def)

lemma store_inv_failures: "store_inv g out st \<Longrightarrow> distinct (map (\<lambda>f. sc_key (fst f)) (ss_failures st))"
  by (simp add: store_inv_def)

lemma store_inv_publish:
  assumes "store_inv g out st"
    and "set f \<subseteq> set (ss_failures st)" "distinct (map (\<lambda>f. sc_key (fst f)) f)" "g = actorGeneration m"
  shows "store_inv g out (publish m (ss_inFlight st) f st)"
  using assms unfolding store_inv_def by (force simp: distinct_map_filter)

lemma store_inv_start:
  assumes inv: "store_inv g out st" and g: "g = actorGeneration m"
    and start: "startPhaseSubmission m r st = (Some x, st')"
  shows "store_inv g (out @ [fst x]) st'"
proof -
  let ?sc = "scope_of m r"
  have new: "sc_key ?sc \<notin> ss_running st" and x: "fst x = ?sc"
    using start by (auto simp: sub_defs split: if_splits)
  have "ss_running st' = insert (sc_key ?sc) (ss_running st)" "ss_inFlight st' = mine g (ss_inFlight st) @ [?sc]"
    "ss_failures st' = filter (\<lambda>x. sc_generation (fst x) = g) (filter (\<lambda>f. sc_key (fst f) \<noteq> sc_key ?sc) (ss_failures st))"
    using start by (auto simp: sub_defs g split: if_splits)
  then show ?thesis using inv new unfolding store_inv_def by (auto simp: x g distinct_map_filter)
qed

lemma store_inv_settle:
  assumes inv: "store_inv g (xs @ scope # ys) st" and g: "g = actorGeneration m"
  shows "store_inv g (xs @ ys) (settle m r outcome scope st)"
proof -
  let ?st' = "settle m r outcome scope st"
  have d: "distinct (map sc_key (xs @ scope # ys))" using inv by (simp add: store_inv_def)
  have fl: "mine g (ss_inFlight st) = mine g (xs @ scope # ys)" using inv by (simp add: store_inv_def)
  have run: "ss_running ?st' = sc_key ` set (xs @ ys)"
    using inv by (auto simp: sub_defs store_inv_def split: option.splits)
  have inf: "ss_inFlight ?st' = filter (\<lambda>a. sc_key a \<noteq> sc_key scope) (mine g (ss_inFlight st))"
    by (auto simp: sub_defs filter_filter g intro!: filter_cong split: option.splits)
  have fl': "ss_inFlight ?st' = mine g (xs @ ys)"
    unfolding inf fl using d by (rule filter_other_keys)
  have "\<forall>f\<in>set (ss_failures ?st'). sc_key (fst f) \<notin> ss_running ?st'"
    using inv by (auto simp: sub_defs store_inv_def split: option.splits)
  moreover have "distinct (map (\<lambda>f. sc_key (fst f)) (ss_failures ?st'))"
    using inv by (auto simp: sub_defs store_inv_def distinct_map_filter split: option.splits)
  moreover have "\<forall>sc\<in>set (xs @ ys). sc_generation sc \<le> g" using inv by (auto simp: store_inv_def)
  ultimately show ?thesis using d by (auto simp: store_inv_def run fl')
qed

lemma store_inv_older:
  assumes "store_inv g out st" "g \<le> g'"
  shows "store_inv g' out st"
proof (cases "g = g'")
  case False
  have "mine g' xs = []" if "\<forall>sc\<in>set xs. sc_generation sc \<le> g" for xs
    using that False assms(2) by (auto simp: filter_empty_conv)
  then show ?thesis using assms unfolding store_inv_def by (auto intro: order_trans)
qed (use assms in simp)

lemma sub_inv_step: "sub_step s s' \<Longrightarrow> sub_inv s \<Longrightarrow> sub_inv s'"
proof (induction rule: sub_step.induct)
  case (sub_start s r x st)
  then show ?case using store_inv_start[OF sub_start.prems refl sub_start.hyps] by simp
next
  case (sub_ignored s r st)
  then show ?case by (auto simp: sub_defs split: if_splits)
next
  case (sub_settle s xs scope r ys out)
  then show ?case by (auto intro!: store_inv_settle)
next
  case (sub_dismiss s p)
  then show ?case using store_inv_failures[OF sub_dismiss]
    by (simp add: dismissPhaseSubmissionFailure_def store_inv_publish distinct_map_filter filter_is_subset)
next
  case (sub_listener s)
  then show ?case using store_inv_failures[OF sub_listener] by (simp add: on_actor_change_def store_inv_publish)
next
  case (sub_custody s e)
  then show ?case using custody_step_generation[of "sub_custody s" e]
    by (auto simp: actorGeneration_def intro: store_inv_older)
qed

lemma submitter_inv: "sub_reachable s \<Longrightarrow> sub_inv s"
proof (induction rule: sub_reachable.induct)
  case (sub_start_state m)
  then show ?case by (simp add: store_inv_def sub_initial_def empty_store_def)
qed (rule sub_inv_step)

section \<open>What the screens are shown\<close>

lemma differs_iff [simp]: "differs xs ys \<longleftrightarrow> xs \<noteq> ys"
  unfolding differs_def list_ex_iff list_eq_iff_nth_eq[of xs ys] by auto

lemma getSnapshot_is_visible:
  "getSnapshot m st old = \<lparr>sn_inFlight = map sc_phaseEventId (filter (\<lambda>s. isCurrentScope s m) (ss_inFlight st)),
     sn_failures = map snd (filter (\<lambda>f. isCurrentScope (fst f) m) (ss_failures st))\<rparr>"
  by (simp add: getSnapshot_def Let_def EMPTY_STATE_def)

lemma filter_current: "filter (\<lambda>s. isCurrentScope s m) (mine (actorGeneration m) xs) = filter (\<lambda>s. isCurrentScope s m) xs"
  by (auto simp: filter_filter isCurrentScope_def intro: filter_cong)

text \<open>Property C29. In every state the submitter can reach, through any order of swipes, settlements,
  acknowledgements, account changes and custody changes: each attempt key is running at most once; the
  registry of running keys is exactly that of the submissions that have not settled, so none stays marked
  after it settled and none runs unmarked; the "submitting" markers the screens are shown are exactly the
  unsettled submissions of this sign-in and of the period the trip is in, in the order they were started;
  no attempt is shown as failed while it runs, and a swipe is ignored exactly when its own attempt is
  still running.\<close>
theorem submission_store_correct:
  assumes "sub_reachable s"
  shows "distinct (map (\<lambda>x. sc_key (fst x)) (sub_outstanding s))
    \<and> ss_running (sub_store s) = (\<lambda>x. sc_key (fst x)) ` set (sub_outstanding s)
    \<and> sn_inFlight (getSnapshot (sub_custody s) (sub_store s) old)
       = map (\<lambda>x. sc_phaseEventId (fst x)) (filter (\<lambda>x. isCurrentScope (fst x) (sub_custody s)) (sub_outstanding s))
    \<and> (\<lambda>f. sc_key (fst f)) ` set (ss_failures (sub_store s)) \<inter> (\<lambda>x. sc_key (fst x)) ` set (sub_outstanding s) = {}
    \<and> (fst (startPhaseSubmission (sub_custody s) r (sub_store s)) = None
       \<longleftrightarrow> sc_key (scope_of (sub_custody s) r) \<in> (\<lambda>x. sc_key (fst x)) ` set (sub_outstanding s))"
proof -
  let ?m = "sub_custody s" and ?out = "map fst (sub_outstanding s)"
  have inv: "sub_inv s" using assms by (rule submitter_inv)
  then have "mine (actorGeneration ?m) (ss_inFlight (sub_store s)) = mine (actorGeneration ?m) ?out"
    by (simp add: store_inv_def)
  then have "filter (\<lambda>x. isCurrentScope x ?m) (ss_inFlight (sub_store s)) = filter (\<lambda>x. isCurrentScope x ?m) ?out"
    by (metis filter_current)
  then have "sn_inFlight (getSnapshot ?m (sub_store s) old)
      = map (\<lambda>x. sc_phaseEventId (fst x)) (filter (\<lambda>x. isCurrentScope (fst x) ?m) (sub_outstanding s))"
    by (simp add: getSnapshot_is_visible filter_map comp_def)
  moreover have "(\<lambda>f. sc_key (fst f)) ` set (ss_failures (sub_store s)) \<inter> (\<lambda>x. sc_key (fst x)) ` set (sub_outstanding s) = {}"
    using inv unfolding store_inv_def by (force simp: image_image)
  ultimately show ?thesis using inv
    by (simp add: store_inv_def comp_def image_image startPhaseSubmission_def Let_def)
qed

lemma submission_store_correct_witness:
  "let m = initialModule\<lparr>cm_generation := 1\<rparr>; r = demo_submission already_recorded; x = (scope_of m r, r\<lparr>sr_custody := Some (sc_custody (scope_of m r))\<rparr>);
       s = (sub_initial m)\<lparr>sub_store := snd (startPhaseSubmission m r empty_store), sub_outstanding := [x]\<rparr>
   in sub_reachable s \<and> fst (startPhaseSubmission m r empty_store) = Some x
      \<and> fst (startPhaseSubmission m r (sub_store s)) = None"
proof -
  let ?m = "initialModule\<lparr>cm_generation := 1\<rparr>" and ?r = "demo_submission already_recorded"
  let ?x = "(scope_of ?m ?r, ?r\<lparr>sr_custody := Some (sc_custody (scope_of ?m ?r))\<rparr>)"
  let ?st = "snd (startPhaseSubmission ?m ?r empty_store)"
  let ?s = "(sub_initial ?m)\<lparr>sub_store := ?st, sub_outstanding := [?x]\<rparr>"
  have x: "startPhaseSubmission ?m ?r empty_store = (Some ?x, ?st)"
    by (simp add: startPhaseSubmission_def empty_store_def Let_def)
  have "sub_step (sub_initial ?m) ?s"
    using sub_step.sub_start[of "sub_initial ?m" ?r ?x ?st] x by (simp add: sub_initial_def)
  then have "sub_reachable ?s" using sub_reachable.intros by blast
  moreover have "fst (startPhaseSubmission ?m ?r ?st) = None"
    using submission_store_correct[OF calculation, where r = ?r] by (simp add: sub_initial_def)
  moreover have "fst (startPhaseSubmission ?m ?r empty_store) = Some ?x" by (subst x) (rule fst_conv)
  ultimately show ?thesis by (simp add: sub_initial_def Let_def)
qed

end
