(* ===== verification/RetainedDrafts.thy ===== *)
theory RetainedDrafts
  imports World DataUrl
begin

text \<open>
  \<open>lib/offline/retained-drafts.ts\<close>: the evidence drafts of the phase steps, bound to the account
  and the custody period that captured them. A stored text is represented by what
  \<open>JSON.parse\<close> makes of it; \<open>JSON.stringify\<close> is then the constructor \<open>Json_text\<close>. Whether a write
  is stored, silently dropped or rejected is up to the phone and may change at any time.
\<close>

section \<open>The storage\<close>

datatype stored_text = Json_text json | Other_text string

datatype write_result = Written | Dropped | Write_throws

record draft_storage =
  ds_present :: bool
  ds_readable :: bool
  ds_items :: "(string \<times> stored_text) list"
  ds_write :: "string \<Rightarrow> stored_text \<Rightarrow> write_result"
  ds_uuids :: nat

definition getItem :: "string \<Rightarrow> draft_storage \<Rightarrow> stored_text option" where
  "getItem k st = map_of (ds_items st) k"

definition put_item :: "string \<Rightarrow> stored_text \<Rightarrow> (string \<times> stored_text) list \<Rightarrow> (string \<times> stored_text) list" where
  "put_item k t items = (if k \<in> fst ` set items then map (\<lambda>(j, u). (j, if j = k then t else u)) items else items @ [(k, t)])"

text \<open>The flag: it returned without throwing.\<close>

definition setItem :: "string \<Rightarrow> stored_text \<Rightarrow> draft_storage \<Rightarrow> bool \<times> draft_storage" where
  "setItem k t st =
     (if \<not> ds_readable st then (False, st)
      else case ds_write st k t of
        Write_throws \<Rightarrow> (False, st) | Dropped \<Rightarrow> (True, st)
      | Written \<Rightarrow> (True, st\<lparr>ds_items := put_item k t (ds_items st)\<rparr>))"

definition removeItem :: "string \<Rightarrow> draft_storage \<Rightarrow> draft_storage" where
  "removeItem k st = st\<lparr>ds_items := filter (\<lambda>x. fst x \<noteq> k) (ds_items st)\<rparr>"

lemma map_of_replace: "map_of (map (\<lambda>(i, u). (i, if i = k then t else u)) items) j
    = (if j = k then map_option (\<lambda>_. t) (map_of items k) else map_of items j)"
  by (induction items) auto

lemma getItem_set:
  assumes "setItem k t st = (ok, st')"
  shows "getItem j st' = getItem j st \<or> (j = k \<and> getItem j st' = Some t)"
proof -
  have "map_of (put_item k t items) j = map_of items j \<or> j = k \<and> map_of (put_item k t items) j = Some t" for items
  proof (cases "map_of items k")
    case None
    then have "k \<notin> fst ` set items" by (simp add: map_of_eq_None_iff)
    then show ?thesis by (simp add: put_item_def map_add_def split: option.split)
  next
    case (Some u)
    then have "k \<in> fst ` set items" using map_of_eq_None_iff[of items k] by auto
    then show ?thesis using Some by (simp add: put_item_def map_of_replace)
  qed
  from this[of "ds_items st"] show ?thesis using assms
    by (auto simp: setItem_def getItem_def split: if_splits write_result.splits)
qed

lemma getItem_remove [simp]: "getItem j (removeItem k st) = (if j = k then None else getItem j st)"
proof -
  have "map_of (filter (\<lambda>x. fst x \<noteq> k) items) j = (if j = k then None else map_of items j)" for items
    by (induction items) auto
  from this[of "ds_items st"] show ?thesis by (simp add: getItem_def removeItem_def)
qed

lemma getItem_more [simp]: "getItem j (st\<lparr>ds_uuids := n\<rparr>) = getItem j st"
  "getItem j (st\<lparr>ds_readable := r, ds_write := f\<rparr>) = getItem j st"
  by (simp_all add: getItem_def)

section \<open>Stored drafts\<close>

definition DRAFT_PREFIX :: string where "DRAFT_PREFIX = ''fp_draft_''"
definition RETAINED_PREFIX :: string where "RETAINED_PREFIX = ''fp_retained_draft_''"
definition DRAFT_FORMAT_VERSION :: number where "DRAFT_FORMAT_VERSION = 2"
definition DRAFT_MIGRATION_KEY :: string where "DRAFT_MIGRATION_KEY = ''fp_draft_version''"

definition UNKNOWN_CAPTURER_REASON :: string where
  "UNKNOWN_CAPTURER_REASON = ''Saved by an earlier version of the app, before it recorded who captured it.''"
definition EARLIER_PERIOD_REASON :: string where
  "EARLIER_PERIOD_REASON = ''Captured during an earlier period of yours on this trip. It cannot be submitted as current work.''"
definition OTHER_ACCOUNT_REASON :: string where
  "OTHER_ACCOUNT_REASON = ''Captured by another driver account on this phone.''"

definition draftKey :: "string \<Rightarrow> string \<Rightarrow> string" where
  "draftKey tripId phaseEventId = DRAFT_PREFIX @ tripId @ ''_'' @ phaseEventId"

definition retainedKey :: "string \<Rightarrow> string" where
  "retainedKey i = RETAINED_PREFIX @ i"

text \<open>A property of a parsed value; \<open>None\<close> is \<open>undefined\<close>.\<close>

definition prop_of :: "string \<Rightarrow> json \<Rightarrow> json option" where
  "prop_of k j = (case j of JObj ps \<Rightarrow> map_of (rev ps) k | _ \<Rightarrow> None)"

definition isRecord :: "json \<Rightarrow> bool" where
  "isRecord j = (case j of JObj _ \<Rightarrow> True | _ \<Rightarrow> False)"

definition isStoredDraft :: "json \<Rightarrow> bool" where
  "isStoredDraft j \<longleftrightarrow> isRecord j \<and> prop_of ''v'' j = Some (JNum DRAFT_FORMAT_VERSION)
     \<and> (case prop_of ''draft'' j of Some d \<Rightarrow> isRecord d | None \<Rightarrow> False)"

definition startsWith :: "string \<Rightarrow> string \<Rightarrow> bool" where
  "startsWith p s \<longleftrightarrow> take (length p) s = p"

definition parseDraftKey :: "string \<Rightarrow> (string \<times> string) option" where
  "parseDraftKey key =
     (if \<not> startsWith DRAFT_PREFIX key then None
      else let rest = drop (length DRAFT_PREFIX) key in
        case indexOfChar (CHR ''_'') rest of
          None \<Rightarrow> None
        | Some split \<Rightarrow> if split = 0 then None else Some (take split rest, drop (split + 1) rest))"

definition json_actor :: "string option \<Rightarrow> json" where
  "json_actor a = (case a of None \<Rightarrow> JNull | Some s \<Rightarrow> JStr s)"

definition json_seq :: "int option \<Rightarrow> json" where
  "json_seq n = (case n of None \<Rightarrow> JNull | Some i \<Rightarrow> JNum (of_int i))"

text \<open>\<open>undefined\<close> and values of other types compare unequal to everything, as \<open>===\<close> does.\<close>

definition mismatch :: "json \<Rightarrow> custody_stamp \<Rightarrow> string option" where
  "mismatch stored stamp =
     (let actor = prop_of ''actorId'' stored; period = prop_of ''custodySequence'' stored in
      if actor = Some JNull then Some UNKNOWN_CAPTURER_REASON
      else if actor \<noteq> Some (json_actor (stamp_actorId stamp)) then Some OTHER_ACCOUNT_REASON
      else case stamp_custodySequence stamp of
          None \<Rightarrow> None
        | Some n \<Rightarrow> if period = Some JNull \<and> n > 0 then Some EARLIER_PERIOD_REASON
            else if period \<noteq> Some JNull \<and> period \<noteq> Some (json_seq (Some n)) then Some EARLIER_PERIOD_REASON else None)"

text \<open>What is kept of a stored text: \<open>JSON.parse(raw)\<close>, or the raw text when it does not parse.\<close>

definition parsed_or_raw :: "stored_text \<Rightarrow> json" where
  "parsed_or_raw t = (case t of Json_text j \<Rightarrow> j | Other_text s \<Rightarrow> JStr s)"

section \<open>Retaining\<close>

record retained_fields =
  rf_tripId :: string
  rf_phaseEventId :: string
  rf_actorId :: "json option"
  rf_custodySequence :: "json option"
  rf_quarantined :: bool
  rf_reason :: string
  rf_draft :: json

definition optional :: "string \<Rightarrow> json option \<Rightarrow> (string \<times> json) list" where
  "optional k v = (case v of None \<Rightarrow> [] | Some j \<Rightarrow> [(k, j)])"

text \<open>\<open>{ ...record, id, retainedAt }\<close>, as \<open>JSON.stringify\<close> writes it.\<close>

definition retained_json :: "retained_fields \<Rightarrow> string \<Rightarrow> iso \<Rightarrow> json" where
  "retained_json r i instant = JObj ([(''tripId'', JStr (rf_tripId r)), (''phaseEventId'', JStr (rf_phaseEventId r))]
     @ optional ''actorId'' (rf_actorId r) @ optional ''custodySequence'' (rf_custodySequence r)
     @ [(''quarantined'', JBool (rf_quarantined r)), (''reason'', JStr (rf_reason r)), (''draft'', rf_draft r),
        (''id'', JStr i), (''retainedAt'', JStr instant)])"

text \<open>\<open>uuid\<close> and \<open>now\<close> are what the phone answers the \<open>n\<close>-th time it is asked.\<close>

definition retain :: "(nat \<Rightarrow> string) \<Rightarrow> (nat \<Rightarrow> iso) \<Rightarrow> string \<Rightarrow> retained_fields \<Rightarrow> draft_storage \<Rightarrow> bool \<times> draft_storage" where
  "retain uuid now key r st =
     (if \<not> ds_present st then (False, st)
      else let n = ds_uuids st; text = Json_text (retained_json r (uuid n) (now n));
               (ok, st') = setItem (retainedKey (uuid n)) text (st\<lparr>ds_uuids := Suc n\<rparr>)
           in if \<not> ok \<or> getItem (retainedKey (uuid n)) st' \<noteq> Some text then (False, st')
              else (True, removeItem key st'))"

definition legacy_fields :: "string \<Rightarrow> string \<Rightarrow> json \<Rightarrow> retained_fields" where
  "legacy_fields tripId phaseEventId parsed = \<lparr>rf_tripId = tripId, rf_phaseEventId = phaseEventId, rf_actorId = Some JNull,
     rf_custodySequence = Some JNull, rf_quarantined = True, rf_reason = UNKNOWN_CAPTURER_REASON, rf_draft = parsed\<rparr>"

definition foreign_fields :: "string \<Rightarrow> string \<Rightarrow> string \<Rightarrow> json \<Rightarrow> retained_fields" where
  "foreign_fields tripId phaseEventId reason parsed = \<lparr>rf_tripId = tripId, rf_phaseEventId = phaseEventId,
     rf_actorId = prop_of ''actorId'' parsed, rf_custodySequence = prop_of ''custodySequence'' parsed,
     rf_quarantined = (prop_of ''actorId'' parsed = Some JNull), rf_reason = reason,
     rf_draft = the (prop_of ''draft'' parsed)\<rparr>"

section \<open>Reading, writing and removing\<close>

definition readDraft :: "(nat \<Rightarrow> string) \<Rightarrow> (nat \<Rightarrow> iso) \<Rightarrow> string \<Rightarrow> string \<Rightarrow> custody_stamp \<Rightarrow> draft_storage
    \<Rightarrow> json option \<times> draft_storage" where
  "readDraft uuid now tripId phaseEventId stamp st =
     (let key = draftKey tripId phaseEventId in
      if \<not> ds_present st \<or> \<not> ds_readable st then (None, st)
      else case getItem key st of
        None \<Rightarrow> (None, st)
      | Some raw \<Rightarrow>
          let parsed = parsed_or_raw raw in
          if \<not> isStoredDraft parsed then (None, snd (retain uuid now key (legacy_fields tripId phaseEventId parsed) st))
          else case mismatch parsed stamp of
              Some reason \<Rightarrow> (None, snd (retain uuid now key (foreign_fields tripId phaseEventId reason parsed) st))
            | None \<Rightarrow> (prop_of ''draft'' parsed, st))"

datatype draft_error = Draft_not_retained | Draft_unparsable | Draft_storage_failed

definition stored_draft :: "custody_stamp \<Rightarrow> json \<Rightarrow> json" where
  "stored_draft stamp draft = JObj [(''v'', JNum DRAFT_FORMAT_VERSION), (''actorId'', json_actor (stamp_actorId stamp)),
     (''custodySequence'', json_seq (stamp_custodySequence stamp)), (''draft'', draft)]"

text \<open>\<open>None\<close> is a return, \<open>Some\<close> what it throws. Without \<open>window\<close> nothing is stored.\<close>

definition writeDraft :: "(nat \<Rightarrow> string) \<Rightarrow> (nat \<Rightarrow> iso) \<Rightarrow> string \<Rightarrow> string \<Rightarrow> custody_stamp \<Rightarrow> json \<Rightarrow> draft_storage
    \<Rightarrow> draft_error option \<times> draft_storage" where
  "writeDraft uuid now tripId phaseEventId stamp draft st =
     (let key = draftKey tripId phaseEventId; st1 = snd (readDraft uuid now tripId phaseEventId stamp st);
          write = (let (ok, st2) = setItem key (Json_text (stored_draft stamp draft)) st1
                   in (if ok then None else Some Draft_storage_failed, st2))
      in if \<not> ds_present st then (None, st1)
         else if \<not> ds_readable st1 then (Some Draft_storage_failed, st1)
         else case getItem key st1 of
             None \<Rightarrow> write
           | Some (Other_text _) \<Rightarrow> (Some Draft_unparsable, st1)
           | Some (Json_text previous) \<Rightarrow>
               if \<not> isStoredDraft previous \<or> mismatch previous stamp \<noteq> None then (Some Draft_not_retained, st1) else write)"

definition owns_draft :: "json \<Rightarrow> custody_stamp \<Rightarrow> bool" where
  "owns_draft previous stamp \<longleftrightarrow> isStoredDraft previous
     \<and> prop_of ''actorId'' previous = Some (json_actor (stamp_actorId stamp))
     \<and> (prop_of ''custodySequence'' previous = Some (json_seq (stamp_custodySequence stamp))
        \<or> prop_of ''custodySequence'' previous = Some JNull \<and> stamp_custodySequence stamp = Some 0)"

definition removeDraft :: "string \<Rightarrow> string \<Rightarrow> custody_stamp \<Rightarrow> stored_text option \<Rightarrow> draft_storage
    \<Rightarrow> draft_error option \<times> draft_storage" where
  "removeDraft tripId phaseEventId stamp expectedValue st =
     (let key = draftKey tripId phaseEventId in
      if \<not> ds_present st then (None, st)
      else if \<not> ds_readable st then (Some Draft_storage_failed, st)
      else case getItem key st of
        None \<Rightarrow> (None, st)
      | Some raw \<Rightarrow>
          if Some raw \<noteq> expectedValue then (None, st)
          else case raw of
              Other_text _ \<Rightarrow> (Some Draft_unparsable, st)
            | Json_text previous \<Rightarrow> (None, if owns_draft previous stamp then removeItem key st else st))"

section \<open>The sweep of drafts of earlier builds\<close>

text \<open>\<open>Number(text)\<close> for a marker: \<open>Number(null)\<close> and \<open>Number('')\<close> are 0, a text that is no number is \<open>NaN\<close> (\<open>None\<close>).\<close>

definition marker_number :: "stored_text option \<Rightarrow> number option" where
  "marker_number t = (case t of None \<Rightarrow> Some 0 | Some (Json_text (JNum n)) \<Rightarrow> Some n
     | Some (Other_text s) \<Rightarrow> if s = [] then Some 0 else None | Some _ \<Rightarrow> None)"

definition drafts_migrated :: "draft_storage \<Rightarrow> bool" where
  "drafts_migrated st \<longleftrightarrow> (case marker_number (getItem DRAFT_MIGRATION_KEY st) of Some n \<Rightarrow> n \<ge> DRAFT_FORMAT_VERSION | None \<Rightarrow> False)"

fun sweep_drafts :: "(nat \<Rightarrow> string) \<Rightarrow> (nat \<Rightarrow> iso) \<Rightarrow> string list \<Rightarrow> bool \<Rightarrow> draft_storage \<Rightarrow> bool \<times> draft_storage" where
  "sweep_drafts uuid now [] done_all st = (done_all, st)"
| "sweep_drafts uuid now (key # keys) done_all st =
     (case (parseDraftKey key, getItem key st) of
        (Some (tripId, phaseEventId), Some raw) \<Rightarrow>
          if isStoredDraft (parsed_or_raw raw) then sweep_drafts uuid now keys done_all st
          else let (moved, st') = retain uuid now key (legacy_fields tripId phaseEventId (parsed_or_raw raw)) st
               in sweep_drafts uuid now keys (done_all \<and> moved) st'
      | _ \<Rightarrow> sweep_drafts uuid now keys done_all st)"

definition migrateLegacyDrafts :: "(nat \<Rightarrow> string) \<Rightarrow> (nat \<Rightarrow> iso) \<Rightarrow> draft_storage \<Rightarrow> draft_storage" where
  "migrateLegacyDrafts uuid now st =
     (if \<not> ds_present st \<or> \<not> ds_readable st \<or> drafts_migrated st then st
      else let (done_all, st') = sweep_drafts uuid now (filter (startsWith DRAFT_PREFIX) (map fst (ds_items st))) True st
           in if done_all then snd (setItem DRAFT_MIGRATION_KEY (Json_text (JNum DRAFT_FORMAT_VERSION)) st') else st')"

section \<open>Listing and discarding\<close>

definition retained_at :: "json \<Rightarrow> string option" where
  "retained_at j = (case prop_of ''retainedAt'' j of Some (JStr s) \<Rightarrow> Some s | _ \<Rightarrow> None)"

text \<open>
  \<open>None\<close>: the comparator meets a value without a \<open>retainedAt\<close> text, which nothing here writes; the call may then throw.
  Instants compare as texts.
\<close>

definition listRetainedDrafts :: "draft_storage \<Rightarrow> json list option" where
  "listRetainedDrafts st =
     (if \<not> ds_present st \<or> \<not> ds_readable st then Some []
      else let drafts = List.map_filter (\<lambda>(k, t). if startsWith RETAINED_PREFIX k
                          then (case t of Json_text j \<Rightarrow> Some j | Other_text _ \<Rightarrow> None) else None) (ds_items st)
           in if length drafts \<le> 1 then Some drafts
              else if list_all (\<lambda>j. retained_at j \<noteq> None) drafts then Some (sort_key (\<lambda>j. the (retained_at j)) drafts) else None)"

definition discardRetainedDraft :: "string \<Rightarrow> draft_storage \<Rightarrow> draft_storage" where
  "discardRetainedDraft i st = (if ds_present st \<and> ds_readable st then removeItem (retainedKey i) st else st)"

text \<open>
  The review screen discards only what its list shows: a retained draft of another account is counted there and
  not listed (\<open>lib/offline/retained-evidence.ts\<close>), unless its capturer is not on record.
\<close>

definition truthy_value :: "json option \<Rightarrow> bool" where
  "truthy_value v = (case v of None \<Rightarrow> False | Some JNull \<Rightarrow> False | Some (JBool b) \<Rightarrow> b | Some (JNum n) \<Rightarrow> n \<noteq> 0
     | Some (JStr s) \<Rightarrow> s \<noteq> [] | Some _ \<Rightarrow> True)"

definition held_back :: "string option \<Rightarrow> json \<Rightarrow> bool" where
  "held_back actorId draft \<longleftrightarrow> \<not> truthy_value (prop_of ''quarantined'' draft) \<and> prop_of ''actorId'' draft \<noteq> Some (json_actor actorId)"

definition discard_listed :: "string option \<Rightarrow> string \<Rightarrow> draft_storage \<Rightarrow> draft_storage" where
  "discard_listed actorId i st = (case getItem (retainedKey i) st of
       Some (Json_text draft) \<Rightarrow> if held_back actorId draft then st else discardRetainedDraft i st
     | _ \<Rightarrow> st)"

section \<open>Keys\<close>

lemmas key_defs = draftKey_def retainedKey_def DRAFT_PREFIX_def RETAINED_PREFIX_def DRAFT_MIGRATION_KEY_def

lemma retainedKey_inj [simp]: "retainedKey i = retainedKey j \<longleftrightarrow> i = j"
  by (simp add: retainedKey_def)

lemma keys_apart [simp]:
  "retainedKey i \<noteq> draftKey t p" "draftKey t p \<noteq> retainedKey i" "DRAFT_MIGRATION_KEY \<noteq> retainedKey i" "retainedKey i \<noteq> DRAFT_MIGRATION_KEY"
  by (simp_all add: key_defs)

text \<open>Ids are UUIDs: not empty and without an underscore.\<close>

abbreviation plain_id :: "string \<Rightarrow> bool" where
  "plain_id i \<equiv> i \<noteq> [] \<and> CHR ''_'' \<notin> set i"

lemma parse_draftKey: "plain_id t \<Longrightarrow> parseDraftKey (draftKey t p) = Some (t, p)"
  by (simp add: parseDraftKey_def draftKey_def startsWith_def indexOfChar_append)

lemma indexOfChar_split: "indexOfChar c xs = Some n \<Longrightarrow> xs = take n xs @ c # drop (Suc n) xs \<and> c \<notin> set (take n xs)"
  by (induction xs arbitrary: n) (auto split: if_splits)

text \<open>The key of the sweep's marker begins with the prefix of a draft and is still never read as one.\<close>

lemma parseDraftKey_sound: "parseDraftKey key = Some (t, p) \<Longrightarrow> plain_id t \<and> key = draftKey t p"
proof -
  assume a: "parseDraftKey key = Some (t, p)"
  then have k: "key = DRAFT_PREFIX @ drop (length DRAFT_PREFIX) key"
    by (metis append_take_drop_id option.distinct(1) parseDraftKey_def startsWith_def)
  from a obtain n where n: "indexOfChar (CHR ''_'') (drop (length DRAFT_PREFIX) key) = Some n" "n \<noteq> 0"
      "t = take n (drop (length DRAFT_PREFIX) key)" "p = drop (n + 1) (drop (length DRAFT_PREFIX) key)"
    by (auto simp: parseDraftKey_def Let_def split: if_splits option.splits)
  note s = indexOfChar_split[OF n(1)]
  then have "drop (length DRAFT_PREFIX) key \<noteq> []" by auto
  with s n k show ?thesis by (metis append_Cons append_Nil draftKey_def Suc_eq_plus1 take_eq_Nil)
qed

lemma marker_is_no_draft: "draftKey t p \<noteq> DRAFT_MIGRATION_KEY" if "plain_id t"
proof
  assume "draftKey t p = DRAFT_MIGRATION_KEY"
  then have "parseDraftKey DRAFT_MIGRATION_KEY \<noteq> None" using parse_draftKey[OF that, of p] by simp
  then show False by (simp add: parseDraftKey_def key_defs startsWith_def)
qed

lemma draft_key_inj: "plain_id t \<Longrightarrow> plain_id t' \<Longrightarrow> draftKey t p = draftKey t' p' \<longleftrightarrow> t = t' \<and> p = p'"
  by (metis parse_draftKey option.inject prod.inject)

section \<open>No draft is lost\<close>

text \<open>What a retained record of the text \<open>raw0\<close> found under a draft key has to say.\<close>

definition evidence_in :: "stored_text \<Rightarrow> json" where
  "evidence_in raw0 = (let j = parsed_or_raw raw0 in if isStoredDraft j then the (prop_of ''draft'' j) else j)"

definition capturer_in :: "stored_text \<Rightarrow> json option" where
  "capturer_in raw0 = (let j = parsed_or_raw raw0 in if isStoredDraft j then prop_of ''actorId'' j else Some JNull)"

definition period_in :: "stored_text \<Rightarrow> json option" where
  "period_in raw0 = (let j = parsed_or_raw raw0 in if isStoredDraft j then prop_of ''custodySequence'' j else Some JNull)"

definition retained_as :: "string \<Rightarrow> string \<Rightarrow> stored_text \<Rightarrow> json \<Rightarrow> bool" where
  "retained_as t p raw0 j \<longleftrightarrow> prop_of ''tripId'' j = Some (JStr t) \<and> prop_of ''phaseEventId'' j = Some (JStr p)
     \<and> prop_of ''draft'' j = Some (evidence_in raw0) \<and> prop_of ''actorId'' j = capturer_in raw0
     \<and> prop_of ''custodySequence'' j = period_in raw0
     \<and> prop_of ''quarantined'' j = Some (JBool (capturer_in raw0 = Some JNull))"

definition retained_under :: "string \<Rightarrow> string \<Rightarrow> string \<Rightarrow> stored_text \<Rightarrow> draft_storage \<Rightarrow> bool" where
  "retained_under i t p raw0 st \<longleftrightarrow> (case getItem (retainedKey i) st of Some (Json_text j) \<Rightarrow> retained_as t p raw0 j | _ \<Rightarrow> False)"

definition draft_kept :: "string \<Rightarrow> string \<Rightarrow> stored_text \<Rightarrow> draft_storage \<Rightarrow> bool" where
  "draft_kept t p raw0 st \<longleftrightarrow> getItem (draftKey t p) st = Some raw0 \<or> (\<exists>i. retained_under i t p raw0 st)"

text \<open>The ids still to be drawn are not in use.\<close>

definition fresh_ids :: "(nat \<Rightarrow> string) \<Rightarrow> draft_storage \<Rightarrow> bool" where
  "fresh_ids uuid st \<longleftrightarrow> inj uuid \<and> (\<forall>n\<ge>ds_uuids st. getItem (retainedKey (uuid n)) st = None)"

lemma retained_json_props [simp]:
  "prop_of ''tripId'' (retained_json r i n) = Some (JStr (rf_tripId r))"
  "prop_of ''phaseEventId'' (retained_json r i n) = Some (JStr (rf_phaseEventId r))"
  "prop_of ''draft'' (retained_json r i n) = Some (rf_draft r)"
  "prop_of ''actorId'' (retained_json r i n) = rf_actorId r"
  "prop_of ''custodySequence'' (retained_json r i n) = rf_custodySequence r"
  "prop_of ''quarantined'' (retained_json r i n) = Some (JBool (rf_quarantined r))"
  by (simp_all add: prop_of_def retained_json_def optional_def split: option.split)

lemma legacy_retained_as:
  "\<not> isStoredDraft (parsed_or_raw raw0) \<Longrightarrow> retained_as t p raw0 (retained_json (legacy_fields t p (parsed_or_raw raw0)) i n)"
  by (simp add: retained_as_def legacy_fields_def evidence_in_def capturer_in_def period_in_def)

lemma foreign_retained_as:
  "isStoredDraft (parsed_or_raw raw0) \<Longrightarrow> retained_as t p raw0 (retained_json (foreign_fields t p r (parsed_or_raw raw0)) i n)"
  by (simp add: retained_as_def foreign_fields_def evidence_in_def capturer_in_def period_in_def)

text \<open>One retention: either the original is still there, or the copy is and was read back.\<close>

lemma retain_effect:
  assumes ret: "retain uuid now key r st = (moved, st')" and fresh: "fresh_ids uuid st"
    and key: "\<And>i. key \<noteq> retainedKey i"
  shows "fresh_ids uuid st'"
    and "k \<noteq> key \<Longrightarrow> getItem k st = Some raw0 \<Longrightarrow> getItem k st' = Some raw0"
    and "getItem key st' = getItem key st
      \<or> moved \<and> getItem (retainedKey (uuid (ds_uuids st))) st'
        = Some (Json_text (retained_json r (uuid (ds_uuids st)) (now (ds_uuids st))))"
    and "getItem k st' = getItem k st \<or> k = key \<or> (\<exists>i. k = retainedKey i)"
    and "ds_present st' = ds_present st" "ds_readable st' = ds_readable st"
proof -
  let ?n = "ds_uuids st" and ?k = "retainedKey (uuid (ds_uuids st))"
  let ?text = "Json_text (retained_json r (uuid ?n) (now ?n))"
  obtain ok st1 where set: "setItem ?k ?text (st\<lparr>ds_uuids := Suc ?n\<rparr>) = (ok, st1)" by force
  have items: "getItem j st1 = getItem j st \<or> j = ?k \<and> getItem j st1 = Some ?text" for j
    using getItem_set[OF set, of j] by simp
  have meta: "ds_uuids st1 = Suc ?n" "ds_present st1 = ds_present st" "ds_readable st1 = ds_readable st"
    using set by (auto simp: setItem_def split: if_splits write_result.splits)
  have unused: "getItem ?k st = None" using fresh by (simp add: fresh_ids_def)
  have fresh1: "fresh_ids uuid st1" using fresh items unfolding fresh_ids_def meta
    by (metis Suc_leD Suc_n_not_le_n injD retainedKey_inj)
  have out: "(moved, st') = (False, st) \<or> (moved, st') = (False, st1)
      \<or> (moved, st') = (True, removeItem key st1) \<and> getItem ?k st1 = Some ?text"
    using ret set by (auto simp: retain_def Let_def split: if_splits)
  have rem: "fresh_ids uuid (removeItem key st1)" using fresh1 by (simp add: fresh_ids_def removeItem_def[of key st1, THEN arg_cong[where f = ds_uuids]])
  show "fresh_ids uuid st'" using out fresh fresh1 rem by auto
  show "k \<noteq> key \<Longrightarrow> getItem k st = Some raw0 \<Longrightarrow> getItem k st' = Some raw0"
    using out items[of k] unused by auto
  show "getItem key st' = getItem key st
      \<or> moved \<and> getItem (retainedKey (uuid (ds_uuids st))) st'
        = Some (Json_text (retained_json r (uuid (ds_uuids st)) (now (ds_uuids st))))"
    using out items[of key] key key[symmetric] by auto
  show "getItem k st' = getItem k st \<or> k = key \<or> (\<exists>i. k = retainedKey i)"
    using out items[of k] by auto
  show "ds_present st' = ds_present st" "ds_readable st' = ds_readable st"
    using out meta by (auto simp: removeItem_def)
qed


lemma retain_keeps:
  assumes ret: "retain uuid now key r st = (moved, st')" and fresh: "fresh_ids uuid st" and key: "key = draftKey t p"
    and raw: "getItem key st = Some raw" and r: "\<And>i n. retained_as t p raw (retained_json r i n)"
    and ids: "plain_id t" "plain_id t'" and kept: "draft_kept t' p' raw0 st"
  shows "draft_kept t' p' raw0 st'"
proof -
  note eff = retain_effect[OF ret fresh, unfolded key, simplified]
  from kept consider (same) "t' = t" "p' = p" "raw0 = raw" | (other) "draftKey t' p' \<noteq> draftKey t p" "getItem (draftKey t' p') st = Some raw0"
    | (copied) i where "retained_under i t' p' raw0 st"
    using raw key draft_key_inj[OF ids(2) ids(1), of p' p] by (auto simp: draft_kept_def)
  then show ?thesis
  proof cases
    case same
    from eff(3) show ?thesis
    proof
      assume "moved \<and> getItem (retainedKey (uuid (ds_uuids st))) st'
        = Some (Json_text (retained_json r (uuid (ds_uuids st)) (now (ds_uuids st))))"
      then have "retained_under (uuid (ds_uuids st)) t' p' raw0 st'" using same r by (simp add: retained_under_def)
      then show ?thesis by (auto simp: draft_kept_def)
    qed (use same raw key in \<open>simp add: draft_kept_def\<close>)
  next
    case other
    then show ?thesis using eff(2)[of "draftKey t' p'" raw0] by (simp add: draft_kept_def)
  next
    case (copied i)
    then obtain j where "getItem (retainedKey i) st = Some (Json_text j)" "retained_as t' p' raw0 j"
      by (auto simp: retained_under_def split: option.splits stored_text.splits)
    then have "retained_under i t' p' raw0 st'" using eff(2)[of "retainedKey i"] by (simp add: retained_under_def)
    then show ?thesis by (auto simp: draft_kept_def)
  qed
qed

lemma readDraft_keeps:
  assumes "fresh_ids uuid st" "plain_id t" "plain_id t'" "draft_kept t' p' raw0 st"
  shows "draft_kept t' p' raw0 (snd (readDraft uuid now t p s st)) \<and> fresh_ids uuid (snd (readDraft uuid now t p s st))"
proof (cases "getItem (draftKey t p) st")
  case (Some raw)
  have "draft_kept t' p' raw0 (snd (retain uuid now (draftKey t p) r st)) \<and> fresh_ids uuid (snd (retain uuid now (draftKey t p) r st))"
    if "\<And>i n. retained_as t p raw (retained_json r i n)" for r
    using retain_keeps[OF prod.collapse[symmetric] assms(1) refl Some that assms(2,3,4)]
      retain_effect(1)[OF prod.collapse[symmetric] assms(1), where now = now and key = "draftKey t p" and r = r] by simp
  then show ?thesis using assms Some
    by (auto simp: readDraft_def Let_def legacy_retained_as foreign_retained_as split: option.splits)
qed (use assms in \<open>simp add: readDraft_def Let_def\<close>)

lemma sweep_keeps:
  assumes "plain_id t'"
  shows "fresh_ids uuid st \<Longrightarrow> draft_kept t' p' raw0 st
    \<Longrightarrow> draft_kept t' p' raw0 (snd (sweep_drafts uuid now keys b st)) \<and> fresh_ids uuid (snd (sweep_drafts uuid now keys b st))"
proof (induction keys arbitrary: b st)
  case (Cons key keys)
  have step: "draft_kept t' p' raw0 (snd (retain uuid now key (legacy_fields t p (parsed_or_raw raw)) st))
      \<and> fresh_ids uuid (snd (retain uuid now key (legacy_fields t p (parsed_or_raw raw)) st))"
    if "parseDraftKey key = Some (t, p)" "getItem key st = Some raw" "\<not> isStoredDraft (parsed_or_raw raw)" for t p raw
  proof -
    have k: "plain_id t" "key = draftKey t p" using parseDraftKey_sound[OF that(1)] by auto
    show ?thesis
      using retain_keeps[OF prod.collapse[symmetric] Cons.prems(1) k(2) that(2) legacy_retained_as[OF that(3)] k(1) assms Cons.prems(2)]
        retain_effect(1)[OF prod.collapse[symmetric] Cons.prems(1), where now = now and key = key and r = "legacy_fields t p (parsed_or_raw raw)"] k
      by simp
  qed
  show ?case
  proof (cases "parseDraftKey key")
    case (Some tp)
    then show ?thesis using Cons step[of "fst tp" "snd tp"]
      by (cases "getItem key st") (simp_all add: case_prod_unfold Let_def)
  qed (use Cons in simp)
qed simp

text \<open>Writing under a key that holds no retained record.\<close>

lemma setItem_other:
  assumes "setItem k v st = (ok, st')" "\<And>i. k \<noteq> retainedKey i"
  shows "fresh_ids uuid st \<Longrightarrow> fresh_ids uuid st'"
    and "draft_kept t p raw0 st \<Longrightarrow> k \<noteq> draftKey t p \<or> getItem k st \<noteq> Some raw0 \<Longrightarrow> draft_kept t p raw0 st'"
proof -
  have other: "j \<noteq> k \<Longrightarrow> getItem j st' = getItem j st" for j using getItem_set[OF assms(1), of j] by auto
  have n: "ds_uuids st' = ds_uuids st" using assms(1) by (auto simp: setItem_def split: if_splits write_result.splits)
  show "fresh_ids uuid st \<Longrightarrow> fresh_ids uuid st'" by (auto simp: fresh_ids_def n other assms(2)[symmetric])
  show "draft_kept t p raw0 st \<Longrightarrow> k \<noteq> draftKey t p \<or> getItem k st \<noteq> Some raw0 \<Longrightarrow> draft_kept t p raw0 st'"
    by (cases "k = draftKey t p") (auto simp: draft_kept_def retained_under_def other assms(2)[symmetric])
qed

section \<open>Every sequence of operations\<close>

datatype draft_event =
    Read_draft string string custody_stamp
  | Write_draft string string custody_stamp json
  | Remove_draft string string custody_stamp "stored_text option"
  | Sweep_drafts
  | Discard_retained "string option" string
  | Phone_changes bool "string \<Rightarrow> stored_text \<Rightarrow> write_result"

fun draft_step :: "(nat \<Rightarrow> string) \<Rightarrow> (nat \<Rightarrow> iso) \<Rightarrow> draft_event \<Rightarrow> draft_storage \<Rightarrow> draft_storage" where
  "draft_step uuid now (Read_draft t p s) st = snd (readDraft uuid now t p s st)"
| "draft_step uuid now (Write_draft t p s d) st = snd (writeDraft uuid now t p s d st)"
| "draft_step uuid now (Remove_draft t p s v) st = snd (removeDraft t p s v st)"
| "draft_step uuid now Sweep_drafts st = migrateLegacyDrafts uuid now st"
| "draft_step uuid now (Discard_retained a i) st = discard_listed a i st"
| "draft_step uuid now (Phone_changes readable write) st = st\<lparr>ds_readable := readable, ds_write := write\<rparr>"

abbreviation draft_run :: "(nat \<Rightarrow> string) \<Rightarrow> (nat \<Rightarrow> iso) \<Rightarrow> draft_event list \<Rightarrow> draft_storage \<Rightarrow> draft_storage" where
  "draft_run uuid now es st \<equiv> fold (draft_step uuid now) es st"

text \<open>
  The three ways a draft may go, by the accounts and periods on record: the account that captured it replaces
  it, in its own period or before any transfer; the account that captured it removes exactly this text, in
  its own period; the review screen discards its retained record for the account that captured it, or for
  anybody when no capturer is on record. (A text written and removed while nobody is signed in counts as one account's.)
\<close>

fun gives_up :: "string \<Rightarrow> string \<Rightarrow> stored_text \<Rightarrow> draft_storage \<Rightarrow> draft_event \<Rightarrow> bool" where
  "gives_up t p raw0 st (Write_draft t' p' s d) \<longleftrightarrow> t' = t \<and> p' = p
     \<and> (\<exists>j a. raw0 = Json_text j \<and> prop_of ''v'' j = Some (JNum 2)
          \<and> stamp_actorId s = Some a \<and> prop_of ''actorId'' j = Some (JStr a)
          \<and> (\<forall>n. stamp_custodySequence s = Some n \<longrightarrow> prop_of ''custodySequence'' j = Some (JNum (of_int n))
               \<or> n \<le> 0 \<and> prop_of ''custodySequence'' j = Some JNull))"
| "gives_up t p raw0 st (Remove_draft t' p' s v) \<longleftrightarrow> t' = t \<and> p' = p \<and> v = Some raw0
     \<and> (\<exists>j. raw0 = Json_text j \<and> prop_of ''v'' j = Some (JNum 2)
          \<and> (case stamp_actorId s of Some a \<Rightarrow> prop_of ''actorId'' j = Some (JStr a) | None \<Rightarrow> prop_of ''actorId'' j = Some JNull)
          \<and> (case stamp_custodySequence s of
               Some n \<Rightarrow> prop_of ''custodySequence'' j = Some (JNum (of_int n)) \<or> n = 0 \<and> prop_of ''custodySequence'' j = Some JNull
             | None \<Rightarrow> prop_of ''custodySequence'' j = Some JNull))"
| "gives_up t p raw0 st (Discard_retained a i) \<longleftrightarrow> retained_under i t p raw0 st
     \<and> (capturer_in raw0 = Some JNull \<or> (\<exists>b. a = Some b \<and> capturer_in raw0 = Some (JStr b)))"
| "gives_up t p raw0 st _ \<longleftrightarrow> False"

lemma own_write_gives_up:
  assumes "isStoredDraft j" "mismatch j s = None"
  shows "gives_up t p (Json_text j) st (Write_draft t p s d)"
proof -
  obtain a where "stamp_actorId s = Some a" "prop_of ''actorId'' j = Some (JStr a)"
    using assms(2) by (auto simp: mismatch_def json_actor_def Let_def split: option.splits if_splits)
  then show ?thesis
    using assms by (auto simp: mismatch_def json_actor_def json_seq_def isStoredDraft_def DRAFT_FORMAT_VERSION_def Let_def
      split: option.splits if_splits)
qed

lemma own_remove_gives_up:
  "owns_draft j s \<Longrightarrow> gives_up t p (Json_text j) st (Remove_draft t p s (Some (Json_text j)))"
  by (auto simp: owns_draft_def json_actor_def json_seq_def isStoredDraft_def DRAFT_FORMAT_VERSION_def split: option.splits)

fun never_given_up :: "(nat \<Rightarrow> string) \<Rightarrow> (nat \<Rightarrow> iso) \<Rightarrow> string \<Rightarrow> string \<Rightarrow> stored_text \<Rightarrow> draft_event list \<Rightarrow> draft_storage \<Rightarrow> bool" where
  "never_given_up uuid now t p raw0 [] st \<longleftrightarrow> True"
| "never_given_up uuid now t p raw0 (e # es) st \<longleftrightarrow>
     \<not> gives_up t p raw0 st e \<and> never_given_up uuid now t p raw0 es (draft_step uuid now e st)"

text \<open>The operations are asked about trips by their ids.\<close>

fun names_trip :: "draft_event \<Rightarrow> bool" where
  "names_trip (Read_draft t _ _) \<longleftrightarrow> plain_id t"
| "names_trip (Write_draft t _ _ _) \<longleftrightarrow> plain_id t"
| "names_trip (Remove_draft t _ _ _) \<longleftrightarrow> plain_id t"
| "names_trip _ \<longleftrightarrow> True"

lemma writeDraft_keeps:
  assumes "fresh_ids uuid st" "plain_id t" "plain_id t'" "draft_kept t' p' raw0 st"
    and no: "\<not> gives_up t' p' raw0 st (Write_draft t p s d)"
  shows "draft_kept t' p' raw0 (snd (writeDraft uuid now t p s d st)) \<and> fresh_ids uuid (snd (writeDraft uuid now t p s d st))"
proof -
  let ?st1 = "snd (readDraft uuid now t p s st)" and ?key = "draftKey t p"
  obtain ok st2 where set: "setItem ?key (Json_text (stored_draft s d)) ?st1 = (ok, st2)" by force
  have k1: "draft_kept t' p' raw0 ?st1" "fresh_ids uuid ?st1" using readDraft_keeps[OF assms(1-4)] by auto
  have k2: "draft_kept t' p' raw0 st2" if "?key \<noteq> draftKey t' p' \<or> getItem ?key ?st1 \<noteq> Some raw0"
    using setItem_other(2)[OF set] k1(1) that by simp
  have f2: "fresh_ids uuid st2" using setItem_other(1)[OF set] k1(2) by simp
  have "draft_kept t' p' raw0 st2" if "getItem ?key ?st1 = None \<or> (\<exists>j. getItem ?key ?st1 = Some (Json_text j) \<and> isStoredDraft j \<and> mismatch j s = None)"
  proof (rule k2)
    show "?key \<noteq> draftKey t' p' \<or> getItem ?key ?st1 \<noteq> Some raw0"
      using that no draft_key_inj[OF assms(2,3), of p p'] own_write_gives_up[of _ s t' p' st d] by (metis option.distinct(1) option.inject)
  qed
  then show ?thesis using set k1 f2
    by (auto simp: writeDraft_def Let_def split: option.splits stored_text.splits)
qed

lemma retained_under_remove [simp]:
  "k \<noteq> retainedKey i \<Longrightarrow> retained_under i t p raw0 (removeItem k st) = retained_under i t p raw0 st"
  by (simp add: retained_under_def)

lemma removeItem_other:
  assumes k: "\<And>i. k \<noteq> retainedKey i" and f: "fresh_ids uuid st" and kept: "draft_kept t p raw0 st"
    and other: "k \<noteq> draftKey t p \<or> getItem k st \<noteq> Some raw0"
  shows "draft_kept t p raw0 (removeItem k st) \<and> fresh_ids uuid (removeItem k st)"
proof
  show "draft_kept t p raw0 (removeItem k st)" using kept other k by (auto simp: draft_kept_def)
  show "fresh_ids uuid (removeItem k st)" using f by (simp add: fresh_ids_def) (simp add: removeItem_def)
qed

lemma removeDraft_keeps:
  assumes "fresh_ids uuid st" "plain_id t" "plain_id t'" "draft_kept t' p' raw0 st"
    and no: "\<not> gives_up t' p' raw0 st (Remove_draft t p s v)"
  shows "draft_kept t' p' raw0 (snd (removeDraft t p s v st)) \<and> fresh_ids uuid (snd (removeDraft t p s v st))"
proof (cases "\<exists>j. getItem (draftKey t p) st = Some (Json_text j) \<and> v = Some (Json_text j) \<and> owns_draft j s")
  case True
  then have "draftKey t p \<noteq> draftKey t' p' \<or> getItem (draftKey t p) st \<noteq> Some raw0"
    using no draft_key_inj[OF assms(2,3), of p p'] own_remove_gives_up[of _ s t' p' st] by (metis option.inject)
  from removeItem_other[OF keys_apart(2) assms(1,4) this] show ?thesis using assms
    by (auto simp: removeDraft_def Let_def split: option.split stored_text.split)
next
  case False
  then have "snd (removeDraft t p s v st) = st"
    by (auto simp: removeDraft_def Let_def split: option.split stored_text.split)
  then show ?thesis using assms by simp
qed

lemma sweep_step_keeps:
  assumes "fresh_ids uuid st" "plain_id t" "draft_kept t p raw0 st"
  shows "draft_kept t p raw0 (migrateLegacyDrafts uuid now st) \<and> fresh_ids uuid (migrateLegacyDrafts uuid now st)"
proof -
  have "draft_kept t p raw0 (snd (setItem DRAFT_MIGRATION_KEY v u)) \<and> fresh_ids uuid (snd (setItem DRAFT_MIGRATION_KEY v u))"
    if "draft_kept t p raw0 u" "fresh_ids uuid u" for u v
    using setItem_other[OF prod.collapse[symmetric] keys_apart(3), where v = v and st = u] that marker_is_no_draft[OF assms(2), of p] by auto
  then show ?thesis
    using assms sweep_keeps[OF assms(2,1,3), where now = now and b = True]
    by (simp add: migrateLegacyDrafts_def case_prod_unfold Let_def)
qed

lemma discard_keeps:
  assumes f: "fresh_ids uuid st" and kept: "draft_kept t p raw0 st" and no: "\<not> retained_under i t p raw0 st"
  shows "draft_kept t p raw0 (discardRetainedDraft i st) \<and> fresh_ids uuid (discardRetainedDraft i st)"
proof -
  have "retained_under j t p raw0 (removeItem (retainedKey i) st)" if "retained_under j t p raw0 st" for j
    using that no by (cases "j = i") simp_all
  then have "draft_kept t p raw0 (removeItem (retainedKey i) st)" using kept by (auto simp: draft_kept_def)
  moreover have "fresh_ids uuid (removeItem (retainedKey i) st)" using f by (simp add: fresh_ids_def) (simp add: removeItem_def)
  ultimately show ?thesis using f kept by (simp add: discardRetainedDraft_def)
qed

lemma discard_listed_keeps:
  assumes "fresh_ids uuid st" "draft_kept t p raw0 st" "\<not> gives_up t p raw0 st (Discard_retained a i)"
  shows "draft_kept t p raw0 (discard_listed a i st) \<and> fresh_ids uuid (discard_listed a i st)"
proof (cases "retained_under i t p raw0 st")
  case True
  then obtain j where j: "getItem (retainedKey i) st = Some (Json_text j)" "retained_as t p raw0 j"
    by (auto simp: retained_under_def split: option.splits stored_text.splits)
  have "held_back a j" using j(2) assms(3) True
    by (auto simp: held_back_def retained_as_def truthy_value_def json_actor_def split: option.splits)
  then show ?thesis using j(1) assms by (simp add: discard_listed_def)
next
  case False
  then show ?thesis using discard_keeps[OF assms(1,2)] assms(1,2)
    by (auto simp: discard_listed_def split: option.split stored_text.split)
qed

lemma phone_changes_keeps [simp]:
  "draft_kept t p raw0 (st\<lparr>ds_readable := r, ds_write := w\<rparr>) = draft_kept t p raw0 st"
  "fresh_ids uuid (st\<lparr>ds_readable := r, ds_write := w\<rparr>) = fresh_ids uuid st"
  by (simp_all add: draft_kept_def retained_under_def fresh_ids_def)

lemma draft_step_keeps:
  assumes "fresh_ids uuid st" "names_trip e" "plain_id t" "draft_kept t p raw0 st" "\<not> gives_up t p raw0 st e"
  shows "draft_kept t p raw0 (draft_step uuid now e st) \<and> fresh_ids uuid (draft_step uuid now e st)"
proof (cases e)
  case (Read_draft t' p' s)
  then show ?thesis using readDraft_keeps assms by simp
next
  case (Write_draft t' p' s d)
  then show ?thesis using writeDraft_keeps[of uuid st t' t p raw0 p' s d now] assms by simp
next
  case (Remove_draft t' p' s v)
  then show ?thesis using removeDraft_keeps[of uuid st t' t p raw0 p' s v] assms by simp
next
  case Sweep_drafts
  then show ?thesis using sweep_step_keeps assms by simp
next
  case (Discard_retained a i)
  then show ?thesis using discard_listed_keeps[of uuid st t p raw0 a i] assms by simp
qed (use assms in simp)

text \<open>Property C30. No draft is lost. Whatever reads, writes, removals, sweeps and discards of any account in
  any custody period run, over a storage that may refuse, silently drop or stop answering writes at any
  moment, a text once stored as a draft of a trip and phase is still stored there or is held, with its
  evidence, its capturer, its period and its quarantine mark, in a retained record of that trip and phase -
  unless the account on record as its capturer replaced it in the period on record (or, with none on record, before any
  transfer), that account's submission removed exactly this text in that period, or the
  review screen discarded the retained record for that account - or for whoever was signed in, if
  it has no capturer on record.\<close>
theorem no_draft_is_lost:
  assumes "fresh_ids uuid st" "plain_id t" "\<And>e. e \<in> set es \<Longrightarrow> names_trip e"
    and "draft_kept t p raw0 st" "never_given_up uuid now t p raw0 es st"
  shows "draft_kept t p raw0 (draft_run uuid now es st)"
  using assms
proof (induction es arbitrary: st)
  case (Cons e es)
  then show ?case using draft_step_keeps[of uuid st e t p raw0 now] by simp
qed simp

text \<open>Property C31. A step is only ever given a draft of the driver who is capturing now, in a compatible
  period: what \<open>readDraft\<close> returns is the evidence stored under the phase, captured by the account
  signed in - never an unknown capturer's, and nothing when nobody is signed in - and in the period of the
  stamp; a draft of an unknown period is loaded only while no transfer is known to have happened.
  Reading it changes nothing stored.\<close>
theorem draft_loaded_only_for_its_capturer:
  assumes "readDraft uuid now t p s st = (Some d, st')"
  shows "st' = st \<and> (\<exists>j. getItem (draftKey t p) st = Some (Json_text j) \<and> prop_of ''draft'' j = Some d
     \<and> (\<exists>a. stamp_actorId s = Some a \<and> prop_of ''actorId'' j = Some (JStr a))
     \<and> (case stamp_custodySequence s of None \<Rightarrow> True
        | Some n \<Rightarrow> prop_of ''custodySequence'' j = Some (JNum (of_int n)) \<or> prop_of ''custodySequence'' j = Some JNull \<and> n \<le> 0))"
  using assms
  by (auto simp: readDraft_def Let_def mismatch_def json_actor_def json_seq_def parsed_or_raw_def isStoredDraft_def isRecord_def prop_of_def
      split: if_splits option.splits stored_text.splits)

section \<open>A phone with one draft\<close>

definition demo_uuid :: "nat \<Rightarrow> string" where
  "demo_uuid n = replicate n (CHR ''a'')"

lemma demo_uuid_inj: "inj demo_uuid"
  by (rule injI) (metis demo_uuid_def length_replicate)

definition demo_drafts :: draft_storage where
  "demo_drafts = \<lparr>ds_present = True, ds_readable = True,
     ds_items = [(draftKey ''T'' ''P'', Json_text (stored_draft \<lparr>stamp_actorId = Some ''A'', stamp_custodySequence = Some 1\<rparr>
       (JObj [(''photo'', JStr ''data'')])))], ds_write = (\<lambda>_ _. Written), ds_uuids = 0\<rparr>"

lemmas demo_drafts_simps = demo_drafts_def getItem_def readDraft_def stored_draft_def parsed_or_raw_def isStoredDraft_def
  isRecord_def prop_of_def mismatch_def json_actor_def json_seq_def

lemma draft_loaded_only_for_its_capturer_witness:
  "\<exists>j. readDraft demo_uuid (\<lambda>_. ''now'') ''T'' ''P'' \<lparr>stamp_actorId = Some ''A'', stamp_custodySequence = Some 1\<rparr> demo_drafts
      = (Some (JObj [(''photo'', JStr ''data'')]), demo_drafts)
    \<and> prop_of ''actorId'' j = Some (JStr ''A'') \<and> getItem (draftKey ''T'' ''P'') demo_drafts = Some (Json_text j)"
proof -
  have run: "readDraft demo_uuid (\<lambda>_. ''now'') ''T'' ''P'' \<lparr>stamp_actorId = Some ''A'', stamp_custodySequence = Some 1\<rparr> demo_drafts
      = (Some (JObj [(''photo'', JStr ''data'')]), demo_drafts)"
    by (simp add: demo_drafts_simps)
  from draft_loaded_only_for_its_capturer[OF run] run show ?thesis by auto
qed

lemma no_draft_is_lost_witness:
  "\<exists>raw i. getItem (draftKey ''T'' ''P'') demo_drafts = Some raw
    \<and> getItem (draftKey ''T'' ''P'') (draft_run demo_uuid (\<lambda>_. ''now'')
        [Read_draft ''T'' ''P'' \<lparr>stamp_actorId = Some ''B'', stamp_custodySequence = Some 2\<rparr>] demo_drafts) = None
    \<and> retained_under i ''T'' ''P'' raw (draft_run demo_uuid (\<lambda>_. ''now'')
        [Read_draft ''T'' ''P'' \<lparr>stamp_actorId = Some ''B'', stamp_custodySequence = Some 2\<rparr>] demo_drafts)"
proof -
  let ?es = "[Read_draft ''T'' ''P'' \<lparr>stamp_actorId = Some ''B'', stamp_custodySequence = Some 2\<rparr>]"
  let ?st = "draft_run demo_uuid (\<lambda>_. ''now'') ?es demo_drafts"
  obtain raw where raw: "getItem (draftKey ''T'' ''P'') demo_drafts = Some raw" by (simp add: demo_drafts_def getItem_def)
  have gone: "getItem (draftKey ''T'' ''P'') ?st = None"
    by (simp add: demo_drafts_simps retain_def setItem_def put_item_def removeItem_def Let_def)
  have "draft_kept ''T'' ''P'' raw ?st"
    by (rule no_draft_is_lost) (use raw demo_uuid_inj in
      \<open>auto simp: fresh_ids_def draft_kept_def demo_drafts_def getItem_def\<close>)
  then show ?thesis using raw gone by (auto simp: draft_kept_def)
qed

end
