(* ===== verification/PhaseDraft.thy ===== *)
theory PhaseDraft
  imports RetainedDrafts
begin

text \<open>
  \<open>lib/hooks/usePhaseDraft.ts\<close>: the draft a phase step shows, kept in step with the stored one. The
  screen, its closures and the storage may be of different moments; every edit and every clearing is
  applied only when they agree. A scope object of React's \<open>useMemo\<close> is compared by reference, so it
  carries an identity.
\<close>

section \<open>The hook\<close>

record draft_scope =
  dc_identity :: nat
  dc_tripId :: string
  dc_phaseEventId :: string
  dc_custody :: custody_stamp
  dc_generation :: nat

record draft_hook =
  dh_scope :: draft_scope
  dh_draft :: "(string \<times> json) list"
  dh_current :: draft_scope
  dh_revision :: "stored_text option"

text \<open>\<open>{ ...base, ...patch }\<close>: a property that is there keeps its place.\<close>

fun set_prop :: "string \<Rightarrow> json \<Rightarrow> (string \<times> json) list \<Rightarrow> (string \<times> json) list" where
  "set_prop k v [] = [(k, v)]"
| "set_prop k v ((j, u) # ps) = (if j = k then (k, v) # ps else (j, u) # set_prop k v ps)"

definition spread :: "(string \<times> json) list \<Rightarrow> (string \<times> json) list \<Rightarrow> (string \<times> json) list" where
  "spread base patch = fold (\<lambda>(k, v). set_prop k v) patch base"

definition scope_key :: "draft_scope \<Rightarrow> string" where
  "scope_key sc = draftKey (dc_tripId sc) (dc_phaseEventId sc)"

text \<open>\<open>localStorage\<close> itself throws where there is no window or no access.\<close>

definition ds_answers :: "draft_storage \<Rightarrow> bool" where
  "ds_answers st \<longleftrightarrow> ds_present st \<and> ds_readable st"

text \<open>What a render shows first: the draft, the text it was read from and the storage after it.\<close>

definition load_draft :: "(nat \<Rightarrow> string) \<Rightarrow> (nat \<Rightarrow> iso) \<Rightarrow> (string \<times> json) list \<Rightarrow> draft_scope \<Rightarrow> stored_text option \<Rightarrow> draft_storage
    \<Rightarrow> (string \<times> json) list \<times> stored_text option \<times> draft_storage" where
  "load_draft uuid now initial sc revision st =
     (let (stored, st') = readDraft uuid now (dc_tripId sc) (dc_phaseEventId sc) (dc_custody sc) (migrateLegacyDrafts uuid now st)
      in if \<not> ds_answers st' then (initial, revision, st')
         else (case stored of Some (JObj ps) \<Rightarrow> spread initial ps | _ \<Rightarrow> initial, getItem (scope_key sc) st', st'))"

definition isCurrentDraftScope :: "custody_module \<Rightarrow> draft_hook \<Rightarrow> draft_scope \<Rightarrow> bool" where
  "isCurrentDraftScope m h sc \<longleftrightarrow> dh_current h = sc \<and> actorGeneration m = dc_generation sc
     \<and> captureCustody (dc_tripId sc) m = dc_custody sc"

text \<open>An edit, from a closure made for scope \<open>sc\<close>. An edit that cannot be stored is still shown.\<close>

definition updateDraft :: "(nat \<Rightarrow> string) \<Rightarrow> (nat \<Rightarrow> iso) \<Rightarrow> custody_module \<Rightarrow> draft_scope \<Rightarrow> (string \<times> json) list
    \<Rightarrow> draft_hook \<Rightarrow> draft_storage \<Rightarrow> draft_hook \<times> draft_storage" where
  "updateDraft uuid now m sc patch h st =
     (if \<not> isCurrentDraftScope m h sc \<or> dh_scope h \<noteq> sc then (h, st)
      else let nxt = spread (dh_draft h) patch; shown = h\<lparr>dh_scope := sc, dh_draft := nxt\<rparr> in
        if \<not> ds_answers st then (shown, st)
        else if getItem (scope_key sc) st \<noteq> dh_revision h then (h, st)
        else case writeDraft uuid now (dc_tripId sc) (dc_phaseEventId sc) (dc_custody sc) (JObj nxt) st of
            (Some _, st') \<Rightarrow> (shown, st')
          | (None, st') \<Rightarrow> (shown\<lparr>dh_revision := getItem (scope_key sc) st'\<rparr>, st'))"

text \<open>
  What becomes of a clearing before \<open>removeDraft\<close>: it leaves the screen alone, it fails and only empties the
  screen, or it goes on with the text it expects to find.
\<close>

datatype clearing = Leave | Clear_fails | Expect "stored_text option"

fun show_nat :: "nat \<Rightarrow> string" where
  "show_nat n = (if n < 10 then [char_of (48 + n)] else show_nat (n div 10) @ [char_of (48 + n mod 10)])"

declare show_nat.simps [simp del]

text \<open>The own properties of a value of type object; an array has its indices.\<close>

definition object_entries :: "json \<Rightarrow> (string \<times> json) list option" where
  "object_entries j = (case j of JObj ps \<Rightarrow> Some ps | JArr xs \<Rightarrow> Some (zip (map show_nat [0..<length xs]) xs) | _ \<Rightarrow> None)"

definition expected_text :: "(string \<times> json) list \<Rightarrow> stored_text option \<Rightarrow> (string \<times> json) list option \<Rightarrow> stored_text option \<Rightarrow> clearing" where
  "expected_text initial clearRevision acknowledged raw = (case acknowledged of
      None \<Rightarrow> Expect clearRevision
    | Some ack \<Rightarrow> (case raw of
        None \<Rightarrow> Leave
      | Some (Other_text _) \<Rightarrow> Clear_fails
      | Some (Json_text stored) \<Rightarrow> (case Option.bind (prop_of ''draft'' stored) object_entries of
            None \<Rightarrow> Leave
          | Some d \<Rightarrow> if spread initial d \<noteq> spread initial ack then Leave else Expect raw)))"

definition clearDraft :: "custody_module \<Rightarrow> draft_scope \<Rightarrow> (string \<times> json) list \<Rightarrow> stored_text option \<Rightarrow> (string \<times> json) list option
    \<Rightarrow> draft_hook \<Rightarrow> draft_storage \<Rightarrow> draft_hook \<times> draft_storage" where
  "clearDraft m sc initial clearRevision acknowledged h st =
     (if \<not> isCurrentDraftScope m h sc then (h, st)
      else let emptied = h\<lparr>dh_scope := sc, dh_draft := initial\<rparr>; raw = getItem (scope_key sc) st in
        if \<not> ds_answers st then (emptied, st)
        else case expected_text initial clearRevision acknowledged raw of
            Leave \<Rightarrow> (h, st)
          | Clear_fails \<Rightarrow> (emptied, st)
          | Expect v \<Rightarrow>
              if raw \<noteq> v then (h, st)
              else case removeDraft (dc_tripId sc) (dc_phaseEventId sc) (dc_custody sc) v st of
                  (Some _, st') \<Rightarrow> (emptied, st')
                | (None, st') \<Rightarrow> (emptied\<lparr>dh_revision := getItem (scope_key sc) st'\<rparr>, st'))"

section \<open>What the screens may do to the stored draft\<close>

lemma removeDraft_other: "k \<noteq> draftKey t p \<Longrightarrow> getItem k (snd (removeDraft t p s v st)) = getItem k st"
  by (auto simp: removeDraft_def Let_def split: option.split stored_text.split)

lemma removeDraft_owns:
  "getItem (draftKey t p) (snd (removeDraft t p s v st)) \<noteq> getItem (draftKey t p) st
    \<Longrightarrow> \<exists>j. getItem (draftKey t p) st = Some (Json_text j) \<and> v = Some (Json_text j) \<and> owns_draft j s"
  by (auto simp: removeDraft_def Let_def split: option.splits stored_text.splits if_splits)

text \<open>An acknowledged submission clears only the evidence that was submitted: when clearing the
  draft after an acknowledgement changes anything stored, the stored text was a draft of the account and
  period of this screen, with exactly the submitted evidence once the step's defaults are filled in; a
  later edit, another driver's draft and a draft of another phase survive.\<close>
theorem acknowledged_clears_only_its_evidence:
  assumes "clearDraft m sc initial seen (Some ack) h st = (h', st')" "getItem k st' \<noteq> getItem k st"
  shows "k = scope_key sc \<and> isCurrentDraftScope m h sc
    \<and> (\<exists>j d. getItem k st = Some (Json_text j) \<and> owns_draft j (dc_custody sc)
        \<and> prop_of ''draft'' j = Some (JObj d) \<and> spread initial d = spread initial ack)"
proof -
  let ?r = "removeDraft (dc_tripId sc) (dc_phaseEventId sc) (dc_custody sc)" and ?raw = "getItem (scope_key sc) st"
  have cur: "isCurrentDraftScope m h sc" and st': "st' = snd (?r ?raw st)"
    and ex: "expected_text initial seen (Some ack) ?raw = Expect ?raw"
    using assms by (auto simp: clearDraft_def Let_def split: if_splits clearing.splits prod.splits option.splits)
  have k: "k = scope_key sc" 
    using assms(2) st' removeDraft_other[of k "dc_tripId sc" "dc_phaseEventId sc"] unfolding scope_key_def by metis
  then obtain j where j: "?raw = Some (Json_text j)" "owns_draft j (dc_custody sc)"
    using removeDraft_owns[of "dc_tripId sc" "dc_phaseEventId sc" "dc_custody sc" ?raw st] assms(2) st'
    unfolding scope_key_def by auto
  have "isStoredDraft j" using j(2) by (simp add: owns_draft_def)
  then obtain d where d: "prop_of ''draft'' j = Some (JObj d)"
    by (auto simp: isStoredDraft_def isRecord_def split: option.splits json.splits)
  have "spread initial d = spread initial ack"
    using ex j(1) d by (auto simp: expected_text_def object_entries_def split: if_splits)
  then show ?thesis using k cur j d by blast
qed

lemma retain_moves:
  assumes "\<And>i. key \<noteq> retainedKey i"
  shows "getItem key (snd (retain uuid now key r st)) = getItem key st \<or> getItem key (snd (retain uuid now key r st)) = None"
proof -
  let ?n = "ds_uuids st"
  have "getItem key (snd (setItem (retainedKey i) v (st\<lparr>ds_uuids := Suc ?n\<rparr>))) = getItem key st" for i v
    using getItem_set[OF prod.collapse[symmetric], of key "retainedKey i" v "st\<lparr>ds_uuids := Suc ?n\<rparr>"] assms by auto
  then show ?thesis by (simp add: retain_def Let_def case_prod_unfold)
qed

lemma readDraft_moves:
  "getItem (draftKey t p) (snd (readDraft uuid now t p s st)) = getItem (draftKey t p) st
    \<or> getItem (draftKey t p) (snd (readDraft uuid now t p s st)) = None"
proof -
  have "getItem (draftKey t p) (snd (retain uuid now (draftKey t p) r st)) = getItem (draftKey t p) st
      \<or> getItem (draftKey t p) (snd (retain uuid now (draftKey t p) r st)) = None" for r
    by (rule retain_moves) simp
  moreover have "snd (readDraft uuid now t p s st) = st \<or> (\<exists>r. snd (readDraft uuid now t p s st) = snd (retain uuid now (draftKey t p) r st))"
    unfolding readDraft_def Let_def by (simp split: option.split) blast
  ultimately show ?thesis by metis
qed

lemma writeDraft_stores:
  "getItem (draftKey t p) (snd (writeDraft uuid now t p s d st)) \<in>
    {getItem (draftKey t p) st, None, Some (Json_text (stored_draft s d))}"
proof -
  let ?st1 = "snd (readDraft uuid now t p s st)" and ?v = "Json_text (stored_draft s d)"
  have "getItem (draftKey t p) (snd (setItem (draftKey t p) ?v ?st1)) \<in> {getItem (draftKey t p) ?st1, Some ?v}"
    using getItem_set[OF prod.collapse[symmetric], of "draftKey t p" "draftKey t p" ?v ?st1] by auto
  then show ?thesis using readDraft_moves[of t p uuid now s st]
    by (auto simp: writeDraft_def Let_def case_prod_unfold split: option.split stored_text.split)
qed

text \<open>An edit reaches the storage only from a screen that is up to date: when an edit changes
  what is stored under its phase, the screen's account, sign-in and period are the live ones and the text it
  replaces is the one this screen loaded or wrote last. What is stored there afterwards is this account's
  draft of this period with the edit applied, or nothing when a foreign text was moved away and the phone
  then dropped the write.\<close>
theorem edit_never_overwrites_a_newer_draft:
  assumes "updateDraft uuid now m sc patch h st = (h', st')"
    "getItem (scope_key sc) st' \<noteq> getItem (scope_key sc) st"
  shows "dc_generation sc = actorGeneration m \<and> captureCustody (dc_tripId sc) m = dc_custody sc
    \<and> getItem (scope_key sc) st = dh_revision h
    \<and> (getItem (scope_key sc) st' = None
       \<or> getItem (scope_key sc) st' = Some (Json_text (stored_draft (dc_custody sc) (JObj (spread (dh_draft h) patch)))))"
proof -
  let ?key = "scope_key sc" and ?d = "JObj (spread (dh_draft h) patch)"
  have cur: "isCurrentDraftScope m h sc" and rev: "getItem ?key st = dh_revision h"
    and st': "st' = snd (writeDraft uuid now (dc_tripId sc) (dc_phaseEventId sc) (dc_custody sc) ?d st)"
    using assms by (auto simp: updateDraft_def Let_def split: if_splits prod.splits option.splits)
  show ?thesis using cur rev assms(2) st'
      writeDraft_stores[of "dc_tripId sc" "dc_phaseEventId sc" uuid now "dc_custody sc" ?d st]
    by (auto simp: scope_key_def isCurrentDraftScope_def)
qed

section \<open>A screen\<close>

definition demo_account :: custody_module where
  "demo_account = initialModule\<lparr>cm_generation := 1, cm_state := \<lparr>ctx_actorId = Some ''A'', ctx_tripId = Some ''T'', ctx_custodySequence = Some 1\<rparr>\<rparr>"

definition demo_scope :: draft_scope where
  "demo_scope = \<lparr>dc_identity = 0, dc_tripId = ''T'', dc_phaseEventId = ''P'',
     dc_custody = \<lparr>stamp_actorId = Some ''A'', stamp_custodySequence = Some 1\<rparr>, dc_generation = 1\<rparr>"

definition demo_hook :: draft_hook where
  "demo_hook = \<lparr>dh_scope = demo_scope, dh_draft = [(''photo'', JStr ''data'')], dh_current = demo_scope,
     dh_revision = getItem (draftKey ''T'' ''P'') demo_drafts\<rparr>"

lemmas demo_screen = demo_hook_def demo_scope_def demo_account_def isCurrentDraftScope_def scope_key_def ds_answers_def
  actorGeneration_def captureCustody_def initialModule_def

lemma edit_never_overwrites_a_newer_draft_witness:
  "\<exists>st'. snd (updateDraft demo_uuid (\<lambda>_. ''now'') demo_account demo_scope [(''note'', JStr ''x'')] demo_hook demo_drafts) = st'
    \<and> getItem (scope_key demo_scope) st' = Some (Json_text (stored_draft (dc_custody demo_scope)
        (JObj [(''photo'', JStr ''data''), (''note'', JStr ''x'')])))
    \<and> getItem (scope_key demo_scope) st' \<noteq> getItem (scope_key demo_scope) demo_drafts"
proof -
  obtain h' st' where run: "updateDraft demo_uuid (\<lambda>_. ''now'') demo_account demo_scope [(''note'', JStr ''x'')] demo_hook demo_drafts = (h', st')"
    by force
  have new: "getItem (scope_key demo_scope) st' = Some (Json_text (stored_draft (dc_custody demo_scope)
        (JObj [(''photo'', JStr ''data''), (''note'', JStr ''x'')])))" using run
    by (simp add: updateDraft_def demo_screen writeDraft_def demo_drafts_simps setItem_def put_item_def spread_def Let_def)
      (auto simp: getItem_def)
  then have "getItem (scope_key demo_scope) st' \<noteq> getItem (scope_key demo_scope) demo_drafts"
    by (simp add: demo_screen demo_drafts_simps)
  from edit_never_overwrites_a_newer_draft[OF run this] this new run show ?thesis by auto
qed

lemma acknowledged_clears_only_its_evidence_witness:
  "\<exists>st'. snd (clearDraft demo_account demo_scope [] None (Some [(''photo'', JStr ''data'')]) demo_hook demo_drafts) = st'
    \<and> getItem (scope_key demo_scope) st' = None \<and> getItem (scope_key demo_scope) demo_drafts \<noteq> None"
proof -
  obtain h' st' where run: "clearDraft demo_account demo_scope [] None (Some [(''photo'', JStr ''data'')]) demo_hook demo_drafts = (h', st')"
    by force
  have gone: "getItem (scope_key demo_scope) st' = None" using run
    by (simp add: clearDraft_def expected_text_def object_entries_def demo_screen removeDraft_def owns_draft_def demo_drafts_simps spread_def Let_def)
      (auto simp: getItem_def removeItem_def)
  then have "getItem (scope_key demo_scope) st' \<noteq> getItem (scope_key demo_scope) demo_drafts"
    by (simp add: demo_screen demo_drafts_simps)
  from acknowledged_clears_only_its_evidence[OF run this] gone run show ?thesis by auto
qed

end
