(* ===== verification/LateEvidence.thy ===== *)
theory LateEvidence
  imports Enqueue
begin

text \<open>
  "Send as late evidence" (\<open>lib/offline/late-evidence-sync.ts\<close>, with its progress store in
  \<open>lib/offline/substitution-store.ts\<close> and its two requests in \<open>lib/api/driver-substitutions.ts\<close>): a
  capture the server refused because custody had moved on goes to a route of its own, under the
  period it was captured in and by the account that captured it. The request id and each upload's id are
  stored before anything is sent, so that a retry is the same request.
\<close>

section \<open>The progress store\<close>

text \<open>One transaction of \<open>substitution-store.ts\<close>, which fails without effect or commits.\<close>

definition transact_late :: "env \<Rightarrow> (late_progress list \<Rightarrow> 'a \<times> late_progress list) \<Rightarrow> world \<Rightarrow> (js_error + 'a) \<times> world" where
  "transact_late E work w = (let w1 = await E w in
     case env_lateDb E (w_tick w1) of
       Some m \<Rightarrow> (Inl (OtherErr m), await E w1)
     | None \<Rightarrow> let (r, db) = work (w_late w1) in (Inr r, await E (w1\<lparr>w_late := db\<rparr>)))"

definition getLateProgress :: "env \<Rightarrow> string \<Rightarrow> world \<Rightarrow> (js_error + late_progress option) \<times> world" where
  "getLateProgress E i = transact_late E (\<lambda>db. (db_get lp_sourceId i db, db))"

definition saveLateProgress :: "env \<Rightarrow> late_progress \<Rightarrow> world \<Rightarrow> (js_error + unit) \<times> world" where
  "saveLateProgress E p w = transact_late E (\<lambda>db. ((), db_put lp_sourceId (p\<lparr>lp_updatedAt := now_of E w\<rparr>) db)) w"

section \<open>The requests\<close>

definition me_path :: "string \<Rightarrow> string \<Rightarrow> string" where
  "me_path tripId rest = ''/api/v1/trips/me/'' @ tripId @ rest"

definition uploadLateEvidenceArtifact :: "env \<Rightarrow> string \<Rightarrow> int \<Rightarrow> artifact_upload \<Rightarrow> string \<Rightarrow> world
    \<Rightarrow> (js_error + string) \<times> world" where
  "uploadLateEvidenceArtifact E tripId custodySequence upload requestId w = (let g = generation_of w in
     and_then (artifactFormData E g upload w) (\<lambda>form w1.
     and_then (assert_generation g w1) (\<lambda>_ w2.
     and_then (api_post E (me_path tripId ''/late-evidence/artifacts'')
         (Form (form\<lparr>af_client_request_id := Some requestId, af_custody_sequence := Some custodySequence\<rparr>))
         (Some ARTIFACT_UPLOAD_TIMEOUT_MS) w2) (\<lambda>body w3. (artifact_id body, w3)))))"

definition submitLateEvidence :: "env \<Rightarrow> string \<Rightarrow> late_evidence_request \<Rightarrow> world \<Rightarrow> (js_error + json option) \<times> world" where
  "submitLateEvidence E tripId body w = api_post E (me_path tripId ''/late-evidence'') (Late_evidence body) None w"

section \<open>What may be sent\<close>

datatype late_source = Queue_source sendable_entry | Exception_source exception_envelope

datatype late_outcome =
  Late_receipt "json option"
| Already_recorded
| Late_transient
| Late_refused string
| Not_eligible string
| Late_not_saved

definition NOT_ELIGIBLE_ACTOR :: string where
  "NOT_ELIGIBLE_ACTOR = ''Only the driver who captured this can send it.''"
definition NOT_ELIGIBLE_PERIOD :: string where
  "NOT_ELIGIBLE_PERIOD = ''This capture has no recorded custody period, so it cannot be sent as late evidence.''"
definition NOT_ELIGIBLE_REASON :: string where
  "NOT_ELIGIBLE_REASON = ''This capture was not refused for a custody change, so it is not late evidence.''"

fun sourceId :: "late_source \<Rightarrow> string" where
  "sourceId (Queue_source e) = se_id e"
| "sourceId (Exception_source x) = env_clientReportId x"

fun sourceActor :: "late_source \<Rightarrow> string option" where
  "sourceActor (Queue_source e) = coalesce (se_actorId e)"
| "sourceActor (Exception_source x) = coalesce (env_actorId x)"

fun sourceSequence :: "late_source \<Rightarrow> int option" where
  "sourceSequence (Queue_source e) = coalesce (se_custodySequence e)"
| "sourceSequence (Exception_source x) = reb_custody_sequence (env_body x)"

fun sourceTrip :: "late_source \<Rightarrow> string" where
  "sourceTrip (Queue_source e) = se_tripId e"
| "sourceTrip (Exception_source x) = env_tripId x"

fun source_attention :: "late_source \<Rightarrow> retained_attention field" where
  "source_attention (Queue_source e) = se_attention e"
| "source_attention (Exception_source x) = env_attention x"

definition sourceLateEligible :: "late_source \<Rightarrow> bool" where
  "sourceLateEligible s = (case source_attention s of Val a \<Rightarrow> att_lateEligible a | _ \<Rightarrow> False)"

definition lateEvidenceBlocker :: "late_source \<Rightarrow> custody_module \<Rightarrow> string option" where
  "lateEvidenceBlocker s m =
     (if sourceActor s = None \<or> sourceActor s \<noteq> currentActorId m then Some NOT_ELIGIBLE_ACTOR
      else if sourceSequence s = None then Some NOT_ELIGIBLE_PERIOD
      else if \<not> sourceLateEligible s then Some NOT_ELIGIBLE_REASON
      else None)"

section \<open>The report\<close>

text \<open>
  One run: the world, the progress record it works on (an object all its uploads share) and the artifact
  ids tracked so far. A ready id of a draft may be \<open>undefined\<close>.
\<close>

record late_run =
  lr_world :: world
  lr_working :: late_progress
  lr_ids :: "string field list"

definition on_world :: "late_run \<Rightarrow> 'x \<times> world \<Rightarrow> 'x \<times> late_run" where
  "on_world s r = (fst r, s\<lparr>lr_world := snd r\<rparr>)"

definition track :: "string field \<Rightarrow> late_run \<Rightarrow> late_run" where
  "track i s = s\<lparr>lr_ids := lr_ids s @ [i]\<rparr>"

definition assert_lease :: "actor_lease \<Rightarrow> late_run \<Rightarrow> (js_error + unit) \<times> late_run" where
  "assert_lease lease s = (case assertActorLease lease (w_custody (lr_world s)) of
       Inl m \<Rightarrow> (Inl (OtherErr m), s) | Inr u \<Rightarrow> (Inr u, s))"

definition set_late_upload :: "string \<Rightarrow> string \<Rightarrow> string option \<Rightarrow> late_run \<Rightarrow> late_run" where
  "set_late_upload place requestId artifactId s = s\<lparr>lr_working := (lr_working s)
     \<lparr>lp_uploads := (lp_uploads (lr_working s))(place \<mapsto> \<lparr>lu_requestId = requestId, lu_artifactId = artifactId\<rparr>)\<rparr>\<rparr>"

text \<open>\<open>known?.artifactId\<close> when it is truthy.\<close>

definition known_artifact :: "late_upload option \<Rightarrow> string option" where
  "known_artifact known = (case known of
       Some u \<Rightarrow> (case lu_artifactId u of Some i \<Rightarrow> if i = [] then None else Some i | None \<Rightarrow> None)
     | None \<Rightarrow> None)"

definition upload_slot :: "env \<Rightarrow> actor_lease \<Rightarrow> string \<Rightarrow> int \<Rightarrow> string \<Rightarrow> string field \<Rightarrow> iso \<Rightarrow> late_run
    \<Rightarrow> (js_error + string) \<times> late_run" where
  "upload_slot E lease tripId custodySequence place dataUrl capturedAt s =
     (let known = lp_uploads (lr_working s) place in
      case known_artifact known of
        Some i \<Rightarrow> (Inr i, s)
      | None \<Rightarrow>
        let (requestId, w1) = (case known of Some u \<Rightarrow> (lu_requestId u, lr_world s) | None \<Rightarrow> randomUUID E (lr_world s));
            s1 = set_late_upload place requestId None (s\<lparr>lr_world := w1\<rparr>)
        in and_then (on_world s1 (saveLateProgress E (lr_working s1) (lr_world s1))) (\<lambda>_ s2.
           and_then (assert_lease lease s2) (\<lambda>_ s3.
           and_then (on_world s3 (uploadLateEvidenceArtifact E tripId custodySequence
               \<lparr>up_tripId = tripId, up_artifactType = Photo, up_dataUrl = dataUrl, up_capturedAt = capturedAt,
                up_capturedLat = None, up_capturedLng = None, up_attribution = None, up_custodySequence = None\<rparr>
               requestId (lr_world s3))) (\<lambda>i s4.
             let s5 = set_late_upload place requestId (Some i) s4
             in (Inr i, s5\<lparr>lr_world := snd (saveLateProgress E (lr_working s5) (lr_world s5))\<rparr>)))))"

record built_report =
  br_evidence :: late_payload
  br_capturedAt :: iso
  br_originalKey :: "string option"

definition COULD_NOT_READ_BLOB :: js_error where
  "COULD_NOT_READ_BLOB = OtherErr COULD_NOT_READ"

text \<open>The photos of an incident report: an id on record is reused, bytes are uploaded, neither is left out.\<close>

fun late_photos :: "env \<Rightarrow> actor_lease \<Rightarrow> string \<Rightarrow> int \<Rightarrow> exception_photo list \<Rightarrow> late_run \<Rightarrow> (js_error + string list) \<times> late_run" where
  "late_photos E lease tripId q [] s = (Inr [], s)"
| "late_photos E lease tripId q (photo # rest) s =
     (case photo_uploadedArtifactId photo of
        Some i \<Rightarrow> and_then (late_photos E lease tripId q rest (track (Val i) s)) (\<lambda>ids s1. (Inr (i # ids), s1))
      | None \<Rightarrow> (case photo_blob photo of
          None \<Rightarrow> late_photos E lease tripId q rest s
        | Some blob \<Rightarrow>
            let w = await E (lr_world s); s1 = s\<lparr>lr_world := w\<rparr> in
            if \<not> env_readable E (w_tick w) then (Inl COULD_NOT_READ_BLOB, s1)
            else and_then (upload_slot E lease tripId q (''photo:'' @ photo_id photo) (Val (blobToDataUrl blob)) (photo_capturedAt photo) s1)
              (\<lambda>i s2. and_then (late_photos E lease tripId q rest (track (Val i) s2)) (\<lambda>ids s3. (Inr (i # ids), s3)))))"

text \<open>Every upload is sent as a photo, the PDF copy of a linehaul sheet too.\<close>

definition late_resolver :: "env \<Rightarrow> actor_lease \<Rightarrow> string \<Rightarrow> int \<Rightarrow> late_run resolver" where
  "late_resolver E lease tripId q rq s =
     (if ar_readyId rq \<noteq> Null then (Inr (ar_readyId rq), track (ar_readyId rq) s)
      else and_then (upload_slot E lease tripId q (''phase:'' @ role_text (attr_role (ar_attribution rq))) (ar_dataUrl rq) (ar_capturedAt rq) s)
        (\<lambda>i s1. (Inr (Val i), track (Val i) s1)))"

definition earliest_ping :: "iso \<Rightarrow> location_ping list \<Rightarrow> iso" where
  "earliest_ping enqueuedAt pings = fold (\<lambda>ping least. if ping_recorded_at ping < least then ping_recorded_at ping else least) pings
     (case pings of [] \<Rightarrow> enqueuedAt | p # _ \<Rightarrow> ping_recorded_at p)"

definition build_phase :: "env \<Rightarrow> actor_lease \<Rightarrow> int \<Rightarrow> sendable_entry \<Rightarrow> phase_capture \<Rightarrow> late_run \<Rightarrow> (js_error + built_report) \<times> late_run" where
  "build_phase E lease q entry c s =
     and_then (buildPhaseCompleteRequest (now_of E (lr_world s)) (phase_input (se_tripId entry) c) (late_resolver E lease (se_tripId entry) q) s)
       (\<lambda>rq s1. (Inr \<lparr>br_evidence = Late_phase (rq\<lparr>rq_custody_sequence := None\<rparr>), br_capturedAt = pc_driverCapturedAt c,
           br_originalKey = Some (pc_idempotencyKey c)\<rparr>, s1))"

definition build_checkpoint :: "env \<Rightarrow> actor_lease \<Rightarrow> int \<Rightarrow> sendable_entry \<Rightarrow> checkpoint_evidence \<Rightarrow> late_run
    \<Rightarrow> (js_error + built_report) \<times> late_run" where
  "build_checkpoint E lease q entry evidence s =
     and_then (upload_slot E lease (se_tripId entry) q ''checkpoint:cargo'' (Val (cp_cargoPhotoDataUrl evidence)) (cp_capturedAt evidence) s)
       (\<lambda>cargo s1.
     and_then (case coalesce (cp_selfieDataUrl evidence) of
         None \<Rightarrow> (Inr None, track (Val cargo) s1)
       | Some selfie \<Rightarrow> and_then (upload_slot E lease (se_tripId entry) q ''checkpoint:selfie'' (Val selfie) (cp_capturedAt evidence) (track (Val cargo) s1))
           (\<lambda>i s2. (Inr (Some i), track (Val i) s2)))
       (\<lambda>selfie s2. (Inr \<lparr>br_evidence = Late_checkpoint (checkpointRequestBody evidence \<lparr>cargoPhotoId = cargo, selfieId = selfie\<rparr>),
           br_capturedAt = cp_capturedAt evidence, br_originalKey = coalesce (cp_clientReportId evidence)\<rparr>, s2)))"

definition build_exception :: "env \<Rightarrow> actor_lease \<Rightarrow> int \<Rightarrow> exception_envelope \<Rightarrow> late_run \<Rightarrow> (js_error + built_report) \<times> late_run" where
  "build_exception E lease q x s =
     and_then (late_photos E lease (env_tripId x) q (env_photos x) s) (\<lambda>ids s1.
       (Inr \<lparr>br_evidence = Late_exception (withPhotoIds ((env_body x)\<lparr>reb_custody_sequence := None\<rparr>) ids),
          br_capturedAt = (case reb_driver_captured_at (env_body x) of Some t \<Rightarrow> t | None \<Rightarrow> env_createdAt x),
          br_originalKey = Some (env_clientReportId x)\<rparr>, s1))"

definition buildReport :: "env \<Rightarrow> actor_lease \<Rightarrow> int \<Rightarrow> late_source \<Rightarrow> late_run \<Rightarrow> (js_error + built_report) \<times> late_run" where
  "buildReport E lease q source s = (case source of
       Exception_source x \<Rightarrow> build_exception E lease q x s
     | Queue_source entry \<Rightarrow> (case se_body entry of
         Phase_capture c \<Rightarrow> build_phase E lease q entry c s
       | Checkpoint_capture evidence \<Rightarrow> build_checkpoint E lease q entry evidence s
       | Location_capture pings \<Rightarrow> (Inr \<lparr>br_evidence = Late_location pings, br_capturedAt = earliest_ping (se_enqueuedAt entry) pings,
            br_originalKey = None\<rparr>, s)))"

section \<open>The local copy\<close>

definition clearSource :: "env \<Rightarrow> late_source \<Rightarrow> world \<Rightarrow> world" where
  "clearSource E source w = (case source of
       Queue_source entry \<Rightarrow> snd (ls_update E (filter (\<lambda>e. entry_id e \<noteq> Some (se_id entry))) w)
     | Exception_source x \<Rightarrow> transact_quietly E (\<lambda>_. removeExceptionEnvelope (env_clientReportId x)) w)"

text \<open>Its own sentence, and still offered as late evidence.\<close>

definition refusal_mark :: "iso \<Rightarrow> string \<Rightarrow> int \<Rightarrow> retained_attention" where
  "refusal_mark now reason status = (retainedAttention now None status reason)\<lparr>att_lateEligible := True\<rparr>"

definition mark_entry :: "string \<Rightarrow> retained_attention \<Rightarrow> queue_entry \<Rightarrow> queue_entry" where
  "mark_entry i attn entry = (case entry of
       Sendable e \<Rightarrow> if se_id e = i then Sendable (e\<lparr>se_attention := Val attn\<rparr>) else entry
     | _ \<Rightarrow> entry)"

definition noteRefusal :: "env \<Rightarrow> late_source \<Rightarrow> string \<Rightarrow> int \<Rightarrow> world \<Rightarrow> (js_error + unit) \<times> world" where
  "noteRefusal E source reason status w = (let attn = refusal_mark (now_of E w) reason status in case source of
       Queue_source entry \<Rightarrow> (Inr (), snd (ls_update E (map (mark_entry (se_id entry) attn)) w))
     | Exception_source x \<Rightarrow>
         (case transact E (\<lambda>now db. ((), markExceptionNeedsAttention now (env_clientReportId x) reason None (Some attn) db)) w of
            (Inl err, w1) \<Rightarrow> (Inl (OtherErr (failure_message err)), w1) | (Inr u, w1) \<Rightarrow> (Inr u, w1)))"

definition reloadLateEvidenceSource :: "env \<Rightarrow> late_source \<Rightarrow> world \<Rightarrow> (js_error + late_source option) \<times> world" where
  "reloadLateEvidenceSource E source w = (case source of
       Queue_source entry \<Rightarrow>
         (Inr (case List.find (\<lambda>e. entry_id e = Some (se_id entry)) (loadQueue (w_ls w)) of
             Some (Sendable e) \<Rightarrow> Some (Queue_source e) | _ \<Rightarrow> None), await E w)
     | Exception_source x \<Rightarrow>
         (case transact E (\<lambda>_ db. (getExceptionEnvelope (env_clientReportId x) db, db)) w of
            (Inl err, w1) \<Rightarrow> (Inl (OtherErr (failure_message err)), w1)
          | (Inr found, w1) \<Rightarrow> (Inr (map_option Exception_source found), w1)))"

section \<open>Sending\<close>

definition late_progress_of :: "env \<Rightarrow> late_source \<Rightarrow> string \<Rightarrow> int \<Rightarrow> world \<Rightarrow> (js_error + late_progress) \<times> world" where
  "late_progress_of E source actorId q w =
     and_then (getLateProgress E (sourceId source) w) (\<lambda>found w1. case found of
         Some p \<Rightarrow> (Inr p, w1)
       | None \<Rightarrow>
         let now = now_of E w1; (requestId, w2) = randomUUID E w1;
             p = \<lparr>lp_sourceId = sourceId source, lp_actorId = actorId, lp_tripId = sourceTrip source, lp_custodySequence = q,
                  lp_clientRequestId = requestId, lp_uploads = Map.empty, lp_receipt = None, lp_createdAt = now, lp_updatedAt = now\<rparr>
         in and_then (saveLateProgress E p w2) (\<lambda>_ w3. (Inr p, w3)))"

definition late_request :: "late_progress \<Rightarrow> int \<Rightarrow> built_report \<Rightarrow> string field list \<Rightarrow> late_evidence_request" where
  "late_request p q report ids = \<lparr>ler_client_request_id = lp_clientRequestId p, ler_custody_sequence = q,
     ler_captured_at = br_capturedAt report, ler_original_idempotency_key = br_originalKey report,
     ler_evidence = br_evidence report, ler_artifact_ids = ids\<rparr>"

definition late_failed :: "env \<Rightarrow> late_source \<Rightarrow> js_error \<Rightarrow> world \<Rightarrow> (js_error + late_outcome) \<times> world" where
  "late_failed E source err w = (case classifyLiveWriteFailure (now_of E w) err of
       Transient _ \<Rightarrow> (Inr Late_transient, w)
     | Duplicate _ \<Rightarrow> (Inr Already_recorded, clearSource E source w)
     | Retain a \<Rightarrow> and_then (noteRefusal E source (att_reason a) (att_status a) w) (\<lambda>_ w1. (Inr (Late_refused (att_reason a)), w1)))"

definition send_report :: "env \<Rightarrow> actor_lease \<Rightarrow> late_source \<Rightarrow> int \<Rightarrow> late_run \<Rightarrow> (js_error + json option) \<times> late_run" where
  "send_report E lease source q s =
     and_then (buildReport E lease q source s) (\<lambda>report s1.
     and_then (assert_lease lease s1) (\<lambda>_ s2.
       on_world s2 (submitLateEvidence E (sourceTrip source) (late_request (lr_working s2) q report (lr_ids s2)) (lr_world s2))))"

definition send_under :: "env \<Rightarrow> actor_lease \<Rightarrow> late_source \<Rightarrow> int \<Rightarrow> late_progress \<Rightarrow> world \<Rightarrow> (js_error + late_outcome) \<times> world" where
  "send_under E lease source q p w =
     (case lp_receipt p of
        Some receipt \<Rightarrow> (Inr (Late_receipt receipt), clearSource E source w)
      | None \<Rightarrow> attempt (send_report E lease source q \<lparr>lr_world = w, lr_working = p, lr_ids = []\<rparr>)
          (\<lambda>err s. late_failed E source err (lr_world s))
          (\<lambda>receipt s. (Inr (Late_receipt receipt),
             clearSource E source (snd (saveLateProgress E ((lr_working s)\<lparr>lp_receipt := Some receipt\<rparr>) (lr_world s))))))"

definition sendLateEvidence :: "env \<Rightarrow> late_source \<Rightarrow> world \<Rightarrow> (js_error + late_outcome) \<times> world" where
  "sendLateEvidence E listed w =
     and_then (reloadLateEvidenceSource E listed w) (\<lambda>found w1.
       case captureActorLease (w_custody w) of
         None \<Rightarrow> (Inr (Not_eligible NOT_ELIGIBLE_ACTOR), w1)
       | Some lease \<Rightarrow>
         if \<not> isActorLeaseCurrent lease (w_custody w1) then (Inr (Not_eligible NOT_ELIGIBLE_ACTOR), w1)
         else (case found of
             None \<Rightarrow> (Inr Already_recorded, w1)
           | Some source \<Rightarrow>
             (case lateEvidenceBlocker source (w_custody w1) of
                Some reason \<Rightarrow> (Inr (Not_eligible reason), w1)
              | None \<Rightarrow>
                let q = the (sourceSequence source) in
                (case late_progress_of E source (the (sourceActor source)) q w1 of
                   (Inl _, w2) \<Rightarrow> (Inr Late_not_saved, w2)
                 | (Inr p, w2) \<Rightarrow> send_under E lease source q p w2))))"

section \<open>What sending respects\<close>

definition late_upload_call :: "string \<Rightarrow> int \<Rightarrow> string \<Rightarrow> artifact_form \<Rightarrow> api_call" where
  "late_upload_call tripId q requestId form =
     \<lparr>call_method = POST, call_path = me_path tripId ''/late-evidence/artifacts'',
      call_payload = Form (form\<lparr>af_client_request_id := Some requestId, af_custody_sequence := Some q\<rparr>),
      call_timeoutMs = Some ARTIFACT_UPLOAD_TIMEOUT_MS\<rparr>"

definition late_report_call :: "string \<Rightarrow> late_evidence_request \<Rightarrow> api_call" where
  "late_report_call tripId rq = \<lparr>call_method = POST, call_path = me_path tripId ''/late-evidence'',
     call_payload = Late_evidence rq, call_timeoutMs = None\<rparr>"

text \<open>The evidence of a report, with whatever artifact ids: the capture's own.\<close>

definition evidence_of :: "late_source \<Rightarrow> late_payload \<Rightarrow> bool" where
  "evidence_of source b = (case source of
       Exception_source x \<Rightarrow> (\<exists>ids. b = Late_exception (withPhotoIds ((env_body x)\<lparr>reb_custody_sequence := None\<rparr>) ids))
     | Queue_source e \<Rightarrow> (case se_body e of
         Phase_capture c \<Rightarrow> (\<exists>body. b = Late_phase (requestOf (phase_input (se_tripId e) c) body))
       | Checkpoint_capture ev \<Rightarrow> (\<exists>ids. b = Late_checkpoint (checkpointRequestBody ev ids))
       | Location_capture ps \<Rightarrow> b = Late_location ps))"

text \<open>Runs are related by the worlds they are in; none changes the request id of the report.\<close>

definition late_step :: "(world \<Rightarrow> world \<Rightarrow> bool) \<Rightarrow> late_run \<Rightarrow> late_run \<Rightarrow> bool" where
  "late_step R s s' \<longleftrightarrow> R (lr_world s) (lr_world s') \<and> lp_clientRequestId (lr_working s') = lp_clientRequestId (lr_working s)"

lemma run_frame [simp]:
  "lr_world (set_late_upload place rid a s) = lr_world s" "lr_world (track i s) = lr_world s"
  "lp_clientRequestId (lr_working (set_late_upload place rid a s)) = lp_clientRequestId (lr_working s)"
  "lr_working (track i s) = lr_working s" "lr_world (snd (on_world s r)) = snd r" "lr_working (snd (on_world s r)) = lr_working s"
  by (simp_all add: set_late_upload_def track_def on_world_def)

sublocale write_rel \<subseteq> runs: state_rel "late_step R"
  by unfold_locales (auto simp: late_step_def rel_refl intro: rel_trans)

lemma buildReport_evidence:
  "buildReport E lease q source s = (Inr report, s') \<Longrightarrow> evidence_of source (br_evidence report)"
proof (cases source)
  case (Queue_source e)
  assume b: "buildReport E lease q source s = (Inr report, s')"
  show ?thesis
  proof (cases "se_body e")
    case (Phase_capture c)
    then obtain rq u where rq: "buildPhaseCompleteRequest (now_of E (lr_world s)) (phase_input (se_tripId e) c)
        (late_resolver E lease (se_tripId e) q) s = (Inr rq, u)" "br_evidence report = Late_phase (rq\<lparr>rq_custody_sequence := None\<rparr>)"
      using b Queue_source by (auto simp: buildReport_def build_phase_def elim!: and_then_cases)
    obtain body where "rq = requestOf (phase_input (se_tripId e) c) body" using build_is_requestOf[OF rq(1)] by blast
    then have "br_evidence report = Late_phase (requestOf (phase_input (se_tripId e) c) body)"
      using rq(2) by (simp add: requestOf_def split: prod.split)
    then show ?thesis using Queue_source Phase_capture by (auto simp: evidence_of_def)
  qed (use b Queue_source in \<open>auto simp: buildReport_def build_checkpoint_def evidence_of_def elim!: and_then_cases\<close>)
qed (auto simp: buildReport_def build_exception_def evidence_of_def elim!: and_then_cases)

context write_rel begin

lemma transact_late_rel: "R w (snd (transact_late E work w))"
proof -
  let ?w = "await E w"
  have 1: "R w (await E ?w)" by (intro await_step rel_refl)
  have "R w (await E (?w\<lparr>w_late := db\<rparr>))" for db
    by (intro await_step[OF rel_trans[OF await_rel late_rel]])
  then show ?thesis using 1
    unfolding transact_late_def Let_def by (auto split: option.split prod.split)
qed

lemma save_progress_rel: "R w (snd (saveLateProgress E p w))"
  unfolding saveLateProgress_def by (rule transact_late_rel)

lemma on_world_rel: "R (lr_world s) (snd r) \<Longrightarrow> late_step R s (snd (on_world s r))"
  by (simp add: late_step_def)

lemma assert_lease_returns:
  "lease_generation lease = g \<Longrightarrow> assert_lease lease s = (Inr u, s') \<Longrightarrow> s' = s \<and> generation_of (lr_world s) = g"
  by (auto simp: assert_lease_def assertActorLease_def isActorLeaseCurrent_def actorGeneration_def split: if_splits)

lemma assert_lease_rel: "late_step R s (snd (assert_lease lease s))"
  by (simp add: assert_lease_def runs.rel_refl split: sum.split)

lemma late_artifact_rel:
  assumes "\<And>rid form. ok (late_upload_call t q rid form)" "generation_of w = g"
  shows "R w (snd (uploadLateEvidenceArtifact E t q up rid w))"
  unfolding uploadLateEvidenceArtifact_def Let_def assms(2)
proof (intro and_then_rel, goal_cases)
  case (3 form u v w')
  then show ?case
    using assms(1)[of rid form] assert_generation_returns[of u] unfolding late_upload_call_def
    by (auto intro!: post_rel)
qed (auto simp: form_rel assert_rel rel_refl)

lemma upload_slot_rel:
  assumes okf: "\<And>rid form. ok (late_upload_call t q rid form)" and lg: "lease_generation lease = g"
  shows "late_step R s (snd (upload_slot E lease t q place url c s))"
proof (cases "known_artifact (lp_uploads (lr_working s) place)")
  case None
  obtain rid w1 where id: "(case lp_uploads (lr_working s) place of Some u \<Rightarrow> (lu_requestId u, lr_world s)
      | None \<Rightarrow> randomUUID E (lr_world s)) = (rid, w1)" by force
  have w1: "R (lr_world s) w1"
    using id randomUUID_rel[of "lr_world s"] by (auto simp: rel_refl split: option.splits)
  let ?s1 = "set_late_upload place rid None (s\<lparr>lr_world := w1\<rparr>)"
  let ?up = "\<lparr>up_tripId = t, up_artifactType = Photo, up_dataUrl = url, up_capturedAt = c, up_capturedLat = None,
      up_capturedLng = None, up_attribution = None, up_custodySequence = None\<rparr>"
  have "late_step R ?s1 (snd (and_then (on_world ?s1 (saveLateProgress E (lr_working ?s1) (lr_world ?s1))) (\<lambda>_ s2.
      and_then (assert_lease lease s2) (\<lambda>_ s3.
      and_then (on_world s3 (uploadLateEvidenceArtifact E t q ?up rid (lr_world s3))) (\<lambda>i s4.
        let s5 = set_late_upload place rid (Some i) s4
        in (Inr i, s5\<lparr>lr_world := snd (saveLateProgress E (lr_working s5) (lr_world s5))\<rparr>))))))"
  proof (intro runs.and_then_rel, goal_cases)
    case 1
    show ?case by (rule on_world_rel[OF save_progress_rel])
  next
    case 2
    show ?case by (rule assert_lease_rel)
  next
    case (3 a u b v)
    show ?case using late_artifact_rel[OF okf, of "lr_world v" ?up rid] assert_lease_returns[OF lg 3(2)]
      by (intro on_world_rel) simp
  next
    case (4 a u b v i z)
    show ?case using save_progress_rel by (simp add: Let_def late_step_def)
  qed
  then have "late_step R ?s1 (snd (upload_slot E lease t q place url c s))"
    unfolding upload_slot_def Let_def by (simp add: None id Let_def)
  then show ?thesis using w1 by (auto simp: late_step_def intro: rel_trans)
qed (simp add: upload_slot_def runs.rel_refl)

lemma track_step [simp]: "late_step R (track i s) s' \<longleftrightarrow> late_step R s s'" "late_step R s (track i s') \<longleftrightarrow> late_step R s s'"
  by (simp_all add: late_step_def)

lemma world_step: "R (lr_world s) w \<Longrightarrow> late_step R (s\<lparr>lr_world := w\<rparr>) s' \<Longrightarrow> late_step R s s'"
  by (auto simp: late_step_def intro: rel_trans)

lemma late_photos_rel:
  assumes "\<And>rid form. ok (late_upload_call t q rid form)" "lease_generation lease = g"
  shows "late_step R s (snd (late_photos E lease t q photos s))"
proof (induction photos arbitrary: s)
  case (Cons x photos)
  have rest: "late_step R u (snd (and_then (late_photos E lease t q photos u) (\<lambda>ids s1. (Inr (i # ids), s1))))" for u i
    by (intro runs.and_then_rel Cons.IH) (simp add: runs.rel_refl)
  let ?w = "await E (lr_world s)"
  have up: "late_step R (s\<lparr>lr_world := ?w\<rparr>) (snd (and_then (upload_slot E lease t q (''photo:'' @ photo_id x)
              (Val (blobToDataUrl b)) (photo_capturedAt x) (s\<lparr>lr_world := ?w\<rparr>))
              (\<lambda>i s2. and_then (late_photos E lease t q photos (track (Val i) s2)) (\<lambda>ids s3. (Inr (i # ids), s3)))))" for b
    by (rule runs.and_then_rel[OF upload_slot_rel[OF assms]]) (use rest[of "track (Val i) u" i for i u] in simp)
  have quiet: "late_step R s (s\<lparr>lr_world := ?w\<rparr>)" by (simp add: late_step_def await_rel)
  show ?case
    using rest[of "track (Val i) s" i for i] Cons.IH[of s] runs.rel_trans[OF quiet up] quiet
    by (auto simp: Let_def split: option.split)
qed (simp add: runs.rel_refl)

lemma late_resolver_rel:
  assumes "\<And>rid form. ok (late_upload_call t q rid form)" "lease_generation lease = g"
  shows "artifact_resolver (late_step R) (late_resolver E lease t q) inp"
proof unfold_locales
  fix rq s
  show "late_step R s (snd (late_resolver E lease t q rq s))"
    unfolding late_resolver_def
    by (auto simp: runs.rel_refl intro!: runs.and_then_rel upload_slot_rel assms)
qed

lemma buildReport_rel:
  assumes "\<And>rid form. ok (late_upload_call (sourceTrip source) q rid form)" "lease_generation lease = g"
  shows "late_step R s (snd (buildReport E lease q source s))"
proof (cases source)
  case (Queue_source e)
  note up = upload_slot_rel[OF assms(1)[unfolded Queue_source sourceTrip.simps] assms(2)]
  note res = late_resolver_rel[OF assms(1)[unfolded Queue_source sourceTrip.simps] assms(2)]
  have "late_step R s (snd (build_phase E lease q e c s))" for c
    unfolding build_phase_def
    by (intro runs.and_then_rel artifact_resolver.build_rel[OF res]) (simp add: runs.rel_refl)
  moreover have "late_step R s (snd (build_checkpoint E lease q e ev s))" for ev
    unfolding build_checkpoint_def
  proof (intro runs.and_then_rel, goal_cases)
    case (2 cargo u)
    have "late_step R (track (Val cargo) u) (snd (and_then
        (upload_slot E lease (se_tripId e) q ''checkpoint:selfie'' (Val selfie) (cp_capturedAt ev) (track (Val cargo) u))
        (\<lambda>i s2. (Inr (Some i), track (Val i) s2))))" for selfie
      by (rule runs.and_then_rel[OF up]) (simp add: runs.rel_refl)
    then show ?case by (auto simp: runs.rel_refl split: option.split)
  qed (auto intro: up simp: runs.rel_refl)
  ultimately show ?thesis using Queue_source
    by (auto simp: buildReport_def runs.rel_refl split: sendable_body.split)
next
  case (Exception_source x)
  show ?thesis unfolding buildReport_def Exception_source build_exception_def late_source.case
    by (intro runs.and_then_rel late_photos_rel) (use assms Exception_source in \<open>auto simp: runs.rel_refl\<close>)
qed

lemma send_report_rel:
  assumes up: "\<And>rid form. ok (late_upload_call (sourceTrip source) q rid form)" and lg: "lease_generation lease = g"
    and post: "\<And>report (s' :: late_run) ids. evidence_of source (br_evidence report) \<Longrightarrow>
        lp_clientRequestId (lr_working s') = lp_clientRequestId (lr_working s) \<Longrightarrow>
        ok (late_report_call (sourceTrip source) (late_request (lr_working s') q report ids))"
  shows "late_step R s (snd (send_report E lease source q s))"
  unfolding send_report_def
proof (intro runs.and_then_rel, goal_cases)
  case 1
  show ?case by (rule buildReport_rel[OF up lg])
next
  case (2 report u)
  show ?case by (rule assert_lease_rel)
next
  case (3 report u a v)
  have v: "v = u" "generation_of (lr_world v) = g" using assert_lease_returns[OF lg 3(2)] by auto
  have "late_step R s u" using buildReport_rel[OF up lg, of s] 3(1) by simp
  then have "lp_clientRequestId (lr_working v) = lp_clientRequestId (lr_working s)" by (simp add: late_step_def v(1))
  then have "ok (late_report_call (sourceTrip source) (late_request (lr_working v) q report (lr_ids v)))"
    by (rule post[OF buildReport_evidence[OF 3(1)]])
  then show ?case using v(2) unfolding submitLateEvidence_def late_report_call_def
    by (intro on_world_rel post_rel)
qed

lemma progress_rel: "R w (snd (late_progress_of E source a q w))"
  unfolding late_progress_of_def getLateProgress_def
  by (auto simp: rel_refl transact_late_rel save_progress_rel randomUUID_def Let_def
      intro!: and_then_rel rel_trans[OF uuid_rel save_progress_rel] split: option.split)

end

section \<open>Late evidence goes out under its own period, by its capturer\<close>

definition call_of_source :: "late_source \<Rightarrow> string \<Rightarrow> api_call \<Rightarrow> bool" where
  "call_of_source source requestId c \<longleftrightarrow> (\<exists>q. sourceSequence source = Some q
     \<and> ((\<exists>rid form. c = late_upload_call (sourceTrip source) q rid form)
        \<or> (\<exists>rq. c = late_report_call (sourceTrip source) rq \<and> ler_client_request_id rq = requestId
             \<and> ler_custody_sequence rq = q \<and> evidence_of source (ler_evidence rq))))"

definition sent_late :: "late_source \<Rightarrow> string \<Rightarrow> nat \<Rightarrow> wire_request \<Rightarrow> bool" where
  "sent_late source requestId g r \<longleftrightarrow> wr_generation r = g \<and> call_of_source source requestId (wr_call r)"

interpretation late_writes: write_rel "sends_only (sent_late source requestId g)" E "sent_late source requestId g" g
    "call_of_source source requestId"
  for source :: late_source and requestId :: string and g :: nat and E :: env
  by unfold_locales (auto simp: sent_late_def stamped_def)

interpretation no_writes: write_rel "sends_only (\<lambda>_. False)" E "\<lambda>_. False" g "\<lambda>_. False" for g :: nat and E :: env
  by unfold_locales simp

lemma ls_update_wire [simp]: "w_wire (snd (ls_update E f w)) = w_wire w"
  by (simp add: ls_update_def ls_save_def split: prod.split)

lemma clearSource_wire [simp]: "w_wire (clearSource E source w) = w_wire w"
  by (simp add: clearSource_def split: late_source.split)

lemma wireD:
  "ls_update E f w = (ok, w1) \<Longrightarrow> w_wire w1 = w_wire w"
  "transact E work w = (y, w1) \<Longrightarrow> w_wire w1 = w_wire w"
  using ls_update_wire[of E f w] transact_wire[of E work w] by (metis snd_conv)+

lemma noteRefusal_wire [simp]: "w_wire (snd (noteRefusal E source reason status w)) = w_wire w"
  by (auto simp: noteRefusal_def Let_def split: late_source.split prod.split sum.split dest: wireD)

lemma and_then_return_world [simp]: "snd (and_then r (\<lambda>_ w1. (Inr x, w1))) = snd r"
  by (cases r; cases "fst r") auto

lemma late_failed_wire [simp]: "w_wire (snd (late_failed E source err w)) = w_wire w"
  by (simp add: late_failed_def split: live_write_failure.split)

lemma saveLateProgress_wire [simp]: "w_wire (snd (saveLateProgress E p w)) = w_wire w"
  by (simp add: saveLateProgress_def transact_late_def Let_def split: option.split)

lemma send_under_sends:
  assumes "lease_generation lease = g" "sourceSequence source = Some q"
  shows "sends_only (sent_late source (lp_clientRequestId p) g) w (snd (send_under E lease source q p w))"
proof (cases "lp_receipt p")
  case None
  let ?s = "\<lparr>lr_world = w, lr_working = p, lr_ids = []\<rparr>"
  obtain x s' where r: "send_report E lease source q ?s = (x, s')" by force
  have "late_step (sends_only (sent_late source (lp_clientRequestId p) g)) ?s (snd (send_report E lease source q ?s))"
    by (rule late_writes.send_report_rel)
      (use assms in \<open>auto simp: call_of_source_def late_request_def\<close>)
  then have "sends_only (sent_late source (lp_clientRequestId p) g) w (lr_world s')" using r by (simp add: late_step_def)
  then show ?thesis using None r by (cases x) (simp_all add: send_under_def sends_only_def)
qed (simp add: send_under_def sends_only_def)

lemma progress_wire [simp]: "w_wire (snd (late_progress_of E source a q w)) = w_wire w"
proof -
  have "sends_only (\<lambda>_. False) w (snd (late_progress_of E source a q w))"
    by (rule no_writes.progress_rel)
  then show ?thesis by (auto simp: sends_only_def list_all_iff)
qed

lemma reload_wire [simp]: "w_wire (snd (reloadLateEvidenceSource E source w)) = w_wire w"
  by (auto simp: reloadLateEvidenceSource_def split: late_source.split prod.split sum.split dest: wireD)

lemma reload_same:
  "reloadLateEvidenceSource E listed w = (Inr (Some source), w1) \<Longrightarrow> sourceId source = sourceId listed"
  by (cases listed) (auto simp: reloadLateEvidenceSource_def getExceptionEnvelope_def transact_def Let_def
      dest!: find_in_set db_get_key split: option.splits queue_entry.splits sum.splits prod.splits)

text \<open>How far a run got: not to the capture, not to a stored request id, or to sending one stored capture.\<close>

lemma sendLateEvidence_cases:
  assumes "sendLateEvidence E listed w = (x, w')"
  obtains (stopped) y where "reloadLateEvidenceSource E listed w = (y, w')"
    | (unsaved) source a q w1 e where "reloadLateEvidenceSource E listed w = (Inr (Some source), w1)"
      "late_progress_of E source a q w1 = (Inl e, w')"
    | (sent) lease source p w1 w2 q where "captureActorLease (w_custody w) = Some lease" "isActorLeaseCurrent lease (w_custody w1)"
      "reloadLateEvidenceSource E listed w = (Inr (Some source), w1)" "lateEvidenceBlocker source (w_custody w1) = None"
      "sourceSequence source = Some q" "late_progress_of E source (the (sourceActor source)) q w1 = (Inr p, w2)"
      "send_under E lease source q p w2 = (x, w')"
proof -
  obtain y w1 where rl: "reloadLateEvidenceSource E listed w = (y, w1)" by force
  show thesis
  proof (cases "\<exists>lease source. captureActorLease (w_custody w) = Some lease \<and> y = Inr (Some source)
      \<and> isActorLeaseCurrent lease (w_custody w1) \<and> lateEvidenceBlocker source (w_custody w1) = None")
    case False
    then have "w' = w1" using assms rl by (cases y) (auto simp: sendLateEvidence_def split: sum.splits option.splits if_splits)
    then show thesis using stopped rl by simp
  next
    case True
    then obtain lease source where t: "captureActorLease (w_custody w) = Some lease" "y = Inr (Some source)"
      "isActorLeaseCurrent lease (w_custody w1)" "lateEvidenceBlocker source (w_custody w1) = None" by blast
    obtain q where q: "sourceSequence source = Some q" using t(4) by (auto simp: lateEvidenceBlocker_def split: if_splits)
    obtain z w2 where pr: "late_progress_of E source (the (sourceActor source)) q w1 = (z, w2)" by force
    show thesis
    proof (cases z)
      case (Inl e)
      then have "w' = w2" using assms rl t q pr by (simp add: sendLateEvidence_def)
      then show thesis using unsaved rl t(2) pr Inl by blast
    next
      case (Inr p)
      then have "send_under E lease source q p w2 = (x, w')" using assms rl t q pr by (simp add: sendLateEvidence_def)
      then show thesis using sent t rl q pr Inr by blast
    qed
  qed
qed

text \<open>
  The stored capture behind a listed one - the queued entry of its id, or the incident report the database
  has when it is read - with its own account and period on record and the mark that offers it as late evidence.
\<close>

definition offered :: "env \<Rightarrow> world \<Rightarrow> late_source \<Rightarrow> string \<Rightarrow> int \<Rightarrow> late_source \<Rightarrow> bool" where
  "offered E w listed a q source \<longleftrightarrow> (case listed of
       Queue_source l \<Rightarrow> (\<exists>e attn. source = Queue_source e \<and> Sendable e \<in> set (loadQueue (w_ls w)) \<and> se_id e = se_id l
          \<and> se_actorId e = Val a \<and> se_custodySequence e = Val q \<and> se_attention e = Val attn \<and> att_lateEligible attn)
     | Exception_source l \<Rightarrow> (\<exists>x attn. source = Exception_source x
          \<and> getExceptionEnvelope (env_clientReportId l) (w_db (await E w)) = Some x
          \<and> env_actorId x = Val a \<and> reb_custody_sequence (env_body x) = Some q \<and> env_attention x = Val attn \<and> att_lateEligible attn))"

lemma reload_stored:
  assumes "reloadLateEvidenceSource E listed w = (Inr (Some source), w1)"
  shows "case listed of
       Queue_source l \<Rightarrow> (\<exists>e. source = Queue_source e \<and> Sendable e \<in> set (loadQueue (w_ls w)) \<and> se_id e = se_id l)
     | Exception_source l \<Rightarrow> (\<exists>x. source = Exception_source x \<and> getExceptionEnvelope (env_clientReportId l) (w_db (await E w)) = Some x)"
  using assms
  by (cases listed) (auto simp: reloadLateEvidenceSource_def transact_def Let_def
      dest!: find_in_set split: option.splits queue_entry.splits sum.splits prod.splits)

lemma coalesce_Some: "coalesce f = Some a \<longleftrightarrow> f = Val a"
  by (cases f) simp_all

lemma reload_offered:
  assumes "reloadLateEvidenceSource E listed w = (Inr (Some source), w1)" "lateEvidenceBlocker source m = None"
    "currentActorId m = Some a" "sourceSequence source = Some q"
  shows "offered E w listed a q source"
proof -
  have "sourceActor source = Some a" "sourceLateEligible source"
    using assms(2,3) by (auto simp: lateEvidenceBlocker_def split: if_splits)
  then show ?thesis
    using reload_stored[OF assms(1)] assms(4)
    by (auto simp: offered_def sourceLateEligible_def coalesce_Some split: late_source.splits field.splits)
qed


section \<open>The capture stays until the server answered for it\<close>

definition late_kept :: "late_source \<Rightarrow> local_storage \<Rightarrow> exception_db \<Rightarrow> bool" where
  "late_kept source ls db = (case source of
       Queue_source e \<Rightarrow> holds_capture e (loadQueue ls) | Exception_source x \<Rightarrow> report_held x ls db)"

lemma mark_entry_simps [simp]:
  "mark_entry i a entry = Legacy l \<longleftrightarrow> entry = Legacy l"
  "mark_entry i a (Sendable e) = Sendable (if se_id e = i then e\<lparr>se_attention := Val a\<rparr> else e)"
  by (auto simp: mark_entry_def split: queue_entry.split)

lemma mark_entry_Sendable: "mark_entry i a entry = Sendable x \<longleftrightarrow>
    (\<exists>e. entry = Sendable e \<and> x = (if se_id e = i then e\<lparr>se_attention := Val a\<rparr> else e))"
  by (cases entry) (auto simp: mark_entry_def)

lemma holds_mark: "holds_capture e es \<Longrightarrow> holds_capture e (map (mark_entry i a) es)"
proof -
  assume h: "holds_capture e es"
  have same: "same_capture e x \<Longrightarrow> same_capture e (if se_id x = i then x\<lparr>se_attention := Val a\<rparr> else x)" for x
    by (simp add: same_capture_def)
  obtain x where "Sendable x \<in> set es" "same_capture e x" using h by (auto simp: holds_capture_def)
  then have "mark_entry i a (Sendable x) \<in> set (map (mark_entry i a) es)" "same_capture e x"
    unfolding set_map by (simp_all only: imageI)
  then have 1: "\<exists>e'. Sendable e' \<in> set (map (mark_entry i a) es) \<and> same_capture e e'"
    using same unfolding mark_entry_simps by blast
  have 2: "same_capture e e'" if m: "Sendable e' \<in> set (map (mark_entry i a) es)" and id: "se_id e' = se_id e" for e'
  proof -
    obtain z where "z \<in> set es" "mark_entry i a z = Sendable e'" using m by auto
    then obtain y where y: "Sendable y \<in> set es" "e' = (if se_id y = i then y\<lparr>se_attention := Val a\<rparr> else y)"
      unfolding mark_entry_Sendable by blast
    then have "se_id y = se_id e" using id by (simp split: if_splits)
    then have "same_capture e y" using h y(1) by (auto simp: holds_capture_def)
    then show ?thesis unfolding y(2) by (rule same)
  qed
  have 3: "le_id l \<noteq> se_id e" if "Legacy l \<in> set (map (mark_entry i a) es)" for l
    using that h by (auto simp: holds_capture_def dest!: sym[of "Legacy l"])
  show ?thesis unfolding holds_capture_def using 1 2 3 by blast
qed

lemma noteRefusal_guarded: "guarded E (late_kept listed) w (snd (noteRefusal E source reason status w))"
proof (cases source)
  case (Queue_source e)
  let ?f = "map (mark_entry (se_id e) (refusal_mark (now_of E w) reason status))"
  have eq: "snd (noteRefusal E source reason status w) = snd (ls_update E ?f w)"
    by (simp add: noteRefusal_def Queue_source Let_def split: prod.split)
  show ?thesis
  proof (cases listed)
    case (Queue_source l)
    have "guarded E (kept_entry.stored l) w (snd (ls_update E ?f w))"
      unfolding ls_update_def by (rule kept_entry.save_rel) (rule holds_mark)
    then show ?thesis by (simp add: eq Queue_source late_kept_def[abs_def] kept_entry.stored_def[abs_def])
  next
    case (Exception_source x)
    then show ?thesis
      by (simp add: eq guarded_def keeps_def late_kept_def report_held_def ls_update_def ls_save_def split: prod.split)
  qed
next
  case (Exception_source x)
  let ?work = "\<lambda>now db. ((), markExceptionNeedsAttention now (env_clientReportId x) reason None
      (Some (refusal_mark (now_of E w) reason status)) db)"
  have eq: "snd (noteRefusal E source reason status w) = snd (transact E ?work w)"
    by (simp add: noteRefusal_def Exception_source Let_def split: prod.split sum.split)
  show ?thesis unfolding eq
    by (rule transact_guarded) (auto simp: late_kept_def mark_held split: late_source.splits)
qed

lemma send_under_guarded:
  assumes "send_under E lease source q p w = (x, w')" "\<not> (\<exists>r. x = Inr (Late_receipt r))" "x \<noteq> Inr Already_recorded"
  shows "guarded E (late_kept listed) w w'"
proof -
  have none: "lp_receipt p = None" using assms(1,2) by (auto simp: send_under_def split: option.splits)
  let ?s = "\<lparr>lr_world = w, lr_working = p, lr_ids = []\<rparr>"
  obtain y s' where r: "send_report E lease source q ?s = (y, s')" by force
  have "late_step (guarded E (late_kept listed)) ?s (snd (send_report E lease source q ?s))"
    by (rule guarded_writes.send_report_rel[where g = "lease_generation lease"]) simp_all
  then have 1: "guarded E (late_kept listed) w (lr_world s')" using r by (simp add: late_step_def)
  obtain err where y: "y = Inl err" "late_failed E source err (lr_world s') = (x, w')"
    using assms none r by (cases y) (auto simp: send_under_def)
  have "guarded E (late_kept listed) (lr_world s') w'"
  proof (cases "classifyLiveWriteFailure (now_of E (lr_world s')) err")
    case (Retain a)
    then have "and_then (noteRefusal E source (att_reason a) (att_status a) (lr_world s'))
        (\<lambda>_ w1. (Inr (Late_refused (att_reason a)), w1)) = (x, w')"
      using y(2) by (simp add: late_failed_def)
    then have "w' = snd (noteRefusal E source (att_reason a) (att_status a) (lr_world s'))"
      by (metis and_then_return_world snd_conv)
    then show ?thesis by (simp add: noteRefusal_guarded)
  qed (use y(2) assms(3) in \<open>auto simp: late_failed_def guarded.rel_refl\<close>)
  then show ?thesis by (rule guarded.rel_trans[OF 1])
qed

lemma reload_guarded: "guarded E Q w (snd (reloadLateEvidenceSource E source w))"
proof (cases source)
  case (Exception_source x)
  let ?t = "transact E (\<lambda>_ db. (getExceptionEnvelope (env_clientReportId x) db, db)) w"
  have "snd (reloadLateEvidenceSource E source w) = snd ?t"
    by (simp add: reloadLateEvidenceSource_def Exception_source split: prod.split sum.split)
  then show ?thesis by (simp only:) (rule transact_guarded, simp)
qed (simp add: reloadLateEvidenceSource_def guarded.await_rel)

lemma unanswered_capture_kept:
  assumes "sendLateEvidence E listed w = (x, w')" "\<not> (\<exists>r. x = Inr (Late_receipt r))" "x \<noteq> Inr Already_recorded"
  shows "guarded E (late_kept listed) w w'"
proof -
  note reload = reload_guarded[of E "late_kept listed" w listed]
  have progress: "guarded E (late_kept listed) w w2" if "guarded E (late_kept listed) w w1"
    "late_progress_of E source a q w1 = (z, w2)" for source a q w1 z w2
    using guarded_writes.progress_rel[where E = E and Q = "late_kept listed" and w = w1 and source = source and a = a and q = q] that
    by (auto intro: guarded.rel_trans)
  from assms(1) show ?thesis
  proof (cases rule: sendLateEvidence_cases)
    case (stopped y)
    then show ?thesis using reload by simp
  next
    case (unsaved source a q w1 e)
    then show ?thesis using progress[OF _ unsaved(2)] reload by simp
  next
    case (sent lease source p w1 w2 q)
    have "guarded E (late_kept listed) w w2"
      using progress[OF _ sent(6)] reload sent(3) by simp
    then show ?thesis by (rule guarded.rel_trans) (rule send_under_guarded[OF sent(7) assms(2,3)])
  qed
qed

text \<open>What the server said about a capture sent as late evidence: it accepted its report, or answered one of its
  requests with the code that says it was recorded before.\<close>

definition late_settled :: "env \<Rightarrow> late_source \<Rightarrow> bool" where
  "late_settled E source \<longleftrightarrow> (\<exists>requestId c res. call_of_source source requestId c \<and> answers E c res
     \<and> (rs_ok res \<and> (\<exists>rq. call_payload c = Late_evidence rq) \<or> says_recorded res))"

lemma late_uncoded:
  "transact_late E work w = (Inl e, w') \<Longrightarrow> \<not> coded e"
  "assert_lease lease s = (Inl e, s') \<Longrightarrow> \<not> coded e"
  "artifactFormData E g up w = (Inl e, w') \<Longrightarrow> \<not> coded e"
  "artifact_id b = Inl e \<Longrightarrow> \<not> coded e"
proof -
  have jg: "json_get k j = Inl e \<Longrightarrow> \<not> coded e" for k j by (cases j) auto
  show "transact_late E work w = (Inl e, w') \<Longrightarrow> \<not> coded e"
    by (auto simp: transact_late_def Let_def split: option.splits prod.splits)
  show "assert_lease lease s = (Inl e, s') \<Longrightarrow> \<not> coded e"
    by (auto simp: assert_lease_def split: sum.splits)
  show "artifactFormData E g up w = (Inl e, w') \<Longrightarrow> \<not> coded e"
    by (auto simp: artifactFormData_def Let_def TOO_LARGE_def elim!: and_then_cases dest: assert_uncoded split: sum.splits if_splits)
  show "artifact_id b = Inl e \<Longrightarrow> \<not> coded e"
    by (auto simp: artifact_id_def dest: jg split: option.splits sum.splits json.splits)
qed

lemma save_uncoded: "saveLateProgress E p w = (Inl e, w') \<Longrightarrow> \<not> coded e"
  unfolding saveLateProgress_def by (rule late_uncoded(1))

lemma late_artifact_coded:
  "uploadLateEvidenceArtifact E t q up i w = (Inl e, w') \<Longrightarrow> coded e \<Longrightarrow> \<exists>rid form. server_said E (late_upload_call t q rid form) e"
  unfolding uploadLateEvidenceArtifact_def Let_def api_post_def late_upload_call_def
  by (auto elim!: and_then_cases dest: late_uncoded assert_uncoded request_coded)

lemma on_world_Inl: "on_world s r = (Inl e, s') \<Longrightarrow> \<exists>w. r = (Inl e, w)"
  by (cases r) (auto simp: on_world_def)

lemma upload_slot_coded:
  "upload_slot E lease t q place url c s = (Inl e, s') \<Longrightarrow> coded e \<Longrightarrow> \<exists>rid form. server_said E (late_upload_call t q rid form) e"
  unfolding upload_slot_def Let_def
  by (auto elim!: and_then_cases dest!: on_world_Inl dest: save_uncoded late_uncoded late_artifact_coded split: option.splits prod.splits)

lemma late_photos_coded:
  "late_photos E lease t q ps s = (Inl e, s') \<Longrightarrow> coded e \<Longrightarrow> \<exists>rid form. server_said E (late_upload_call t q rid form) e"
proof (induction ps arbitrary: s s')
  case (Cons p ps)
  then show ?case
    by (auto simp: Let_def COULD_NOT_READ_BLOB_def elim!: and_then_cases dest: upload_slot_coded
        split: option.splits if_splits)
qed simp

lemma late_resolver_coded:
  "late_resolver E lease t q rq s = (Inl e, s') \<Longrightarrow> coded e \<Longrightarrow> \<exists>rid form. server_said E (late_upload_call t q rid form) e"
  unfolding late_resolver_def by (auto elim!: and_then_cases dest: upload_slot_coded split: if_splits)

lemma buildReport_coded:
  "buildReport E lease q source s = (Inl e, s') \<Longrightarrow> coded e \<Longrightarrow> \<exists>rid form. server_said E (late_upload_call (sourceTrip source) q rid form) e"
  unfolding buildReport_def build_phase_def build_checkpoint_def build_exception_def
  by (auto elim!: and_then_cases dest!: build_error dest: upload_slot_coded late_photos_coded late_resolver_coded
      split: late_source.splits sendable_body.splits option.splits)

lemma recorded_settled:
  "server_said E c e \<Longrightarrow> proven_duplicate e \<Longrightarrow> call_of_source source rid c \<Longrightarrow> late_settled E source"
  unfolding late_settled_def server_said_def
  using duplicate_code_is_read_exactly[of E] by (fastforce simp: proven_duplicate_def ae_code_def says_recorded_def)

lemma report_call_of_source:
  "sourceSequence source = Some q \<Longrightarrow> evidence_of source (br_evidence report) \<Longrightarrow>
   call_of_source source (lp_clientRequestId p) (late_report_call (sourceTrip source) (late_request p q report ids))"
  by (auto simp: call_of_source_def late_request_def)

lemma send_report_settled:
  assumes "send_report E lease source q s = (y, s')" "sourceSequence source = Some q"
    and y: "(\<exists>b. y = Inr b) \<or> (\<exists>e. y = Inl e \<and> proven_duplicate e)"
  shows "late_settled E source"
proof -
  obtain z s1 where b: "buildReport E lease q source s = (z, s1)" by force
  show ?thesis
  proof (cases z)
    case (Inl e)
    then have dup: "proven_duplicate e" using assms(1) y b by (auto simp: send_report_def)
    then obtain rid form where "server_said E (late_upload_call (sourceTrip source) q rid form) e"
      using buildReport_coded[of E lease q source s e s1] b Inl proven_coded by blast
    moreover have "call_of_source source i (late_upload_call (sourceTrip source) q rid form)" for i
      using assms(2) by (auto simp: call_of_source_def)
    ultimately show ?thesis using recorded_settled dup by blast
  next
    case (Inr report)
    obtain v s2 where l: "assert_lease lease s1 = (v, s2)" by force
    show ?thesis
    proof (cases v)
      case (Inl e)
      then show ?thesis using assms(1) y b \<open>z = Inr report\<close> l late_uncoded(2)[of lease s1 e s2] proven_coded
        by (auto simp: send_report_def)
    next
      case (Inr u)
      let ?c = "late_report_call (sourceTrip source) (late_request (lr_working s2) q report (lr_ids s2))"
      have own: "call_of_source source (lp_clientRequestId (lr_working s2)) ?c"
        using report_call_of_source[OF assms(2) buildReport_evidence] b \<open>z = Inr report\<close> by simp
      have "send_report E lease source q s = on_world s2 (request E ?c (lr_world s2))"
        using b \<open>z = Inr report\<close> l Inr by (simp add: send_report_def submitLateEvidence_def api_post_def late_report_call_def)
      then obtain w where rq: "request E ?c (lr_world s2) = (y, w)"
        using assms(1) by (cases "request E ?c (lr_world s2)") (auto simp: on_world_def)
      from y show ?thesis
      proof (elim disjE exE conjE)
        fix r assume "y = Inr r"
        then obtain res where "answers E ?c res" "rs_ok res" using request_accepted rq unfolding success_body_def by blast
        then show ?thesis using own unfolding late_settled_def late_report_call_def by fastforce
      next
        fix e assume "y = Inl e" "proven_duplicate e"
        then show ?thesis using rq own request_coded[of E ?c _ e] by (auto simp: proven_coded intro: recorded_settled)
      qed
    qed
  qed
qed

text \<open>A send that clears the local copy had an answer, or a receipt to go by.\<close>

lemma send_under_settled:
  assumes "send_under E lease source q p w = (x, w')" "sourceSequence source = Some q"
    and "(\<exists>r. x = Inr (Late_receipt r)) \<or> x = Inr Already_recorded"
  shows "late_settled E source \<or> (\<exists>receipt. lp_receipt p = Some receipt)"
proof (cases "lp_receipt p")
  case None
  obtain y s' where r: "send_report E lease source q \<lparr>lr_world = w, lr_working = p, lr_ids = []\<rparr> = (y, s')" by force
  have "(\<exists>b. y = Inr b) \<or> (\<exists>e. y = Inl e \<and> proven_duplicate e)"
  proof (cases y)
    case (Inl e)
    then have "late_failed E source e (lr_world s') = (x, w')" using assms(1) None r by (simp add: send_under_def)
    then have "\<exists>i. classifyLiveWriteFailure (now_of E (lr_world s')) e = Duplicate i"
      using assms(3) by (auto simp: late_failed_def split: live_write_failure.splits elim!: and_then_cases)
    then show ?thesis using Inl classify_duplicate_iff by blast
  qed simp
  then show ?thesis using send_report_settled[OF r assms(2)] by blast
qed simp

lemma progress_on_file:
  assumes "late_progress_of E source a q w = (Inr p, w')" "lp_receipt p = Some r"
  shows "db_get lp_sourceId (sourceId source) (w_late (await E w)) = Some p"
  using assms
  by (auto simp: late_progress_of_def getLateProgress_def transact_late_def[of E "\<lambda>db. (db_get lp_sourceId i db, db)" for i] Let_def
      elim!: and_then_cases split: option.splits prod.splits)

text \<open>Property C33. A retained capture stays on the phone until the server answered for it: after any run of sending
  it as late evidence the queued capture is still queued with its content, capturer and period, and the incident
  report still stored with its content - unless the server accepted the late evidence report of that
  stored capture, or answered one of its requests with the code that says it was recorded before, or a receipt of
  an earlier run was on file for it. This holds whatever the network, the session and both databases did, as
  long as no other task removes the capture.\<close>
theorem late_capture_kept_until_answered:
  assumes "sendLateEvidence E listed w = (x, w')"
    and "undisturbed E (late_kept listed)" "late_kept listed (w_ls w) (w_db w)"
  shows "late_kept listed (w_ls w') (w_db w')
    \<or> (\<exists>a q source. offered E w listed a q source \<and> late_settled E source)
    \<or> (\<exists>p receipt. lp_receipt p = Some receipt
         \<and> db_get lp_sourceId (sourceId listed) (w_late (await E (snd (reloadLateEvidenceSource E listed w)))) = Some p)"
proof (cases "(\<exists>r. x = Inr (Late_receipt r)) \<or> x = Inr Already_recorded")
  case True
  from assms(1) show ?thesis
  proof (cases rule: sendLateEvidence_cases)
    case (stopped y)
    then have "guarded E (late_kept listed) w w'" using reload_guarded[of E "late_kept listed" w listed] by simp
    then show ?thesis using assms by (simp add: guarded_def keeps_def)
  next
    case (unsaved source a q w1 e)
    then have "guarded E (late_kept listed) w w'"
      using reload_guarded[of E "late_kept listed" w listed]
        guarded_writes.progress_rel[where E = E and Q = "late_kept listed" and w = w1 and source = source and a = a and q = q]
      by (auto intro: guarded.rel_trans)
    then show ?thesis using assms by (simp add: guarded_def keeps_def)
  next
    case (sent lease source p w1 w2 q)
    have "currentActorId (w_custody w1) = Some (lease_actorId lease)"
      using sent(2) by (simp add: isActorLeaseCurrent_def currentActorId_def)
    then have "offered E w listed (lease_actorId lease) q source" using reload_offered[OF sent(3,4)] sent(5) by blast
    moreover have "db_get lp_sourceId (sourceId listed) (w_late (await E w1)) = Some p" if "lp_receipt p = Some r" for r
      using progress_on_file[OF sent(6) that] reload_same[OF sent(3)] by simp
    ultimately show ?thesis using send_under_settled[OF sent(7,5) True] sent(3) by fastforce
  qed
next
  case False
  then show ?thesis using unanswered_capture_kept[OF assms(1)] assms(2,3) by (simp add: guarded_def keeps_def)
qed

section \<open>A refused location batch\<close>

definition late_demo :: sendable_entry where
  "late_demo = \<lparr>se_id = ''e'', se_tripId = ''T'', se_actorId = Val ''A'', se_custodySequence = Val 1, se_status = Some Needs_attention,
     se_attention = Val (refusal_mark ''now'' [] 409), se_enqueuedAt = ''t'', se_body = Location_capture []\<rparr>"

definition unreachable :: env where
  "unreachable = quiet\<lparr>env_fetch := (\<lambda>_ _. Timed_out)\<rparr>"

lemmas late_defs = sendLateEvidence_def reloadLateEvidenceSource_def late_demo_def lateEvidenceBlocker_def sourceLateEligible_def
  refusal_mark_def late_progress_of_def getLateProgress_def saveLateProgress_def transact_late_def db_get_def randomUUID_def
  send_under_def send_report_def buildReport_def assert_lease_def assertActorLease_def on_world_def submitLateEvidence_def
  captureActorLease_def isActorLeaseCurrent_def Let_def

lemma late_demo_run:
  "fst (sendLateEvidence unreachable (Queue_source late_demo) (demo_world [Sendable late_demo])) = Inr Late_transient
   \<and> w_wire (snd (sendLateEvidence unreachable (Queue_source late_demo) (demo_world [Sendable late_demo]))) \<noteq> []"
  by (simp add: late_defs unreachable_def api_post_def request_defs emit_def demo_world_def phone_storage_def loadQueue_def initialModule_def actorGeneration_def currentActorId_def late_failed_def plainApiError_def)


text \<open>Nothing answers and nothing is on file, so the refused batch is still there.\<close>

lemma late_capture_kept_until_answered_witness:
  "holds_capture late_demo (loadQueue (w_ls (snd (sendLateEvidence unreachable (Queue_source late_demo) (demo_world [Sendable late_demo])))))"
proof -
  let ?w = "demo_world [Sendable late_demo]"
  obtain x w' where run: "sendLateEvidence unreachable (Queue_source late_demo) ?w = (x, w')" by force
  have none: "\<not> late_settled unreachable source" for source
    by (simp add: late_settled_def answers_def unreachable_def)
  have on_file: "w_late (await unreachable (snd (reloadLateEvidenceSource unreachable (Queue_source late_demo) ?w))) = []"
    by (simp add: reloadLateEvidenceSource_def unreachable_def demo_world_def)
  have "late_kept (Queue_source late_demo) (w_ls w') (w_db w')"
    using late_capture_kept_until_answered[OF run] none unfolding on_file
    by (auto simp: undisturbed_def unreachable_def late_kept_def holds_capture_def same_capture_def db_get_def)
  then show ?thesis by (simp add: run late_kept_def)
qed

end
