(* ===== verification/RetainedEvidence.thy ===== *)
theory RetainedEvidence
  imports LateEvidence RetainedDrafts
begin

text \<open>
  \<open>lib/offline/retained-evidence.ts\<close>: the one view of everything the phone keeps for the driver's decision -
  refused entries and reports, captures of unknown origin, retained drafts and the backup of an
  unreadable queue - with the actions on one item: try again, discard, export. Retained drafts are
  parsed texts, so the fields the view copies from one are JSON values, \<open>None\<close> where a field is
  \<open>undefined\<close>.
\<close>

section \<open>Items\<close>

type_synonym js_value = "json option"

datatype retained_ref =
  Ref_queue "string option"
| Ref_exception string
| Ref_draft js_value
| Ref_backup

record retained_item =
  ri_ref :: retained_ref
  ri_title :: string
  ri_tripId :: js_value
  ri_capturedAt :: js_value
  ri_reason :: js_value
  ri_quarantined :: js_value
  ri_canRetry :: bool
  ri_late :: "late_source option"

record retained_snapshot =
  rs_items :: "retained_item list"
  rs_heldForOtherAccounts :: nat
  rs_receipts :: "late_progress list"

definition QUARANTINE_REASON :: string where
  "QUARANTINE_REASON = ''Saved before this app recorded who captured it. It is kept on this phone and will not be sent.''"
definition UNREADABLE_REASON :: string where
  "UNREADABLE_REASON = ''Stored data this version of the app cannot read. It is kept so it can be exported.''"

text \<open>A text, or \<open>null\<close>.\<close>

abbreviation js_text :: "string \<Rightarrow> js_value" where
  "js_text s \<equiv> Some (JStr s)"

abbreviation js_nullable :: "string option \<Rightarrow> js_value" where
  "js_nullable s \<equiv> Some (json_actor s)"

fun queueTitle :: "queue_entry \<Rightarrow> string" where
  "queueTitle (Sendable e) = (case se_body e of
       Phase_capture c \<Rightarrow> PHASE_NAMES (pc_phaseType c) @ '' evidence''
     | Checkpoint_capture _ \<Rightarrow> ''Checkpoint''
     | Location_capture _ \<Rightarrow> ''Location report'')"
| "queueTitle (Legacy _) = ''Incident report''"
| "queueTitle _ = ''Unreadable saved item''"

fun queueCapturedAt :: "queue_entry \<Rightarrow> iso option" where
  "queueCapturedAt (Sendable e) = (case se_body e of
       Phase_capture c \<Rightarrow> Some (pc_driverCapturedAt c)
     | Checkpoint_capture evidence \<Rightarrow> Some (cp_capturedAt evidence)
     | Location_capture pings \<Rightarrow> Some (case pings of ping # _ \<Rightarrow> ping_recorded_at ping | [] \<Rightarrow> se_enqueuedAt e))"
| "queueCapturedAt (Legacy l) = Some (le_enqueuedAt l)"
| "queueCapturedAt _ = None"

text \<open>\<open>'tripId' in entry ? entry.tripId : null\<close>\<close>

fun queue_tripId :: "queue_entry \<Rightarrow> string option" where
  "queue_tripId (Sendable e) = Some (se_tripId e)"
| "queue_tripId (Malformed m) = mf_tripId m"
| "queue_tripId _ = None"

text \<open>Whether an entry is the \<open>unreadable\<close> kind.\<close>

fun is_unreadable :: "queue_entry \<Rightarrow> bool" where
  "is_unreadable (Unreadable _ _ _) = True"
| "is_unreadable (Malformed m) = (mf_kind m = Some ''unreadable'')"
| "is_unreadable _ = False"

definition attention_reason :: "retained_attention field \<Rightarrow> string \<Rightarrow> string" where
  "attention_reason attn fallback = (case coalesce attn of Some a \<Rightarrow> att_reason a | None \<Rightarrow> fallback)"

definition attention_canRetry :: "retained_attention field \<Rightarrow> bool" where
  "attention_canRetry attn = (case coalesce attn of Some a \<Rightarrow> \<not> isCustodyConflict a \<and> \<not> isPhaseOverridden a | None \<Rightarrow> False)"

definition lateFor :: "custody_module \<Rightarrow> late_source \<Rightarrow> late_source option" where
  "lateFor m source = (if lateEvidenceBlocker source m = None then Some source else None)"

definition draftItem :: "json \<Rightarrow> retained_item" where
  "draftItem draft = \<lparr>ri_ref = Ref_draft (prop_of ''id'' draft), ri_title = ''Unsubmitted phase draft'',
     ri_tripId = prop_of ''tripId'' draft, ri_capturedAt = prop_of ''retainedAt'' draft, ri_reason = prop_of ''reason'' draft,
     ri_quarantined = prop_of ''quarantined'' draft, ri_canRetry = False, ri_late = None\<rparr>"

definition envelopeItem :: "custody_module \<Rightarrow> exception_envelope \<Rightarrow> retained_item" where
  "envelopeItem m x = (let quarantined = (env_status x = Quarantined) in
     \<lparr>ri_ref = Ref_exception (env_clientReportId x), ri_title = ''Incident report'', ri_tripId = js_text (env_tripId x),
      ri_capturedAt = js_text (case reb_driver_captured_at (env_body x) of Some t \<Rightarrow> t | None \<Rightarrow> env_createdAt x),
      ri_reason = js_text (if quarantined then QUARANTINE_REASON else attention_reason (env_attention x)
        (case env_attentionReason x of Some r \<Rightarrow> r | None \<Rightarrow> ''The server did not accept this report.'')),
      ri_quarantined = Some (JBool quarantined),
      ri_canRetry = (\<not> quarantined \<and> attention_canRetry (env_attention x)),
      ri_late = (if quarantined then None else lateFor m (Exception_source x))\<rparr>)"

definition quarantinedItem :: "queue_entry \<Rightarrow> retained_item" where
  "quarantinedItem entry = \<lparr>ri_ref = Ref_queue (entry_id entry), ri_title = queueTitle entry,
     ri_tripId = js_nullable (queue_tripId entry), ri_capturedAt = js_nullable (queueCapturedAt entry),
     ri_reason = js_text (if is_unreadable entry then UNREADABLE_REASON else QUARANTINE_REASON),
     ri_quarantined = Some (JBool True), ri_canRetry = False, ri_late = None\<rparr>"

definition refusedItem :: "custody_module \<Rightarrow> sendable_entry \<Rightarrow> retained_item" where
  "refusedItem m e = \<lparr>ri_ref = Ref_queue (Some (se_id e)), ri_title = queueTitle (Sendable e), ri_tripId = js_text (se_tripId e),
     ri_capturedAt = js_nullable (queueCapturedAt (Sendable e)),
     ri_reason = js_text (attention_reason (se_attention e) ''The server did not accept this.''),
     ri_quarantined = Some (JBool False), ri_canRetry = attention_canRetry (se_attention e), ri_late = lateFor m (Queue_source e)\<rparr>"

definition backupItem :: retained_item where
  "backupItem = \<lparr>ri_ref = Ref_backup, ri_title = ''Unreadable saved queue'', ri_tripId = Some JNull, ri_capturedAt = Some JNull,
     ri_reason = js_text UNREADABLE_REASON, ri_quarantined = Some (JBool True), ri_canRetry = False, ri_late = None\<rparr>"

section \<open>The list\<close>

text \<open>What one turn of a loop of the list does: skip, count for another account, or push an item.\<close>

datatype listing = Skipped | Held | Listed retained_item

definition queue_listing :: "string option \<Rightarrow> custody_module \<Rightarrow> queue_entry \<Rightarrow> listing" where
  "queue_listing actorId m entry = (case entryStatus entry of
       Pending \<Rightarrow> Skipped
     | Quarantined \<Rightarrow> Listed (quarantinedItem entry)
     | Needs_attention \<Rightarrow> (case entry of
         Sendable e \<Rightarrow> if se_actorId e \<noteq> nullable actorId then Held else Listed (refusedItem m e)
       | _ \<Rightarrow> Skipped))"

definition envelope_listing :: "string option \<Rightarrow> custody_module \<Rightarrow> exception_envelope \<Rightarrow> listing" where
  "envelope_listing actorId m x =
     (if env_status x = Pending then Skipped
      else if env_status x = Needs_attention \<and> env_actorId x \<noteq> nullable actorId then Held
      else Listed (envelopeItem m x))"

definition draft_listing :: "string option \<Rightarrow> json \<Rightarrow> listing" where
  "draft_listing actorId draft =
     (if held_back actorId draft then Held
      else Listed (draftItem draft))"

fun listed_item :: "listing \<Rightarrow> retained_item option" where
  "listed_item (Listed i) = Some i"
| "listed_item _ = None"

definition backup_listing :: "local_storage \<Rightarrow> listing list" where
  "backup_listing ls = (if readUnreadableQueueBackup ls \<noteq> None then [Listed backupItem] else [])"

definition listLateProgress :: "env \<Rightarrow> world \<Rightarrow> (js_error + late_progress list) \<times> world" where
  "listLateProgress E = transact_late E (\<lambda>db. (db, db))"

definition read_reports :: "env \<Rightarrow> world \<Rightarrow> exception_envelope list \<times> world" where
  "read_reports E w = (case transact E (\<lambda>_ db. (listExceptionEnvelopes db, db)) w of
       (Inl _, w1) \<Rightarrow> ([], w1) | (Inr xs, w1) \<Rightarrow> (xs, w1))"

definition read_receipts :: "env \<Rightarrow> string option \<Rightarrow> world \<Rightarrow> late_progress list \<times> world" where
  "read_receipts E actorId w = (case listLateProgress E w of
       (Inl _, w1) \<Rightarrow> ([], w1)
     | (Inr ps, w1) \<Rightarrow> (filter (\<lambda>p. lp_receipt p \<noteq> None \<and> Some (lp_actorId p) = actorId) ps, w1))"

text \<open>
  \<open>ds\<close> is the drafts' storage at the moment it is read. No snapshot: listing them threw, or a text under a
  retained key is the JSON \<open>null\<close>, which has no properties.
\<close>

definition listRetainedEvidence :: "env \<Rightarrow> draft_storage \<Rightarrow> world \<Rightarrow> retained_snapshot option \<times> world" where
  "listRetainedEvidence E ds w =
     (let actorId = currentActorId (w_custody w);
          stored = map (queue_listing actorId (w_custody w)) (loadQueue (w_ls w)) @ backup_listing (w_ls w);
          (xs, w1) = read_reports E w
      in case listRetainedDrafts ds of
           None \<Rightarrow> (None, w1)
         | Some drafts \<Rightarrow> if JNull \<in> set drafts then (None, w1)
             else let (receipts, w2) = read_receipts E actorId w1;
                      turns = stored @ map (envelope_listing actorId (w_custody w1)) xs @ map (draft_listing actorId) drafts
                  in (Some \<lparr>rs_items = List.map_filter listed_item turns,
                            rs_heldForOtherAccounts = length (filter (\<lambda>t. t = Held) turns), rs_receipts = receipts\<rparr>, w2))"

section \<open>Actions on one item\<close>

definition transact_report :: "env \<Rightarrow> (iso \<Rightarrow> exception_db \<Rightarrow> exception_db) \<Rightarrow> world \<Rightarrow> (js_error + unit) \<times> world" where
  "transact_report E work w = (case transact E (\<lambda>now db. ((), work now db)) w of
       (Inl err, w1) \<Rightarrow> (Inl (OtherErr (failure_message err)), w1) | (Inr u, w1) \<Rightarrow> (Inr u, w1))"

definition retry_one :: "string option \<Rightarrow> queue_entry \<Rightarrow> queue_entry" where
  "retry_one i entry = (case entry of
       Sendable e \<Rightarrow> if Some (se_id e) = i \<and> se_status e = Some Needs_attention
                     then Sendable (e\<lparr>se_status := Some Pending, se_attention := Null\<rparr>) else entry
     | _ \<Rightarrow> entry)"

definition retryRetainedItem :: "env \<Rightarrow> retained_ref \<Rightarrow> world \<Rightarrow> (js_error + unit) \<times> world" where
  "retryRetainedItem E ref w = (case ref of
       Ref_exception i \<Rightarrow> transact_report E (\<lambda>now. resetExceptionToPending now i) w
     | Ref_queue i \<Rightarrow> (Inr (), snd (ls_update E (map (retry_one i)) w))
     | _ \<Rightarrow> (Inr (), w))"

text \<open>How a template literal writes an id that is no text.\<close>

definition id_text :: "env \<Rightarrow> js_value \<Rightarrow> string" where
  "id_text E v = (case v of None \<Rightarrow> ''undefined'' | Some JNull \<Rightarrow> ''null'' | Some (JStr s) \<Rightarrow> s | Some j \<Rightarrow> env_show E j)"

definition discardRetainedItem :: "env \<Rightarrow> retained_ref \<Rightarrow> draft_storage \<Rightarrow> world \<Rightarrow> (js_error + unit) \<times> draft_storage \<times> world" where
  "discardRetainedItem E ref ds w = (case ref of
       Ref_queue i \<Rightarrow> (Inr (), ds, snd (ls_update E (filter (\<lambda>entry. entry_id entry \<noteq> i)) w))
     | Ref_exception i \<Rightarrow> (case transact_report E (\<lambda>_. removeExceptionEnvelope i) w of (r, w1) \<Rightarrow> (r, ds, w1))
     | Ref_draft i \<Rightarrow> (Inr (), discardRetainedDraft (id_text E i) ds, w)
     | Ref_backup \<Rightarrow> (Inr (), ds, w\<lparr>w_ls := clearUnreadableQueueBackup (w_ls w)\<rparr>))"

section \<open>Export\<close>

text \<open>A photo in an export: its own fields with the bytes as a data URL.\<close>

record exported_photo =
  xp_id :: string
  xp_capturedAt :: iso
  xp_uploadedArtifactId :: "string option"
  xp_dataUrl :: "string option"

datatype export_record =
  Export_entry queue_entry
| Export_backup queue_text
| Export_draft json
| Export_report exception_envelope "exported_photo list"
| Export_null

record export_file =
  xf_exportedAt :: iso
  xf_exportedWhileSignedInAs :: "string option"
  xf_record :: export_record

fun export_photos :: "env \<Rightarrow> exception_photo list \<Rightarrow> world \<Rightarrow> (js_error + exported_photo list) \<times> world" where
  "export_photos E [] w = (Inr [], w)"
| "export_photos E (photo # rest) w =
     (let entry = (\<lambda>url. \<lparr>xp_id = photo_id photo, xp_capturedAt = photo_capturedAt photo,
            xp_uploadedArtifactId = photo_uploadedArtifactId photo, xp_dataUrl = url\<rparr>) in
      and_then (case photo_blob photo of
          None \<Rightarrow> (Inr None, w)
        | Some blob \<Rightarrow> let w1 = await E w in
            (if env_readable E (w_tick w1) then Inr (Some (blobToDataUrl blob)) else Inl COULD_NOT_READ_BLOB, w1))
        (\<lambda>url w1. and_then (export_photos E rest w1) (\<lambda>photos w2. (Inr (entry url # photos), w2))))"

text \<open>\<open>===\<close> on parsed values: two objects are never the same.\<close>

definition same_value :: "js_value \<Rightarrow> js_value \<Rightarrow> bool" where
  "same_value u v \<longleftrightarrow> u = v \<and> (case u of Some (JArr _) \<Rightarrow> False | Some (JObj _) \<Rightarrow> False | _ \<Rightarrow> True)"

definition export_source :: "env \<Rightarrow> retained_ref \<Rightarrow> draft_storage \<Rightarrow> world \<Rightarrow> (js_error + export_record) \<times> world" where
  "export_source E ref ds w = (case ref of
       Ref_queue i \<Rightarrow> (Inr (case List.find (\<lambda>entry. entry_id entry = i) (loadQueue (w_ls w)) of
           Some entry \<Rightarrow> Export_entry entry | None \<Rightarrow> Export_null), w)
     | Ref_backup \<Rightarrow> (Inr (case readUnreadableQueueBackup (w_ls w) of Some t \<Rightarrow> Export_backup t | None \<Rightarrow> Export_null), w)
     | Ref_draft i \<Rightarrow> (case listRetainedDrafts ds of
           None \<Rightarrow> (Inl (TypeErr ''retainedAt''), w)
         | Some drafts \<Rightarrow> if JNull \<in> set (takeWhile (\<lambda>d. d = JNull \<or> \<not> same_value (prop_of ''id'' d) i) drafts) then (Inl (TypeErr ''id''), w)
             else (Inr (case List.find (\<lambda>d. same_value (prop_of ''id'' d) i) drafts of Some d \<Rightarrow> Export_draft d | None \<Rightarrow> Export_null), w))
     | Ref_exception i \<Rightarrow> (case transact E (\<lambda>_ db. (listExceptionEnvelopes db, db)) w of
           (Inl err, w1) \<Rightarrow> (Inl (OtherErr (failure_message err)), w1)
         | (Inr xs, w1) \<Rightarrow> (case List.find (\<lambda>x. env_clientReportId x = i) xs of
               None \<Rightarrow> (Inr Export_null, w1)
             | Some x \<Rightarrow> and_then (export_photos E (env_photos x) w1) (\<lambda>photos w2. (Inr (Export_report x photos), w2)))))"

definition exportRetainedItem :: "env \<Rightarrow> retained_ref \<Rightarrow> draft_storage \<Rightarrow> world \<Rightarrow> (js_error + export_file) \<times> world" where
  "exportRetainedItem E ref ds w = and_then (export_source E ref ds w) (\<lambda>found w1.
     (Inr \<lparr>xf_exportedAt = now_of E w1, xf_exportedWhileSignedInAs = currentActorId (w_custody w1), xf_record = found\<rparr>, w1))"


section \<open>What the list accounts for\<close>

lemma listings_add_up:
  "length (List.map_filter listed_item ts) + length (filter (\<lambda>t. t = Held) ts) = length (filter (\<lambda>t. t \<noteq> Skipped) ts)"
proof (induction ts)
  case (Cons t ts)
  then show ?case by (cases t) (simp_all add: map_filter_simps)
qed (simp add: map_filter_simps)

lemma Listed_in_items: "i \<in> set (List.map_filter listed_item ts) \<longleftrightarrow> Listed i \<in> set ts"
proof (induction ts)
  case (Cons t ts)
  then show ?case by (cases t) (auto simp: map_filter_simps)
qed (simp add: map_filter_simps)

lemma queue_listing_skips: "queue_listing a m e = Skipped \<longleftrightarrow> entryStatus e = Pending"
proof (cases e)
  case (Malformed x)
  then show ?thesis by (simp add: queue_listing_def split: option.split)
qed (auto simp: queue_listing_def split: queue_item_status.split option.split)

lemma envelope_listing_skips: "envelope_listing a m x = Skipped \<longleftrightarrow> env_status x = Pending"
  by (simp add: envelope_listing_def)

lemma draft_listing_skips: "draft_listing a d \<noteq> Skipped"
  by (simp add: draft_listing_def held_back_def)

text \<open>What a finished listing read, in one list of turns.\<close>

definition review_turns :: "string option \<Rightarrow> world \<Rightarrow> world \<Rightarrow> exception_envelope list \<Rightarrow> json list \<Rightarrow> listing list" where
  "review_turns actorId w w1 xs drafts = map (queue_listing actorId (w_custody w)) (loadQueue (w_ls w)) @ backup_listing (w_ls w)
     @ map (envelope_listing actorId (w_custody w1)) xs @ map (draft_listing actorId) drafts"

lemma listed_by_turns:
  assumes "listRetainedEvidence E ds w = (Some snap, w')" "read_reports E w = (xs, w1)" "listRetainedDrafts ds = Some drafts"
  shows "rs_items snap = List.map_filter listed_item (review_turns (currentActorId (w_custody w)) w w1 xs drafts)"
    "rs_heldForOtherAccounts snap = length (filter (\<lambda>t. t = Held) (review_turns (currentActorId (w_custody w)) w w1 xs drafts))"
proof -
  obtain receipts w2 where r: "read_receipts E (currentActorId (w_custody w)) w1 = (receipts, w2)" by force
  have "listRetainedEvidence E ds w = (if JNull \<in> set drafts then (None, w1)
      else (Some \<lparr>rs_items = List.map_filter listed_item (review_turns (currentActorId (w_custody w)) w w1 xs drafts),
              rs_heldForOtherAccounts = length (filter (\<lambda>t. t = Held) (review_turns (currentActorId (w_custody w)) w w1 xs drafts)),
              rs_receipts = receipts\<rparr>, w2))"
    by (simp only: listRetainedEvidence_def assms(2,3) r Let_def prod.case option.case review_turns_def append_assoc)
  then show "rs_items snap = List.map_filter listed_item (review_turns (currentActorId (w_custody w)) w w1 xs drafts)"
    "rs_heldForOtherAccounts snap = length (filter (\<lambda>t. t = Held) (review_turns (currentActorId (w_custody w)) w w1 xs drafts))"
    using assms(1) by (simp_all split: if_splits)
qed

lemma review_turns_cases:
  assumes "Listed i \<in> set (review_turns a w w1 xs drafts)"
  obtains e where "e \<in> set (loadQueue (w_ls w))" "queue_listing a (w_custody w) e = Listed i"
  | "i = backupItem" | x where "x \<in> set xs" "envelope_listing a (w_custody w1) x = Listed i"
  | d where "d \<in> set drafts" "draft_listing a d = Listed i"
  using assms by (auto simp: review_turns_def backup_listing_def split: if_splits dest: sym)

text \<open>The review screen accounts for everything the phone keeps for a decision: the items it
  shows and the number it reports as kept for other drivers add up to the queue entries that are not waiting to
  be sent, the backup of an unreadable queue, the reports that are not waiting to be sent and the retained drafts.
  Nothing kept is left out and nothing is counted twice.\<close>
theorem review_accounts_for_everything:
  assumes "listRetainedEvidence E ds w = (Some snap, w')" "read_reports E w = (xs, w1)" "listRetainedDrafts ds = Some drafts"
  shows "length (rs_items snap) + rs_heldForOtherAccounts snap =
    length (filter (\<lambda>e. entryStatus e \<noteq> Pending) (loadQueue (w_ls w))) + (if readUnreadableQueueBackup (w_ls w) = None then 0 else 1)
    + length (filter (\<lambda>x. env_status x \<noteq> Pending) xs) + length drafts"
proof -
  have "length (filter (\<lambda>t. t \<noteq> Skipped) (backup_listing (w_ls w))) = (if readUnreadableQueueBackup (w_ls w) = None then 0 else 1)"
    by (simp add: backup_listing_def)
  then show ?thesis
    unfolding listed_by_turns[OF assms] listings_add_up
    by (simp add: review_turns_def filter_map o_def queue_listing_skips envelope_listing_skips draft_listing_skips)
qed

text \<open>What each item is, and whose.\<close>

definition shows_own :: "string option \<Rightarrow> queue_entry list \<Rightarrow> exception_envelope list \<Rightarrow> json list \<Rightarrow> retained_item \<Rightarrow> bool" where
  "shows_own actorId es xs drafts i = (case ri_ref i of
       Ref_queue q \<Rightarrow> (\<exists>e. Sendable e \<in> set es \<and> q = Some (se_id e) \<and> se_actorId e = nullable actorId)
     | Ref_exception r \<Rightarrow> (\<exists>x\<in>set xs. env_clientReportId x = r \<and> env_actorId x = nullable actorId)
     | Ref_draft d \<Rightarrow> (\<exists>j\<in>set drafts. prop_of ''id'' j = d \<and> prop_of ''actorId'' j = js_nullable actorId)
     | Ref_backup \<Rightarrow> False)"

lemma lateFor_own: "lateFor m s = Some t \<Longrightarrow> t = s \<and> (\<exists>a. sourceActor s = Some a)"
  by (cases "sourceActor s") (auto simp: lateFor_def lateEvidenceBlocker_def split: if_splits)

lemma queue_item_own:
  assumes "queue_listing a m e = Listed i" "e \<in> set es"
  shows "(truthy_value (ri_quarantined i) \<and> \<not> ri_canRetry i \<and> ri_late i = None) \<or> shows_own a es xs ds i"
    and "ri_late i = Some t \<Longrightarrow> sourceActor t = a \<and> a \<noteq> None"
proof -
  from assms(1) consider "i = quarantinedItem e" | x where "e = Sendable x" "se_actorId x = nullable a" "i = refusedItem m x"
    by (auto simp: queue_listing_def split: queue_item_status.splits queue_entry.splits if_splits)
  note cases = this
  show "(truthy_value (ri_quarantined i) \<and> \<not> ri_canRetry i \<and> ri_late i = None) \<or> shows_own a es xs ds i"
    using assms(2) by (cases rule: cases) (auto simp: quarantinedItem_def truthy_value_def refusedItem_def shows_own_def)
  show "ri_late i = Some t \<Longrightarrow> sourceActor t = a \<and> a \<noteq> None"
    by (cases rule: cases) (auto simp: quarantinedItem_def refusedItem_def dest!: lateFor_own)
qed

lemma envelope_item_own:
  assumes "envelope_listing a m x = Listed i" "x \<in> set xs"
  shows "(truthy_value (ri_quarantined i) \<and> \<not> ri_canRetry i \<and> ri_late i = None) \<or> shows_own a es xs ds i"
    and "ri_late i = Some t \<Longrightarrow> sourceActor t = a \<and> a \<noteq> None"
proof -
  have i: "i = envelopeItem m x" and "env_status x = Quarantined \<or> env_actorId x = nullable a"
    using assms(1) by (cases "env_status x"; auto simp: envelope_listing_def split: if_splits)+
  then consider "env_status x = Quarantined" | "env_status x \<noteq> Quarantined" "env_actorId x = nullable a" by blast
  note cases = this
  show "(truthy_value (ri_quarantined i) \<and> \<not> ri_canRetry i \<and> ri_late i = None) \<or> shows_own a es xs ds i"
    using assms(2) by (cases rule: cases) (auto simp: i envelopeItem_def truthy_value_def shows_own_def)
  show "ri_late i = Some t \<Longrightarrow> sourceActor t = a \<and> a \<noteq> None"
    by (cases rule: cases) (auto simp: i envelopeItem_def dest!: lateFor_own)
qed

lemma draft_item_own:
  assumes "draft_listing a d = Listed i" "d \<in> set ds"
  shows "(truthy_value (ri_quarantined i) \<and> \<not> ri_canRetry i \<and> ri_late i = None) \<or> shows_own a es xs ds i"
    and "ri_late i = None"
  using assms by (auto simp: draft_listing_def held_back_def draftItem_def shows_own_def split: if_splits)

text \<open>Nobody is shown another driver's captures as theirs: every item of the review screen is
  either marked as of unknown capturer, and then can neither be tried again nor sent as late evidence, or is
  stored on this phone as captured by the account that was signed in when the screen opened; and late
  evidence is only offered for a capture of that account.\<close>
theorem review_shows_only_own:
  assumes "listRetainedEvidence E ds w = (Some snap, w')" "read_reports E w = (xs, w1)" "listRetainedDrafts ds = Some drafts"
    and "i \<in> set (rs_items snap)"
  shows "(truthy_value (ri_quarantined i) \<and> \<not> ri_canRetry i \<and> ri_late i = None
      \<or> shows_own (currentActorId (w_custody w)) (loadQueue (w_ls w)) xs drafts i)
    \<and> (\<forall>t. ri_late i = Some t \<longrightarrow> sourceActor t = currentActorId (w_custody w) \<and> currentActorId (w_custody w) \<noteq> None)"
proof -
  let ?a = "currentActorId (w_custody w)"
  have "Listed i \<in> set (review_turns ?a w w1 xs drafts)"
    using assms(4) unfolding listed_by_turns[OF assms(1-3)] by (simp add: Listed_in_items)
  then show ?thesis
  proof (cases rule: review_turns_cases)
    case (1 e)
    then show ?thesis using queue_item_own[of ?a "w_custody w" e i] by blast
  next
    case 2
    then show ?thesis by (simp add: backupItem_def truthy_value_def)
  next
    case (3 x)
    then show ?thesis using envelope_item_own[of ?a "w_custody w1" x i] by blast
  next
    case (4 d)
    then show ?thesis using draft_item_own[of ?a d i] by auto
  qed
qed

section \<open>What an action touches\<close>

definition holds_entry :: "queue_entry \<Rightarrow> local_storage \<Rightarrow> exception_db \<Rightarrow> bool" where
  "holds_entry e ls db \<longleftrightarrow> migrated ls \<and> e \<in> set (loadQueue ls)"

definition holds_report :: "exception_envelope \<Rightarrow> local_storage \<Rightarrow> exception_db \<Rightarrow> bool" where
  "holds_report x ls db \<longleftrightarrow> store_ok db \<and> getExceptionEnvelope (env_clientReportId x) db = Some x"

lemma ls_update_migrated:
  assumes "migrated (w_ls w)"
  shows "migrated (w_ls (snd (ls_update E f w)))"
    "loadQueue (w_ls (snd (ls_update E f w))) \<in> {f (loadQueue (w_ls w)), loadQueue (w_ls w)}"
  using migrated_saveE[OF assms] by (auto simp: ls_update_def ls_save_def split: prod.split)

lemma ls_update_db [simp]: "w_db (snd (ls_update E f w)) = w_db w"
  by (simp add: ls_update_def ls_save_def split: prod.split)

text \<open>The locale of what an item's own action must leave alone: an entry or a report of another id.\<close>

lemma report_work_guarded:
  assumes "\<And>now ls db. Q ls db \<Longrightarrow> Q ls (work now db)" "undisturbed E Q" "Q (w_ls w) (w_db w)"
  shows "Q (w_ls (snd (transact_report E work w))) (w_db (snd (transact_report E work w)))"
proof -
  have "guarded E Q w (snd (transact E (\<lambda>now db. ((), work now db)) w))"
    using assms(1) by (intro transact_guarded) simp
  moreover have "snd (transact_report E work w) = snd (transact E (\<lambda>now db. ((), work now db)) w)"
    by (simp add: transact_report_def split: prod.split sum.split)
  ultimately show ?thesis using assms(2,3) by (simp add: guarded_def keeps_def)
qed

lemma backup_cleared [simp]:
  "migrated (clearUnreadableQueueBackup ls) = migrated ls" "loadQueue (clearUnreadableQueueBackup ls) = loadQueue ls"
  by (simp_all add: clearUnreadableQueueBackup_def migrated_def loadQueue_def)

lemma retry_one_other: "entry_id e \<noteq> i \<Longrightarrow> retry_one i e = e"
  by (cases e) (simp_all add: retry_one_def)

lemma retry_one_keeps: "entry_id e \<noteq> i \<Longrightarrow> e \<in> set es \<Longrightarrow> e \<in> set (map (retry_one i) es)"
  using retry_one_other[of e i] by (metis image_eqI list.set_map)

lemma entry_after_update:
  "holds_entry e (w_ls w) (w_db w) \<Longrightarrow> (\<And>es. e \<in> set es \<Longrightarrow> e \<in> set (f es))
    \<Longrightarrow> holds_entry e (w_ls (snd (ls_update E f w))) db"
  using ls_update_migrated[of w E f] by (auto simp: holds_entry_def)

lemma report_updates:
  assumes "holds_report x ls db" "env_clientReportId x \<noteq> i"
  shows "holds_report x ls (resetExceptionToPending now i db)" "holds_report x ls (removeExceptionEnvelope i db)"
  using assms by (simp_all add: holds_report_def get_reset get_remove)

lemma entry_ignores_reports: "holds_entry e ls db \<Longrightarrow> holds_entry e ls db'"
  by (simp add: holds_entry_def)

lemma retry_keeps_entry:
  assumes "undisturbed E (holds_entry e)" "holds_entry e (w_ls w) (w_db w)" "ref \<noteq> Ref_queue (entry_id e)"
  shows "holds_entry e (w_ls (snd (retryRetainedItem E ref w))) (w_db (snd (retryRetainedItem E ref w)))"
proof (cases ref)
  case (Ref_queue i)
  then show ?thesis
    using assms(2,3) by (auto simp: retryRetainedItem_def intro!: entry_after_update retry_one_keeps)
next
  case (Ref_exception i)
  show ?thesis using report_work_guarded[OF entry_ignores_reports assms(1,2)] by (simp add: retryRetainedItem_def Ref_exception)
qed (use assms(2) in \<open>simp_all add: retryRetainedItem_def\<close>)

lemma retry_keeps_report:
  assumes "undisturbed E (holds_report x)" "holds_report x (w_ls w) (w_db w)" "ref \<noteq> Ref_exception (env_clientReportId x)"
  shows "holds_report x (w_ls (snd (retryRetainedItem E ref w))) (w_db (snd (retryRetainedItem E ref w)))"
proof (cases ref)
  case (Ref_exception i)
  then have "env_clientReportId x \<noteq> i" using assms(3) by simp
  from report_work_guarded[OF report_updates(1)[OF _ this] assms(1,2)]
  show ?thesis by (simp add: retryRetainedItem_def Ref_exception)
qed (use assms(2) in \<open>simp_all add: retryRetainedItem_def holds_report_def\<close>)

abbreviation discard_world :: "env \<Rightarrow> retained_ref \<Rightarrow> draft_storage \<Rightarrow> world \<Rightarrow> world" where
  "discard_world E ref ds w \<equiv> snd (snd (discardRetainedItem E ref ds w))"

lemma discard_report_world: "discard_world E (Ref_exception i) ds w = snd (transact_report E (\<lambda>_. removeExceptionEnvelope i) w)"
  by (simp add: discardRetainedItem_def split: prod.split)

lemma discard_keeps_entry:
  assumes "undisturbed E (holds_entry e)" "holds_entry e (w_ls w) (w_db w)" "ref \<noteq> Ref_queue (entry_id e)"
  shows "holds_entry e (w_ls (discard_world E ref ds w)) (w_db (discard_world E ref ds w))"
proof (cases ref)
  case (Ref_queue i)
  then show ?thesis
    using assms(2,3) by (auto simp: discardRetainedItem_def intro!: entry_after_update)
next
  case (Ref_exception i)
  show ?thesis unfolding Ref_exception discard_report_world
    by (rule report_work_guarded[OF entry_ignores_reports assms(1,2)])
qed (use assms(2) in \<open>simp_all add: discardRetainedItem_def holds_entry_def\<close>)

lemma discard_keeps_report:
  assumes "undisturbed E (holds_report x)" "holds_report x (w_ls w) (w_db w)" "ref \<noteq> Ref_exception (env_clientReportId x)"
  shows "holds_report x (w_ls (discard_world E ref ds w)) (w_db (discard_world E ref ds w))"
proof (cases ref)
  case (Ref_exception i)
  then have "env_clientReportId x \<noteq> i" using assms(3) by simp
  from report_work_guarded[OF report_updates(2)[OF _ this] assms(1,2)]
  show ?thesis unfolding Ref_exception discard_report_world .
qed (use assms(2) in \<open>simp_all add: discardRetainedItem_def holds_report_def\<close>)

lemma discard_drafts:
  "getItem k (fst (snd (discardRetainedItem E ref ds w))) = getItem k ds \<or> (\<exists>i. ref = Ref_draft i \<and> k = retainedKey (id_text E i))"
  by (cases ref) (simp_all add: discardRetainedItem_def discardRetainedDraft_def split: prod.split)

text \<open>An action on the review screen touches only the item it was taken on: trying an item again, and
  discarding one, leave every other stored entry and every other stored report exactly as it was, and no stored draft
  text changes except the retained copy that was discarded. Other tasks of the phone may run in between, as
  long as none of them removes that other capture.\<close>
theorem review_action_touches_only_its_item:
  assumes "undisturbed E Q" "Q (w_ls w) (w_db w)"
    and "Q = holds_entry e \<and> ref \<noteq> Ref_queue (entry_id e) \<or> Q = holds_report x \<and> ref \<noteq> Ref_exception (env_clientReportId x)"
  shows "(case retryRetainedItem E ref w of (_, w') \<Rightarrow> Q (w_ls w') (w_db w'))
    \<and> (case discardRetainedItem E ref ds w of (_, ds', w') \<Rightarrow> Q (w_ls w') (w_db w')
        \<and> (\<forall>k. getItem k ds' = getItem k ds \<or> (\<exists>i. ref = Ref_draft i \<and> k = retainedKey (id_text E i))))"
proof -
  have "Q (w_ls (snd (retryRetainedItem E ref w))) (w_db (snd (retryRetainedItem E ref w)))
      \<and> Q (w_ls (discard_world E ref ds w)) (w_db (discard_world E ref ds w))"
    using assms(3)
  proof (elim disjE conjE)
    assume q: "Q = holds_entry e" and r: "ref \<noteq> Ref_queue (entry_id e)"
    show ?thesis
      using retry_keeps_entry[OF _ _ r] discard_keeps_entry[OF _ _ r] assms(1,2) unfolding q by blast
  next
    assume q: "Q = holds_report x" and r: "ref \<noteq> Ref_exception (env_clientReportId x)"
    show ?thesis
      using retry_keeps_report[OF _ _ r] discard_keeps_report[OF _ _ r] assms(1,2) unfolding q by blast
  qed
  moreover note discard_drafts[of _ E ref ds w]
  ultimately show ?thesis by (simp add: case_prod_unfold)
qed

section \<open>What is offered\<close>

text \<open>What the server refused on a live send leaves the driver at most one way to send it: it is offered
  for another try or as late evidence, never both. Once the late evidence route has refused it too, both are
  offered: the new refusal replaces the code that said custody had moved on, so the capture can be put back among
  those that are sent live.\<close>
theorem one_way_out_until_late_refusal:
  "(classifyLiveWriteFailure now err = Retain a \<longrightarrow> \<not> (attention_canRetry (Val a) \<and> att_lateEligible a))
   \<and> attention_canRetry (Val (refusal_mark now reason status)) \<and> att_lateEligible (refusal_mark now reason status)"
proof (intro conjI impI)
  assume "classifyLiveWriteFailure now err = Retain a"
  then show "\<not> (attention_canRetry (Val a) \<and> att_lateEligible a)"
    using classify_retain_attention[of now err a]
    by (auto simp: attention_canRetry_def retainedAttention_def LATE_ELIGIBLE_def isCustodyConflict_def split: option.splits)
qed (simp_all add: attention_canRetry_def refusal_mark_def retainedAttention_def isCustodyConflict_def isPhaseOverridden_def)

section \<open>What is exported\<close>

text \<open>An exported photo tells of a stored one: its id and upload, and its bytes when they are still on the phone.\<close>

definition exports_photo :: "exception_photo \<Rightarrow> exported_photo \<Rightarrow> bool" where
  "exports_photo p x \<longleftrightarrow> xp_id x = photo_id p \<and> xp_capturedAt x = photo_capturedAt p \<and> xp_uploadedArtifactId x = photo_uploadedArtifactId p
     \<and> (case photo_blob p of None \<Rightarrow> xp_dataUrl x = None | Some b \<Rightarrow> xp_dataUrl x = Some (blobToDataUrl b))"

lemma export_photos_all: "export_photos E photos w = (Inr xs, w') \<Longrightarrow> list_all2 exports_photo photos xs"
proof (induction photos arbitrary: w xs w')
  case (Cons p photos)
  from Cons.prems have "\<exists>x rest w1. xs = x # rest \<and> export_photos E photos w1 = (Inr rest, w') \<and> exports_photo p x"
    by (cases "photo_blob p") (auto simp: Let_def exports_photo_def split: if_splits elim!: and_then_cases)
  then show ?case using Cons.IH by blast
qed simp

text \<open>A type as a camera or a PDF writer gives it.\<close>

definition plain_type :: "blob \<Rightarrow> bool" where
  "plain_type b \<longleftrightarrow> blob_type b \<noteq> [] \<and> map ascii_lower (blob_type b) = blob_type b \<and> CHR '','' \<notin> set (blob_type b)
     \<and> \<not> sublist BASE64_MARKER (blob_type b)"

text \<open>Property C35. An exported incident report is the stored report, whole: it is the stored one of that id, with every
  photo in order, each with its own id, and decoding the data URL of a photo gives back exactly the bytes and type
  that are stored. The export names the account that was signed in, not a capturer.\<close>
theorem exported_report_is_whole:
  assumes "exportRetainedItem E (Ref_exception i) ds w = (Inr f, w')" "xf_record f = Export_report x photos"
  shows "env_clientReportId x = i \<and> x \<in> set (fst (read_reports E w)) \<and> map xp_id photos = map photo_id (env_photos x)
    \<and> (\<forall>n < length photos. \<forall>b. photo_blob (env_photos x ! n) = Some b \<longrightarrow> plain_type b \<longrightarrow>
         (\<exists>url. xp_dataUrl (photos ! n) = Some url \<and> dataUrlToBlob url = Inr b))
    \<and> xf_exportedWhileSignedInAs f = currentActorId (w_custody w')"
proof -
  obtain found w1 where src: "export_source E (Ref_exception i) ds w = (Inr found, w1)" and f: "xf_record f = found"
      "xf_exportedWhileSignedInAs f = currentActorId (w_custody w1)" "w' = w1"
    using assms(1) by (auto simp: exportRetainedItem_def elim!: and_then_cases)
  obtain xs w2 where t: "transact E (\<lambda>_ db. (listExceptionEnvelopes db, db)) w = (Inr xs, w2)"
      and x: "List.find (\<lambda>x. env_clientReportId x = i) xs = Some x" and ph: "export_photos E (env_photos x) w2 = (Inr photos, w1)"
    using src f(1) assms(2) by (auto simp: export_source_def split: prod.splits sum.splits option.splits elim!: and_then_cases)
  have all: "list_all2 exports_photo (env_photos x) photos" by (rule export_photos_all[OF ph])
  then have "map xp_id photos = map photo_id (env_photos x)"
    by (auto simp: list_eq_iff_nth_eq list_all2_conv_all_nth exports_photo_def)
  moreover have "\<exists>url. xp_dataUrl (photos ! n) = Some url \<and> dataUrlToBlob url = Inr b"
    if "n < length photos" "photo_blob (env_photos x ! n) = Some b" "plain_type b" for n b
    using list_all2_nthD2[OF all that(1)] that(2,3) blob_roundtrip[of b] by (auto simp: exports_photo_def plain_type_def)
  ultimately show ?thesis
    using find_in_set[OF x] t f by (auto simp: read_reports_def)
qed

section \<open>A phone with something kept\<close>

definition kept_entry :: "string \<Rightarrow> string \<Rightarrow> sendable_entry" where
  "kept_entry i actor = \<lparr>se_id = i, se_tripId = ''T'', se_actorId = Val actor, se_custodySequence = Val 1, se_status = Some Needs_attention,
     se_attention = Val (retainedAttention ''now'' (Some TRIP_HANDED_OVER) 409 []), se_enqueuedAt = ''now'', se_body = Location_capture []\<rparr>"

definition kept_phone :: world where
  "kept_phone = (demo_world [Sendable (kept_entry ''a'' ''A''), Sendable (kept_entry ''b'' ''B'')])"

definition no_drafts :: draft_storage where
  "no_drafts = \<lparr>ds_present = True, ds_readable = True, ds_items = [], ds_write = (\<lambda>_ _. Written), ds_uuids = 0\<rparr>"

lemma kept_phone_simps [simp]:
  "loadQueue (w_ls kept_phone) = [Sendable (kept_entry ''a'' ''A''), Sendable (kept_entry ''b'' ''B'')]"
  "currentActorId (w_custody kept_phone) = Some ''A''" "readUnreadableQueueBackup (w_ls kept_phone) = None"
  "migrated (w_ls kept_phone)" "w_db kept_phone = []" "listRetainedDrafts no_drafts = Some []" "w_late kept_phone = []"
  by (simp_all add: kept_phone_def demo_world_def phone_storage_def loadQueue_def currentActorId_def readUnreadableQueueBackup_def
      migrated_def QUEUE_VERSION_def listRetainedDrafts_def no_drafts_def map_filter_def)

lemma kept_reports: "read_reports quiet kept_phone = ([], kept_phone\<lparr>w_tick := 2\<rparr>)"
  by (simp add: read_reports_def transact_def listExceptionEnvelopes_def kept_phone_def demo_world_def)

definition kept_item :: retained_item where
  "kept_item = refusedItem (w_custody kept_phone) (kept_entry ''a'' ''A'')"

lemma kept_listing:
  "\<exists>w'. listRetainedEvidence quiet no_drafts kept_phone
    = (Some \<lparr>rs_items = [kept_item], rs_heldForOtherAccounts = 1, rs_receipts = []\<rparr>, w')"
  by (simp add: listRetainedEvidence_def kept_reports queue_listing_def backup_listing_def kept_entry_def kept_item_def
      map_filter_simps read_receipts_def listLateProgress_def transact_late_def)

lemma review_accounts_for_everything_witness:
  "\<exists>snap w'. listRetainedEvidence quiet no_drafts kept_phone = (Some snap, w')
    \<and> length (rs_items snap) + rs_heldForOtherAccounts snap = 2"
proof -
  obtain snap w' where r: "listRetainedEvidence quiet no_drafts kept_phone = (Some snap, w')" using kept_listing by blast
  from review_accounts_for_everything[OF r kept_reports] r show ?thesis by (simp add: kept_entry_def)
qed

lemma review_shows_only_own_witness:
  "\<exists>snap w' i. listRetainedEvidence quiet no_drafts kept_phone = (Some snap, w') \<and> i \<in> set (rs_items snap)
    \<and> shows_own (Some ''A'') (loadQueue (w_ls kept_phone)) [] [] i \<and> (\<exists>t. ri_late i = Some t \<and> sourceActor t = Some ''A'')"
proof -
  obtain w' where r: "listRetainedEvidence quiet no_drafts kept_phone
      = (Some \<lparr>rs_items = [kept_item], rs_heldForOtherAccounts = 1, rs_receipts = []\<rparr>, w')" using kept_listing by blast
  have i: "kept_item \<in> set (rs_items \<lparr>rs_items = [kept_item], rs_heldForOtherAccounts = 1, rs_receipts = []\<rparr>)" by simp
  have q: "\<not> truthy_value (ri_quarantined kept_item)" "ri_late kept_item = Some (Queue_source (kept_entry ''a'' ''A''))"
    by (simp_all add: kept_item_def refusedItem_def truthy_value_def lateFor_def lateEvidenceBlocker_def sourceLateEligible_def
        kept_entry_def retainedAttention_def LATE_ELIGIBLE_def)
  from review_shows_only_own[OF r kept_reports _ i, of "[]"] q r i show ?thesis by auto
qed

lemma review_action_touches_only_its_item_witness:
  "\<exists>w' ds'. discardRetainedItem quiet (Ref_queue (Some ''a'')) no_drafts kept_phone = (Inr (), ds', w')
    \<and> holds_entry (Sendable (kept_entry ''b'' ''B'')) (w_ls w') (w_db w') \<and> loadQueue (w_ls w') = [Sendable (kept_entry ''b'' ''B'')]"
proof -
  let ?Q = "holds_entry (Sendable (kept_entry ''b'' ''B''))"
  have "undisturbed quiet ?Q" by (simp add: undisturbed_def)
  moreover have "?Q (w_ls kept_phone) (w_db kept_phone)" by (simp add: holds_entry_def)
  ultimately have "case discardRetainedItem quiet (Ref_queue (Some ''a'')) no_drafts kept_phone of (_, ds', w') \<Rightarrow> ?Q (w_ls w') (w_db w')"
    using review_action_touches_only_its_item[of quiet ?Q kept_phone "Sendable (kept_entry ''b'' ''B'')" "Ref_queue (Some ''a'')" undefined no_drafts]
    by (auto simp: kept_entry_def)
  moreover have "loadQueue (w_ls (discard_world quiet (Ref_queue (Some ''a'')) no_drafts kept_phone)) = [Sendable (kept_entry ''b'' ''B'')]"
    by (simp add: discardRetainedItem_def ls_update_def ls_save_def migrated_save writeQueue_def split: prod.split)
      (simp add: kept_phone_def demo_world_def phone_storage_def loadQueue_def kept_entry_def)
  ultimately show ?thesis by (auto simp: discardRetainedItem_def)
qed

lemma one_way_out_until_late_refusal_witness:
  "\<exists>a. classifyLiveWriteFailure ''now'' (ApiErr \<lparr>ae_status = 403, ae_message = ''refused'', ae_retryAfterMs = None, ae_detail = None\<rparr>) = Retain a
    \<and> \<not> (attention_canRetry (Val a) \<and> att_lateEligible a)"
proof -
  let ?e = "ApiErr \<lparr>ae_status = 403, ae_message = ''refused'', ae_retryAfterMs = None, ae_detail = None\<rparr>"
  obtain a where "classifyLiveWriteFailure ''now'' ?e = Retain a" by (simp add: ae_code_def)
  with one_way_out_until_late_refusal[of "''now''" ?e a "[]" 0] show ?thesis by blast
qed

definition photo_report :: exception_envelope where
  "photo_report = (demo_report ''r'' (Val ''A'') None)\<lparr>env_photos := [\<lparr>photo_id = ''p'',
     photo_blob = Some \<lparr>blob_type = ''image/jpeg'', blob_bytes = [CHR 0xFF, CHR 0xD8]\<rparr>, photo_capturedAt = ''now'', photo_uploadedArtifactId = None\<rparr>]\<rparr>"

lemma exported_report_is_whole_witness:
  "\<exists>f w' x photos url. exportRetainedItem quiet (Ref_exception ''r'') no_drafts (kept_phone\<lparr>w_db := [photo_report]\<rparr>) = (Inr f, w')
    \<and> xf_record f = Export_report x photos \<and> xp_dataUrl (photos ! 0) = Some url
    \<and> dataUrlToBlob url = Inr \<lparr>blob_type = ''image/jpeg'', blob_bytes = [CHR 0xFF, CHR 0xD8]\<rparr>"
proof -
  let ?b = "\<lparr>blob_type = ''image/jpeg'', blob_bytes = [CHR 0xFF, CHR 0xD8]\<rparr>"
  obtain f w' photos where run: "exportRetainedItem quiet (Ref_exception ''r'') no_drafts (kept_phone\<lparr>w_db := [photo_report]\<rparr>) = (Inr f, w')"
      and f: "xf_record f = Export_report photo_report photos" and n: "length photos = 1"
    by (simp add: exportRetainedItem_def export_source_def transact_def listExceptionEnvelopes_def photo_report_def demo_report_def)
  have b: "photo_blob (env_photos photo_report ! 0) = Some ?b" by (simp add: photo_report_def)
  have "plain_type ?b" unfolding plain_type_def
    by (intro conjI; code_simp)
  with exported_report_is_whole[OF run f] n b obtain url where "xp_dataUrl (photos ! 0) = Some url" "dataUrlToBlob url = Inr ?b" by auto
  with run f show ?thesis by blast
qed

end
