(* ===== verification/SubstitutionCapture.thy ===== *)
theory SubstitutionCapture
  imports LateEvidence
begin

text \<open>
  Sending a driver's check at a handover (\<open>lib/hooks/useSubstitutionCapture.ts\<close>, with the store of
  \<open>lib/offline/substitution-store.ts\<close> and the requests of \<open>lib/api/driver-substitutions.ts\<close>): photos first,
  each under its own request id; then the body, fixed once and stored before it is posted, so that
  every retry is the same request; and what each answer leaves on the phone. Then the screen: opening a
  check, editing a draft, the press that fixes and sends it, and the background retry.
\<close>

section \<open>The store of captures\<close>

text \<open>One transaction, which fails without effect or commits.\<close>

definition transact_captures :: "env \<Rightarrow> (iso \<Rightarrow> substitution_capture list \<Rightarrow> 'a \<times> substitution_capture list) \<Rightarrow> world
    \<Rightarrow> (js_error + 'a) \<times> world" where
  "transact_captures E work w = (let w1 = await E w in
     case env_lateDb E (w_tick w1) of
       Some m \<Rightarrow> (Inl (OtherErr m), await E w1)
     | None \<Rightarrow> let (r, db) = work (now_of E w1) (w_captures w1) in (Inr r, await E (w1\<lparr>w_captures := db\<rparr>)))"

definition getCapture :: "env \<Rightarrow> string \<Rightarrow> world \<Rightarrow> (js_error + substitution_capture option) \<times> world" where
  "getCapture E key = transact_captures E (\<lambda>_ db. (map_option read_capture (db_get cap_key key db), db))"

definition listCaptures :: "env \<Rightarrow> world \<Rightarrow> (js_error + substitution_capture list) \<times> world" where
  "listCaptures E = transact_captures E (\<lambda>_ db. (db, db))"

definition saveCapture :: "env \<Rightarrow> substitution_capture \<Rightarrow> world \<Rightarrow> (js_error + unit) \<times> world" where
  "saveCapture E c w = transact_captures E (\<lambda>_ db. ((), db_put cap_key (c\<lparr>cap_updatedAt := now_of E w\<rparr>) db)) w"

definition recordCapturePhotoUploaded :: "env \<Rightarrow> string \<Rightarrow> string \<Rightarrow> string \<Rightarrow> world \<Rightarrow> (js_error + unit) \<times> world" where
  "recordCapturePhotoUploaded E key photoId artifactId = transact_captures E (\<lambda>now db. ((), case db_get cap_key key db of
       None \<Rightarrow> db
     | Some current \<Rightarrow> db_put cap_key ((map_photos (with_artifact photoId artifactId) current)\<lparr>cap_updatedAt := now\<rparr>) db))"

section \<open>The requests\<close>

definition substitution_path :: "string \<Rightarrow> string \<Rightarrow> string \<Rightarrow> string" where
  "substitution_path tripId requestId rest = me_path tripId (''/driver-substitutions/'' @ requestId @ rest)"

definition uploadSubstitutionArtifact :: "env \<Rightarrow> string \<Rightarrow> string \<Rightarrow> substitution_role \<Rightarrow> artifact_upload \<Rightarrow> string \<Rightarrow> world
    \<Rightarrow> (js_error + string) \<times> world" where
  "uploadSubstitutionArtifact E tripId requestId role upload clientRequestId w = (let g = generation_of w in
     and_then (artifactFormData E g upload w) (\<lambda>form w1.
     and_then (assert_generation g w1) (\<lambda>_ w2.
     and_then (api_post E (substitution_path tripId requestId ''/artifacts'')
         (Form (form\<lparr>af_client_request_id := Some clientRequestId, af_role := Some role\<rparr>))
         (Some ARTIFACT_UPLOAD_TIMEOUT_MS) w2) (\<lambda>body w3. (artifact_id body, w3)))))"

definition confirmDriverSubstitution :: "env \<Rightarrow> string \<Rightarrow> string \<Rightarrow> confirmation_body \<Rightarrow> world
    \<Rightarrow> (js_error + json option) \<times> world" where
  "confirmDriverSubstitution E tripId requestId body w =
     api_post E (substitution_path tripId requestId ''/confirmations'') (Confirm_substitution body) None w"

section \<open>Sending\<close>

definition LOCK_PREFIX :: string where
  "LOCK_PREFIX = ''substitution:''"

datatype capture_send_outcome =
  Sub_saved "json option"
| Sub_waiting
| Sub_version_changed string
| Sub_not_pending string
| Sub_rejected string
| Sub_busy

definition VERSION_CHANGED_NOTE :: string where
  "VERSION_CHANGED_NOTE = ''Dispatch changed this arrangement after you started your check. Your check is kept. Review the details and confirm again.''"
definition NOT_PENDING_NOTE :: string where
  "NOT_PENDING_NOTE = ''This arrangement is no longer open (cancelled, replaced or already complete). Your check is kept on this phone and was not used.''"
definition KEY_REUSED_NOTE :: string where
  "KEY_REUSED_NOTE = ''The server already holds a different version of this check. Yours is kept. Review it and confirm again.''"
definition PHOTO_REFUSED_NOTE :: string where
  "PHOTO_REFUSED_NOTE = ''A photo was not accepted. Retake it and confirm again.''"
definition NOT_ACCEPTED_NOTE :: string where
  "NOT_ACCEPTED_NOTE = ''The server did not accept this check.''"

definition backToDraft :: "env \<Rightarrow> substitution_capture \<Rightarrow> string \<Rightarrow> world \<Rightarrow> (js_error + unit) \<times> world" where
  "backToDraft E capture note = saveCapture E (capture\<lparr>cap_status := Cap_draft, cap_submittedBody := None, cap_note := Some note\<rparr>)"

definition retain_capture :: "env \<Rightarrow> substitution_capture \<Rightarrow> world \<Rightarrow> (js_error + unit) \<times> world" where
  "retain_capture E capture = saveCapture E (capture\<lparr>cap_status := Cap_retained, cap_note := Some NOT_PENDING_NOTE\<rparr>)"

text \<open>Save, then report.\<close>

definition settle_as :: "capture_send_outcome \<Rightarrow> (js_error + unit) \<times> world \<Rightarrow> (js_error + capture_send_outcome) \<times> world" where
  "settle_as outcome r = and_then r (\<lambda>_ w. (Inr outcome, w))"

definition photo_refused :: "env \<Rightarrow> substitution_capture \<Rightarrow> js_error \<Rightarrow> world \<Rightarrow> (js_error + capture_send_outcome) \<times> world" where
  "photo_refused E working err w = (case classifyLiveWriteFailure (now_of E w) err of
       Transient _ \<Rightarrow> (Inr Sub_waiting, w)
     | Retain a \<Rightarrow> if att_code a = Some SUBSTITUTION_NOT_PENDING
         then settle_as (Sub_not_pending NOT_PENDING_NOTE) (retain_capture E working w)
         else settle_as (Sub_rejected PHOTO_REFUSED_NOTE) (backToDraft E working PHOTO_REFUSED_NOTE w)
     | Duplicate _ \<Rightarrow> settle_as (Sub_rejected PHOTO_REFUSED_NOTE) (backToDraft E working PHOTO_REFUSED_NOTE w))"

text \<open>The photos in the order of the loops, each with its place in the object the run works on.\<close>

definition photos_of :: "substitution_capture \<Rightarrow> (nat \<times> nat \<times> capture_photo) list" where
  "photos_of c = concat (map (\<lambda>(i, check). map (\<lambda>(j, photo). (i, j, photo)) (enumerate 0 (csc_photos check)))
     (enumerate 0 (cap_sealChecks c)))"

definition set_photo :: "nat \<Rightarrow> nat \<Rightarrow> capture_photo \<Rightarrow> substitution_capture \<Rightarrow> substitution_capture" where
  "set_photo i j photo c = c\<lparr>cap_sealChecks := (cap_sealChecks c)[i := (cap_sealChecks c ! i)
     \<lparr>csc_photos := (csc_photos (cap_sealChecks c ! i))[j := photo]\<rparr>]\<rparr>"

definition check_upload :: "substitution_capture \<Rightarrow> capture_photo \<Rightarrow> artifact_upload" where
  "check_upload c photo = \<lparr>up_tripId = cap_tripId c, up_artifactType = Photo, up_dataUrl = Val (cph_dataUrl photo),
     up_capturedAt = cph_capturedAt photo, up_capturedLat = None, up_capturedLng = None, up_attribution = None,
     up_custodySequence = None\<rparr>"

definition stop_with :: "(js_error + capture_send_outcome) \<times> world \<Rightarrow> (js_error + capture_send_outcome + substitution_capture) \<times> world" where
  "stop_with r = and_then r (\<lambda>outcome w. (Inr (Inl outcome), w))"

fun send_photos :: "env \<Rightarrow> actor_lease \<Rightarrow> string \<Rightarrow> (nat \<times> nat \<times> capture_photo) list \<Rightarrow> substitution_capture \<Rightarrow> world
    \<Rightarrow> (js_error + capture_send_outcome + substitution_capture) \<times> world" where
  "send_photos E lease key [] working w = (Inr (Inr working), w)"
| "send_photos E lease key ((i, j, photo) # rest) working w =
     (if cph_uploadedArtifactId photo \<noteq> None then send_photos E lease key rest working w
      else if \<not> isActorLeaseCurrent lease (w_custody w) then (Inr (Inl Sub_waiting), w)
      else attempt (uploadSubstitutionArtifact E (cap_tripId working) (cap_requestId working) (cap_role working)
          (check_upload working photo) (cph_uploadRequestId photo) w)
        (\<lambda>err w1. stop_with (photo_refused E working err w1))
        (\<lambda>artifact w1. let landed = set_photo i j (photo\<lparr>cph_uploadedArtifactId := Some artifact\<rparr>) working in
           attempt (recordCapturePhotoUploaded E key (cph_id photo) artifact w1)
             (\<lambda>err w2. stop_with (photo_refused E landed err w2))
             (\<lambda>_ w2. send_photos E lease key rest landed w2)))"

definition confirmation_refused :: "env \<Rightarrow> substitution_capture \<Rightarrow> js_error \<Rightarrow> world \<Rightarrow> (js_error + capture_send_outcome) \<times> world" where
  "confirmation_refused E working err w = (case classifyLiveWriteFailure (now_of E w) err of
       Transient _ \<Rightarrow> (Inr Sub_waiting, w)
     | failed \<Rightarrow> let code = (case failed of Retain a \<Rightarrow> att_code a | _ \<Rightarrow> None) in
         if code = Some SUBSTITUTION_VERSION_CHANGED
           then settle_as (Sub_version_changed VERSION_CHANGED_NOTE) (backToDraft E working VERSION_CHANGED_NOTE w)
         else if code = Some SUBSTITUTION_NOT_PENDING \<or> code = Some TRIP_HANDED_OVER
           then settle_as (Sub_not_pending NOT_PENDING_NOTE) (retain_capture E working w)
         else if code = Some IDEMPOTENCY_KEY_REUSED
           then settle_as (Sub_rejected KEY_REUSED_NOTE) (backToDraft E working KEY_REUSED_NOTE w)
         else let note = (case failed of Retain a \<Rightarrow> att_reason a | _ \<Rightarrow> NOT_ACCEPTED_NOTE) in
           settle_as (Sub_rejected note) (backToDraft E working note w))"

definition saved_capture :: "substitution_capture \<Rightarrow> json option \<Rightarrow> substitution_capture" where
  "saved_capture working result = (map_photos (\<lambda>photo. photo\<lparr>cph_dataUrl := []\<rparr>) working)
     \<lparr>cap_status := Cap_saved, cap_result := Some (Reply result), cap_note := None\<rparr>"

text \<open>The body is on the phone; post it, and store the answer.\<close>

definition post_confirmation :: "env \<Rightarrow> actor_lease \<Rightarrow> substitution_capture \<Rightarrow> confirmation_body \<Rightarrow> world
    \<Rightarrow> (js_error + capture_send_outcome) \<times> world" where
  "post_confirmation E lease working body w =
     (if \<not> isActorLeaseCurrent lease (w_custody w) then (Inr Sub_waiting, w)
      else attempt
        (and_then (confirmDriverSubstitution E (cap_tripId working) (cap_requestId working) body w) (\<lambda>result w1.
         and_then (saveCapture E (saved_capture working result) w1) (\<lambda>_ w2. (Inr result, w2))))
        (\<lambda>err w1. confirmation_refused E working err w1)
        (\<lambda>result w1. (Inr (Sub_saved result), w1)))"

text \<open>Fix the body, once, and store it before it is posted.\<close>

definition send_confirmation :: "env \<Rightarrow> actor_lease \<Rightarrow> substitution_capture \<Rightarrow> world \<Rightarrow> (js_error + capture_send_outcome) \<times> world" where
  "send_confirmation E lease working w =
     (if \<not> isActorLeaseCurrent lease (w_custody w) then (Inr Sub_waiting, w)
      else and_then (map_sum OtherErr id (body_of working), w) (\<lambda>body w1.
        if cap_submittedBody working = None
        then let fixed = working\<lparr>cap_submittedBody := Some body\<rparr> in
          and_then (saveCapture E fixed w1) (\<lambda>_ w2. post_confirmation E lease fixed body w2)
        else post_confirmation E lease working body w1))"

definition runSend :: "env \<Rightarrow> string \<Rightarrow> world \<Rightarrow> (js_error + capture_send_outcome) \<times> world" where
  "runSend E key w =
     and_then (getCapture E key w) (\<lambda>found w1. case (captureActorLease (w_custody w), found) of
         (Some lease, Some capture) \<Rightarrow>
           if \<not> isActorLeaseCurrent lease (w_custody w1) \<or> cap_status capture \<noteq> Cap_sending
              \<or> cap_actorId capture \<noteq> lease_actorId lease then (Inr Sub_busy, w1)
           else and_then (send_photos E lease key (photos_of capture) capture w1) (\<lambda>r w2. case r of
               Inl outcome \<Rightarrow> (Inr outcome, w2)
             | Inr working \<Rightarrow> send_confirmation E lease working w2)
       | _ \<Rightarrow> (Inr Sub_busy, w1))"

text \<open>Whatever it throws is caught: the capture is on the phone as it was last saved.\<close>

definition sendSubstitutionCapture :: "env \<Rightarrow> string \<Rightarrow> world \<Rightarrow> capture_send_outcome \<times> world" where
  "sendSubstitutionCapture E key w = (case take_lock (LOCK_PREFIX @ key) w of
       (False, w1) \<Rightarrow> (Sub_busy, w1)
     | (True, w1) \<Rightarrow> (case runSend E key w1 of
         (Inl _, w2) \<Rightarrow> (Sub_waiting, drop_lock (LOCK_PREFIX @ key) w2)
       | (Inr outcome, w2) \<Rightarrow> (outcome, drop_lock (LOCK_PREFIX @ key) w2)))"

section \<open>The background retry\<close>

text \<open>The captures listed, one after the other, as long as the sign-in of the call is current.\<close>

fun flush_captures :: "env \<Rightarrow> actor_lease option \<Rightarrow> string \<Rightarrow> substitution_capture list \<Rightarrow> world \<Rightarrow> bool \<times> world" where
  "flush_captures E lease actorId [] w = (False, w)"
| "flush_captures E lease actorId (capture # rest) w =
     (if (case lease of None \<Rightarrow> True | Some l \<Rightarrow> \<not> isActorLeaseCurrent l (w_custody w)) then (False, w)
      else if cap_status capture \<noteq> Cap_sending \<or> cap_actorId capture \<noteq> actorId then flush_captures E lease actorId rest w
      else (case sendSubstitutionCapture E (cap_key capture) w of (outcome, w1) \<Rightarrow>
          (case flush_captures E lease actorId rest w1 of (any, w2) \<Rightarrow>
             ((case outcome of Sub_saved _ \<Rightarrow> True | _ \<Rightarrow> any), w2))))"

definition flushSubstitutionCaptures :: "env \<Rightarrow> world \<Rightarrow> bool \<times> world" where
  "flushSubstitutionCaptures E w = (case currentActorId (w_custody w) of
       None \<Rightarrow> (False, w)
     | Some actorId \<Rightarrow> (case listCaptures E w of
         (Inl _, w1) \<Rightarrow> (False, w1)
       | (Inr captures, w1) \<Rightarrow> flush_captures E (captureActorLease (w_custody w)) actorId captures w1))"

section \<open>What a send requests\<close>

text \<open>The calls of one capture: an upload of one of its photos, and the confirmation with a fixed body.\<close>

definition check_upload_call :: "substitution_capture \<Rightarrow> string \<Rightarrow> artifact_form \<Rightarrow> api_call" where
  "check_upload_call c requestId form = \<lparr>call_method = POST, call_path = substitution_path (cap_tripId c) (cap_requestId c) ''/artifacts'',
     call_payload = Form (form\<lparr>af_client_request_id := Some requestId, af_role := Some (cap_role c)\<rparr>),
     call_timeoutMs = Some ARTIFACT_UPLOAD_TIMEOUT_MS\<rparr>"

definition confirmation_call :: "substitution_capture \<Rightarrow> confirmation_body \<Rightarrow> api_call" where
  "confirmation_call c body = \<lparr>call_method = POST, call_path = substitution_path (cap_tripId c) (cap_requestId c) ''/confirmations'',
     call_payload = Confirm_substitution body, call_timeoutMs = None\<rparr>"

definition call_of_check :: "substitution_capture \<Rightarrow> confirmation_body option \<Rightarrow> api_call \<Rightarrow> bool" where
  "call_of_check c body call \<longleftrightarrow>
     (\<exists>(i, j, photo)\<in>set (photos_of c). \<exists>form. cph_uploadedArtifactId photo = None \<and> call = check_upload_call c (cph_uploadRequestId photo) form)
     \<or> (\<exists>b. body = Some b \<and> call = confirmation_call c b)"

definition sent_of_check :: "substitution_capture \<Rightarrow> confirmation_body option \<Rightarrow> nat \<Rightarrow> wire_request \<Rightarrow> bool" where
  "sent_of_check c body g r \<longleftrightarrow> wr_generation r = g \<and> call_of_check c body (wr_call r)"

lemma transact_captures_wire [simp]: "w_wire (snd (transact_captures E work w)) = w_wire w"
  by (simp add: transact_captures_def Let_def split: option.split prod.split)

lemma save_wire [simp]: "w_wire (snd (saveCapture E c w)) = w_wire w"
  "w_wire (snd (getCapture E key w)) = w_wire w" "w_wire (snd (recordCapturePhotoUploaded E key p a w)) = w_wire w"
  "w_wire (snd (backToDraft E c n w)) = w_wire w" "w_wire (snd (retain_capture E c w)) = w_wire w"
  by (simp_all add: saveCapture_def getCapture_def recordCapturePhotoUploaded_def backToDraft_def retain_capture_def)

lemma settle_as_wire [simp]: "w_wire (snd (settle_as o' r)) = w_wire (snd r)"
  by (cases r; cases "fst r") (auto simp: settle_as_def)

lemma refused_wire [simp]: "w_wire (snd (photo_refused E c err w)) = w_wire w"
  "w_wire (snd (confirmation_refused E c err w)) = w_wire w"
  by (simp_all add: photo_refused_def confirmation_refused_def Let_def split: live_write_failure.split)

section \<open>What a send leaves on the phone\<close>

text \<open>
  The stored capture under one key. Other tasks may do anything but change it (\<open>alone\<close>): one tab edits a
  check, and the report lock keeps two sends of it apart.
\<close>

definition holding :: "string \<Rightarrow> substitution_capture option \<Rightarrow> world \<Rightarrow> bool" where
  "holding key x w \<longleftrightarrow> db_inv cap_key (w_captures w) \<and> db_get cap_key key (w_captures w) = x"

definition alone :: "env \<Rightarrow> string \<Rightarrow> bool" where
  "alone E key \<longleftrightarrow> (\<forall>n. \<forall>e\<in>set (env_events E n). \<forall>x w. holding key x w \<longrightarrow> holding key x (apply_event e w))"

definition keeps_capture :: "env \<Rightarrow> string \<Rightarrow> world \<Rightarrow> world \<Rightarrow> bool" where
  "keeps_capture E key w w' \<longleftrightarrow> (alone E key \<longrightarrow> (\<forall>x. holding key x w \<longrightarrow> holding key x w'))"

lemma holding_frame: "w_captures w' = w_captures w \<Longrightarrow> holding key x w' = holding key x w"
  by (simp add: holding_def)

lemma await_holding: "alone E key \<Longrightarrow> holding key x w \<Longrightarrow> holding key x (await E w)"
proof -
  have "holding key x (fold apply_event es w)"
    if "\<forall>e\<in>set es. \<forall>x w. holding key x w \<longrightarrow> holding key x (apply_event e w)" "holding key x w" for es w
    using that by (induction es arbitrary: w) auto
  then show "alone E key \<Longrightarrow> holding key x w \<Longrightarrow> holding key x (await E w)"
    by (simp add: await_def alone_def holding_def)
qed

interpretation undisturbed_capture: write_rel "keeps_capture E key" E "\<lambda>_. True" g "\<lambda>_. True"
  for E :: env and key :: string and g :: nat
proof unfold_locales
  show "keeps_capture E key w (await E w)" for w by (simp add: keeps_capture_def await_holding)
  show "keeps_capture E key s u" if "keeps_capture E key s t" "keeps_capture E key t u" for s t u
    using that by (simp add: keeps_capture_def)
qed (simp_all add: keeps_capture_def emit_def holding_def)

lemma transact_captures_holding:
  assumes "alone E key" "holding key x w" "transact_captures E work w = (y, w')"
    and "\<And>now db. db_inv cap_key db \<Longrightarrow> db_inv cap_key (snd (work now db))"
  obtains e where "y = Inl (OtherErr e)" "holding key x w'"
  | now db where "db_inv cap_key db" "db_get cap_key key db = x" "y = Inr (fst (work now db))"
      "holding key (db_get cap_key key (snd (work now db))) w'"
proof (cases "env_lateDb E (w_tick (await E w))")
  case (Some m)
  then have "y = Inl (OtherErr m)" "w' = await E (await E w)"
    using assms(3) by (simp_all add: transact_captures_def Let_def)
  then show thesis using that(1) assms(1,2) by (simp add: await_holding)
next
  case None
  let ?w = "await E w"
  obtain r db where rd: "work (now_of E ?w) (w_captures ?w) = (r, db)" by force
  have h: "holding key x ?w" using assms by (simp add: await_holding)
  then have "holding key (db_get cap_key key db) (?w\<lparr>w_captures := db\<rparr>)"
    using assms(4)[of "w_captures ?w" "now_of E ?w"] rd by (simp add: holding_def)
  then have "holding key (db_get cap_key key db) (await E (?w\<lparr>w_captures := db\<rparr>))" using assms(1) by (simp only: await_holding)
  moreover have "y = Inr r" "w' = await E (?w\<lparr>w_captures := db\<rparr>)"
    using assms(3) None rd by (simp_all only: transact_captures_def Let_def option.case prod.case prod.inject)
  ultimately show thesis using that(2)[of "w_captures ?w" "now_of E ?w"] h rd by (simp add: holding_def)
qed

lemma saveCapture_holding:
  assumes "alone E key" "holding key x w" "saveCapture E c w = (y, w')" "cap_key c = key"
  obtains e where "y = Inl (OtherErr e)" "holding key x w'"
  | t where "y = Inr ()" "holding key (Some (c\<lparr>cap_updatedAt := t\<rparr>)) w'"
proof -
  have put: "db_inv cap_key db \<Longrightarrow> db_inv cap_key (snd ((), db_put cap_key (c\<lparr>cap_updatedAt := now_of E w\<rparr>) db))" for db
    by (simp add: db_inv_put)
  show thesis
    using assms(3) unfolding saveCapture_def
    by (rule transact_captures_holding[OF assms(1,2) _ put]) (use that assms(4) in \<open>auto simp: db_get_put\<close>)
qed

section \<open>What the driver declared\<close>

text \<open>
  A capture without what sending it adds: the status, the fixed body, the ids of uploads, the answer,
  the note and the time of the last save.
\<close>

definition without_upload :: "capture_photo \<Rightarrow> capture_photo" where
  "without_upload photo = photo\<lparr>cph_uploadedArtifactId := None\<rparr>"

definition declared :: "substitution_capture \<Rightarrow> substitution_capture" where
  "declared c = (read_capture (map_photos without_upload c))\<lparr>cap_status := Cap_draft, cap_submittedBody := None,
     cap_result := None, cap_note := None, cap_updatedAt := []\<rparr>"

text \<open>The same with the bytes of the photos dropped.\<close>

definition without_bytes :: "substitution_capture \<Rightarrow> substitution_capture" where
  "without_bytes = map_photos (\<lambda>photo. photo\<lparr>cph_dataUrl := []\<rparr>)"

lemma map_photos_comp: "map_photos f (map_photos g c) = map_photos (f \<circ> g) c"
  by (simp add: map_photos_def comp_def)

lemma map_photos_same: "(\<And>p. f p = g p) \<Longrightarrow> map_photos f c = map_photos g c"
  by (simp add: map_photos_def)

lemma map_photos_fields [simp]:
  "map_photos f (c\<lparr>cap_status := st\<rparr>) = (map_photos f c)\<lparr>cap_status := st\<rparr>"
  "map_photos f (c\<lparr>cap_submittedBody := b\<rparr>) = (map_photos f c)\<lparr>cap_submittedBody := b\<rparr>"
  "map_photos f (c\<lparr>cap_result := r\<rparr>) = (map_photos f c)\<lparr>cap_result := r\<rparr>"
  "map_photos f (c\<lparr>cap_note := n\<rparr>) = (map_photos f c)\<lparr>cap_note := n\<rparr>"
  "map_photos f (c\<lparr>cap_updatedAt := t\<rparr>) = (map_photos f c)\<lparr>cap_updatedAt := t\<rparr>"
  by (simp_all add: map_photos_def)

lemma declared_fields [simp]:
  "declared (c\<lparr>cap_status := st\<rparr>) = declared c" "declared (c\<lparr>cap_submittedBody := b\<rparr>) = declared c"
  "declared (c\<lparr>cap_result := r\<rparr>) = declared c" "declared (c\<lparr>cap_note := n\<rparr>) = declared c"
  "declared (c\<lparr>cap_updatedAt := t\<rparr>) = declared c"
  by (simp_all add: declared_def read_capture_def)

lemma declared_read [simp]: "declared (read_capture c) = declared c"
  by (simp add: declared_def read_capture_def map_photos_def)

lemma declared_artifact [simp]: "declared (map_photos (with_artifact p a) c) = declared c"
proof -
  have "without_upload \<circ> with_artifact p a = without_upload"
    by (rule ext) (simp add: with_artifact_def without_upload_def)
  then show ?thesis by (simp add: declared_def map_photos_comp)
qed

lemma declared_bytes: "declared (without_bytes c) = without_bytes (declared c)"
  by (simp add: declared_def without_bytes_def read_capture_def map_photos_def without_upload_def)

lemma declared_parts:
  assumes "declared a = declared b"
  shows "cap_key a = cap_key b" "cap_actorId a = cap_actorId b" "cap_tripId a = cap_tripId b" "cap_requestId a = cap_requestId b"
    "cap_role a = cap_role b" "cap_clientRequestId a = cap_clientRequestId b" "cap_expectedVersion a = cap_expectedVersion b"
    "cap_capturedAt a = cap_capturedAt b" "cap_position a = cap_position b" "cap_confirmedVehicleIds a = cap_confirmedVehicleIds b"
    "cap_discrepancyNote a = cap_discrepancyNote b"
    "map (\<lambda>k. k\<lparr>csc_photos := map without_upload (csc_photos k)\<rparr>) (cap_sealChecks a)
      = map (\<lambda>k. k\<lparr>csc_photos := map without_upload (csc_photos k)\<rparr>) (cap_sealChecks b)"
  using arg_cong[OF assms, of cap_key] arg_cong[OF assms, of cap_actorId] arg_cong[OF assms, of cap_tripId]
    arg_cong[OF assms, of cap_requestId] arg_cong[OF assms, of cap_role] arg_cong[OF assms, of cap_clientRequestId]
    arg_cong[OF assms, of cap_expectedVersion] arg_cong[OF assms, of cap_capturedAt] arg_cong[OF assms, of cap_position]
    arg_cong[OF assms, of cap_confirmedVehicleIds] arg_cong[OF assms, of cap_discrepancyNote] arg_cong[OF assms, of cap_sealChecks]
  by (simp_all add: declared_def read_capture_def map_photos_def)

lemma photos_of_iff: "(i, j, photo) \<in> set (photos_of c) \<longleftrightarrow>
    i < length (cap_sealChecks c) \<and> j < length (csc_photos (cap_sealChecks c ! i)) \<and> csc_photos (cap_sealChecks c ! i) ! j = photo"
  by (auto simp: photos_of_def in_set_enumerate_eq image_iff Bex_def)

lemma landed_declared:
  assumes "(i, j, photo) \<in> set (photos_of c)" "declared working = declared c"
  shows "declared (set_photo i j (photo\<lparr>cph_uploadedArtifactId := Some a\<rparr>) working) = declared c"
proof -
  let ?k = "\<lambda>k. k\<lparr>csc_photos := map without_upload (csc_photos k)\<rparr>"
  let ?w = "cap_sealChecks working" and ?c = "cap_sealChecks c"
  let ?p = "photo\<lparr>cph_uploadedArtifactId := Some a\<rparr>"
  have same: "map ?k ?w = map ?k ?c" by (rule declared_parts(12)[OF assms(2)])
  have i: "i < length ?c" "j < length (csc_photos (?c ! i))" "csc_photos (?c ! i) ! j = photo"
    using assms(1) by (auto simp: photos_of_iff)
  have iw: "i < length ?w" using arg_cong[OF same, of length] i(1) by (simp only: length_map)
  have k: "?k (?w ! i) = ?k (?c ! i)" using arg_cong[OF same, of "\<lambda>xs. xs ! i"] i(1) iw by simp
  have ph: "map without_upload (csc_photos (?w ! i)) = map without_upload (csc_photos (?c ! i))"
    using arg_cong[OF k, of csc_photos] by simp
  have "without_upload ?p = map without_upload (csc_photos (?w ! i)) ! j"
    unfolding ph using i by (simp add: without_upload_def)
  then have "map without_upload ((csc_photos (?w ! i))[j := ?p]) = map without_upload (csc_photos (?w ! i))"
    unfolding map_update by (simp only: list_update_id)
  then have "?k ((?w ! i)\<lparr>csc_photos := (csc_photos (?w ! i))[j := ?p]\<rparr>) = map ?k ?w ! i"
    using iw by simp
  then have "map ?k (?w[i := (?w ! i)\<lparr>csc_photos := (csc_photos (?w ! i))[j := ?p]\<rparr>]) = map ?k ?w"
    unfolding map_update by (simp only: list_update_id)
  then have "declared (set_photo i j ?p working) = declared working"
    by (simp add: declared_def set_photo_def read_capture_def map_photos_def)
  then show ?thesis using assms(2) by simp
qed

section \<open>Every answer leaves the capture on the phone\<close>

definition kept :: "string \<Rightarrow> substitution_capture \<Rightarrow> capture_status \<Rightarrow> confirmation_body option \<Rightarrow> world \<Rightarrow> bool" where
  "kept key c st body w \<longleftrightarrow> (\<exists>c'. holding key (Some c') w \<and> declared c' = declared c \<and> cap_status c' = st \<and> cap_submittedBody c' = body)"

text \<open>The server accepted the confirmation of this capture with this body.\<close>

definition server_took :: "env \<Rightarrow> substitution_capture \<Rightarrow> confirmation_body option \<Rightarrow> bool" where
  "server_took E c body \<longleftrightarrow> (\<exists>b res. body = Some b \<and> answers E (confirmation_call c b) res \<and> rs_ok res)"

text \<open>A send that throws is reported as waiting.\<close>

fun outcome_of :: "js_error + capture_send_outcome \<Rightarrow> capture_send_outcome" where
  "outcome_of (Inl _) = Sub_waiting"
| "outcome_of (Inr outcome) = outcome"

fun left_on_phone :: "env \<Rightarrow> string \<Rightarrow> substitution_capture \<Rightarrow> confirmation_body option \<Rightarrow> capture_send_outcome \<Rightarrow> world \<Rightarrow> bool" where
  "left_on_phone E key c body Sub_waiting w = kept key c Cap_sending body w"
| "left_on_phone E key c body (Sub_version_changed _) w = kept key c Cap_draft None w"
| "left_on_phone E key c body (Sub_rejected _) w = kept key c Cap_draft None w"
| "left_on_phone E key c body (Sub_not_pending _) w = (\<exists>b. kept key c Cap_retained b w)"
| "left_on_phone E key c body (Sub_saved r) w = ((\<exists>c'. holding key (Some c') w \<and> declared c' = without_bytes (declared c)
     \<and> cap_status c' = Cap_saved \<and> cap_result c' = Some (Reply r)) \<and> server_took E c body)"
| "left_on_phone E key c body Sub_busy w = False"

lemma declared_key: "declared a = declared b \<Longrightarrow> cap_key a = cap_key b"
  by (rule declared_parts)

lemma keeps_kept: "keeps_capture E key w w' \<Longrightarrow> alone E key \<Longrightarrow> kept key c st body w \<Longrightarrow> kept key c st body w'"
  by (auto simp: keeps_capture_def kept_def)

lemma keptI: "holding key (Some c') w \<Longrightarrow> declared c' = declared c \<Longrightarrow> cap_status c' = st \<Longrightarrow> cap_submittedBody c' = body
    \<Longrightarrow> kept key c st body w"
  by (auto simp: kept_def)

text \<open>Saving a version of the capture: it is stored, or nothing changed and the save threw.\<close>

lemma save_kept:
  assumes "alone E key" "kept key c st body w" "saveCapture E x w = (y, w')" "cap_key x = key"
  obtains e where "y = Inl e" "kept key c st body w'"
  | t where "y = Inr ()" "holding key (Some (x\<lparr>cap_updatedAt := t\<rparr>)) w'"
proof -
  obtain c' where c': "holding key (Some c') w" "declared c' = declared c" "cap_status c' = st" "cap_submittedBody c' = body"
    using assms(2) by (auto simp: kept_def)
  show thesis
    by (rule saveCapture_holding[OF assms(1) c'(1) assms(3,4)]) (use that c' in \<open>auto simp: kept_def\<close>)
qed

lemma settled_left:
  assumes "alone E key" "kept key c Cap_sending body w" "cap_key x = key" "settle_as out (saveCapture E x w) = (y, w')"
    and "\<And>t. holding key (Some (x\<lparr>cap_updatedAt := t\<rparr>)) w' \<Longrightarrow> left_on_phone E key c body out w'"
  shows "left_on_phone E key c body (outcome_of y) w'"
proof -
  obtain z where z: "saveCapture E x w = (z, w')" "y = (case z of Inl e \<Rightarrow> Inl e | Inr _ \<Rightarrow> Inr out)"
    using assms(4) by (auto simp: settle_as_def elim: and_then_cases)
  show ?thesis
    by (rule save_kept[OF assms(1,2) z(1) assms(3)]) (use z(2) assms(5) in auto)
qed

lemma draft_left:
  assumes "alone E key" "kept key c Cap_sending body w" "declared working = declared c" "cap_key c = key"
    "settle_as out (backToDraft E working note w) = (y, w')" "out = Sub_rejected n \<or> out = Sub_version_changed n"
  shows "left_on_phone E key c body (outcome_of y) w'"
  using assms(3,4,6) declared_key[OF assms(3)]
  by (intro settled_left[OF assms(1,2) _ assms(5)[unfolded backToDraft_def]]) (auto intro!: keptI)

lemma retained_left:
  assumes "alone E key" "kept key c Cap_sending body w" "declared working = declared c" "cap_key c = key"
    "settle_as (Sub_not_pending n) (retain_capture E working w) = (y, w')"
  shows "left_on_phone E key c body (outcome_of y) w'"
  using assms(3,4) declared_key[OF assms(3)]
  by (intro settled_left[OF assms(1,2) _ assms(5)[unfolded retain_capture_def]]) (auto intro!: exI keptI)

lemma photo_refused_left:
  assumes "alone E key" "kept key c Cap_sending body w" "declared working = declared c" "cap_key c = key"
    "photo_refused E working err w = (y, w')"
  shows "left_on_phone E key c body (outcome_of y) w'"
  using assms(2,5) unfolding photo_refused_def
  by (auto split: live_write_failure.splits if_splits intro: draft_left[OF assms(1-4)] retained_left[OF assms(1-4)])

lemma confirmation_refused_left:
  assumes "alone E key" "kept key c Cap_sending body w" "declared working = declared c" "cap_key c = key"
    "confirmation_refused E working err w = (y, w')"
  shows "left_on_phone E key c body (outcome_of y) w'"
  using assms(2,5) unfolding confirmation_refused_def Let_def
  by (auto split: live_write_failure.splits if_splits intro: draft_left[OF assms(1-4)] retained_left[OF assms(1-4)])

lemma capture_record_kept:
  assumes "alone E key" "kept key c st body w" "recordCapturePhotoUploaded E key p a w = (y, w')" "cap_key c = key"
  shows "kept key c st body w'"
proof -
  obtain c' where c': "holding key (Some c') w" "declared c' = declared c" "cap_status c' = st" "cap_submittedBody c' = body"
    using assms(2) by (auto simp: kept_def)
  let ?c = "\<lambda>t. (map_photos (with_artifact p a) c')\<lparr>cap_updatedAt := t\<rparr>"
  have k: "cap_key (?c t) = key" for t using declared_key[OF c'(2)] assms(4) by (simp add: map_photos_def)
  show ?thesis
    using assms(3) unfolding recordCapturePhotoUploaded_def
  proof (rule transact_captures_holding[OF assms(1) c'(1)], goal_cases)
    case (1 now db)
    then show ?case by (auto simp: db_inv_put split: option.split)
  next
    case (2 e)
    then show ?case using c' by (auto simp: kept_def)
  next
    case (3 now db)
    then have "holding key (Some (?c now)) w'" using k by (simp add: db_get_put)
    then show ?case by (rule keptI) (simp_all add: c', simp_all add: map_photos_def c')
  qed
qed

lemma upload_keeps: "keeps_capture E key w (snd (uploadSubstitutionArtifact E t r role up i w))"
  unfolding uploadSubstitutionArtifact_def Let_def
proof (intro undisturbed_capture.and_then_rel, goal_cases)
  case (3 form u v w')
  then show ?case
    using undisturbed_capture.assert_generation_returns[of _ u] by (auto intro!: undisturbed_capture.post_rel)
qed (auto simp: undisturbed_capture.form_rel undisturbed_capture.assert_rel undisturbed_capture.rel_refl)

lemma stop_with_cases: "stop_with r = (x, w') \<Longrightarrow>
    \<exists>y. r = (y, w') \<and> x = (case y of Inl e \<Rightarrow> Inl e | Inr out \<Rightarrow> Inr (Inl out))"
  by (cases r; cases "fst r") (auto simp: stop_with_def)

text \<open>The loop over the photos: it ends early with an outcome, or with the capture to confirm.\<close>

lemma send_photos_left:
  assumes "alone E key" "cap_key c = key" "set ps \<subseteq> set (photos_of c)" "kept key c Cap_sending (cap_submittedBody c) w"
    "declared working = declared c" "cap_submittedBody working = cap_submittedBody c" "cap_status working = Cap_sending"
    "send_photos E lease key ps working w = (x, w')"
  shows "(case x of Inr (Inr u) \<Rightarrow> kept key c Cap_sending (cap_submittedBody c) w' \<and> declared u = declared c
        \<and> cap_submittedBody u = cap_submittedBody c \<and> cap_status u = Cap_sending
      | Inr (Inl out) \<Rightarrow> left_on_phone E key c (cap_submittedBody c) out w'
      | Inl _ \<Rightarrow> kept key c Cap_sending (cap_submittedBody c) w')"
  using assms(3-8)
proof (induction ps arbitrary: working w)
  case (Cons q ps)
  obtain i j photo where q: "q = (i, j, photo)" by (cases q)
  have stopped: "case x of Inr (Inr u) \<Rightarrow> False | Inr (Inl out) \<Rightarrow> left_on_phone E key c (cap_submittedBody c) out w'
      | Inl _ \<Rightarrow> kept key c Cap_sending (cap_submittedBody c) w'"
    if stop: "stop_with (photo_refused E v err u) = (x, w')" "kept key c Cap_sending (cap_submittedBody c) u" "declared v = declared c" for v err u
  proof -
    obtain y where y: "photo_refused E v err u = (y, w')" "x = (case y of Inl e \<Rightarrow> Inl e | Inr out \<Rightarrow> Inr (Inl out))"
      using stop_with_cases[OF stop(1)] by blast
    show ?thesis using photo_refused_left[OF assms(1) stop(2,3) assms(2) y(1)] y(2) by (cases y) auto
  qed
  show ?case
  proof (cases "cph_uploadedArtifactId photo \<noteq> None \<or> \<not> isActorLeaseCurrent lease (w_custody w)")
    case True
    then show ?thesis using Cons q by (auto split: if_splits)
  next
    case False
    obtain z w1 where up: "uploadSubstitutionArtifact E (cap_tripId working) (cap_requestId working) (cap_role working)
        (check_upload working photo) (cph_uploadRequestId photo) w = (z, w1)" by force
    have k1: "kept key c Cap_sending (cap_submittedBody c) w1"
      using upload_keeps[of E key w] keeps_kept[OF _ assms(1) Cons.prems(2)] up by (metis snd_conv)
    show ?thesis
    proof (cases z)
      case (Inl err)
      then have "stop_with (photo_refused E working err w1) = (x, w')" using Cons.prems(6) q False up by simp
      from stopped[OF this k1 Cons.prems(3)] show ?thesis by (auto split: sum.splits)
    next
      case (Inr a)
      let ?v = "set_photo i j (photo\<lparr>cph_uploadedArtifactId := Some a\<rparr>) working"
      have v: "declared ?v = declared c" "cap_submittedBody ?v = cap_submittedBody c" "cap_status ?v = Cap_sending"
        using landed_declared[of i j photo c working a] Cons.prems q by (auto simp: set_photo_def)
      obtain r w2 where rec: "recordCapturePhotoUploaded E key (cph_id photo) a w1 = (r, w2)" by force
      have k2: "kept key c Cap_sending (cap_submittedBody c) w2" by (rule capture_record_kept[OF assms(1) k1 rec assms(2)])
      show ?thesis
      proof (cases r)
        case (Inl err)
        then have "stop_with (photo_refused E ?v err w2) = (x, w')" using Cons.prems(6) q False up Inr rec by (simp add: Let_def)
        from stopped[OF this k2 v(1)] show ?thesis by (auto split: sum.splits)
      next
        case r: (Inr _)
        then have "send_photos E lease key ps ?v w2 = (x, w')" using Cons.prems(6) q False up Inr rec by (simp add: Let_def)
        with Cons.prems(1) k2 v show ?thesis by (intro Cons.IH) auto
      qed
    qed
  qed
qed auto

text \<open>A loop that reaches its end has uploaded every photo.\<close>

definition photo_at :: "substitution_capture \<Rightarrow> nat \<Rightarrow> nat \<Rightarrow> capture_photo" where
  "photo_at c i j = csc_photos (cap_sealChecks c ! i) ! j"

definition shape :: "substitution_capture \<Rightarrow> nat list" where
  "shape c = map (\<lambda>k. length (csc_photos k)) (cap_sealChecks c)"

definition place :: "nat \<times> nat \<times> capture_photo \<Rightarrow> nat \<times> nat" where
  "place q = (fst q, fst (snd q))"

lemma set_photo_shape: "i < length (cap_sealChecks c) \<Longrightarrow> shape (set_photo i j p c) = shape c"
  by (simp add: shape_def set_photo_def map_update) (metis length_map list_update_id nth_map)

lemma set_photo_at:
  assumes "i < length (shape c)" "j < shape c ! i"
  shows "photo_at (set_photo i j p c) i' j' = (if (i', j') = (i, j) then p else photo_at c i' j')"
  using assms by (cases "i' = i") (auto simp: photo_at_def set_photo_def shape_def nth_list_update)

text \<open>
  A photo is filed under the id on record for it, or under the id in the server's answer to its own upload: with its
  bytes and capture time, under its request id.
\<close>

definition filed_as :: "env \<Rightarrow> substitution_capture \<Rightarrow> capture_photo \<Rightarrow> string \<Rightarrow> bool" where
  "filed_as E c photo i \<longleftrightarrow> (case cph_uploadedArtifactId photo of
       Some a \<Rightarrow> i = a
     | None \<Rightarrow> (\<exists>form res body n. env_decode E n (Val (cph_dataUrl photo)) = Inr (af_file form) \<and> form_for Photo (cph_capturedAt photo) form
         \<and> answers E (check_upload_call c (cph_uploadRequestId photo) form) res \<and> rs_ok res
         \<and> rs_body res = Some body \<and> json_get ''id'' body = Inr (Some (JStr i))))"

definition photos_filed :: "env \<Rightarrow> substitution_capture \<Rightarrow> substitution_capture \<Rightarrow> bool" where
  "photos_filed E c u \<longleftrightarrow> list_all2 (\<lambda>k k'. list_all2 (\<lambda>photo photo'. \<exists>i. cph_uploadedArtifactId photo' = Some i \<and> filed_as E c photo i)
       (csc_photos k) (csc_photos k')) (cap_sealChecks c) (cap_sealChecks u)"

lemma artifact_id_reply: "artifact_id b = Inr i \<Longrightarrow> \<exists>body. b = Some body \<and> json_get ''id'' body = Inr (Some (JStr i))"
  by (auto simp: artifact_id_def split: option.splits sum.splits json.splits)

lemma form_file: "artifactFormData E g upload w = (Inr form, w') \<Longrightarrow> env_decode E (w_tick (await E w)) (up_dataUrl upload) = Inr (af_file form)"
  by (auto simp: artifactFormData_def Let_def elim!: and_then_cases split: sum.splits if_splits)

lemma check_uploaded:
  assumes "uploadSubstitutionArtifact E (cap_tripId c) (cap_requestId c) (cap_role c) (check_upload d photo) (cph_uploadRequestId photo) w = (Inr i, w')"
    and "cph_uploadedArtifactId photo = None"
  shows "filed_as E c photo i"
proof -
  obtain form t t' u v b where form: "artifactFormData E (generation_of w) (check_upload d photo) t = (Inr form, t')" and
    post: "api_post E (substitution_path (cap_tripId c) (cap_requestId c) ''/artifacts'')
      (Form (form\<lparr>af_client_request_id := Some (cph_uploadRequestId photo), af_role := Some (cap_role c)\<rparr>))
      (Some ARTIFACT_UPLOAD_TIMEOUT_MS) u = (Inr b, v)" and i: "artifact_id b = Inr i"
    using assms(1) unfolding uploadSubstitutionArtifact_def Let_def by (auto elim!: and_then_cases)
  from post have "request E (check_upload_call c (cph_uploadRequestId photo) form) u = (Inr b, v)"
    by (simp add: api_post_def check_upload_call_def)
  from request_accepted[OF this] obtain res where "answers E (check_upload_call c (cph_uploadRequestId photo) form) res"
    "success_body res b" by blast
  moreover have "\<exists>n. env_decode E n (Val (cph_dataUrl photo)) = Inr (af_file form)" "form_for Photo (cph_capturedAt photo) form"
    using form_file[OF form] artifactFormData_form[OF form] by (auto simp: check_upload_def)
  ultimately show ?thesis using artifact_id_reply[OF i] assms(2) by (auto simp: filed_as_def success_body_def split: if_splits)
qed

lemma filed_as_cong:
  "cap_tripId c = cap_tripId c' \<Longrightarrow> cap_requestId c = cap_requestId c' \<Longrightarrow> cap_role c = cap_role c' \<Longrightarrow> filed_as E c = filed_as E c'"
  by (simp add: filed_as_def check_upload_call_def fun_eq_iff cong: option.case_cong)

lemma set_photo_same [simp]:
  "cap_tripId (set_photo i j p c) = cap_tripId c" "cap_requestId (set_photo i j p c) = cap_requestId c" "cap_role (set_photo i j p c) = cap_role c"
  by (simp_all add: set_photo_def)

lemma send_photos_uploaded:
  assumes "distinct (map place ps)"
    "\<forall>(i, j, p)\<in>set ps. i < length (shape working) \<and> j < shape working ! i \<and> photo_at working i j = p"
    "send_photos E lease key ps working w = (Inr (Inr u), w')"
  shows "shape u = shape working \<and> (\<forall>i j. ((i, j) \<in> place ` set ps \<longrightarrow> (\<exists>a. cph_uploadedArtifactId (photo_at u i j) = Some a \<and> filed_as E working (photo_at working i j) a))
      \<and> ((i, j) \<notin> place ` set ps \<longrightarrow> photo_at u i j = photo_at working i j))"
  using assms
proof (induction ps arbitrary: working w)
  case (Cons q ps)
  obtain i j photo where q: "q = (i, j, photo)" by (cases q)
  have at: "i < length (shape working)" "j < shape working ! i" "photo_at working i j = photo" using Cons.prems(2) q by auto
  have places: "place ` set (q # ps) = insert (i, j) (place ` set ps)" using q by (simp add: place_def)
  have other: "(i, j) \<notin> place ` set ps" using Cons.prems(1) q by (auto simp: place_def)
  show ?case
  proof (cases "cph_uploadedArtifactId photo")
    case (Some a)
    then have ih: "shape u = shape working \<and> (\<forall>i j. ((i, j) \<in> place ` set ps \<longrightarrow> (\<exists>a. cph_uploadedArtifactId (photo_at u i j) = Some a \<and> filed_as E working (photo_at working i j) a))
      \<and> ((i, j) \<notin> place ` set ps \<longrightarrow> photo_at u i j = photo_at working i j))"
      using Cons.prems q by (intro Cons.IH[of working w]) auto
    then have "photo_at u i j = photo" using other at(3) by (auto split: if_splits)
    then show ?thesis unfolding places using ih Some at(3) by (auto simp: filed_as_def)
  next
    case None
    from Cons.prems(3) q None obtain a w1 w2 where
      up: "uploadSubstitutionArtifact E (cap_tripId working) (cap_requestId working) (cap_role working)
        (check_upload working photo) (cph_uploadRequestId photo) w = (Inr a, w1)" and
      rest: "send_photos E lease key ps (set_photo i j (photo\<lparr>cph_uploadedArtifactId := Some a\<rparr>) working) w2 = (Inr (Inr u), w')"
      by (auto simp: stop_with_def Let_def attempt_def split: if_splits prod.splits sum.splits elim!: and_then_cases)
    let ?v = "set_photo i j (photo\<lparr>cph_uploadedArtifactId := Some a\<rparr>) working"
    have v: "shape ?v = shape working" using at(1) by (intro set_photo_shape) (simp add: shape_def)
    have keep: "\<forall>(i', j', p)\<in>set ps. i' < length (shape ?v) \<and> j' < shape ?v ! i' \<and> photo_at ?v i' j' = p"
    proof clarify
      fix i' j' p assume mem: "(i', j', p) \<in> set ps"
      then have "(i', j') \<in> place ` set ps" by (force simp: place_def)
      then have "(i', j') \<noteq> (i, j)" using other by auto
      then show "i' < length (shape ?v) \<and> j' < shape ?v ! i' \<and> photo_at ?v i' j' = p"
        using Cons.prems(2) mem v by (auto simp: set_photo_at[OF at(1,2)])
    qed
    have same: "filed_as E ?v = filed_as E working" by (rule filed_as_cong) simp_all
    have ih: "shape u = shape ?v \<and> (\<forall>i j. ((i, j) \<in> place ` set ps \<longrightarrow> (\<exists>a. cph_uploadedArtifactId (photo_at u i j) = Some a \<and> filed_as E ?v (photo_at ?v i j) a))
      \<and> ((i, j) \<notin> place ` set ps \<longrightarrow> photo_at u i j = photo_at ?v i j))"
      using Cons.prems(1) keep rest by (intro Cons.IH[of ?v w2]) auto
    then have "photo_at u i j = photo\<lparr>cph_uploadedArtifactId := Some a\<rparr>"
      using other by (auto simp: set_photo_at[OF at(1,2)] split: if_splits)
    then have here: "\<exists>b. cph_uploadedArtifactId (photo_at u i j) = Some b \<and> filed_as E working (photo_at working i j) b"
      using check_uploaded[OF up None] at(3) by simp
    show ?thesis unfolding places
    proof (intro conjI allI impI)
      show "shape u = shape working" using ih v by simp
    next
      fix i' j' assume mem: "(i', j') \<in> insert (i, j) (place ` set ps)"
      show "\<exists>b. cph_uploadedArtifactId (photo_at u i' j') = Some b \<and> filed_as E working (photo_at working i' j') b"
      proof (cases "(i', j') = (i, j)")
        case False
        then have "\<exists>b. cph_uploadedArtifactId (photo_at u i' j') = Some b \<and> filed_as E ?v (photo_at ?v i' j') b" using ih mem by blast
        moreover have "photo_at ?v i' j' = photo_at working i' j'" using False by (auto simp: set_photo_at[OF at(1,2)])
        ultimately show ?thesis unfolding same by simp
      qed (use here in simp)
    next
      fix i' j' assume "(i', j') \<notin> insert (i, j) (place ` set ps)"
      then have "photo_at u i' j' = photo_at ?v i' j'" "(i', j') \<noteq> (i, j)" using ih by blast+
      then show "photo_at u i' j' = photo_at working i' j'" by (auto simp: set_photo_at[OF at(1,2)])
    qed
  qed
qed simp

lemma distinct_rows:
  "distinct (concat (map (\<lambda>(i, k). map (Pair i) [0..<f k]) (enumerate n ks)))
    \<and> (\<forall>p\<in>set (concat (map (\<lambda>(i, k). map (Pair i) [0..<f k]) (enumerate n ks))). n \<le> fst p)"
proof (induction ks arbitrary: n)
  case (Cons k ks)
  from Cons[of "Suc n"] show ?case by (fastforce simp: distinct_map inj_on_def)
qed simp

lemma photos_of_places: "distinct (map place (photos_of c))"
proof -
  have row: "map (\<lambda>x. (i, fst x)) (enumerate 0 ps) = map (Pair i) [0..<length ps]" for i :: nat and ps :: "capture_photo list"
    by (rule nth_equalityI) (auto simp: nth_enumerate_eq)
  have "map place (photos_of c) = concat (map (\<lambda>(i, k). map (Pair i) [0..<length (csc_photos k)]) (enumerate 0 (cap_sealChecks c)))"
    by (simp add: photos_of_def map_concat comp_def place_def case_prod_unfold row)
  then show ?thesis using distinct_rows by metis
qed

lemma photos_of_shape: "(i, j, photo_at c i j) \<in> set (photos_of c) \<longleftrightarrow> i < length (shape c) \<and> j < shape c ! i"
  by (auto simp: photos_of_iff shape_def photo_at_def)

lemma all_photos_uploaded:
  assumes "send_photos E lease key (photos_of c) c w = (Inr (Inr u), w')"
  shows "photos_filed E c u"
proof -
  have valid: "\<forall>(i, j, p)\<in>set (photos_of c). i < length (shape c) \<and> j < shape c ! i \<and> photo_at c i j = p"
    by (auto simp: photos_of_iff shape_def photo_at_def)
  note all = send_photos_uploaded[OF photos_of_places valid assms]
  have filed: "\<exists>a. cph_uploadedArtifactId (photo_at u i j) = Some a \<and> filed_as E c (photo_at c i j) a"
    if "i < length (shape c)" "j < shape c ! i" for i j
  proof -
    have "(i, j, photo_at c i j) \<in> set (photos_of c)" using that unfolding photos_of_shape by simp
    then have "(i, j) \<in> place ` set (photos_of c)" by (force simp: place_def)
    then show ?thesis using all by auto
  qed
  from all have same: "shape u = shape c" by blast
  have len: "length (cap_sealChecks u) = length (cap_sealChecks c)"
    using arg_cong[OF same, of length] by (simp add: shape_def)
  have row: "length (csc_photos (cap_sealChecks u ! i)) = length (csc_photos (cap_sealChecks c ! i))" if "i < length (cap_sealChecks c)" for i
    using that len arg_cong[OF same, of "\<lambda>xs. xs ! i"] by (simp add: shape_def)
  show ?thesis
    unfolding photos_filed_def list_all2_conv_all_nth
    using len row filed by (auto simp: shape_def photo_at_def)
qed

lemma filed_uploaded: "photos_filed E c u \<Longrightarrow> photos_uploaded u"
  by (fastforce simp: photos_filed_def photos_uploaded_def list_all2_conv_all_nth list_all_length)

section \<open>One run\<close>

interpretation check_writes: write_rel "sends_only (sent_of_check c body g)" E "sent_of_check c body g" g "call_of_check c body"
  for c :: substitution_capture and body :: "confirmation_body option" and g :: nat and E :: env
  by unfold_locales (auto simp: sent_of_check_def stamped_def)

lemma lease_current_generation: "isActorLeaseCurrent lease (w_custody w) \<Longrightarrow> generation_of w = lease_generation lease"
  by (simp add: isActorLeaseCurrent_def actorGeneration_def)

lemma same_wire: "w_wire w' = w_wire w \<Longrightarrow> sends_only P w w'"
  by (simp add: sends_only_def)

lemma upload_sends:
  assumes "generation_of w = g" "(i, j, photo) \<in> set (photos_of c)" "cph_uploadedArtifactId photo = None"
  shows "sends_only (sent_of_check c body g) w (snd (uploadSubstitutionArtifact E (cap_tripId c) (cap_requestId c) (cap_role c)
    up (cph_uploadRequestId photo) w))"
  unfolding uploadSubstitutionArtifact_def Let_def assms(1)
proof (intro sends.and_then_rel, goal_cases)
  case (3 form u v w')
  have "call_of_check c body (check_upload_call c (cph_uploadRequestId photo) form)"
    using assms(2,3) unfolding call_of_check_def by blast
  then show ?case
    using 3 check_writes.assert_generation_returns[of g u] unfolding check_upload_call_def
    by (auto intro!: check_writes.post_rel)
qed (auto simp: check_writes.form_rel sends.assert_rel sends.rel_refl)

lemma send_photos_sends:
  assumes "lease_generation lease = g" "set ps \<subseteq> set (photos_of c)"
    "cap_tripId working = cap_tripId c" "cap_requestId working = cap_requestId c" "cap_role working = cap_role c"
  shows "sends_only (sent_of_check c body g) w (snd (send_photos E lease key ps working w))"
  using assms(2-)
proof (induction ps arbitrary: working w)
  case (Cons q ps)
  obtain i j photo where q: "q = (i, j, photo)" by (cases q)
  have stop: "sends_only (sent_of_check c body g) u (snd (stop_with (photo_refused E v err u)))" for v err u
  proof (rule same_wire)
    obtain y u' where y: "photo_refused E v err u = (y, u')" by force
    then show "w_wire (snd (stop_with (photo_refused E v err u))) = w_wire u"
      using refused_wire(1)[of E v err u] by (cases y) (auto simp: stop_with_def)
  qed
  show ?case
  proof (cases "cph_uploadedArtifactId photo \<noteq> None \<or> \<not> isActorLeaseCurrent lease (w_custody w)")
    case True
    then show ?thesis using Cons q by (auto simp: sends.rel_refl)
  next
    case False
    then have gen: "generation_of w = g" using assms(1) lease_current_generation by auto
    have "sends_only (sent_of_check c body g) w (snd (attempt (uploadSubstitutionArtifact E (cap_tripId working) (cap_requestId working)
        (cap_role working) (check_upload working photo) (cph_uploadRequestId photo) w)
        (\<lambda>err w1. stop_with (photo_refused E working err w1))
        (\<lambda>artifact w1. let landed = set_photo i j (photo\<lparr>cph_uploadedArtifactId := Some artifact\<rparr>) working in
           attempt (recordCapturePhotoUploaded E key (cph_id photo) artifact w1)
             (\<lambda>err w2. stop_with (photo_refused E landed err w2))
             (\<lambda>_ w2. send_photos E lease key ps landed w2))))"
      unfolding Let_def
    proof (intro sends.attempt_rel, goal_cases)
      case 1
      show ?case unfolding Cons.prems(2-4) using Cons.prems(1) q False gen by (intro upload_sends) auto
    next
      case (5 a t u v)
      show ?case using Cons.prems by (intro Cons.IH) (auto simp: set_photo_def)
    qed (auto simp: stop intro: same_wire)
    then show ?thesis using q False by simp
  qed
qed (simp add: sends.rel_refl)

lemma sent_of_check_mono: "sends_only (sent_of_check c None g) w w' \<Longrightarrow> sends_only (sent_of_check c body g) w w'"
  by (erule sends_only_mono) (auto simp: sent_of_check_def call_of_check_def)

lemma confirm_keeps: "keeps_capture E key w (snd (confirmDriverSubstitution E t r b w))"
  unfolding confirmDriverSubstitution_def by (rule undisturbed_capture.post_rel) simp_all

lemma saved_left:
  assumes "alone E key" "kept key c Cap_sending body w" "declared working = declared c" "cap_key c = key"
    "and_then (saveCapture E (saved_capture working r) w) (\<lambda>_ w2. (Inr r, w2)) = (y, w')" "server_took E c body"
  shows "case y of Inl _ \<Rightarrow> kept key c Cap_sending body w' | Inr r' \<Rightarrow> r' = r \<and> left_on_phone E key c body (Sub_saved r) w'"
proof -
  obtain z where z: "saveCapture E (saved_capture working r) w = (z, w')" "y = (case z of Inl e \<Rightarrow> Inl e | Inr _ \<Rightarrow> Inr r)"
    using assms(5) by (auto elim: and_then_cases)
  have key: "cap_key (saved_capture working r) = key"
    using declared_key[OF assms(3)] assms(4) by (simp add: saved_capture_def map_photos_def)
  have "declared (saved_capture working r) = without_bytes (declared c)"
    using declared_bytes[of working] assms(3) by (simp add: saved_capture_def without_bytes_def)
  then have saved: "left_on_phone E key c body (Sub_saved r) w'" if "holding key (Some ((saved_capture working r)\<lparr>cap_updatedAt := t\<rparr>)) w'" for t
    using that assms(6) by (auto simp: saved_capture_def intro!: exI)
  show ?thesis
    by (rule save_kept[OF assms(1,2) z(1) key]) (use z(2) saved in \<open>simp_all del: left_on_phone.simps\<close>)
qed

lemma post_confirmation_effect:
  assumes "alone E key" "kept key c Cap_sending (Some b) w" "declared working = declared c" "cap_key c = key"
    "post_confirmation E lease working b w = (y, w')" "lease_generation lease = g"
  shows "left_on_phone E key c (Some b) (outcome_of y) w' \<and> sends_only (sent_of_check c (Some b) g) w w'"
proof (cases "isActorLeaseCurrent lease (w_custody w)")
  case False
  then show ?thesis using assms(2,5) by (auto simp: post_confirmation_def sends.rel_refl)
next
  case True
  have path: "cap_tripId working = cap_tripId c" "cap_requestId working = cap_requestId c" using declared_parts[OF assms(3)] by auto
  obtain z w1 where call: "confirmDriverSubstitution E (cap_tripId c) (cap_requestId c) b w = (z, w1)" by force
  have "call_of_check c (Some b) (confirmation_call c b)" by (simp add: call_of_check_def)
  moreover have "generation_of w = g" using True assms(6) lease_current_generation by auto
  ultimately have wire: "sends_only (sent_of_check c (Some b) g) w w1"
    using check_writes.post_rel[where g = g and w = w and c = c and body = "Some b" and E = E] call
    unfolding confirmDriverSubstitution_def confirmation_call_def by (metis snd_conv)
  have k1: "kept key c Cap_sending (Some b) w1" using keeps_kept[OF _ assms(1,2)] confirm_keeps call by (metis snd_conv)
  have refused: "left_on_phone E key c (Some b) (outcome_of y) w' \<and> w_wire w' = w_wire u"
    if "confirmation_refused E working err u = (y, w')" "kept key c Cap_sending (Some b) u" for err u
    using confirmation_refused_left[OF assms(1) that(2) assms(3,4) that(1)] refused_wire(2)[of E working err u] that(1) by simp
  show ?thesis
  proof (cases z)
    case (Inl err)
    then have "confirmation_refused E working err w1 = (y, w')"
      using assms(5) True call path by (simp add: post_confirmation_def)
    then show ?thesis using refused[OF _ k1] wire by (auto simp: sends_only_def)
  next
    case (Inr r)
    have took: "server_took E c (Some b)"
      using request_accepted[of E "confirmation_call c b" w r w1] call Inr
      by (auto simp: server_took_def confirmDriverSubstitution_def api_post_def confirmation_call_def success_body_def)
    obtain s w2 where s: "and_then (saveCapture E (saved_capture working r) w1) (\<lambda>_ w2. (Inr r, w2)) = (s, w2)" by force
    have same: "w_wire w2 = w_wire w1"
      using save_wire(1)[of E "saved_capture working r" w1] s
      by (cases "saveCapture E (saved_capture working r) w1"; cases "fst (saveCapture E (saved_capture working r) w1)") auto
    show ?thesis
    proof (cases s)
      case (Inl err)
      then have "confirmation_refused E working err w2 = (y, w')"
        using assms(5) True call path Inr s by (simp add: post_confirmation_def)
      moreover have "kept key c Cap_sending (Some b) w2" using saved_left[OF assms(1) k1 assms(3,4) s took] Inl by simp
      ultimately show ?thesis using refused wire same by (auto simp: sends_only_def)
    next
      case r': (Inr r')
      then have "y = Inr (Sub_saved r')" "w' = w2"
        using assms(5) True call path Inr s by (simp_all add: post_confirmation_def)
      then show ?thesis using saved_left[OF assms(1) k1 assms(3,4) s took] r' wire same by (auto simp: sends_only_def)
    qed
  qed
qed

text \<open>Whatever happens, the phone is left with the body that was, or may have been, posted.\<close>

lemma send_confirmation_effect:
  assumes "alone E key" "kept key c Cap_sending (cap_submittedBody c) w" "declared working = declared c" "cap_key c = key"
    "cap_submittedBody working = cap_submittedBody c" "cap_status working = Cap_sending"
    "send_confirmation E lease working w = (y, w')" "lease_generation lease = g"
  obtains body where "body = cap_submittedBody c \<or> cap_submittedBody c = None \<and> (\<exists>b. body = Some b \<and> body_of working = Inr b)"
    "left_on_phone E key c body (outcome_of y) w'" "sends_only (sent_of_check c body g) w w'"
proof (cases "isActorLeaseCurrent lease (w_custody w)")
  case False
  then show thesis using that[of "cap_submittedBody c"] assms(2,7) by (auto simp: send_confirmation_def sends.rel_refl)
next
  case lease: True
  show thesis
  proof (cases "body_of working")
    case (Inl m)
    then show thesis using that[of "cap_submittedBody c"] assms(2,7) lease by (auto simp: send_confirmation_def sends.rel_refl)
  next
    case body: (Inr b)
    show thesis
    proof (cases "cap_submittedBody working")
      case (Some b')
      then have eq: "b' = b" "cap_submittedBody c = Some b" using body assms(5) by (simp_all add: body_of_def)
      then have "post_confirmation E lease working b w = (y, w')" using assms(7) lease body Some by (simp add: send_confirmation_def)
      then show thesis using post_confirmation_effect[OF assms(1) _ assms(3,4) _ assms(8)] assms(2) eq that[of "Some b"] by auto
    next
      case None
      let ?fixed = "working\<lparr>cap_submittedBody := Some b\<rparr>"
      obtain z w1 where z: "saveCapture E ?fixed w = (z, w1)" by force
      have key: "cap_key ?fixed = key" using declared_key[OF assms(3)] assms(4) by simp
      have wire: "w_wire w1 = w_wire w" using save_wire(1)[of E ?fixed w] z by simp
      show thesis
      proof (rule save_kept[OF assms(1,2) z key], goal_cases)
        case (1 e)
        then have "y = Inl e" "w' = w1" using assms(7) lease body None z by (simp_all add: send_confirmation_def)
        then show thesis using 1 that[of "cap_submittedBody c"] wire by (auto simp: sends_only_def)
      next
        case (2 t)
        have "kept key c Cap_sending (Some b) w1" by (rule keptI[OF 2(2)]) (simp_all add: assms(3,6))
        moreover have "post_confirmation E lease ?fixed b w1 = (y, w')"
          using assms(7) lease body None z 2(1) by (simp add: send_confirmation_def)
        ultimately have "left_on_phone E key c (Some b) (outcome_of y) w' \<and> sends_only (sent_of_check c (Some b) g) w1 w'"
          using post_confirmation_effect[OF assms(1) _ _ assms(4) _ assms(8), of b w1 ?fixed] assms(3) by simp
        then show thesis using that[of "Some b"] None assms(5) body wire by (auto simp: sends_only_def)
      qed
    qed
  qed
qed

text \<open>A run that has nothing to send, or one that sends the stored capture of the signed-in driver.\<close>

definition sends_check :: "env \<Rightarrow> string \<Rightarrow> world \<Rightarrow> capture_send_outcome \<Rightarrow> world \<Rightarrow> substitution_capture \<Rightarrow> confirmation_body option \<Rightarrow> bool" where
  "sends_check E key w out w' c body \<longleftrightarrow> cap_status c = Cap_sending \<and> currentActorId (w_custody w) = Some (cap_actorId c)
     \<and> (body = cap_submittedBody c \<or> cap_submittedBody c = None
        \<and> (\<exists>b u. body = Some b \<and> declared u = declared c \<and> body_of u = Inr b \<and> cap_submittedBody u = None \<and> photos_filed E c u))
     \<and> sends_only (sent_of_check c body (generation_of w)) w w' \<and> left_on_phone E key c body out w'"

lemma read_capture_parts [simp]:
  "cap_status (read_capture c) = cap_status c" "cap_submittedBody (read_capture c) = cap_submittedBody c"
  "cap_actorId (read_capture c) = cap_actorId c" "cap_key (read_capture c) = cap_key c"
  "photos_of (read_capture c) = photos_of c" "cap_tripId (read_capture c) = cap_tripId c"
  "cap_requestId (read_capture c) = cap_requestId c" "cap_role (read_capture c) = cap_role c"
  by (simp_all add: read_capture_def photos_of_def)

lemma runSend_effect:
  assumes "alone E key" "holding key x w" "runSend E key w = (y, w')"
  obtains "w_wire w' = w_wire w" "holding key x w'" "outcome_of y = Sub_busy \<or> outcome_of y = Sub_waiting"
  | c body where "x = Some c" "sends_check E key w (outcome_of y) w' c body"
proof -
  obtain z w1 where get: "getCapture E key w = (z, w1)" by force
  have wire: "w_wire w1 = w_wire w" using save_wire(2)[of E key w] get by simp
  have got: "holding key x w1 \<and> (\<forall>found. z = Inr found \<longrightarrow> found = map_option read_capture x)"
    using get unfolding getCapture_def by (rule transact_captures_holding[OF assms(1,2)]) auto
  show thesis
  proof (cases "\<exists>lease c. captureActorLease (w_custody w) = Some lease \<and> z = Inr (Some (read_capture c)) \<and> x = Some c
      \<and> isActorLeaseCurrent lease (w_custody w1) \<and> cap_status c = Cap_sending \<and> cap_actorId c = lease_actorId lease")
    case False
    then have "w' = w1" "outcome_of y = Sub_busy \<or> outcome_of y = Sub_waiting"
      using assms(3) get got by (cases z; cases x; auto simp: runSend_def split: option.splits if_splits)+
    then show thesis using that(1) wire got by simp
  next
    case True
    then obtain lease c where t: "captureActorLease (w_custody w) = Some lease" "z = Inr (Some (read_capture c))" "x = Some c"
      "isActorLeaseCurrent lease (w_custody w1)" "cap_status c = Cap_sending" "cap_actorId c = lease_actorId lease" by blast
    let ?c = "read_capture c"
    have lg: "lease_generation lease = generation_of w" and la: "currentActorId (w_custody w) = Some (cap_actorId c)"
      using t(1,6) by (auto simp: captureActorLease_def actorGeneration_def currentActorId_def split: option.splits)
    have key: "cap_key c = key" using assms(2) t(3) by (auto simp: holding_def dest: db_get_key)
    have k1: "kept key c Cap_sending (cap_submittedBody c) w1" using got t(3,5) by (auto simp: kept_def)
    obtain r w2 where ph: "send_photos E lease key (photos_of c) ?c w1 = (r, w2)" by force
    have photos: "case r of Inr (Inr u) \<Rightarrow> kept key c Cap_sending (cap_submittedBody c) w2 \<and> declared u = declared c
        \<and> cap_submittedBody u = cap_submittedBody c \<and> cap_status u = Cap_sending
      | Inr (Inl out) \<Rightarrow> left_on_phone E key c (cap_submittedBody c) out w2
      | Inl _ \<Rightarrow> kept key c Cap_sending (cap_submittedBody c) w2"
      by (rule send_photos_left[OF assms(1) key order.refl k1 _ _ _ ph]) (simp_all add: t(5))
    have sends: "sends_only (sent_of_check c body (generation_of w)) w w2" for body
      using send_photos_sends[OF lg order.refl, where working = ?c and c = c and body = body and E = E and key = key and w = w1] ph wire by (auto simp: sends_only_def)
    have run: "and_then (r, w2) (\<lambda>r w2. case r of Inl out \<Rightarrow> (Inr out, w2) | Inr u \<Rightarrow> send_confirmation E lease u w2) = (y, w')"
      using assms(3) get t ph by (simp add: runSend_def)
    show thesis
    proof (cases "\<exists>u. r = Inr (Inr u)")
      case False
      then have "w' = w2" "left_on_phone E key c (cap_submittedBody c) (outcome_of y) w2"
        using run photos by (cases r; auto split: sum.splits)+
      then show thesis using that(2)[OF t(3), of "cap_submittedBody c"] t(5) la sends by (simp add: sends_check_def)
    next
      case True
      then obtain u where u: "r = Inr (Inr u)" by blast
      then have conf: "send_confirmation E lease u w2 = (y, w')" using run by simp
      have ok: "kept key c Cap_sending (cap_submittedBody c) w2" "declared u = declared c"
        "cap_submittedBody u = cap_submittedBody c" "cap_status u = Cap_sending" using photos u by simp_all
      have same: "filed_as E ?c = filed_as E c" by (rule filed_as_cong) simp_all
      have "photos_of ?c = photos_of c" "cap_sealChecks ?c = cap_sealChecks c" by (simp_all add: read_capture_def photos_of_def)
      then have up: "photos_filed E c u"
        using all_photos_uploaded[of E lease key ?c w1 u w2] ph u unfolding photos_filed_def same by simp
      obtain body where b: "body = cap_submittedBody c \<or> cap_submittedBody c = None \<and> (\<exists>b. body = Some b \<and> body_of u = Inr b)"
        "left_on_phone E key c body (outcome_of y) w'" "sends_only (sent_of_check c body (generation_of w)) w2 w'"
        by (rule send_confirmation_effect[OF assms(1) ok(1,2) key ok(3,4) conf lg])
      have "sends_check E key w (outcome_of y) w' c body"
        unfolding sends_check_def using b t(5) la ok up sends.rel_trans[OF sends b(3)] by auto
      then show thesis by (rule that(2)[OF t(3)])
    qed
  qed
qed

lemma send_effect:
  assumes "alone E key" "holding key x w" "sendSubstitutionCapture E key w = (out, w')"
  obtains "w_wire w' = w_wire w" "holding key x w'" "out = Sub_busy \<or> out = Sub_waiting"
  | c body where "x = Some c" "sends_check E key w out w' c body"
proof (cases "fst (take_lock (LOCK_PREFIX @ key) w)")
  case False
  then show thesis using that(1) assms(2,3)
    by (auto simp: sendSubstitutionCapture_def take_lock_def holding_def split: prod.splits)
next
  case True
  let ?l = "LOCK_PREFIX @ key"
  obtain w1 where w1: "take_lock ?l w = (True, w1)" using True by (cases "take_lock ?l w") auto
  have same: "w_wire w1 = w_wire w" "w_captures w1 = w_captures w" "w_custody w1 = w_custody w"
    using w1 by (auto simp: take_lock_def split: prod.splits)
  obtain y w2 where run: "runSend E key w1 = (y, w2)" by force
  have fin: "out = outcome_of y" "w' = drop_lock ?l w2"
    using assms(3) w1 run by (cases y; simp add: sendSubstitutionCapture_def)+
  have dropped: "w_wire w' = w_wire w2" "w_captures w' = w_captures w2" using fin by (simp_all add: drop_lock_def)
  have k: "kept key c st b w' = kept key c st b w2" "holding key z w' = holding key z w2" for c st b z
    using dropped by (simp_all add: kept_def holding_def)
  have left: "left_on_phone E key c body out' w' = left_on_phone E key c body out' w2" for c body out'
    by (cases out') (simp_all add: k)
  have start: "holding key x w1" using assms(2) same by (simp add: holding_def)
  from start run show thesis
  proof (cases rule: runSend_effect[OF assms(1), consumes 2, case_names idle sends])
    case idle
    then show thesis using that(1) fin same dropped k by simp
  next
    case (sends c body)
    have "sends_check E key w out w' c body"
      using sends(2) unfolding sends_check_def fin(1) left
      by (auto simp: same dropped sends_only_def)
    then show thesis by (rule that(2)[OF sends(1)])
  qed
qed

text \<open>What a send may leave of a stored capture, by its outcome.\<close>

fun stands_as :: "capture_send_outcome \<Rightarrow> substitution_capture \<Rightarrow> substitution_capture \<Rightarrow> bool" where
  "stands_as (Sub_saved r) c c' \<longleftrightarrow> cap_status c' = Cap_saved \<and> cap_result c' = Some (Reply r) \<and> declared c' = without_bytes (declared c)"
| "stands_as (Sub_not_pending _) c c' \<longleftrightarrow> cap_status c' = Cap_retained \<and> declared c' = declared c"
| "stands_as Sub_waiting c c' \<longleftrightarrow> cap_status c' = cap_status c \<and> declared c' = declared c"
| "stands_as Sub_busy c c' \<longleftrightarrow> c' = c"
| "stands_as _ c c' \<longleftrightarrow> cap_status c' = Cap_draft \<and> cap_submittedBody c' = None \<and> declared c' = declared c"

text \<open>Property C8. A driver's handover check is never lost by sending it: whatever the network, the server,
  the session and the phone's database did, as long as no other task changed it, the check is afterwards stored under
  its key with everything the driver declared - vehicles, seal answers, photos, note, time and place. It is a
  draft again after a refusal for its content or version, kept aside when the arrangement is closed, still waiting
  when there was no answer; and only when the server has accepted its confirmation is it saved, its answer
  stored, and the local bytes of its photos dropped.\<close>
theorem handover_check_is_never_lost:
  assumes "alone E key" "holding key (Some c) w" "sendSubstitutionCapture E key w = (out, w')"
  shows "(\<exists>c'. holding key (Some c') w' \<and> stands_as out c c')
    \<and> (\<forall>r. out = Sub_saved r \<longrightarrow> (\<exists>body res. answers E (confirmation_call c body) res \<and> rs_ok res))"
proof (rule send_effect[OF assms], goal_cases)
  case 1
  then show ?case by auto
next
  case (2 d body)
  then have "left_on_phone E key c body out w'" "cap_status c = Cap_sending" by (simp_all add: sends_check_def)
  then show ?case by (cases out) (auto simp: kept_def server_took_def)
qed

text \<open>The body that a press fixed names the press: its request id, version, time, place and vehicles.\<close>

definition bound_to :: "substitution_capture \<Rightarrow> confirmation_body \<Rightarrow> bool" where
  "bound_to c b \<longleftrightarrow> cs_client_request_id (core b) = cap_clientRequestId c \<and> cs_expected_version (core b) = cap_expectedVersion c
     \<and> Some (cs_captured_at (core b)) = cap_capturedAt c \<and> cs_confirmed_vehicle_ids (core b) = cap_confirmedVehicleIds c
     \<and> cs_latitude (core b) = map_option cpos_latitude (cap_position c)
     \<and> cs_longitude (core b) = map_option cpos_longitude (cap_position c)"

lemma built_body_bound: "legacyConfirmationBody u = Inr b \<Longrightarrow> declared u = declared c \<Longrightarrow> bound_to c (Legacy_body b)"
  using declared_parts[of u c] by (auto simp: legacyConfirmationBody_def bound_to_def Let_def split: option.splits)

lemma body_of_bound: "body_of u = Inr b \<Longrightarrow> declared u = declared c \<Longrightarrow> cap_submittedBody u = None \<Longrightarrow> bound_to c b"
  using built_body_bound[of u _ c]
  by (cases "legacyConfirmationBody u") (auto simp: body_of_def confirmationBody_def bound_to_def split: if_splits)

text \<open>Property C9. Only the driver who pressed confirm sends a check, and only as it was pressed: every request
  of a send leaves under the sign-in it was started in, which is that of the check's own driver; the check is one
  whose confirm button was pressed; and each request is an upload of one of its photos that has no artifact yet, under
  the photo's own request id, or its one confirmation - with the body fixed by an earlier attempt if there is
  one, and otherwise a body with the request id, version, time, place and vehicles of the press.\<close>
theorem only_the_pressed_check_is_sent:
  assumes "alone E key" "holding key x w" "sendSubstitutionCapture E key w = (out, w')"
  shows "\<exists>rs. w_wire w' = w_wire w @ rs \<and> (rs \<noteq> [] \<longrightarrow> (\<exists>c body. x = Some c
      \<and> cap_status c = Cap_sending \<and> currentActorId (w_custody w) = Some (cap_actorId c)
      \<and> (\<forall>r\<in>set rs. wr_generation r = generation_of w \<and> call_of_check c body (wr_call r))
      \<and> (case cap_submittedBody c of Some b \<Rightarrow> body = Some b | None \<Rightarrow> pred_option (bound_to c) body)))"
  using assms
proof (cases rule: send_effect[consumes 3, case_names idle sends])
  case idle
  then show ?thesis by simp
next
  case (sends c body)
  then obtain rs where rs: "w_wire w' = w_wire w @ rs" "\<forall>r\<in>set rs. wr_generation r = generation_of w \<and> call_of_check c body (wr_call r)"
    by (auto simp: sends_check_def sends_only_def sent_of_check_def list_all_iff)
  have "case cap_submittedBody c of Some b \<Rightarrow> body = Some b | None \<Rightarrow> pred_option (bound_to c) body"
    using sends(2) body_of_bound[of _ _ c] by (auto simp: sends_check_def split: option.split)
  then show ?thesis using sends rs unfolding sends_check_def by blast
qed

lemma send_wire:
  assumes "alone E key" "holding key x w" "sendSubstitutionCapture E key w = (out, w')"
  shows "\<exists>rs. w_wire w' = w_wire w @ rs"
  using assms by (cases rule: send_effect[consumes 3, case_names idle sends]) (auto simp: sends_check_def sends_only_def)

section \<open>One press, one confirmation\<close>

definition confirms :: "wire_request \<Rightarrow> bool" where
  "confirms r \<longleftrightarrow> (\<exists>b. call_payload (wr_call r) = Confirm_substitution b)"

text \<open>
  The life of a stored check between two presses: any number of sends of it, each with its own network,
  clock, failures and interruptions, and in between whatever else the app does without changing it or confirming
  anything.
\<close>

inductive resends :: "string \<Rightarrow> world \<Rightarrow> world \<Rightarrow> bool" for key w where
  nothing: "resends key w w"
| meanwhile: "resends key w u \<Longrightarrow> (\<And>x. holding key x u \<Longrightarrow> holding key x u') \<Longrightarrow> w_wire u' = w_wire u @ rs
    \<Longrightarrow> list_all (\<lambda>r. \<not> confirms r) rs \<Longrightarrow> resends key w u'"
| again: "resends key w u \<Longrightarrow> alone E key \<Longrightarrow> resends key w (snd (sendSubstitutionCapture E key u))"

definition one_confirmation :: "string \<Rightarrow> world \<Rightarrow> world \<Rightarrow> bool" where
  "one_confirmation key w u \<longleftrightarrow> (\<exists>y rs call. holding key y u \<and> w_wire u = w_wire w @ rs
     \<and> (\<forall>r\<in>set rs. confirms r \<longrightarrow> wr_call r = call)
     \<and> ((\<exists>r\<in>set rs. confirms r) \<longrightarrow> (\<forall>c. y = Some c \<longrightarrow> cap_status c = Cap_sending
          \<longrightarrow> (\<exists>b. cap_submittedBody c = Some b \<and> call = confirmation_call c b))))"

lemma holding_unique: "holding key x w \<Longrightarrow> holding key y w \<Longrightarrow> x = y"
  by (simp add: holding_def)

lemma confirmation_of_check: "call_of_check c body call \<Longrightarrow> call_payload call = Confirm_substitution b \<Longrightarrow>
    body = Some b \<and> call = confirmation_call c b"
  by (auto simp: call_of_check_def check_upload_call_def confirmation_call_def)

lemma left_sending:
  assumes "left_on_phone E key c body out w" "holding key (Some c') w" "cap_status c' = Cap_sending"
  shows "cap_submittedBody c' = body \<and> (\<forall>b. confirmation_call c' b = confirmation_call c b)"
proof (cases out)
  case Sub_waiting
  then obtain d where d: "holding key (Some d) w" "declared d = declared c" "cap_submittedBody d = body"
    using assms(1) by (auto simp: kept_def)
  then have "d = c'" using holding_unique[OF d(1) assms(2)] by simp
  then show ?thesis using d declared_parts[of c' c] by (simp add: confirmation_call_def)
qed (use assms in \<open>auto simp: kept_def dest!: holding_unique[OF _ assms(2)]\<close>)

lemma one_confirmation_again:
  assumes "one_confirmation key w u" "alone E key" "sendSubstitutionCapture E key u = (out, u')"
  shows "one_confirmation key w u'"
proof -
  obtain y rs call where inv: "holding key y u" "w_wire u = w_wire w @ rs" "\<forall>r\<in>set rs. confirms r \<longrightarrow> wr_call r = call"
    "(\<exists>r\<in>set rs. confirms r) \<Longrightarrow> y = Some c \<Longrightarrow> cap_status c = Cap_sending
       \<Longrightarrow> \<exists>b. cap_submittedBody c = Some b \<and> call = confirmation_call c b" for c
    using assms(1) unfolding one_confirmation_def by blast
  from assms(2) inv(1) assms(3) show ?thesis
  proof (cases rule: send_effect[consumes 3, case_names idle sends])
    case idle
    then show ?thesis unfolding one_confirmation_def using inv by metis
  next
    case (sends c body)
    then obtain rs' where new: "w_wire u' = w_wire w @ rs @ rs'" "\<forall>r\<in>set rs'. call_of_check c body (wr_call r)"
      using inv(2) by (auto simp: sends_check_def sends_only_def sent_of_check_def list_all_iff)
    have left: "left_on_phone E key c body out u'" and st: "cap_status c = Cap_sending"
      using sends(2) by (simp_all add: sends_check_def)
    obtain y' where y': "holding key y' u'"
      using left by (cases out) (auto simp: kept_def)
    show ?thesis
    proof (cases body)
      case None
      then have "\<forall>r\<in>set rs'. \<not> confirms r" using new(2) confirmation_of_check unfolding confirms_def by blast
      moreover have "\<not> (\<exists>r\<in>set rs. confirms r)"
        using inv(4)[OF _ sends(1) st] sends(2) None by (auto simp: sends_check_def)
      ultimately show ?thesis unfolding one_confirmation_def
        using y' new(1) by (intro exI[of _ y'] exI[of _ "rs @ rs'"]) auto
    next
      case (Some b)
      have old: "wr_call r = confirmation_call c b" if r: "r \<in> set rs" "confirms r" for r
      proof -
        obtain b' where b': "cap_submittedBody c = Some b'" "call = confirmation_call c b'"
          using inv(4)[OF _ sends(1) st] r by blast
        then have "b' = b" using sends(2) Some by (simp add: sends_check_def)
        then show ?thesis using b' inv(3) r by simp
      qed
      have "wr_call r = confirmation_call c b" if "r \<in> set rs'" "confirms r" for r
        using new(2) that confirmation_of_check[of c body "wr_call r"] Some unfolding confirms_def by blast
      moreover have "cap_submittedBody c' = Some b \<and> confirmation_call c b = confirmation_call c' b"
        if "y' = Some c'" "cap_status c' = Cap_sending" for c'
        using left_sending[OF left _ that(2)] y' that(1) Some by simp
      ultimately show ?thesis unfolding one_confirmation_def
        using y' new(1) old by (intro exI[of _ y'] exI[of _ "rs @ rs'"] exI[of _ "confirmation_call c b"]) auto
    qed
  qed
qed

lemma one_confirmation_meanwhile:
  assumes "one_confirmation key w u" "\<And>x. holding key x u \<Longrightarrow> holding key x u'" "w_wire u' = w_wire u @ rs'"
    "list_all (\<lambda>r. \<not> confirms r) rs'"
  shows "one_confirmation key w u'"
proof -
  obtain y rs call where inv: "holding key y u" "w_wire u = w_wire w @ rs" "\<forall>r\<in>set rs. confirms r \<longrightarrow> wr_call r = call"
    "(\<exists>r\<in>set rs. confirms r) \<longrightarrow> (\<forall>c. y = Some c \<longrightarrow> cap_status c = Cap_sending
       \<longrightarrow> (\<exists>b. cap_submittedBody c = Some b \<and> call = confirmation_call c b))"
    using assms(1) unfolding one_confirmation_def by blast
  have "w_wire u' = w_wire w @ (rs @ rs')" "\<forall>r\<in>set (rs @ rs'). confirms r \<longrightarrow> r \<in> set rs"
    using inv(2) assms(3,4) by (auto simp: list_all_iff)
  then show ?thesis unfolding one_confirmation_def
    using assms(2)[OF inv(1)] inv(3,4) by (intro exI[of _ y] exI[of _ "rs @ rs'"] exI[of _ call]) blast
qed

text \<open>Property C4. One press, one confirmation: however often the check of one press is sent - after lost
  answers, crashes, storage failures, restarts and changes of account, by the screen or by the background retry - every
  confirmation request that leaves the phone for it is the very same request, to the same arrangement, with the
  same request id and the same body.\<close>
theorem one_press_one_confirmation:
  assumes "resends key w w'" "holding key x w" "w_wire w' = w_wire w @ rs"
    "r \<in> set rs" "confirms r" "s \<in> set rs" "confirms s"
  shows "wr_call r = wr_call s"
proof -
  have "one_confirmation key w w'" using assms(1)
  proof induction
    case nothing
    show ?case unfolding one_confirmation_def using assms(2) by (intro exI[of _ x] exI[of _ "[]"]) auto
  next
    case (meanwhile u u' rs)
    then show ?case using one_confirmation_meanwhile by blast
  next
    case (again u E)
    show ?case using one_confirmation_again[OF again(3,2) prod.collapse[symmetric]] .
  qed
  then show ?thesis using assms(3-7) unfolding one_confirmation_def by auto
qed

section \<open>A check pressed without a connection\<close>

definition demo_pressed :: substitution_capture where
  "demo_pressed = demo_check\<lparr>cap_status := Cap_sending\<rparr>"

definition demo_phone :: world where
  "demo_phone = (demo_world [])\<lparr>w_captures := [demo_pressed]\<rparr>"

lemmas send_defs = sendSubstitutionCapture_def take_lock_def drop_lock_def tryReportLock_def runSend_def getCapture_def
  transact_captures_def captureActorLease_def isActorLeaseCurrent_def send_confirmation_def post_confirmation_def
  confirmDriverSubstitution_def api_post_def confirmation_refused_def saveCapture_def

definition demo_check_photo :: capture_photo where
  "demo_check_photo = \<lparr>cph_id = ''p'', cph_dataUrl = [], cph_capturedAt = ''t'', cph_uploadRequestId = ''q'', cph_uploadedArtifactId = Some ''a''\<rparr>"

definition demo_check_body :: confirmation_body where
  "demo_check_body = projr (body_of (read_capture demo_pressed))"

lemma demo_pressed_parts:
  "photos_of demo_pressed = [(0, 0, demo_check_photo)]" "body_of (read_capture demo_pressed) = Inr demo_check_body"
  "cap_status demo_pressed = Cap_sending" "cap_actorId demo_pressed = ''A''" "cap_submittedBody demo_pressed = None"
  "cap_key demo_pressed = ''A:r''" "cph_uploadedArtifactId demo_check_photo = Some ''a''"
  by (simp_all add: photos_of_def demo_check_photo_def demo_pressed_def demo_check_def demo_check_body_def body_of_def read_capture_def
      newCapture_def captureKey_def demo_context_def confirmationBody_def legacyConfirmationBody_def Let_def)

lemma demo_lock: "releaseReportLock i \<lparr>held = {i}, waiters = \<lambda>_. []\<rparr> = (None, no_locks)"
  by (simp add: releaseReportLock_def no_locks_def fun_upd_idem)

lemma sending_photos [simp]:
  "photos_of (c\<lparr>cap_submittedBody := b\<rparr>) = photos_of c" "photos_of (c\<lparr>cap_updatedAt := t\<rparr>) = photos_of c"
  by (simp_all add: photos_of_def)

lemmas demo_defs = send_defs demo_phone_def unreachable_def request_defs demo_world_def initialModule_def actorGeneration_def
  currentActorId_def plainApiError_def demo_pressed_parts db_get_def

definition first_try :: world where
  "first_try = snd (sendSubstitutionCapture unreachable ''A:r'' demo_phone)"

definition second_try :: world where
  "second_try = snd (sendSubstitutionCapture unreachable ''A:r'' first_try)"

lemma first_outcome: "fst (sendSubstitutionCapture unreachable ''A:r'' demo_phone) = Sub_waiting"
  by (simp add: demo_defs no_locks_def)

lemma two_tries: "\<exists>r s. w_wire second_try = [r, s] \<and> confirms r \<and> confirms s"
  by (simp add: second_try_def first_try_def demo_defs, simp add: no_locks_def demo_lock,
      simp add: demo_defs body_of_def confirms_def stamped_def no_locks_def)
lemma first_wire: "\<exists>r. w_wire first_try = [r]"
  by (simp add: first_try_def demo_defs no_locks_def)

lemma demo_start: "alone unreachable ''A:r''" "holding ''A:r'' (Some demo_pressed) demo_phone"
  "sendSubstitutionCapture unreachable ''A:r'' demo_phone = (Sub_waiting, first_try)"
  using first_outcome
  by (simp_all add: alone_def unreachable_def holding_def demo_phone_def db_inv_def db_get_def demo_pressed_parts first_try_def prod_eq_iff)

lemma handover_check_is_never_lost_witness:
  "\<exists>c'. holding ''A:r'' (Some c') first_try \<and> cap_status c' = Cap_sending \<and> declared c' = declared demo_pressed"
  using handover_check_is_never_lost[OF demo_start] by (auto simp: demo_pressed_parts)

lemma only_the_pressed_check_is_sent_witness:
  "\<exists>r c body. w_wire first_try = [r] \<and> call_of_check c body (wr_call r) \<and> cap_status c = Cap_sending \<and> wr_generation r = 0"
proof -
  obtain r where r: "w_wire first_try = [r]" using first_wire by blast
  have "w_wire demo_phone = []" "generation_of demo_phone = 0"
    by (simp_all add: demo_phone_def demo_world_def actorGeneration_def initialModule_def)
  then obtain c body where "cap_status c = Cap_sending" "wr_generation r = 0" "call_of_check c body (wr_call r)"
    using only_the_pressed_check_is_sent[OF demo_start] r by fastforce
  then show ?thesis using r by blast
qed

lemma one_press_one_confirmation_witness:
  "\<exists>r s. w_wire second_try = [r, s] \<and> confirms r \<and> wr_call r = wr_call s"
proof -
  obtain r s where rs: "w_wire second_try = [r, s]" "confirms r" "confirms s" using two_tries by blast
  have "resends ''A:r'' demo_phone second_try"
    unfolding second_try_def first_try_def by (intro resends.again resends.nothing demo_start(1))
  moreover have "w_wire second_try = w_wire demo_phone @ [r, s]" using rs by (simp add: demo_phone_def demo_world_def)
  ultimately have "wr_call r = wr_call s"
    using one_press_one_confirmation[OF _ demo_start(2), of second_try "[r, s]" r s] rs by simp
  then show ?thesis using rs by blast
qed

end
