(* ===== verification/SubstitutionScreen.thy ===== *)
theory SubstitutionScreen
  imports SubstitutionCapture
begin

text \<open>
  The screen of a handover check (the hook of \<open>lib/hooks/useSubstitutionCapture.ts\<close>): opening it on the server's
  arrangement and the stored check, edits of a draft, the press of confirm, and sending again. What React
  renders from it is not modelled; \<open>ss_ref\<close> is the check of the last render, which is what the
  callbacks read.

  \<open>view\<close> is the typed reading of an answer (the code trusts the schema), \<open>live\<close> says at which moments the
  effect is not yet cleaned up, and \<open>still\<close> whether the check on screen is the same object after the wait for
  the position.
\<close>

section \<open>State\<close>

datatype load_error = Could_not_load | Not_named

record check_screen =
  ss_tripId :: string
  ss_requestId :: string
  ss_actorId :: string
  ss_context :: "substitution_context option"
  ss_capture :: "substitution_capture option"
  ss_ref :: "substitution_capture option"
  ss_isLoading :: bool
  ss_loadError :: "load_error option"
  ss_isSending :: bool
  ss_storageError :: bool

type_synonym context_view = "json option \<Rightarrow> substitution_context"

definition render :: "check_screen \<Rightarrow> check_screen" where
  "render s = s\<lparr>ss_ref := ss_capture s\<rparr>"

text \<open>What a render shows.\<close>

definition shown_role :: "check_screen \<Rightarrow> substitution_role option" where
  "shown_role s = Option.bind (ss_context s) (\<lambda>context. substitutionRoleFor context (ss_actorId s))"

definition shown_submitted :: "check_screen \<Rightarrow> confirmation_summary option" where
  "shown_submitted s = Option.bind (ss_context s) (\<lambda>context. ownConfirmation context (ss_actorId s))"

definition shown_problems :: "check_screen \<Rightarrow> capture_problem list" where
  "shown_problems s = (case (ss_capture s, ss_context s) of
       (Some capture, Some context) \<Rightarrow> captureProblems capture (sr_vehicles context) | _ \<Rightarrow> [])"

section \<open>Opening\<close>

definition fetchDriverSubstitutionContext :: "env \<Rightarrow> context_view \<Rightarrow> string \<Rightarrow> string \<Rightarrow> world \<Rightarrow> (js_error + substitution_context) \<times> world" where
  "fetchDriverSubstitutionContext E view tripId requestId w =
     and_then (api_get E (substitution_path tripId requestId []) None w) (\<lambda>body w1. (Inr (view body), w1))"

text \<open>Which check the screen works on, for an arrangement that was read.\<close>

definition adopt_check :: "env \<Rightarrow> substitution_context \<Rightarrow> substitution_capture option \<Rightarrow> check_screen \<Rightarrow> world \<Rightarrow> check_screen \<times> world" where
  "adopt_check E loaded found s w = (case substitutionRoleFor loaded (ss_actorId s) of
       None \<Rightarrow> (s\<lparr>ss_loadError := Some Not_named\<rparr>, w)
     | Some role \<Rightarrow>
         if sr_request_format loaded = Some Immediate_v2 \<and> role = Outgoing then (s\<lparr>ss_capture := None\<rparr>, w)
         else (case found of
             None \<Rightarrow> let now = now_of E w; (uuid, w1) = randomUUID E w in
               (s\<lparr>ss_capture := Some (newCapture now uuid (ss_actorId s) loaded role)\<rparr>, w1)
           | Some c \<Rightarrow>
             if cap_status c = Cap_sending \<and> ownConfirmation loaded (ss_actorId s) \<noteq> None
             then let saved = c\<lparr>cap_status := Cap_saved, cap_result := Some (Context_read loaded), cap_note := None\<rparr>
               in (s\<lparr>ss_capture := Some saved\<rparr>, snd (saveCapture E saved w))
             else (s\<lparr>ss_capture := Some c\<rparr>, w)))"

definition open_check :: "env \<Rightarrow> context_view \<Rightarrow> (nat \<Rightarrow> bool) \<Rightarrow> check_screen \<Rightarrow> world \<Rightarrow> check_screen \<times> world" where
  "open_check E view live s w =
     (let s0 = s\<lparr>ss_isLoading := True\<rparr>;
          (answer, w1) = fetchDriverSubstitutionContext E view (ss_tripId s) (ss_requestId s) w;
          s1 = (case answer of Inl _ \<Rightarrow> if live (w_tick w1) then s0\<lparr>ss_loadError := Some Could_not_load\<rparr> else s0 | Inr _ \<Rightarrow> s0);
          loaded = (case answer of Inl _ \<Rightarrow> None | Inr context \<Rightarrow> Some context);
          (reading, w2) = getCapture E (captureKey (ss_actorId s) (ss_requestId s)) w1;
          s2 = (case reading of Inl _ \<Rightarrow> if live (w_tick w2) then s1\<lparr>ss_storageError := True\<rparr> else s1 | Inr _ \<Rightarrow> s1);
          found = (case reading of Inl _ \<Rightarrow> None | Inr c \<Rightarrow> c)
      in if \<not> live (w_tick w2) then (s2, w2)
         else let s3 = s2\<lparr>ss_context := loaded\<rparr>;
                  (s4, w3) = (case loaded of
                      Some context \<Rightarrow> adopt_check E context found s3 w2
                    | None \<Rightarrow> (case found of Some c \<Rightarrow> s3\<lparr>ss_capture := Some c\<rparr> | None \<Rightarrow> s3, w2))
              in (s4\<lparr>ss_isLoading := False\<rparr>, w3))"

definition refetch :: "env \<Rightarrow> context_view \<Rightarrow> check_screen \<Rightarrow> world \<Rightarrow> check_screen \<times> world" where
  "refetch E view s w =
     (let s0 = s\<lparr>ss_loadError := None\<rparr>
      in case fetchDriverSubstitutionContext E view (ss_tripId s) (ss_requestId s) w of
        (Inl _, w1) \<Rightarrow> (s0\<lparr>ss_loadError := Some Could_not_load\<rparr>, w1)
      | (Inr context, w1) \<Rightarrow> (case captureActorLease (w_custody w) of
            Some lease \<Rightarrow> (if isActorLeaseCurrent lease (w_custody w1) then s0\<lparr>ss_context := Some context\<rparr> else s0, w1)
          | None \<Rightarrow> (s0, w1)))"

section \<open>Edits of a draft\<close>

definition persist :: "env \<Rightarrow> substitution_capture \<Rightarrow> check_screen \<Rightarrow> world \<Rightarrow> check_screen \<times> world" where
  "persist E nxt s w = (let s1 = s\<lparr>ss_capture := Some nxt\<rparr> in
     case saveCapture E nxt w of
       (Inl _, w1) \<Rightarrow> (s1\<lparr>ss_storageError := True\<rparr>, w1)
     | (Inr _, w1) \<Rightarrow> (s1\<lparr>ss_storageError := False\<rparr>, w1))"

definition edit :: "env \<Rightarrow> (substitution_capture \<Rightarrow> substitution_capture) \<Rightarrow> check_screen \<Rightarrow> world \<Rightarrow> check_screen \<times> world" where
  "edit E change s w = (case ss_ref s of
       None \<Rightarrow> (s, w)
     | Some current \<Rightarrow> if cap_status current \<noteq> Cap_draft then (s, w) else persist E (change current) s w)"

definition updated :: "'a option \<Rightarrow> 'a \<Rightarrow> 'a" where
  "updated patch old = (case patch of None \<Rightarrow> old | Some v \<Rightarrow> v)"

text \<open>The check of one vehicle changes, the others stay.\<close>

definition at_vehicle :: "string \<Rightarrow> (capture_seal_check \<Rightarrow> capture_seal_check) \<Rightarrow> substitution_capture \<Rightarrow> substitution_capture" where
  "at_vehicle vehicleId change c = c\<lparr>cap_sealChecks := map (\<lambda>check.
     if csc_vehicleId check = vehicleId then change check else check) (cap_sealChecks c)\<rparr>"

definition update_check :: "env \<Rightarrow> string list option \<Rightarrow> string option \<Rightarrow> check_screen \<Rightarrow> world \<Rightarrow> check_screen \<times> world" where
  "update_check E vehicleIds note = edit E (\<lambda>c. c\<lparr>cap_confirmedVehicleIds := updated vehicleIds (cap_confirmedVehicleIds c),
     cap_discrepancyNote := updated note (cap_discrepancyNote c)\<rparr>)"

definition updateSealCheck :: "env \<Rightarrow> string \<Rightarrow> substitution_seal_condition option option \<Rightarrow> string option \<Rightarrow> string option
    \<Rightarrow> check_screen \<Rightarrow> world \<Rightarrow> check_screen \<times> world" where
  "updateSealCheck E vehicleId condition number reason = edit E (at_vehicle vehicleId (\<lambda>check.
     check\<lparr>csc_condition := updated condition (csc_condition check), csc_sealNumber := updated number (csc_sealNumber check),
       csc_notApplicableReason := updated reason (csc_notApplicableReason check)\<rparr>))"

definition addPhoto :: "env \<Rightarrow> string \<Rightarrow> string \<Rightarrow> check_screen \<Rightarrow> world \<Rightarrow> check_screen \<times> world" where
  "addPhoto E vehicleId dataUrl s w = (let (i, w1) = randomUUID E w; capturedAt = now_of E w1; (requestId, w2) = randomUUID E w1;
       photo = \<lparr>cph_id = i, cph_dataUrl = dataUrl, cph_capturedAt = capturedAt, cph_uploadRequestId = requestId,
         cph_uploadedArtifactId = None\<rparr>
     in edit E (at_vehicle vehicleId (\<lambda>check. check\<lparr>csc_photos := csc_photos check @ [photo]\<rparr>)) s w2)"

definition removePhoto :: "env \<Rightarrow> string \<Rightarrow> string \<Rightarrow> check_screen \<Rightarrow> world \<Rightarrow> check_screen \<times> world" where
  "removePhoto E vehicleId photoId = edit E (at_vehicle vehicleId (\<lambda>check.
     check\<lparr>csc_photos := filter (\<lambda>photo. cph_id photo \<noteq> photoId) (csc_photos check)\<rparr>))"

section \<open>Confirming\<close>

record observation =
  obs_position :: "driver_position option"
  obs_unavailableReason :: "location_unavailable_reason option"

text \<open>The check as a press fixes it.\<close>

definition pressed :: "iso \<Rightarrow> string \<Rightarrow> int \<Rightarrow> observation \<Rightarrow> substitution_capture \<Rightarrow> substitution_capture" where
  "pressed capturedAt uuid version obs current = current\<lparr>cap_status := Cap_sending, cap_clientRequestId := uuid,
     cap_expectedVersion := version, cap_submittedBody := None, cap_capturedAt := Some capturedAt,
     cap_captureFormat := Val Observation_v2,
     cap_locationObservedAt := nullable (Option.bind (obs_position obs) pos_capturedAt),
     cap_locationUnavailableReason := nullable (obs_unavailableReason obs),
     cap_position := map_option (\<lambda>fix. \<lparr>cpos_latitude = pos_lat fix, cpos_longitude = pos_lng fix,
       cpos_accuracyMetres = pos_accuracyM fix\<rparr>) (obs_position obs),
     cap_note := None\<rparr>"

definition runAndReload :: "env \<Rightarrow> context_view \<Rightarrow> string \<Rightarrow> check_screen \<Rightarrow> world \<Rightarrow> capture_send_outcome \<times> check_screen \<times> world" where
  "runAndReload E view key s w =
     (let s0 = s\<lparr>ss_isSending := True\<rparr>; (out, w1) = sendSubstitutionCapture E key w;
          finish = (\<lambda>s w. (out, s\<lparr>ss_isSending := False\<rparr>, w))
      in case captureActorLease (w_custody w) of
        None \<Rightarrow> finish s0 w1
      | Some lease \<Rightarrow>
          if \<not> isActorLeaseCurrent lease (w_custody w1) then finish s0 w1
          else let (reading, w2) = getCapture E key w1;
                   reloaded = (case reading of Inl _ \<Rightarrow> None | Inr c \<Rightarrow> c)
               in if \<not> isActorLeaseCurrent lease (w_custody w2) then finish s0 w2
                  else let s1 = (case reloaded of None \<Rightarrow> s0 | Some c \<Rightarrow> s0\<lparr>ss_capture := Some c\<rparr>)
                       in if out = Sub_waiting \<or> out = Sub_busy then finish s1 w2
                          else let (s2, w3) = refetch E view s1 w2 in finish s2 w3)"

text \<open>\<open>location\<close> is the app's position source, if there is one: its observation at a moment.\<close>

definition observe :: "env \<Rightarrow> (nat \<Rightarrow> observation) option \<Rightarrow> world \<Rightarrow> observation \<times> world" where
  "observe E location w = (case location of
       None \<Rightarrow> (\<lparr>obs_position = None, obs_unavailableReason = Some Location_unknown\<rparr>, w)
     | Some f \<Rightarrow> let w1 = await E w in (f (w_tick w1), w1))"

definition may_press :: "substitution_context \<Rightarrow> substitution_capture \<Rightarrow> bool" where
  "may_press context current \<longleftrightarrow> cap_status current = Cap_draft \<and> sr_state context = Sub_pending
     \<and> \<not> (sr_request_format context = Some Immediate_v2 \<and> cap_role current = Outgoing)
     \<and> captureProblems current (sr_vehicles context) = []"

definition submit :: "env \<Rightarrow> context_view \<Rightarrow> (nat \<Rightarrow> observation) option \<Rightarrow> bool \<Rightarrow> check_screen \<Rightarrow> world
    \<Rightarrow> capture_send_outcome option \<times> check_screen \<times> world" where
  "submit E view location still s w = (case (captureActorLease (w_custody w), ss_ref s, ss_context s) of
       (Some lease, Some current, Some context) \<Rightarrow>
         if cap_actorId current \<noteq> lease_actorId lease \<or> \<not> may_press context current then (None, s, w)
         else let capturedAt = now_of E w; (obs, w1) = observe E location w in
           if \<not> isActorLeaseCurrent lease (w_custody w1) \<or> \<not> still then (None, s, w1)
           else let (uuid, w2) = randomUUID E w1; sending = pressed capturedAt uuid (sr_version context) obs current in
             (case saveCapture E sending w2 of
                (Inl _, w3) \<Rightarrow> (None, s\<lparr>ss_storageError := True\<rparr>, w3)
              | (Inr _, w3) \<Rightarrow> let s1 = s\<lparr>ss_capture := Some sending\<rparr> in
                  if \<not> isActorLeaseCurrent lease (w_custody w3) then (Some Sub_waiting, s1, w3)
                  else (case runAndReload E view (cap_key sending) s1 w3 of (out, s2, w4) \<Rightarrow> (Some out, s2, w4)))
     | _ \<Rightarrow> (None, s, w))"

definition retry :: "env \<Rightarrow> context_view \<Rightarrow> check_screen \<Rightarrow> world \<Rightarrow> capture_send_outcome option \<times> check_screen \<times> world" where
  "retry E view s w = (case ss_ref s of
       None \<Rightarrow> (None, s, w)
     | Some current \<Rightarrow> if cap_status current \<noteq> Cap_sending then (None, s, w)
         else (case runAndReload E view (cap_key current) s w of (out, s1, w1) \<Rightarrow> (Some out, s1, w1)))"

section \<open>What a press sends\<close>

lemma problems_declared:
  assumes "declared u = declared c"
  shows "captureProblems u vehicles = captureProblems c vehicles"
    and "map csc_vehicleId (cap_sealChecks u) = map csc_vehicleId (cap_sealChecks c)"
proof -
  let ?k = "\<lambda>k. k\<lparr>csc_photos := map without_upload (csc_photos k)\<rparr>"
  have same: "map ?k (cap_sealChecks u) = map ?k (cap_sealChecks c)" by (rule declared_parts(12)[OF assms])
  have k: "check_problems vehicles (?k k) = check_problems vehicles k" for k
    by (simp add: check_problems_def registration_of_def Let_def)
  have plain: "map (check_problems vehicles) ks = map (check_problems vehicles) (map ?k ks)" for ks
    unfolding map_map comp_def k ..
  have "map (check_problems vehicles) (cap_sealChecks u) = map (check_problems vehicles) (cap_sealChecks c)"
    unfolding plain[of "cap_sealChecks u"] plain[of "cap_sealChecks c"] same ..
  then show "captureProblems u vehicles = captureProblems c vehicles"
    using declared_parts(10,11)[OF assms] by (simp add: captureProblems_def Let_def)
  have "map csc_vehicleId (map ?k (cap_sealChecks u)) = map csc_vehicleId (map ?k (cap_sealChecks c))" using same by simp
  then show "map csc_vehicleId (cap_sealChecks u) = map csc_vehicleId (cap_sealChecks c)" by (simp add: comp_def)
qed

lemma body_of_legacy:
  "body_of u = Inr b \<Longrightarrow> cap_submittedBody u = None \<Longrightarrow> legacyConfirmationBody u = Inr (core b)"
  by (cases "legacyConfirmationBody u") (auto simp: body_of_def confirmationBody_def split: if_splits)

definition no_confirmation :: "world \<Rightarrow> world \<Rightarrow> bool" where
  "no_confirmation = sends_only (\<lambda>r. \<not> confirms r)"

lemma fetch_silent: "no_confirmation w (snd (fetchDriverSubstitutionContext E view t r w))"
  unfolding fetchDriverSubstitutionContext_def api_get_def no_confirmation_def
  by (intro sends.and_then_rel sends.request_rel) (auto simp: stamped_def confirms_def sends.rel_refl)

lemma refetch_silent: "no_confirmation w (snd (refetch E view s w))"
proof -
  obtain x w1 where "fetchDriverSubstitutionContext E view (ss_tripId s) (ss_requestId s) w = (x, w1)" by force
  then show ?thesis using fetch_silent[of w E view "ss_tripId s" "ss_requestId s"]
    by (cases x) (simp_all add: refetch_def Let_def split: option.split)
qed

lemma reload_silent:
  assumes "runAndReload E view key s w = (out, s', w')"
  obtains w1 where "sendSubstitutionCapture E key w = (out, w1)" "no_confirmation w1 w'"
proof -
  obtain out' w1 where send: "sendSubstitutionCapture E key w = (out', w1)" by force
  obtain reading w2 where get: "getCapture E key w1 = (reading, w2)" by force
  have 1: "no_confirmation w1 w1" by (simp add: no_confirmation_def sends.rel_refl)
  have 2: "no_confirmation w1 w2" using save_wire(2)[of E key w1] get by (simp add: no_confirmation_def sends_only_def)
  have 3: "no_confirmation w1 (snd (refetch E view u w2))" for u
    using 2 refetch_silent[of w2 E view u] sends.rel_trans unfolding no_confirmation_def by blast
  have "out = out' \<and> no_confirmation w1 w'"
    using assms send get 1 2 3 unfolding runAndReload_def Let_def
    by (auto split: option.splits if_splits prod.splits) (metis snd_conv)+
  then show thesis using that send by simp
qed

lemma observe_frame:
  assumes "observe E location w = (obs, w1)"
  shows "w_wire w1 = w_wire w" "alone E key \<Longrightarrow> holding key x w \<Longrightarrow> holding key x w1"
  using assms by (auto simp: observe_def Let_def await_holding split: option.splits)

lemma pressed_parts [simp]:
  "cap_key (pressed t i v obs c) = cap_key c" "cap_status (pressed t i v obs c) = Cap_sending"
  "cap_submittedBody (pressed t i v obs c) = None" "cap_sealChecks (pressed t i v obs c) = cap_sealChecks c"
  "cap_expectedVersion (pressed t i v obs c) = v" "cap_actorId (pressed t i v obs c) = cap_actorId c"
  "cap_clientRequestId (pressed t i v obs c) = i"
  "captureProblems (pressed t i v obs c) vehicles = captureProblems c vehicles"
  "captureProblems (c\<lparr>cap_updatedAt := t\<rparr>) vehicles = captureProblems c vehicles"
  by (simp_all add: pressed_def captureProblems_def)

text \<open>What a press has sent when it is over: nothing, or the check it fixed.\<close>

lemma submit_sends:
  assumes "submit E view location still s w = (res, s', w')" "\<And>c. ss_ref s = Some c \<Longrightarrow> cap_key c = key"
    "alone E key" "holding key x w"
  obtains "no_confirmation w w'"
  | current ctx t i obs t' w2 w3 out where "ss_ref s = Some current" "ss_context s = Some ctx"
      "may_press ctx current" "currentActorId (w_custody w) = Some (cap_actorId current)" "w_wire w2 = w_wire w"
      "holding key (Some ((pressed t i (sr_version ctx) obs current)\<lparr>cap_updatedAt := t'\<rparr>)) w2"
      "sendSubstitutionCapture E key w2 = (out, w3)" "no_confirmation w3 w'" "i = env_uuid E (w_uuids w)"
proof (cases "\<exists>lease current ctx. captureActorLease (w_custody w) = Some lease \<and> ss_ref s = Some current
    \<and> ss_context s = Some ctx \<and> cap_actorId current = lease_actorId lease \<and> may_press ctx current")
  case False
  then have "w' = w" using assms(1) by (auto simp: submit_def split: option.splits)
  then show thesis using that(1) by (simp add: no_confirmation_def sends.rel_refl)
next
  case True
  then obtain lease current ctx where t: "captureActorLease (w_custody w) = Some lease" "ss_ref s = Some current"
    "ss_context s = Some ctx" "cap_actorId current = lease_actorId lease" "may_press ctx current" by blast
  have actor: "currentActorId (w_custody w) = Some (cap_actorId current)"
    using t(1,4) by (auto simp: captureActorLease_def currentActorId_def split: option.splits)
  obtain obs w1 where obs: "observe E location w = (obs, w1)" by force
  note frame = observe_frame[OF obs]
  have silent: "no_confirmation w v" if "w_wire v = w_wire w" for v
    using that by (simp add: no_confirmation_def sends_only_def)
  show thesis
  proof (cases "isActorLeaseCurrent lease (w_custody w1) \<and> still")
    case False
    then have "w' = w1" using assms(1) t obs by (auto simp: submit_def Let_def)
    then show thesis using that(1) silent frame(1) by simp
  next
    case go: True
    obtain i w2 where i: "randomUUID E w1 = (i, w2)" by force
    have uuid: "i = env_uuid E (w_uuids w)"
      using i obs by (auto simp: randomUUID_def observe_def Let_def split: option.splits)
    have w2: "w_wire w2 = w_wire w" "holding key x w2"
      using i frame assms(3,4) by (auto simp: randomUUID_def holding_def)
    let ?sent = "pressed (now_of E w) i (sr_version ctx) obs current"
    have key: "cap_key ?sent = key" using assms(2) t(2) by simp
    obtain r w3 where r: "saveCapture E ?sent w2 = (r, w3)" by force
    have w3: "w_wire w3 = w_wire w" using save_wire(1)[of E ?sent w2] r w2 by simp
    from assms(3) w2(2) r key show thesis
    proof (cases rule: saveCapture_holding[consumes 4, case_names fails stores])
      case (fails e)
      then have "w' = w3" using assms(1) t obs go i r by (auto simp: submit_def Let_def)
      then show thesis using that(1) silent w3 by simp
    next
      case (stores t')
      show thesis
      proof (cases "isActorLeaseCurrent lease (w_custody w3)")
        case False
        then have "w' = w3" using assms(1) t obs go i r stores by (auto simp: submit_def Let_def)
        then show thesis using that(1) silent w3 by simp
      next
        case True
        obtain out s2 w4 where run: "runAndReload E view key (s\<lparr>ss_capture := Some ?sent\<rparr>) w3 = (out, s2, w4)"
          by (metis prod_cases3)
        then have "w' = w4" using assms(1) t obs go i r stores True key by (auto simp: submit_def Let_def)
        moreover obtain w5 where "sendSubstitutionCapture E key w3 = (out, w5)" "no_confirmation w5 w4"
          by (rule reload_silent[OF run])
        ultimately show thesis using that(2)[OF t(2,3,5) actor w3 stores(2)] uuid by simp
      qed
    qed
  qed
qed

lemma legacy_seal_checks:
  "legacyConfirmationBody u = Inr b \<Longrightarrow> cs_seal_checks b = concat (map (\<lambda>check. case csc_condition check of
     None \<Rightarrow> [] | Some condition \<Rightarrow> [sealCheckBody check condition]) (cap_sealChecks u))"
  by (auto simp: legacyConfirmationBody_def Let_def split: option.splits)

lemma filed_answers:
  assumes "photos_filed E c u" "captureProblems u vehicles = []"
  shows "list_all2 (\<lambda>k chk. list_all2 (filed_as E c) (csc_photos k) (chk_photo_artifact_ids chk)) (cap_sealChecks c)
    (concat (map (\<lambda>check. case csc_condition check of None \<Rightarrow> [] | Some condition \<Rightarrow> [sealCheckBody check condition]) (cap_sealChecks u)))"
proof -
  have "\<forall>k\<in>set (cap_sealChecks u). check_problems vehicles k = []"
    using assms(2) by (simp add: captureProblems_def Let_def)
  moreover have "check_problems vehicles k \<noteq> []" if "csc_condition k = None" for k
    using that by (simp add: check_problems_def Let_def)
  ultimately have answered: "\<forall>k\<in>set (cap_sealChecks u). csc_condition k \<noteq> None" by blast
  have ids: "list_all2 (filed_as E c) ps (List.map_filter cph_uploadedArtifactId qs)"
    if "list_all2 (\<lambda>p q. \<exists>i. cph_uploadedArtifactId q = Some i \<and> filed_as E c p i) ps qs" for ps qs
    using that by (induction rule: list_all2_induct) (auto simp: map_filter_simps)
  have "list_all2 (\<lambda>k chk. list_all2 (filed_as E c) (csc_photos k) (chk_photo_artifact_ids chk)) ks
    (concat (map (\<lambda>check. case csc_condition check of None \<Rightarrow> [] | Some condition \<Rightarrow> [sealCheckBody check condition]) ks'))"
    if "list_all2 (\<lambda>k k'. list_all2 (\<lambda>p q. \<exists>i. cph_uploadedArtifactId q = Some i \<and> filed_as E c p i) (csc_photos k) (csc_photos k')) ks ks'"
      "\<forall>k\<in>set ks'. csc_condition k \<noteq> None" for ks ks'
    using that by (induction rule: list_all2_induct) (auto simp: sealCheckBody_def intro: ids)
  then show ?thesis using assms(1) answered by (simp add: photos_filed_def)
qed

text \<open>Property C5. A press sends a check the contract accepts, or nothing. Every confirmation request that
  leaves the phone while a press of confirm is handled belongs to the draft on the screen, of the signed-in driver,
  for an arrangement still open and with no problem left; it goes out against the version on screen, under the
  request id drawn for this press, confirms every vehicle of the arrangement and answers for exactly the vehicles of
  the check, each answer as the contract asks; and each answer names every photo the driver took for it, in their
  order and one id each: the id on record for the photo, or the id in the answer by which the server accepted
  the upload of that photo for this check.\<close>
theorem press_sends_a_ready_check:
  assumes "submit E view location still s w = (res, s', w')" "\<And>c. ss_ref s = Some c \<Longrightarrow> cap_key c = key"
    "alone E key" "holding key x w" "w_wire w' = w_wire w @ rs" "r \<in> set rs"
    "call_payload (wr_call r) = Confirm_substitution b"
  shows "\<exists>current ctx. ss_ref s = Some current \<and> ss_context s = Some ctx \<and> may_press ctx current
    \<and> currentActorId (w_custody w) = Some (cap_actorId current)
    \<and> cs_expected_version (core b) = sr_version ctx
    \<and> set (map veh_id (sr_vehicles ctx)) \<subseteq> set (cs_confirmed_vehicle_ids (core b))
    \<and> map chk_vehicle_id (cs_seal_checks (core b)) = map csc_vehicleId (cap_sealChecks current)
    \<and> list_all meets_contract (cs_seal_checks (core b)) \<and> pred_option in_bounds (cs_discrepancy_note (core b))
    \<and> cs_client_request_id (core b) = env_uuid E (w_uuids w)
    \<and> list_all2 (\<lambda>k chk. list_all2 (filed_as E current) (csc_photos k) (chk_photo_artifact_ids chk))
        (cap_sealChecks current) (cs_seal_checks (core b))"
proof (rule submit_sends[OF assms(1,2,3,4)], goal_cases)
  case (1 c)
  then show ?case .
next
  case silent: 2
  then show ?case using assms(5-7) by (auto simp: no_confirmation_def sends_only_def list_all_iff confirms_def)
next
  case sends: (3 current ctx t i obs t' w2 w3 out)
  let ?sent = "(pressed t i (sr_version ctx) obs current)\<lparr>cap_updatedAt := t'\<rparr>"
  obtain rs1 rs2 where parts: "w_wire w3 = w_wire w2 @ rs1" "rs = rs1 @ rs2" "list_all (\<lambda>r. \<not> confirms r) rs2"
  proof -
    obtain rs2 where rs2: "w_wire w' = w_wire w3 @ rs2" "list_all (\<lambda>r. \<not> confirms r) rs2"
      using sends(8) by (auto simp: no_confirmation_def sends_only_def)
    obtain rs1 where "w_wire w3 = w_wire w2 @ rs1"
      using send_wire[OF assms(3) sends(6,7)] by blast
    then show thesis using that rs2 sends(5) assms(5) by simp
  qed
  have mem: "r \<in> set rs1" using assms(6,7) parts by (auto simp: list_all_iff confirms_def)
  from assms(3) sends(6,7) show ?case
  proof (cases rule: send_effect[consumes 3, case_names idle sends])
    case idle
    then show ?thesis using parts(1) mem by simp
  next
    case send: (sends c body)
    have c: "c = ?sent" using send(1) by simp
    have call: "call_of_check c body (wr_call r)"
      using send(2) parts(1) mem by (auto simp: sends_check_def sends_only_def sent_of_check_def list_all_iff)
    have body: "body = Some b" using confirmation_of_check[OF call assms(7)] by simp
    then obtain u where u: "declared u = declared c" "body_of u = Inr b" "cap_submittedBody u = None" "photos_filed E c u"
      using send(2) c by (auto simp: sends_check_def)
    have ready: "captureProblems u (sr_vehicles ctx) = []"
      using problems_declared(1)[OF u(1)] sends(3) c by (simp add: may_press_def)
    note legacy = body_of_legacy[OF u(2,3)]
    note contract = ready_check_meets_the_contract[OF ready filed_uploaded[OF u(4)] legacy]
    have bound: "cs_expected_version (core b) = sr_version ctx" "cs_client_request_id (core b) = env_uuid E (w_uuids w)"
      using body_of_bound[OF u(2,1,3)] c sends(9) by (simp_all add: bound_to_def)
    note legacy_seal_checks[OF legacy]
    moreover have "filed_as E c = filed_as E current" unfolding c by (rule filed_as_cong) (simp_all add: pressed_def)
    ultimately have "list_all2 (\<lambda>k chk. list_all2 (filed_as E current) (csc_photos k) (chk_photo_artifact_ids chk))
        (cap_sealChecks current) (cs_seal_checks (core b))"
      using filed_answers[OF u(4) ready] c by simp
    then show ?thesis using sends(1-4) contract bound problems_declared(2)[OF u(1)] c by simp
  qed
qed

definition draft_screen :: check_screen where
  "draft_screen = \<lparr>ss_tripId = ''T'', ss_requestId = ''r'', ss_actorId = ''A'', ss_context = Some demo_context,
     ss_capture = Some demo_check, ss_ref = Some demo_check, ss_isLoading = False, ss_loadError = None, ss_isSending = False,
     ss_storageError = False\<rparr>"

definition draft_phone :: world where
  "draft_phone = (demo_world [])\<lparr>w_captures := [demo_check]\<rparr>"

lemma draft_parts:
  "cap_status demo_check = Cap_draft" "cap_actorId demo_check = ''A''" "cap_key demo_check = ''A:r''" "cap_role demo_check = Incoming"
  "photos_of demo_check = [(0, 0, demo_check_photo)]"
  by (simp_all add: demo_check_def newCapture_def captureKey_def demo_context_def photos_of_def demo_check_photo_def)

lemma photos_pressed: "photos_of (pressed t i v obs c) = photos_of c"
  by (simp add: photos_of_def)

lemma draft_may_press: "may_press demo_context demo_check"
  by (simp add: may_press_def demo_check_ready draft_parts) (simp add: demo_context_def)

text \<open>The check that a press without a position fixes, and its body.\<close>

definition fixed_check :: substitution_capture where
  "fixed_check = pressed ''now'' [] 3 \<lparr>obs_position = None, obs_unavailableReason = Some Location_unknown\<rparr> demo_check"

definition fixed_body :: confirmation_body where
  "fixed_body = projr (body_of (read_capture (fixed_check\<lparr>cap_updatedAt := ''now''\<rparr>)))"

lemma fixed_parts:
  "cap_status fixed_check = Cap_sending" "cap_actorId fixed_check = ''A''" "cap_key fixed_check = ''A:r''"
  "cap_submittedBody fixed_check = None" "photos_of fixed_check = [(0, 0, demo_check_photo)]"
  "body_of (read_capture (fixed_check\<lparr>cap_updatedAt := ''now''\<rparr>)) = Inr fixed_body" "sr_version demo_context = 3"
  by (simp_all add: fixed_check_def draft_parts photos_pressed)
    (simp_all add: demo_context_def fixed_body_def body_of_def read_capture_def fixed_check_def pressed_def confirmationBody_def
      legacyConfirmationBody_def Let_def)

lemma press_run:
  "\<exists>r. w_wire (snd (snd (submit unreachable (\<lambda>_. demo_context) None True draft_screen draft_phone))) = [r]
    \<and> call_payload (wr_call r) = Confirm_substitution fixed_body"
  by (simp add: submit_def draft_screen_def draft_phone_def demo_defs draft_may_press draft_parts observe_def randomUUID_def
      fixed_check_def[symmetric] fixed_parts runAndReload_def no_locks_def stamped_def)

lemma press_sends_a_ready_check_witness:
  "cs_expected_version (core fixed_body) = 3 \<and> list_all meets_contract (cs_seal_checks (core fixed_body))
   \<and> ''h'' \<in> set (cs_confirmed_vehicle_ids (core fixed_body))"
proof -
  obtain r where r: "w_wire (snd (snd (submit unreachable (\<lambda>_. demo_context) None True draft_screen draft_phone))) = [r]"
    "call_payload (wr_call r) = Confirm_substitution fixed_body" using press_run by blast
  obtain res s' w' where run: "submit unreachable (\<lambda>_. demo_context) None True draft_screen draft_phone = (res, s', w')"
    by (metis prod_cases3)
  have key: "cap_key c = ''A:r''" if "ss_ref draft_screen = Some c" for c using that by (simp add: draft_screen_def draft_parts)
  have hold: "holding ''A:r'' (Some demo_check) draft_phone"
    by (simp add: holding_def draft_phone_def db_inv_def db_get_def draft_parts)
  have wire: "w_wire w' = w_wire draft_phone @ [r]" using r(1) run by (simp add: draft_phone_def demo_world_def)
  obtain current ctx where ctx: "ss_context draft_screen = Some ctx" "cs_expected_version (core fixed_body) = sr_version ctx"
    "set (map veh_id (sr_vehicles ctx)) \<subseteq> set (cs_confirmed_vehicle_ids (core fixed_body))"
    "list_all meets_contract (cs_seal_checks (core fixed_body))"
    using press_sends_a_ready_check[OF run key demo_start(1) hold wire _ r(2)] by auto
  have "ctx = demo_context" using ctx(1) by (simp add: draft_screen_def)
  moreover have "sr_vehicles demo_context = [\<lparr>veh_id = ''h'', veh_registration = ''H1'', veh_type = Horse\<rparr>]"
    by (simp add: demo_context_def)
  ultimately show ?thesis using ctx(2-4) fixed_parts(7) by simp
qed

end
