(* ===== verification/CheckTypes.thy ===== *)
theory CheckTypes
  imports SubstitutionScreen
begin

text \<open>
  What kind of thing a stored handover check is. \<open>capture_ok\<close> says how the fields of a check hang together in
  each of its states; every operation of the screen, of the sender and of the background retry keeps it
  (preservation), and a check in the state \<open>sending\<close> always has a body to send (progress).
\<close>

section \<open>Well-formed checks\<close>

definition capture_ok :: "substitution_capture \<Rightarrow> bool" where
  "capture_ok c \<longleftrightarrow> cap_key c = captureKey (cap_actorId c) (cap_requestId c)
     \<and> (cap_status c = Cap_draft \<longrightarrow> cap_submittedBody c = None)
     \<and> (cap_status c = Cap_sending \<longrightarrow> cap_capturedAt c \<noteq> None)
     \<and> (cap_status c = Cap_saved \<longrightarrow> cap_result c \<noteq> None)
     \<and> pred_option (bound_to c) (cap_submittedBody c)"

definition world_ok :: "world \<Rightarrow> bool" where
  "world_ok w \<longleftrightarrow> db_inv cap_key (w_captures w) \<and> list_all capture_ok (w_captures w)"

definition screen_ok :: "check_screen \<Rightarrow> bool" where
  "screen_ok s \<longleftrightarrow> pred_option capture_ok (ss_capture s) \<and> pred_option capture_ok (ss_ref s)"

text \<open>The other tasks of the app, which run the same code, store nothing else either.\<close>

definition well_behaved :: "env \<Rightarrow> bool" where
  "well_behaved E \<longleftrightarrow> (\<forall>n. \<forall>e\<in>set (env_events E n). \<forall>w. world_ok w \<longrightarrow> world_ok (apply_event e w))"

definition keeps_ok :: "env \<Rightarrow> world \<Rightarrow> world \<Rightarrow> bool" where
  "keeps_ok E w w' \<longleftrightarrow> (well_behaved E \<longrightarrow> world_ok w \<longrightarrow> world_ok w')"

lemma bound_frame [simp]:
  "bound_to (c\<lparr>cap_status := st\<rparr>) = bound_to c" "bound_to (c\<lparr>cap_submittedBody := b\<rparr>) = bound_to c"
  "bound_to (c\<lparr>cap_result := r\<rparr>) = bound_to c" "bound_to (c\<lparr>cap_note := n\<rparr>) = bound_to c"
  "bound_to (c\<lparr>cap_updatedAt := t\<rparr>) = bound_to c" "bound_to (c\<lparr>cap_sealChecks := ks\<rparr>) = bound_to c"
  "bound_to (read_capture c) = bound_to c"
  by (simp_all add: bound_to_def fun_eq_iff read_capture_def)

lemma ok_frame [simp]:
  "capture_ok (c\<lparr>cap_updatedAt := t\<rparr>) = capture_ok c" "capture_ok (c\<lparr>cap_note := n\<rparr>) = capture_ok c"
  "capture_ok (c\<lparr>cap_sealChecks := ks\<rparr>) = capture_ok c" "capture_ok (read_capture c) = capture_ok c"
  by (simp_all add: capture_ok_def) (simp add: read_capture_def)

lemma ok_photos [simp]: "capture_ok (map_photos f c) = capture_ok c" "capture_ok (set_photo i j p c) = capture_ok c"
  by (simp_all add: map_photos_def set_photo_def)

lemma ok_states:
  assumes "capture_ok c"
  shows "capture_ok (c\<lparr>cap_status := Cap_draft, cap_submittedBody := None, cap_note := n\<rparr>)"
    and "capture_ok (c\<lparr>cap_status := Cap_retained, cap_note := n\<rparr>)"
    and "capture_ok (saved_capture c r)"
    and "capture_ok (c\<lparr>cap_status := Cap_saved, cap_result := Some a, cap_note := n\<rparr>)"
    and "body_of c = Inr b \<Longrightarrow> capture_ok (c\<lparr>cap_submittedBody := Some b\<rparr>) \<or> cap_status c = Cap_draft"
  using assms body_of_bound[of c b c]
  by (auto simp: capture_ok_def saved_capture_def map_photos_def body_of_def split: option.splits)

lemma ok_newCapture: "capture_ok (newCapture now uuid actorId ctx role)"
  by (simp add: capture_ok_def newCapture_def)

lemma ok_pressed: "capture_ok c \<Longrightarrow> capture_ok (pressed t i v obs c)"
  by (simp add: capture_ok_def) (simp add: pressed_def)

lemma ok_sending_has_body: "capture_ok c \<Longrightarrow> cap_status c = Cap_sending \<Longrightarrow> \<exists>b. body_of c = Inr b \<and> bound_to c b"
  using body_of_bound[of c _ c]
  by (cases "cap_submittedBody c") (auto simp: capture_ok_def body_of_def confirmationBody_def legacyConfirmationBody_def Let_def)

section \<open>The store\<close>

interpretation typed: write_rel "keeps_ok E" E "\<lambda>_. True" g "\<lambda>_. True" for E :: env and g :: nat
proof unfold_locales
  have fold: "world_ok (fold apply_event es w)"
    if "\<forall>e\<in>set es. \<forall>w. world_ok w \<longrightarrow> world_ok (apply_event e w)" "world_ok w" for es w
    using that by (induction es arbitrary: w) auto
  have frame: "world_ok (u\<lparr>w_tick := k\<rparr>) = world_ok u" for u k by (simp add: world_ok_def)
  show "keeps_ok E w (await E w)" for w
    by (simp add: keeps_ok_def well_behaved_def await_def frame fold)
  show "keeps_ok E s u" if "keeps_ok E s t" "keeps_ok E t u" for s t u
    using that by (simp add: keeps_ok_def)
qed (simp_all add: keeps_ok_def world_ok_def emit_def)

lemma put_ok: "db_inv cap_key db \<Longrightarrow> list_all capture_ok db \<Longrightarrow> capture_ok c \<Longrightarrow>
    db_inv cap_key (db_put cap_key c db) \<and> list_all capture_ok (db_put cap_key c db)"
  by (auto simp: db_inv_put list_all_iff db.all_put)

lemma transact_captures_ok:
  assumes "\<And>now db. db_inv cap_key db \<Longrightarrow> list_all capture_ok db \<Longrightarrow>
      db_inv cap_key (snd (work now db)) \<and> list_all capture_ok (snd (work now db))"
  shows "keeps_ok E w (snd (transact_captures E work w))"
proof (cases "env_lateDb E (w_tick (await E w))")
  case (Some m)
  then have "snd (transact_captures E work w) = await E (await E w)" by (simp add: transact_captures_def Let_def)
  then show ?thesis by (simp only:) (intro typed.await_step typed.rel_refl)
next
  case None
  let ?w = "await E w"
  obtain r db where rd: "work (now_of E ?w) (w_captures ?w) = (r, db)" by force
  have "keeps_ok E ?w (?w\<lparr>w_captures := db\<rparr>)"
    using assms[of "w_captures ?w" "now_of E ?w"] rd by (simp add: keeps_ok_def world_ok_def)
  then have "keeps_ok E w (await E (?w\<lparr>w_captures := db\<rparr>))"
    by (intro typed.await_step[OF typed.rel_trans[OF typed.await_rel]])
  moreover have "snd (transact_captures E work w) = await E (?w\<lparr>w_captures := db\<rparr>)"
    using None rd by (simp only: transact_captures_def Let_def option.case prod.case snd_conv)
  ultimately show ?thesis by (simp only:)
qed

lemma check_save_ok: "capture_ok c \<Longrightarrow> keeps_ok E w (snd (saveCapture E c w))"
  unfolding saveCapture_def by (rule transact_captures_ok) (simp add: put_ok)

lemma record_ok: "keeps_ok E w (snd (recordCapturePhotoUploaded E key p a w))"
  unfolding recordCapturePhotoUploaded_def
  by (rule transact_captures_ok)
    (auto simp: list_all_iff db_inv_put db.all_put db_get_def dest!: find_in_set split: option.split)

lemma get_ok: "keeps_ok E w (snd (getCapture E key w))"
  unfolding getCapture_def by (rule transact_captures_ok) simp

lemma list_ok: "keeps_ok E w (snd (listCaptures E w))"
  unfolding listCaptures_def by (rule transact_captures_ok) simp

lemma got_ok:
  assumes "well_behaved E" "world_ok w" "getCapture E key w = (Inr (Some c), w')"
  shows "capture_ok c"
proof -
  have "world_ok (await E w)" using typed.await_rel[of E w] assms(1,2) by (simp add: keeps_ok_def)
  moreover obtain d where "db_get cap_key key (w_captures (await E w)) = Some d" "c = read_capture d"
    using assms(3) by (auto simp: getCapture_def transact_captures_def Let_def split: option.splits)
  ultimately show ?thesis by (auto simp: world_ok_def list_all_iff db_get_def dest: find_in_set)
qed

section \<open>Sending keeps checks well formed\<close>

lemma settle_ok: "keeps_ok E w (snd r) \<Longrightarrow> keeps_ok E w (snd (settle_as out r))"
  by (cases r; cases "fst r") (auto simp: settle_as_def)

lemma refused_ok:
  assumes "capture_ok c"
  shows "keeps_ok E w (snd (photo_refused E c err w))" "keeps_ok E w (snd (confirmation_refused E c err w))"
  using ok_states(1,2)[OF assms]
  by (auto simp: photo_refused_def confirmation_refused_def Let_def backToDraft_def retain_capture_def typed.rel_refl
      intro!: settle_ok check_save_ok split: live_write_failure.split)

lemma stop_ok: "keeps_ok E w (snd r) \<Longrightarrow> keeps_ok E w (snd (stop_with r))"
  by (cases r; cases "fst r") (auto simp: stop_with_def)

lemma upload_ok: "keeps_ok E w (snd (uploadSubstitutionArtifact E t r role up i w))"
  unfolding uploadSubstitutionArtifact_def Let_def
proof (intro typed.and_then_rel, goal_cases)
  case (3 form u v w')
  then show ?case using typed.assert_generation_returns[of _ u] by (auto intro!: typed.post_rel)
qed (auto simp: typed.form_rel typed.assert_rel typed.rel_refl)

lemma send_photos_ok:
  "capture_ok working \<Longrightarrow> keeps_ok E w (snd (send_photos E lease key ps working w))"
proof (induction E lease key ps working w rule: send_photos.induct)
  case (2 E lease key i j photo rest working w)
  show ?case
  proof (cases "cph_uploadedArtifactId photo \<noteq> None \<or> \<not> isActorLeaseCurrent lease (w_custody w)")
    case True
    then show ?thesis using 2 by (auto simp: typed.rel_refl)
  next
    case False
    then show ?thesis
      unfolding send_photos.simps Let_def
      using 2 by (auto intro!: typed.attempt_rel upload_ok record_ok stop_ok refused_ok)
  qed
qed (simp add: typed.rel_refl)

lemma sent_photos_ok:
  "capture_ok working \<Longrightarrow> send_photos E lease key ps working w = (Inr (Inr u), w') \<Longrightarrow>
   capture_ok u \<and> cap_status u = cap_status working"
proof (induction ps arbitrary: working w)
  case (Cons q rest)
  obtain i j photo where q: "q = (i, j, photo)" by (cases q)
  show ?case
  proof (cases "cph_uploadedArtifactId photo \<noteq> None \<or> \<not> isActorLeaseCurrent lease (w_custody w)")
    case True
    then show ?thesis using Cons q by (auto split: if_splits)
  next
    case False
    then obtain a w2 where
      "send_photos E lease key rest (set_photo i j (photo\<lparr>cph_uploadedArtifactId := Some a\<rparr>) working) w2 = (Inr (Inr u), w')"
      using Cons.prems(2) q
      by (auto simp: stop_with_def Let_def attempt_def split: if_splits prod.splits sum.splits elim!: and_then_cases)
    from Cons.IH[OF _ this] show ?thesis using Cons.prems(1) by (simp add: set_photo_def)
  qed
qed simp

lemma post_confirmation_ok:
  assumes "capture_ok c"
  shows "keeps_ok E w (snd (post_confirmation E lease c b w))"
proof -
  have "keeps_ok E w (snd (confirmDriverSubstitution E t r b w))" for t r w
    unfolding confirmDriverSubstitution_def by (rule typed.post_rel) simp_all
  then show ?thesis
    unfolding post_confirmation_def using refused_ok[OF assms] ok_states(3)[OF assms]
    by (auto intro!: typed.attempt_rel typed.and_then_rel check_save_ok simp: typed.rel_refl)
qed

lemma send_confirmation_ok:
  assumes "capture_ok c" "cap_status c = Cap_sending"
  shows "keeps_ok E w (snd (send_confirmation E lease c w))"
proof (cases "body_of c")
  case (Inr b)
  then have "capture_ok (c\<lparr>cap_submittedBody := Some b\<rparr>)" using ok_states(5)[OF assms(1)] assms(2) by auto
  then show ?thesis
    unfolding send_confirmation_def using Inr assms(1)
    by (auto simp: typed.rel_refl Let_def intro!: typed.and_then_rel check_save_ok post_confirmation_ok)
qed (simp add: send_confirmation_def typed.rel_refl)

lemma runSend_ok: "keeps_ok E w (snd (runSend E key w))"
proof (cases "well_behaved E \<and> world_ok w")
  case True
  show ?thesis
    unfolding runSend_def
  proof (rule typed.and_then_rel[OF get_ok], goal_cases)
    case (1 found w1)
    show ?case
    proof (cases "\<exists>lease c. captureActorLease (w_custody w) = Some lease \<and> found = Some c \<and> cap_status c = Cap_sending")
      case False
      then show ?thesis by (auto simp: typed.rel_refl split: option.split)
    next
      case t: True
      then obtain lease c where c: "captureActorLease (w_custody w) = Some lease" "found = Some c" "cap_status c = Cap_sending" by blast
      have ok: "capture_ok c" using got_ok[of E w key c w1] True 1 c(2) by simp
      have "keeps_ok E w1 (snd (and_then (send_photos E lease key (photos_of c) c w1) (\<lambda>r w2. case r of
          Inl outcome \<Rightarrow> (Inr outcome, w2) | Inr working \<Rightarrow> send_confirmation E lease working w2)))"
      proof (rule typed.and_then_rel[OF send_photos_ok[OF ok]], goal_cases)
        case (1 r w2)
        then show ?case using sent_photos_ok[OF ok, of E lease key "photos_of c" w1 _ w2] c(3)
          by (cases r) (auto simp: typed.rel_refl send_confirmation_ok)
      qed
      then show ?thesis using c by (simp add: typed.rel_refl)
    qed
  qed
qed (auto simp: keeps_ok_def)

lemma send_ok: "keeps_ok E w (snd (sendSubstitutionCapture E key w))"
proof -
  obtain got w1 where l: "take_lock (LOCK_PREFIX @ key) w = (got, w1)" by force
  have 1: "keeps_ok E w w1" using l by (auto simp: take_lock_def typed.locks_rel split: prod.splits)
  have 2: "keeps_ok E w (drop_lock i (snd (runSend E key w1)))" for i
    unfolding drop_lock_def by (intro typed.rel_trans[OF typed.rel_trans[OF 1 runSend_ok] typed.locks_rel])
  show ?thesis
    using 1 2 l by (cases got; cases "runSend E key w1"; cases "fst (runSend E key w1)")
      (auto simp: sendSubstitutionCapture_def)
qed

lemma flush_captures_ok: "keeps_ok E w (snd (flush_captures E lease a cs w))"
proof (induction cs arbitrary: w)
  case (Cons c cs)
  obtain out w1 where o: "sendSubstitutionCapture E (cap_key c) w = (out, w1)" by force
  obtain any w2 where f: "flush_captures E lease a cs w1 = (any, w2)" by force
  have "keeps_ok E w w2" using send_ok[of E w "cap_key c"] Cons[of w1] o f typed.rel_trans by fastforce
  then show ?case using Cons[of w] o f by (simp add: typed.rel_refl split: option.split)
qed (simp add: typed.rel_refl)

lemma flush_ok: "keeps_ok E w (snd (flushSubstitutionCaptures E w))"
proof (cases "currentActorId (w_custody w)")
  case (Some a)
  obtain r w1 where l: "listCaptures E w = (r, w1)" by force
  then have "keeps_ok E w w1" using list_ok[of E w] by simp
  then show ?thesis using Some l typed.rel_trans[OF _ flush_captures_ok]
    by (cases r) (simp_all add: flushSubstitutionCaptures_def)
qed (simp add: flushSubstitutionCaptures_def typed.rel_refl)

section \<open>The screen keeps checks well formed\<close>

text \<open>What a step of the screen does: \<open>keeps\<close> for the screen and the phone together.\<close>

definition safe_step :: "env \<Rightarrow> check_screen \<times> world \<Rightarrow> check_screen \<times> world \<Rightarrow> bool" where
  "safe_step E p q \<longleftrightarrow> (well_behaved E \<longrightarrow> screen_ok (fst p) \<longrightarrow> world_ok (snd p) \<longrightarrow> screen_ok (fst q) \<and> world_ok (snd q))"

lemma screen_frame [simp]:
  "screen_ok (s\<lparr>ss_isLoading := b\<rparr>) = screen_ok s" "screen_ok (s\<lparr>ss_isSending := b\<rparr>) = screen_ok s"
  "screen_ok (s\<lparr>ss_storageError := b\<rparr>) = screen_ok s" "screen_ok (s\<lparr>ss_loadError := e\<rparr>) = screen_ok s"
  "screen_ok (s\<lparr>ss_context := ctx\<rparr>) = screen_ok s"
  by (simp_all add: screen_ok_def)

lemma screen_capture: "screen_ok s \<Longrightarrow> pred_option capture_ok c \<Longrightarrow> screen_ok (s\<lparr>ss_capture := c\<rparr>)"
  by (simp add: screen_ok_def)

lemma keeps_okD: "keeps_ok E w w' \<Longrightarrow> well_behaved E \<Longrightarrow> world_ok w \<Longrightarrow> world_ok w'"
  by (simp add: keeps_ok_def)

lemma fetch_ok: "keeps_ok E w (snd (fetchDriverSubstitutionContext E view t r w))"
  unfolding fetchDriverSubstitutionContext_def api_get_def
  by (intro typed.and_then_rel typed.request_rel) (auto simp: typed.rel_refl)

lemma refetch_ok: "safe_step E (s, w) (refetch E view s w)"
proof -
  obtain x w1 where "fetchDriverSubstitutionContext E view (ss_tripId s) (ss_requestId s) w = (x, w1)" by force
  then show ?thesis using keeps_okD[OF fetch_ok[of E w view "ss_tripId s" "ss_requestId s"]]
    by (cases x) (auto simp: safe_step_def refetch_def Let_def split: option.split)
qed

lemma persist_ok: "capture_ok c \<Longrightarrow> safe_step E (s, w) (persist E c s w)"
proof -
  assume c: "capture_ok c"
  obtain r w1 where "saveCapture E c w = (r, w1)" by force
  then show ?thesis using keeps_okD[OF check_save_ok[OF c, of E w]] c
    by (cases r) (auto simp: safe_step_def persist_def Let_def screen_capture)
qed

text \<open>Edits touch what the driver declares, and only on a draft.\<close>

lemma edit_ok:
  assumes "\<And>c. cap_status c = Cap_draft \<Longrightarrow> capture_ok c \<Longrightarrow> capture_ok (change c)"
  shows "safe_step E (s, w) (edit E change s w)"
proof (cases "\<exists>c. ss_ref s = Some c \<and> cap_status c = Cap_draft")
  case True
  then obtain c where c: "ss_ref s = Some c" "cap_status c = Cap_draft" by blast
  then show ?thesis using persist_ok[of "change c" E s w] assms[of c]
    by (auto simp: edit_def safe_step_def screen_ok_def)
qed (auto simp: edit_def safe_step_def split: option.split)

lemma at_vehicle_ok: "capture_ok c \<Longrightarrow> capture_ok (at_vehicle v f c)"
  by (simp add: at_vehicle_def)

lemma declared_edit_ok: "cap_status c = Cap_draft \<Longrightarrow> capture_ok c \<Longrightarrow>
    capture_ok (c\<lparr>cap_confirmedVehicleIds := ids, cap_discrepancyNote := n\<rparr>)"
  by (simp add: capture_ok_def)

lemma uuid_step: "safe_step E (s, snd (randomUUID E w)) q \<Longrightarrow> safe_step E (s, w) q"
  by (simp add: safe_step_def randomUUID_def world_ok_def)

lemma adopt_ok:
  assumes "pred_option capture_ok found"
  shows "safe_step E (s, w) (adopt_check E loaded found s w)"
proof (cases found)
  case None
  have "safe_step E (s, snd (randomUUID E w)) (adopt_check E loaded found s w)"
    using None by (auto simp: adopt_check_def safe_step_def Let_def randomUUID_def screen_capture ok_newCapture world_ok_def
        split: option.split)
  then show ?thesis by (rule uuid_step)
next
  case (Some c)
  then have c: "capture_ok c" using assms by simp
  note saved = ok_states(4)[OF c, where a = "Context_read loaded" and n = None]
  show ?thesis
    using Some c saved keeps_okD[OF check_save_ok[OF saved, of E w]]
    by (auto simp: adopt_check_def safe_step_def Let_def screen_capture split: option.split)
qed

lemma open_ok: "safe_step E (s, w) (open_check E view live s w)"
proof (cases "well_behaved E \<and> screen_ok s \<and> world_ok w")
  case True
  obtain answer w1 where f: "fetchDriverSubstitutionContext E view (ss_tripId s) (ss_requestId s) w = (answer, w1)" by force
  have w1: "world_ok w1" using keeps_okD[OF fetch_ok[of E w view "ss_tripId s" "ss_requestId s"]] True f by simp
  obtain reading w2 where g: "getCapture E (captureKey (ss_actorId s) (ss_requestId s)) w1 = (reading, w2)" by force
  have w2: "world_ok w2" using keeps_okD[OF get_ok[of E w1 "captureKey (ss_actorId s) (ss_requestId s)"]] True w1 g by simp
  have found: "pred_option capture_ok (case reading of Inl _ \<Rightarrow> None | Inr c \<Rightarrow> c)"
    using got_ok[OF _ w1, of E _ _ w2] True g by (auto split: sum.split) (metis option.pred_inject(2) not_None_eq option.pred_inject(1))
  have adopt: "screen_ok (fst (adopt_check E ctx (case reading of Inl _ \<Rightarrow> None | Inr c \<Rightarrow> c) u w2))
      \<and> world_ok (snd (adopt_check E ctx (case reading of Inl _ \<Rightarrow> None | Inr c \<Rightarrow> c) u w2))" if "screen_ok u" for ctx u
    using adopt_ok[OF found, of E u w2 ctx] True w2 that by (simp add: safe_step_def)
  show ?thesis
    unfolding open_check_def safe_step_def Let_def f g prod.case
    using True w2 found adopt
    by (auto simp: screen_capture split: sum.split option.split prod.split) (metis fst_conv snd_conv screen_frame)+
qed (auto simp: safe_step_def)

lemma reload_ok: "safe_step E (s, w) (snd (runAndReload E view key s w))"
proof (cases "well_behaved E \<and> screen_ok s \<and> world_ok w")
  case True
  obtain out w1 where send: "sendSubstitutionCapture E key w = (out, w1)" by force
  have w1: "world_ok w1" using keeps_okD[OF send_ok[of E w key]] True send by simp
  obtain reading w2 where g: "getCapture E key w1 = (reading, w2)" by force
  have w2: "world_ok w2" using keeps_okD[OF get_ok[of E w1 key]] True w1 g by simp
  have found: "capture_ok c" if "reading = Inr (Some c)" for c using got_ok[OF _ w1, of E key c w2] True g that by simp
  have again: "screen_ok u' \<and> world_ok w'" if "refetch E view u w2 = (u', w')" "screen_ok u" for u u' w'
    using refetch_ok[of E u w2 view] True w2 that by (simp add: safe_step_def)
  show ?thesis
    unfolding runAndReload_def safe_step_def Let_def send g prod.case
    using True w1 w2 found again
    by (auto simp: screen_capture split: option.split sum.split prod.split)
qed (auto simp: safe_step_def)

lemma submit_ok: "safe_step E (s, w) (snd (submit E view location still s w))"
proof (cases "well_behaved E \<and> screen_ok s \<and> world_ok w \<and> (\<exists>lease current ctx. captureActorLease (w_custody w) = Some lease
    \<and> ss_ref s = Some current \<and> ss_context s = Some ctx)")
  case True
  then obtain lease current ctx where t: "captureActorLease (w_custody w) = Some lease" "ss_ref s = Some current" "ss_context s = Some ctx"
    by blast
  have current: "capture_ok current" using True t by (simp add: screen_ok_def)
  obtain obs w1 where obs: "observe E location w = (obs, w1)" by force
  have w1: "world_ok w1" using obs True keeps_okD[OF typed.await_rel[of E w]]
    by (auto simp: observe_def Let_def split: option.splits)
  obtain i w2 where i: "randomUUID E w1 = (i, w2)" by force
  have w2: "world_ok w2" using i w1 by (auto simp: randomUUID_def world_ok_def)
  let ?sent = "pressed (now_of E w) i (sr_version ctx) obs current"
  have sent: "capture_ok ?sent" by (rule ok_pressed[OF current])
  obtain r w3 where r: "saveCapture E ?sent w2 = (r, w3)" by force
  have w3: "world_ok w3" using keeps_okD[OF check_save_ok[OF sent, of E w2]] True w2 r by simp
  have run: "screen_ok s' \<and> world_ok w'"
    if "runAndReload E view k (s\<lparr>ss_capture := Some ?sent\<rparr>) w3 = (out, s', w')" for k out s' w'
    using reload_ok[of E "s\<lparr>ss_capture := Some ?sent\<rparr>" w3 view k] that True sent w3 by (simp add: safe_step_def screen_capture)
  show ?thesis
    unfolding submit_def safe_step_def Let_def t obs i r prod.case option.case
    using True w1 w3 sent run by (auto simp: screen_capture split: sum.split prod.split)
qed (auto simp: safe_step_def submit_def split: option.split)

lemma retry_ok: "safe_step E (s, w) (snd (retry E view s w))"
proof (cases "ss_ref s")
  case (Some c)
  obtain out s' w' where "runAndReload E view (cap_key c) s w = (out, s', w')" by (metis prod_cases3)
  then show ?thesis using reload_ok[of E s w view "cap_key c"] Some by (auto simp: retry_def safe_step_def)
qed (simp add: retry_def safe_step_def)

section \<open>Every run\<close>

text \<open>
  A run of the screen on a phone: its own operations in any order, renders, the background retry, and anything
  else the app does that stores only well-formed checks; each with an environment of its own.
\<close>

inductive check_run :: "check_screen \<times> world \<Rightarrow> check_screen \<times> world \<Rightarrow> bool" for origin where
  at_start: "check_run origin origin"
| renders: "check_run origin (s, w) \<Longrightarrow> check_run origin (render s, w)"
| opens: "check_run origin (s, w) \<Longrightarrow> well_behaved E \<Longrightarrow> check_run origin (open_check E view live s w)"
| refetches: "check_run origin (s, w) \<Longrightarrow> well_behaved E \<Longrightarrow> check_run origin (refetch E view s w)"
| updates: "check_run origin (s, w) \<Longrightarrow> well_behaved E \<Longrightarrow> check_run origin (update_check E ids n s w)"
| answers_seal: "check_run origin (s, w) \<Longrightarrow> well_behaved E \<Longrightarrow> check_run origin (updateSealCheck E v condition number reason s w)"
| adds_photo: "check_run origin (s, w) \<Longrightarrow> well_behaved E \<Longrightarrow> check_run origin (addPhoto E v url s w)"
| removes_photo: "check_run origin (s, w) \<Longrightarrow> well_behaved E \<Longrightarrow> check_run origin (removePhoto E v p s w)"
| presses: "check_run origin (s, w) \<Longrightarrow> well_behaved E \<Longrightarrow> check_run origin (snd (submit E view location still s w))"
| retries: "check_run origin (s, w) \<Longrightarrow> well_behaved E \<Longrightarrow> check_run origin (snd (retry E view s w))"
| flushes: "check_run origin (s, w) \<Longrightarrow> well_behaved E \<Longrightarrow> check_run origin (s, snd (flushSubstitutionCaptures E w))"
| elsewhere: "check_run origin (s, w) \<Longrightarrow> (world_ok w \<longrightarrow> world_ok w') \<Longrightarrow> check_run origin (s, w')"

lemma check_run_ok:
  assumes "check_run origin p" "screen_ok (fst origin)" "world_ok (snd origin)"
  shows "screen_ok (fst p) \<and> world_ok (snd p)"
proof -
  have step: "screen_ok (fst q) \<and> world_ok (snd q)"
    if "safe_step E (s, w) q" "well_behaved E" "screen_ok (fst (s, w)) \<and> world_ok (snd (s, w))" for E s w q
    using that by (simp add: safe_step_def)
  show ?thesis using assms(1)
  proof induction
    case (renders s w)
    then show ?case by (simp add: render_def screen_ok_def)
  next
    case (updates s w E ids n)
    show ?case unfolding update_check_def
      by (rule step[OF edit_ok updates(2,3)]) (simp add: declared_edit_ok)
  next
    case (answers_seal s w E v condition number reason)
    show ?case unfolding updateSealCheck_def
      by (rule step[OF edit_ok answers_seal(2,3)]) (simp add: at_vehicle_ok)
  next
    case (removes_photo s w E v p)
    show ?case unfolding removePhoto_def
      by (rule step[OF edit_ok removes_photo(2,3)]) (simp add: at_vehicle_ok)
  next
    case (adds_photo s w E v url)
    have "safe_step E (s, w) (addPhoto E v url s w)"
      by (rule uuid_step, rule uuid_step) (simp add: addPhoto_def Let_def case_prod_unfold edit_ok at_vehicle_ok)
    then show ?case by (rule step[OF _ adds_photo(2,3)])
  next
    case (flushes s w E)
    then show ?case using keeps_okD[OF flush_ok[of E w]] by simp
  next
    case (opens s w E view live)
    show ?case by (rule step[OF open_ok opens(2,3)])
  next
    case (refetches s w E view)
    show ?case by (rule step[OF refetch_ok refetches(2,3)])
  next
    case (presses s w E view location still)
    show ?case by (rule step[OF submit_ok presses(2,3)])
  next
    case (retries s w E view)
    show ?case by (rule step[OF retry_ok retries(2,3)])
  qed (use assms(2,3) in simp_all)
qed

text \<open>Property C10. A stored check is always one of four kinds, whatever the driver, the server, the clock,
  the failures of the phone and the order of operations: a draft has no fixed body, a pressed check has its time and
  always a body that can be sent - the code's own "needs its capture time" is never thrown - a saved one has
  the server's answer; a fixed body has the request id, version, time, place and vehicles of the check it is
  stored with; and every check is stored under the key of its own driver and arrangement.\<close>
theorem checks_stay_well_formed:
  assumes "check_run origin (s, w)" "screen_ok (fst origin)" "world_ok (snd origin)"
  shows "screen_ok s \<and> (\<forall>c\<in>set (w_captures w). capture_ok c
    \<and> (cap_status c = Cap_sending \<longrightarrow> (\<exists>b. body_of c = Inr b \<and> bound_to c b)))"
  using check_run_ok[OF assms] ok_sending_has_body by (auto simp: world_ok_def list_all_iff)

definition empty_screen :: check_screen where
  "empty_screen = \<lparr>ss_tripId = ''T'', ss_requestId = ''r'', ss_actorId = ''A'', ss_context = None, ss_capture = None, ss_ref = None,
     ss_isLoading = True, ss_loadError = None, ss_isSending = False, ss_storageError = False\<rparr>"

lemma demo_phone_ok: "well_behaved unreachable" "screen_ok empty_screen" "world_ok demo_phone"
  by (simp_all add: well_behaved_def unreachable_def screen_ok_def empty_screen_def world_ok_def demo_phone_def db_inv_def
      capture_ok_def demo_pressed_def demo_check_def newCapture_def)

lemma checks_stay_well_formed_witness:
  "list_all capture_ok (w_captures (snd (flushSubstitutionCaptures unreachable demo_phone)))"
proof -
  have "check_run (empty_screen, demo_phone) (empty_screen, snd (flushSubstitutionCaptures unreachable demo_phone))"
    by (rule check_run.flushes[OF check_run.at_start demo_phone_ok(1)])
  from checks_stay_well_formed[OF this] show ?thesis using demo_phone_ok(2,3) by (simp add: list_all_iff)
qed

section \<open>A check that could not be read\<close>

text \<open>
  When the stored check cannot be read at the moment the screen opens, the screen starts a new draft under the
  same key, and the first edit that is stored replaces the check that was there - here one that was pressed and is
  waiting to be sent, with its photo.
\<close>

definition unreadable :: env where
  "unreadable = quiet\<lparr>env_lateDb := (\<lambda>_. Some ''blocked'')\<rparr>"

definition reopened :: "check_screen \<times> world" where
  "reopened = open_check unreadable (\<lambda>_. demo_context) (\<lambda>_. True) empty_screen demo_phone"

lemma unreadable_check_is_overwritten:
  "holding ''A:r'' (Some demo_pressed) demo_phone
   \<and> (\<exists>c. holding ''A:r'' (Some c) (snd (update_check quiet None (Some ''x'') (render (fst reopened)) (snd reopened)))
        \<and> cap_status c = Cap_draft \<and> photos_of c = [])"
proof -
  have new: "fst reopened = empty_screen\<lparr>ss_isLoading := False, ss_storageError := True, ss_context := Some demo_context,
        ss_capture := Some (newCapture ''now'' [] ''A'' demo_context Incoming)\<rparr>
      \<and> w_captures (snd reopened) = [demo_pressed]"
    by (simp add: reopened_def open_check_def fetchDriverSubstitutionContext_def api_get_def request_defs unreadable_def await_quiet
        empty_screen_def demo_phone_def demo_world_def initialModule_def actorGeneration_def answer_def getCapture_def
        transact_captures_def adopt_check_def substitutionRoleFor_def demo_context_def randomUUID_def)
  then show ?thesis using demo_start(2)
    by (simp add: update_check_def edit_def render_def persist_def saveCapture_def transact_captures_def Let_def newCapture_def
        holding_def db_get_def db_inv_def updated_def demo_pressed_parts captureKey_def demo_context_def photos_of_def
        sealApplicableVehicles_def sealExpectation_def PHASES_BEFORE_SEAL_def SEAL_APPLYING_PHASE_def emptySealCheck_def empty_screen_def)
qed

end
