(* ===== verification/DispatchPlan.thy ===== *)
theory DispatchPlan
  imports PhasePlan
begin

text \<open>
  The phase ledger as the dispatcher's console reads it (\<open>dispatcher/lib/phase/derive.ts\<close>): where a trip
  is, which seal a leg carries, which counts and anchors are on record and how much of the plan is done.
  Quotients are computed in doubles, as the code computes them.
\<close>

section \<open>Doubles\<close>

text \<open>The nearest double, ties to even (no quotient here is near the limits of the format).\<close>

definition round_half_even :: "real \<Rightarrow> int" where
  "round_half_even y = (let n = \<lfloor>y\<rfloor>; d = y - of_int n in
     if d < 1/2 then n else if d > 1/2 then n + 1 else if even n then n else n + 1)"

definition double_of :: "real \<Rightarrow> real" where
  "double_of x = (if x = 0 then 0 else
     let u = 2 powi (\<lfloor>log 2 \<bar>x\<bar>\<rfloor> - 52) in u * of_int (round_half_even (x / u)))"

definition Math_round :: "real \<Rightarrow> int" where
  "Math_round x = \<lfloor>x + 1/2\<rfloor>"

lemma round_half_even_near: "\<bar>of_int (round_half_even y) - y\<bar> \<le> 1/2"
  unfolding round_half_even_def Let_def by (auto simp: abs_le_iff)

lemma double_of_near: "\<bar>double_of x - x\<bar> \<le> \<bar>x\<bar> / 2 ^ 53"
proof (cases "x = 0")
  case False
  define e where "e = \<lfloor>log 2 \<bar>x\<bar>\<rfloor>"
  define u :: real where "u = 2 powi (e - 52)"
  have u: "u > 0" by (simp add: u_def)
  have "2 powr (of_int e) \<le> \<bar>x\<bar>" using False by (simp add: e_def le_log_iff[symmetric])
  then have pow: "2 powi e \<le> \<bar>x\<bar>" by (simp add: powr_real_of_int')
  have ue: "u = 2 powi e / 2 ^ 52" by (simp add: u_def power_int_diff)
  have "double_of x - x = u * (of_int (round_half_even (x / u)) - x / u)"
    using u False by (simp add: double_of_def Let_def e_def u_def field_simps)
  then have "\<bar>double_of x - x\<bar> = u * \<bar>of_int (round_half_even (x / u)) - x / u\<bar>"
    using u by (simp add: abs_mult)
  also have "\<dots> \<le> u * (1/2)" using u round_half_even_near[of "x / u"] by (intro mult_left_mono) auto
  also have "\<dots> \<le> \<bar>x\<bar> / 2 ^ 53" using pow by (simp add: ue)
  finally show ?thesis .
qed (simp add: double_of_def)

section \<open>Where the trip is\<close>

definition RESOLVED :: "phase_status list" where
  "RESOLVED = [Ph_completed, Ph_exception, Ph_overridden]"

definition is_resolved :: "'a phase_row_scheme \<Rightarrow> bool" where
  "is_resolved phase \<longleftrightarrow> phase_state phase \<in> set RESOLVED"

definition sortedPlan :: "'a phase_row_scheme list \<Rightarrow> 'a phase_row_scheme list" where
  "sortedPlan phases = sort_key sequence_number phases"

definition activePhase :: "'a phase_row_scheme list \<Rightarrow> 'a phase_row_scheme option" where
  "activePhase phases = List.find (\<lambda>phase. \<not> is_resolved phase) (sortedPlan phases)"

datatype phase_node_type = Node_done | Node_active | Node_next | Node_warn | Node_pending

definition nodeTypeFor :: "'a phase_row_scheme \<Rightarrow> string option \<Rightarrow> coarse_trip_status option \<Rightarrow> phase_node_type" where
  "nodeTypeFor phase activePhaseEventId tripStatus =
     (if phase_state phase = Ph_exception then Node_warn
      else if is_resolved phase then Node_done
      else if phase_state phase = Ph_in_progress then Node_active
      else if phase_kind phase = Activation \<and> tripStatus = Some Trip_created then Node_pending
      else if Some (phase_event_id phase) = activePhaseEventId then Node_next else Node_pending)"

definition completionPct :: "'a phase_row_scheme list \<Rightarrow> int" where
  "completionPct phases = (if length phases = 0 then 0
     else Math_round (double_of (double_of (real (length (filter is_resolved phases)) / real (length phases)) * 100)))"

section \<open>Seals, counts and anchors\<close>

text \<open>\<open>xs.at(-1)\<close>\<close>

definition at_end :: "'a list \<Rightarrow> 'a option" where
  "at_end xs = (if xs = [] then None else Some (last xs))"

definition currentSealNumber :: "'a phase_descriptor_scheme list \<Rightarrow> string option" where
  "currentSealNumber phases = (let departures = filter (\<lambda>p. phase_kind p = Departure \<and> is_resolved p \<and> row_seal_number p \<noteq> None) (sortedPlan phases)
     in if length departures = 0 then None else row_seal_number (last departures))"

definition originScannedCount :: "'a phase_descriptor_scheme list \<Rightarrow> int option" where
  "originScannedCount phases = Option.bind (List.find (\<lambda>p. phase_kind p = Loading) (sortedPlan phases)) parcel_count_origin"

definition destinationScannedCount :: "'a phase_descriptor_scheme list \<Rightarrow> int option" where
  "destinationScannedCount phases = Option.bind (at_end (filter (\<lambda>p. phase_kind p = Confirmation) (sortedPlan phases))) parcel_count_destination"

definition departureSealForLeg :: "'a phase_descriptor_scheme list \<Rightarrow> 'a phase_descriptor_scheme \<Rightarrow> string option" where
  "departureSealForLeg phases legPhase =
     Option.bind (at_end (filter (\<lambda>p. phase_kind p = Departure \<and> sequence_number p < sequence_number legPhase) (sortedPlan phases))) row_seal_number"

definition legDepartureAt :: "'a phase_descriptor_scheme list \<Rightarrow> 'a phase_descriptor_scheme \<Rightarrow> string option" where
  "legDepartureAt phases inTransitPhase = (let departures = filter (\<lambda>p. phase_kind p = Departure
        \<and> sequence_number p < sequence_number inTransitPhase \<and> completed_at p \<noteq> None) (sortedPlan phases)
     in if length departures = 0 then None else completed_at (last departures))"

record anchor_tally =
  at_owed :: nat
  at_anchored :: nat
  at_failed :: nat

definition anchorTally :: "'a phase_row_scheme list \<Rightarrow> anchor_tally" where
  "anchorTally phases = \<lparr>at_owed = length (filter (\<lambda>p. anchor_state p \<noteq> Not_required) phases),
     at_anchored = length (filter (\<lambda>p. anchor_state p = Anchored) phases),
     at_failed = length (filter (\<lambda>p. anchor_state p = Anchor_failed) phases)\<rparr>"

definition phaseLabel :: "'a phase_row_scheme \<Rightarrow> string" where
  "phaseLabel phase = PHASE_NAMES (phase_kind phase)"

section \<open>Correctness\<close>

text \<open>The console and the driver's app derive the same position.\<close>

lemma dispatcher_agrees_with_driver: "is_resolved p = isResolved p" "sortedPlan phases = bySequence phases" "activePhase phases = currentPhase phases"
  by (simp_all add: is_resolved_def isResolved_def RESOLVED_def RESOLVED_STATUSES_def sortedPlan_def bySequence_def
      activePhase_def currentPhase_def)

lemma is_resolved_iff: "is_resolved p \<longleftrightarrow> phase_state p = Ph_completed \<or> phase_state p = Ph_exception \<or> phase_state p = Ph_overridden"
  by (auto simp: is_resolved_def RESOLVED_def)

lemma sortedPlan_set [simp]: "set (sortedPlan xs) = set xs"
  by (simp add: sortedPlan_def)

lemma sorted_last: "p \<in> set xs \<Longrightarrow> sorted (map f xs) \<Longrightarrow> f p \<le> f (last xs)"
  by (induction xs) auto

text \<open>The last of a sorted plan's rows of a kind is the one of greatest sequence number.\<close>

lemma last_of_plan:
  assumes "filter P (sortedPlan xs) \<noteq> []" "p \<in> set xs" "P p"
  shows "sequence_number p \<le> sequence_number (last (filter P (sortedPlan xs)))"
proof -
  have s: "sorted (map sequence_number (filter P (sortedPlan xs)))" by (simp add: sortedPlan_def sorted_filter)
  have "p \<in> set (filter P (sortedPlan xs))" using assms by simp
  then show ?thesis using s by (rule sorted_last)
qed

lemma last_of_plan_in: "filter P (sortedPlan xs) \<noteq> [] \<Longrightarrow> last (filter P (sortedPlan xs)) \<in> set xs \<and> P (last (filter P (sortedPlan xs)))"
  using last_in_set[of "filter P (sortedPlan xs)"] by simp

text \<open>The departure of a leg: the nearest one before it.\<close>

definition departure_of_leg :: "'a phase_descriptor_scheme list \<Rightarrow> 'a phase_descriptor_scheme \<Rightarrow> 'a phase_descriptor_scheme \<Rightarrow> bool" where
  "departure_of_leg phases leg d \<longleftrightarrow> d \<in> set phases \<and> phase_kind d = Departure \<and> sequence_number d < sequence_number leg
     \<and> (\<forall>p\<in>set phases. phase_kind p = Departure \<and> sequence_number p < sequence_number leg \<longrightarrow> sequence_number p \<le> sequence_number d)"

lemma departureSeal_last:
  assumes "filter (\<lambda>p. phase_kind p = Departure \<and> sequence_number p < sequence_number leg) (sortedPlan phases) = ds" "ds \<noteq> []"
  shows "departure_of_leg phases leg (last ds)"
  using last_of_plan_in[of "\<lambda>p. phase_kind p = Departure \<and> sequence_number p < sequence_number leg" phases]
    last_of_plan[of "\<lambda>p. phase_kind p = Departure \<and> sequence_number p < sequence_number leg" phases] assms
  by (auto simp: departure_of_leg_def)

text \<open>On a trip of several legs every leg is judged by its own seal: the departure seal of a leg is the
  seal of the nearest departure before it, whatever the order in which the rows arrived, and it is empty when
  that departure recorded none - an earlier leg's seal is never taken for it.\<close>
theorem leg_is_judged_by_its_own_seal:
  assumes "distinct (map sequence_number phases)" "departure_of_leg phases leg d"
  shows "departureSealForLeg phases leg = row_seal_number d"
proof -
  let ?P = "\<lambda>p. phase_kind p = Departure \<and> sequence_number p < sequence_number leg"
  have ne: "filter ?P (sortedPlan phases) \<noteq> []"
    using assms(2) by (auto simp: departure_of_leg_def filter_empty_conv)
  have "departure_of_leg phases leg (last (filter ?P (sortedPlan phases)))" by (rule departureSeal_last[OF refl ne])
  then have "sequence_number (last (filter ?P (sortedPlan phases))) = sequence_number d"
    "last (filter ?P (sortedPlan phases)) \<in> set phases" "d \<in> set phases"
    using assms(2) unfolding departure_of_leg_def by (auto intro: order_antisym)
  then have "last (filter ?P (sortedPlan phases)) = d"
    using assms(1) by (auto simp: distinct_map dest: inj_onD)
  then show ?thesis using ne by (simp add: departureSealForLeg_def at_end_def)
qed

lemma percentage_near:
  assumes "0 \<le> x" "x \<le> (1::real)"
  shows "\<bar>double_of (double_of x * 100) - 100 * x\<bar> \<le> 1 / 1000"
proof -
  have y: "\<bar>double_of x - x\<bar> \<le> 1 / 2 ^ 53"
    using double_of_near[of x] assms by (simp add: field_simps)
  have z: "\<bar>double_of (double_of x * 100) - double_of x * 100\<bar> \<le> \<bar>double_of x * 100\<bar> / 2 ^ 53" by (rule double_of_near)
  have "double_of x - x \<le> 1 / 2 ^ 53" "x - double_of x \<le> 1 / 2 ^ 53" using y by (simp_all only: abs_le_iff minus_diff_eq)
  moreover have "(1::real) / 2 ^ 53 \<le> 1" by simp
  ultimately have "double_of x * 100 \<le> 200" "- (double_of x * 100) \<le> 200" using assms by linarith+
  then have "\<bar>double_of x * 100\<bar> \<le> 200" by (rule abs_leI)
  then have "\<bar>double_of x * 100\<bar> / 2 ^ 53 \<le> 200 / 2 ^ 53" by (intro divide_right_mono) auto
  with z have "\<bar>double_of (double_of x * 100) - double_of x * 100\<bar> \<le> 200 / 2 ^ 53" by (rule order_trans)
  then have "double_of (double_of x * 100) - double_of x * 100 \<le> 200 / 2 ^ 53" "double_of x * 100 - double_of (double_of x * 100) \<le> 200 / 2 ^ 53"
    by (simp_all only: abs_le_iff minus_diff_eq)
  moreover have "double_of x - x \<le> 1 / 2 ^ 53" "x - double_of x \<le> 1 / 2 ^ 53" using y by (simp_all only: abs_le_iff minus_diff_eq)
  moreover have "(300::real) / 2 ^ 53 \<le> 1 / 1000" by simp
  ultimately show ?thesis by (intro abs_leI) linarith+
qed

lemma Math_round_iff: "Math_round z = n \<longleftrightarrow> of_int n - 1/2 \<le> z \<and> z < of_int n + 1/2"
  unfolding Math_round_def floor_eq_iff by auto

lemma Math_round_mono: "x \<le> y \<Longrightarrow> Math_round x \<le> Math_round y"
  unfolding Math_round_def by (intro floor_mono) simp

text \<open>A share of two lengths that is not the whole is at least one part away from it.\<close>

lemma share_apart:
  assumes "a < b" "b < (200::nat)"
  shows "100 * (real a / real b) \<le> 99.4975"
proof -
  have "real a + 1 \<le> real b" "real b \<le> 199" using assms by linarith+
  then show ?thesis using assms(1) by (simp add: divide_le_eq)
qed

lemma share_some:
  assumes "0 < a" "a \<le> b" "b < (200::nat)"
  shows "100 * (real a / real b) \<ge> 0.5025"
proof -
  have "real a \<ge> 1" "real b \<le> 199" "0 < b" using assms by linarith+
  then show ?thesis by (simp add: le_divide_eq)
qed

text \<open>The share of the plan shown as done is honest: it is between 0 and 100 for a plan of any length,
  and, computed in doubles as it is, a plan of fewer than 200 phases shows 100 exactly when every phase is
  resolved and 0 exactly when none is.\<close>
theorem completion_is_honest:
  "0 \<le> completionPct phases \<and> completionPct phases \<le> 100 \<and>
   (0 < length phases \<and> length phases < 200 \<longrightarrow>
      (completionPct phases = 100 \<longleftrightarrow> (\<forall>p\<in>set phases. is_resolved p)) \<and>
      (completionPct phases = 0 \<longleftrightarrow> (\<forall>p\<in>set phases. \<not> is_resolved p)))"
proof (cases "phases = []")
  case False
  define a b where "a = length (filter is_resolved phases)" and "b = length phases"
  define r where "r = real a / real b"
  define z where "z = double_of (double_of r * 100)"
  have ab: "a \<le> b" "0 < b" using False by (simp_all add: a_def b_def)
  then have x: "0 \<le> r" "r \<le> 1" by (simp_all add: r_def divide_le_eq)
  from percentage_near[OF x, folded z_def] have near: "z - 100 * r \<le> 1/1000" "100 * r - z \<le> 1/1000"
    by (simp_all only: abs_le_iff minus_diff_eq)
  have pct: "completionPct phases = Math_round z"
    using False by (simp add: completionPct_def z_def r_def a_def b_def)
  have "-1/1000 \<le> z" "z \<le> 100 + 1/1000" using near x by linarith+
  then have "Math_round (-1/1000) \<le> Math_round z" "Math_round z \<le> Math_round (100 + 1/1000)" by (intro Math_round_mono; simp)+
  moreover have "Math_round (-1/1000) = 0" "Math_round (100 + 1/1000) = 100" by (simp_all add: Math_round_iff)
  ultimately have bounds: "0 \<le> Math_round z" "Math_round z \<le> 100" by simp_all
  have all: "(\<forall>p\<in>set phases. is_resolved p) \<longleftrightarrow> a = b" 
    unfolding a_def b_def by (metis filter_id_conv length_filter_less nat_neq_iff)
  have none: "(\<forall>p\<in>set phases. \<not> is_resolved p) \<longleftrightarrow> a = 0"
    by (auto simp: a_def filter_empty_conv)
  have "(Math_round z = 100 \<longleftrightarrow> a = b) \<and> (Math_round z = 0 \<longleftrightarrow> a = 0)" if "b < 200"
  proof (intro conjI)
    show "Math_round z = 100 \<longleftrightarrow> a = b"
    proof (cases "a = b")
      case True
      then have "r = 1" using ab by (simp add: r_def)
      then have "Math_round z = 100" using near by (simp add: Math_round_iff)
      then show ?thesis using True by simp
    next
      case False
      then have "100 * r \<le> 99.4975" using share_apart[of a b] that ab by (simp add: r_def)
      then have "Math_round z \<noteq> 100" using near by (simp add: Math_round_iff)
      then show ?thesis using False by simp
    qed
    show "Math_round z = 0 \<longleftrightarrow> a = 0"
    proof (cases "a = 0")
      case True
      then have "Math_round z = 0" using near by (simp add: Math_round_iff r_def)
      then show ?thesis using True by simp
    next
      case False
      then have "100 * r \<ge> 0.5025" using share_some[of a b] that ab by (simp add: r_def)
      then have "Math_round z \<noteq> 0" using near by (simp add: Math_round_iff)
      then show ?thesis using False by simp
    qed
  qed
  then show ?thesis using bounds False unfolding pct all none by (simp add: b_def)
qed (simp add: completionPct_def)

section \<open>A plan of two legs\<close>

definition demo_phase :: "phase_type \<Rightarrow> int \<Rightarrow> phase_status \<Rightarrow> phase_descriptor" where
  "demo_phase kind n st = \<lparr>phase_event_id = ''E'', phase_trip_id = ''T'', phase_kind = kind, trip_stop_id = Some ''S'', stop_sequence = Some 1,
     sequence_number = n, phase_state = st, anchor_state = Anchored, step_recipe = STEP_SLUGS kind, blocked_on = Null,
     dispatcher_override_user_id = None, dispatcher_override_note = None, driver_phone_lat = None, driver_phone_lng = None,
     horse_gps_lat = None, horse_gps_lng = None, pulsit_geofence_confirmed = None, action_location_assessment = Null,
     row_driver_captured_at = Null, row_seal_number = None, row_seal_condition = Null, row_seal_photo_artifact_id = None,
     row_waybill_photo_artifact_id = None, row_gate_photo_artifact_id = None, row_pod_photo_artifact_id = None,
     row_linehaul_photo_artifact_id = Null, row_linehaul_pdf_artifact_id = Null, row_pod_signature_artifact_id = None,
     parcel_count_origin = None, parcel_count_destination = None, row_driver_visual_count = None, event_hash = None,
     blockchain_receipt_id = None, row_idempotency_key = None, completed_at = None, row_created_at = ''now'', row_updated_at = ''now''\<rparr>"

lemma leg_is_judged_by_its_own_seal_witness:
  "let first = (demo_phase Departure 2 Ph_completed)\<lparr>row_seal_number := Some ''A1''\<rparr>; second = demo_phase Departure 5 Ph_overridden;
       leg = demo_phase Arrival 7 Ph_completed
   in departureSealForLeg [leg, second, first] leg = None"
proof -
  let ?first = "(demo_phase Departure 2 Ph_completed)\<lparr>row_seal_number := Some ''A1''\<rparr>"
  let ?second = "demo_phase Departure 5 Ph_overridden"
  let ?leg = "demo_phase Arrival 7 Ph_completed"
  have d: "distinct (map sequence_number [?leg, ?second, ?first])" by (simp add: demo_phase_def)
  have l: "departure_of_leg [?leg, ?second, ?first] ?leg ?second" by (simp add: departure_of_leg_def) (simp add: demo_phase_def)
  from leg_is_judged_by_its_own_seal[OF d l] show ?thesis unfolding Let_def by (simp add: demo_phase_def)
qed

lemma completion_is_honest_witness:
  "completionPct [demo_phase Departure 2 Ph_completed, demo_phase Arrival 3 Ph_exception] = 100"
proof -
  let ?plan = "[demo_phase Departure 2 Ph_completed, demo_phase Arrival 3 Ph_exception]"
  have "0 < length ?plan \<and> length ?plan < 200" by simp
  moreover have "\<forall>p\<in>set ?plan. is_resolved p" by (simp add: is_resolved_iff demo_phase_def)
  ultimately show ?thesis using completion_is_honest[of ?plan] by blast
qed

end
