(* ===== verification/PrecinctGeometry.thy ===== *)
theory PrecinctGeometry
  imports JsPrelude PhasePlan
begin

text \<open>
  The plane and sphere geometry of the dispatcher's console: \<open>dispatcher/lib/phase/geo.ts\<close> (distances between
  fixes) and \<open>dispatcher/lib/map/polygon.ts\<close> (precinct outlines). Numbers are reals: the rounding of
  doubles, a fraction of a millimetre here, is not modelled.
\<close>

section \<open>Distances\<close>

record coords =
  co_lat :: number
  co_lng :: number

record geofence = coords +
  radiusMetres :: number

definition EARTH_RADIUS_METRES :: number where
  "EARTH_RADIUS_METRES = 6371008.8"

definition toRadians :: "number \<Rightarrow> number" where
  "toRadians degrees = (degrees * pi) / 180"

definition haversineMetres :: "'a coords_scheme \<Rightarrow> 'b coords_scheme \<Rightarrow> number" where
  "haversineMetres a b =
     (let dLat = toRadians (co_lat b - co_lat a); dLng = toRadians (co_lng b - co_lng a);
          latA = toRadians (co_lat a); latB = toRadians (co_lat b);
          h = sin (dLat / 2) ^ 2 + cos latA * cos latB * sin (dLng / 2) ^ 2
      in 2 * EARTH_RADIUS_METRES * arcsin (sqrt h))"

definition geofenceOffsetMetres :: "coords option \<Rightarrow> geofence option \<Rightarrow> number option" where
  "geofenceOffsetMetres fix_opt fence_opt = (case (fix_opt, fence_opt) of
       (Some f, Some fence) \<Rightarrow> Some (haversineMetres f fence - radiusMetres fence) | _ \<Rightarrow> None)"

definition separationMetres :: "coords option \<Rightarrow> coords option \<Rightarrow> number option" where
  "separationMetres a b = (case (a, b) of (Some p, Some q) \<Rightarrow> Some (haversineMetres p q) | _ \<Rightarrow> None)"

definition toCoords :: "number option \<Rightarrow> number option \<Rightarrow> coords option" where
  "toCoords lat lng = (case (lat, lng) of (Some x, Some y) \<Rightarrow> Some \<lparr>co_lat = x, co_lng = y\<rparr> | _ \<Rightarrow> None)"

section \<open>Outlines\<close>

type_synonym point = "number \<times> number"

definition METRES_PER_DEGREE :: number where
  "METRES_PER_DEGREE = (pi * EARTH_RADIUS_METRES) / 180"

definition MIN_OUTLINE_CORNERS :: nat where "MIN_OUTLINE_CORNERS = 3"
definition MAX_OUTLINE_CORNERS :: nat where "MAX_OUTLINE_CORNERS = 500"
definition MIN_OUTLINE_AREA_M2 :: number where "MIN_OUTLINE_AREA_M2 = 400"
definition GEOFENCE_RADIUS_MAX :: number where "GEOFENCE_RADIUS_MAX = 5000"
definition MAX_OUTLINE_AREA_M2 :: number where "MAX_OUTLINE_AREA_M2 = pi * GEOFENCE_RADIUS_MAX ^ 2"
definition PIN_MAX_OUTSIDE_OUTLINE_METRES :: number where "PIN_MAX_OUTSIDE_OUTLINE_METRES = 100"
definition STARTER_RECTANGLE_HALF_METRES :: number where "STARTER_RECTANGLE_HALF_METRES = 50"

definition projector :: "number \<Rightarrow> number \<Rightarrow> lat_lng \<Rightarrow> point" where
  "projector originLat originLng p =
     (let metresPerDegreeLng = METRES_PER_DEGREE * cos ((originLat * pi) / 180)
      in ((snd p - originLng) * metresPerDegreeLng, (fst p - originLat) * METRES_PER_DEGREE))"

definition edges :: "point list \<Rightarrow> (point \<times> point) list" where
  "edges ring = map (\<lambda>i. (ring ! i, ring ! ((i + 1) mod length ring))) [0..<length ring]"

definition hypot :: "number \<Rightarrow> number \<Rightarrow> number" where
  "hypot x y = sqrt (x ^ 2 + y ^ 2)"

definition segmentDistance :: "point \<Rightarrow> point \<Rightarrow> point \<Rightarrow> number" where
  "segmentDistance p a b =
     (let dx = fst b - fst a; dy = snd b - snd a; lengthSq = dx * dx + dy * dy;
          t = (if lengthSq = 0 then 0 else max 0 (min 1 (((fst p - fst a) * dx + (snd p - snd a) * dy) / lengthSq)))
      in hypot (fst p - (fst a + t * dx)) (snd p - (snd a + t * dy)))"

definition cornerAverage :: "lat_lng list \<Rightarrow> lat_lng" where
  "cornerAverage polygon = (sum_list (map fst polygon) / real (length polygon), sum_list (map snd polygon) / real (length polygon))"

definition crosses_east :: "point \<times> point \<Rightarrow> bool" where
  "crosses_east e = (case e of ((x1, y1), (x2, y2)) \<Rightarrow>
     (y1 > 0) \<noteq> (y2 > 0) \<and> x1 + ((0 - y1) * (x2 - x1)) / (y2 - y1) > 0)"

definition contains :: "lat_lng list \<Rightarrow> lat_lng \<Rightarrow> bool" where
  "contains polygon point = fold (\<lambda>e inside. if crosses_east e then \<not> inside else inside)
     (edges (map (projector (fst point) (snd point)) polygon)) False"

text \<open>For a polygon with at least one corner; the code takes the least of a list.\<close>

definition distanceToBoundaryMetres :: "lat_lng list \<Rightarrow> lat_lng \<Rightarrow> number" where
  "distanceToBoundaryMetres polygon point =
     Min (set (map (\<lambda>(a, b). segmentDistance (0, 0) a b) (edges (map (projector (fst point) (snd point)) polygon))))"

definition outsideByMetres :: "lat_lng list \<Rightarrow> lat_lng \<Rightarrow> number" where
  "outsideByMetres polygon point = (if contains polygon point then 0 else distanceToBoundaryMetres polygon point)"

definition areaSquareMetres :: "lat_lng list \<Rightarrow> number" where
  "areaSquareMetres polygon = (let (lat, lng) = cornerAverage polygon;
       twice = sum_list (map (\<lambda>(a, b). fst a * snd b - fst b * snd a) (edges (map (projector lat lng) polygon)))
     in \<bar>twice\<bar> / 2)"

definition orientation :: "point \<Rightarrow> point \<Rightarrow> point \<Rightarrow> number" where
  "orientation a b c = (fst b - fst a) * (snd c - snd a) - (snd b - snd a) * (fst c - fst a)"

definition onSegment :: "point \<Rightarrow> point \<Rightarrow> point \<Rightarrow> bool" where
  "onSegment p q r \<longleftrightarrow> min (fst p) (fst r) \<le> fst q \<and> fst q \<le> max (fst p) (fst r)
     \<and> min (snd p) (snd r) \<le> snd q \<and> snd q \<le> max (snd p) (snd r)"

definition segmentsCross :: "point \<times> point \<Rightarrow> point \<times> point \<Rightarrow> bool" where
  "segmentsCross e f = (case (e, f) of ((a, b), (c, d)) \<Rightarrow>
     let o1 = orientation a b c; o2 = orientation a b d; o3 = orientation c d a; o4 = orientation c d b in
     if o1 \<noteq> 0 \<and> o2 \<noteq> 0 \<and> o3 \<noteq> 0 \<and> o4 \<noteq> 0 \<and> (o1 > 0) \<noteq> (o2 > 0) \<and> (o3 > 0) \<noteq> (o4 > 0) then True
     else (o1 = 0 \<and> onSegment a c b) \<or> (o2 = 0 \<and> onSegment a d b) \<or> (o3 = 0 \<and> onSegment c a d) \<or> (o4 = 0 \<and> onSegment c b d))"

definition isSimple :: "lat_lng list \<Rightarrow> bool" where
  "isSimple polygon =
     (if length polygon < MIN_OUTLINE_CORNERS then False
      else if card (set polygon) \<noteq> length polygon then False
      else let ring = edges (map (projector (fst (polygon ! 0)) (snd (polygon ! 0))) polygon) in
        list_all (\<lambda>i. list_all (\<lambda>j. j = i + 1 \<or> (i = 0 \<and> j = length ring - 1) \<or> \<not> segmentsCross (ring ! i) (ring ! j))
          [i + 1..<length ring]) [0..<length ring])"

text \<open>The messages of \<open>validateOutline\<close>, with the numbers they print.\<close>

datatype outline_problem =
  Too_few_corners
| Too_many_corners
| Not_simple
| Too_small number
| Too_large number
| Pin_outside number

definition validateOutline :: "lat_lng list \<Rightarrow> lat_lng option \<Rightarrow> outline_problem option" where
  "validateOutline polygon pin =
     (if length polygon < MIN_OUTLINE_CORNERS then Some Too_few_corners
      else if length polygon > MAX_OUTLINE_CORNERS then Some Too_many_corners
      else if \<not> isSimple polygon then Some Not_simple
      else let area = areaSquareMetres polygon in
        if area < MIN_OUTLINE_AREA_M2 then Some (Too_small area)
        else if area > MAX_OUTLINE_AREA_M2 then Some (Too_large area)
        else case pin of
            None \<Rightarrow> None
          | Some p \<Rightarrow> let outside = outsideByMetres polygon p in
              if outside > PIN_MAX_OUTSIDE_OUTLINE_METRES then Some (Pin_outside outside) else None)"

definition rectangleAround :: "number \<Rightarrow> number \<Rightarrow> number \<Rightarrow> lat_lng list" where
  "rectangleAround lat lng halfMetres =
     (let dLat = halfMetres / METRES_PER_DEGREE; dLng = halfMetres / (METRES_PER_DEGREE * cos ((lat * pi) / 180))
      in [(lat + dLat, lng - dLng), (lat + dLat, lng + dLng), (lat - dLat, lng + dLng), (lat - dLat, lng - dLng)])"

text \<open>For a polygon with at least one corner.\<close>

definition enclosingRadiusMetres :: "lat_lng list \<Rightarrow> lat_lng \<Rightarrow> number" where
  "enclosingRadiusMetres polygon centre =
     Max (set (map (\<lambda>p. let q = projector (fst centre) (snd centre) p in hypot (fst q) (snd q)) polygon))"

section \<open>Distances are distances\<close>

definition on_earth :: "'a coords_scheme \<Rightarrow> bool" where
  "on_earth p \<longleftrightarrow> -90 \<le> co_lat p \<and> co_lat p \<le> 90"

lemma cos_latitude: "on_earth p \<Longrightarrow> 0 \<le> cos (toRadians (co_lat p))"
proof -
  assume "on_earth p"
  then have l: "-90 \<le> co_lat p" "co_lat p \<le> 90" by (simp_all add: on_earth_def)
  have "-90 * pi \<le> co_lat p * pi" "co_lat p * pi \<le> 90 * pi" by (intro mult_right_mono l; simp)+
  then show ?thesis unfolding toRadians_def by (intro cos_ge_zero) simp_all
qed

lemma haversine_in_range:
  assumes "on_earth a" "on_earth b"
  defines "latA \<equiv> toRadians (co_lat a)" and "latB \<equiv> toRadians (co_lat b)"
  shows "0 \<le> sin ((latB - latA) / 2) ^ 2 + cos latA * cos latB * sin d ^ 2"
    and "sin ((latB - latA) / 2) ^ 2 + cos latA * cos latB * sin d ^ 2 \<le> 1"
proof -
  have c: "0 \<le> cos latA * cos latB" unfolding latA_def latB_def by (intro mult_nonneg_nonneg cos_latitude assms)
  then show "0 \<le> sin ((latB - latA) / 2) ^ 2 + cos latA * cos latB * sin d ^ 2" by simp
  have s: "sin d ^ 2 \<le> 1" by (simp add: abs_square_le_1)
  define P S D C where "P = cos latA * cos latB" and "S = sin ((latB - latA) / 2) ^ 2" and "D = cos (latB - latA)" and "C = cos (latB + latA)"
  have "P * sin d ^ 2 \<le> P" using mult_left_mono[OF s c] by (simp add: P_def)
  moreover have "D = 1 - 2 * S" unfolding D_def S_def
    using cos_double_sin[of "(latB - latA) / 2"] by (simp only: times_divide_eq_right nonzero_mult_div_cancel_left zero_neq_numeral[symmetric] not_False_eq_True)
  moreover have "2 * P = D + C" by (simp add: P_def D_def C_def cos_diff cos_add)
  moreover have "C \<le> 1" by (simp add: C_def)
  ultimately have "S + P * sin d ^ 2 \<le> 1" by linarith
  then show "sin ((latB - latA) / 2) ^ 2 + cos latA * cos latB * sin d ^ 2 \<le> 1" by (simp add: S_def P_def)
qed

text \<open>The half-angle form that the code computes is the spherical law of cosines.\<close>

lemma half_angle: "2 * sin (x / 2) ^ 2 = 1 - cos (x :: real)"
  using cos_double_sin[of "x / 2"] by simp

lemma twice_arcsin:
  assumes "0 \<le> h" "h \<le> 1"
  shows "2 * arcsin (sqrt h) = arccos (1 - 2 * h)" and "0 \<le> arcsin (sqrt h)" and "2 * arcsin (sqrt h) \<le> pi"
proof -
  have s: "-1 \<le> sqrt h" "sqrt h \<le> 1" using assms by (simp_all add: order_trans[of "-1" 0])
  have "arcsin 0 \<le> arcsin (sqrt h)" using assms s by (intro arcsin_le_arcsin) auto
  then show nonneg: "0 \<le> arcsin (sqrt h)" by simp
  show half: "2 * arcsin (sqrt h) \<le> pi" using arcsin_bounded[of "sqrt h"] s by simp
  have "cos (2 * arcsin (sqrt h)) = 1 - 2 * h" using s assms by (simp add: cos_double_sin)
  then show "2 * arcsin (sqrt h) = arccos (1 - 2 * h)"
    using arccos_cos[of "2 * arcsin (sqrt h)"] nonneg half by simp
qed

lemma haversine_law_of_cosines:
  "1 - 2 * (sin ((latB - latA) / 2) ^ 2 + cos latA * cos latB * sin (d / 2) ^ 2)
     = sin latA * sin latB + cos latA * cos latB * cos (d :: real)"
proof -
  have "1 - 2 * (sin ((latB - latA) / 2) ^ 2 + cos latA * cos latB * sin (d / 2) ^ 2)
      = 1 - 2 * sin ((latB - latA) / 2) ^ 2 - cos latA * cos latB * (2 * sin (d / 2) ^ 2)" by (simp add: algebra_simps)
  also have "\<dots> = cos (latB - latA) - cos latA * cos latB * (1 - cos d)" unfolding half_angle by simp
  finally show ?thesis by (simp add: cos_diff algebra_simps)
qed

lemma toRadians_diff: "toRadians (y - x) = toRadians y - toRadians x"
  by (simp add: toRadians_def left_diff_distrib diff_divide_distrib)

text \<open>Property C36. The distance between two fixes is the great-circle distance on the Earth's mean sphere: for latitudes of
  the Earth it is the radius times the angle between the fixes that the spherical law of cosines gives. So it is the same in
  both directions, zero between coinciding fixes and never below zero, and never more than half the Earth's
  circumference; the square root and the arc sine are always defined.\<close>
theorem haversine_is_a_distance:
  assumes "on_earth a" "on_earth b"
  shows "haversineMetres a b = 6371008.8 * arccos (sin (co_lat a * pi / 180) * sin (co_lat b * pi / 180)
        + cos (co_lat a * pi / 180) * cos (co_lat b * pi / 180) * cos ((co_lng b - co_lng a) * pi / 180))
    \<and> haversineMetres a b = haversineMetres b a \<and> haversineMetres a a = 0
    \<and> 0 \<le> haversineMetres a b \<and> haversineMetres a b \<le> pi * EARTH_RADIUS_METRES"
proof (intro conjI)
  have swap: "sin (toRadians (x - y) / 2) ^ 2 = sin (toRadians (y - x) / 2) ^ 2" for x y
  proof -
    have "toRadians (x - y) / 2 = - (toRadians (y - x) / 2)" by (simp add: toRadians_def field_simps)
    then show ?thesis by (metis power2_minus sin_minus)
  qed
  show "haversineMetres a b = haversineMetres b a"
    unfolding haversineMetres_def Let_def swap[of "co_lat b" "co_lat a"] swap[of "co_lng b" "co_lng a"] by (simp add: mult.commute)
  show "haversineMetres a a = 0" by (simp add: haversineMetres_def toRadians_def)
  let ?A = "toRadians (co_lat a)" and ?B = "toRadians (co_lat b)" and ?d = "toRadians (co_lng b - co_lng a)"
  define h where "h = sin ((?B - ?A) / 2) ^ 2 + cos ?A * cos ?B * sin (?d / 2) ^ 2"
  have h: "0 \<le> h" "h \<le> 1" using haversine_in_range[OF assms] by (simp_all add: h_def)
  note angle = twice_arcsin[OF h]
  have eq: "haversineMetres a b = EARTH_RADIUS_METRES * (2 * arcsin (sqrt h))"
    by (simp add: haversineMetres_def h_def Let_def toRadians_diff[of "co_lat b"])
  also have "\<dots> = EARTH_RADIUS_METRES * arccos (sin ?A * sin ?B + cos ?A * cos ?B * cos ?d)"
    unfolding angle(1) by (simp only: h_def haversine_law_of_cosines)
  finally show "haversineMetres a b = 6371008.8 * arccos (sin (co_lat a * pi / 180) * sin (co_lat b * pi / 180)
      + cos (co_lat a * pi / 180) * cos (co_lat b * pi / 180) * cos ((co_lng b - co_lng a) * pi / 180))"
    by (simp add: EARTH_RADIUS_METRES_def toRadians_def)
  show "0 \<le> haversineMetres a b" "haversineMetres a b \<le> pi * EARTH_RADIUS_METRES"
    unfolding eq EARTH_RADIUS_METRES_def using angle(2,3) by simp_all
qed

text \<open>From the equator to the pole is a quarter of the way around; a quarter of the equator is as far.\<close>

lemma haversine_is_a_distance_witness:
  "let a = \<lparr>co_lat = 0, co_lng = 28\<rparr> in haversineMetres a \<lparr>co_lat = 90, co_lng = 28\<rparr> = 6371008.8 * (pi / 2)
     \<and> haversineMetres a \<lparr>co_lat = 0, co_lng = 118\<rparr> = 6371008.8 * (pi / 2)"
proof -
  have e: "on_earth \<lparr>co_lat = 0, co_lng = 28\<rparr>" "on_earth \<lparr>co_lat = 90, co_lng = 28\<rparr>" "on_earth \<lparr>co_lat = 0, co_lng = 118\<rparr>"
    by (simp_all add: on_earth_def)
  show ?thesis unfolding Let_def
    using haversine_is_a_distance[OF e(1,2)] haversine_is_a_distance[OF e(1,3)] by simp
qed

section \<open>The starter outline\<close>

lemma METRES_PER_DEGREE_pos: "0 < METRES_PER_DEGREE"
  by (simp add: METRES_PER_DEGREE_def EARTH_RADIUS_METRES_def)

lemma METRES_PER_DEGREE_large: "50 < METRES_PER_DEGREE"
  using pi_ge_two by (simp add: METRES_PER_DEGREE_def EARTH_RADIUS_METRES_def)

lemma cos_positive: "-90 < x \<Longrightarrow> x < 90 \<Longrightarrow> 0 < cos ((x * pi) / 180)"
proof -
  assume x: "-90 < x" "x < 90"
  have "-90 * pi < x * pi" "x * pi < 90 * pi" by (intro mult_strict_right_mono x; simp)+
  then show ?thesis by (intro cos_gt_zero_pi) simp_all
qed

text \<open>Projected about its centre, the rectangle is the square of the given half side.\<close>

lemma rectangle_projected:
  assumes "-90 < lat" "lat < 90"
  shows "map (projector lat lng) (rectangleAround lat lng r) = [(-r, r), (r, r), (r, -r), (-r, -r)]"
  using cos_positive[OF assms] METRES_PER_DEGREE_pos
  by (simp add: rectangleAround_def projector_def Let_def)

lemma rectangle_average: "cornerAverage (rectangleAround lat lng r) = (lat, lng)"
  by (simp add: cornerAverage_def rectangleAround_def Let_def)

lemma square_edges: "edges [p, q, s, t] = [(p, q), (q, s), (s, t), (t, p)]"
  by (simp add: edges_def upt_rec)

lemma square_area:
  assumes "-90 < lat" "lat < 90"
  shows "areaSquareMetres (rectangleAround lat lng r) = (2 * r) ^ 2"
  by (simp add: areaSquareMetres_def rectangle_average rectangle_projected[OF assms] square_edges power2_eq_square)

lemma square_contains:
  assumes "-90 < lat" "lat < 90" "0 < r"
  shows "contains (rectangleAround lat lng r) (lat, lng)"
  using assms(3) by (simp add: contains_def rectangle_projected[OF assms(1,2)] square_edges crosses_east_def)

text \<open>Seen from its first corner the rectangle has its sides along the axes, so opposite sides stay apart.\<close>

lemma square_sides_apart:
  assumes "x \<noteq> 0" "y \<noteq> (0::real)"
  shows "\<not> segmentsCross ((0, 0), (x, 0)) ((x, y), (0, y))" "\<not> segmentsCross ((x, 0), (x, y)) ((0, y), (0, 0))"
  using assms by (auto simp: segmentsCross_def orientation_def Let_def mult_less_0_iff zero_less_mult_iff)

lemma square_simple:
  assumes "-89 \<le> lat" "lat \<le> 89" "0 < r" "r \<le> 50"
  shows "isSimple (rectangleAround lat lng r)"
proof -
  define dLat where "dLat = r / METRES_PER_DEGREE"
  define dLng where "dLng = r / (METRES_PER_DEGREE * cos ((lat * pi) / 180))"
  have c: "0 < cos ((lat * pi) / 180)" using assms by (intro cos_positive) auto
  have d: "0 < dLat" "dLat < 1" "0 < dLng"
    using assms c METRES_PER_DEGREE_pos METRES_PER_DEGREE_large by (simp_all add: dLat_def dLng_def)
  define m where "m = METRES_PER_DEGREE * cos (((lat + dLat) * pi) / 180)"
  have m: "0 < m" unfolding m_def using d assms METRES_PER_DEGREE_pos by (intro mult_pos_pos cos_positive) auto
  have rect: "rectangleAround lat lng r = [(lat + dLat, lng - dLng), (lat + dLat, lng + dLng), (lat - dLat, lng + dLng), (lat - dLat, lng - dLng)]"
    by (simp add: rectangleAround_def dLat_def dLng_def Let_def)
  define x where "x = 2 * dLng * m"
  define y where "y = - 2 * dLat * METRES_PER_DEGREE"
  have xy: "x \<noteq> 0" "y \<noteq> 0" using d m METRES_PER_DEGREE_pos by (simp_all add: x_def y_def)
  have ring: "map (projector (lat + dLat) (lng - dLng)) (rectangleAround lat lng r) = [(0, 0), (x, 0), (x, y), (0, y)]"
    by (simp add: rect projector_def Let_def x_def y_def m_def)
  have "card (set (rectangleAround lat lng r)) = 4" using d by (simp add: rect card_insert_if)
  then show ?thesis
    using square_sides_apart[OF xy] ring
    by (simp add: isSimple_def MIN_OUTLINE_CORNERS_def rect square_edges upt_rec nth_Cons')
qed

text \<open>The outline a dispatcher is offered as a start is one the form accepts: about any pin away from the
  poles the starter square has no crossing sides, an area of one hectare, and the pin inside it.\<close>
theorem starter_outline_is_valid:
  assumes "-89 \<le> lat" "lat \<le> 89"
  shows "validateOutline (rectangleAround lat lng STARTER_RECTANGLE_HALF_METRES) (Some (lat, lng)) = None
    \<and> areaSquareMetres (rectangleAround lat lng STARTER_RECTANGLE_HALF_METRES) = 10000"
proof -
  let ?rect = "rectangleAround lat lng STARTER_RECTANGLE_HALF_METRES"
  have l: "-90 < lat" "lat < 90" using assms by auto
  have area: "areaSquareMetres ?rect = 10000" by (simp add: square_area[OF l] STARTER_RECTANGLE_HALF_METRES_def)
  have "length ?rect = 4" by (simp add: rectangleAround_def Let_def)
  moreover have "isSimple ?rect" using assms by (intro square_simple) (simp_all add: STARTER_RECTANGLE_HALF_METRES_def)
  moreover have "contains ?rect (lat, lng)" using l by (intro square_contains) (simp_all add: STARTER_RECTANGLE_HALF_METRES_def)
  moreover have "(10000::real) \<le> MAX_OUTLINE_AREA_M2" using pi_ge_two by (simp add: MAX_OUTLINE_AREA_M2_def GEOFENCE_RADIUS_MAX_def)
  ultimately show ?thesis
    using area by (simp add: validateOutline_def Let_def outsideByMetres_def MIN_OUTLINE_CORNERS_def MAX_OUTLINE_CORNERS_def
        MIN_OUTLINE_AREA_M2_def PIN_MAX_OUTSIDE_OUTLINE_METRES_def)
qed

lemma starter_outline_is_valid_witness:
  "validateOutline (rectangleAround (-26) 28 STARTER_RECTANGLE_HALF_METRES) (Some (-26, 28)) = None"
  using starter_outline_is_valid[of "-26" 28] by simp

end
