(* ===== verification/LocationEvidence.thy ===== *)
theory LocationEvidence
  imports DispatchPlan PrecinctGeometry
begin

text \<open>
  \<open>dispatcher/lib/phase/location-evidence.ts\<close>: the recorded fixes of a phase as the console compares them. The
  console reads what the server stored: a phase with an assessment is shown from the assessment alone, the
  geofence verdict is the stored one, and nothing is judged again.
\<close>

section \<open>Data\<close>

datatype fix_source = Driver_phone | Horse_tracker

record recorded_fix =
  fx_source :: fix_source
  fx_coords :: coords
  fx_capturedAt :: "string option"
  fx_captureNote :: "string option"

datatype geofence_verdict =
  Within_tolerance | Outside_tolerance | Not_verified | Not_checked_yet | No_verdict_for_phase

datatype provenance = Recorded_snapshot | Current_reference_only

record boundary_reference =
  bd_coords :: coords
  bd_radiusMetres :: number
  bd_polygon :: "lat_lng list option"
  bd_precinctName :: string
  bd_provenance :: provenance
  bd_policyVersion :: "string option"
  bd_toleranceMetres :: "number option"

record precinct =
  pr_id :: string
  pr_name :: string
  pr_latitude :: number
  pr_longitude :: number
  pr_geofence_radius_metres :: number
  pr_geofence_polygon :: "lat_lng list field"

record location_evidence =
  le_driverFix :: "recorded_fix option"
  le_trackerFix :: "recorded_fix option"
  le_separationMetres :: "number option"
  le_proximity :: "proximity_verdict option"
  le_proximityReasons :: "proximity_reason list"
  le_assessmentRecorded :: bool
  le_verdict :: geofence_verdict
  le_boundary :: "boundary_reference option"

fun FIX_LABELS :: "fix_source \<Rightarrow> string" where
  "FIX_LABELS Driver_phone = ''Driver phone''"
| "FIX_LABELS Horse_tracker = ''Horse tracker''"

fun VERDICT_LABELS :: "geofence_verdict \<Rightarrow> string" where
  "VERDICT_LABELS Within_tolerance = ''Truck within precinct tolerance''"
| "VERDICT_LABELS Outside_tolerance = ''Truck outside precinct tolerance''"
| "VERDICT_LABELS Not_verified = ''Truck precinct check unavailable''"
| "VERDICT_LABELS Not_checked_yet = ''Truck precinct check unavailable''"
| "VERDICT_LABELS No_verdict_for_phase = ''Truck precinct check unavailable for transit legs''"

definition TRACKER_CAPTURE_NOTE :: string where
  "TRACKER_CAPTURE_NOTE = ''Captured within the corroboration window of the driver capture''"

definition UNEVALUATED_STATUSES :: "phase_status list" where
  "UNEVALUATED_STATUSES = [Ph_pending, Ph_in_progress]"

section \<open>Fixes\<close>

text \<open>A real is always finite.\<close>

definition isValidCoords :: "number option \<Rightarrow> number option \<Rightarrow> bool" where
  "isValidCoords lat lng = (case toCoords lat lng of
       None \<Rightarrow> False
     | Some c \<Rightarrow> co_lat c \<ge> -90 \<and> co_lat c \<le> 90 \<and> co_lng c \<ge> -180 \<and> co_lng c \<le> 180)"

definition validCoords :: "number option \<Rightarrow> number option \<Rightarrow> coords option" where
  "validCoords lat lng = (if isValidCoords lat lng then toCoords lat lng else None)"

definition driverFixFor :: "'a phase_descriptor_scheme option \<Rightarrow> location_assessment option \<Rightarrow> recorded_fix option" where
  "driverFixFor phase assessment =
     (let coords = (case assessment of
            Some a \<Rightarrow> validCoords (la_driver_lat a) (la_driver_lng a)
          | None \<Rightarrow> (case phase of Some p \<Rightarrow> validCoords (driver_phone_lat p) (driver_phone_lng p) | None \<Rightarrow> None))
      in case coords of None \<Rightarrow> None
         | Some c \<Rightarrow> Some \<lparr>fx_source = Driver_phone, fx_coords = c,
             fx_capturedAt = (case assessment of Some a \<Rightarrow> la_driver_captured_at a
               | None \<Rightarrow> (case phase of Some p \<Rightarrow> coalesce (row_driver_captured_at p) | None \<Rightarrow> None)),
             fx_captureNote = None\<rparr>)"

text \<open>\<open>assessment?.tracker_captured_at ? null : NOTE\<close>: the empty text is falsy.\<close>

definition trackerFixFor :: "'a phase_descriptor_scheme option \<Rightarrow> location_assessment option \<Rightarrow> recorded_fix option" where
  "trackerFixFor phase assessment =
     (let coords = (case assessment of
            Some a \<Rightarrow> validCoords (la_tracker_lat a) (la_tracker_lng a)
          | None \<Rightarrow> (case phase of Some p \<Rightarrow> validCoords (horse_gps_lat p) (horse_gps_lng p) | None \<Rightarrow> None));
          captured = Option.bind assessment la_tracker_captured_at
      in case coords of None \<Rightarrow> None
         | Some c \<Rightarrow> Some \<lparr>fx_source = Horse_tracker, fx_coords = c, fx_capturedAt = captured,
             fx_captureNote = (if captured \<noteq> None \<and> captured \<noteq> Some [] then None else Some TRACKER_CAPTURE_NOTE)\<rparr>)"

definition verdictFor :: "'a phase_descriptor_scheme \<Rightarrow> geofence_verdict" where
  "verdictFor phase =
     (if pulsit_geofence_confirmed phase = Some True then Within_tolerance
      else if pulsit_geofence_confirmed phase = Some False then Outside_tolerance
      else if phase_kind phase = In_transit then No_verdict_for_phase
      else if phase_state phase \<in> set UNEVALUATED_STATUSES then Not_checked_yet
      else Not_verified)"

section \<open>The boundary\<close>

definition usableOutline :: "lat_lng list field \<Rightarrow> lat_lng list option" where
  "usableOutline polygon = (case coalesce polygon of
       Some ring \<Rightarrow> if length ring \<ge> MIN_OUTLINE_CORNERS then Some ring else None | None \<Rightarrow> None)"

definition boundaryFor :: "precinct option \<Rightarrow> location_assessment option \<Rightarrow> boundary_reference option" where
  "boundaryFor precinct_opt assessment = (case assessment of
       None \<Rightarrow> (case precinct_opt of None \<Rightarrow> None
         | Some p \<Rightarrow> let outline = usableOutline (pr_geofence_polygon p) in
             Some \<lparr>bd_coords = \<lparr>co_lat = pr_latitude p, co_lng = pr_longitude p\<rparr>,
               bd_radiusMetres = (case outline of Some ring \<Rightarrow> enclosingRadiusMetres ring (pr_latitude p, pr_longitude p)
                                  | None \<Rightarrow> pr_geofence_radius_metres p),
               bd_polygon = outline, bd_precinctName = pr_name p, bd_provenance = Current_reference_only,
               bd_policyVersion = None, bd_toleranceMetres = None\<rparr>)
     | Some a \<Rightarrow>
         let name = (case precinct_opt of Some p \<Rightarrow> pr_name p | None \<Rightarrow> ''Recorded precinct'');
             reference = (\<lambda>c radius outline. Some \<lparr>bd_coords = c, bd_radiusMetres = radius, bd_polygon = outline, bd_precinctName = name,
                bd_provenance = Recorded_snapshot, bd_policyVersion = Some (la_policy_version a),
                bd_toleranceMetres = la_precinct_tolerance_metres a\<rparr>)
         in (case (validCoords (la_precinct_lat a) (la_precinct_lng a), usableOutline (la_precinct_geofence_polygon a), la_precinct_radius_metres a) of
             (Some c, Some ring, _) \<Rightarrow> reference c (enclosingRadiusMetres ring (co_lat c, co_lng c)) (Some ring)
           | (Some c, None, Some radius) \<Rightarrow> reference c radius None
           | _ \<Rightarrow> None))"

section \<open>The evidence\<close>

definition buildEvidence :: "'a phase_descriptor_scheme option \<Rightarrow> location_assessment option \<Rightarrow> precinct option
    \<Rightarrow> geofence_verdict \<Rightarrow> location_evidence" where
  "buildEvidence phase assessment precinct_opt verdict =
     (let driverFix = driverFixFor phase assessment; trackerFix = trackerFixFor phase assessment in
      \<lparr>le_driverFix = driverFix, le_trackerFix = trackerFix,
       le_separationMetres = (case assessment of Some a \<Rightarrow> la_separation_metres a
         | None \<Rightarrow> separationMetres (map_option fx_coords driverFix) (map_option fx_coords trackerFix)),
       le_proximity = map_option la_proximity assessment,
       le_proximityReasons = (case assessment of Some a \<Rightarrow> la_reasons a | None \<Rightarrow> []),
       le_assessmentRecorded = (assessment \<noteq> None), le_verdict = verdict, le_boundary = boundaryFor precinct_opt assessment\<rparr>)"

definition locationEvidenceForPhase :: "'a phase_descriptor_scheme \<Rightarrow> precinct option \<Rightarrow> location_evidence" where
  "locationEvidenceForPhase phase precinct_opt =
     buildEvidence (Some phase) (coalesce (action_location_assessment phase)) precinct_opt (verdictFor phase)"

definition locationEvidenceForAssessment :: "location_assessment \<Rightarrow> precinct option \<Rightarrow> location_evidence" where
  "locationEvidenceForAssessment assessment precinct_opt =
     buildEvidence (None :: phase_descriptor option) (Some assessment) precinct_opt Not_verified"

definition hasComparison :: "location_evidence \<Rightarrow> bool" where
  "hasComparison e \<longleftrightarrow> le_driverFix e \<noteq> None \<and> le_trackerFix e \<noteq> None"

definition hasAnyFix :: "location_evidence \<Rightarrow> bool" where
  "hasAnyFix e \<longleftrightarrow> le_driverFix e \<noteq> None \<or> le_trackerFix e \<noteq> None"

definition hasLocationEvidence :: "location_evidence \<Rightarrow> bool" where
  "hasLocationEvidence e \<longleftrightarrow> hasAnyFix e \<or> le_proximity e \<noteq> None \<or> le_verdict e = Within_tolerance \<or> le_verdict e = Outside_tolerance"

section \<open>Framing\<close>

definition BOUNDARY_NEARBY_METRES :: number where
  "BOUNDARY_NEARBY_METRES = 5000"

definition validFixCoords :: "location_evidence \<Rightarrow> coords list" where
  "validFixCoords e = (case le_driverFix e of Some f \<Rightarrow> [fx_coords f] | None \<Rightarrow> [])
     @ (case le_trackerFix e of Some f \<Rightarrow> [fx_coords f] | None \<Rightarrow> [])"

definition validBoundary :: "location_evidence \<Rightarrow> boundary_reference option" where
  "validBoundary e = (case le_boundary e of
       Some b \<Rightarrow> if bd_radiusMetres b \<ge> 0 then Some b else None | None \<Rightarrow> None)"

definition boundaryDistanceMetres :: "location_evidence \<Rightarrow> number option" where
  "boundaryDistanceMetres e = (case validBoundary e of
       None \<Rightarrow> None
     | Some b \<Rightarrow> if length (validFixCoords e) = 0 then None
                 else Some (Min (set (map (\<lambda>c. haversineMetres c (bd_coords b)) (validFixCoords e)))))"

definition boundaryIsNearby :: "location_evidence \<Rightarrow> bool" where
  "boundaryIsNearby e = (case boundaryDistanceMetres e of Some d \<Rightarrow> d \<le> BOUNDARY_NEARBY_METRES | None \<Rightarrow> False)"

definition boundaryInDefaultFrame :: "location_evidence \<Rightarrow> boundary_reference option" where
  "boundaryInDefaultFrame e = (case validBoundary e of
       None \<Rightarrow> None
     | Some b \<Rightarrow> if length (validFixCoords e) = 0 then Some b else if boundaryIsNearby e then Some b else None)"

section \<open>Nothing is spliced\<close>

lemma evidence_simps [simp]:
  "le_verdict (locationEvidenceForPhase phase p) = verdictFor phase"
  "le_proximity (locationEvidenceForPhase phase p) = map_option la_proximity (coalesce (action_location_assessment phase))"
  "le_assessmentRecorded (locationEvidenceForPhase phase p) \<longleftrightarrow> coalesce (action_location_assessment phase) \<noteq> None"
  by (simp_all add: locationEvidenceForPhase_def buildEvidence_def Let_def)

lemma validCoords_Some: "validCoords lat lng = Some c \<Longrightarrow> lat = Some (co_lat c) \<and> lng = Some (co_lng c) \<and> on_earth c"
  by (auto simp: validCoords_def isValidCoords_def toCoords_def on_earth_def split: if_splits option.splits)

text \<open>The record of a boundary without the name of the place, which is always today's.\<close>

abbreviation geometry :: "location_evidence \<Rightarrow> boundary_reference option" where
  "geometry e \<equiv> map_option (\<lambda>b. b\<lparr>bd_precinctName := []\<rparr>) (le_boundary e)"

text \<open>Evidence of two moments is never mixed: once the server stored an assessment with a phase, the fixes,
  their separation, the proximity and the boundary shown are the assessment's, whatever the other columns of the
  row say and wherever the precinct's boundary lies today; a fix the assessment lacks stays missing. Without an assessment
  no proximity is stated, and the boundary shown is marked as today's.\<close>
theorem assessment_is_not_spliced:
  "(coalesce (action_location_assessment phase) = Some a \<longrightarrow> coalesce (action_location_assessment other) = Some a \<longrightarrow>
      (let e = locationEvidenceForPhase phase p; e' = locationEvidenceForPhase other q in
       le_driverFix e = le_driverFix e' \<and> le_trackerFix e = le_trackerFix e' \<and> le_separationMetres e = la_separation_metres a
       \<and> le_proximity e = Some (la_proximity a) \<and> geometry e = geometry e'
       \<and> (\<forall>b. le_boundary e = Some b \<longrightarrow> bd_provenance b = Recorded_snapshot)))
   \<and> (coalesce (action_location_assessment phase) = None \<longrightarrow>
      (let e = locationEvidenceForPhase phase p in
       le_proximity e = None \<and> (\<forall>b. le_boundary e = Some b \<longrightarrow> bd_provenance b = Current_reference_only)))"
  by (auto simp: locationEvidenceForPhase_def buildEvidence_def driverFixFor_def trackerFixFor_def boundaryFor_def Let_def
      split: option.splits)

lemma assessment_is_not_spliced_witness:
  "\<exists>a. let phase = (demo_phase Arrival 3 Ph_completed)\<lparr>action_location_assessment := Val a, driver_phone_lat := Some 1, driver_phone_lng := Some 2\<rparr>
     in le_driverFix (locationEvidenceForPhase phase None) = None \<and> le_proximity (locationEvidenceForPhase phase None) = Some Unverified_proximity"
proof -
  define a where "a = \<lparr>la_schema_version = 1, la_policy_version = ''p'', la_evaluated_at = ''t'', la_driver_lat = None, la_driver_lng = None,
     la_driver_captured_at = None, la_driver_accuracy_metres = None, la_tracker_lat = None, la_tracker_lng = None, la_tracker_captured_at = None,
     la_separation_metres = None, la_proximity = Unverified_proximity, la_reasons = [Missing_phone], la_max_separation_metres = 200,
     la_max_age_seconds = 60, la_max_skew_seconds = 60, la_max_phone_accuracy_metres = 50, la_expected_trip_stop_id = None, la_precinct_id = None,
     la_precinct_lat = None, la_precinct_lng = None, la_precinct_radius_metres = None, la_precinct_geofence_polygon = Null,
     la_precinct_tolerance_metres = None, la_driver_in_precinct = None, la_truck_in_precinct = None\<rparr>"
  let ?phase = "(demo_phase Arrival 3 Ph_completed)\<lparr>action_location_assessment := Val a, driver_phone_lat := Some 1, driver_phone_lng := Some 2\<rparr>"
  let ?other = "(demo_phase Arrival 3 Ph_completed)\<lparr>action_location_assessment := Val a\<rparr>"
  have "le_driverFix (locationEvidenceForPhase ?phase None) = le_driverFix (locationEvidenceForPhase ?other None)
     \<and> le_proximity (locationEvidenceForPhase ?phase None) = Some (la_proximity a)"
    using assessment_is_not_spliced[of ?phase a ?other None None] by (simp add: Let_def)
  moreover have "le_driverFix (locationEvidenceForPhase ?other None) = None"
    by (simp add: locationEvidenceForPhase_def buildEvidence_def driverFixFor_def validCoords_def isValidCoords_def toCoords_def a_def)
  ultimately show ?thesis unfolding Let_def by (intro exI[of _ a]) (simp add: a_def)
qed

end
