(* ===== verification/PhaseChecks.thy ===== *)
theory PhaseChecks
  imports LocationEvidence
begin

text \<open>
  \<open>dispatcher/lib/phase/checks.ts\<close>: the rows of the "Checked" zone of a phase card, each a comparison of
  values the ledger holds. A text of the code is a constructor here that carries the values the text prints.
\<close>

section \<open>Rows\<close>

datatype check_key =
  Truck_geofence | Driver_proximity | Parcels | Counts | Seal_number | Seal_condition | Seal_inspection | Bypassed

datatype check_result = Pass | Flag | Not_checked | In_progress

datatype check_title =
  Checks_bypassed
| Truck_title geofence_verdict
| Driver_with_truck | Driver_separated | Driver_unavailable
| All_parcels_scanned | Parcel_count_not_checked | Parcels_not_scanned int | Excess_parcels_scanned int
| Counts_agree | Counts_not_compared | Parcels_unaccounted_for int | Excess_at_destination int
| Scan_in_progress
| Seal_matches | Seal_differs | Seal_not_compared
| Condition_not_recorded | Seal_found seal_condition
| Seal_not_inspected_yet | Seal_not_inspected_in_transit

datatype check_detail =
  Phase_closed_by_dispatcher
| Inside_boundary | Outside_boundary | No_precinct_verdict
| Within_separation | Beyond_separation | Could_not_be_compared
| No_parcel_baseline | Scanned_of_expected int int
| No_scan_counts | Scanned_out_and_in int int
| Scanned_so_far int "int option" phase_type
| No_departure_seal | No_arrival_seal | Same_seal string | Two_seals string string
| No_condition | Found_intact | Found_not_intact
| First_inspected_at_arrival "string option"

record phase_check =
  ck_key :: check_key
  ck_result :: check_result
  ck_title :: check_title
  ck_detail :: check_detail

record checks_input =
  ci_phase :: phase_descriptor
  ci_allPhases :: "phase_descriptor list"
  ci_expectedCount :: "int option"
  ci_liveScannedCount :: "int option"
  ci_originScannedCount :: "int option"
  ci_precinct :: "precinct option"

definition check :: "check_key \<Rightarrow> check_result \<Rightarrow> check_title \<Rightarrow> check_detail \<Rightarrow> phase_check" where
  "check k r t d = \<lparr>ck_key = k, ck_result = r, ck_title = t, ck_detail = d\<rparr>"

lemma check_simps [simp]:
  "ck_key (check k r t d) = k" "ck_result (check k r t d) = r" "ck_title (check k r t d) = t" "ck_detail (check k r t d) = d"
  by (simp_all add: check_def)

section \<open>Parcels\<close>

record count_wording =
  cw_passTitle :: check_title
  cw_notCheckedTitle :: check_title
  cw_notCheckedDetail :: check_detail
  cw_shortTitle :: "int \<Rightarrow> check_title"
  cw_excessTitle :: "int \<Rightarrow> check_title"
  cw_figures :: "int \<Rightarrow> int \<Rightarrow> check_detail"

definition parcels_wording :: count_wording where
  "parcels_wording = \<lparr>cw_passTitle = All_parcels_scanned, cw_notCheckedTitle = Parcel_count_not_checked, cw_notCheckedDetail = No_parcel_baseline,
     cw_shortTitle = Parcels_not_scanned, cw_excessTitle = Excess_parcels_scanned, cw_figures = (\<lambda>expected scanned. Scanned_of_expected scanned expected)\<rparr>"

definition counts_wording :: count_wording where
  "counts_wording = \<lparr>cw_passTitle = Counts_agree, cw_notCheckedTitle = Counts_not_compared, cw_notCheckedDetail = No_scan_counts,
     cw_shortTitle = Parcels_unaccounted_for, cw_excessTitle = Excess_at_destination, cw_figures = Scanned_out_and_in\<rparr>"

definition compareCounts :: "check_key \<Rightarrow> count_wording \<Rightarrow> int option \<Rightarrow> int option \<Rightarrow> phase_check" where
  "compareCounts key wording baseline actual = (case (baseline, actual) of
       (Some b, Some a) \<Rightarrow>
         let detail = cw_figures wording b a; gap = b - a in
         if gap = 0 then check key Pass (cw_passTitle wording) detail
         else check key Flag (if gap > 0 then cw_shortTitle wording gap else cw_excessTitle wording \<bar>gap\<bar>) detail
     | _ \<Rightarrow> check key Not_checked (cw_notCheckedTitle wording) (cw_notCheckedDetail wording))"

definition parcelsCheck :: "int option \<Rightarrow> int option \<Rightarrow> phase_check" where
  "parcelsCheck baseline actual = compareCounts Parcels parcels_wording baseline actual"

definition liveScanChecks :: "checks_input \<Rightarrow> phase_check list" where
  "liveScanChecks input = (let phase = ci_phase input in
     if phase_kind phase \<noteq> Loading \<and> phase_kind phase \<noteq> Unloading then []
     else case ci_liveScannedCount input of
         None \<Rightarrow> []
       | Some scanned \<Rightarrow>
           if map_option phase_event_id (activePhase (ci_allPhases input)) \<noteq> Some (phase_event_id phase) then []
           else [check Parcels In_progress Scan_in_progress (Scanned_so_far scanned (ci_expectedCount input) (phase_kind phase))])"

section \<open>Location\<close>

definition truckGeofenceCheck :: "location_evidence \<Rightarrow> phase_check" where
  "truckGeofenceCheck evidence = (case le_verdict evidence of
       Within_tolerance \<Rightarrow> check Truck_geofence Pass (Truck_title Within_tolerance) Inside_boundary
     | Outside_tolerance \<Rightarrow> check Truck_geofence Flag (Truck_title Outside_tolerance) Outside_boundary
     | _ \<Rightarrow> check Truck_geofence Not_checked (Truck_title Not_verified) No_precinct_verdict)"

definition driverProximityCheck :: "location_evidence \<Rightarrow> phase_check option" where
  "driverProximityCheck evidence =
     (if \<not> le_assessmentRecorded evidence then None
      else case le_proximity evidence of
         None \<Rightarrow> None
       | Some Within_limit \<Rightarrow> Some (check Driver_proximity Pass Driver_with_truck Within_separation)
       | Some Separated \<Rightarrow> Some (check Driver_proximity Flag Driver_separated Beyond_separation)
       | Some Unverified_proximity \<Rightarrow> Some (check Driver_proximity Not_checked Driver_unavailable Could_not_be_compared))"

definition locationChecks :: "checks_input \<Rightarrow> phase_check list" where
  "locationChecks input = (let evidence = locationEvidenceForPhase (ci_phase input) (ci_precinct input) in
     case driverProximityCheck evidence of
       None \<Rightarrow> [truckGeofenceCheck evidence] | Some proximity \<Rightarrow> [truckGeofenceCheck evidence, proximity])"

section \<open>Seals\<close>

definition sealNumberCheck :: "string option \<Rightarrow> string option \<Rightarrow> phase_check" where
  "sealNumberCheck departureSeal arrivalSeal = (case departureSeal of
       None \<Rightarrow> check Seal_number Not_checked Seal_not_compared No_departure_seal
     | Some departure \<Rightarrow> (case arrivalSeal of
         None \<Rightarrow> check Seal_number Not_checked Seal_not_compared No_arrival_seal
       | Some arrival \<Rightarrow>
           if departure = arrival then check Seal_number Pass Seal_matches (Same_seal arrival)
           else check Seal_number Flag Seal_differs (Two_seals departure arrival)))"

definition sealConditionCheck :: "seal_condition field \<Rightarrow> phase_check" where
  "sealConditionCheck condition = (case coalesce condition of
       None \<Rightarrow> check Seal_condition Not_checked Condition_not_recorded No_condition
     | Some c \<Rightarrow> check Seal_condition (if c = Intact then Pass else Flag) (Seal_found c) (if c = Intact then Found_intact else Found_not_intact))"

definition arrivalChecks :: "checks_input \<Rightarrow> phase_check list" where
  "arrivalChecks input = (let phase = ci_phase input in
     sealNumberCheck (departureSealForLeg (ci_allPhases input) phase) (row_seal_number phase)
     # sealConditionCheck (row_seal_condition phase) # locationChecks input)"

section \<open>Phase types\<close>

definition bypassedChecks :: "phase_check list" where
  "bypassedChecks = [check Bypassed Not_checked Checks_bypassed Phase_closed_by_dispatcher]"

definition transitChecks :: "checks_input \<Rightarrow> phase_check list" where
  "transitChecks input = (let phase = ci_phase input; resolved = is_resolved phase;
       isActive = (map_option phase_event_id (activePhase (ci_allPhases input)) = Some (phase_event_id phase))
     in if \<not> resolved \<and> \<not> isActive then []
        else [check Seal_inspection Not_checked (if resolved then Seal_not_inspected_in_transit else Seal_not_inspected_yet)
               (First_inspected_at_arrival (departureSealForLeg (ci_allPhases input) phase))])"

definition resolvedChecks :: "checks_input \<Rightarrow> phase_check list" where
  "resolvedChecks input = (let phase = ci_phase input in case phase_kind phase of
       Activation \<Rightarrow> locationChecks input
     | Departure \<Rightarrow> locationChecks input
     | Loading \<Rightarrow> parcelsCheck (ci_expectedCount input) (parcel_count_origin phase) # locationChecks input
     | Unloading \<Rightarrow> parcelsCheck (ci_expectedCount input) (ci_liveScannedCount input) # locationChecks input
     | Arrival \<Rightarrow> arrivalChecks input
     | Confirmation \<Rightarrow> compareCounts Counts counts_wording (ci_originScannedCount input) (parcel_count_destination phase) # locationChecks input
     | _ \<Rightarrow> [])"

definition buildPhaseChecks :: "checks_input \<Rightarrow> phase_check list" where
  "buildPhaseChecks input = (let phase = ci_phase input in
     if phase_kind phase = Trip_creation then []
     else if phase_state phase = Ph_overridden then bypassedChecks
     else if phase_kind phase = In_transit then transitChecks input
     else if is_resolved phase then resolvedChecks input else liveScanChecks input)"

section \<open>What a passed check proves\<close>

text \<open>The recorded fact behind each passed comparison, per phase type.\<close>

definition truck_was_inside :: "phase_descriptor \<Rightarrow> bool" where
  "truck_was_inside phase \<longleftrightarrow> pulsit_geofence_confirmed phase = Some True"

definition driver_was_with_truck :: "phase_descriptor \<Rightarrow> bool" where
  "driver_was_with_truck phase \<longleftrightarrow> (\<forall>a. coalesce (action_location_assessment phase) = Some a \<longrightarrow> la_proximity a = Within_limit)"

definition counts_agree :: "int option \<Rightarrow> int option \<Rightarrow> bool" where
  "counts_agree baseline actual \<longleftrightarrow> baseline \<noteq> None \<and> baseline = actual"

definition recorded_facts :: "checks_input \<Rightarrow> bool" where
  "recorded_facts input \<longleftrightarrow> (let phase = ci_phase input in truck_was_inside phase \<and> driver_was_with_truck phase
     \<and> (phase_kind phase = Loading \<longrightarrow> counts_agree (ci_expectedCount input) (parcel_count_origin phase))
     \<and> (phase_kind phase = Unloading \<longrightarrow> counts_agree (ci_expectedCount input) (ci_liveScannedCount input))
     \<and> (phase_kind phase = Confirmation \<longrightarrow> counts_agree (ci_originScannedCount input) (parcel_count_destination phase))
     \<and> (phase_kind phase = Arrival \<longrightarrow> coalesce (row_seal_condition phase) = Some Intact
          \<and> row_seal_number phase \<noteq> None \<and> departureSealForLeg (ci_allPhases input) phase = row_seal_number phase))"

lemma compareCounts_passes: "ck_result (compareCounts k w b a) = Pass \<longleftrightarrow> counts_agree b a"
  by (auto simp: compareCounts_def counts_agree_def Let_def split: option.splits)

lemma parcelsCheck_passes: "ck_result (parcelsCheck b a) = Pass \<longleftrightarrow> counts_agree b a"
  by (simp add: parcelsCheck_def compareCounts_passes)

lemma sealNumberCheck_passes: "ck_result (sealNumberCheck d a) = Pass \<longleftrightarrow> a \<noteq> None \<and> d = a"
  by (auto simp: sealNumberCheck_def split: option.splits)

lemma sealConditionCheck_passes: "ck_result (sealConditionCheck c) = Pass \<longleftrightarrow> coalesce c = Some Intact"
  by (auto simp: sealConditionCheck_def split: option.splits)

lemma verdictFor_within: "verdictFor phase = Within_tolerance \<longleftrightarrow> pulsit_geofence_confirmed phase = Some True"
  by (auto simp: verdictFor_def)

lemma locationChecks_pass:
  "list_all (\<lambda>c. ck_result c = Pass) (locationChecks input) \<longleftrightarrow> truck_was_inside (ci_phase input) \<and> driver_was_with_truck (ci_phase input)"
proof -
  let ?e = "locationEvidenceForPhase (ci_phase input) (ci_precinct input)"
  have truck: "ck_result (truckGeofenceCheck ?e) = Pass \<longleftrightarrow> truck_was_inside (ci_phase input)"
    by (simp add: truckGeofenceCheck_def truck_was_inside_def verdictFor_within[symmetric]
        split: geofence_verdict.split)
  have driver: "(case driverProximityCheck ?e of None \<Rightarrow> True | Some c \<Rightarrow> ck_result c = Pass) \<longleftrightarrow> driver_was_with_truck (ci_phase input)"
    by (auto simp: driverProximityCheck_def driver_was_with_truck_def
        split: option.split proximity_verdict.split)
  show ?thesis using truck driver
    by (simp add: locationChecks_def Let_def split: option.splits)
qed

text \<open>A check that passes is a recorded agreement, never the absence of one: all checks of a closed phase
  pass exactly when the tracker was recorded inside the precinct, the driver with the truck wherever that was assessed, and, where
  the phase compares them, both counts are recorded and equal, both seals are recorded and equal and the
  seal was found intact. A missing value is never taken for zero or for a match.\<close>
lemma checks_pass_on_recorded_facts:
  assumes "is_resolved (ci_phase input)" "phase_state (ci_phase input) \<noteq> Ph_overridden"
    and "phase_kind (ci_phase input) \<notin> {Trip_creation, In_transit}"
  shows "list_all (\<lambda>c. ck_result c = Pass) (buildPhaseChecks input) \<longleftrightarrow> recorded_facts input"
proof -
  have eq: "buildPhaseChecks input = resolvedChecks input" using assms by (simp add: buildPhaseChecks_def)
  show ?thesis unfolding eq
    using assms(3) locationChecks_pass[of input]
    by (cases "phase_kind (ci_phase input)")
      (auto simp: resolvedChecks_def recorded_facts_def arrivalChecks_def Let_def parcelsCheck_passes compareCounts_passes
        sealNumberCheck_passes sealConditionCheck_passes)
qed

text \<open>An arrival whose departure recorded no seal.\<close>

definition demo_checks :: checks_input where
  "demo_checks = \<lparr>ci_phase = (demo_phase Arrival 3 Ph_completed)\<lparr>row_seal_number := Some ''S1'', row_seal_condition := Val Intact,
       pulsit_geofence_confirmed := Some True\<rparr>,
     ci_allPhases = [demo_phase Departure 2 Ph_completed], ci_expectedCount = None, ci_liveScannedCount = None,
     ci_originScannedCount = None, ci_precinct = None\<rparr>"

lemma checks_pass_on_recorded_facts_witness:
  "\<not> list_all (\<lambda>c. ck_result c = Pass) (buildPhaseChecks demo_checks)"
proof -
  have h: "is_resolved (ci_phase demo_checks)" "phase_state (ci_phase demo_checks) \<noteq> Ph_overridden"
      "phase_kind (ci_phase demo_checks) \<notin> {Trip_creation, In_transit}"
    by (simp_all add: demo_checks_def demo_phase_def is_resolved_iff)
  have "\<not> recorded_facts demo_checks"
    by (simp add: demo_checks_def demo_phase_def recorded_facts_def Let_def departureSealForLeg_def sortedPlan_def at_end_def)
  then show ?thesis using checks_pass_on_recorded_facts[OF h] by simp
qed

end
