(* ===== verification/PhaseActs.thy ===== *)
theory PhaseActs
  imports DispatchPlan "HOL-Library.Product_Lexorder" "HOL-Library.AList"
begin

text \<open>
  \<open>dispatcher/lib/phase/acts.ts\<close> and the trip events of \<open>dispatcher/lib/phase/trip-events.ts\<close>: what the
  ledger, the artifacts and the exceptions say happened in one phase, as the rows of its rail, in order.
  How dates parse and how texts collate is the browser's: \<open>parseDate\<close> (\<open>None\<close> is \<open>NaN\<close>) and the
  collation key that \<open>localeCompare\<close> orders by.
\<close>

section \<open>Inputs\<close>

record js_locale =
  parseDate :: "string \<Rightarrow> number option"
  collate :: "string \<Rightarrow> string"

datatype exception_type =
  Seal_mismatch | Seal_unverified | Seal_compromised | Parcel_count_mismatch | Gps_mismatch | Driver_vehicle_separation
| Driver_location_mismatch | Trailer_location_mismatch | Trailer_separated_in_transit | Moved_before_departure | Tracker_silent
| Route_deviation | Vehicle_substitution | Driver_substitution | Checkpoint_timeout | Waybill_count_mismatch | Sequence_violation
| Panic_button | Delivery_refused | Cargo_damage | Seal_broken_in_transit | Mechanical | Document_review
| Dispatcher_note | Escalation | Trip_hold | Receiver_id_mismatch | Receiver_id_unverified

datatype exception_source = By_system | By_driver | By_dispatcher
datatype exception_severity = Info | Warning | Critical
datatype review_status = Recorded | Needs_review | Reviewed

record trip_exception =
  te_id :: string
  te_trip_id :: string
  te_exception_type :: exception_type
  te_source :: exception_source
  te_severity :: exception_severity
  te_description :: string
  te_phase_event_id :: "string option"
  te_checkpoint_id :: "string option"
  te_supporting_artifact_id :: "string option"
  te_review_status :: review_status
  te_created_at :: string
  te_updated_at :: string

record evidence_artifact =
  ea_id :: string
  ea_trip_id :: string
  ea_file_hash :: string
  ea_mime_type :: string
  ea_captured_at :: string
  ea_captured_by_driver_id :: "string option"
  ea_created_at :: string
  ea_phase_event_id :: "string option"
  ea_evidence_role :: "evidence_role option"

record driver_transfer =
  dt_substitution_id :: string
  dt_sequence_number :: int
  dt_effective_at :: string

record incident_summary =
  is_incident_id :: string
  is_reported_occurred_at :: "string option"
  is_received_at :: string

datatype trip_timeline_event = Transfer_event driver_transfer | Incident_event incident_summary

section \<open>Rows\<close>

datatype act_state = Uploaded | Submitted | Not_submitted | After_close | Trip_cancelled_act
datatype evidence_provenance = From_driver | From_receiver | Unknown_source
datatype completion_outcome = Done | Done_with_exception | Overridden_by_dispatcher
datatype act_trigger = Handshake | Override | Event
datatype expected_reason = Wait_evidence | Wait_driver_confirmation | Wait_warehouse_scan | En_route

record evidence_row =
  er_role :: evidence_role
  er_artifactId :: string
  er_provenance :: evidence_provenance
  er_state :: act_state
  er_metadataAvailable :: bool
  er_takenAt :: "string option"
  er_receivedAt :: "string option"
  er_receivedAfterCancellation :: bool

record completion_row =
  cr_outcome :: completion_outcome
  cr_confirmedAt :: "string option"
  cr_recordedAt :: string
  cr_sealNumber :: "string option"
  cr_sealCondition :: "seal_condition option"
  cr_parcelsScanned :: "int option"
  cr_driverVisualCount :: "int option"
  cr_override :: "(string option \<times> string option) option"

record exception_row =
  xr_exceptionId :: string
  xr_at :: string
  xr_trigger :: act_trigger

datatype act_body =
  Evidence evidence_row
| Milestone string "string option"
| Completion completion_row
| Exception exception_row
| Absent evidence_role
| Anchor anchor_status "string option"
| Expected "evidence_role option" expected_reason
| Trip_event string trip_timeline_event

record phase_act =
  pa_key :: string
  pa_body :: act_body

record acts_input =
  ai_phase :: phase_descriptor
  ai_allPhases :: "phase_descriptor list"
  ai_isActive :: bool
  ai_tripStatus :: coarse_trip_status
  ai_tripClosedAt :: "string option"
  ai_artifacts :: "evidence_artifact list"
  ai_exceptions :: "trip_exception list"
  ai_consensusAt :: "string option"

section \<open>Times\<close>

definition toMillis :: "js_locale \<Rightarrow> string option \<Rightarrow> number option" where
  "toMillis L instant = (case instant of None \<Rightarrow> None | Some s \<Rightarrow> if s = [] then None else parseDate L s)"

definition isAfter :: "js_locale \<Rightarrow> string option \<Rightarrow> string option \<Rightarrow> bool" where
  "isAfter L later earlier = (case (toMillis L later, toMillis L earlier) of (Some a, Some b) \<Rightarrow> a > b | _ \<Rightarrow> False)"

definition RECEIVED_GAP_DISPLAY_MS :: number where
  "RECEIVED_GAP_DISPLAY_MS = 120000"

definition showsReceivedTime :: "js_locale \<Rightarrow> string option \<Rightarrow> string option \<Rightarrow> bool" where
  "showsReceivedTime L takenAt receivedAt = (case (toMillis L takenAt, toMillis L receivedAt) of
       (Some taken, Some received) \<Rightarrow> \<bar>received - taken\<bar> \<ge> RECEIVED_GAP_DISPLAY_MS | _ \<Rightarrow> False)"

text \<open>The lookup in a \<open>Map\<close> built from a list of pairs: of two with one key the later counts.\<close>

definition by_id :: "('a \<Rightarrow> string) \<Rightarrow> 'a list \<Rightarrow> string \<Rightarrow> 'a option" where
  "by_id key xs i = map_of (rev (map (\<lambda>x. (key x, x)) xs)) i"

definition exceptionEventTime :: "trip_exception \<Rightarrow> evidence_artifact list \<Rightarrow> string" where
  "exceptionEventTime x artifacts =
     (case (case te_supporting_artifact_id x of Some i \<Rightarrow> if i = [] then None else by_id ea_id artifacts i | None \<Rightarrow> None) of
        Some a \<Rightarrow> ea_captured_at a | None \<Rightarrow> te_created_at x)"

section \<open>Context\<close>

definition HANDSHAKE_FINDING_TYPES :: "exception_type list" where
  "HANDSHAKE_FINDING_TYPES = [Driver_vehicle_separation, Driver_location_mismatch, Gps_mismatch, Trailer_location_mismatch,
     Seal_mismatch, Seal_unverified, Seal_compromised, Parcel_count_mismatch]"

definition present :: "string option \<Rightarrow> bool" where
  "present s \<longleftrightarrow> s \<noteq> None \<and> s \<noteq> Some []"

definition exceptionTrigger :: "trip_exception \<Rightarrow> 'a phase_descriptor_scheme \<Rightarrow> act_trigger" where
  "exceptionTrigger x phase =
     (if \<not> present (completed_at phase) \<or> te_source x \<noteq> By_system \<or> te_checkpoint_id x \<noteq> None
        \<or> te_phase_event_id x \<noteq> Some (phase_event_id phase) \<or> te_exception_type x \<notin> set HANDSHAKE_FINDING_TYPES then Event
      else if phase_state phase = Ph_overridden then Override else Handshake)"

definition DOCUMENT_ROLES :: "evidence_role list" where
  "DOCUMENT_ROLES = [Pod_signature, Linehaul_pdf]"

definition isDocumentRole :: "evidence_role \<Rightarrow> bool" where
  "isDocumentRole role \<longleftrightarrow> role \<in> set DOCUMENT_ROLES"

definition UNTRACKED_ROLES :: "evidence_role list" where
  "UNTRACKED_ROLES = [Waybill_photo, Linehaul_pdf]"

definition ALL_ROLES :: "evidence_role list" where
  "ALL_ROLES = [Linehaul_photo, Linehaul_pdf, Seal_photo, Waybill_photo, Pod_photo, Pod_signature]"

fun roleColumn :: "phase_descriptor \<Rightarrow> evidence_role \<Rightarrow> string option" where
  "roleColumn phase Linehaul_photo = coalesce (row_linehaul_photo_artifact_id phase)"
| "roleColumn phase Linehaul_pdf = coalesce (row_linehaul_pdf_artifact_id phase)"
| "roleColumn phase Seal_photo = row_seal_photo_artifact_id phase"
| "roleColumn phase Waybill_photo = row_waybill_photo_artifact_id phase"
| "roleColumn phase Pod_photo = row_pod_photo_artifact_id phase"
| "roleColumn phase Pod_signature = row_pod_signature_artifact_id phase"

text \<open>\<open>Map.set\<close> keeps the place of a key that is there already, as \<^const>\<open>AList.update\<close> does.\<close>

definition cite :: "phase_descriptor \<Rightarrow> evidence_role \<Rightarrow> (string \<times> evidence_role) list \<Rightarrow> (string \<times> evidence_role) list" where
  "cite phase role cited = (case roleColumn phase role of
       Some i \<Rightarrow> if i = [] then cited else AList.update i role cited | None \<Rightarrow> cited)"

record acts_ctx =
  cx_phase :: phase_descriptor
  cx_allPhases :: "phase_descriptor list"
  cx_resolved :: bool
  cx_running :: bool
  cx_isActive :: bool
  cx_tripStatus :: coarse_trip_status
  cx_tripClosedAt :: "string option"
  cx_artifacts :: "evidence_artifact list"
  cx_cited :: "(string \<times> evidence_role) list"
  cx_attributed :: "evidence_artifact list"
  cx_exceptions :: "trip_exception list"
  cx_consensusAt :: "string option"

definition keep_exception :: "string \<Rightarrow> trip_exception \<Rightarrow> (string \<times> trip_exception) list \<Rightarrow> (string \<times> trip_exception) list" where
  "keep_exception i x byKey = (if te_phase_event_id x = Some i then AList.update (te_id x) x byKey else byKey)"

definition phase_exceptions :: "string \<Rightarrow> trip_exception list \<Rightarrow> trip_exception list" where
  "phase_exceptions i xs = map snd (fold (keep_exception i) xs [])"

definition buildContext :: "acts_input \<Rightarrow> acts_ctx" where
  "buildContext input = (let phase = ai_phase input in
     \<lparr>cx_phase = phase, cx_allPhases = ai_allPhases input, cx_resolved = is_resolved phase,
      cx_running = (ai_tripStatus input \<noteq> Trip_created \<and> ai_tripStatus input \<noteq> Trip_closed \<and> ai_tripStatus input \<noteq> Trip_cancelled),
      cx_isActive = ai_isActive input, cx_tripStatus = ai_tripStatus input, cx_tripClosedAt = ai_tripClosedAt input,
      cx_artifacts = ai_artifacts input, cx_cited = fold (cite phase) ALL_ROLES [],
      cx_attributed = filter (\<lambda>a. ea_phase_event_id a = Some (phase_event_id phase) \<and> ea_evidence_role a \<noteq> None) (ai_artifacts input),
      cx_exceptions = phase_exceptions (phase_event_id phase) (ai_exceptions input), cx_consensusAt = ai_consensusAt input\<rparr>)"

definition rowsAreVisible :: "acts_ctx \<Rightarrow> bool" where
  "rowsAreVisible ctx \<longleftrightarrow> cx_resolved ctx \<or> (cx_isActive ctx \<and> cx_running ctx)
     \<or> (cx_tripStatus ctx = Trip_cancelled \<and> (length (cx_attributed ctx) > 0 \<or> length (cx_exceptions ctx) > 0))"

section \<open>Evidence rows\<close>

definition row_key :: "acts_ctx \<Rightarrow> string \<Rightarrow> string" where
  "row_key ctx rest = phase_event_id (cx_phase ctx) @ rest"

definition evidenceState :: "js_locale \<Rightarrow> acts_ctx \<Rightarrow> string \<Rightarrow> evidence_artifact option \<Rightarrow> act_state" where
  "evidenceState L ctx i artifact =
     (if cx_resolved ctx then
        if map_of (cx_cited ctx) i \<noteq> None then Submitted
        else if isAfter L (map_option ea_created_at artifact) (completed_at (cx_phase ctx)) then After_close else Not_submitted
      else if cx_tripStatus ctx = Trip_cancelled then Trip_cancelled_act else Uploaded)"

definition evidenceProvenance :: "acts_ctx \<Rightarrow> evidence_artifact option \<Rightarrow> evidence_provenance" where
  "evidenceProvenance ctx artifact = (case artifact of
       None \<Rightarrow> Unknown_source
     | Some a \<Rightarrow> if ea_evidence_role a = Some Pod_signature \<and> ea_phase_event_id a = Some (phase_event_id (cx_phase ctx)) then From_receiver
                 else if present (ea_captured_by_driver_id a) then From_driver else Unknown_source)"

definition evidenceActFor :: "js_locale \<Rightarrow> acts_ctx \<Rightarrow> string \<Rightarrow> phase_act option" where
  "evidenceActFor L ctx i = (let artifact = by_id ea_id (cx_artifacts ctx) i;
       role = (case map_of (cx_cited ctx) i of Some r \<Rightarrow> Some r | None \<Rightarrow> Option.bind artifact ea_evidence_role);
       state = evidenceState L ctx i artifact
     in case role of None \<Rightarrow> None
        | Some r \<Rightarrow> Some \<lparr>pa_key = row_key ctx ('':evidence:'' @ i), pa_body = Evidence \<lparr>er_role = r, er_artifactId = i,
            er_provenance = evidenceProvenance ctx artifact, er_state = state, er_metadataAvailable = (artifact \<noteq> None),
            er_takenAt = map_option ea_captured_at artifact, er_receivedAt = map_option ea_created_at artifact,
            er_receivedAfterCancellation = (state = Trip_cancelled_act \<and> isAfter L (map_option ea_created_at artifact) (cx_tripClosedAt ctx))\<rparr>\<rparr>)"

text \<open>\<open>new Set(xs)\<close>: first occurrences, in order.\<close>

definition first_of_each :: "'a list \<Rightarrow> 'a list" where
  "first_of_each xs = rev (remdups (rev xs))"

definition evidenceActs :: "js_locale \<Rightarrow> acts_ctx \<Rightarrow> phase_act list" where
  "evidenceActs L ctx = List.map_filter (evidenceActFor L ctx)
     (first_of_each (map ea_id (cx_attributed ctx) @ map fst (cx_cited ctx)))"

section \<open>Milestone, completion, exceptions\<close>

definition milestoneActs :: "acts_ctx \<Rightarrow> phase_act list" where
  "milestoneActs ctx = (let phase = cx_phase ctx in
     if phase_kind phase \<noteq> In_transit then []
     else case legDepartureAt (cx_allPhases ctx) phase of
         None \<Rightarrow> []
       | Some t \<Rightarrow> [\<lparr>pa_key = row_key ctx '':milestone:departed'', pa_body = Milestone t (departureSealForLeg (cx_allPhases ctx) phase)\<rparr>])"

definition parcelsScanned :: "phase_descriptor \<Rightarrow> int option" where
  "parcelsScanned phase = (if phase_kind phase = Loading then parcel_count_origin phase
     else if phase_kind phase = Confirmation then parcel_count_destination phase else None)"

definition completionOutcome :: "phase_descriptor \<Rightarrow> completion_outcome" where
  "completionOutcome phase = (if phase_state phase = Ph_overridden then Overridden_by_dispatcher
     else if phase_state phase = Ph_exception then Done_with_exception else Done)"

definition completionActs :: "acts_ctx \<Rightarrow> phase_act list" where
  "completionActs ctx = (let phase = cx_phase ctx in case completed_at phase of
       None \<Rightarrow> []
     | Some recorded \<Rightarrow> [\<lparr>pa_key = row_key ctx '':completion'', pa_body = Completion \<lparr>cr_outcome = completionOutcome phase,
         cr_confirmedAt = coalesce (row_driver_captured_at phase), cr_recordedAt = recorded, cr_sealNumber = row_seal_number phase,
         cr_sealCondition = coalesce (row_seal_condition phase), cr_parcelsScanned = parcelsScanned phase,
         cr_driverVisualCount = row_driver_visual_count phase,
         cr_override = (if dispatcher_override_note phase \<noteq> None \<or> dispatcher_override_user_id phase \<noteq> None
           then Some (dispatcher_override_note phase, dispatcher_override_user_id phase) else None)\<rparr>\<rparr>])"

definition toExceptionActs :: "phase_descriptor \<Rightarrow> trip_exception list \<Rightarrow> evidence_artifact list \<Rightarrow> phase_act list" where
  "toExceptionActs phase xs artifacts = map (\<lambda>x. \<lparr>pa_key = phase_event_id phase @ '':exception:'' @ te_id x,
     pa_body = Exception \<lparr>xr_exceptionId = te_id x, xr_at = exceptionEventTime x artifacts, xr_trigger = exceptionTrigger x phase\<rparr>\<rparr>) xs"

definition exceptionActs :: "acts_ctx \<Rightarrow> phase_act list" where
  "exceptionActs ctx = toExceptionActs (cx_phase ctx) (cx_exceptions ctx) (cx_artifacts ctx)"

section \<open>Absent, anchor, expected\<close>

definition hasAttributedUpload :: "acts_ctx \<Rightarrow> evidence_role \<Rightarrow> bool" where
  "hasAttributedUpload ctx role \<longleftrightarrow> list_ex (\<lambda>a. ea_evidence_role a = Some role) (cx_attributed ctx)"

definition unevidencedRoles :: "acts_ctx \<Rightarrow> evidence_role list" where
  "unevidencedRoles ctx = filter (\<lambda>role. role \<notin> set UNTRACKED_ROLES \<and> roleColumn (cx_phase ctx) role = None
     \<and> \<not> hasAttributedUpload ctx role) (EVIDENCE_ROLES (phase_kind (cx_phase ctx)))"

definition absentActs :: "acts_ctx \<Rightarrow> phase_act list" where
  "absentActs ctx = (if \<not> cx_resolved ctx \<or> phase_state (cx_phase ctx) = Ph_overridden then []
     else map (\<lambda>role. \<lparr>pa_key = row_key ctx ('':absent:'' @ role_text role), pa_body = Absent role\<rparr>) (unevidencedRoles ctx))"

definition anchorActs :: "acts_ctx \<Rightarrow> phase_act list" where
  "anchorActs ctx = (if \<not> cx_resolved ctx \<or> anchor_state (cx_phase ctx) = Not_required then []
     else [\<lparr>pa_key = row_key ctx '':anchor'', pa_body = Anchor (anchor_state (cx_phase ctx)) (cx_consensusAt ctx)\<rparr>])"

fun reason_text :: "expected_reason \<Rightarrow> string" where
  "reason_text Wait_evidence = ''evidence''"
| "reason_text Wait_driver_confirmation = ''driver_confirmation''"
| "reason_text Wait_warehouse_scan = ''warehouse_scan''"
| "reason_text En_route = ''en_route''"

definition expectedAct :: "acts_ctx \<Rightarrow> evidence_role option \<Rightarrow> expected_reason \<Rightarrow> phase_act" where
  "expectedAct ctx role reason = \<lparr>pa_key = row_key ctx ('':expected:'' @ (case role of Some r \<Rightarrow> role_text r | None \<Rightarrow> reason_text reason)),
     pa_body = Expected role reason\<rparr>"

definition WAREHOUSE_SCAN_BLOCK :: string where
  "WAREHOUSE_SCAN_BLOCK = ''warehouse_scan''"

definition expectedActs :: "acts_ctx \<Rightarrow> phase_act list" where
  "expectedActs ctx =
     (if \<not> cx_isActive ctx \<or> \<not> cx_running ctx \<or> cx_resolved ctx then []
      else if phase_kind (cx_phase ctx) = In_transit then [expectedAct ctx None En_route, expectedAct ctx None Wait_driver_confirmation]
      else map (\<lambda>role. expectedAct ctx (Some role) Wait_evidence) (unevidencedRoles ctx)
        @ [expectedAct ctx None (if blocked_on (cx_phase ctx) = Val WAREHOUSE_SCAN_BLOCK then Wait_warehouse_scan else Wait_driver_confirmation)])"

section \<open>Order\<close>

definition eventTime :: "js_locale \<Rightarrow> phase_act \<Rightarrow> number option" where
  "eventTime L act = (case pa_body act of
       Evidence r \<Rightarrow> toMillis L (er_takenAt r)
     | Milestone t _ \<Rightarrow> toMillis L (Some t)
     | Completion r \<Rightarrow> toMillis L (Some (case cr_confirmedAt r of Some t \<Rightarrow> t | None \<Rightarrow> cr_recordedAt r))
     | Exception r \<Rightarrow> toMillis L (Some (xr_at r))
     | Trip_event t _ \<Rightarrow> toMillis L (Some t)
     | _ \<Rightarrow> None)"

text \<open>\<open>compareByEventTime\<close>, as the key it sorts by: unknown times last, ties by the collated key.\<close>

definition event_key :: "js_locale \<Rightarrow> phase_act \<Rightarrow> nat \<times> number \<times> string" where
  "event_key L act = (case eventTime L act of
       Some t \<Rightarrow> (0, t, collate L (pa_key act)) | None \<Rightarrow> (1, 0, collate L (pa_key act)))"

fun is_completion :: "act_body \<Rightarrow> bool" where
  "is_completion (Completion _) = True"
| "is_completion _ = False"

fun is_attached :: "act_body \<Rightarrow> bool" where
  "is_attached (Exception r) = (xr_trigger r \<noteq> Event)"
| "is_attached _ = False"

definition insertBeforeCompletion :: "phase_act list \<Rightarrow> phase_act list \<Rightarrow> phase_act list" where
  "insertBeforeCompletion timed absent = (let before = (\<lambda>act. \<not> is_completion (pa_body act))
     in takeWhile before timed @ absent @ dropWhile before timed)"

definition buildPhaseActs :: "js_locale \<Rightarrow> acts_input \<Rightarrow> phase_act list" where
  "buildPhaseActs L input = (let ctx = buildContext input in
     if \<not> rowsAreVisible ctx then []
     else let allTimed = sort_key (event_key L) (evidenceActs L ctx @ milestoneActs ctx @ completionActs ctx @ exceptionActs ctx);
              attached = filter (\<lambda>act. is_attached (pa_body act)) allTimed;
              timed = concat (map (\<lambda>act. if is_completion (pa_body act) then act # attached else [act])
                (filter (\<lambda>act. \<not> is_attached (pa_body act)) allTimed))
          in insertBeforeCompletion timed (absentActs ctx) @ anchorActs ctx @ expectedActs ctx)"

definition buildExceptionActs :: "js_locale \<Rightarrow> phase_descriptor \<Rightarrow> trip_exception list \<Rightarrow> evidence_artifact list \<Rightarrow> phase_act list" where
  "buildExceptionActs L phase xs artifacts = sort_key (event_key L) (toExceptionActs phase xs artifacts)"

section \<open>Trip events\<close>

definition incidentEventTime :: "incident_summary \<Rightarrow> string" where
  "incidentEventTime i = (case is_reported_occurred_at i of Some t \<Rightarrow> t | None \<Rightarrow> is_received_at i)"

fun tripEventTime :: "trip_timeline_event \<Rightarrow> string" where
  "tripEventTime (Transfer_event t) = dt_effective_at t"
| "tripEventTime (Incident_event i) = incidentEventTime i"

fun tripEventKey :: "trip_timeline_event \<Rightarrow> string" where
  "tripEventKey (Transfer_event t) = ''transfer:'' @ dt_substitution_id t"
| "tripEventKey (Incident_event i) = ''incident:'' @ is_incident_id i"

fun is_tail :: "act_body \<Rightarrow> bool" where
  "is_tail (Absent _) = True"
| "is_tail (Anchor _ _) = True"
| "is_tail (Expected _ _) = True"
| "is_tail _ = False"

definition goes_before :: "js_locale \<Rightarrow> phase_act \<Rightarrow> phase_act \<Rightarrow> bool" where
  "goes_before L act other \<longleftrightarrow> is_tail (pa_body other) \<or> (\<not> is_attached (pa_body other)
     \<and> (case (eventTime L other, eventTime L act) of (Some t, Some t0) \<Rightarrow> t > t0 | _ \<Rightarrow> False))"

definition trip_event_act :: "trip_timeline_event \<Rightarrow> phase_act" where
  "trip_event_act event = \<lparr>pa_key = ''trip-event:'' @ tripEventKey event, pa_body = Trip_event (tripEventTime event) event\<rparr>"

definition withTripEventActs :: "js_locale \<Rightarrow> phase_act list \<Rightarrow> trip_timeline_event list \<Rightarrow> phase_act list" where
  "withTripEventActs L acts events = fold (\<lambda>event merged. let act = trip_event_act event; stays = (\<lambda>other. \<not> goes_before L act other)
     in takeWhile stays merged @ act # dropWhile stays merged) events acts"

datatype event_reason = Incidents nat | Driver_transferred | Driver_transfers nat

fun is_incident :: "trip_timeline_event \<Rightarrow> bool" where
  "is_incident (Incident_event _) = True"
| "is_incident _ = False"

definition tripEventReasons :: "trip_timeline_event list \<Rightarrow> event_reason list" where
  "tripEventReasons events = (let incidents = length (filter is_incident events); transfers = length events - incidents
     in (if incidents > 0 then [Incidents incidents] else [])
        @ (if transfers = 1 then [Driver_transferred] else if transfers > 1 then [Driver_transfers transfers] else []))"

end
