(* ===== verification/PhaseRail.thy ===== *)
theory PhaseRail
  imports PhaseActs
begin

text \<open>
  What the rail built in \<open>PhaseActs\<close> shows: all the evidence and all the exceptions of the phase once each,
  no file reported missing that is shown, and the events of the trip added without disturbing the rows.
\<close>

section \<open>The rail as a multiset of rows\<close>

fun is_evidence :: "act_body \<Rightarrow> bool" where
  "is_evidence (Evidence _) = True"
| "is_evidence _ = False"

fun is_exception :: "act_body \<Rightarrow> bool" where
  "is_exception (Exception _) = True"
| "is_exception _ = False"

fun evidence_id :: "act_body \<Rightarrow> string" where
  "evidence_id (Evidence r) = er_artifactId r"
| "evidence_id _ = []"

fun exception_id :: "act_body \<Rightarrow> string" where
  "exception_id (Exception r) = xr_exceptionId r"
| "exception_id _ = []"

definition evidence_ids :: "phase_act list \<Rightarrow> string list" where
  "evidence_ids acts = map (\<lambda>a. evidence_id (pa_body a)) (filter (\<lambda>a. is_evidence (pa_body a)) acts)"

definition exception_ids :: "phase_act list \<Rightarrow> string list" where
  "exception_ids acts = map (\<lambda>a. exception_id (pa_body a)) (filter (\<lambda>a. is_exception (pa_body a)) acts)"

lemma ids_append [simp]:
  "evidence_ids (xs @ ys) = evidence_ids xs @ evidence_ids ys" "exception_ids (xs @ ys) = exception_ids xs @ exception_ids ys"
  by (simp_all add: evidence_ids_def exception_ids_def)

lemma ids_mset: "mset xs = mset ys \<Longrightarrow> mset (evidence_ids xs) = mset (evidence_ids ys)"
    "mset xs = mset ys \<Longrightarrow> mset (exception_ids xs) = mset (exception_ids ys)"
  by (simp_all add: evidence_ids_def exception_ids_def)

lemma mset_attach: "mset (concat (map (\<lambda>a. if c a then a # xs else [a]) ys)) = mset ys + repeat_mset (length (filter c ys)) (mset xs)"
  by (induction ys) auto

lemma insert_mset: "mset (insertBeforeCompletion timed absent) = mset timed + mset absent"
proof -
  have "mset timed = mset (takeWhile P timed) + mset (dropWhile P timed)" for P
    by (metis mset_append takeWhile_dropWhile_id)
  then show ?thesis by (simp add: insertBeforeCompletion_def Let_def)
qed

text \<open>A confirmation finding exists only on a phase that was completed.\<close>

lemma attached_has_completion:
  "a \<in> set (exceptionActs ctx) \<Longrightarrow> is_attached (pa_body a) \<Longrightarrow> length (completionActs ctx) = 1"
  by (auto simp: exceptionActs_def toExceptionActs_def exceptionTrigger_def present_def completionActs_def Let_def split: if_splits)

lemma row_kinds:
  "a \<in> set (evidenceActs L ctx) \<Longrightarrow> is_evidence (pa_body a)"
  "a \<in> set (milestoneActs ctx) \<Longrightarrow> \<exists>t s. pa_body a = Milestone t s"
  "a \<in> set (completionActs ctx) \<Longrightarrow> is_completion (pa_body a)"
  "a \<in> set (exceptionActs ctx) \<Longrightarrow> is_exception (pa_body a)"
  "a \<in> set (absentActs ctx) \<Longrightarrow> \<exists>r. pa_body a = Absent r"
  "a \<in> set (anchorActs ctx) \<Longrightarrow> \<exists>st t. pa_body a = Anchor st t"
  "a \<in> set (expectedActs ctx) \<Longrightarrow> \<exists>r w. pa_body a = Expected r w"
  by (auto simp: evidenceActs_def map_filter_def evidenceActFor_def milestoneActs_def completionActs_def exceptionActs_def
      toExceptionActs_def absentActs_def anchorActs_def expectedActs_def expectedAct_def Let_def split: option.splits if_splits)

definition timed_rows :: "js_locale \<Rightarrow> acts_ctx \<Rightarrow> phase_act list" where
  "timed_rows L ctx = evidenceActs L ctx @ milestoneActs ctx @ completionActs ctx @ exceptionActs ctx"

lemma is_evidence_plain: "is_evidence b \<Longrightarrow> \<not> is_completion b \<and> \<not> is_attached b \<and> \<not> is_exception b"
  by (cases b) auto

lemma is_exception_plain: "is_exception b \<Longrightarrow> \<not> is_completion b \<and> \<not> is_evidence b"
  by (cases b) auto

lemma is_completion_plain: "is_completion b \<Longrightarrow> \<not> is_attached b \<and> \<not> is_exception b \<and> \<not> is_evidence b"
  by (cases b) auto

lemmas plain = is_evidence_plain is_exception_plain is_completion_plain

lemma no_completion:
  "filter (\<lambda>a. is_completion (pa_body a)) (evidenceActs L ctx) = []"
  "filter (\<lambda>a. is_completion (pa_body a)) (milestoneActs ctx) = []"
  "filter (\<lambda>a. is_completion (pa_body a)) (exceptionActs ctx) = []"
  by (auto simp: filter_empty_conv dest!: row_kinds(1) row_kinds(2) row_kinds(4) dest: plain)

lemma completions: "filter (\<lambda>a. is_completion (pa_body a)) (timed_rows L ctx) = completionActs ctx"
proof -
  have "filter (\<lambda>a. is_completion (pa_body a)) (completionActs ctx) = completionActs ctx"
    by (simp add: filter_id_conv row_kinds(3))
  then show ?thesis by (simp add: timed_rows_def no_completion)
qed

lemma attached_rows:
  assumes "a \<in> set (timed_rows L ctx)" and "is_attached (pa_body a)"
  shows "a \<in> set (exceptionActs ctx)"
proof -
  consider "a \<in> set (evidenceActs L ctx)" | "a \<in> set (milestoneActs ctx)" | "a \<in> set (completionActs ctx)" | "a \<in> set (exceptionActs ctx)"
    using assms(1) by (auto simp: timed_rows_def)
  then show ?thesis
  proof cases
    case 1 then show ?thesis using row_kinds(1) is_evidence_plain assms(2) by blast
  next
    case 2 then show ?thesis using row_kinds(2) assms(2) by fastforce
  next
    case 3 then show ?thesis using row_kinds(3) is_completion_plain assms(2) by blast
  qed
qed

lemma rail_rows:
  assumes "rowsAreVisible (buildContext input)"
  defines "ctx \<equiv> buildContext input"
  shows "mset (buildPhaseActs L input) = mset (timed_rows L ctx) + mset (absentActs ctx) + mset (anchorActs ctx) + mset (expectedActs ctx)"
proof -
  define allTimed where "allTimed = sort_key (event_key L) (timed_rows L ctx)"
  define attached where "attached = filter (\<lambda>act. is_attached (pa_body act)) allTimed"
  let ?rest = "filter (\<lambda>act. \<not> is_attached (pa_body act)) allTimed"
  let ?c = "\<lambda>act. is_completion (pa_body act)"
  have n: "length (filter ?c ?rest) = length (completionActs ctx)"
  proof -
    have "(\<not> is_attached b \<and> is_completion b) = is_completion b" for b by (cases b) simp_all
    then have "filter ?c ?rest = filter ?c allTimed" by (simp only: filter_filter)
    also have "\<dots> = sort_key (event_key L) (completionActs ctx)" by (simp add: allTimed_def filter_sort completions)
    finally show ?thesis by simp
  qed
  have one: "length (completionActs ctx) = 1" if "attached \<noteq> []"
  proof -
    have "hd attached \<in> set attached" using that by (rule hd_in_set)
    then have "hd attached \<in> set (timed_rows L ctx)" and att: "is_attached (pa_body (hd attached))"
      by (simp_all add: attached_def allTimed_def)
    then have "hd attached \<in> set (exceptionActs ctx)" by (rule attached_rows)
    then show ?thesis using att by (rule attached_has_completion)
  qed
  have "mset (concat (map (\<lambda>act. if ?c act then act # attached else [act]) ?rest)) = mset ?rest + repeat_mset (length (completionActs ctx)) (mset attached)"
    by (simp only: mset_attach n)
  also have "\<dots> = mset ?rest + mset attached" using one by (cases "attached = []") simp_all
  also have "\<dots> = mset allTimed" unfolding attached_def by (simp add: add.commute)
  also have "\<dots> = mset (timed_rows L ctx)" by (simp add: allTimed_def)
  finally have timed: "mset (concat (map (\<lambda>act. if ?c act then act # attached else [act]) ?rest)) = mset (timed_rows L ctx)" .
  have "buildPhaseActs L input = insertBeforeCompletion (concat (map (\<lambda>act. if ?c act then act # attached else [act]) ?rest)) (absentActs ctx)
      @ anchorActs ctx @ expectedActs ctx"
    unfolding buildPhaseActs_def Let_def attached_def allTimed_def timed_rows_def ctx_def using assms(1) by simp
  then show ?thesis by (simp add: insert_mset timed add.assoc)
qed

section \<open>What the rail shows\<close>

lemma first_of_each_set [simp]: "set (first_of_each xs) = set xs"
  by (simp add: first_of_each_def)

lemma first_of_each_distinct [simp]: "distinct (first_of_each xs)"
  by (simp add: first_of_each_def)

lemma set_ALL_ROLES: "r \<in> set ALL_ROLES"
  by (cases r) (simp_all add: ALL_ROLES_def)

definition shown_ids :: "acts_ctx \<Rightarrow> string set" where
  "shown_ids ctx = set (map ea_id (cx_attributed ctx)) \<union> set (map fst (cx_cited ctx))"

lemma evidence_ids_map_filter:
  "evidence_ids (List.map_filter (evidenceActFor L ctx) is) = filter (\<lambda>i. evidenceActFor L ctx i \<noteq> None) is"
  by (induction "is") (auto simp: evidence_ids_def List.map_filter_simps evidenceActFor_def Let_def split: option.splits)

lemma by_id_distinct:
  assumes "distinct (map key xs)" and "x \<in> set xs"
  shows "by_id key xs (key x) = Some x"
proof -
  have "distinct (map fst (rev (map (\<lambda>x. (key x, x)) xs)))" using assms(1) by (simp add: comp_def flip: rev_map)
  moreover have "(key x, x) \<in> set (rev (map (\<lambda>x. (key x, x)) xs))" using assms(2) by auto
  ultimately show ?thesis unfolding by_id_def by (rule map_of_is_SomeI)
qed

text \<open>Every id that is attributed or cited has a role, so it has a row.\<close>

lemma evidence_has_row:
  assumes "distinct (map ea_id (cx_artifacts ctx))"
    and "\<And>a. a \<in> set (cx_attributed ctx) \<Longrightarrow> a \<in> set (cx_artifacts ctx) \<and> ea_evidence_role a \<noteq> None"
    and "i \<in> shown_ids ctx"
  shows "evidenceActFor L ctx i \<noteq> None"
proof (cases "map_of (cx_cited ctx) i")
  case None
  then have "i \<notin> fst ` set (cx_cited ctx)" by (simp add: map_of_eq_None_iff)
  then obtain a where a: "a \<in> set (cx_attributed ctx)" "i = ea_id a" using assms(3) by (auto simp: shown_ids_def)
  then have "by_id ea_id (cx_artifacts ctx) i = Some a" using by_id_distinct [OF assms(1)] assms(2) [OF a(1)] a(2) by simp
  then show ?thesis using None assms(2) [OF a(1)] by (auto simp: evidenceActFor_def Let_def)
qed (simp add: evidenceActFor_def Let_def)

lemma evidence_ids_of_rows:
  assumes "distinct (map ea_id (cx_artifacts ctx))"
    and "\<And>a. a \<in> set (cx_attributed ctx) \<Longrightarrow> a \<in> set (cx_artifacts ctx) \<and> ea_evidence_role a \<noteq> None"
  shows "distinct (evidence_ids (evidenceActs L ctx))" "set (evidence_ids (evidenceActs L ctx)) = shown_ids ctx"
  using evidence_has_row [OF assms] by (auto simp: evidenceActs_def evidence_ids_map_filter shown_ids_def)

lemma other_ids:
  "evidence_ids (milestoneActs ctx) = []" "evidence_ids (completionActs ctx) = []" "evidence_ids (exceptionActs ctx) = []"
  "evidence_ids (absentActs ctx) = []" "evidence_ids (anchorActs ctx) = []" "evidence_ids (expectedActs ctx) = []"
  "exception_ids (evidenceActs L ctx) = []" "exception_ids (milestoneActs ctx) = []" "exception_ids (completionActs ctx) = []"
  "exception_ids (absentActs ctx) = []" "exception_ids (anchorActs ctx) = []" "exception_ids (expectedActs ctx) = []"
  by (auto simp: evidence_ids_def exception_ids_def filter_empty_conv dest!: row_kinds dest: plain)

lemma exception_ids_of_rows: "exception_ids (exceptionActs ctx) = map te_id (cx_exceptions ctx)"
  by (simp add: exception_ids_def exceptionActs_def toExceptionActs_def comp_def)

lemma cite_keys:
  "distinct (map fst m) \<Longrightarrow> distinct (map fst (fold (cite phase) roles m))"
  "set (map fst (fold (cite phase) roles m)) = set (map fst m) \<union> {i. i \<noteq> [] \<and> (\<exists>r \<in> set roles. roleColumn phase r = Some i)}"
  by (induction roles arbitrary: m) (auto simp: cite_def dom_update distinct_update split: option.splits if_splits)

lemma set_update_pairs: "\<forall>(k, x) \<in> set m. P k x \<Longrightarrow> P k0 x0 \<Longrightarrow> \<forall>(k, x) \<in> set (AList.update k0 x0 m). P k x"
  by (induction m) (auto split: if_splits)

lemma keep_exception_keys:
  assumes "distinct (map fst m)" and "\<forall>(k, x) \<in> set m. te_id x = k"
  shows "distinct (map fst (fold (keep_exception i) xs m)) \<and> (\<forall>(k, x) \<in> set (fold (keep_exception i) xs m). te_id x = k)
      \<and> fst ` set (fold (keep_exception i) xs m) = fst ` set m \<union> {te_id x |x. x \<in> set xs \<and> te_phase_event_id x = Some i}"
  using assms
proof (induction xs arbitrary: m)
  case (Cons x xs)
  have "\<forall>(k, y) \<in> set (keep_exception i x m). te_id y = k"
    unfolding keep_exception_def using set_update_pairs [OF Cons.prems(2)] Cons.prems(2) by simp
  moreover have "distinct (map fst (keep_exception i x m))"
    using Cons.prems(1) by (simp add: keep_exception_def distinct_update)
  ultimately show ?case using Cons.IH [of "keep_exception i x m"]
    by (auto simp: keep_exception_def dom_update split: if_splits)
qed simp

lemma phase_exceptions_ids:
  "distinct (map te_id (phase_exceptions i xs))"
  "set (map te_id (phase_exceptions i xs)) = {te_id x |x. x \<in> set xs \<and> te_phase_event_id x = Some i}"
proof -
  let ?m = "fold (keep_exception i) xs []"
  have m: "distinct (map fst ?m)" "\<forall>(k, x) \<in> set ?m. te_id x = k" "fst ` set ?m = {te_id x |x. x \<in> set xs \<and> te_phase_event_id x = Some i}"
    using keep_exception_keys [of "[]" i xs] by simp_all
  have "map te_id (phase_exceptions i xs) = map fst ?m" using m(2) by (auto simp: phase_exceptions_def)
  then show "distinct (map te_id (phase_exceptions i xs))"
    "set (map te_id (phase_exceptions i xs)) = {te_id x |x. x \<in> set xs \<and> te_phase_event_id x = Some i}" using m(1,3) by simp_all
qed

lemma context_of_input:
  "cx_artifacts (buildContext input) = ai_artifacts input"
  "cx_attributed (buildContext input) = filter (\<lambda>a. ea_phase_event_id a = Some (phase_event_id (ai_phase input)) \<and> ea_evidence_role a \<noteq> None) (ai_artifacts input)"
  "cx_cited (buildContext input) = fold (cite (ai_phase input)) ALL_ROLES []"
  "cx_exceptions (buildContext input) = phase_exceptions (phase_event_id (ai_phase input)) (ai_exceptions input)"
  "cx_phase (buildContext input) = ai_phase input" "cx_resolved (buildContext input) = is_resolved (ai_phase input)"
  by (simp_all add: buildContext_def Let_def)

lemma shown_ids_of_input:
  "shown_ids (buildContext input) =
    {ea_id a |a. a \<in> set (ai_artifacts input) \<and> ea_phase_event_id a = Some (phase_event_id (ai_phase input)) \<and> ea_evidence_role a \<noteq> None}
      \<union> {i. i \<noteq> [] \<and> (\<exists>r. roleColumn (ai_phase input) r = Some i)}"
proof -
  have "set (map fst (fold (cite (ai_phase input)) ALL_ROLES [])) = {i. i \<noteq> [] \<and> (\<exists>r. roleColumn (ai_phase input) r = Some i)}"
    unfolding cite_keys(2) using set_ALL_ROLES by auto
  then show ?thesis unfolding shown_ids_def context_of_input by auto
qed

lemma cited_column: "(i, r) \<in> set (fold (cite phase) roles []) \<Longrightarrow> roleColumn phase r = Some i"
proof -
  have "\<forall>(i, r) \<in> set m. roleColumn phase r = Some i \<Longrightarrow> \<forall>(i, r) \<in> set (fold (cite phase) roles m). roleColumn phase r = Some i" for m
  proof (induction roles arbitrary: m)
    case (Cons role roles)
    have "\<forall>(i, r) \<in> set (cite phase role m). roleColumn phase r = Some i"
      unfolding cite_def using set_update_pairs [OF Cons.prems] Cons.prems by (auto split: option.splits)
    then show ?case using Cons.IH by simp
  qed simp
  from this [of "[]"] show "(i, r) \<in> set (fold (cite phase) roles []) \<Longrightarrow> roleColumn phase r = Some i" by auto
qed

text \<open>
  The rail of a phase leaves nothing out and shows nothing twice. On a phase whose rows are
  visible, every file that is attributed to the phase or cited by one of its columns has exactly one row, no other
  file has one, and every exception raised on the phase has exactly one row, wherever the sorting, the findings
  that are kept with the confirmation, and the missing-evidence rows are put.
\<close>

theorem rail_shows_everything_once:
  assumes "rowsAreVisible (buildContext input)" and "distinct (map ea_id (ai_artifacts input))"
  shows "distinct (evidence_ids (buildPhaseActs L input))
    \<and> set (evidence_ids (buildPhaseActs L input))
      = {ea_id a |a. a \<in> set (ai_artifacts input) \<and> ea_phase_event_id a = Some (phase_event_id (ai_phase input)) \<and> ea_evidence_role a \<noteq> None}
        \<union> {i. i \<noteq> [] \<and> (\<exists>r. roleColumn (ai_phase input) r = Some i)}
    \<and> distinct (exception_ids (buildPhaseActs L input))
    \<and> set (exception_ids (buildPhaseActs L input))
      = {te_id x |x. x \<in> set (ai_exceptions input) \<and> te_phase_event_id x = Some (phase_event_id (ai_phase input))}"
proof -
  let ?ctx = "buildContext input" and ?rail = "buildPhaseActs L input"
  have r: "mset ?rail = mset (timed_rows L ?ctx @ absentActs ?ctx @ anchorActs ?ctx @ expectedActs ?ctx)"
    by (simp add: rail_rows [OF assms(1)] add.assoc)
  have rows: "mset (evidence_ids ?rail) = mset (evidence_ids (evidenceActs L ?ctx))" "mset (exception_ids ?rail) = mset (exception_ids (exceptionActs ?ctx))"
    using ids_mset [OF r] by (simp_all add: timed_rows_def other_ids)
  have ev: "distinct (evidence_ids (evidenceActs L ?ctx))" "set (evidence_ids (evidenceActs L ?ctx)) = shown_ids ?ctx"
    using evidence_ids_of_rows [of ?ctx L] assms(2) by (simp_all add: context_of_input)
  have "set (evidence_ids ?rail) = shown_ids ?ctx" using mset_eq_setD [OF rows(1)] ev(2) by simp
  then show ?thesis
    using mset_eq_imp_distinct_iff [OF rows(1)] mset_eq_imp_distinct_iff [OF rows(2)] mset_eq_setD [OF rows(2)] ev(1)
    by (simp add: shown_ids_of_input exception_ids_of_rows context_of_input phase_exceptions_ids del: set_map)
qed

lemma in_map_filter: "y \<in> set (List.map_filter f xs) \<longleftrightarrow> (\<exists>x \<in> set xs. f x = Some y)"
  by (induction xs) (auto simp: List.map_filter_simps split: option.split)

lemma evidence_row_role:
  assumes "distinct (map ea_id (ai_artifacts input))" and "other \<in> set (evidenceActs L (buildContext input))" and "pa_body other = Evidence r"
  shows "roleColumn (ai_phase input) (er_role r) \<noteq> None \<or> hasAttributedUpload (buildContext input) (er_role r)"
proof -
  let ?ctx = "buildContext input"
  obtain i where i: "i \<in> shown_ids ?ctx" "evidenceActFor L ?ctx i = Some other"
    using assms(2) unfolding evidenceActs_def in_map_filter shown_ids_def first_of_each_set set_append by blast
  show ?thesis
  proof (cases "map_of (cx_cited ?ctx) i")
    case (Some role)
    then have "er_role r = role" using i(2) assms(3) by (auto simp: evidenceActFor_def Let_def)
    moreover have "roleColumn (ai_phase input) role = Some i"
      using Some map_of_SomeD cited_column unfolding context_of_input by metis
    ultimately show ?thesis by simp
  next
    case None
    then have "i \<notin> fst ` set (cx_cited ?ctx)" by (simp add: map_of_eq_None_iff)
    then obtain a where a: "a \<in> set (cx_attributed ?ctx)" "i = ea_id a" using i(1) by (auto simp: shown_ids_def)
    then have "by_id ea_id (cx_artifacts ?ctx) i = Some a"
      using by_id_distinct [OF assms(1), of a] by (simp add: context_of_input)
    then have "ea_evidence_role a = Some (er_role r)" using i(2) assms(3) None by (auto simp: evidenceActFor_def Let_def split: option.splits)
    then show ?thesis using a(1) by (auto simp: hasAttributedUpload_def list_ex_iff)
  qed
qed

lemma row_origin:
  assumes "act \<in> set (buildPhaseActs L input)"
  shows "pa_body act = Absent role \<Longrightarrow> act \<in> set (absentActs (buildContext input))"
    "pa_body act = Evidence r \<Longrightarrow> act \<in> set (evidenceActs L (buildContext input))"
proof -
  let ?ctx = "buildContext input"
  have v: "rowsAreVisible ?ctx" using assms by (auto simp: buildPhaseActs_def Let_def split: if_splits)
  have "act \<in> set (evidenceActs L ?ctx @ milestoneActs ?ctx @ completionActs ?ctx @ exceptionActs ?ctx
      @ absentActs ?ctx @ anchorActs ?ctx @ expectedActs ?ctx)"
    using assms arg_cong [where f = set_mset, OF rail_rows [OF v, of L]] by (simp add: timed_rows_def)
  then consider "act \<in> set (evidenceActs L ?ctx)" | "act \<in> set (milestoneActs ?ctx)" | "act \<in> set (completionActs ?ctx)"
    | "act \<in> set (exceptionActs ?ctx)" | "act \<in> set (absentActs ?ctx)" | "act \<in> set (anchorActs ?ctx)" | "act \<in> set (expectedActs ?ctx)"
    by auto
  note origin = this
  show "act \<in> set (absentActs ?ctx)" if "pa_body act = Absent role"
    using origin by cases (use that in \<open>auto dest: row_kinds\<close>)
  show "act \<in> set (evidenceActs L ?ctx)" if "pa_body act = Evidence r"
    using origin by cases (use that in \<open>auto dest: row_kinds\<close>)
qed

text \<open>
  The rail never reports a file missing that it shows: a missing-evidence row stands only on a phase
  that was closed other than by an override, names a role the phase collects, and no row of the same rail shows a file of that role.
\<close>

theorem missing_is_never_contradicted:
  assumes "distinct (map ea_id (ai_artifacts input))"
    and "act \<in> set (buildPhaseActs L input)" and "pa_body act = Absent role"
    and "other \<in> set (buildPhaseActs L input)" and "pa_body other = Evidence r"
  shows "is_resolved (ai_phase input) \<and> phase_state (ai_phase input) \<noteq> Ph_overridden
    \<and> role \<in> set (EVIDENCE_ROLES (phase_kind (ai_phase input))) \<and> er_role r \<noteq> role"
proof -
  let ?ctx = "buildContext input"
  have "act \<in> set (absentActs ?ctx)" using row_origin(1) assms(2,3) by blast
  then have absent: "cx_resolved ?ctx" "phase_state (ai_phase input) \<noteq> Ph_overridden" "role \<in> set (unevidencedRoles ?ctx)"
    using assms(3) by (auto simp: absentActs_def context_of_input split: if_splits)
  have "other \<in> set (evidenceActs L ?ctx)" using row_origin(2) assms(4,5) by blast
  then have "roleColumn (ai_phase input) (er_role r) \<noteq> None \<or> hasAttributedUpload ?ctx (er_role r)"
    using evidence_row_role [OF assms(1) _ assms(5)] by blast
  then show ?thesis using absent by (auto simp: unevidencedRoles_def context_of_input)
qed

text \<open>Examples share one trip: a confirmed loading with the cited photo, a retake that was not submitted, and one finding.\<close>

definition demo_locale :: js_locale where
  "demo_locale = \<lparr>parseDate = (\<lambda>s. if s = ''never'' then None else Some (real (length s))), collate = id\<rparr>"

definition demo_photo :: "string \<Rightarrow> evidence_artifact" where
  "demo_photo i = \<lparr>ea_id = i, ea_trip_id = ''T'', ea_file_hash = ''h'', ea_mime_type = ''image/jpeg'', ea_captured_at = ''t1'',
     ea_captured_by_driver_id = Some ''D'', ea_created_at = ''t2'', ea_phase_event_id = Some ''E'', ea_evidence_role = Some Linehaul_photo\<rparr>"

definition demo_finding :: trip_exception where
  "demo_finding = \<lparr>te_id = ''x1'', te_trip_id = ''T'', te_exception_type = Parcel_count_mismatch, te_source = By_system,
     te_severity = Critical, te_description = ''short'', te_phase_event_id = Some ''E'', te_checkpoint_id = None,
     te_supporting_artifact_id = None, te_review_status = Needs_review, te_created_at = ''t3'', te_updated_at = ''t3''\<rparr>"

definition demo_loading :: phase_descriptor where
  "demo_loading = (demo_phase Loading 2 Ph_exception)\<lparr>row_linehaul_photo_artifact_id := Val ''a1'', completed_at := Some ''t22''\<rparr>"

definition demo_acts :: acts_input where
  "demo_acts = \<lparr>ai_phase = demo_loading, ai_allPhases = [demo_loading], ai_isActive = False, ai_tripStatus = Trip_active,
     ai_tripClosedAt = None, ai_artifacts = [demo_photo ''a1'', demo_photo ''a2''], ai_exceptions = [demo_finding, demo_finding],
     ai_consensusAt = None\<rparr>"

lemmas demo_acts_simps = demo_acts_def demo_loading_def demo_finding_def demo_photo_def demo_phase_def demo_locale_def

lemma rail_shows_everything_once_witness:
  "set (evidence_ids (buildPhaseActs demo_locale demo_acts)) = {''a1'', ''a2''} \<and> length (exception_ids (buildPhaseActs demo_locale demo_acts)) = 1"
proof -
  have v: "rowsAreVisible (buildContext demo_acts)"
    by (simp add: rowsAreVisible_def buildContext_def Let_def demo_acts_def demo_loading_def is_resolved_iff)
      (simp add: demo_phase_def)
  have d: "distinct (map ea_id (ai_artifacts demo_acts))" by (simp add: demo_acts_simps)
  note all = rail_shows_everything_once [OF v d, of demo_locale]
  let ?x = "exception_ids (buildPhaseActs demo_locale demo_acts)"
  have xs: "{te_id x |x. x \<in> set (ai_exceptions demo_acts) \<and> te_phase_event_id x = Some (phase_event_id (ai_phase demo_acts))} = {''x1''}"
    by (auto simp: demo_acts_simps)
  have "set ?x = {''x1''}" "distinct ?x" using all unfolding xs by blast+
  then have one: "length ?x = 1" using distinct_card [of ?x] by simp
  have "roleColumn demo_loading r = Some i \<longleftrightarrow> r = Linehaul_photo \<and> i = ''a1''" for r i
    by (cases r) (auto simp: demo_acts_simps)
  then have cited: "{i. i \<noteq> [] \<and> (\<exists>r. roleColumn (ai_phase demo_acts) r = Some i)} = {''a1''}" by (auto simp: demo_acts_def)
  have "{ea_id a |a. a \<in> set (ai_artifacts demo_acts) \<and> P a} = set (map ea_id (filter P (ai_artifacts demo_acts)))" for P by auto
  then have attributed: "{ea_id a |a. a \<in> set (ai_artifacts demo_acts) \<and> ea_phase_event_id a = Some (phase_event_id (ai_phase demo_acts))
      \<and> ea_evidence_role a \<noteq> None} = {''a1'', ''a2''}" by (simp add: demo_acts_simps)
  have "set (evidence_ids (buildPhaseActs demo_locale demo_acts)) = {''a1'', ''a2''} \<union> {''a1''}"
    using all unfolding attributed cited by blast
  then show ?thesis using one by auto
qed

text \<open>A departure closed with a waybill photo and no seal photo.\<close>

definition demo_missing :: acts_input where
  "demo_missing = demo_acts\<lparr>ai_phase := demo_phase Departure 2 Ph_completed, ai_exceptions := [],
     ai_artifacts := [(demo_photo ''a1'')\<lparr>ea_evidence_role := Some Waybill_photo\<rparr>]\<rparr>"

lemma missing_is_never_contradicted_witness:
  "list_ex (\<lambda>a. pa_body a = Absent Seal_photo) (buildPhaseActs demo_locale demo_missing)
    \<and> list_all (\<lambda>a. case pa_body a of Evidence r \<Rightarrow> er_role r \<noteq> Seal_photo | _ \<Rightarrow> True) (buildPhaseActs demo_locale demo_missing)"
proof -
  let ?rail = "buildPhaseActs demo_locale demo_missing" and ?ctx = "buildContext demo_missing"
  let ?row = "\<lparr>pa_key = row_key ?ctx ('':absent:'' @ role_text Seal_photo), pa_body = Absent Seal_photo\<rparr>"
  have resolved: "is_resolved (ai_phase demo_missing)" "phase_state (ai_phase demo_missing) \<noteq> Ph_overridden"
    by (simp_all add: is_resolved_iff demo_missing_def demo_phase_def)
  have v: "rowsAreVisible ?ctx" using resolved by (simp add: rowsAreVisible_def context_of_input)
  have "Seal_photo \<in> set (unevidencedRoles ?ctx)"
    by (simp add: unevidencedRoles_def hasAttributedUpload_def context_of_input)
      (simp add: demo_missing_def demo_acts_simps UNTRACKED_ROLES_def)
  then have "?row \<in> set (absentActs ?ctx)"
    using resolved unfolding absentActs_def by (simp add: context_of_input image_iff)
  then have row: "?row \<in> set ?rail" using arg_cong [where f = set_mset, OF rail_rows [OF v, of demo_locale]] by simp
  have d: "distinct (map ea_id (ai_artifacts demo_missing))" by (simp add: demo_missing_def)
  have "er_role r \<noteq> Seal_photo" if "other \<in> set ?rail" "pa_body other = Evidence r" for other r
    using missing_is_never_contradicted [OF d row _ that, of Seal_photo] by simp
  then show ?thesis using row by (force simp: list_ex_iff list_all_iff split: act_body.split)
qed

section \<open>Events of the trip within the rail\<close>

fun is_trip_event :: "act_body \<Rightarrow> bool" where
  "is_trip_event (Trip_event _ _) = True"
| "is_trip_event _ = False"

text \<open>No event stands directly before a finding that belongs with the confirmation.\<close>

fun kept_together :: "phase_act list \<Rightarrow> bool" where
  "kept_together (a # b # rest) \<longleftrightarrow> \<not> (is_trip_event (pa_body a) \<and> is_attached (pa_body b)) \<and> kept_together (b # rest)"
| "kept_together _ \<longleftrightarrow> True"

lemma trip_event_act_plain [simp]: "is_trip_event (pa_body (trip_event_act e))" "\<not> is_attached (pa_body (trip_event_act e))"
  by (simp_all add: trip_event_act_def)

definition place_event :: "js_locale \<Rightarrow> trip_timeline_event \<Rightarrow> phase_act list \<Rightarrow> phase_act list" where
  "place_event L e merged = (let act = trip_event_act e; stays = (\<lambda>other. \<not> goes_before L act other)
     in takeWhile stays merged @ act # dropWhile stays merged)"

lemma withTripEventActs_eq: "withTripEventActs L acts events = fold (place_event L) events acts"
  unfolding withTripEventActs_def place_event_def ..

lemma place_event_Nil: "place_event L e [] = [trip_event_act e]"
  by (simp add: place_event_def)

lemma place_event_Cons: "place_event L e (a # rest) =
    (if goes_before L (trip_event_act e) a then trip_event_act e # a # rest else a # place_event L e rest)"
  by (simp add: place_event_def Let_def)

lemma place_event_others: "filter (\<lambda>a. \<not> is_trip_event (pa_body a)) (place_event L e acts) = filter (\<lambda>a. \<not> is_trip_event (pa_body a)) acts"
  by (induction acts) (simp_all add: place_event_Nil place_event_Cons)

lemma place_event_mset: "mset (filter (\<lambda>a. is_trip_event (pa_body a)) (place_event L e acts))
    = add_mset (trip_event_act e) (mset (filter (\<lambda>a. is_trip_event (pa_body a)) acts))"
  by (induction acts) (simp_all add: place_event_Nil place_event_Cons)

lemma goes_before_not_attached: "goes_before L act other \<Longrightarrow> \<not> is_attached (pa_body other)"
  by (cases "pa_body other") (auto simp: goes_before_def)

lemma place_event_kept: "kept_together acts \<Longrightarrow> kept_together (place_event L e acts)"
proof (induction acts rule: kept_together.induct)
  case (1 a b rest)
  then show ?case using goes_before_not_attached [of L "trip_event_act e"] by (auto simp: place_event_Cons)
qed (auto simp: place_event_Cons place_event_Nil dest: goes_before_not_attached)

lemma kept_without_events: "\<forall>a \<in> set acts. \<not> is_trip_event (pa_body a) \<Longrightarrow> kept_together acts"
  by (induction acts rule: kept_together.induct) auto

text \<open>
  An incident or a change of driver is added to the rail of a leg and changes nothing else: the rows of
  the phase stay, in their order; each event has one row; and no event is put between the confirmation and the
  findings recorded with it.
\<close>

theorem events_are_only_added:
  assumes "\<forall>a \<in> set acts. \<not> is_trip_event (pa_body a)"
  shows "filter (\<lambda>a. \<not> is_trip_event (pa_body a)) (withTripEventActs L acts events) = acts
    \<and> mset (filter (\<lambda>a. is_trip_event (pa_body a)) (withTripEventActs L acts events)) = mset (map trip_event_act events)
    \<and> kept_together (withTripEventActs L acts events)"
proof -
  have "filter (\<lambda>a. \<not> is_trip_event (pa_body a)) (fold (place_event L) events m) = filter (\<lambda>a. \<not> is_trip_event (pa_body a)) m" for m
    by (induction events arbitrary: m) (simp_all add: place_event_others)
  moreover have "mset (filter (\<lambda>a. is_trip_event (pa_body a)) (fold (place_event L) events m))
      = mset (map trip_event_act events) + mset (filter (\<lambda>a. is_trip_event (pa_body a)) m)" for m
    by (induction events arbitrary: m) (simp_all add: place_event_mset del: mset_filter)
  moreover have "kept_together m \<Longrightarrow> kept_together (fold (place_event L) events m)" for m
    by (induction events arbitrary: m) (simp_all add: place_event_kept)
  ultimately show ?thesis using assms kept_without_events [OF assms]
    by (simp add: withTripEventActs_eq filter_id_conv filter_empty_conv del: mset_filter)
qed

lemma events_are_only_added_witness:
  "let acts = [\<lparr>pa_key = ''c'', pa_body = Anchor Anchored None\<rparr>]; e = Incident_event \<lparr>is_incident_id = ''i'', is_reported_occurred_at = None, is_received_at = ''t1''\<rparr>
   in mset (filter (\<lambda>a. is_trip_event (pa_body a)) (withTripEventActs demo_locale acts [e])) = {#trip_event_act e#}"
proof -
  let ?acts = "[\<lparr>pa_key = ''c'', pa_body = Anchor Anchored None\<rparr>]"
  let ?e = "Incident_event \<lparr>is_incident_id = ''i'', is_reported_occurred_at = None, is_received_at = ''t1''\<rparr>"
  have "\<forall>a \<in> set ?acts. \<not> is_trip_event (pa_body a)" by simp
  from events_are_only_added [OF this, of demo_locale "[?e]"] show ?thesis unfolding Let_def by simp
qed

end
