(* ===== verification/PhaseVerdict.thy ===== *)
theory PhaseVerdict
  imports PhaseChecks PhaseRail
begin

text \<open>
  \<open>dispatcher/lib/phase/verdict.ts\<close>: the one outcome in the header of a phase card. A reason of the code is a text;
  here it is a constructor with the values the text prints (\<open>VERDICT_WORDING\<close>), so that what a reason claims can be stated.
\<close>

section \<open>Words\<close>

datatype phase_outcome = Out_overridden | Out_attention | Out_reviewed | Out_unverified | Out_clean | Out_in_progress | Out_current

datatype headline =
  H_closed_by_override | H_needs_attention
| H_exception_reviewed | H_exceptions_reviewed | H_exception_recorded | H_exceptions_recorded
| H_not_fully_verified | H_no_exceptions_recorded | H_checks_passed | H_in_progress | H_current_phase

datatype road_time = Road_minutes int | Road_hours int int

datatype verdict_reason =
  R_checks_did_not_run
| R_to_review nat
| R_check check_title
| R_en_route nat nat
| R_at_arrival nat
| R_departed string
| R_on_the_road road_time
| R_exception exception_type exception_severity
| R_exceptions nat
| R_checked nat
| R_no_checks
| R_exception_not_loaded
| R_warehouse_scan
| R_waiting_to_confirm string
| R_uploaded nat
| R_waiting_for_driver
| R_event event_reason

fun headline_text :: "headline \<Rightarrow> string" where
  "headline_text H_closed_by_override = ''Closed by dispatcher override''"
| "headline_text H_needs_attention = ''Needs attention''"
| "headline_text H_exception_reviewed = ''Exception reviewed''"
| "headline_text H_exceptions_reviewed = ''Exceptions reviewed''"
| "headline_text H_exception_recorded = ''Exception recorded''"
| "headline_text H_exceptions_recorded = ''Exceptions recorded''"
| "headline_text H_not_fully_verified = ''Not fully verified''"
| "headline_text H_no_exceptions_recorded = ''No exceptions recorded''"
| "headline_text H_checks_passed = ''Checks passed''"
| "headline_text H_in_progress = ''In progress''"
| "headline_text H_current_phase = ''Current phase''"

fun CONFIRM_VERBS :: "phase_type \<Rightarrow> string" where
  "CONFIRM_VERBS Trip_creation = ''creation''"
| "CONFIRM_VERBS Activation = ''arrival''"
| "CONFIRM_VERBS Loading = ''loading''"
| "CONFIRM_VERBS Departure = ''departure''"
| "CONFIRM_VERBS In_transit = ''arrival''"
| "CONFIRM_VERBS Arrival = ''arrival''"
| "CONFIRM_VERBS Unloading = ''unloading''"
| "CONFIRM_VERBS Confirmation = ''delivery''"

record verdict_body =
  vb_outcome :: phase_outcome
  vb_headline :: headline
  vb_reasons :: "verdict_reason list"
  vb_reviewed :: "bool option"

record phase_verdict = verdict_body +
  pv_nodeType :: phase_node_type

record leg_times =
  lt_departedAt :: "string option"
  lt_arrivedAt :: "string option"

record verdict_input =
  vi_phase :: phase_descriptor
  vi_checks :: "phase_check list"
  vi_exceptions :: "trip_exception list"
  vi_uploads :: nat
  vi_isActive :: bool
  vi_tripStatus :: coarse_trip_status
  vi_leg :: "leg_times option"
  vi_nowMs :: number

definition verdict_of :: "phase_outcome \<Rightarrow> headline \<Rightarrow> verdict_reason list \<Rightarrow> verdict_body" where
  "verdict_of outcome headline reasons = \<lparr>vb_outcome = outcome, vb_headline = headline, vb_reasons = reasons, vb_reviewed = None\<rparr>"

lemma verdict_of_simps [simp]:
  "vb_outcome (verdict_of o1 h rs) = o1" "vb_headline (verdict_of o1 h rs) = h" "vb_reasons (verdict_of o1 h rs) = rs"
  "vb_reviewed (verdict_of o1 h rs) = None"
  by (simp_all add: verdict_of_def)

section \<open>Time on the road\<close>

definition parseMs :: "js_locale \<Rightarrow> string option \<Rightarrow> number option" where
  "parseMs L instant = (case instant of None \<Rightarrow> None | Some s \<Rightarrow> parseDate L s)"

definition MS_PER_MINUTE :: number where "MS_PER_MINUTE = 60000"
definition MINUTES_PER_HOUR :: int where "MINUTES_PER_HOUR = 60"

definition formatRoadTime :: "number \<Rightarrow> road_time" where
  "formatRoadTime elapsedMs = (let minutes = \<lfloor>elapsedMs / MS_PER_MINUTE\<rfloor> in
     if minutes < MINUTES_PER_HOUR then Road_minutes minutes
     else Road_hours (minutes div MINUTES_PER_HOUR) (minutes mod MINUTES_PER_HOUR))"

definition legReasons :: "js_locale \<Rightarrow> verdict_input \<Rightarrow> bool \<Rightarrow> verdict_reason list" where
  "legReasons L input finished = (case vi_leg input of
       None \<Rightarrow> []
     | Some leg \<Rightarrow> (case parseMs L (lt_departedAt leg) of
         None \<Rightarrow> []
       | Some departedMs \<Rightarrow>
           let departed = R_departed (the (lt_departedAt leg)) in
           if finished \<and> lt_arrivedAt leg = None then [departed]
           else (case (if lt_arrivedAt leg = None then Some (vi_nowMs input) else parseMs L (lt_arrivedAt leg)) of
               Some endMs \<Rightarrow> if endMs \<ge> departedMs then [departed, R_on_the_road (formatRoadTime (endMs - departedMs))] else [departed]
             | None \<Rightarrow> [departed])))"

section \<open>Outcome bodies\<close>

definition needsReview :: "trip_exception list \<Rightarrow> trip_exception list" where
  "needsReview exceptions = filter (\<lambda>x. te_review_status x = Needs_review) exceptions"

definition transitExceptionReasons :: "verdict_input \<Rightarrow> verdict_reason list" where
  "transitExceptionReasons input = (let events = filter (\<lambda>x. exceptionTrigger x (vi_phase input) = Event) (vi_exceptions input);
       atArrival = length (filter (\<lambda>x. exceptionTrigger x (vi_phase input) = Handshake) (vi_exceptions input))
     in (if length events > 0 then [R_en_route (length events) (length (needsReview events))] else [])
        @ (if atArrival > 0 then [R_at_arrival atArrival] else []))"

definition overriddenBody :: "verdict_input \<Rightarrow> verdict_body option" where
  "overriddenBody input = (if phase_state (vi_phase input) \<noteq> Ph_overridden then None
     else let pending = length (needsReview (vi_exceptions input)) in
       Some (verdict_of Out_overridden H_closed_by_override
         (if pending > 0 then [R_checks_did_not_run, R_to_review pending] else [R_checks_did_not_run])))"

definition attentionBody :: "js_locale \<Rightarrow> verdict_input \<Rightarrow> verdict_body option" where
  "attentionBody L input = (let pending = length (needsReview (vi_exceptions input));
       flagged = filter (\<lambda>c. ck_result c = Flag) (vi_checks input);
       inTransit = (phase_kind (vi_phase input) = In_transit);
       exceptionReason = (if pending = 0 then [] else if inTransit then transitExceptionReasons input else [R_to_review pending])
     in if pending = 0 \<and> length flagged = 0 then None
        else Some (verdict_of Out_attention H_needs_attention (exceptionReason @ map (\<lambda>c. R_check (ck_title c)) flagged
          @ (if inTransit then legReasons L input (is_resolved (vi_phase input)) else []))))"

definition reviewedBody :: "js_locale \<Rightarrow> verdict_input \<Rightarrow> verdict_body option" where
  "reviewedBody L input = (let exceptions = vi_exceptions input; phase = vi_phase input;
       single = (length exceptions = 1);
       allReviewed = list_all (\<lambda>x. te_review_status x = Reviewed) exceptions
     in if \<not> is_resolved phase \<or> length exceptions = 0 then None
        else Some \<lparr>vb_outcome = Out_reviewed,
          vb_headline = (if allReviewed then (if single then H_exception_reviewed else H_exceptions_reviewed)
            else (if single then H_exception_recorded else H_exceptions_recorded)),
          vb_reasons = (if phase_kind phase = In_transit then transitExceptionReasons input
              else [if single then R_exception (te_exception_type (hd exceptions)) (te_severity (hd exceptions)) else R_exceptions (length exceptions)])
            @ (if phase_kind phase = In_transit then legReasons L input True else []),
          vb_reviewed = Some allReviewed\<rparr>)"

definition settledBody :: "js_locale \<Rightarrow> verdict_input \<Rightarrow> verdict_body option" where
  "settledBody L input = (let phase = vi_phase input; checks = vi_checks input;
       passed = filter (\<lambda>c. ck_result c = Pass) checks;
       unrun = filter (\<lambda>c. ck_result c = Not_checked) checks;
       reasons = map (\<lambda>c. R_check (ck_title c)) (filter (\<lambda>c. ck_result c = Pass \<or> ck_result c = Not_checked) checks)
     in if \<not> is_resolved phase then None
        else if phase_state phase = Ph_exception then
          Some (verdict_of Out_unverified H_not_fully_verified
            (R_exception_not_loaded # (if phase_kind phase = In_transit then legReasons L input True else [])))
        else if phase_kind phase = In_transit then Some (verdict_of Out_unverified H_no_exceptions_recorded (legReasons L input True))
        else if length unrun = 0 \<and> length passed > 0 then Some (verdict_of Out_clean H_checks_passed [R_checked (length passed)])
        else Some (verdict_of Out_unverified H_not_fully_verified (if length reasons > 0 then reasons else [R_no_checks])))"

definition waitingReason :: "phase_descriptor \<Rightarrow> verdict_reason" where
  "waitingReason phase = (if blocked_on phase = Val WAREHOUSE_SCAN_BLOCK then R_warehouse_scan
     else R_waiting_to_confirm (CONFIRM_VERBS (phase_kind phase)))"

definition isNotStarted :: "verdict_input \<Rightarrow> bool" where
  "isNotStarted input \<longleftrightarrow> (let dormant = phase_kind (vi_phase input) = Activation \<and> vi_tripStatus input = Trip_created
     in \<not> vi_isActive input \<or> dormant)"

definition runningBody :: "js_locale \<Rightarrow> verdict_input \<Rightarrow> verdict_body option" where
  "runningBody L input = (let phase = vi_phase input in
     if is_resolved phase \<or> isNotStarted input then None
     else if phase_kind phase = In_transit then
       let leg = legReasons L input False in
       Some (verdict_of Out_in_progress H_in_progress (if length leg > 0 then leg else [waitingReason phase]))
     else if vi_uploads input > 0 then
       Some (verdict_of Out_in_progress H_in_progress [R_uploaded (vi_uploads input), waitingReason phase])
     else Some (verdict_of Out_current H_current_phase [R_waiting_for_driver]))"

section \<open>The verdict\<close>

definition nodeTypeOf :: "verdict_body \<Rightarrow> verdict_input \<Rightarrow> phase_node_type" where
  "nodeTypeOf body input = (if vb_outcome body = Out_attention then Node_warn
     else nodeTypeFor (vi_phase input) (if vi_isActive input then Some (phase_event_id (vi_phase input)) else None) (Some (vi_tripStatus input)))"

text \<open>\<open>a ?? b\<close>\<close>

definition or_else :: "'a option \<Rightarrow> 'a option \<Rightarrow> 'a option" where
  "or_else a b = (case a of None \<Rightarrow> b | Some x \<Rightarrow> Some x)"

lemma or_else_simps [simp]: "or_else None b = b" "or_else (Some x) b = Some x"
  by (simp_all add: or_else_def)

definition phaseVerdict :: "js_locale \<Rightarrow> verdict_input \<Rightarrow> phase_verdict option" where
  "phaseVerdict L input = (let phase = vi_phase input in
     if phase_kind phase = Trip_creation then None
     else if \<not> is_resolved phase \<and> vi_tripStatus input = Trip_cancelled then None
     else map_option (\<lambda>body. \<lparr>vb_outcome = vb_outcome body, vb_headline = vb_headline body, vb_reasons = vb_reasons body,
         vb_reviewed = vb_reviewed body, pv_nodeType = nodeTypeOf body input\<rparr>)
       (or_else (overriddenBody input) (or_else (attentionBody L input) (or_else (reviewedBody L input)
         (or_else (settledBody L input) (runningBody L input))))))"

section \<open>What a verdict establishes\<close>

lemmas body_defs = overriddenBody_def attentionBody_def reviewedBody_def settledBody_def runningBody_def Let_def

lemma phaseVerdict_cases:
  assumes "phaseVerdict L input = Some v"
  obtains (overridden) body where "overriddenBody input = Some body" "vb_outcome v = Out_overridden" "vb_reasons v = vb_reasons body"
  | (attention) body where "overriddenBody input = None" "attentionBody L input = Some body" "vb_outcome v = Out_attention" "pv_nodeType v = Node_warn"
  | (reviewed) body where "overriddenBody input = None" "attentionBody L input = None" "reviewedBody L input = Some body"
      "vb_outcome v = Out_reviewed" "vb_reviewed v = vb_reviewed body" "vb_headline v = vb_headline body"
  | (settled) body where "overriddenBody input = None" "attentionBody L input = None" "reviewedBody L input = None" "settledBody L input = Some body"
      "vb_outcome v = vb_outcome body" "vb_reviewed v = None" "vb_outcome v \<in> {Out_unverified, Out_clean}" "vb_reasons v = vb_reasons body" "vb_headline v = vb_headline body"
  | (running) body where "overriddenBody input = None" "attentionBody L input = None" "reviewedBody L input = None" "settledBody L input = None" "runningBody L input = Some body"
      "vb_outcome v \<in> {Out_in_progress, Out_current}" "vb_reviewed v = None"
proof -
  have chain: "or_else (overriddenBody input) (or_else (attentionBody L input) (or_else (reviewedBody L input)
      (or_else (settledBody L input) (runningBody L input)))) = Some body \<Longrightarrow> v = \<lparr>vb_outcome = vb_outcome body, vb_headline = vb_headline body,
        vb_reasons = vb_reasons body, vb_reviewed = vb_reviewed body, pv_nodeType = nodeTypeOf body input\<rparr>" for body
    using assms by (auto simp: phaseVerdict_def Let_def split: if_splits)
  show thesis
  proof (cases "overriddenBody input")
    case (Some body)
    then show ?thesis using chain [of body] overridden [of body] by (auto simp: overriddenBody_def Let_def split: if_splits)
  next
    case None
    note o = this
    show ?thesis
    proof (cases "attentionBody L input")
      case (Some body)
      moreover have "vb_outcome body = Out_attention" using Some by (auto simp: attentionBody_def Let_def split: if_splits)
      ultimately show ?thesis using chain [of body] attention [of body] o by (simp add: nodeTypeOf_def)
    next
      case None
      note a = this
      show ?thesis
      proof (cases "reviewedBody L input")
        case (Some body)
        moreover have "vb_outcome body = Out_reviewed" using Some by (auto simp: reviewedBody_def Let_def split: if_splits)
        ultimately show ?thesis using chain [of body] reviewed [of body] o a by simp
      next
        case None
        note r = this
        show ?thesis
        proof (cases "settledBody L input")
          case (Some body)
          moreover have "vb_outcome body \<in> {Out_unverified, Out_clean}" "vb_reviewed body = None"
            using Some by (auto simp: settledBody_def Let_def split: if_splits)
          ultimately show ?thesis using chain [of body] settled [of body] o a r by simp
        next
          case None
          note s = this
          obtain body where b: "runningBody L input = Some body"
            using assms o a r s by (auto simp: phaseVerdict_def Let_def split: if_splits)
          moreover have "vb_outcome body \<in> {Out_in_progress, Out_current}" "vb_reviewed body = None"
            using b by (auto simp: runningBody_def Let_def split: if_splits)
          ultimately show ?thesis using chain [of body] running [of body] o a r s by simp
        qed
      qed
    qed
  qed
qed

definition nothing_pending :: "verdict_input \<Rightarrow> bool" where
  "nothing_pending input \<longleftrightarrow> needsReview (vi_exceptions input) = [] \<and> list_all (\<lambda>c. ck_result c \<noteq> Flag) (vi_checks input)"

lemma attentionBody_None: "attentionBody L input = None \<longleftrightarrow> nothing_pending input"
  by (auto simp: attentionBody_def nothing_pending_def Let_def filter_empty_conv list_all_iff)

lemma reviewedBody_None: "reviewedBody L input = None \<longleftrightarrow> \<not> is_resolved (vi_phase input) \<or> vi_exceptions input = []"
  by (auto simp: reviewedBody_def Let_def)

lemma settledBody_None: "settledBody L input = None \<longleftrightarrow> \<not> is_resolved (vi_phase input)"
  by (simp add: settledBody_def Let_def)

lemma runningBody_None: "runningBody L input = None \<longleftrightarrow> is_resolved (vi_phase input) \<or> isNotStarted input"
  by (simp add: runningBody_def Let_def)

lemma overriddenBody_None: "overriddenBody input = None \<longleftrightarrow> phase_state (vi_phase input) \<noteq> Ph_overridden"
  by (simp add: overriddenBody_def Let_def)

lemmas body_None = overriddenBody_None attentionBody_None reviewedBody_None settledBody_None runningBody_None

lemma settledBody_clean:
  assumes "settledBody L input = Some body" and "vb_outcome body = Out_clean"
  shows "is_resolved (vi_phase input) \<and> phase_state (vi_phase input) \<noteq> Ph_exception \<and> phase_kind (vi_phase input) \<noteq> In_transit
    \<and> list_all (\<lambda>c. ck_result c \<noteq> Not_checked) (vi_checks input) \<and> list_ex (\<lambda>c. ck_result c = Pass) (vi_checks input)
    \<and> vb_reasons body = [R_checked (length (filter (\<lambda>c. ck_result c = Pass) (vi_checks input)))]"
  using assms by (auto simp: settledBody_def Let_def filter_empty_conv list_all_iff list_ex_iff split: if_splits)

lemma clean_verdict:
  assumes "phaseVerdict L input = Some v" and "vb_outcome v = Out_clean"
  shows "phase_state (vi_phase input) = Ph_completed \<and> vi_exceptions input = [] \<and> phase_kind (vi_phase input) \<notin> {Trip_creation, In_transit}
    \<and> list_all (\<lambda>c. ck_result c \<notin> {Flag, Not_checked}) (vi_checks input) \<and> list_ex (\<lambda>c. ck_result c = Pass) (vi_checks input)
    \<and> vb_reasons v = [R_checked (length (filter (\<lambda>c. ck_result c = Pass) (vi_checks input)))]"
proof -
  have kind: "phase_kind (vi_phase input) \<noteq> Trip_creation" using assms(1) by (auto simp: phaseVerdict_def Let_def)
  from assms(1) show ?thesis
  proof (cases rule: phaseVerdict_cases)
    case (settled body)
    note clean = settledBody_clean [OF settled(4)] assms(2) settled(5)
    then have "phase_state (vi_phase input) = Ph_completed" using settled(1) by (auto simp: is_resolved_iff overriddenBody_None)
    then show ?thesis using clean settled kind by (auto simp: body_None nothing_pending_def list_all_iff)
  qed (use assms(2) in auto)
qed

lemma clean_verdict_iff:
  assumes "phase_state (vi_phase input) = Ph_completed" and "phase_kind (vi_phase input) \<notin> {Trip_creation, In_transit}"
    and "list_all (\<lambda>c. ck_result c \<noteq> In_progress) (vi_checks input)" and "vi_checks input \<noteq> []"
  shows "(\<exists>v. phaseVerdict L input = Some v \<and> vb_outcome v = Out_clean)
    \<longleftrightarrow> vi_exceptions input = [] \<and> list_all (\<lambda>c. ck_result c = Pass) (vi_checks input)"
proof
  assume "vi_exceptions input = [] \<and> list_all (\<lambda>c. ck_result c = Pass) (vi_checks input)"
  then have c: "vi_exceptions input = []" "\<forall>c \<in> set (vi_checks input). ck_result c = Pass" by (simp_all add: list_all_iff)
  have res: "is_resolved (vi_phase input)" using assms(1) by (simp add: is_resolved_iff)
  have none: "overriddenBody input = None" "attentionBody L input = None" "reviewedBody L input = None"
    using assms(1) c by (simp_all add: body_None nothing_pending_def needsReview_def list_all_iff)
  have "filter (\<lambda>c. ck_result c = Not_checked) (vi_checks input) = []" "filter (\<lambda>c. ck_result c = Pass) (vi_checks input) \<noteq> []"
    using c(2) assms(4) by (auto simp: filter_empty_conv)
  then have "\<exists>body. settledBody L input = Some body \<and> vb_outcome body = Out_clean" using assms(1,2) res by (simp add: settledBody_def Let_def)
  then show "\<exists>v. phaseVerdict L input = Some v \<and> vb_outcome v = Out_clean"
    using none assms(2) res by (auto simp: phaseVerdict_def Let_def)
next
  assume "\<exists>v. phaseVerdict L input = Some v \<and> vb_outcome v = Out_clean"
  then have "vi_exceptions input = []" "list_all (\<lambda>c. ck_result c \<notin> {Flag, Not_checked}) (vi_checks input)"
    using clean_verdict by blast+
  moreover have "r = Pass" if "r \<notin> {Flag, Not_checked}" "r \<noteq> In_progress" for r using that by (cases r) auto
  ultimately show "vi_exceptions input = [] \<and> list_all (\<lambda>c. ck_result c = Pass) (vi_checks input)"
    using assms(3) by (simp add: list_all_iff)
qed

text \<open>
  A good verdict is earned. "Checks passed" stands only on a phase that was completed (not by override, not with an
  exception), that has no exception on record, whose checks all ran with none failed and at least one passed, and
  counts exactly the passed ones; the drive between stops never gets it. The reviewed tick stands only where
  there are exceptions, each was reviewed by someone, and no check is flagged.
\<close>

theorem good_verdict_is_earned:
  assumes "phaseVerdict L input = Some v"
  shows "(vb_outcome v = Out_clean \<longrightarrow> phase_state (vi_phase input) = Ph_completed \<and> vi_exceptions input = []
        \<and> phase_kind (vi_phase input) \<notin> {Trip_creation, In_transit}
        \<and> list_all (\<lambda>c. ck_result c \<notin> {Flag, Not_checked}) (vi_checks input)
        \<and> vb_reasons v = [R_checked (length (filter (\<lambda>c. ck_result c = Pass) (vi_checks input)))]
        \<and> list_ex (\<lambda>c. ck_result c = Pass) (vi_checks input))
    \<and> (vb_reviewed v = Some True \<longrightarrow> vi_exceptions input \<noteq> [] \<and> list_all (\<lambda>x. te_review_status x = Reviewed) (vi_exceptions input)
        \<and> list_all (\<lambda>c. ck_result c \<noteq> Flag) (vi_checks input))"
proof -
  from assms show ?thesis
  proof (cases rule: phaseVerdict_cases)
    case (overridden body)
    have "vb_reviewed body = None" using overridden(1) by (auto simp: overriddenBody_def Let_def split: if_splits)
    moreover have "vb_reviewed v = vb_reviewed body"
      using assms overridden(1) by (auto simp: phaseVerdict_def Let_def split: if_splits)
    ultimately show ?thesis using overridden by simp
  next
    case (attention body)
    have "vb_reviewed body = None" using attention(2) by (auto simp: attentionBody_def Let_def split: if_splits)
    moreover have "vb_reviewed v = vb_reviewed body"
      using assms attention(1,2) by (auto simp: phaseVerdict_def Let_def split: if_splits)
    ultimately show ?thesis using attention by simp
  next
    case (reviewed body)
    have "vb_reviewed body = Some (list_all (\<lambda>x. te_review_status x = Reviewed) (vi_exceptions input))" "vi_exceptions input \<noteq> []"
      using reviewed(3) by (auto simp: reviewedBody_def Let_def split: if_splits)
    then show ?thesis using reviewed by (auto simp: attentionBody_None nothing_pending_def)
  next
    case (settled body)
    then show ?thesis using clean_verdict [OF assms] by auto
  qed auto
qed

text \<open>What the verdict of a phase that waits must say: the reasons, in the words of its phase.\<close>

lemma attention_reasons:
  assumes "attentionBody L input = Some body"
  shows "\<forall>c \<in> set (vi_checks input). ck_result c = Flag \<longrightarrow> R_check (ck_title c) \<in> set (vb_reasons body)"
    and "needsReview (vi_exceptions input) \<noteq> [] \<Longrightarrow> phase_kind (vi_phase input) \<noteq> In_transit
      \<Longrightarrow> R_to_review (length (needsReview (vi_exceptions input))) \<in> set (vb_reasons body)"
  using assms by (auto simp: attentionBody_def Let_def split: if_splits)

text \<open>An override leaves nothing flagged: its only check says that the checks did not run.\<close>

lemma overridden_checks: "phase_state (ci_phase k) = Ph_overridden \<Longrightarrow> c \<in> set (buildPhaseChecks k) \<Longrightarrow> ck_result c \<noteq> Flag"
  by (auto simp: buildPhaseChecks_def bypassedChecks_def Let_def split: if_splits)

text \<open>
  Property C38. Waiting work of a phase is never hidden, save where a phase has no verdict at all: the creation of the trip, and
  a phase that a cancelled trip did not reach. On every other phase, if an exception is to be reviewed or a check is flagged,
  the verdict says "Needs attention" with a warning on the rail, names every flagged check, and (outside the drive between stops, which
  tells exceptions en route from those at arrival) counts the exceptions to review. The one other verdict is
  that of a phase closed by an override: it says so, that its checks did not run, and how many exceptions are to be reviewed; and none
  of the checks the card builds for such a phase is flagged.
\<close>

theorem waiting_work_is_never_hidden:
  assumes "(\<exists>x \<in> set (vi_exceptions input). te_review_status x = Needs_review) \<or> (\<exists>c \<in> set (vi_checks input). ck_result c = Flag)"
  shows "if phase_kind (vi_phase input) = Trip_creation \<or> \<not> is_resolved (vi_phase input) \<and> vi_tripStatus input = Trip_cancelled
    then phaseVerdict L input = None
    else \<exists>v. phaseVerdict L input = Some v
      \<and> (let pending = length (filter (\<lambda>x. te_review_status x = Needs_review) (vi_exceptions input)) in
         if phase_state (vi_phase input) \<noteq> Ph_overridden
         then vb_outcome v = Out_attention \<and> vb_headline v = H_needs_attention \<and> pv_nodeType v = Node_warn
           \<and> (\<forall>c \<in> set (vi_checks input). ck_result c = Flag \<longrightarrow> R_check (ck_title c) \<in> set (vb_reasons v))
           \<and> (0 < pending \<and> phase_kind (vi_phase input) \<noteq> In_transit \<longrightarrow> R_to_review pending \<in> set (vb_reasons v))
         else vb_outcome v = Out_overridden \<and> vb_headline v = H_closed_by_override \<and> R_checks_did_not_run \<in> set (vb_reasons v)
           \<and> (0 < pending \<longrightarrow> R_to_review pending \<in> set (vb_reasons v))
           \<and> (\<forall>k. ci_phase k = vi_phase input \<longrightarrow> (\<forall>c \<in> set (buildPhaseChecks k). ck_result c \<noteq> Flag)))"
proof (cases "phase_kind (vi_phase input) = Trip_creation \<or> \<not> is_resolved (vi_phase input) \<and> vi_tripStatus input = Trip_cancelled")
  case True
  then show ?thesis by (auto simp: phaseVerdict_def Let_def)
next
  case told: False
  show ?thesis
  proof (cases "phase_state (vi_phase input) = Ph_overridden")
    case True
    moreover have "\<forall>k. ci_phase k = vi_phase input \<longrightarrow> (\<forall>c \<in> set (buildPhaseChecks k). ck_result c \<noteq> Flag)"
      using True by (metis overridden_checks)
    ultimately show ?thesis using told by (simp add: phaseVerdict_def overriddenBody_def needsReview_def Let_def del: split_paired_All)
  next
    case False
    have "\<not> nothing_pending input" using assms by (auto simp: nothing_pending_def needsReview_def filter_empty_conv list_all_iff)
    then obtain body where body: "attentionBody L input = Some body" using attentionBody_None by fastforce
    then have "vb_outcome body = Out_attention" "vb_headline body = H_needs_attention"
      by (auto simp: attentionBody_def Let_def split: if_splits)
    moreover have "overriddenBody input = None" using False by (simp add: overriddenBody_None)
    ultimately show ?thesis using told False body attention_reasons[OF body]
      by (auto simp: phaseVerdict_def Let_def nodeTypeOf_def needsReview_def)
  qed
qed

text \<open>
  A phase without a verdict: the creation of the trip, a phase a cancelled trip did not reach, and a phase that has not started
  and has nothing pending.
\<close>

lemma no_verdict: "phaseVerdict L input = None \<longleftrightarrow> phase_kind (vi_phase input) = Trip_creation
    \<or> (\<not> is_resolved (vi_phase input) \<and> (vi_tripStatus input = Trip_cancelled \<or> (nothing_pending input \<and> isNotStarted input)))"
proof -
  have "or_else a b = None \<longleftrightarrow> a = None \<and> b = None" for a b :: "verdict_body option" by (cases a) simp_all
  moreover have "phase_state (vi_phase input) = Ph_overridden \<Longrightarrow> is_resolved (vi_phase input)" by (simp add: is_resolved_iff)
  ultimately show ?thesis by (auto simp: phaseVerdict_def Let_def body_None)
qed

text \<open>The time on the road is a whole number of minutes, rounded down, with fewer than sixty after the hours.\<close>

fun road_minutes :: "road_time \<Rightarrow> int" where
  "road_minutes (Road_minutes m) = m"
| "road_minutes (Road_hours h m) = 60 * h + m"

lemma road_time_is_exact:
  assumes "0 \<le> elapsed"
  shows "of_int (road_minutes (formatRoadTime elapsed)) * MS_PER_MINUTE \<le> elapsed"
    "elapsed < of_int (road_minutes (formatRoadTime elapsed) + 1) * MS_PER_MINUTE"
    "formatRoadTime elapsed = Road_hours h m \<Longrightarrow> 1 \<le> h \<and> 0 \<le> m \<and> m < 60"
proof -
  have m: "road_minutes (formatRoadTime elapsed) = \<lfloor>elapsed / MS_PER_MINUTE\<rfloor>"
    by (simp add: formatRoadTime_def Let_def MINUTES_PER_HOUR_def)
  have b: "of_int \<lfloor>elapsed / MS_PER_MINUTE\<rfloor> \<le> elapsed / MS_PER_MINUTE" "elapsed / MS_PER_MINUTE < of_int (\<lfloor>elapsed / MS_PER_MINUTE\<rfloor> + 1)"
    by linarith+
  show "of_int (road_minutes (formatRoadTime elapsed)) * MS_PER_MINUTE \<le> elapsed"
    using b(1) unfolding m by (simp add: MS_PER_MINUTE_def field_simps)
  show "elapsed < of_int (road_minutes (formatRoadTime elapsed) + 1) * MS_PER_MINUTE"
    using b(2) unfolding m by (simp add: MS_PER_MINUTE_def field_simps)
  show "formatRoadTime elapsed = Road_hours h m \<Longrightarrow> 1 \<le> h \<and> 0 \<le> m \<and> m < 60"
  proof -
    define n where "n = \<lfloor>elapsed / MS_PER_MINUTE\<rfloor>"
    have "60 \<le> n \<Longrightarrow> 1 \<le> n div 60" by presburger
    then show "formatRoadTime elapsed = Road_hours h m \<Longrightarrow> 1 \<le> h \<and> 0 \<le> m \<and> m < 60"
      by (auto simp: formatRoadTime_def Let_def MINUTES_PER_HOUR_def not_less simp flip: n_def split: if_splits)
  qed
qed

text \<open>Examples: a completed departure with a passed check, and one with an exception to review.\<close>

definition demo_verdict :: "trip_exception list \<Rightarrow> check_result \<Rightarrow> verdict_input" where
  "demo_verdict xs r = \<lparr>vi_phase = demo_phase Departure 2 Ph_completed, vi_checks = [check Truck_geofence r (Truck_title Within_tolerance) Inside_boundary],
     vi_exceptions = xs, vi_uploads = 0, vi_isActive = False, vi_tripStatus = Trip_active, vi_leg = None, vi_nowMs = 0\<rparr>"

lemma demo_verdict_simps [simp]:
  "phase_kind (vi_phase (demo_verdict xs r)) = Departure" "phase_state (vi_phase (demo_verdict xs r)) = Ph_completed"
  "vi_exceptions (demo_verdict xs r) = xs" "map ck_result (vi_checks (demo_verdict xs r)) = [r]"
  "is_resolved (vi_phase (demo_verdict xs r))"
  by (simp_all add: demo_verdict_def is_resolved_iff) (simp_all add: demo_phase_def)

lemma good_verdict_is_earned_witness:
  "\<exists>v. phaseVerdict demo_locale (demo_verdict [] Pass) = Some v \<and> vb_outcome v = Out_clean \<and> vb_reasons v = [R_checked 1]"
proof -
  have b: "overriddenBody (demo_verdict [] Pass) = None" "attentionBody demo_locale (demo_verdict [] Pass) = None"
    "reviewedBody demo_locale (demo_verdict [] Pass) = None"
    by (simp_all add: body_None nothing_pending_def needsReview_def) (simp add: demo_verdict_def)
  have s: "settledBody demo_locale (demo_verdict [] Pass) = Some (verdict_of Out_clean H_checks_passed [R_checked 1])"
    by (simp add: settledBody_def Let_def) (simp add: demo_verdict_def)
  obtain v where v: "phaseVerdict demo_locale (demo_verdict [] Pass) = Some v" "vb_outcome v = Out_clean"
    using b s by (simp add: phaseVerdict_def Let_def)
  moreover have "length (filter (\<lambda>c. ck_result c = Pass) (vi_checks (demo_verdict [] Pass))) = 1" by (simp add: demo_verdict_def)
  ultimately show ?thesis using good_verdict_is_earned [OF v(1)] by auto
qed

lemma waiting_work_is_never_hidden_witness:
  "\<exists>v. phaseVerdict demo_locale (demo_verdict [demo_finding] Pass) = Some v \<and> vb_outcome v = Out_attention
    \<and> R_to_review 1 \<in> set (vb_reasons v)"
proof -
  let ?input = "demo_verdict [demo_finding] Pass"
  have "\<exists>x \<in> set (vi_exceptions ?input). te_review_status x = Needs_review" by (simp add: demo_finding_def)
  moreover have "filter (\<lambda>x. te_review_status x = Needs_review) (vi_exceptions ?input) = [demo_finding]" by (simp add: demo_finding_def)
  ultimately show ?thesis using waiting_work_is_never_hidden [of ?input demo_locale] by (auto simp: Let_def)
qed

end
