(* ===== verification/TripEvents.thy ===== *)
theory TripEvents
  imports PhaseRail
begin

text \<open>
  Where dated events of a trip stand between its phases: \<open>positionTimelineEvents\<close> of
  \<open>dispatcher/lib/phase/driver-transfers.ts\<close>, used for driver transfers and, in \<open>trip-events.ts\<close>, for transfers and incidents
  together; and which exception rows a card shows (\<open>exception-rows.ts\<close>).
\<close>

section \<open>Sorting by a comparator\<close>

text \<open>
  \<open>Array.prototype.sort\<close>: stable; for a comparator that is a consistent order the result is
  determined, and insertion computes it. For an inconsistent one (an instant that does not parse) ECMAScript leaves the order open;
  no theorem below depends on it.
\<close>

fun insert_by :: "('a \<Rightarrow> 'a \<Rightarrow> number) \<Rightarrow> 'a \<Rightarrow> 'a list \<Rightarrow> 'a list" where
  "insert_by cmp x [] = [x]"
| "insert_by cmp x (y # ys) = (if cmp x y \<le> 0 then x # y # ys else y # insert_by cmp x ys)"

definition js_sort :: "('a \<Rightarrow> 'a \<Rightarrow> number) \<Rightarrow> 'a list \<Rightarrow> 'a list" where
  "js_sort cmp xs = foldr (insert_by cmp) xs []"

lemma insert_by_mset: "mset (insert_by cmp x ys) = add_mset x (mset ys)"
  by (induction ys) auto

lemma js_sort_mset [simp]: "mset (js_sort cmp xs) = mset xs"
  by (induction xs) (simp_all add: js_sort_def insert_by_mset)

lemma js_sort_set [simp]: "set (js_sort cmp xs) = set xs"
  by (metis js_sort_mset set_mset_mset)

lemma js_sort_length [simp]: "length (js_sort cmp xs) = length xs"
  by (metis js_sort_mset size_mset)

text \<open>A comparator that agrees with a key sorts by the key.\<close>

lemma js_sort_key:
  fixes key :: "'a \<Rightarrow> 'b::linorder"
  assumes "\<And>a b. a \<in> set xs \<Longrightarrow> b \<in> set xs \<Longrightarrow> cmp a b \<le> 0 \<longleftrightarrow> key a \<le> key b"
  shows "js_sort cmp xs = sort_key key xs"
  using assms
proof (induction xs)
  case (Cons x xs)
  have "set ys \<subseteq> set (x # xs) \<Longrightarrow> insert_by cmp x ys = insort_key key x ys" for ys
    using Cons.prems by (induction ys) auto
  moreover have "js_sort cmp (x # xs) = insert_by cmp x (js_sort cmp xs)" by (simp add: js_sort_def)
  ultimately show ?case using Cons.IH [OF Cons.prems] by (simp add: subset_insertI)
qed (simp add: js_sort_def)

text \<open>\<open>x || y\<close> of two numbers, where \<open>None\<close> is \<open>NaN\<close>.\<close>

definition num_or :: "number option \<Rightarrow> number \<Rightarrow> number" where
  "num_or x y = (case x of None \<Rightarrow> y | Some n \<Rightarrow> if n = 0 then y else n)"

definition time_gap :: "js_locale \<Rightarrow> string \<Rightarrow> string \<Rightarrow> number option" where
  "time_gap L a b = (case (parseDate L a, parseDate L b) of (Some x, Some y) \<Rightarrow> Some (x - y) | _ \<Rightarrow> None)"

definition localeCompare :: "js_locale \<Rightarrow> string \<Rightarrow> string \<Rightarrow> number" where
  "localeCompare L a b = (if collate L a < collate L b then -1 else if collate L a = collate L b then 0 else 1)"

section \<open>Positions on the timeline\<close>

record 'e timeline_placement =
  tp_beforeFirst :: "'e list"
  tp_afterPhase :: "(string \<times> 'e list) list"
  tp_unplaced :: "'e list"

record boundary =
  bd_phase :: phase_descriptor
  bd_index :: nat
  bd_at :: "number option"

definition closed_at :: "js_locale \<Rightarrow> phase_descriptor \<Rightarrow> number option" where
  "closed_at L phase = (case completed_at phase of None \<Rightarrow> None | Some t \<Rightarrow> parseDate L t)"

definition boundaries :: "js_locale \<Rightarrow> phase_descriptor list \<Rightarrow> boundary list" where
  "boundaries L phases = List.map_filter (\<lambda>(index, phase). if is_resolved phase
     then Some \<lparr>bd_phase = phase, bd_index = index, bd_at = closed_at L phase\<rparr> else None)
     (enumerate 0 phases)"

definition consistent :: "boundary list \<Rightarrow> bool" where
  "consistent bs \<longleftrightarrow> length bs > 0 \<and> list_all (\<lambda>(index, b). bd_at b \<noteq> None \<and> bd_index b = index
     \<and> (index = 0 \<or> the (bd_at b) \<ge> the (bd_at (bs ! (index - 1))))) (enumerate 0 bs)"

definition event_order :: "js_locale \<Rightarrow> ('e \<Rightarrow> string) \<Rightarrow> ('e \<Rightarrow> string) \<Rightarrow> ('e \<Rightarrow> 'e \<Rightarrow> number) option \<Rightarrow> 'e \<Rightarrow> 'e \<Rightarrow> number" where
  "event_order L timeOf key tieBreak a b = num_or (time_gap L (timeOf a) (timeOf b))
     (num_or (Some (case tieBreak of None \<Rightarrow> 0 | Some tie \<Rightarrow> tie a b)) (localeCompare L (key a) (key b)))"

definition placed_at_boundary :: "boundary list \<Rightarrow> number \<Rightarrow> boundary option" where
  "placed_at_boundary bs instant = at_end (filter (\<lambda>b. case bd_at b of None \<Rightarrow> False | Some t \<Rightarrow> t \<le> instant) bs)"

definition push_slot :: "string \<Rightarrow> 'e \<Rightarrow> (string \<times> 'e list) list \<Rightarrow> (string \<times> 'e list) list" where
  "push_slot i event slots = AList.update i ((case map_of slots i of None \<Rightarrow> [] | Some slot \<Rightarrow> slot) @ [event]) slots"

definition position_event :: "js_locale \<Rightarrow> boundary list \<Rightarrow> ('e \<Rightarrow> string) \<Rightarrow> 'e \<Rightarrow> 'e timeline_placement \<Rightarrow> 'e timeline_placement" where
  "position_event L bs timeOf event placement = (case (if consistent bs then parseDate L (timeOf event) else None) of
       None \<Rightarrow> placement\<lparr>tp_unplaced := tp_unplaced placement @ [event]\<rparr>
     | Some instant \<Rightarrow> (case placed_at_boundary bs instant of
         None \<Rightarrow> placement\<lparr>tp_beforeFirst := tp_beforeFirst placement @ [event]\<rparr>
       | Some preceding \<Rightarrow> placement\<lparr>tp_afterPhase := push_slot (phase_event_id (bd_phase preceding)) event (tp_afterPhase placement)\<rparr>))"

definition position_unseen :: "js_locale \<Rightarrow> boundary list \<Rightarrow> ('e \<Rightarrow> string) \<Rightarrow> ('e \<Rightarrow> string) \<Rightarrow> 'e \<Rightarrow> string set \<times> 'e timeline_placement \<Rightarrow> string set \<times> 'e timeline_placement" where
  "position_unseen L bs timeOf key event = (\<lambda>(seen, placement).
     if key event \<in> seen then (seen, placement) else (insert (key event) seen, position_event L bs timeOf event placement))"

definition positionTimelineEvents :: "js_locale \<Rightarrow> phase_descriptor list \<Rightarrow> 'e list \<Rightarrow> ('e \<Rightarrow> string) \<Rightarrow> ('e \<Rightarrow> string)
    \<Rightarrow> ('e \<Rightarrow> 'e \<Rightarrow> number) option \<Rightarrow> 'e timeline_placement" where
  "positionTimelineEvents L phases events timeOf key tieBreak =
     snd (fold (position_unseen L (boundaries L phases) timeOf key) (js_sort (event_order L timeOf key tieBreak) events)
       ({}, \<lparr>tp_beforeFirst = [], tp_afterPhase = [], tp_unplaced = []\<rparr>))"

definition positionDriverTransfers :: "js_locale \<Rightarrow> phase_descriptor list \<Rightarrow> driver_transfer list \<Rightarrow> driver_transfer timeline_placement" where
  "positionDriverTransfers L phases events = positionTimelineEvents L phases events dt_effective_at dt_substitution_id
     (Some (\<lambda>a b. of_int (dt_sequence_number a - dt_sequence_number b)))"

section \<open>Transfers and incidents together\<close>

fun tieBreak :: "trip_timeline_event \<Rightarrow> trip_timeline_event \<Rightarrow> number" where
  "tieBreak (Transfer_event a) (Transfer_event b) = of_int (dt_sequence_number a - dt_sequence_number b)"
| "tieBreak (Transfer_event a) (Incident_event b) = -1"
| "tieBreak (Incident_event a) (Transfer_event b) = 1"
| "tieBreak (Incident_event a) (Incident_event b) = 0"

record trip_event_placement = "trip_timeline_event timeline_placement" +
  tp_inPhase :: "(string \<times> trip_timeline_event list) list"

definition move_into_leg :: "phase_descriptor list \<Rightarrow> nat \<Rightarrow> (string \<times> 'e list) list \<times> (string \<times> 'e list) list \<Rightarrow> (string \<times> 'e list) list \<times> (string \<times> 'e list) list" where
  "move_into_leg phases index = (\<lambda>(afterPhase, inPhase). let i = phase_event_id (phases ! index) in
     if Suc index < length phases \<and> phase_kind (phases ! Suc index) = In_transit then
       case map_of afterPhase i of
         None \<Rightarrow> (afterPhase, inPhase)
       | Some slot \<Rightarrow> (AList.delete i afterPhase, AList.update (phase_event_id (phases ! Suc index)) slot inPhase)
     else (afterPhase, inPhase))"

definition positionTripEvents :: "js_locale \<Rightarrow> phase_descriptor list \<Rightarrow> driver_transfer list \<Rightarrow> incident_summary list \<Rightarrow> trip_event_placement" where
  "positionTripEvents L phases transfers incidents = (let events = map Transfer_event transfers @ map Incident_event incidents;
       placed = positionTimelineEvents L phases events tripEventTime tripEventKey (Some tieBreak);
       (afterPhase, inPhase) = fold (move_into_leg phases) [0..<length phases] (tp_afterPhase placed, [])
     in \<lparr>tp_beforeFirst = tp_beforeFirst placed, tp_afterPhase = afterPhase, tp_unplaced = tp_unplaced placed, tp_inPhase = inPhase\<rparr>)"

section \<open>Each event once\<close>

fun fresh :: "('e \<Rightarrow> string) \<Rightarrow> string set \<Rightarrow> 'e list \<Rightarrow> 'e list" where
  "fresh key seen [] = []"
| "fresh key seen (x # xs) = (if key x \<in> seen then fresh key seen xs else x # fresh key (insert (key x) seen) xs)"

lemma fresh_keys: "key ` set (fresh key seen xs) = key ` set xs - seen"
  by (induction key seen xs rule: fresh.induct) auto

lemma fresh_distinct: "distinct (map key (fresh key seen xs))"
  by (induction key seen xs rule: fresh.induct) (auto simp: fresh_keys)

lemma fresh_subset: "set (fresh key seen xs) \<subseteq> set xs"
  by (induction key seen xs rule: fresh.induct) auto

definition slot_events :: "(string \<times> 'e list) list \<Rightarrow> 'e list" where
  "slot_events slots = concat (map snd slots)"

definition all_events :: "'e timeline_placement \<Rightarrow> 'e list" where
  "all_events placement = tp_beforeFirst placement @ slot_events (tp_afterPhase placement) @ tp_unplaced placement"

lemma push_slot_simps [simp]:
  "push_slot i event [] = [(i, [event])]"
  "push_slot i event ((k, slot) # slots) = (if k = i then (k, slot @ [event]) # slots else (k, slot) # push_slot i event slots)"
  by (simp_all add: push_slot_def)

lemma push_slot_mset: "mset (slot_events (push_slot i event slots)) = add_mset event (mset (slot_events slots))"
  by (induction slots) (auto simp: slot_events_def)

lemma position_event_mset: "mset (all_events (position_event L bs timeOf event placement)) = add_mset event (mset (all_events placement))"
  by (auto simp: position_event_def all_events_def push_slot_mset split: option.split)

lemma position_fold: "mset (all_events (snd (fold (position_unseen L bs timeOf key) xs (seen, placement))))
    = mset (all_events placement) + mset (fresh key seen xs)"
  by (induction xs arbitrary: seen placement) (simp_all add: position_unseen_def position_event_mset)

lemma events_placed_once:
  fixes events :: "'e list"
  defines "placed \<equiv> \<lambda>L phases timeOf key tie. positionTimelineEvents L phases events timeOf key tie"
  shows "distinct (map key (all_events (placed L phases timeOf key tie)))"
    "key ` set (all_events (placed L phases timeOf key tie)) = key ` set events"
    "set (all_events (placed L phases timeOf key tie)) \<subseteq> set events"
proof -
  let ?xs = "js_sort (event_order L timeOf key tie) events"
  have m: "mset (all_events (placed L phases timeOf key tie)) = mset (fresh key {} ?xs)"
    unfolding placed_def positionTimelineEvents_def position_fold by (simp add: all_events_def slot_events_def)
  show "distinct (map key (all_events (placed L phases timeOf key tie)))"
    using fresh_distinct mset_eq_imp_distinct_iff [of "map key (all_events (placed L phases timeOf key tie))" "map key (fresh key {} ?xs)"] m
    by (metis mset_map)
  show "key ` set (all_events (placed L phases timeOf key tie)) = key ` set events"
    using fresh_keys [of key "{}" ?xs] mset_eq_setD [OF m] by simp
  show "set (all_events (placed L phases timeOf key tie)) \<subseteq> set events"
    using fresh_subset [of key "{}" ?xs] mset_eq_setD [OF m] by simp
qed

section \<open>Each position proven\<close>

lemma at_end_filter:
  assumes "at_end (filter P xs) = Some x"
  obtains n where "n < length xs" "xs ! n = x" "P x" "\<And>m. n < m \<Longrightarrow> m < length xs \<Longrightarrow> \<not> P (xs ! m)"
  using assms
proof (induction xs arbitrary: thesis rule: rev_induct)
  case (snoc y ys)
  show ?case
  proof (cases "P y")
    case True
    then show ?thesis using snoc.prems(2) snoc.prems(1) [of "length ys"] by (simp add: at_end_def)
  next
    case False
    then have "at_end (filter P ys) = Some x" using snoc.prems(2) by simp
    then obtain n where n: "n < length ys" "ys ! n = x" "P x" "\<And>m. n < m \<Longrightarrow> m < length ys \<Longrightarrow> \<not> P (ys ! m)"
      using snoc.IH by blast
    show ?thesis by (rule snoc.prems(1) [of n]) (use n False in \<open>auto simp: nth_append less_Suc_eq\<close>)
  qed
qed (simp add: at_end_def)

lemma in_boundaries: "b \<in> set (boundaries L phases) \<longleftrightarrow>
    (\<exists>n < length phases. is_resolved (phases ! n) \<and> b = \<lparr>bd_phase = phases ! n, bd_index = n, bd_at = closed_at L (phases ! n)\<rparr>)"
proof
  assume "\<exists>n < length phases. is_resolved (phases ! n) \<and> b = \<lparr>bd_phase = phases ! n, bd_index = n, bd_at = closed_at L (phases ! n)\<rparr>"
  then obtain n where "n < length phases" "is_resolved (phases ! n)" "b = \<lparr>bd_phase = phases ! n, bd_index = n, bd_at = closed_at L (phases ! n)\<rparr>"
    by blast
  then show "b \<in> set (boundaries L phases)" unfolding boundaries_def in_map_filter
    by (intro bexI [of _ "(n, phases ! n)"]) (simp_all add: in_set_enumerate_eq)
qed (auto simp: boundaries_def in_map_filter in_set_enumerate_eq split: if_splits)

lemma consistent_index:
  assumes "consistent bs" and "k < length bs"
  shows "bd_index (bs ! k) = k" "bd_at (bs ! k) \<noteq> None"
proof -
  have "(k, bs ! k) \<in> set (enumerate 0 bs)" using assms(2) by (simp add: in_set_enumerate_eq)
  then show "bd_index (bs ! k) = k" "bd_at (bs ! k) \<noteq> None" using assms(1) by (auto simp: consistent_def list_all_iff)
qed

lemma consistent_nth:
  assumes "consistent bs" and "b \<in> set bs"
  shows "bd_index b < length bs" "bs ! bd_index b = b"
  using assms consistent_index(1) [OF assms(1)] by (auto simp: in_set_conv_nth)

text \<open>Where an event may stand: after the last phase closed at or before it, with every earlier phase closed.\<close>

definition stands_after :: "js_locale \<Rightarrow> phase_descriptor list \<Rightarrow> number \<Rightarrow> string \<Rightarrow> bool" where
  "stands_after L phases instant i \<longleftrightarrow> (\<exists>n < length phases. phase_event_id (phases ! n) = i
     \<and> (\<exists>t \<le> instant. closed_at L (phases ! n) = Some t) \<and> (\<forall>m \<le> n. is_resolved (phases ! m))
     \<and> (\<forall>m < length phases. n < m \<and> is_resolved (phases ! m) \<longrightarrow> (\<exists>t > instant. closed_at L (phases ! m) = Some t)))"

definition stands_first :: "js_locale \<Rightarrow> phase_descriptor list \<Rightarrow> number \<Rightarrow> bool" where
  "stands_first L phases instant \<longleftrightarrow> (\<forall>m < length phases. is_resolved (phases ! m) \<longrightarrow> (\<exists>t > instant. closed_at L (phases ! m) = Some t))"

lemma boundary_of_phase:
  assumes "consistent (boundaries L phases)" and "m < length phases" and "is_resolved (phases ! m)"
  shows "m < length (boundaries L phases) \<and> boundaries L phases ! m = \<lparr>bd_phase = phases ! m, bd_index = m, bd_at = closed_at L (phases ! m)\<rparr>"
proof -
  have "\<lparr>bd_phase = phases ! m, bd_index = m, bd_at = closed_at L (phases ! m)\<rparr> \<in> set (boundaries L phases)"
    using assms(2,3) in_boundaries by blast
  then show ?thesis using consistent_nth [OF assms(1)] by fastforce
qed

lemma phase_of_boundary:
  assumes "consistent (boundaries L phases)" and "m < length (boundaries L phases)"
  shows "m < length phases \<and> is_resolved (phases ! m) \<and> (\<exists>t. closed_at L (phases ! m) = Some t)
    \<and> boundaries L phases ! m = \<lparr>bd_phase = phases ! m, bd_index = m, bd_at = closed_at L (phases ! m)\<rparr>"
proof -
  have "boundaries L phases ! m \<in> set (boundaries L phases)" using assms(2) by simp
  then obtain n where "n < length phases" "is_resolved (phases ! n)"
    "boundaries L phases ! m = \<lparr>bd_phase = phases ! n, bd_index = n, bd_at = closed_at L (phases ! n)\<rparr>"
    using in_boundaries by blast
  then show ?thesis using consistent_index [OF assms] by auto
qed

lemma placed_at_boundary_stands:
  assumes "consistent (boundaries L phases)" and "placed_at_boundary (boundaries L phases) instant = Some b"
  shows "stands_after L phases instant (phase_event_id (bd_phase b))"
proof -
  let ?bs = "boundaries L phases" and ?P = "\<lambda>b. case bd_at b of None \<Rightarrow> False | Some t \<Rightarrow> t \<le> instant"
  obtain n where n: "n < length ?bs" "?bs ! n = b" "?P b" "\<And>m. n < m \<Longrightarrow> m < length ?bs \<Longrightarrow> \<not> ?P (?bs ! m)"
    using at_end_filter [OF assms(2) [unfolded placed_at_boundary_def]] by (metis (no_types, lifting))
  have b: "n < length phases" "b = \<lparr>bd_phase = phases ! n, bd_index = n, bd_at = closed_at L (phases ! n)\<rparr>"
    using phase_of_boundary [OF assms(1) n(1)] n(2) by auto
  have "is_resolved (phases ! m)" if "m \<le> n" for m
    using phase_of_boundary [OF assms(1), of m] that n(1) by auto
  moreover have "\<exists>t > instant. closed_at L (phases ! m) = Some t" if "m < length phases" "n < m" "is_resolved (phases ! m)" for m
  proof -
    have m: "m < length ?bs" "?bs ! m = \<lparr>bd_phase = phases ! m, bd_index = m, bd_at = closed_at L (phases ! m)\<rparr>"
      using boundary_of_phase [OF assms(1) that(1,3)] by auto
    then have "\<not> ?P (?bs ! m)" using n(4) that(2) by blast
    then show ?thesis using m phase_of_boundary [OF assms(1) m(1)] by (auto split: option.splits)
  qed
  moreover have "\<exists>t \<le> instant. closed_at L (phases ! n) = Some t" using n(3) b(2) by (auto split: option.splits)
  ultimately show ?thesis unfolding stands_after_def using b by auto
qed

lemma placed_first_stands:
  assumes "consistent (boundaries L phases)" and "placed_at_boundary (boundaries L phases) instant = None"
  shows "stands_first L phases instant"
  unfolding stands_first_def
proof (intro allI impI)
  fix m assume m: "m < length phases" "is_resolved (phases ! m)"
  let ?bs = "boundaries L phases" and ?P = "\<lambda>b. case bd_at b of None \<Rightarrow> False | Some t \<Rightarrow> t \<le> instant"
  have b: "m < length ?bs" "?bs ! m = \<lparr>bd_phase = phases ! m, bd_index = m, bd_at = closed_at L (phases ! m)\<rparr>"
    using boundary_of_phase [OF assms(1) m] by auto
  have "filter ?P ?bs = []" using assms(2) by (auto simp: placed_at_boundary_def at_end_def split: if_splits)
  then have "\<not> ?P (?bs ! m)" using b(1) by (metis filter_empty_conv nth_mem)
  then show "\<exists>t > instant. closed_at L (phases ! m) = Some t"
    using b phase_of_boundary [OF assms(1) b(1)] by (auto split: option.splits)
qed

definition well_placed :: "js_locale \<Rightarrow> phase_descriptor list \<Rightarrow> ('e \<Rightarrow> string) \<Rightarrow> 'e timeline_placement \<Rightarrow> bool" where
  "well_placed L phases timeOf placement \<longleftrightarrow>
     (\<forall>(i, slot) \<in> set (tp_afterPhase placement). \<forall>e \<in> set slot. \<exists>instant. parseDate L (timeOf e) = Some instant \<and> stands_after L phases instant i)
     \<and> (\<forall>e \<in> set (tp_beforeFirst placement). \<exists>instant. parseDate L (timeOf e) = Some instant \<and> stands_first L phases instant)"

lemma push_slot_all:
  "\<forall>(i, slot) \<in> set slots. \<forall>e \<in> set slot. P i e \<Longrightarrow> P k event \<Longrightarrow> \<forall>(i, slot) \<in> set (push_slot k event slots). \<forall>e \<in> set slot. P i e"
proof (induction slots)
  case (Cons entry slots)
  then show ?case by (cases entry) (auto simp: ball_Un)
qed simp

lemma position_event_well_placed:
  assumes "well_placed L phases timeOf placement"
  shows "well_placed L phases timeOf (position_event L (boundaries L phases) timeOf event placement)"
proof (cases "if consistent (boundaries L phases) then parseDate L (timeOf event) else None")
  case None
  then show ?thesis using assms by (simp add: position_event_def well_placed_def)
next
  case (Some instant)
  then have c: "consistent (boundaries L phases)" and w: "parseDate L (timeOf event) = Some instant" by (simp_all split: if_splits)
  show ?thesis
  proof (cases "placed_at_boundary (boundaries L phases) instant")
    case None
    then show ?thesis using assms c w placed_first_stands [OF c None] by (auto simp: position_event_def well_placed_def)
  next
    case (Some b)
    have "\<forall>(i, slot) \<in> set (push_slot (phase_event_id (bd_phase b)) event (tp_afterPhase placement)). \<forall>e \<in> set slot.
        \<exists>instant. parseDate L (timeOf e) = Some instant \<and> stands_after L phases instant i"
      by (rule push_slot_all) (use assms placed_at_boundary_stands [OF c Some] w in \<open>simp_all add: well_placed_def\<close>)
    then show ?thesis using assms c w Some by (simp add: position_event_def well_placed_def)
  qed
qed

lemma events_well_placed: "well_placed L phases timeOf (positionTimelineEvents L phases events timeOf key tie)"
proof -
  have step: "well_placed L phases timeOf placement \<Longrightarrow>
      well_placed L phases timeOf (snd (fold (position_unseen L (boundaries L phases) timeOf key) xs (seen, placement)))" for xs seen placement
    by (induction xs arbitrary: seen placement) (simp_all add: position_unseen_def position_event_well_placed)
  have "well_placed L phases timeOf \<lparr>tp_beforeFirst = [], tp_afterPhase = [], tp_unplaced = []\<rparr>" by (simp add: well_placed_def)
  then show ?thesis unfolding positionTimelineEvents_def by (rule step)
qed

section \<open>Events of a leg on its own card\<close>

definition placed_events :: "trip_event_placement \<Rightarrow> trip_timeline_event list" where
  "placed_events placement = tp_beforeFirst placement @ slot_events (tp_afterPhase placement) @ slot_events (tp_inPhase placement) @ tp_unplaced placement"

lemma push_slot_keys: "fst ` set (push_slot i event slots) = insert i (fst ` set slots)"
  "distinct (map fst slots) \<Longrightarrow> distinct (map fst (push_slot i event slots))"
  by (simp_all add: push_slot_def dom_update distinct_update)

lemma slots_distinct: "distinct (map fst (tp_afterPhase (positionTimelineEvents L phases events timeOf key tie)))"
proof -
  have "distinct (map fst (tp_afterPhase placement)) \<Longrightarrow>
      distinct (map fst (tp_afterPhase (snd (fold (position_unseen L bs timeOf key) xs (seen, placement)))))" for bs xs seen placement
    by (induction xs arbitrary: seen placement)
      (auto simp: position_unseen_def position_event_def push_slot_keys split: option.split)
  then show ?thesis unfolding positionTimelineEvents_def by simp
qed

lemma slot_events_delete:
  assumes "distinct (map fst slots)" and "map_of slots i = Some slot"
  shows "mset (slot_events slots) = mset slot + mset (slot_events (AList.delete i slots))"
  using assms
proof (induction slots)
  case (Cons entry slots)
  show ?case
  proof (cases "fst entry = i")
    case True
    then have "AList.delete i slots = slots" using Cons.prems(1) by (auto intro!: delete_idem)
    then show ?thesis using Cons.prems True by (cases entry) (simp add: slot_events_def)
  next
    case False
    then show ?thesis using Cons by (cases entry) (simp add: slot_events_def)
  qed
qed simp

lemma slot_events_new: "i \<notin> fst ` set slots \<Longrightarrow> mset (slot_events (AList.update i slot slots)) = mset slot + mset (slot_events slots)"
  by (induction slots) (auto simp: slot_events_def)

text \<open>Moving the slot of a phase into the leg that follows it keeps every event.\<close>

lemma move_into_leg_keeps:
  assumes "distinct (map phase_event_id phases)" and "k \<le> length phases" and "distinct (map fst slots)"
    and "fold (move_into_leg phases) [0..<k] (slots, []) = (afterPhase, inPhase)"
  shows "mset (slot_events afterPhase) + mset (slot_events inPhase) = mset (slot_events slots) \<and> distinct (map fst afterPhase)
    \<and> (\<forall>i \<in> fst ` set inPhase. \<exists>n. 0 < n \<and> n \<le> k \<and> n < length phases \<and> phase_event_id (phases ! n) = i \<and> phase_kind (phases ! n) = In_transit)"
  using assms(2,4)
proof (induction k arbitrary: afterPhase inPhase)
  case (Suc k)
  obtain a b where ab: "fold (move_into_leg phases) [0..<k] (slots, []) = (a, b)" by fastforce
  have ih: "mset (slot_events a) + mset (slot_events b) = mset (slot_events slots)" "distinct (map fst a)"
    "\<forall>i \<in> fst ` set b. \<exists>n. 0 < n \<and> n \<le> k \<and> n < length phases \<and> phase_event_id (phases ! n) = i \<and> phase_kind (phases ! n) = In_transit"
    using Suc.IH [OF _ ab] Suc.prems(1) by simp_all
  have step: "move_into_leg phases k (a, b) = (afterPhase, inPhase)" using Suc.prems(2) ab by simp
  let ?next = "Suc k < length phases \<and> phase_kind (phases ! Suc k) = In_transit"
  show ?case
  proof (cases "if ?next then map_of a (phase_event_id (phases ! k)) else None")
    case None
    then have "afterPhase = a" "inPhase = b" using step by (auto simp: move_into_leg_def Let_def split: if_splits)
    then show ?thesis using ih by (auto intro: le_SucI)
  next
    case (Some slot)
    let ?i = "phase_event_id (phases ! k)" and ?j = "phase_event_id (phases ! Suc k)"
    have nxt: ?next "map_of a ?i = Some slot" using Some by (simp_all split: if_splits)
    then have r: "afterPhase = AList.delete ?i a" "inPhase = AList.update ?j slot b"
      using step by (simp_all add: move_into_leg_def Let_def)
    have "?j \<notin> fst ` set b"
    proof
      assume "?j \<in> fst ` set b"
      then obtain n where "n \<le> k" "n < length phases" "phase_event_id (phases ! n) = ?j" using ih(3) by blast
      then show False using assms(1) nxt(1) nth_eq_iff_index_eq [OF assms(1), of n "Suc k"] by simp
    qed
    then have "mset (slot_events afterPhase) + mset (slot_events inPhase) = mset (slot_events slots)"
      using ih(1) slot_events_delete [OF ih(2) nxt(2)] by (simp add: r slot_events_new ac_simps)
    moreover have "\<forall>i \<in> fst ` set inPhase. \<exists>n. 0 < n \<and> n \<le> Suc k \<and> n < length phases \<and> phase_event_id (phases ! n) = i \<and> phase_kind (phases ! n) = In_transit"
      using ih(3) nxt(1) unfolding r dom_update by (auto intro: le_SucI)
    ultimately show ?thesis using ih(2) by (simp add: r distinct_delete)
  qed
qed (use assms(3) in \<open>simp add: slot_events_def\<close>)

text \<open>
  No hijacking and no change of driver disappears between the cards: every transfer and every incident of the
  trip has exactly one place (before the first phase, after one, inside a leg, or among the unplaced), a record
  the server sent twice is kept once, nothing is added, and only In Transit cards hold events inside.
\<close>

theorem every_event_has_one_place:
  assumes "distinct (map phase_event_id phases)"
  shows "distinct (map tripEventKey (placed_events (positionTripEvents L phases transfers incidents)))
    \<and> tripEventKey ` set (placed_events (positionTripEvents L phases transfers incidents))
        = tripEventKey ` (Transfer_event ` set transfers \<union> Incident_event ` set incidents)
    \<and> set (placed_events (positionTripEvents L phases transfers incidents)) \<subseteq> Transfer_event ` set transfers \<union> Incident_event ` set incidents
    \<and> (\<forall>i \<in> fst ` set (tp_inPhase (positionTripEvents L phases transfers incidents)).
        \<exists>n < length phases. phase_event_id (phases ! n) = i \<and> phase_kind (phases ! n) = In_transit)"
proof -
  let ?events = "map Transfer_event transfers @ map Incident_event incidents"
  let ?placed = "positionTimelineEvents L phases ?events tripEventTime tripEventKey (Some tieBreak)"
  obtain a b where ab: "fold (move_into_leg phases) [0..<length phases] (tp_afterPhase ?placed, []) = (a, b)" by fastforce
  note keeps = move_into_leg_keeps [OF assms order_refl slots_distinct ab]
  have p: "positionTripEvents L phases transfers incidents
      = \<lparr>tp_beforeFirst = tp_beforeFirst ?placed, tp_afterPhase = a, tp_unplaced = tp_unplaced ?placed, tp_inPhase = b\<rparr>"
    by (simp add: positionTripEvents_def Let_def ab)
  have m: "mset (placed_events (positionTripEvents L phases transfers incidents)) = mset (all_events ?placed)"
    using keeps by (simp add: p placed_events_def all_events_def add.assoc [symmetric])
  note once = events_placed_once [where events = ?events and L = L and phases = phases and timeOf = tripEventTime and key = tripEventKey and tie = "Some tieBreak"]
  have "distinct (map tripEventKey (placed_events (positionTripEvents L phases transfers incidents)))"
    using once(1) m by (metis mset_eq_imp_distinct_iff mset_map)
  then show ?thesis using once(2,3) mset_eq_setD [OF m] keeps by (auto simp: p)
qed

text \<open>
  A place on the timeline is never invented: a driver transfer stands after a phase only when that phase was
  closed at or before it, every earlier phase is closed too and every later closed one was closed after it; it stands first only when it
  precedes every closing. With no consistent record of closings it is not placed at all.
\<close>

theorem transfer_position_is_proven:
  "well_placed L phases dt_effective_at (positionDriverTransfers L phases transfers)
    \<and> (\<not> consistent (boundaries L phases) \<longrightarrow> tp_beforeFirst (positionDriverTransfers L phases transfers) = []
        \<and> tp_afterPhase (positionDriverTransfers L phases transfers) = [])"
proof -
  have "\<not> consistent bs \<Longrightarrow> tp_beforeFirst (snd (fold (position_unseen L bs timeOf key) xs (seen, placement))) = tp_beforeFirst placement
      \<and> tp_afterPhase (snd (fold (position_unseen L bs timeOf key) xs (seen, placement))) = tp_afterPhase placement"
    for bs xs seen and placement :: "driver_transfer timeline_placement" and "timeOf" key
    by (induction xs arbitrary: seen placement) (simp_all add: position_unseen_def position_event_def)
  then show ?thesis using events_well_placed by (auto simp: positionDriverTransfers_def positionTimelineEvents_def)
qed

text \<open>A loading that was closed, the leg after it, and one incident that the server sent twice.\<close>

definition demo_incident :: incident_summary where
  "demo_incident = \<lparr>is_incident_id = ''i1'', is_reported_occurred_at = None, is_received_at = ''t22''\<rparr>"

definition demo_transfer :: driver_transfer where
  "demo_transfer = \<lparr>dt_substitution_id = ''s1'', dt_sequence_number = 1, dt_effective_at = ''never''\<rparr>"

definition demo_leg :: phase_descriptor where
  "demo_leg = (demo_phase In_transit 3 Ph_in_progress)\<lparr>phase_event_id := ''F''\<rparr>"

lemma every_event_has_one_place_witness:
  "length (placed_events (positionTripEvents demo_locale [demo_loading, demo_leg] [demo_transfer] [demo_incident, demo_incident])) = 2"
proof -
  have d: "distinct (map phase_event_id [demo_loading, demo_leg])" by (simp add: demo_loading_def demo_leg_def demo_phase_def)
  let ?es = "placed_events (positionTripEvents demo_locale [demo_loading, demo_leg] [demo_transfer] [demo_incident, demo_incident])"
  note once = every_event_has_one_place [OF d, of demo_locale "[demo_transfer]" "[demo_incident, demo_incident]"]
  have "set (map tripEventKey ?es) = {tripEventKey (Transfer_event demo_transfer), tripEventKey (Incident_event demo_incident)}"
    using once by auto
  then have "card (set (map tripEventKey ?es)) = 2" by simp
  moreover have "distinct (map tripEventKey ?es)" using once by blast
  ultimately show ?thesis using distinct_card [of "map tripEventKey ?es"] by simp
qed

lemma transfer_position_is_proven_witness:
  "tp_beforeFirst (positionDriverTransfers demo_locale [demo_leg] [demo_transfer]) = []"
proof -
  have "boundaries demo_locale [demo_leg] = []"
    by (simp add: boundaries_def List.map_filter_simps is_resolved_iff) (simp add: demo_leg_def demo_phase_def)
  then have "\<not> consistent (boundaries demo_locale [demo_leg])" by (simp add: consistent_def)
  then show ?thesis using transfer_position_is_proven [of demo_locale "[demo_leg]" "[demo_transfer]"] by blast
qed

end
