(* ===== verification/CardRows.thy ===== *)
theory CardRows
  imports TripEvents PhaseChecks
begin

text \<open>
  What a phase card shows of its rows: the exception rows under the cap (\<open>dispatcher/lib/phase/exception-rows.ts\<close>), the uploads
  grouped by role (\<open>act-groups.ts\<close>), the clocks a row names (\<open>act-wording.ts\<close>) and the layout (\<open>layout.ts\<close>).
\<close>

section \<open>Exception rows\<close>

definition EXCEPTION_ROW_CAP :: nat where "EXCEPTION_ROW_CAP = 3"

fun SEVERITY_RANK :: "exception_severity \<Rightarrow> nat" where
  "SEVERITY_RANK Critical = 0"
| "SEVERITY_RANK Warning = 1"
| "SEVERITY_RANK Info = 2"

definition isTripLevelException :: "trip_exception \<Rightarrow> string set \<Rightarrow> bool" where
  "isTripLevelException x phaseIds \<longleftrightarrow> (case te_phase_event_id x of None \<Rightarrow> True | Some i \<Rightarrow> i = [] \<or> i \<notin> phaseIds)"

definition NEEDS_REVIEW_RANK :: nat where "NEEDS_REVIEW_RANK = 0"
definition OTHER_RANK :: nat where "OTHER_RANK = 1"

definition review_rank :: "trip_exception \<Rightarrow> nat" where
  "review_rank x = (if te_review_status x = Needs_review then NEEDS_REVIEW_RANK else OTHER_RANK)"

definition compareByUrgency :: "js_locale \<Rightarrow> trip_exception \<Rightarrow> trip_exception \<Rightarrow> number" where
  "compareByUrgency L a b = num_or (Some (real (review_rank a) - real (review_rank b)))
     (num_or (Some (real (SEVERITY_RANK (te_severity a)) - real (SEVERITY_RANK (te_severity b))))
       (num_or (time_gap L (te_created_at b) (te_created_at a)) (localeCompare L (te_id a) (te_id b))))"

record visible_exceptions =
  ve_visibleIds :: "string list"
  ve_hiddenCount :: nat

definition visibleExceptions :: "js_locale \<Rightarrow> trip_exception list \<Rightarrow> string option \<Rightarrow> nat \<Rightarrow> visible_exceptions" where
  "visibleExceptions L exceptions pinnedId cap = (let ranked = js_sort (compareByUrgency L) exceptions;
       kept = map te_id (take cap ranked)
     in \<lparr>ve_visibleIds = (case pinnedId of
           None \<Rightarrow> kept
         | Some p \<Rightarrow> if list_ex (\<lambda>x. te_id x = p) exceptions \<and> p \<notin> set kept \<and> length kept > 0 then kept[length kept - 1 := p] else kept),
         ve_hiddenCount = length exceptions - cap\<rparr>)"

text \<open>\<open>position(a) - position(b)\<close>: a record of no phase is at infinity, and only the sign of a difference counts.\<close>

definition plan_position :: "phase_descriptor list \<Rightarrow> trip_exception \<Rightarrow> int option" where
  "plan_position phases x = (case te_phase_event_id x of None \<Rightarrow> None
     | Some i \<Rightarrow> if i = [] then None else map_option sequence_number (by_id phase_event_id phases i))"

fun position_gap :: "int option \<Rightarrow> int option \<Rightarrow> number option" where
  "position_gap (Some a) (Some b) = Some (of_int (a - b))"
| "position_gap None (Some b) = Some 1"
| "position_gap (Some a) None = Some (-1)"
| "position_gap None None = None"

definition compareByPlan :: "js_locale \<Rightarrow> phase_descriptor list \<Rightarrow> (trip_exception \<Rightarrow> string) \<Rightarrow> trip_exception \<Rightarrow> trip_exception \<Rightarrow> number" where
  "compareByPlan L phases timeOf a b = num_or (position_gap (plan_position phases a) (plan_position phases b))
     (num_or (time_gap L (timeOf a) (timeOf b)) (localeCompare L (te_id a) (te_id b)))"

definition firstUnreviewedException :: "js_locale \<Rightarrow> phase_descriptor list \<Rightarrow> trip_exception list \<Rightarrow> (trip_exception \<Rightarrow> string) \<Rightarrow> trip_exception option" where
  "firstUnreviewedException L phases exceptions timeOf =
     (case js_sort (compareByPlan L phases timeOf) (filter (\<lambda>x. te_review_status x = Needs_review) exceptions) of
        [] \<Rightarrow> None | x # _ \<Rightarrow> Some x)"

section \<open>Clocks\<close>

datatype clock_source = Device_clock | Server_clock

record recorded_time =
  rt_at :: "string option"
  rt_source :: "clock_source option"

definition evidenceTimes :: "js_locale \<Rightarrow> evidence_row \<Rightarrow> recorded_time list" where
  "evidenceTimes L row =
     (if er_provenance row = From_receiver \<and> er_role row = Pod_signature
      then [\<lparr>rt_at = er_receivedAt row, rt_source = (if present (er_receivedAt row) then Some Server_clock else None)\<rparr>]
      else if \<not> er_metadataAvailable row \<or> er_takenAt row = None then [\<lparr>rt_at = None, rt_source = None\<rparr>]
      else \<lparr>rt_at = er_takenAt row, rt_source = Some Device_clock\<rparr>
        # (if present (er_receivedAt row) \<and> showsReceivedTime L (er_takenAt row) (er_receivedAt row)
           then [\<lparr>rt_at = er_receivedAt row, rt_source = Some Server_clock\<rparr>] else []))"

definition completionTimes :: "js_locale \<Rightarrow> completion_row \<Rightarrow> recorded_time list" where
  "completionTimes L row = (case cr_confirmedAt row of
       None \<Rightarrow> [\<lparr>rt_at = Some (cr_recordedAt row), rt_source = Some Server_clock\<rparr>]
     | Some confirmed \<Rightarrow> \<lparr>rt_at = Some confirmed, rt_source = Some Device_clock\<rparr>
         # (if showsReceivedTime L (Some confirmed) (Some (cr_recordedAt row))
            then [\<lparr>rt_at = Some (cr_recordedAt row), rt_source = Some Server_clock\<rparr>] else []))"

section \<open>Groups of uploads\<close>

datatype act_item = Evidence_group string evidence_role "phase_act list" | Single_act phase_act

fun evidence_role_of :: "act_body \<Rightarrow> evidence_role option" where
  "evidence_role_of (Evidence r) = Some (er_role r)"
| "evidence_role_of _ = None"

fun is_submitted :: "act_body \<Rightarrow> bool" where
  "is_submitted (Evidence r) = (er_state r = Submitted)"
| "is_submitted _ = False"

definition uploads_of_role :: "phase_act list \<Rightarrow> evidence_role \<Rightarrow> phase_act list" where
  "uploads_of_role acts role = filter (\<lambda>a. evidence_role_of (pa_body a) = Some role) acts"

definition submitted_first :: "phase_act list \<Rightarrow> phase_act list" where
  "submitted_first acts = sort_key (\<lambda>a. if is_submitted (pa_body a) then (0::nat) else 1) acts"

fun group_from :: "phase_act list \<Rightarrow> evidence_role set \<Rightarrow> phase_act list \<Rightarrow> act_item list" where
  "group_from all placed [] = []"
| "group_from all placed (act # acts) = (case evidence_role_of (pa_body act) of
       None \<Rightarrow> Single_act act # group_from all placed acts
     | Some role \<Rightarrow> if role \<in> placed then group_from all placed acts
         else Evidence_group (pa_key act @ '':group'') role (submitted_first (uploads_of_role all role)) # group_from all (insert role placed) acts)"

definition groupActs :: "phase_act list \<Rightarrow> act_item list" where
  "groupActs acts = group_from acts {} acts"

definition isUntimedSubmittedEvidence :: "js_locale \<Rightarrow> act_item \<Rightarrow> bool" where
  "isUntimedSubmittedEvidence L item = (case item of
       Evidence_group _ _ acts \<Rightarrow> list_all (\<lambda>a. case pa_body a of
           Evidence r \<Rightarrow> er_state r = Submitted \<and> list_all (\<lambda>t. rt_at t = None) (evidenceTimes L r) | _ \<Rightarrow> False) acts
     | Single_act _ \<Rightarrow> False)"

section \<open>Layout\<close>

datatype body_layout = Split | Stacked

definition SPLIT_MIN_PX :: number where "SPLIT_MIN_PX = 740"

definition chooseBodyLayout :: "number option \<Rightarrow> nat \<Rightarrow> phase_type \<Rightarrow> body_layout" where
  "chooseBodyLayout widthPx checkCount phaseType =
     (if phaseType = In_transit \<or> checkCount < 1 then Stacked
      else case widthPx of Some w \<Rightarrow> if w \<ge> SPLIT_MIN_PX then Split else Stacked | None \<Rightarrow> Stacked)"

definition realCheckCount :: "phase_check list \<Rightarrow> nat" where
  "realCheckCount checks = length (filter (\<lambda>c. ck_result c \<noteq> In_progress) checks)"

section \<open>The cap hides the least urgent\<close>

definition urgency :: "js_locale \<Rightarrow> trip_exception \<Rightarrow> nat \<times> nat \<times> number \<times> string" where
  "urgency L x = (review_rank x, SEVERITY_RANK (te_severity x), - the (parseDate L (te_created_at x)), collate L (te_id x))"

lemma localeCompare_le: "localeCompare L a b \<le> 0 \<longleftrightarrow> collate L a \<le> collate L b"
  by (auto simp: localeCompare_def)

lemma num_or_le: "num_or (Some d) rest \<le> 0 \<longleftrightarrow> d < 0 \<or> (d = 0 \<and> rest \<le> 0)"
  by (auto simp: num_or_def)

lemma compareByUrgency_le:
  assumes "parseDate L (te_created_at a) \<noteq> None" and "parseDate L (te_created_at b) \<noteq> None"
  shows "compareByUrgency L a b \<le> 0 \<longleftrightarrow> urgency L a \<le> urgency L b"
proof -
  obtain s t where st: "parseDate L (te_created_at a) = Some s" "parseDate L (te_created_at b) = Some t" using assms by blast
  then have "time_gap L (te_created_at b) (te_created_at a) = Some (t - s)" by (simp add: time_gap_def)
  then show ?thesis using st
    by (auto simp: compareByUrgency_def num_or_le localeCompare_le urgency_def less_eq_prod_simp)
qed

lemma sorted_take_drop: "sorted (map f xs) \<Longrightarrow> x \<in> set (take k xs) \<Longrightarrow> y \<in> set (drop k xs) \<Longrightarrow> f x \<le> f y"
  using sorted_append [of "map f (take k xs)" "map f (drop k xs)"] by (auto simp flip: map_append)

definition visible :: "js_locale \<Rightarrow> trip_exception list \<Rightarrow> string option \<Rightarrow> nat \<Rightarrow> string set" where
  "visible L xs pin cap = set (ve_visibleIds (visibleExceptions L xs pin cap))"

text \<open>The rows shown are a prefix of the ranking, of which the last may have made room for the pinned one.\<close>

lemma visible_prefix:
  assumes "distinct (map te_id xs)" and "0 < cap"
  obtains k where "te_id ` set (take k (js_sort (compareByUrgency L) xs)) \<subseteq> visible L xs pin cap"
    and "visible L xs pin cap \<subseteq> te_id ` set (take k (js_sort (compareByUrgency L) xs)) \<union> {i. pin = Some i \<and> i \<in> te_id ` set xs}"
    and "card (visible L xs pin cap) = min cap (length xs)"
    and "\<And>i. pin = Some i \<Longrightarrow> i \<in> te_id ` set xs \<Longrightarrow> i \<in> visible L xs pin cap"
proof -
  let ?r = "js_sort (compareByUrgency L) xs"
  define kept where "kept = map te_id (take cap ?r)"
  have d: "distinct (map te_id ?r)" using assms(1) by (metis js_sort_mset mset_eq_imp_distinct_iff mset_map)
  then have dk: "distinct kept" unfolding kept_def by (simp add: distinct_take flip: take_map)
  have lk: "length kept = min cap (length xs)" by (simp add: kept_def min.commute)
  have vis: "visible L xs pin cap = set (case pin of None \<Rightarrow> kept
      | Some p \<Rightarrow> if list_ex (\<lambda>x. te_id x = p) xs \<and> p \<notin> set kept \<and> length kept > 0 then kept[length kept - 1 := p] else kept)"
    unfolding visible_def visibleExceptions_def Let_def kept_def by (simp only: visible_exceptions.simps)
  show thesis
  proof (cases "\<exists>p. pin = Some p \<and> list_ex (\<lambda>x. te_id x = p) xs \<and> p \<notin> set kept \<and> length kept > 0")
    case True
    then obtain p where p: "pin = Some p" "list_ex (\<lambda>x. te_id x = p) xs" "p \<notin> set kept" "length kept > 0" by blast
    have upd: "kept[length kept - 1 := p] = butlast kept @ [p]"
      using p(4) by (metis append_butlast_last_id length_butlast length_greater_0_conv list_update_length)
    have v: "visible L xs pin cap = insert p (set (butlast kept))" unfolding vis using p upd by simp
    have "take n kept = map te_id (take (min n cap) ?r)" for n by (simp add: kept_def take_map)
    moreover have "min (length kept - 1) cap = length kept - 1" using lk by simp
    ultimately have bl: "butlast kept = map te_id (take (length kept - 1) ?r)" by (simp only: butlast_conv_take)
    show thesis
    proof (rule that [of "length kept - 1"])
      show "te_id ` set (take (length kept - 1) ?r) \<subseteq> visible L xs pin cap" by (simp add: v bl subset_insertI)
      show "visible L xs pin cap \<subseteq> te_id ` set (take (length kept - 1) ?r) \<union> {i. pin = Some i \<and> i \<in> te_id ` set xs}"
        unfolding v bl using p(1,2) by (auto simp: list_ex_iff)
      have "card (set (butlast kept)) = length kept - 1" using dk by (simp add: distinct_butlast distinct_card)
      moreover have "p \<notin> set (butlast kept)" using p(3) by (meson in_set_butlastD)
      ultimately show "card (visible L xs pin cap) = min cap (length xs)" using p(4) lk by (simp add: v)
      show "\<And>i. pin = Some i \<Longrightarrow> i \<in> te_id ` set xs \<Longrightarrow> i \<in> visible L xs pin cap" unfolding v using p(1) by simp
    qed
  next
    case False
    then have v: "visible L xs pin cap = set kept" unfolding vis by (auto split: option.split)
    show thesis
    proof (rule that [of cap])
      show "card (visible L xs pin cap) = min cap (length xs)" using distinct_card [OF dk] lk by (simp add: v)
      fix i assume i: "pin = Some i" "i \<in> te_id ` set xs"
      then have "xs \<noteq> []" "list_ex (\<lambda>x. te_id x = i) xs" by (auto simp: list_ex_iff)
      then have "i \<in> set kept" using False i(1) assms(2) lk by (metis length_greater_0_conv min_less_iff_conj)
      then show "i \<in> visible L xs pin cap" by (simp only: v)
    qed (simp_all add: v kept_def subset_Un_eq)
  qed
qed

text \<open>
  The cap on the rows of a card hides the least urgent: as many rows are shown as the cap allows, what is hidden is
  counted exactly, a pinned record is always shown, and no hidden record needs review more, or is more severe
  at the same review state, than a shown one that is not the pinned one.
\<close>

theorem cap_hides_the_least_urgent:
  assumes "distinct (map te_id xs)" and "0 < cap" and "\<forall>x \<in> set xs. parseDate L (te_created_at x) \<noteq> None"
  shows "card (visible L xs pin cap) = min cap (length xs)
    \<and> ve_hiddenCount (visibleExceptions L xs pin cap) = length xs - card (visible L xs pin cap)
    \<and> visible L xs pin cap \<subseteq> te_id ` set xs
    \<and> (\<forall>i \<in> te_id ` set xs. pin = Some i \<longrightarrow> i \<in> visible L xs pin cap)
    \<and> (\<forall>x \<in> set xs. \<forall>y \<in> set xs. te_id x \<in> visible L xs pin cap \<and> pin \<noteq> Some (te_id x) \<and> te_id y \<notin> visible L xs pin cap
        \<longrightarrow> (review_rank x, SEVERITY_RANK (te_severity x)) \<le> (review_rank y, SEVERITY_RANK (te_severity y)))"
proof -
  let ?r = "js_sort (compareByUrgency L) xs"
  obtain k where k: "te_id ` set (take k ?r) \<subseteq> visible L xs pin cap"
    "visible L xs pin cap \<subseteq> te_id ` set (take k ?r) \<union> {i. pin = Some i \<and> i \<in> te_id ` set xs}"
    "card (visible L xs pin cap) = min cap (length xs)" "\<And>i. pin = Some i \<Longrightarrow> i \<in> te_id ` set xs \<Longrightarrow> i \<in> visible L xs pin cap"
    using visible_prefix [OF assms(1,2), of L pin] by blast
  have "?r = sort_key (urgency L) xs" by (rule js_sort_key) (use assms(3) compareByUrgency_le in blast)
  then have s: "sorted (map (urgency L) ?r)" by simp
  have inj: "x = y" if "x \<in> set xs" "y \<in> set xs" "te_id x = te_id y" for x y
    using that assms(1) by (auto simp: distinct_map inj_on_def)
  have "(review_rank x, SEVERITY_RANK (te_severity x)) \<le> (review_rank y, SEVERITY_RANK (te_severity y))"
    if "x \<in> set xs" "y \<in> set xs" "te_id x \<in> visible L xs pin cap" "pin \<noteq> Some (te_id x)" "te_id y \<notin> visible L xs pin cap" for x y
  proof -
    have "te_id x \<in> te_id ` set (take k ?r)" using k(2) that(3,4) by auto
    then obtain z where z: "z \<in> set (take k ?r)" "te_id x = te_id z" by blast
    then have "z \<in> set xs" using in_set_takeD by fastforce
    then have x: "x \<in> set (take k ?r)" using inj [OF that(1)] z by simp
    have "y \<notin> set (take k ?r)" using k(1) that(5) by blast
    moreover have "y \<in> set (take k ?r) \<union> set (drop k ?r)" using that(2) by (metis append_take_drop_id js_sort_set set_append)
    ultimately have "urgency L x \<le> urgency L y" using sorted_take_drop [OF s x] by blast
    then show ?thesis by (auto simp: urgency_def less_eq_prod_simp)
  qed
  moreover have "visible L xs pin cap \<subseteq> te_id ` set xs"
    using k(2) set_take_subset [of k ?r] by fastforce
  moreover have "ve_hiddenCount (visibleExceptions L xs pin cap) = length xs - card (visible L xs pin cap)"
    by (simp add: k(3) visibleExceptions_def Let_def)
  moreover have "\<forall>i \<in> te_id ` set xs. pin = Some i \<longrightarrow> i \<in> visible L xs pin cap" using k(4) by simp
  ultimately show ?thesis using k(3) by simp
qed

lemma cap_hides_the_least_urgent_witness:
  "let xs = [demo_finding, demo_finding\<lparr>te_id := ''x2'', te_review_status := Reviewed\<rparr>] in visible demo_locale xs None 1 = {''x1''}"
proof -
  let ?y = "demo_finding\<lparr>te_id := ''x2'', te_review_status := Reviewed\<rparr>"
  have d: "distinct (map te_id [demo_finding, ?y])" by (simp add: demo_finding_def)
  have p: "\<forall>x \<in> set [demo_finding, ?y]. parseDate demo_locale (te_created_at x) \<noteq> None" by (simp add: demo_finding_def demo_locale_def)
  note all = cap_hides_the_least_urgent [OF d zero_less_one p, of None]
  then have sub: "visible demo_locale [demo_finding, ?y] None 1 \<subseteq> {''x1'', ''x2''}" "card (visible demo_locale [demo_finding, ?y] None 1) = 1"
    by (simp_all add: demo_finding_def)
  have "te_id ?y \<in> visible demo_locale [demo_finding, ?y] None 1 \<Longrightarrow> te_id demo_finding \<in> visible demo_locale [demo_finding, ?y] None 1"
  proof (rule ccontr)
    assume "te_id ?y \<in> visible demo_locale [demo_finding, ?y] None 1" "te_id demo_finding \<notin> visible demo_locale [demo_finding, ?y] None 1"
    then have "(review_rank ?y, SEVERITY_RANK (te_severity ?y)) \<le> (review_rank demo_finding, SEVERITY_RANK (te_severity demo_finding))"
      using bspec [OF bspec [OF conjunct2 [OF conjunct2 [OF conjunct2 [OF conjunct2 [OF all]]]], of ?y], of demo_finding] by simp
    then show False by (simp add: demo_finding_def review_rank_def NEEDS_REVIEW_RANK_def OTHER_RANK_def)
  qed
  then have "''x2'' \<in> visible demo_locale [demo_finding, ?y] None 1 \<Longrightarrow> ''x1'' \<in> visible demo_locale [demo_finding, ?y] None 1"
    by (simp add: demo_finding_def)
  moreover obtain i where i: "visible demo_locale [demo_finding, ?y] None 1 = {i}" using sub(2) card_1_singletonE by blast
  moreover have "i = ''x1'' \<or> i = ''x2''" using sub(1) unfolding i by blast
  ultimately show ?thesis unfolding Let_def i by blast
qed

definition position_key :: "phase_descriptor list \<Rightarrow> trip_exception \<Rightarrow> nat \<times> int" where
  "position_key phases x = (case plan_position phases x of Some n \<Rightarrow> (0, n) | None \<Rightarrow> (1, 0))"

definition plan_key :: "js_locale \<Rightarrow> phase_descriptor list \<Rightarrow> (trip_exception \<Rightarrow> string) \<Rightarrow> trip_exception \<Rightarrow> (nat \<times> int) \<times> number \<times> string" where
  "plan_key L phases timeOf x = (position_key phases x, the (parseDate L (timeOf x)), collate L (te_id x))"

lemma compareByPlan_le:
  assumes "parseDate L (timeOf a) \<noteq> None" and "parseDate L (timeOf b) \<noteq> None"
  shows "compareByPlan L phases timeOf a b \<le> 0 \<longleftrightarrow> plan_key L phases timeOf a \<le> plan_key L phases timeOf b"
proof -
  obtain s t where st: "parseDate L (timeOf a) = Some s" "parseDate L (timeOf b) = Some t" using assms by blast
  then have g: "time_gap L (timeOf a) (timeOf b) = Some (s - t)" by (simp add: time_gap_def)
  have n: "num_or None rest = rest" for rest by (simp add: num_or_def)
  show ?thesis using st
    by (cases "plan_position phases a"; cases "plan_position phases b")
      (auto simp: compareByPlan_def g n num_or_le localeCompare_le plan_key_def position_key_def less_eq_prod_simp less_prod_simp)
qed

text \<open>
  The chip of a trip leads to the record the dispatcher meets first: it names a record exactly when one waits for
  review, and the one it names waits itself and lies in the earliest phase of the plan that holds one, before any record of no phase.
\<close>

theorem first_unreviewed_is_first:
  assumes "\<forall>x \<in> set xs. parseDate L (timeOf x) \<noteq> None"
  shows "(firstUnreviewedException L phases xs timeOf = None \<longleftrightarrow> (\<forall>x \<in> set xs. te_review_status x \<noteq> Needs_review))
    \<and> (\<forall>x. firstUnreviewedException L phases xs timeOf = Some x \<longrightarrow> x \<in> set xs \<and> te_review_status x = Needs_review
        \<and> (\<forall>y \<in> set xs. te_review_status y = Needs_review \<longrightarrow> plan_key L phases timeOf x \<le> plan_key L phases timeOf y))"
proof -
  let ?w = "filter (\<lambda>x. te_review_status x = Needs_review) xs" and ?k = "plan_key L phases timeOf"
  have "js_sort (compareByPlan L phases timeOf) ?w = sort_key ?k ?w"
  proof (rule js_sort_key)
    fix a b assume "a \<in> set ?w" "b \<in> set ?w"
    then have "parseDate L (timeOf a) \<noteq> None" "parseDate L (timeOf b) \<noteq> None" using assms by auto
    then show "compareByPlan L phases timeOf a b \<le> 0 \<longleftrightarrow> ?k a \<le> ?k b" by (rule compareByPlan_le)
  qed
  then have f: "firstUnreviewedException L phases xs timeOf = (case sort_key ?k ?w of [] \<Rightarrow> None | x # _ \<Rightarrow> Some x)"
    by (simp add: firstUnreviewedException_def)
  have e: "set (sort_key ?k ?w) = set ?w" by simp
  show ?thesis
  proof (cases "sort_key ?k ?w")
    case Nil
    then have "\<forall>x \<in> set xs. te_review_status x \<noteq> Needs_review" using e by auto
    then show ?thesis using f Nil by simp
  next
    case (Cons x rest)
    have x: "x \<in> set xs" "te_review_status x = Needs_review" using e Cons by auto
    have "sorted (map ?k (x # rest))" using Cons sorted_sort_key [of ?k ?w] by simp
    then have "\<forall>y \<in> set (x # rest). ?k x \<le> ?k y" by auto
    then have "\<forall>y \<in> set ?w. ?k x \<le> ?k y" using e Cons by metis
    then show ?thesis using f Cons x by auto
  qed
qed

lemma first_unreviewed_is_first_witness:
  "firstUnreviewedException demo_locale [demo_loading] [demo_finding] te_created_at = Some demo_finding"
proof -
  have "\<forall>x \<in> set [demo_finding]. parseDate demo_locale (te_created_at x) \<noteq> None" by (simp add: demo_finding_def demo_locale_def)
  note all = first_unreviewed_is_first [OF this, of "[demo_loading]"]
  have "te_review_status demo_finding = Needs_review" by (simp add: demo_finding_def)
  then have "firstUnreviewedException demo_locale [demo_loading] [demo_finding] te_created_at \<noteq> None" using all by simp
  then obtain x where "firstUnreviewedException demo_locale [demo_loading] [demo_finding] te_created_at = Some x" by blast
  then show ?thesis using all by auto
qed

section \<open>Grouping loses nothing\<close>

fun item_acts :: "act_item \<Rightarrow> phase_act list" where
  "item_acts (Evidence_group _ _ acts) = acts"
| "item_acts (Single_act act) = [act]"

fun item_role :: "act_item \<Rightarrow> evidence_role option" where
  "item_role (Evidence_group _ role _) = Some role"
| "item_role (Single_act _) = None"

definition shown_acts :: "act_item list \<Rightarrow> phase_act list" where
  "shown_acts items = concat (map item_acts items)"

text \<open>The roles whose group is still to come.\<close>

fun roles_from :: "evidence_role set \<Rightarrow> phase_act list \<Rightarrow> evidence_role list" where
  "roles_from placed [] = []"
| "roles_from placed (act # acts) = (case evidence_role_of (pa_body act) of
       None \<Rightarrow> roles_from placed acts
     | Some role \<Rightarrow> if role \<in> placed then roles_from placed acts else role # roles_from (insert role placed) acts)"

lemma roles_from_distinct: "distinct (roles_from placed acts) \<and> set (roles_from placed acts) \<inter> placed = {}"
  by (induction placed acts rule: roles_from.induct) (auto split: option.split)

lemma roles_from_set: "set (roles_from placed acts) = {role. \<exists>a \<in> set acts. evidence_role_of (pa_body a) = Some role} - placed"
  by (induction placed acts rule: roles_from.induct) (auto split: option.split)

lemma group_roles: "List.map_filter item_role (group_from all placed acts) = roles_from placed acts"
  by (induction all placed acts rule: group_from.induct) (auto simp: List.map_filter_simps split: option.split)

lemma group_mset: "mset (shown_acts (group_from all placed acts)) = mset (filter (\<lambda>a. evidence_role_of (pa_body a) = None) acts)
    + sum_list (map (\<lambda>role. mset (uploads_of_role all role)) (roles_from placed acts))"
  by (induction all placed acts rule: group_from.induct)
    (auto simp: shown_acts_def submitted_first_def split: option.split)

lemma uploads_by_role:
  "distinct roles \<Longrightarrow> sum_list (map (\<lambda>role. mset (uploads_of_role all role)) roles)
    = mset (filter (\<lambda>a. \<exists>role \<in> set roles. evidence_role_of (pa_body a) = Some role) all)"
proof (induction roles)
  case (Cons role roles)
  have "mset (filter (\<lambda>a. \<exists>r \<in> set (role # roles). evidence_role_of (pa_body a) = Some r) all)
      = mset (uploads_of_role all role) + mset (filter (\<lambda>a. \<exists>r \<in> set roles. evidence_role_of (pa_body a) = Some r) all)"
    unfolding uploads_of_role_def by (induction all) (use Cons.prems in auto)
  then show ?case using Cons by simp
qed simp

fun item_ok :: "phase_act list \<Rightarrow> act_item \<Rightarrow> bool" where
  "item_ok all (Evidence_group _ role acts) \<longleftrightarrow> acts = submitted_first (uploads_of_role all role)"
| "item_ok all (Single_act a) \<longleftrightarrow> evidence_role_of (pa_body a) = None"

lemma group_items: "item \<in> set (group_from all placed acts) \<Longrightarrow> item_ok all item"
  by (induction all placed acts rule: group_from.induct) (auto split: option.splits if_splits)

lemma group_sorted:
  assumes "item \<in> set (group_from all placed acts)"
  shows "sorted (map (\<lambda>a. if is_submitted (pa_body a) then (0::nat) else 1) (item_acts item))
      \<and> (\<forall>a \<in> set (item_acts item). evidence_role_of (pa_body a) = item_role item)"
  using group_items [OF assms]
proof (cases item)
  case (Evidence_group k role acts)
  have "sorted (map (\<lambda>a. if is_submitted (pa_body a) then (0::nat) else 1) (submitted_first (uploads_of_role all role)))"
    unfolding submitted_first_def by (rule sorted_sort_key)
  moreover have "\<forall>a \<in> set (submitted_first (uploads_of_role all role)). evidence_role_of (pa_body a) = Some role"
    by (simp add: submitted_first_def uploads_of_role_def)
  ultimately show ?thesis using group_items [OF assms] Evidence_group by simp
qed simp

text \<open>
  Uploads grouped for reading are the same uploads: the groups and rows together hold every row once, each role
  has at most one group, a group holds rows of its role only, and within it the submitted copies come first.
\<close>

theorem grouping_loses_nothing:
  "mset (shown_acts (groupActs acts)) = mset acts \<and> distinct (List.map_filter item_role (groupActs acts))
    \<and> list_all (\<lambda>item. sorted (map (\<lambda>a. if is_submitted (pa_body a) then (0::nat) else 1) (item_acts item))
        \<and> list_all (\<lambda>a. evidence_role_of (pa_body a) = item_role item) (item_acts item)) (groupActs acts)"
proof -
  have "(\<exists>role \<in> set (roles_from {} acts). evidence_role_of (pa_body a) = Some role) \<longleftrightarrow> evidence_role_of (pa_body a) \<noteq> None"
    if "a \<in> set acts" for a
    using that by (auto simp: roles_from_set)
  then have "filter (\<lambda>a. \<exists>role \<in> set (roles_from {} acts). evidence_role_of (pa_body a) = Some role) acts
      = filter (\<lambda>a. \<not> evidence_role_of (pa_body a) = None) acts" by (rule filter_cong [OF refl])
  then have "mset (shown_acts (groupActs acts)) = mset (filter (\<lambda>a. evidence_role_of (pa_body a) = None) acts)
      + mset (filter (\<lambda>a. \<not> evidence_role_of (pa_body a) = None) acts)"
    using group_mset [of acts "{}" acts] uploads_by_role [of "roles_from {} acts" acts] roles_from_distinct [of "{}" acts]
    by (simp add: groupActs_def)
  also have "\<dots> = mset acts" by (simp add: multiset_partition [symmetric])
  finally have "mset (shown_acts (groupActs acts)) = mset acts" .
  moreover have "distinct (List.map_filter item_role (groupActs acts))"
    using roles_from_distinct [of "{}" acts] by (simp add: groupActs_def group_roles)
  moreover have "\<forall>item \<in> set (groupActs acts). sorted (map (\<lambda>a. if is_submitted (pa_body a) then (0::nat) else 1) (item_acts item))
      \<and> (\<forall>a \<in> set (item_acts item). evidence_role_of (pa_body a) = item_role item)"
    unfolding groupActs_def using group_sorted by blast
  ultimately show ?thesis unfolding list_all_iff by blast
qed

end
