(* ===== verification/PhaseCard.thy ===== *)
theory PhaseCard
  imports PhaseVerdict CardRows
begin

text \<open>
  One phase card of the trip page: \<open>dispatcher/lib/phase/card.ts\<close>, which brings the rows, the checks and the verdict of a phase together,
  and the facts of the trip they are computed from (\<open>dispatcher/lib/phase/trip-detail.ts\<close>).
\<close>

section \<open>The trip\<close>

datatype trip_type = Loaded | Empty_leg

record trip_stop =
  st_id :: string
  st_precinct_id :: string
  st_sequence :: int

record consignment =
  cg_id :: string
  cg_parcel_count_expected :: "int option"
  cg_pickup_stop_id :: "string option"
  cg_delivery_stop_id :: "string option"
  cg_scanned_out_count :: int
  cg_scanned_in_count :: int

record trip =
  tr_id :: string
  tr_status :: coarse_trip_status
  tr_trip_type :: trip_type
  tr_stops :: "trip_stop list"
  tr_consignments :: "consignment list"
  tr_closed_at :: "string option"
  tr_phases :: "phase_descriptor list"

definition isTerminalTrip :: "trip \<Rightarrow> bool" where
  "isTerminalTrip trip \<longleftrightarrow> tr_status trip = Trip_closed \<or> tr_status trip = Trip_cancelled"

definition tripArrival :: "trip \<Rightarrow> string option" where
  "tripArrival trip = (case at_end (filter (\<lambda>p. phase_kind p = In_transit) (sortedPlan (tr_phases trip))) of
       Some lastTransit \<Rightarrow> if phase_state lastTransit = Ph_completed then completed_at lastTransit else None
     | None \<Rightarrow> None)"

definition tripConfirmation :: "trip \<Rightarrow> string option" where
  "tripConfirmation trip = (case at_end (filter (\<lambda>p. phase_kind p = Confirmation) (sortedPlan (tr_phases trip))) of
       Some confirmation \<Rightarrow> if phase_state confirmation \<in> {Ph_completed, Ph_exception} then completed_at confirmation else None
     | None \<Rightarrow> None)"

definition currentTripPhase :: "trip \<Rightarrow> phase_descriptor option" where
  "currentTripPhase trip = (if isTerminalTrip trip then None else activePhase (tr_phases trip))"

definition precinctAtPhase :: "trip \<Rightarrow> phase_descriptor \<Rightarrow> precinct list \<Rightarrow> precinct option" where
  "precinctAtPhase trip phase precincts = (case List.find (\<lambda>s. Some (st_id s) = trip_stop_id phase) (tr_stops trip) of
       None \<Rightarrow> None
     | Some stop \<Rightarrow> List.find (\<lambda>p. pr_id p = st_precinct_id stop) precincts)"

datatype direction = Inbound | Outbound
datatype count_field = Expected_count | Scanned_count

definition countAtStop :: "trip \<Rightarrow> phase_descriptor \<Rightarrow> direction \<Rightarrow> count_field \<Rightarrow> int option" where
  "countAtStop trip phase direction field =
     (let consignments = filter (\<lambda>c. (if direction = Inbound then cg_delivery_stop_id c else cg_pickup_stop_id c) = trip_stop_id phase) (tr_consignments trip)
      in if \<not> present (trip_stop_id phase) \<or> length consignments = 0 then None
         else if field = Expected_count \<and> list_ex (\<lambda>c. cg_parcel_count_expected c = None) consignments then None
         else Some (foldl (\<lambda>n c. n + (if field = Expected_count then (case cg_parcel_count_expected c of Some k \<Rightarrow> k | None \<Rightarrow> 0)
             else if direction = Inbound then cg_scanned_in_count c else cg_scanned_out_count c)) 0 consignments))"

definition bookedParcels :: "trip \<Rightarrow> int option" where
  "bookedParcels trip = (if tr_trip_type trip = Empty_leg then Some 0
     else if length (tr_consignments trip) = 0 \<or> list_ex (\<lambda>c. cg_parcel_count_expected c = None) (tr_consignments trip) then None
     else Some (foldl (\<lambda>n c. n + (case cg_parcel_count_expected c of Some k \<Rightarrow> k | None \<Rightarrow> 0)) 0 (tr_consignments trip)))"

section \<open>The card\<close>

datatype checked_zone = Zone_checks | Zone_awaiting | Zone_none

record card_input =
  pc_trip :: trip
  pc_phase :: phase_descriptor
  pc_precincts :: "precinct list"
  pc_artifacts :: "evidence_artifact list"
  pc_exceptions :: "trip_exception list"
  pc_consensusAt :: "string option"
  pc_nowMs :: number
  pc_tripEvents :: "trip_timeline_event list"

record card_model =
  cm_isActive :: bool
  cm_running :: bool
  cm_acts :: "phase_act list"
  cm_checks :: "phase_check list"
  cm_checkedZone :: checked_zone
  cm_verdict :: "phase_verdict option"
  cm_hasBody :: bool

definition EMPTY_MODEL :: card_model where
  "EMPTY_MODEL = \<lparr>cm_isActive = False, cm_running = False, cm_acts = [], cm_checks = [], cm_checkedZone = Zone_none, cm_verdict = None, cm_hasBody = True\<rparr>"

definition isRunning :: "trip \<Rightarrow> bool" where
  "isRunning trip \<longleftrightarrow> tr_status trip \<noteq> Trip_created \<and> tr_status trip \<noteq> Trip_closed \<and> tr_status trip \<noteq> Trip_cancelled"

definition checkedZoneFor :: "phase_descriptor \<Rightarrow> bool \<Rightarrow> bool \<Rightarrow> checked_zone" where
  "checkedZoneFor phase resolved live = (if phase_kind phase = In_transit then (if resolved \<or> live then Zone_checks else Zone_none)
     else if resolved then Zone_checks else if live then Zone_awaiting else Zone_none)"

definition checks_of_card :: "card_input \<Rightarrow> checks_input" where
  "checks_of_card input = (let trip = pc_trip input; phase = pc_phase input;
       isLoading = (phase_kind phase = Loading); isUnloading = (phase_kind phase = Unloading)
     in \<lparr>ci_phase = phase, ci_allPhases = tr_phases trip,
       ci_expectedCount = (if isLoading then countAtStop trip phase Outbound Expected_count
         else if isUnloading then countAtStop trip phase Inbound Expected_count else None),
       ci_liveScannedCount = (if isLoading then countAtStop trip phase Outbound Scanned_count
         else if isUnloading then countAtStop trip phase Inbound Scanned_count else None),
       ci_originScannedCount = originScannedCount (tr_phases trip), ci_precinct = precinctAtPhase trip phase (pc_precincts input)\<rparr>)"

definition checksFor :: "card_input \<Rightarrow> bool \<Rightarrow> phase_check list" where
  "checksFor input resolved = (if tr_status (pc_trip input) = Trip_cancelled \<and> \<not> resolved then []
     else buildPhaseChecks (checks_of_card input))"

definition legOf :: "trip \<Rightarrow> phase_descriptor \<Rightarrow> leg_times option" where
  "legOf trip phase = (if phase_kind phase \<noteq> In_transit then None
     else Some \<lparr>lt_departedAt = legDepartureAt (tr_phases trip) phase, lt_arrivedAt = completed_at phase\<rparr>)"

fun is_uploaded :: "act_body \<Rightarrow> bool" where
  "is_uploaded (Evidence r) = (er_state r = Uploaded)"
| "is_uploaded _ = False"

definition acts_of_card :: "card_input \<Rightarrow> bool \<Rightarrow> acts_input" where
  "acts_of_card input isActive = \<lparr>ai_phase = pc_phase input, ai_allPhases = tr_phases (pc_trip input), ai_isActive = isActive,
     ai_tripStatus = tr_status (pc_trip input), ai_tripClosedAt = tr_closed_at (pc_trip input), ai_artifacts = pc_artifacts input,
     ai_exceptions = pc_exceptions input, ai_consensusAt = pc_consensusAt input\<rparr>"

definition verdict_input_of_card :: "card_input \<Rightarrow> bool \<Rightarrow> phase_act list \<Rightarrow> phase_check list \<Rightarrow> verdict_input" where
  "verdict_input_of_card input isActive acts checks = \<lparr>vi_phase = pc_phase input, vi_checks = checks, vi_exceptions = pc_exceptions input,
     vi_uploads = length (filter (\<lambda>a. is_uploaded (pa_body a)) acts), vi_isActive = isActive, vi_tripStatus = tr_status (pc_trip input),
     vi_leg = legOf (pc_trip input) (pc_phase input), vi_nowMs = pc_nowMs input\<rparr>"

definition buildPhaseCardModel :: "js_locale \<Rightarrow> card_input \<Rightarrow> card_model" where
  "buildPhaseCardModel L input = (let trip = pc_trip input; phase = pc_phase input in
     if phase_kind phase = Trip_creation then EMPTY_MODEL\<lparr>cm_acts := buildExceptionActs L phase (pc_exceptions input) (pc_artifacts input)\<rparr>
     else let resolved = is_resolved phase; running = isRunning trip;
       isActive = (map_option phase_event_id (currentTripPhase trip) = Some (phase_event_id phase));
       live = isActive \<and> running;
       acts = withTripEventActs L (buildPhaseActs L (acts_of_card input isActive)) (pc_tripEvents input);
       checks = checksFor input resolved;
       baseVerdict = phaseVerdict L (verdict_input_of_card input isActive acts checks);
       eventReasons = tripEventReasons (pc_tripEvents input);
       verdict = (if length eventReasons > 0 then map_option (\<lambda>v. v\<lparr>vb_reasons := map R_event eventReasons @ vb_reasons v\<rparr>) baseVerdict else baseVerdict)
     in \<lparr>cm_isActive = isActive, cm_running = running, cm_acts = acts, cm_checks = checks, cm_checkedZone = checkedZoneFor phase resolved live,
         cm_verdict = verdict, cm_hasBody = resolved \<or> live \<or> length acts > 0\<rparr>)"

section \<open>Counts at a stop\<close>

lemma foldl_sum: "foldl (\<lambda>n c. n + f c) (z::int) xs = z + (\<Sum>c\<leftarrow>xs. f c)"
  by (induction xs arbitrary: z) (simp_all add: add.assoc)

text \<open>A count at a stop is the sum over its consignments, and unknown as soon as one is.\<close>

definition consignments_at :: "trip \<Rightarrow> phase_descriptor \<Rightarrow> direction \<Rightarrow> consignment list" where
  "consignments_at trip phase dir =
     filter (\<lambda>c. (if dir = Inbound then cg_delivery_stop_id c else cg_pickup_stop_id c) = trip_stop_id phase) (tr_consignments trip)"

definition expected_at :: "consignment list \<Rightarrow> int option" where
  "expected_at cs = (if cs = [] \<or> (\<exists>c \<in> set cs. cg_parcel_count_expected c = None) then None
     else Some (\<Sum>c\<leftarrow>cs. the (cg_parcel_count_expected c)))"

lemma expected_sum: "\<forall>c \<in> set cs. cg_parcel_count_expected c \<noteq> None \<Longrightarrow>
    (\<Sum>c\<leftarrow>cs. case cg_parcel_count_expected c of Some k \<Rightarrow> k | None \<Rightarrow> 0) = (\<Sum>c\<leftarrow>cs. the (cg_parcel_count_expected c))"
  by (induction cs) auto

lemma countAtStop_expected:
  "countAtStop trip phase dir Expected_count = (if present (trip_stop_id phase) then expected_at (consignments_at trip phase dir) else None)"
  using expected_sum [of "consignments_at trip phase dir"]
  by (simp add: countAtStop_def expected_at_def Let_def foldl_sum list_ex_iff flip: consignments_at_def) auto

lemma countAtStop_scanned:
  "countAtStop trip phase dir Scanned_count = (if present (trip_stop_id phase) \<and> consignments_at trip phase dir \<noteq> []
     then Some (\<Sum>c\<leftarrow>consignments_at trip phase dir. if dir = Inbound then cg_scanned_in_count c else cg_scanned_out_count c) else None)"
  by (simp add: countAtStop_def Let_def foldl_sum flip: consignments_at_def)

section \<open>What the card says and what was recorded\<close>

lemma buildPhaseChecks_nonempty:
  assumes "is_resolved (ci_phase input)" and "phase_kind (ci_phase input) \<notin> {Trip_creation, In_transit}"
  shows "buildPhaseChecks input \<noteq> []"
proof -
  have "locationChecks input \<noteq> []" by (simp add: locationChecks_def Let_def split: option.split)
  then show ?thesis using assms
    by (cases "phase_kind (ci_phase input)") (auto simp: buildPhaseChecks_def bypassedChecks_def resolvedChecks_def arrivalChecks_def Let_def)
qed

lemma checks_of_card_simps [simp]:
  "ci_phase (checks_of_card input) = pc_phase input" "ci_allPhases (checks_of_card input) = tr_phases (pc_trip input)"
  by (simp_all add: checks_of_card_def Let_def)

lemma verdict_input_simps [simp]:
  "vi_phase (verdict_input_of_card input b acts checks) = pc_phase input" "vi_checks (verdict_input_of_card input b acts checks) = checks"
  "vi_exceptions (verdict_input_of_card input b acts checks) = pc_exceptions input"
  "vi_tripStatus (verdict_input_of_card input b acts checks) = tr_status (pc_trip input)"
  by (simp_all add: verdict_input_of_card_def)

definition base_verdict :: "js_locale \<Rightarrow> card_input \<Rightarrow> phase_verdict option" where
  "base_verdict L input = (let isActive = (map_option phase_event_id (currentTripPhase (pc_trip input)) = Some (phase_event_id (pc_phase input)))
     in phaseVerdict L (verdict_input_of_card input isActive
       (withTripEventActs L (buildPhaseActs L (acts_of_card input isActive)) (pc_tripEvents input)) (checksFor input (is_resolved (pc_phase input)))))"

lemma card_outcome:
  assumes "phase_kind (pc_phase input) \<noteq> Trip_creation"
  shows "map_option vb_outcome (cm_verdict (buildPhaseCardModel L input)) = map_option vb_outcome (base_verdict L input)"
  using assms by (simp add: buildPhaseCardModel_def base_verdict_def Let_def option.map_comp comp_def)

lemma outcome_iff: "(\<exists>v. X = Some v \<and> vb_outcome v = w) \<longleftrightarrow> map_option vb_outcome X = Some w"
  by (cases X) auto

lemma not_running [simp]:
  "ck_result (truckGeofenceCheck e) \<noteq> In_progress"
  "driverProximityCheck e = Some c \<Longrightarrow> ck_result c \<noteq> In_progress"
  "ck_result (compareCounts k w baseline actual) \<noteq> In_progress"
  "ck_result (sealNumberCheck d a) \<noteq> In_progress"
  "ck_result (sealConditionCheck sc) \<noteq> In_progress"
  by (auto simp: truckGeofenceCheck_def driverProximityCheck_def compareCounts_def sealNumberCheck_def sealConditionCheck_def Let_def
      split: option.splits geofence_verdict.splits proximity_verdict.splits if_splits)

lemma locationChecks_settled [simp]: "list_all (\<lambda>c. ck_result c \<noteq> In_progress) (locationChecks input)"
  by (simp add: locationChecks_def Let_def split: option.split)

lemma no_running_check: "is_resolved (ci_phase input) \<Longrightarrow> list_all (\<lambda>c. ck_result c \<noteq> In_progress) (buildPhaseChecks input)"
  by (cases "phase_kind (ci_phase input)")
    (simp_all add: buildPhaseChecks_def bypassedChecks_def transitChecks_def resolvedChecks_def arrivalChecks_def parcelsCheck_def Let_def)

text \<open>
  Property C37. "Checks passed" on a card means what it says, and is said whenever it is true: a phase of a trip (other than its
  creation and the drive) gets the outcome clean exactly when it was completed, no exception is on record for it, and every fact
  its checks compare was recorded and agrees: the truck in the precinct, the driver with the truck where that was
  assessed, and per phase the parcels scanned equal to the bookings at that stop, the counts of both ends, the seals of departure
  and arrival, and the seal found intact.
\<close>

theorem checks_passed_means_recorded:
  assumes "phase_kind (pc_phase input) \<notin> {Trip_creation, In_transit}"
  shows "(\<exists>v. cm_verdict (buildPhaseCardModel L input) = Some v \<and> vb_outcome v = Out_clean)
    \<longleftrightarrow> phase_state (pc_phase input) = Ph_completed \<and> pc_exceptions input = [] \<and> recorded_facts (checks_of_card input)"
proof -
  let ?phase = "pc_phase input"
  have kind: "phase_kind ?phase \<noteq> Trip_creation" using assms by simp
  have card: "(\<exists>v. cm_verdict (buildPhaseCardModel L input) = Some v \<and> vb_outcome v = Out_clean) \<longleftrightarrow>
      (\<exists>v. base_verdict L input = Some v \<and> vb_outcome v = Out_clean)"
    unfolding outcome_iff card_outcome [OF kind] ..
  show ?thesis
  proof (cases "phase_state ?phase = Ph_completed")
    case True
    then have res: "is_resolved ?phase" by (simp add: is_resolved_iff)
    let ?checks = "buildPhaseChecks (checks_of_card input)"
    have c: "checksFor input (is_resolved ?phase) = ?checks" using res by (simp add: checksFor_def)
    have "list_all (\<lambda>c. ck_result c = Pass) ?checks \<longleftrightarrow> recorded_facts (checks_of_card input)"
      using checks_pass_on_recorded_facts [of "checks_of_card input"] res True assms by simp
    moreover have "?checks \<noteq> []" "list_all (\<lambda>c. ck_result c \<noteq> In_progress) ?checks"
      using buildPhaseChecks_nonempty [of "checks_of_card input"] no_running_check [of "checks_of_card input"] res assms by simp_all
    ultimately show ?thesis using True assms unfolding card
      by (simp add: base_verdict_def Let_def c clean_verdict_iff)
  next
    case False
    then show ?thesis unfolding card base_verdict_def Let_def by (auto dest!: clean_verdict)
  qed
qed

definition demo_card :: card_input where
  "demo_card = \<lparr>pc_trip = \<lparr>tr_id = ''T'', tr_status = Trip_active, tr_trip_type = Loaded, tr_stops = [], tr_consignments = [], tr_closed_at = None,
       tr_phases = [demo_phase Departure 2 Ph_completed]\<rparr>,
     pc_phase = (demo_phase Departure 2 Ph_completed)\<lparr>pulsit_geofence_confirmed := Some True\<rparr>, pc_precincts = [], pc_artifacts = [],
     pc_exceptions = [], pc_consensusAt = None, pc_nowMs = 0, pc_tripEvents = [Incident_event demo_incident]\<rparr>"

lemma checks_passed_means_recorded_witness:
  "\<exists>v. cm_verdict (buildPhaseCardModel demo_locale demo_card) = Some v \<and> vb_outcome v = Out_clean"
proof -
  have "phase_kind (pc_phase demo_card) \<notin> {Trip_creation, In_transit}" by (simp add: demo_card_def demo_phase_def)
  moreover have "recorded_facts (checks_of_card demo_card)"
    by (simp add: recorded_facts_def Let_def truck_was_inside_def driver_was_with_truck_def) (simp add: demo_card_def demo_phase_def)
  moreover have "phase_state (pc_phase demo_card) = Ph_completed" "pc_exceptions demo_card = []" by (simp_all add: demo_card_def demo_phase_def)
  ultimately show ?thesis using checks_passed_means_recorded [of demo_card demo_locale] by blast
qed

text \<open>The phase a cancelled trip did not reach claims nothing: no check, no verdict, nothing expected of anyone.\<close>

lemma unreached_phase_claims_nothing:
  assumes "tr_status (pc_trip input) = Trip_cancelled" and "\<not> is_resolved (pc_phase input)" and "phase_kind (pc_phase input) \<noteq> Trip_creation"
  shows "cm_checks (buildPhaseCardModel L input) = []" "cm_checkedZone (buildPhaseCardModel L input) = Zone_none"
    "cm_verdict (buildPhaseCardModel L input) = None" "\<not> cm_running (buildPhaseCardModel L input)"
proof -
  have r: "\<not> isRunning (pc_trip input)" using assms(1) by (simp add: isRunning_def)
  show "cm_checks (buildPhaseCardModel L input) = []" "cm_checkedZone (buildPhaseCardModel L input) = Zone_none"
    "\<not> cm_running (buildPhaseCardModel L input)"
    using assms r by (simp_all add: buildPhaseCardModel_def Let_def checksFor_def checkedZoneFor_def)
  have "base_verdict L input = None" using assms(1,2) by (simp add: base_verdict_def Let_def no_verdict)
  then show "cm_verdict (buildPhaseCardModel L input) = None" using card_outcome [OF assms(3), of L] by simp
qed

end
