(* ===== verification/LockProgress.thy ===== *)
theory LockProgress
  imports ReportLock
begin

text \<open>
  Progress of the per-report lock: in every infinite run in which whoever holds a report releases it in the end
  (\<open>submitExceptionReport\<close> and the flush release in \<open>finally\<close>), every caller that waits for the report gets it.
\<close>

section \<open>Runs\<close>

text \<open>At every instant one operation of the lock takes place, or none does.\<close>

definition lock_run :: "(nat \<Rightarrow> lock_world) \<Rightarrow> bool" where
  "lock_run run \<longleftrightarrow> run 0 = start \<and> (\<forall>n. lock_step (run n) (run (Suc n)) \<or> run (Suc n) = run n)"

definition releases_in_the_end :: "string \<Rightarrow> (nat \<Rightarrow> lock_world) \<Rightarrow> bool" where
  "releases_in_the_end i run \<longleftrightarrow> (\<forall>n t. (i, t) \<in> lw_holders (run n) \<longrightarrow> (\<exists>m \<ge> n. (i, t) \<notin> lw_holders (run m)))"

lemma run_reachable: "lock_run run \<Longrightarrow> lock_reachable (run n)"
proof (induction n)
  case 0
  then show ?case by (simp add: lock_run_def lock_reachable.begins)
next
  case (Suc n)
  then have "lock_step (run n) (run (Suc n)) \<or> run (Suc n) = run n" by (simp add: lock_run_def)
  then show ?case using Suc lock_reachable.steps by auto
qed

text \<open>While a caller holds the report the queue only grows; when it lets go the first in the queue holds.\<close>

lemma step_of_queue:
  assumes "lock_step w w'" and "lock_inv w" and "waiters (lw_locks w) i = t # rest" and "(i, u) \<in> lw_holders w"
  shows "((i, u) \<in> lw_holders w' \<and> (\<exists>ys. waiters (lw_locks w') i = t # rest @ ys))
    \<or> ((i, t) \<in> lw_holders w' \<and> (\<exists>ys. waiters (lw_locks w') i = rest @ ys))"
  using assms(1)
proof cases
  case (try_ok j l)
  then show ?thesis using assms(3,4) by (auto simp: tryReportLock_def split: if_splits)
next
  case (try_busy j l)
  then show ?thesis using assms(3,4) by (auto simp: tryReportLock_def split: if_splits)
next
  case (wait_ok j l)
  then show ?thesis using assms(3,4) by (auto simp: waitReportLock_def tryReportLock_def split: if_splits)
next
  case (wait_queued j l)
  then show ?thesis using assms(3,4) by (auto simp: waitReportLock_def tryReportLock_def split: if_splits)
next
  case (release_free j s l)
  then have "j \<noteq> i" using assms(3) by (auto simp: releaseReportLock_def split: list.splits)
  then show ?thesis using release_free assms(3,4) by (auto simp: releaseReportLock_def split: list.splits)
next
  case (release_hand j s v l)
  show ?thesis
  proof (cases "j = i")
    case True
    then have "v = t" "waiters l i = rest" using release_hand(3) assms(3) by (auto simp: releaseReportLock_def split: list.splits)
    then show ?thesis using release_hand(1) True by auto
  next
    case False
    then show ?thesis using release_hand assms(3,4) by (auto simp: releaseReportLock_def split: list.splits)
  qed
qed

lemma queue_moves:
  assumes "lock_run run" and "waiters (lw_locks (run n)) i = t # rest" and "(i, u) \<in> lw_holders (run n)"
  shows "((i, u) \<in> lw_holders (run (n + d)) \<and> (\<exists>ys. waiters (lw_locks (run (n + d))) i = t # rest @ ys))
    \<or> (\<exists>m \<ge> n. (i, t) \<in> lw_holders (run m) \<and> (\<exists>ys. waiters (lw_locks (run m)) i = rest @ ys))"
proof (induction d)
  case (Suc d)
  let ?moved = "\<exists>m \<ge> n. (i, t) \<in> lw_holders (run m) \<and> (\<exists>ys. waiters (lw_locks (run m)) i = rest @ ys)"
  show ?case
  proof (cases ?moved)
    case False
    then obtain ys where here: "(i, u) \<in> lw_holders (run (n + d))" "waiters (lw_locks (run (n + d))) i = t # rest @ ys"
      using Suc.IH by blast
    have inv: "lock_inv (run (n + d))" using reachable_inv run_reachable [OF assms(1)] by blast
    have "lock_step (run (n + d)) (run (Suc (n + d))) \<or> run (Suc (n + d)) = run (n + d)" using assms(1) by (simp add: lock_run_def)
    then show ?thesis
    proof
      assume "lock_step (run (n + d)) (run (Suc (n + d)))"
      from step_of_queue [OF this inv here(2,1)] False show ?thesis by (auto intro: exI [of _ "Suc (n + d)"])
    next
      assume "run (Suc (n + d)) = run (n + d)"
      then show ?thesis using here by simp
    qed
  qed simp
qed (use assms(2,3) in simp)

lemma first_is_served:
  assumes "lock_run run" and "releases_in_the_end i run" and "waiters (lw_locks (run n)) i = t # rest"
  shows "\<exists>m \<ge> n. (i, t) \<in> lw_holders (run m) \<and> (\<exists>ys. waiters (lw_locks (run m)) i = rest @ ys)"
proof -
  have "lock_inv (run n)" using reachable_inv run_reachable [OF assms(1)] by blast
  then obtain u where u: "(i, u) \<in> lw_holders (run n)" using lock_invD(1,3) assms(3) by fastforce
  then obtain m where "m \<ge> n" "(i, u) \<notin> lw_holders (run m)" using assms(2) by (auto simp: releases_in_the_end_def)
  then show ?thesis using queue_moves [OF assms(1,3) u, of "m - n"] by simp
qed

text \<open>
  Property C39. Nobody waits for a report forever. In every run of the lock, by any number of callers in any order, in which each
  holder of the report releases it at some time, a caller in the queue of the report holds it at some later time.
\<close>

theorem every_waiter_is_served:
  assumes "lock_run run" and "releases_in_the_end i run" and "t \<in> set (waiters (lw_locks (run n)) i)"
  shows "\<exists>m \<ge> n. (i, t) \<in> lw_holders (run m)"
proof -
  obtain k where "k < length (waiters (lw_locks (run n)) i)" "waiters (lw_locks (run n)) i ! k = t"
    using assms(3) by (auto simp: in_set_conv_nth)
  then show ?thesis
  proof (induction k arbitrary: n)
    case 0
    obtain first rest where q: "waiters (lw_locks (run n)) i = first # rest" using 0 by (cases "waiters (lw_locks (run n)) i") auto
    obtain m where "m \<ge> n" "(i, first) \<in> lw_holders (run m)" using first_is_served [OF assms(1,2) q] by blast
    then show ?case using 0(2) q by auto
  next
    case (Suc k)
    obtain first rest where q: "waiters (lw_locks (run n)) i = first # rest" using Suc.prems by (cases "waiters (lw_locks (run n)) i") auto
    obtain m ys where m: "m \<ge> n" "waiters (lw_locks (run m)) i = rest @ ys" using first_is_served [OF assms(1,2) q] by blast
    have "k < length (waiters (lw_locks (run m)) i)" "waiters (lw_locks (run m)) i ! k = t"
      using Suc.prems q m(2) by (auto simp: nth_append)
    from Suc.IH [OF this] show ?case using m(1) by (meson le_trans)
  qed
qed

text \<open>One caller holds, one waits, the holder releases, the waiter releases, and nothing more happens.\<close>

definition run_taken :: lock_world where
  "run_taken = start\<lparr>lw_locks := \<lparr>held = {''r''}, waiters = (\<lambda>_. [])\<rparr>, lw_holders := {(''r'', 0)}, lw_next := 1\<rparr>"

definition run_handed :: lock_world where
  "run_handed = demo_run\<lparr>lw_locks := \<lparr>held = {''r''}, waiters = (\<lambda>_. [])\<rparr>, lw_holders := {(''r'', 1)}, lw_served := (\<lambda>_. [])(''r'' := [1])\<rparr>"

definition run_over :: lock_world where
  "run_over = run_handed\<lparr>lw_locks := \<lparr>held = {}, waiters = (\<lambda>_. [])\<rparr>, lw_holders := {}\<rparr>"

definition demo_lock_run :: "nat \<Rightarrow> lock_world" where
  "demo_lock_run n = (if n = 0 then start else if n = 1 then run_taken else if n = 2 then demo_run else if n = 3 then run_handed else run_over)"

lemma demo_steps: "lock_step start run_taken" "lock_step run_taken demo_run" "lock_step demo_run run_handed" "lock_step run_handed run_over"
proof -
  show "lock_step start run_taken"
    using lock_step.try_ok [where i = "''r''" and w = start and l = "\<lparr>held = {''r''}, waiters = (\<lambda>_. [])\<rparr>"]
    by (simp add: start_def tryReportLock_def no_locks_def run_taken_def)
  show "lock_step run_taken demo_run"
    using lock_step.wait_queued [where i = "''r''" and w = run_taken and l = "\<lparr>held = {''r''}, waiters = (\<lambda>_. [])(''r'' := [1])\<rparr>"]
    by (simp add: run_taken_def start_def demo_run_def waitReportLock_def tryReportLock_def numeral_2_eq_2)
  show "lock_step demo_run run_handed"
    using lock_step.release_hand [where i = "''r''" and t = 0 and u = 1 and w = demo_run and l = "\<lparr>held = {''r''}, waiters = (\<lambda>_. [])\<rparr>"]
    by (simp add: demo_run_def run_handed_def releaseReportLock_def fun_upd_idem)
  show "lock_step run_handed run_over"
    using lock_step.release_free [where i = "''r''" and t = 1 and w = run_handed and l = "\<lparr>held = {}, waiters = (\<lambda>_. [])\<rparr>"]
    by (simp add: demo_run_def run_handed_def run_over_def releaseReportLock_def fun_upd_idem)
qed

lemma every_waiter_is_served_witness: "\<exists>m \<ge> 2. (''r'', 1) \<in> lw_holders (demo_lock_run m)"
proof -
  have "lock_step (demo_lock_run n) (demo_lock_run (Suc n)) \<or> demo_lock_run (Suc n) = demo_lock_run n" for n
  proof (cases "n \<le> 3")
    case True
    then consider "n = 0" | "n = 1" | "n = 2" | "n = 3" by linarith
    then show ?thesis using demo_steps by cases (simp_all add: demo_lock_run_def)
  qed (simp add: demo_lock_run_def)
  then have "lock_run demo_lock_run" by (simp add: lock_run_def) (simp add: demo_lock_run_def)
  moreover have "lw_holders (demo_lock_run (n + 4)) = {}" for n by (simp add: demo_lock_run_def run_over_def)
  then have "releases_in_the_end ''r'' demo_lock_run" unfolding releases_in_the_end_def by (metis empty_iff le_add1)
  moreover have "1 \<in> set (waiters (lw_locks (demo_lock_run 2)) ''r'')" by (simp add: demo_lock_run_def demo_run_def)
  ultimately show ?thesis by (rule every_waiter_is_served)
qed

end
