(* ===== verification/ReportLedger.thy ===== *)
theory ReportLedger
  imports ExceptionStore
begin

text \<open>
  What \<open>lib/offline/exception-store.ts\<close> promises its callers, as an abstract ledger: a map from report ids to reports in which every operation
  touches one report (the migration, each report by itself). The store, a list in key order changed by transactions, refines it.
\<close>

section \<open>Refinement of a sequence of operations\<close>

locale simulation =
  fixes abs :: "'c \<Rightarrow> 'a"
    and cstep :: "'o \<Rightarrow> 'c \<Rightarrow> 'c"
    and astep :: "'o \<Rightarrow> 'a \<Rightarrow> 'a"
    and inv :: "'c \<Rightarrow> bool"
  assumes step_inv: "inv c \<Longrightarrow> inv (cstep x c)"
    and step_abs: "inv c \<Longrightarrow> abs (cstep x c) = astep x (abs c)"
begin

lemma run_inv: "inv c \<Longrightarrow> inv (fold cstep xs c)"
  by (induction xs arbitrary: c) (simp_all add: step_inv)

lemma run_abs: "inv c \<Longrightarrow> abs (fold cstep xs c) = fold astep xs (abs c)"
  by (induction xs arbitrary: c) (simp_all add: step_inv step_abs)

end

section \<open>The ledger\<close>

type_synonym ledger = "string \<Rightarrow> exception_envelope option"

definition change_report :: "string \<Rightarrow> (exception_envelope \<Rightarrow> exception_envelope) \<Rightarrow> ledger \<Rightarrow> ledger" where
  "change_report i f reports = reports(i := map_option f (reports i))"

fun ledger_step :: "store_op \<Rightarrow> ledger \<Rightarrow> ledger" where
  "ledger_step (Save_report e) reports = reports(env_clientReportId e \<mapsto> saved (reports (env_clientReportId e)) e)"
| "ledger_step (Record_upload now r p a) reports = change_report r (with_upload p a now) reports"
| "ledger_step (Mark_attention now r reason p attn) reports = change_report r (with_attention reason p attn now) reports"
| "ledger_step (Quarantine_all now) reports = (\<lambda>i. map_option (quarantine_step now) (reports i))"
| "ledger_step (Reset_report now r) reports = change_report r (released now) reports"
| "ledger_step (Remove_report r) reports = reports(r := None)"

definition ledger_of :: "exception_db \<Rightarrow> ledger" where
  "ledger_of db = (\<lambda>i. getExceptionEnvelope i db)"

lemma ledger_of_step: "store_ok db \<Longrightarrow> ledger_of (store_step op db) = ledger_step op (ledger_of db)"
  by (cases op) (auto simp: ledger_of_def change_report_def fun_eq_iff get_save get_upload get_mark get_reset get_quarantine get_remove)

interpretation report_ledger: simulation ledger_of store_step ledger_step store_ok
  by unfold_locales (simp_all add: ledger_of_step)

lemma listing_of_ledger:
  assumes "store_ok db"
  shows "set (listExceptionEnvelopes db) = ran (ledger_of db)" and "distinct (map env_clientReportId (listExceptionEnvelopes db))"
proof -
  show "set (listExceptionEnvelopes db) = ran (ledger_of db)"
    unfolding listed ran_def ledger_of_def using in_store [OF assms] get_key by (fastforce simp: set_eq_iff)
  have "mset (map env_clientReportId (listExceptionEnvelopes db)) = mset (map env_clientReportId db)"
    by (simp add: listExceptionEnvelopes_def)
  then show "distinct (map env_clientReportId (listExceptionEnvelopes db))"
    using db_inv_distinct [OF assms] mset_eq_imp_distinct_iff by blast
qed

text \<open>
  Property C40. The store of reports refines the ledger: after any sequence of saves, uploads, refusals, migrations, retries and removals
  from any state of the store, what is looked up under an id is what the ledger holds under it, the list is exactly the
  ledger's reports, each once and oldest first, and the migration reports how many of them it moved.
\<close>

theorem store_refines_ledger:
  assumes "store_ok db"
  shows "(\<lambda>i. getExceptionEnvelope i (store_run ops db)) = fold ledger_step ops (\<lambda>i. getExceptionEnvelope i db)
    \<and> set (listExceptionEnvelopes (store_run ops db)) = ran (fold ledger_step ops (\<lambda>i. getExceptionEnvelope i db))
    \<and> distinct (map env_clientReportId (listExceptionEnvelopes (store_run ops db)))
    \<and> sorted (map env_createdAt (listExceptionEnvelopes (store_run ops db)))
    \<and> fst (quarantineUnattributedEnvelopes now (store_run ops db))
        = card {i. \<exists>e. fold ledger_step ops (\<lambda>i. getExceptionEnvelope i db) i = Some e \<and> unattributed e}"
proof -
  let ?db = "store_run ops db"
  have ok: "store_ok ?db" using report_ledger.run_inv [OF assms] by (simp add: store_run_def)
  have eq: "ledger_of ?db = fold ledger_step ops (ledger_of db)" using report_ledger.run_abs [OF assms] by (simp add: store_run_def)
  have "distinct (map env_clientReportId (filter unattributed ?db))" using db_inv_distinct [OF ok] by (simp add: distinct_map_filter)
  then have "length (filter unattributed ?db) = card (env_clientReportId ` set (filter unattributed ?db))"
    using distinct_card by (metis length_map set_map)
  also have "env_clientReportId ` set (filter unattributed ?db) = {i. \<exists>e. ledger_of ?db i = Some e \<and> unattributed e}"
    unfolding ledger_of_def using in_store [OF ok] get_key by (auto simp: image_iff) metis
  finally have "fst (quarantineUnattributedEnvelopes now ?db) = card {i. \<exists>e. ledger_of ?db i = Some e \<and> unattributed e}"
    by (simp add: quarantine_eq [OF ok])
  note counted = this [unfolded eq]
  have "set (listExceptionEnvelopes ?db) = ran (fold ledger_step ops (ledger_of db))" using listing_of_ledger(1) [OF ok] eq by simp
  moreover have "sorted (map env_createdAt (listExceptionEnvelopes ?db))" by (simp add: listExceptionEnvelopes_def)
  ultimately show ?thesis using listing_of_ledger(2) [OF ok] eq counted unfolding ledger_of_def by blast
qed

lemma store_refines_ledger_witness:
  "(\<lambda>i. getExceptionEnvelope i (store_run [Remove_report ''r''] [demo_report ''r'' (Val ''a'') None])) = Map.empty"
proof -
  let ?db = "[demo_report ''r'' (Val ''a'') None]"
  have ok: "store_ok ?db" by (simp add: db_inv_def)
  have "(\<lambda>i. getExceptionEnvelope i ?db)(''r'' := None) = Map.empty"
    by (auto simp: fun_eq_iff getExceptionEnvelope_def db_get_def demo_report_def)
  then show ?thesis using store_refines_ledger [OF ok, of "[Remove_report ''r'']"] by (metis fold_simps(1,2) ledger_step.simps(6))
qed

end
