(* ===== verification/AnchorCheck.thy ===== *)
theory AnchorCheck
  imports ApiClient DataUrl
begin

text \<open>
  The check of an anchored record that the reader's own browser makes against the public Hedera
  ledger (\<open>client-portal/lib/verify.ts\<close>), reading the sealed payload (\<open>lib/seal.ts\<close>), the tone of each
  outcome (\<open>lib/anchor-text.ts\<close>) and the comparison of a PDF with the seal (\<open>components/PdfCheck.tsx\<close>).

  What the page asks of its platform is the record \<open>browser\<close>: Web Crypto's SHA-256 (a text is the
  string of its UTF-8 bytes), the URL parser, the JSON parser and how a number is printed. The mirror
  node is a function from the address asked to its reply; a timed out request is \<open>Unreachable\<close>.
  Lower-casing is that of ASCII, the alphabet of the hexadecimal digests compared, and \<open>trim\<close> strips ASCII white
  space only; the Unicode spaces that the code's \<open>trim\<close> also strips from a message are not modelled.
\<close>

section \<open>Platform and inputs\<close>

record browser =
  subtle :: bool
  digest :: "string \<Rightarrow> string option"
  url_origin :: "string \<Rightarrow> string option"
  print_number :: "number \<Rightarrow> string"
  parse_json :: "string \<Rightarrow> json option"

record anchor_to_check =
  canonical_payload :: string
  data_hash :: string
  hedera_topic_id :: "string option"
  hedera_sequence_number :: "number option"

datatype anchor_check_state =
  Verified | Hash_mismatch | Ledger_mismatch | Topic_mismatch | Not_found | Unavailable | Unsupported | No_receipt

record anchor_check_result =
  ac_state :: anchor_check_state
  consensusTimestamp :: "json option"

definition only :: "anchor_check_state \<Rightarrow> anchor_check_result" where
  "only s = \<lparr>ac_state = s, consensusTimestamp = None\<rparr>"

datatype mirror_reply = Unreachable | Reply (reply_status: int) (reply_json: "json option")

section \<open>The mirrors a page trusts\<close>

definition TRUSTED_MIRRORS :: "(string \<times> string list) list" where
  "TRUSTED_MIRRORS =
    [(''mainnet'', [''https://mainnet-public.mirrornode.hedera.com'', ''https://mainnet.mirrornode.hedera.com'']),
     (''testnet'', [''https://testnet.mirrornode.hedera.com'']),
     (''previewnet'', [''https://previewnet.mirrornode.hedera.com''])]"

definition isNetwork :: "string \<Rightarrow> bool" where
  "isNetwork v \<longleftrightarrow> v \<in> fst ` set TRUSTED_MIRRORS"

definition toLowerCase :: "string \<Rightarrow> string" where
  "toLowerCase = map ascii_lower"

definition trustedMirrorBase :: "browser \<Rightarrow> string \<Rightarrow> string \<Rightarrow> string option" where
  "trustedMirrorBase B network suggested = (let key = toLowerCase (trim network) in
     if \<not> isNetwork key then None
     else let trusted = the (map_of TRUSTED_MIRRORS key) in
       (case url_origin B suggested of
          None \<Rightarrow> Some (hd trusted)
        | Some origin \<Rightarrow> if origin \<in> set trusted then Some origin else Some (hd trusted)))"

text \<open>The topic pinned at build time, from the value of the variable.\<close>

definition PINNED_TOPIC_ID :: "string option \<Rightarrow> string option" where
  "PINNED_TOPIC_ID env = (case env of
      None \<Rightarrow> None | Some v \<Rightarrow> if trim v = [] then None else Some (trim v))"

section \<open>Hashing\<close>

definition HEX_DIGITS :: string where "HEX_DIGITS = ''0123456789abcdef''"

definition hex_byte :: "char \<Rightarrow> string" where
  "hex_byte b = (let n = of_char b :: nat in [HEX_DIGITS ! (n div 16), HEX_DIGITS ! (n mod 16)])"

definition toHex :: "string \<Rightarrow> string" where
  "toHex buffer = concat (map hex_byte buffer)"

datatype hash_error = Crypto_unavailable | Digest_failed

definition sha256Hex :: "browser \<Rightarrow> string \<Rightarrow> hash_error + string" where
  "sha256Hex B bytes = (if \<not> subtle B then Inl Crypto_unavailable
     else case digest B bytes of None \<Rightarrow> Inl Digest_failed | Some d \<Rightarrow> Inr (toHex d))"

section \<open>Numbers out of JSON\<close>

text \<open>
  \<open>Number(s)\<close> of a text: a literal with a radix prefix, otherwise a decimal one. \<open>None\<close> stands for
  \<open>NaN\<close> and the infinities, which no ledger position equals.
\<close>

definition radix_literal :: "string \<Rightarrow> (nat \<times> string) option" where
  "radix_literal s = (case s of z # x # r \<Rightarrow>
       (if z \<noteq> CHR ''0'' \<or> r = [] then None
        else if ascii_lower x = CHR ''x'' then Some (16, r)
        else if ascii_lower x = CHR ''o'' then Some (8, r)
        else if ascii_lower x = CHR ''b'' then Some (2, r) else None)
     | _ \<Rightarrow> None)"

definition stringNumber :: "string \<Rightarrow> number option" where
  "stringNumber s = (case radix_literal (trim s) of
      None \<Rightarrow> js_number s
    | Some (radix, ds) \<Rightarrow> (case all_some (map hexval ds) of
        None \<Rightarrow> None
      | Some vs \<Rightarrow> if list_all (\<lambda>v. v < radix) vs then Some (real (foldl (\<lambda>n v. radix * n + v) 0 vs)) else None))"

text \<open>
  \<open>Number(j)\<close> of a value that \<open>JSON.parse\<close> can return. An array is read through \<open>join\<close>, so one of two
  or more elements is \<open>NaN\<close>; an object is \<open>NaN\<close>, unless a property \<open>toString\<close> of its own hides the
  inherited method: then the conversion throws.
\<close>

fun unprintable :: "json \<Rightarrow> bool" where
  "unprintable (JObj ps) = (''toString'' \<in> fst ` set ps)"
| "unprintable (JArr xs) = list_ex unprintable xs"
| "unprintable _ = False"

fun toNumber :: "json \<Rightarrow> number option" where
  "toNumber JNull = Some 0"
| "toNumber (JBool b) = Some (if b then 1 else 0)"
| "toNumber (JNum n) = Some n"
| "toNumber (JStr s) = stringNumber s"
| "toNumber (JArr []) = Some 0"
| "toNumber (JArr [x]) = (case x of JBool _ \<Rightarrow> None | _ \<Rightarrow> toNumber x)"
| "toNumber (JArr _) = None"
| "toNumber (JObj _) = None"

section \<open>The check\<close>

definition mirrorMessageUrl :: "browser \<Rightarrow> string \<Rightarrow> string \<Rightarrow> number \<Rightarrow> string" where
  "mirrorMessageUrl B mirrorBase topicId seqno =
     rev (dropWhile (\<lambda>c. c = CHR ''/'') (rev mirrorBase)) @ ''/api/v1/topics/'' @ topicId @ ''/messages/'' @ print_number B seqno"

definition HTTP_NOT_FOUND :: int where "HTTP_NOT_FOUND = 404"

definition message_prop :: "string \<Rightarrow> json \<Rightarrow> json option" where
  "message_prop k body = (case body of JObj ps \<Rightarrow> map_of (rev ps) k | _ \<Rightarrow> None)"

definition is_object :: "json \<Rightarrow> bool" where
  "is_object j = (case j of JObj _ \<Rightarrow> True | JArr _ \<Rightarrow> True | _ \<Rightarrow> False)"

text \<open>What is made of a message that the mirror served, and of its reply as a whole.\<close>

definition read_message :: "anchor_to_check \<Rightarrow> json \<Rightarrow> anchor_check_result" where
  "read_message a body = (case message_prop ''message'' body of
      Some (JStr m) \<Rightarrow>
        if m = [] then only Unavailable
        else (case atob m of
            Inl _ \<Rightarrow> only Unavailable
          | Inr t \<Rightarrow> \<lparr>ac_state = (if toLowerCase (trim t) = toLowerCase (data_hash a) then Verified else Ledger_mismatch),
                      consensusTimestamp = message_prop ''consensus_timestamp'' body\<rparr>)
    | _ \<Rightarrow> only Unavailable)"

definition read_reply :: "anchor_to_check \<Rightarrow> string \<Rightarrow> number \<Rightarrow> mirror_reply \<Rightarrow> js_error + anchor_check_result" where
  "read_reply a topicId seqno reply = (case reply of
      Unreachable \<Rightarrow> Inr (only Unavailable)
    | Reply status parsed \<Rightarrow>
        if status = HTTP_NOT_FOUND then Inr (only Not_found)
        else if \<not> (200 \<le> status \<and> status \<le> 299) then Inr (only Unavailable)
        else (case parsed of
            None \<Rightarrow> Inr (only Unavailable)
          | Some body \<Rightarrow>
              if \<not> is_object body then Inr (only Unavailable)
              else if message_prop ''topic_id'' body \<notin> {None, Some (JStr topicId)} then Inr (only Unavailable)
              else (case message_prop ''sequence_number'' body of
                  None \<Rightarrow> Inr (read_message a body)
                | Some echoed \<Rightarrow>
                    if unprintable echoed then Inl (TypeErr ''Cannot convert object to primitive value'')
                    else if toNumber echoed \<noteq> Some seqno then Inr (only Unavailable)
                    else Inr (read_message a body))))"

definition verifyAnchoredRecord ::
    "browser \<Rightarrow> anchor_to_check \<Rightarrow> string option \<Rightarrow> (string \<Rightarrow> mirror_reply) \<Rightarrow> string option \<Rightarrow> js_error + anchor_check_result" where
  "verifyAnchoredRecord B a mirrorBase fetchImpl pinnedTopicId = (case sha256Hex B (canonical_payload a) of
      Inl Crypto_unavailable \<Rightarrow> Inr (only Unsupported)
    | Inl Digest_failed \<Rightarrow> Inr (only Unavailable)
    | Inr payloadHash \<Rightarrow>
        if payloadHash \<noteq> toLowerCase (data_hash a) then Inr (only Hash_mismatch)
        else (case (hedera_topic_id a, hedera_sequence_number a) of
            (Some topicId, Some seqno) \<Rightarrow>
              if topicId = [] then Inr (only No_receipt)
              else if pinnedTopicId \<noteq> None \<and> pinnedTopicId \<noteq> Some topicId then Inr (only Topic_mismatch)
              else (case mirrorBase of
                  None \<Rightarrow> Inr (only Unavailable)
                | Some base \<Rightarrow> read_reply a topicId seqno (fetchImpl (mirrorMessageUrl B base topicId seqno)))
          | _ \<Rightarrow> Inr (only No_receipt)))"

definition checkBytesAgainstHash :: "browser \<Rightarrow> string \<Rightarrow> string \<Rightarrow> hash_error + bool \<times> string" where
  "checkBytesAgainstHash B bytes expectedHex = (case sha256Hex B bytes of
      Inl e \<Rightarrow> Inl e | Inr actual \<Rightarrow> Inr (actual = toLowerCase expectedHex, actual))"

section \<open>How an outcome is shown\<close>

datatype tone = Tone_ok | Tone_err | Tone_warn

fun state_tone :: "anchor_check_state \<Rightarrow> tone" where
  "state_tone Verified = Tone_ok"
| "state_tone Hash_mismatch = Tone_err"
| "state_tone Ledger_mismatch = Tone_err"
| "state_tone Topic_mismatch = Tone_err"
| "state_tone _ = Tone_warn"

section \<open>The sealed payload\<close>

record pack_seal =
  ps_pack_id :: string
  ps_pack_label :: string
  ps_issued_at :: string
  ps_expires_at :: string
  ps_revoked :: bool
  ps_anchor_status :: string
  ps_manifest_sha256 :: string
  ps_pdf_sha256 :: string
  ps_seal :: "anchor_to_check option"
  ps_hedera_network :: string
  ps_mirror_base_url :: string

datatype seal_payload_read = Seal_absent | Seal_unreadable | Seal_ok "(string \<times> json) list"

definition readSealPayload :: "browser \<Rightarrow> pack_seal \<Rightarrow> seal_payload_read" where
  "readSealPayload B seal = (case ps_seal seal of
      None \<Rightarrow> Seal_absent
    | Some s \<Rightarrow> (case parse_json B (canonical_payload s) of
        Some (JObj payload) \<Rightarrow> Seal_ok payload | _ \<Rightarrow> Seal_unreadable))"

definition sealedString :: "seal_payload_read \<Rightarrow> string \<Rightarrow> string option" where
  "sealedString r f = (case r of
      Seal_ok payload \<Rightarrow> (case map_of (rev payload) f of Some (JStr s) \<Rightarrow> Some s | _ \<Rightarrow> None)
    | _ \<Rightarrow> None)"

definition sealedPdfHash :: "browser \<Rightarrow> pack_seal \<Rightarrow> string option" where
  "sealedPdfHash B seal = sealedString (readSealPayload B seal) ''pdf_sha256''"

section \<open>Checking a copy of the PDF\<close>

datatype pdf_problem = Payload_unreadable | Nothing_to_compare | Browser_cannot_hash | File_unreadable

datatype pdf_result = Pdf_error pdf_problem | Pdf_compared bool string

text \<open>The file as its bytes, \<open>None\<close> when reading it fails.\<close>

definition onFile :: "browser \<Rightarrow> pack_seal \<Rightarrow> string option \<Rightarrow> pdf_result" where
  "onFile B seal file = (let sealRead = readSealPayload B seal in
     case sealedString sealRead ''pdf_sha256'' of
       Some (c # expected) \<Rightarrow>
         (case file of
            None \<Rightarrow> Pdf_error File_unreadable
          | Some bytes \<Rightarrow> (case checkBytesAgainstHash B bytes (c # expected) of
              Inl Crypto_unavailable \<Rightarrow> Pdf_error Browser_cannot_hash
            | Inl Digest_failed \<Rightarrow> Pdf_error File_unreadable
            | Inr (matches, actual) \<Rightarrow> Pdf_compared matches actual))
     | _ \<Rightarrow> Pdf_error (if sealRead = Seal_unreadable then Payload_unreadable else Nothing_to_compare))"

definition pdf_tone :: "anchor_check_result option \<Rightarrow> pdf_result \<Rightarrow> tone" where
  "pdf_tone sealCheck r = (case r of
      Pdf_error _ \<Rightarrow> Tone_warn
    | Pdf_compared matches _ \<Rightarrow>
        if \<not> matches then Tone_err
        else if map_option ac_state sealCheck = Some Verified then Tone_ok else Tone_warn)"

section \<open>Reading JSON safely\<close>

lemma unprintable_is_no_number: "unprintable j \<Longrightarrow> toNumber j = None"
proof (induction j rule: toNumber.induct)
  case (6 x)
  then show ?case by (cases x) auto
qed auto

lemma is_object_message: "\<not> is_object j \<Longrightarrow> message_prop k j = None"
  by (cases j) (auto simp: is_object_def message_prop_def)

section \<open>What an outcome means\<close>

text \<open>The digest the browser computes for a text, and what a mirror says the ledger holds at a position.\<close>

definition hashes_to :: "browser \<Rightarrow> string \<Rightarrow> string \<Rightarrow> bool" where
  "hashes_to B content h \<longleftrightarrow> subtle B \<and> map_option toHex (digest B content) = Some h"

definition mirror_holds :: "string \<Rightarrow> number \<Rightarrow> mirror_reply \<Rightarrow> string \<Rightarrow> bool" where
  "mirror_holds topicId seqno reply h \<longleftrightarrow> (\<exists>status ps m t.
     reply = Reply status (Some (JObj ps)) \<and> 200 \<le> status \<and> status \<le> 299
     \<and> map_of (rev ps) ''message'' = Some (JStr m) \<and> m \<noteq> [] \<and> atob m = Inr t \<and> toLowerCase (trim t) = h
     \<and> map_of (rev ps) ''topic_id'' \<in> {None, Some (JStr topicId)}
     \<and> map_option toNumber (map_of (rev ps) ''sequence_number'') \<in> {None, Some (Some seqno)})"

text \<open>
  A record is confirmed when its payload hashes to its claim and the mirror holds that claim at the
  record's position on an admissible topic. It is contradicted when the payload hashes to something
  else, the topic is not the pinned one, or the mirror holds something else at the position.
\<close>

definition positioned :: "anchor_to_check \<Rightarrow> string \<Rightarrow> number \<Rightarrow> bool" where
  "positioned a topicId seqno \<longleftrightarrow> hedera_topic_id a = Some topicId \<and> topicId \<noteq> [] \<and> hedera_sequence_number a = Some seqno"

definition confirmed :: "browser \<Rightarrow> anchor_to_check \<Rightarrow> string option \<Rightarrow> (string \<Rightarrow> mirror_reply) \<Rightarrow> string option \<Rightarrow> bool" where
  "confirmed B a mirrorBase fetchImpl pin \<longleftrightarrow> hashes_to B (canonical_payload a) (toLowerCase (data_hash a))
     \<and> (\<exists>topicId seqno base. positioned a topicId seqno \<and> pin \<in> {None, Some topicId} \<and> mirrorBase = Some base
          \<and> mirror_holds topicId seqno (fetchImpl (mirrorMessageUrl B base topicId seqno)) (toLowerCase (data_hash a)))"

definition contradicted :: "browser \<Rightarrow> anchor_to_check \<Rightarrow> string option \<Rightarrow> (string \<Rightarrow> mirror_reply) \<Rightarrow> string option \<Rightarrow> bool" where
  "contradicted B a mirrorBase fetchImpl pin \<longleftrightarrow>
     (\<exists>h. hashes_to B (canonical_payload a) h \<and> h \<noteq> toLowerCase (data_hash a))
     \<or> hashes_to B (canonical_payload a) (toLowerCase (data_hash a))
       \<and> (\<exists>topicId seqno. positioned a topicId seqno
            \<and> (pin \<notin> {None, Some topicId}
               \<or> pin \<in> {None, Some topicId} \<and> (\<exists>base h. mirrorBase = Some base \<and> h \<noteq> toLowerCase (data_hash a)
                   \<and> mirror_holds topicId seqno (fetchImpl (mirrorMessageUrl B base topicId seqno)) h)))"

definition outcome :: "js_error + anchor_check_result \<Rightarrow> anchor_check_state option" where
  "outcome v = (case v of Inl _ \<Rightarrow> None | Inr r \<Rightarrow> Some (ac_state r))"

lemma outcome_simps [simp]: "outcome (Inl e) = None" "outcome (Inr r) = Some (ac_state r)" "ac_state (only s) = s"
  by (simp_all add: outcome_def only_def)

lemma read_message_outcome:
  "ac_state (read_message a body) = Verified \<longleftrightarrow> (\<exists>m t. message_prop ''message'' body = Some (JStr m) \<and> m \<noteq> []
     \<and> atob m = Inr t \<and> toLowerCase (trim t) = toLowerCase (data_hash a))"
  "ac_state (read_message a body) = Ledger_mismatch \<longleftrightarrow> (\<exists>m t. message_prop ''message'' body = Some (JStr m) \<and> m \<noteq> []
     \<and> atob m = Inr t \<and> toLowerCase (trim t) \<noteq> toLowerCase (data_hash a))"
  "ac_state (read_message a body) \<in> {Verified, Ledger_mismatch, Unavailable}"
  by (auto simp: read_message_def split: option.splits json.splits sum.splits if_splits)

text \<open>One reply of the mirror: the three outcomes that rest on what it says.\<close>

lemma read_reply_readable:
  "outcome (read_reply a topicId seqno reply) = Some s \<Longrightarrow> s \<noteq> Unavailable \<Longrightarrow> s \<noteq> Not_found \<Longrightarrow>
     \<exists>status ps. reply = Reply status (Some (JObj ps)) \<and> 200 \<le> status \<and> status \<le> 299
       \<and> map_of (rev ps) ''topic_id'' \<in> {None, Some (JStr topicId)}
       \<and> map_option toNumber (map_of (rev ps) ''sequence_number'') \<in> {None, Some (Some seqno)}
       \<and> s = ac_state (read_message a (JObj ps))"
proof -
  assume s: "outcome (read_reply a topicId seqno reply) = Some s" "s \<noteq> Unavailable" "s \<noteq> Not_found"
  then obtain status body where r: "reply = Reply status (Some body)" and ok: "200 \<le> status" "status \<le> 299"
    by (auto simp: read_reply_def split: mirror_reply.splits option.splits if_splits)
  have topic: "message_prop ''topic_id'' body \<in> {None, Some (JStr topicId)}"
    using s r ok by (auto simp: read_reply_def HTTP_NOT_FOUND_def split: if_splits)
  have echo: "s = ac_state (read_message a body)
      \<and> map_option toNumber (message_prop ''sequence_number'' body) \<in> {None, Some (Some seqno)}"
    using s r ok topic by (auto simp: read_reply_def HTTP_NOT_FOUND_def split: if_splits option.splits)
  have "s = Unavailable" if "\<And>ps. body \<noteq> JObj ps"
    using echo that by (cases body) (auto simp: read_message_def message_prop_def)
  then obtain ps where "body = JObj ps" using s(2) by (cases body) auto
  with r ok topic echo show ?thesis by (auto simp: message_prop_def)
qed

lemma read_reply_of_readable:
  assumes "200 \<le> status" "status \<le> 299" "map_of (rev ps) ''topic_id'' \<in> {None, Some (JStr topicId)}"
    "map_option toNumber (map_of (rev ps) ''sequence_number'') \<in> {None, Some (Some seqno)}"
  shows "read_reply a topicId seqno (Reply status (Some (JObj ps))) = Inr (read_message a (JObj ps))"
  using assms unprintable_is_no_number
  by (fastforce simp: read_reply_def HTTP_NOT_FOUND_def is_object_def message_prop_def split: option.splits)

lemma read_message_of_object:
  "ac_state (read_message a (JObj ps)) = Verified \<longleftrightarrow> (\<exists>m t. map_of (rev ps) ''message'' = Some (JStr m) \<and> m \<noteq> []
     \<and> atob m = Inr t \<and> toLowerCase (trim t) = toLowerCase (data_hash a))"
  "ac_state (read_message a (JObj ps)) = Ledger_mismatch \<longleftrightarrow> (\<exists>m t. map_of (rev ps) ''message'' = Some (JStr m) \<and> m \<noteq> []
     \<and> atob m = Inr t \<and> toLowerCase (trim t) \<noteq> toLowerCase (data_hash a))"
  by (simp_all add: read_message_outcome message_prop_def)

lemma read_reply_verdict:
  "outcome (read_reply a topicId seqno reply) = Some Verified
     \<longleftrightarrow> mirror_holds topicId seqno reply (toLowerCase (data_hash a))" (is ?verified)
  "outcome (read_reply a topicId seqno reply) = Some Ledger_mismatch
     \<longleftrightarrow> (\<exists>h. h \<noteq> toLowerCase (data_hash a) \<and> mirror_holds topicId seqno reply h)" (is ?mismatch)
  "outcome (read_reply a topicId seqno reply) \<notin> {Some Hash_mismatch, Some Topic_mismatch, Some Unsupported, Some No_receipt}"
proof -
  let ?o = "outcome (read_reply a topicId seqno reply)"
  have from_holds: "\<exists>m t ps. ?o = Some (ac_state (read_message a (JObj ps))) \<and> map_of (rev ps) ''message'' = Some (JStr m)
      \<and> m \<noteq> [] \<and> atob m = Inr t \<and> toLowerCase (trim t) = h" if holds: "mirror_holds topicId seqno reply h" for h
    using holds unfolding mirror_holds_def by (metis outcome_simps(2) read_reply_of_readable)
  have to_holds: "mirror_holds topicId seqno reply h"
    if s: "?o = Some s" "s \<noteq> Unavailable" "s \<noteq> Not_found"
      and m: "\<And>ps. s = ac_state (read_message a (JObj ps)) \<Longrightarrow> \<exists>m t. map_of (rev ps) ''message'' = Some (JStr m) \<and> m \<noteq> []
        \<and> atob m = Inr t \<and> toLowerCase (trim t) = h" for s h
    using read_reply_readable[OF s] m unfolding mirror_holds_def by blast
  show ?verified
  proof
    assume "?o = Some Verified"
    then show "mirror_holds topicId seqno reply (toLowerCase (data_hash a))"
      by (rule to_holds) (simp_all, metis read_message_of_object(1))
  next
    assume "mirror_holds topicId seqno reply (toLowerCase (data_hash a))"
    from from_holds[OF this] show "?o = Some Verified" using read_message_of_object(1) by metis
  qed
  show ?mismatch
  proof
    assume o: "?o = Some Ledger_mismatch"
    obtain status qs where q: "reply = Reply status (Some (JObj qs))" "200 \<le> status" "status \<le> 299"
        "map_of (rev qs) ''topic_id'' \<in> {None, Some (JStr topicId)}"
        "map_option toNumber (map_of (rev qs) ''sequence_number'') \<in> {None, Some (Some seqno)}"
        "Ledger_mismatch = ac_state (read_message a (JObj qs))"
      using read_reply_readable[OF o] by auto
    obtain m t where "map_of (rev qs) ''message'' = Some (JStr m)" "m \<noteq> []" "atob m = Inr t"
        "toLowerCase (trim t) \<noteq> toLowerCase (data_hash a)"
      using q(6) read_message_of_object(2) by metis
    with q show "\<exists>h. h \<noteq> toLowerCase (data_hash a) \<and> mirror_holds topicId seqno reply h"
      unfolding mirror_holds_def by blast
  next
    assume "\<exists>h. h \<noteq> toLowerCase (data_hash a) \<and> mirror_holds topicId seqno reply h"
    then obtain h where h: "h \<noteq> toLowerCase (data_hash a)" "mirror_holds topicId seqno reply h" by blast
    from from_holds[OF h(2)] h(1) show "?o = Some Ledger_mismatch" using read_message_of_object(2) by metis
  qed
  show "outcome (read_reply a topicId seqno reply) \<notin> {Some Hash_mismatch, Some Topic_mismatch, Some Unsupported, Some No_receipt}"
  proof
    assume "outcome (read_reply a topicId seqno reply) \<in> {Some Hash_mismatch, Some Topic_mismatch, Some Unsupported, Some No_receipt}"
    then obtain s where s: "outcome (read_reply a topicId seqno reply) = Some s"
        "s \<in> {Hash_mismatch, Topic_mismatch, Unsupported, No_receipt}" by auto
    from read_reply_readable[OF s(1)] s(2) obtain ps where "s = ac_state (read_message a (JObj ps))" by auto
    with read_message_outcome(3)[of a "JObj ps"] s(2) show False by auto
  qed
qed

section \<open>The verdict\<close>

lemma sha256Hex_result: "sha256Hex B content = Inr h \<longleftrightarrow> hashes_to B content h"
  by (auto simp: sha256Hex_def hashes_to_def split: option.splits)

lemma sha256Hex_failed: "sha256Hex B content = Inl e \<Longrightarrow> \<not> hashes_to B content h"
  using sha256Hex_result[of B content h] by auto

text \<open>The outcome by the first thing that decides it.\<close>

lemma verify_cases:
  obtains (no_hash) e where "sha256Hex B (canonical_payload a) = Inl e"
      "outcome (verifyAnchoredRecord B a mirrorBase fetchImpl pin) \<in> {Some Unsupported, Some Unavailable}"
  | (other_hash) h where "hashes_to B (canonical_payload a) h" "h \<noteq> toLowerCase (data_hash a)"
      "outcome (verifyAnchoredRecord B a mirrorBase fetchImpl pin) = Some Hash_mismatch"
  | (no_position) "hashes_to B (canonical_payload a) (toLowerCase (data_hash a))" "\<And>t n. \<not> positioned a t n"
      "outcome (verifyAnchoredRecord B a mirrorBase fetchImpl pin) = Some No_receipt"
  | (other_topic) topicId seqno where "hashes_to B (canonical_payload a) (toLowerCase (data_hash a))" "positioned a topicId seqno"
      "pin \<notin> {None, Some topicId}" "outcome (verifyAnchoredRecord B a mirrorBase fetchImpl pin) = Some Topic_mismatch"
  | (no_mirror) topicId seqno where "hashes_to B (canonical_payload a) (toLowerCase (data_hash a))" "positioned a topicId seqno"
      "pin \<in> {None, Some topicId}" "mirrorBase = None"
      "outcome (verifyAnchoredRecord B a mirrorBase fetchImpl pin) = Some Unavailable"
  | (asked) topicId seqno base where "hashes_to B (canonical_payload a) (toLowerCase (data_hash a))" "positioned a topicId seqno"
      "pin \<in> {None, Some topicId}" "mirrorBase = Some base"
      "verifyAnchoredRecord B a mirrorBase fetchImpl pin
         = read_reply a topicId seqno (fetchImpl (mirrorMessageUrl B base topicId seqno))"
proof (cases "sha256Hex B (canonical_payload a)")
  case (Inl e)
  then show ?thesis by (intro no_hash[of e]) (cases e; simp add: verifyAnchoredRecord_def)+
next
  case (Inr h)
  then have hash: "hashes_to B (canonical_payload a) h" by (simp add: sha256Hex_result)
  show ?thesis
  proof (cases "h = toLowerCase (data_hash a)")
    case False
    then show ?thesis using hash Inr by (intro other_hash[of h]) (simp_all add: verifyAnchoredRecord_def)
  next
    case True
    show ?thesis
    proof (cases "\<exists>t n. positioned a t n")
      case False
      then show ?thesis using hash Inr True
        by (intro no_position) (auto simp: verifyAnchoredRecord_def positioned_def split: option.splits)
    next
      case True
      then obtain t n where p: "positioned a t n" by blast
      have run: "verifyAnchoredRecord B a mirrorBase fetchImpl pin =
          (if pin \<noteq> None \<and> pin \<noteq> Some t then Inr (only Topic_mismatch)
           else case mirrorBase of None \<Rightarrow> Inr (only Unavailable)
             | Some base \<Rightarrow> read_reply a t n (fetchImpl (mirrorMessageUrl B base t n)))"
        using p Inr \<open>h = toLowerCase (data_hash a)\<close> by (auto simp: verifyAnchoredRecord_def positioned_def)
      show ?thesis
      proof (cases "pin \<in> {None, Some t}")
        case False
        then show ?thesis using other_topic[OF _ p False] run hash \<open>h = toLowerCase (data_hash a)\<close> by auto
      next
        case pinned: True
        then show ?thesis using no_mirror[OF _ p pinned] asked[OF _ p pinned] run hash \<open>h = toLowerCase (data_hash a)\<close>
          by (cases mirrorBase) auto
      qed
    qed
  qed
qed

lemma hashes_to_only: "hashes_to B content h \<Longrightarrow> hashes_to B content h' \<longleftrightarrow> h' = h"
  unfolding hashes_to_def by auto

lemma positioned_only: "positioned a t n \<Longrightarrow> positioned a t' n' \<longleftrightarrow> t' = t \<and> n' = n"
  by (auto simp: positioned_def)

lemma verdict_decided:
  "(outcome (verifyAnchoredRecord B a mirrorBase fetchImpl pin) = Some Verified \<longleftrightarrow> confirmed B a mirrorBase fetchImpl pin)
   \<and> (map_option state_tone (outcome (verifyAnchoredRecord B a mirrorBase fetchImpl pin)) = Some Tone_err
      \<longleftrightarrow> contradicted B a mirrorBase fetchImpl pin)"
proof (cases rule: verify_cases[of B a mirrorBase fetchImpl pin])
  case (no_hash e)
  then show ?thesis using sha256Hex_failed[OF no_hash(1)] by (auto simp: confirmed_def contradicted_def)
next
  case (other_hash h)
  then show ?thesis unfolding confirmed_def contradicted_def hashes_to_only[OF other_hash(1)] by simp
next
  case no_position
  then show ?thesis unfolding confirmed_def contradicted_def hashes_to_only[OF no_position(1)] by simp
next
  case (other_topic t n)
  then show ?thesis unfolding confirmed_def contradicted_def positioned_only[OF other_topic(2)] by auto
next
  case (no_mirror t n)
  then show ?thesis
    unfolding confirmed_def contradicted_def positioned_only[OF no_mirror(2)] hashes_to_only[OF no_mirror(1)] by simp
next
  case (asked t n base)
  let ?o = "outcome (read_reply a t n (fetchImpl (mirrorMessageUrl B base t n)))"
  have err: "map_option state_tone ?o = Some Tone_err \<longleftrightarrow> ?o = Some Ledger_mismatch"
  proof (cases ?o)
    case (Some s)
    then show ?thesis using read_reply_verdict(3)[of a t n "fetchImpl (mirrorMessageUrl B base t n)"] by (cases s) auto
  qed simp
  show ?thesis
    using asked(3,4) unfolding asked(5) err read_reply_verdict confirmed_def contradicted_def
      positioned_only[OF asked(2)] hashes_to_only[OF asked(1)] by auto
qed

text \<open>The mirror that is asked is one of the network's own, whatever address the server named.\<close>

definition mirrors_of :: "string \<Rightarrow> string list" where
  "mirrors_of network = (case map_of TRUSTED_MIRRORS (toLowerCase (trim network)) of None \<Rightarrow> [] | Some ms \<Rightarrow> ms)"

lemma trusted_mirror: "trustedMirrorBase B network suggested \<in> insert None (Some ` set (mirrors_of network))"
  by (auto simp: trustedMirrorBase_def isNetwork_def TRUSTED_MIRRORS_def mirrors_of_def Let_def split: option.splits)

text \<open>
  A record is shown as verified exactly when it is confirmed: its payload hashes to its claim
  and a mirror that the page trusts holds that claim at the record's position. It is shown as failing
  exactly when it is contradicted: an unreachable mirror, a missing message or an unreadable answer is
  never either.
\<close>

theorem verdict_means_evidence:
  "(outcome (verifyAnchoredRecord B a (trustedMirrorBase B network suggested) fetchImpl pin) = Some Verified
      \<longleftrightarrow> confirmed B a (trustedMirrorBase B network suggested) fetchImpl pin)
   \<and> (map_option state_tone (outcome (verifyAnchoredRecord B a (trustedMirrorBase B network suggested) fetchImpl pin)) = Some Tone_err
      \<longleftrightarrow> contradicted B a (trustedMirrorBase B network suggested) fetchImpl pin)
   \<and> trustedMirrorBase B network suggested \<in> insert None (Some ` set (mirrors_of network))"
  by (simp only: verdict_decided trusted_mirror simp_thms)

text \<open>
  A genuine record verifies: a mirror that serves the digest of the payload in base 64, with or
  without repeating the position, makes the browser say so.
\<close>

lemma hex_table: "list_all (\<lambda>c. ascii_lower c = c \<and> \<not> isWhite c) HEX_DIGITS"
  by code_simp

lemma hex_byte_digits: "set (hex_byte b) \<subseteq> set HEX_DIGITS"
proof -
  have "(of_char b :: nat) div 16 < length HEX_DIGITS" "(of_char b :: nat) mod 16 < length HEX_DIGITS"
    using byte_bounds(2)[of b] by (simp_all add: HEX_DIGITS_def)
  then show ?thesis by (simp add: hex_byte_def Let_def)
qed

lemma toHex_digits: "c \<in> set (toHex d) \<Longrightarrow> ascii_lower c = c \<and> \<not> isWhite c"
  using hex_table hex_byte_digits by (fastforce simp: toHex_def list_all_iff)

lemma toHex_lower: "toLowerCase (toHex d) = toHex d"
  unfolding toLowerCase_def by (rule map_idI) (simp add: toHex_digits)

lemma dropWhile_none: "\<forall>c \<in> set s. \<not> P c \<Longrightarrow> dropWhile P s = s"
  by (cases s) simp_all

lemma trim_black: "\<forall>c \<in> set s. \<not> isWhite c \<Longrightarrow> trim s = s"
  by (simp add: trim_def dropWhile_none)

lemma genuine_record_verifies:
  assumes "subtle B" "digest B (canonical_payload a) = Some d" "d \<noteq> []" "data_hash a = toHex d"
    and "positioned a topicId seqno" "pin \<in> {None, Some topicId}" "mirrorBase = Some base"
    and "fetchImpl (mirrorMessageUrl B base topicId seqno)
      = Reply 200 (Some (JObj [(''message'', JStr (b64_groups (toHex d))), (''sequence_number'', JNum seqno)]))"
  shows "outcome (verifyAnchoredRecord B a mirrorBase fetchImpl pin) = Some Verified"
proof -
  have "b64_groups (toHex d) \<noteq> []"
  proof
    assume "b64_groups (toHex d) = []"
    then have "toHex d = []" by (cases "toHex d" rule: b64_groups.cases) (auto simp: Let_def)
    with assms(3) show False by (cases d) (simp_all add: toHex_def hex_byte_def Let_def)
  qed
  then have "mirror_holds topicId seqno (fetchImpl (mirrorMessageUrl B base topicId seqno)) (toLowerCase (data_hash a))"
    unfolding mirror_holds_def assms(4,8) by (simp add: atob_encode trim_black toHex_digits toHex_lower)
  then have "confirmed B a mirrorBase fetchImpl pin"
    using assms(1-7) by (auto simp: confirmed_def hashes_to_def toHex_lower)
  then show ?thesis by (simp add: verdict_decided)
qed

text \<open>
  The check can throw, although it is meant not to: the position that the mirror repeats is converted
  outside every \<open>try\<close>, and an object with a property \<open>toString\<close> of its own cannot be.
\<close>

lemma check_can_reject:
  "read_reply a topicId seqno (Reply 200 (Some (JObj [(''sequence_number'', JObj [(''toString'', JNull)])])))
     = Inl (TypeErr ''Cannot convert object to primitive value'')"
  by (simp add: read_reply_def HTTP_NOT_FOUND_def is_object_def message_prop_def)

section \<open>The check as its clients see it\<close>

text \<open>
  The panel of a pack and the seal page only use this of a check of one anchor against one reply: what
  a result that is verified, or one that is shown as failing, says about the anchor and the reply.
\<close>

locale anchor_checker =
  fixes check :: "anchor_to_check \<Rightarrow> mirror_reply \<Rightarrow> js_error + anchor_check_result"
    and holds_for :: "anchor_to_check \<Rightarrow> mirror_reply \<Rightarrow> bool"
    and fails_for :: "anchor_to_check \<Rightarrow> mirror_reply \<Rightarrow> bool"
  assumes verified: "outcome (check a reply) = Some Verified \<longleftrightarrow> holds_for a reply"
    and failing: "map_option state_tone (outcome (check a reply)) = Some Tone_err \<longleftrightarrow> fails_for a reply"
begin

lemma verified_result: "check a reply = Inr r \<Longrightarrow> ac_state r = Verified \<Longrightarrow> holds_for a reply"
  using verified[of a reply] by simp

lemma failing_result: "check a reply = Inr r \<Longrightarrow> state_tone (ac_state r) = Tone_err \<Longrightarrow> fails_for a reply"
  using failing[of a reply] by simp

lemma never_both: "\<not> (holds_for a reply \<and> fails_for a reply)"
  using verified[of a reply] failing[of a reply] by auto

end

interpretation ledger: anchor_checker
  "\<lambda>a reply. verifyAnchoredRecord B a mirrorBase (\<lambda>_. reply) pin"
  "\<lambda>a reply. confirmed B a mirrorBase (\<lambda>_. reply) pin"
  "\<lambda>a reply. contradicted B a mirrorBase (\<lambda>_. reply) pin"
  for B mirrorBase pin
  by unfold_locales (simp_all only: verdict_decided)

section \<open>The PDF\<close>

lemma pdf_ok:
  assumes "pdf_tone sealCheck (onFile B seal file) = Tone_ok"
  obtains bytes s payload h where "file = Some bytes" "ps_seal seal = Some s"
    "parse_json B (canonical_payload s) = Some (JObj payload)" "map_of (rev payload) ''pdf_sha256'' = Some (JStr h)"
    "hashes_to B bytes (toLowerCase h)" "map_option ac_state sealCheck = Some Verified"
proof -
  obtain actual where run: "onFile B seal file = Pdf_compared True actual" and v: "map_option ac_state sealCheck = Some Verified"
    using assms by (auto simp: pdf_tone_def split: pdf_result.splits if_splits)
  obtain h bytes where h: "sealedString (readSealPayload B seal) ''pdf_sha256'' = Some h" and f: "file = Some bytes"
      and c: "checkBytesAgainstHash B bytes h = Inr (True, actual)"
    using run by (auto simp: onFile_def Let_def split: option.splits list.splits sum.splits hash_error.splits)
  have "hashes_to B bytes (toLowerCase h)"
    using c by (auto simp: checkBytesAgainstHash_def sha256Hex_result[symmetric] split: sum.splits)
  moreover obtain payload where "readSealPayload B seal = Seal_ok payload" "map_of (rev payload) ''pdf_sha256'' = Some (JStr h)"
    using h by (auto simp: sealedString_def split: seal_payload_read.splits option.splits json.splits)
  ultimately show ?thesis using f v that by (auto simp: readSealPayload_def split: option.splits json.splits)
qed

end
