(* ===== verification/PackChecks.thy ===== *)
theory PackChecks
  imports AnchorCheck
begin

text \<open>
  The verification panel of an audit pack (\<open>client-portal/components/VerificationPanel.tsx\<close>): the
  browser checks of the seal and of every anchored record, run by up to four workers over one queue,
  started again for what is not verified, superseded when the panel goes away or shows another pack;
  with the result of the seal that \<open>components/PackViewer.tsx\<close> keeps for the PDF check.

  A run of workers is its queue and the targets whose check is awaited. Each event is one turn of the
  browser: a render, a press, or one reply of the mirror; a reply may arrive in any order and for any
  run, also a superseded one. Labels and dates are not modelled.
\<close>

section \<open>State\<close>

record anchored_record = anchor_to_check +
  receipt_id :: string
  subject_type :: string
  subject_id :: string
  receipt_type :: string
  hedera_tx_id :: "string option"
  hedera_consensus_at :: "string option"
  payload_matches_hash :: bool

datatype live_check_status = Live_verified | Live_db_mismatch | Live_hedera_mismatch | Live_no_receipt | Live_error

record live_record_check =
  lr_receipt_id :: string
  lr_subject_type :: string
  lr_subject_id :: string
  lr_status :: live_check_status

record live_verification =
  lv_checked_at :: string
  lv_seal_status :: live_check_status
  lv_records :: "live_record_check list"
  lv_records_added_since_issue :: int

datatype server_check = Not_asked | Asking | Ask_failed | Live live_verification

record target =
  tg_key :: string
  tg_anchor :: "anchor_to_check option"

record check_run =
  cr_mirror :: "string option"
  cr_queue :: "target list"
  cr_awaited :: "target list"

record panel =
  pn_seal :: pack_seal
  pn_records :: "anchored_record list"
  pn_checks :: "string \<Rightarrow> anchor_check_result option"
  pn_runId :: nat
  pn_runs :: "nat \<Rightarrow> check_run"
  pn_sealCheck :: "anchor_check_result option"
  pn_server :: server_check

definition SEAL_KEY :: string where "SEAL_KEY = ''seal''"
definition MAX_CONCURRENT_CHECKS :: nat where "MAX_CONCURRENT_CHECKS = 4"
definition NOT_SEALED :: anchor_check_result where "NOT_SEALED = only No_receipt"
definition FAILING_STATES :: "anchor_check_state list" where
  "FAILING_STATES = [Hash_mismatch, Ledger_mismatch, Topic_mismatch]"

section \<open>Running the checks\<close>

definition targets_of :: "pack_seal \<Rightarrow> anchored_record list \<Rightarrow> target list" where
  "targets_of seal records = \<lparr>tg_key = SEAL_KEY, tg_anchor = ps_seal seal\<rparr>
     # map (\<lambda>r. \<lparr>tg_key = receipt_id r, tg_anchor = Some (anchor_to_check.truncate r)\<rparr>) records"

definition pn_targets :: "panel \<Rightarrow> target list" where
  "pn_targets p = targets_of (pn_seal p) (pn_records p)"

definition panel_mirror :: "browser \<Rightarrow> panel \<Rightarrow> string option" where
  "panel_mirror B p = trustedMirrorBase B (ps_hedera_network (pn_seal p)) (ps_mirror_base_url (pn_seal p))"

text \<open>\<open>setChecks\<close>, and \<open>onSealCheck\<close> for the seal.\<close>

definition show_result :: "target \<Rightarrow> anchor_check_result \<Rightarrow> panel \<Rightarrow> panel" where
  "show_result t r p = p\<lparr>pn_checks := (pn_checks p)(tg_key t \<mapsto> r),
     pn_sealCheck := (if tg_key t = SEAL_KEY then Some r else pn_sealCheck p)\<rparr>"

definition with_run :: "nat \<Rightarrow> target list \<Rightarrow> target list \<Rightarrow> panel \<Rightarrow> panel" where
  "with_run n queue awaited p = p\<lparr>pn_runs := (pn_runs p)(n := (pn_runs p n)\<lparr>cr_queue := queue, cr_awaited := awaited\<rparr>)\<rparr>"

text \<open>One worker from the head of its loop to its next \<open>await\<close>, or to its end.\<close>

fun worker_loop :: "nat \<Rightarrow> target list \<Rightarrow> panel \<Rightarrow> panel" where
  "worker_loop n [] p = with_run n [] (cr_awaited (pn_runs p n)) p"
| "worker_loop n (t # ts) p =
     (if tg_anchor t \<noteq> None then with_run n ts (cr_awaited (pn_runs p n) @ [t]) p
      else if n \<noteq> pn_runId p then with_run n ts (cr_awaited (pn_runs p n)) p
      else worker_loop n ts (show_result t NOT_SEALED p))"

definition worker :: "nat \<Rightarrow> panel \<Rightarrow> panel" where
  "worker n p = worker_loop n (cr_queue (pn_runs p n)) p"

definition runChecks :: "browser \<Rightarrow> string set \<Rightarrow> panel \<Rightarrow> panel" where
  "runChecks B keys p = (let n = Suc (pn_runId p); queue = filter (\<lambda>t. tg_key t \<in> keys) (pn_targets p) in
     (worker n ^^ min MAX_CONCURRENT_CHECKS (length queue))
       (p\<lparr>pn_runId := n, pn_runs := (pn_runs p)(n := \<lparr>cr_mirror = panel_mirror B p, cr_queue = queue, cr_awaited = []\<rparr>)\<rparr>))"

text \<open>The result of one awaited check, an unexpected throw included; then the worker goes on.\<close>

definition check_target :: "browser \<Rightarrow> string option \<Rightarrow> string option \<Rightarrow> target \<Rightarrow> mirror_reply \<Rightarrow> anchor_check_result" where
  "check_target B pin mirror t reply = (case tg_anchor t of
      None \<Rightarrow> NOT_SEALED
    | Some a \<Rightarrow> (case verifyAnchoredRecord B a mirror (\<lambda>_. reply) pin of Inl _ \<Rightarrow> only Unavailable | Inr r \<Rightarrow> r))"

definition check_answered :: "browser \<Rightarrow> string option \<Rightarrow> nat \<Rightarrow> target \<Rightarrow> mirror_reply \<Rightarrow> panel \<Rightarrow> panel" where
  "check_answered B pin n t reply p = (let r = pn_runs p n; p1 = with_run n (cr_queue r) (remove1 t (cr_awaited r)) p in
     if n \<noteq> pn_runId p then p1 else worker n (show_result t (check_target B pin (cr_mirror r) t reply) p1))"

definition all_keys :: "panel \<Rightarrow> string set" where
  "all_keys p = set (map tg_key (pn_targets p))"

definition unverifiedKeys :: "panel \<Rightarrow> string list" where
  "unverifiedKeys p = filter (\<lambda>k. map_option ac_state (pn_checks p k) \<noteq> Some Verified) (map tg_key (pn_targets p))"

definition rerunBrowserChecks :: "browser \<Rightarrow> panel \<Rightarrow> panel" where
  "rerunBrowserChecks B p = (let keys = set (unverifiedKeys p) in
     runChecks B keys (p\<lparr>pn_checks := pn_checks p |` (- keys)\<rparr>))"

text \<open>The clean-up of the effect supersedes what is in flight; the effect checks everything.\<close>

definition supersede :: "panel \<Rightarrow> panel" where
  "supersede p = p\<lparr>pn_runId := Suc (pn_runId p)\<rparr>"

definition check_all :: "browser \<Rightarrow> panel \<Rightarrow> panel" where
  "check_all B p = runChecks B (all_keys p) p"

definition show_pack :: "pack_seal \<Rightarrow> anchored_record list \<Rightarrow> panel \<Rightarrow> panel" where
  "show_pack seal records p = p\<lparr>pn_seal := seal, pn_records := records\<rparr>"

definition mounted :: "browser \<Rightarrow> pack_seal \<Rightarrow> anchored_record list \<Rightarrow> panel" where
  "mounted B seal records = check_all B
     \<lparr>pn_seal = seal, pn_records = records, pn_checks = (\<lambda>_. None), pn_runId = 0,
      pn_runs = (\<lambda>_. \<lparr>cr_mirror = None, cr_queue = [], cr_awaited = []\<rparr>), pn_sealCheck = None, pn_server = Not_asked\<rparr>"

section \<open>What the panel says\<close>

definition seal_state :: "panel \<Rightarrow> anchor_check_state option" where
  "seal_state p = map_option ac_state (pn_checks p SEAL_KEY)"

definition recordStates :: "panel \<Rightarrow> anchor_check_state option list" where
  "recordStates p = map (\<lambda>r. map_option ac_state (pn_checks p (receipt_id r))) (pn_records p)"

definition recordsVerified :: "panel \<Rightarrow> nat" where
  "recordsVerified p = length (filter (\<lambda>s. s = Some Verified) (recordStates p))"

definition recordsFailed :: "panel \<Rightarrow> nat" where
  "recordsFailed p = length (filter (\<lambda>s. s \<in> Some ` set FAILING_STATES) (recordStates p))"

definition sealFailed :: "panel \<Rightarrow> bool" where
  "sealFailed p \<longleftrightarrow> seal_state p \<in> Some ` set FAILING_STATES"

definition allVerified :: "panel \<Rightarrow> bool" where
  "allVerified p \<longleftrightarrow> seal_state p = Some Verified \<and> recordsVerified p = length (pn_records p)"

definition settled :: "panel \<Rightarrow> bool" where
  "settled p \<longleftrightarrow> list_all (\<lambda>t. pn_checks p (tg_key t) \<noteq> None) (pn_targets p)"

datatype pack_headline = Does_not_match | Checking_pack | Unchanged_since_issue | Pack_not_sealed | Not_confirmed_yet

definition plainHeadline :: "panel \<Rightarrow> pack_headline" where
  "plainHeadline p =
     (if sealFailed p \<or> recordsFailed p > 0 then Does_not_match
      else if \<not> settled p then Checking_pack
      else if allVerified p then Unchanged_since_issue
      else if seal_state p = Some No_receipt then Pack_not_sealed else Not_confirmed_yet)"

datatype seal_headline = Checking_seal | Seal_verified | No_seal | Seal_failed | Seal_not_confirmed

definition sealHeadline :: "panel \<Rightarrow> seal_headline" where
  "sealHeadline p = (case seal_state p of
      None \<Rightarrow> Checking_seal
    | Some Verified \<Rightarrow> Seal_verified
    | Some No_receipt \<Rightarrow> No_seal
    | _ \<Rightarrow> if sealFailed p then Seal_failed else Seal_not_confirmed)"

datatype records_headline = Records_failed nat | No_other_records | Records_verified nat nat

definition recordsHeadline :: "panel \<Rightarrow> records_headline" where
  "recordsHeadline p = (if recordsFailed p > 0 then Records_failed (recordsFailed p)
     else if pn_records p = [] then No_other_records else Records_verified (recordsVerified p) (length (pn_records p)))"

datatype panel_colour = Red | Green | Amber | Neutral

definition panel_colour :: "panel \<Rightarrow> panel_colour" where
  "panel_colour p = (if sealFailed p \<or> recordsFailed p > 0 then Red
     else if allVerified p then Green else if settled p then Amber else Neutral)"

section \<open>Runs\<close>

datatype panel_event =
  Answered nat target mirror_reply | Rerun_pressed | Effect_again | Another_pack pack_seal "anchored_record list"
| Server_pressed | Server_answered "live_verification option"

fun may_happen :: "panel_event \<Rightarrow> panel \<Rightarrow> bool" where
  "may_happen (Answered n t _) p \<longleftrightarrow> t \<in> set (cr_awaited (pn_runs p n))"
| "may_happen Rerun_pressed p \<longleftrightarrow> unverifiedKeys p \<noteq> []"
| "may_happen Server_pressed p \<longleftrightarrow> pn_server p \<noteq> Asking"
| "may_happen (Server_answered _) p \<longleftrightarrow> pn_server p = Asking"
| "may_happen _ p \<longleftrightarrow> True"

fun panel_step :: "browser \<Rightarrow> string option \<Rightarrow> panel_event \<Rightarrow> panel \<Rightarrow> panel" where
  "panel_step B pin (Answered n t reply) p = check_answered B pin n t reply p"
| "panel_step B pin Rerun_pressed p = rerunBrowserChecks B p"
| "panel_step B pin Effect_again p = check_all B (supersede p)"
| "panel_step B pin (Another_pack seal records) p = check_all B (supersede (show_pack seal records p))"
| "panel_step B pin Server_pressed p = p\<lparr>pn_server := Asking\<rparr>"
| "panel_step B pin (Server_answered live) p = p\<lparr>pn_server := (case live of None \<Rightarrow> Ask_failed | Some v \<Rightarrow> Live v)\<rparr>"

inductive panel_run :: "browser \<Rightarrow> string option \<Rightarrow> pack_seal \<Rightarrow> anchored_record list \<Rightarrow> panel_event list \<Rightarrow> panel \<Rightarrow> bool"
  for B pin seal records where
  mount: "panel_run B pin seal records [] (mounted B seal records)"
| event: "panel_run B pin seal records es p \<Longrightarrow> may_happen e p \<Longrightarrow> panel_run B pin seal records (es @ [e]) (panel_step B pin e p)"

section \<open>What one worker changes\<close>

lemma with_run_fields [simp]:
  "pn_seal (with_run n q a p) = pn_seal p" "pn_records (with_run n q a p) = pn_records p"
  "pn_runId (with_run n q a p) = pn_runId p" "pn_checks (with_run n q a p) = pn_checks p"
  "pn_sealCheck (with_run n q a p) = pn_sealCheck p"
  "pn_runs (with_run n q a p) m
     = (if m = n then (pn_runs p n)\<lparr>cr_queue := q, cr_awaited := a\<rparr> else pn_runs p m)"
  by (simp_all add: with_run_def)

lemma show_result_fields [simp]:
  "pn_seal (show_result t r p) = pn_seal p" "pn_records (show_result t r p) = pn_records p"
  "pn_runId (show_result t r p) = pn_runId p" "pn_runs (show_result t r p) = pn_runs p"
  "pn_checks (show_result t r p) = (pn_checks p)(tg_key t \<mapsto> r)"
  by (simp_all add: show_result_def)

lemma worker_loop_frame [simp]:
  "pn_seal (worker_loop n ts p) = pn_seal p" "pn_records (worker_loop n ts p) = pn_records p"
  "pn_runId (worker_loop n ts p) = pn_runId p" "cr_mirror (pn_runs (worker_loop n ts p) m) = cr_mirror (pn_runs p m)"
  "m \<noteq> n \<Longrightarrow> pn_runs (worker_loop n ts p) m = pn_runs p m"
  by (induction ts arbitrary: p) auto

lemma worker_frame [simp]:
  "pn_seal (worker n p) = pn_seal p" "pn_records (worker n p) = pn_records p" "pn_runId (worker n p) = pn_runId p"
  "cr_mirror (pn_runs (worker n p) m) = cr_mirror (pn_runs p m)" "m \<noteq> n \<Longrightarrow> pn_runs (worker n p) m = pn_runs p m"
  by (simp_all add: worker_def)

lemma workers_frame [simp]:
  "pn_seal ((worker n ^^ k) p) = pn_seal p" "pn_records ((worker n ^^ k) p) = pn_records p"
  "pn_runId ((worker n ^^ k) p) = pn_runId p" "m \<noteq> n \<Longrightarrow> pn_runs ((worker n ^^ k) p) m = pn_runs p m"
  "cr_mirror (pn_runs ((worker n ^^ k) p) m) = cr_mirror (pn_runs p m)"
  by (induction k) simp_all

lemma workers_preserve: "Q p \<Longrightarrow> (\<And>p. Q p \<Longrightarrow> Q (worker n p)) \<Longrightarrow> Q ((worker n ^^ k) p)"
  by (induction k) simp_all

section \<open>Every result shown has its evidence\<close>

text \<open>
  \<open>sound M T bk p\<close>: the runs hold targets of \<open>T\<close> and ask the mirror \<open>M\<close>, and every result shown, and the
  one reported for the seal, is backed by what was received for a target with its key.
\<close>

definition shown_backed :: "target set \<Rightarrow> (target \<Rightarrow> anchor_check_result \<Rightarrow> bool) \<Rightarrow> panel \<Rightarrow> bool" where
  "shown_backed T bk p \<longleftrightarrow> (\<forall>k r. pn_checks p k = Some r \<longrightarrow> (\<exists>t \<in> T. tg_key t = k \<and> bk t r))
     \<and> (\<forall>r. pn_sealCheck p = Some r \<longrightarrow> (\<exists>t \<in> T. tg_key t = SEAL_KEY \<and> bk t r))"

definition run_in :: "string option \<Rightarrow> target set \<Rightarrow> check_run \<Rightarrow> bool" where
  "run_in M T r \<longleftrightarrow> set (cr_queue r) \<subseteq> T \<and> set (cr_awaited r) \<subseteq> T \<and> (cr_mirror r = M \<or> cr_queue r = [] \<and> cr_awaited r = [])"

definition sound :: "string option \<Rightarrow> target set \<Rightarrow> (target \<Rightarrow> anchor_check_result \<Rightarrow> bool) \<Rightarrow> panel \<Rightarrow> bool" where
  "sound M T bk p \<longleftrightarrow> shown_backed T bk p \<and> (\<forall>n. run_in M T (pn_runs p n))"

lemma shown_backed_show: "shown_backed T bk p \<Longrightarrow> t \<in> T \<Longrightarrow> bk t r \<Longrightarrow> shown_backed T bk (show_result t r p)"
  by (auto simp: shown_backed_def show_result_def)

lemma sound_with_run:
  assumes "sound M T bk p" "set q \<subseteq> T" "set a \<subseteq> T" "cr_mirror (pn_runs p n) = M \<or> q = [] \<and> a = []"
  shows "sound M T bk (with_run n q a p)"
  using assms by (auto simp: sound_def shown_backed_def run_in_def)

lemma sound_show: "sound M T bk p \<Longrightarrow> t \<in> T \<Longrightarrow> bk t r \<Longrightarrow> sound M T bk (show_result t r p)"
  by (simp add: sound_def shown_backed_show)

lemma sound_mono: "sound M T bk p \<Longrightarrow> (\<And>t r. bk t r \<Longrightarrow> bk' t r) \<Longrightarrow> sound M T bk' p"
  unfolding sound_def shown_backed_def by blast

lemma sound_awaited: "sound M T bk p \<Longrightarrow> set (cr_awaited (pn_runs p n)) \<subseteq> T"
  "sound M T bk p \<Longrightarrow> set (cr_queue (pn_runs p n)) \<subseteq> T"
  "sound M T bk p \<Longrightarrow> t \<in> set (cr_awaited (pn_runs p n)) \<Longrightarrow> cr_mirror (pn_runs p n) = M"
  by (auto simp: sound_def run_in_def)

lemma sound_worker_loop:
  assumes "\<forall>t \<in> T. tg_anchor t = None \<longrightarrow> bk t NOT_SEALED"
  shows "sound M T bk p \<Longrightarrow> set ts \<subseteq> T \<Longrightarrow> cr_mirror (pn_runs p n) = M \<Longrightarrow> sound M T bk (worker_loop n ts p)"
proof (induction ts arbitrary: p)
  case Nil
  then show ?case by (simp add: sound_with_run sound_awaited)
next
  case (Cons t ts)
  have "sound M T bk (worker_loop n ts (show_result t NOT_SEALED p))" if "tg_anchor t = None"
    using Cons.prems assms that by (intro Cons.IH) (simp_all add: sound_show)
  then show ?case using Cons.prems sound_awaited(1)[OF Cons.prems(1), where n = n] by (auto intro!: sound_with_run)
qed

lemma sound_worker:
  assumes "\<forall>t \<in> T. tg_anchor t = None \<longrightarrow> bk t NOT_SEALED"
    and "sound M T bk p" "cr_mirror (pn_runs p n) = M"
  shows "sound M T bk (worker n p)"
  unfolding worker_def using assms by (intro sound_worker_loop) (auto simp: sound_awaited)

lemma sound_runChecks:
  assumes "\<forall>t \<in> T. tg_anchor t = None \<longrightarrow> bk t NOT_SEALED"
    and "sound M T bk p" "set (pn_targets p) \<subseteq> T" "panel_mirror B p = M"
  shows "sound M T bk (runChecks B keys p)"
proof -
  let ?n = "Suc (pn_runId p)" and ?q = "filter (\<lambda>t. tg_key t \<in> keys) (pn_targets p)"
  let ?p = "p\<lparr>pn_runId := ?n, pn_runs := (pn_runs p)(?n := \<lparr>cr_mirror = panel_mirror B p, cr_queue = ?q, cr_awaited = []\<rparr>)\<rparr>"
  have s: "sound M T bk ?p \<and> cr_mirror (pn_runs ?p ?n) = M"
    using assms(2-4) by (auto simp: sound_def shown_backed_def run_in_def)
  have "sound M T bk ((worker ?n ^^ k) ?p) \<and> cr_mirror (pn_runs ((worker ?n ^^ k) ?p) ?n) = M" for k
    using s by (rule workers_preserve) (simp add: sound_worker assms(1))
  then show ?thesis unfolding runChecks_def Let_def by blast
qed

lemma sound_hide: "sound M T bk p \<Longrightarrow> sound M T bk (p\<lparr>pn_checks := pn_checks p |` K\<rparr>)"
  by (auto simp: sound_def shown_backed_def restrict_map_def)

lemma sound_answered:
  assumes "\<forall>t \<in> T. tg_anchor t = None \<longrightarrow> bk t NOT_SEALED"
    and "sound M T bk p" "t \<in> set (cr_awaited (pn_runs p n))" "bk t (check_target B pin M t reply)"
  shows "sound M T bk (check_answered B pin n t reply p)"
proof -
  note m = sound_awaited[OF assms(2), where n = n]
  have "sound M T bk (with_run n (cr_queue (pn_runs p n)) (remove1 t (cr_awaited (pn_runs p n))) p)"
    using assms(2,3) m(1,2) m(3)[OF assms(3)] by (intro sound_with_run) (auto dest: notin_set_remove1 set_remove1_subset[THEN subsetD])
  then show ?thesis unfolding check_answered_def Let_def
    using assms m(1) m(3)[OF assms(3)] by (auto intro!: sound_worker sound_show)
qed

text \<open>The evidence: what a target without an anchor gives, or a reply received for the target.\<close>

definition evidence :: "browser \<Rightarrow> string option \<Rightarrow> string option \<Rightarrow> panel_event list \<Rightarrow> target \<Rightarrow> anchor_check_result \<Rightarrow> bool" where
  "evidence B pin M es t r \<longleftrightarrow> tg_anchor t = None \<and> r = NOT_SEALED
     \<or> (\<exists>n reply. Answered n t reply \<in> set es \<and> r = check_target B pin M t reply)"

fun same_pack :: "panel_event \<Rightarrow> bool" where
  "same_pack (Another_pack _ _) = False"
| "same_pack _ = True"

definition seal_mirror :: "browser \<Rightarrow> pack_seal \<Rightarrow> string option" where
  "seal_mirror B seal = trustedMirrorBase B (ps_hedera_network seal) (ps_mirror_base_url seal)"

lemma runChecks_frame [simp]: "pn_seal (runChecks B keys p) = pn_seal p" "pn_records (runChecks B keys p) = pn_records p"
  by (simp_all add: runChecks_def Let_def)

lemma step_keeps_pack:
  assumes "same_pack e"
  shows "pn_seal (panel_step B pin e p) = pn_seal p \<and> pn_records (panel_step B pin e p) = pn_records p"
  using assms by (cases e) (auto simp: check_answered_def rerunBrowserChecks_def check_all_def supersede_def Let_def)

lemma panel_evidence:
  assumes "panel_run B pin seal records es p" "list_all same_pack es"
  shows "pn_seal p = seal \<and> pn_records p = records
    \<and> sound (seal_mirror B seal) (set (targets_of seal records)) (evidence B pin (seal_mirror B seal) es) p"
  using assms
proof induction
  case mount
  have "sound (seal_mirror B seal) (set (targets_of seal records)) (evidence B pin (seal_mirror B seal) []) (mounted B seal records)"
    unfolding mounted_def check_all_def
    by (rule sound_runChecks)
      (simp_all add: evidence_def sound_def shown_backed_def run_in_def pn_targets_def panel_mirror_def seal_mirror_def)
  then show ?case by (simp add: mounted_def check_all_def)
next
  case (event es p e)
  let ?M = "seal_mirror B seal" and ?T = "set (targets_of seal records)" and ?es = "es @ [e]"
  have same: "same_pack e" and IH: "pn_seal p = seal" "pn_records p = records" "sound ?M ?T (evidence B pin ?M es) p"
    using event by simp_all
  have s: "sound ?M ?T (evidence B pin ?M ?es) p" using IH(3) by (rule sound_mono) (auto simp: evidence_def)
  have none: "\<forall>t \<in> ?T. tg_anchor t = None \<longrightarrow> evidence B pin ?M ?es t NOT_SEALED" by (simp add: evidence_def)
  have runs: "sound ?M ?T (evidence B pin ?M ?es) (runChecks B keys q)"
    if "sound ?M ?T (evidence B pin ?M ?es) q" "pn_seal q = seal" "pn_records q = records" for keys q
    using that by (intro sound_runChecks none) (simp_all add: pn_targets_def panel_mirror_def seal_mirror_def)
  have "sound ?M ?T (evidence B pin ?M ?es) (panel_step B pin e p)"
  proof (cases e)
    case (Answered n t reply)
    then have "evidence B pin ?M ?es t (check_target B pin ?M t reply)" by (auto simp: evidence_def)
    then show ?thesis using event.hyps(2) s none Answered by (simp add: sound_answered)
  next
    case Rerun_pressed
    have "sound ?M ?T (evidence B pin ?M ?es) (rerunBrowserChecks B p)"
      unfolding rerunBrowserChecks_def Let_def by (rule runs) (simp_all add: sound_hide s IH(1,2))
    then show ?thesis using Rerun_pressed by simp
  next
    case Effect_again
    have "sound ?M ?T (evidence B pin ?M ?es) (supersede p)"
      using s by (simp add: supersede_def sound_def shown_backed_def)
    then have "sound ?M ?T (evidence B pin ?M ?es) (check_all B (supersede p))"
      unfolding check_all_def by (rule runs) (simp_all add: supersede_def IH(1,2))
    then show ?thesis using Effect_again by simp
  next
    case Server_pressed
    then show ?thesis using s by (simp add: sound_def shown_backed_def)
  next
    case (Server_answered live)
    then show ?thesis using s by (simp add: sound_def shown_backed_def)
  qed (use same in simp)
  then show ?case using step_keeps_pack[OF same] IH by simp
qed

section \<open>No target is left waiting\<close>

text \<open>
  At a time when no event is being handled: no run awaits more than four checks, a run with a queue
  awaits exactly four, and a target of the pack without a result is queued or awaited in the run that counts.
\<close>

definition covers :: "panel \<Rightarrow> target list \<Rightarrow> target list \<Rightarrow> bool" where
  "covers p queue awaited \<longleftrightarrow> (\<forall>t \<in> set (pn_targets p). pn_checks p (tg_key t) = None \<longrightarrow> t \<in> set queue \<union> set awaited)"

definition current :: "panel \<Rightarrow> check_run" where
  "current p = pn_runs p (pn_runId p)"

definition outstanding :: "panel \<Rightarrow> nat" where
  "outstanding p = length (cr_queue (current p)) + length (cr_awaited (current p))"

definition busy :: "nat \<Rightarrow> check_run \<Rightarrow> bool" where
  "busy k r \<longleftrightarrow> length (cr_awaited r) \<le> k \<and> (cr_queue r = [] \<or> length (cr_awaited r) = k)"

definition covered :: "panel \<Rightarrow> bool" where
  "covered p \<longleftrightarrow> covers p (cr_queue (current p)) (cr_awaited (current p))"

definition at_rest :: "panel \<Rightarrow> bool" where
  "at_rest p \<longleftrightarrow> covered p \<and> busy MAX_CONCURRENT_CHECKS (current p)
     \<and> (\<forall>n. length (cr_awaited (pn_runs p n)) \<le> MAX_CONCURRENT_CHECKS) \<and> (\<forall>n > pn_runId p. cr_awaited (pn_runs p n) = [])"

lemma pn_targets_frame [simp]:
  "pn_targets (with_run n q a p) = pn_targets p" "pn_targets (show_result t r p) = pn_targets p"
  "pn_targets (worker n p) = pn_targets p" "pn_targets (p\<lparr>pn_checks := c\<rparr>) = pn_targets p"
  "pn_targets (supersede p) = pn_targets p"
  by (simp_all add: pn_targets_def supersede_def)

lemma worker_loop_covers:
  "n = pn_runId p \<Longrightarrow> covers p ts (cr_awaited (current p)) \<Longrightarrow> covered (worker_loop n ts p)"
proof (induction ts arbitrary: p)
  case (Cons t ts)
  let ?q = "show_result t NOT_SEALED p"
  have "covers ?q ts (cr_awaited (current ?q))" using Cons.prems(2) by (auto simp: covers_def current_def)
  then have "covered (worker_loop n ts ?q)" using Cons.prems(1) by (intro Cons.IH) simp_all
  moreover have "covered (with_run n ts (cr_awaited (pn_runs p n) @ [t]) p)"
    using Cons.prems by (auto simp: covered_def current_def covers_def)
  ultimately show ?case using Cons.prems(1) by simp
qed (simp add: covered_def current_def covers_def)

lemma worker_loop_busy:
  "n = pn_runId p \<Longrightarrow> length (cr_awaited (pn_runs p n)) \<le> k \<Longrightarrow> ts = [] \<or> length (cr_awaited (pn_runs p n)) = k \<Longrightarrow>
    busy (Suc k) (pn_runs (worker_loop n ts p) n)
    \<and> length (cr_queue (pn_runs (worker_loop n ts p) n)) + length (cr_awaited (pn_runs (worker_loop n ts p) n))
       \<le> length ts + length (cr_awaited (pn_runs p n))"
proof (induction ts arbitrary: p)
  case (Cons t ts)
  then have "busy (Suc k) (pn_runs (worker_loop n ts (show_result t NOT_SEALED p)) n)
      \<and> length (cr_queue (pn_runs (worker_loop n ts (show_result t NOT_SEALED p)) n))
        + length (cr_awaited (pn_runs (worker_loop n ts (show_result t NOT_SEALED p)) n))
       \<le> length ts + length (cr_awaited (pn_runs (show_result t NOT_SEALED p) n))"
    by (intro Cons.IH) simp_all
  then show ?case using Cons.prems by (auto simp: busy_def)
qed (simp add: busy_def)

text \<open>A worker of the current run: what is without a result stays covered, and one more check may be awaited.\<close>

lemma worker_effect:
  assumes "n = pn_runId p" "covered p" "busy k (current p)"
  shows "covered (worker n p)" "busy (Suc k) (current (worker n p))" "outstanding (worker n p) \<le> outstanding p"
  using assms worker_loop_covers[of n p "cr_queue (pn_runs p n)"] worker_loop_busy[of n p k "cr_queue (pn_runs p n)"]
  by (auto simp: worker_def covered_def current_def outstanding_def busy_def)

lemma workers_effect:
  assumes "n = pn_runId p" "covered p" "busy 0 (current p) \<or> cr_awaited (current p) = []"
  shows "covered ((worker n ^^ k) p) \<and> busy k (current ((worker n ^^ k) p)) \<and> outstanding ((worker n ^^ k) p) \<le> outstanding p"
proof (induction k)
  case 0
  then show ?case using assms by (auto simp: busy_def)
next
  case (Suc k)
  then show ?case using worker_effect[of n "(worker n ^^ k) p" k] assms(1) by auto
qed

lemma runChecks_at_rest:
  assumes keys: "\<forall>t \<in> set (pn_targets p). pn_checks p (tg_key t) = None \<longrightarrow> tg_key t \<in> keys"
    and few: "\<forall>n. length (cr_awaited (pn_runs p n)) \<le> MAX_CONCURRENT_CHECKS" "\<forall>n > pn_runId p. cr_awaited (pn_runs p n) = []"
  shows "at_rest (runChecks B keys p)"
proof -
  let ?n = "Suc (pn_runId p)" and ?q = "filter (\<lambda>t. tg_key t \<in> keys) (pn_targets p)"
  let ?k = "min MAX_CONCURRENT_CHECKS (length ?q)"
  let ?p = "p\<lparr>pn_runId := ?n, pn_runs := (pn_runs p)(?n := \<lparr>cr_mirror = panel_mirror B p, cr_queue = ?q, cr_awaited = []\<rparr>)\<rparr>"
  let ?r = "(worker ?n ^^ ?k) ?p"
  have run: "runChecks B keys p = ?r" by (simp add: runChecks_def Let_def)
  have "covered ?p" using keys by (auto simp: covered_def covers_def current_def pn_targets_def)
  then have e: "covered ?r" "busy ?k (current ?r)" "outstanding ?r \<le> length ?q"
    using workers_effect[of ?n ?p ?k] by (simp_all add: current_def outstanding_def)
  have b: "busy MAX_CONCURRENT_CHECKS (current ?r)"
    using e(2,3) by (auto simp: busy_def outstanding_def min_def split: if_splits)
  have "length (cr_awaited (pn_runs ?r m)) \<le> MAX_CONCURRENT_CHECKS" for m
    using b few(1) by (cases "m = ?n") (simp_all add: busy_def current_def)
  moreover have "cr_awaited (pn_runs ?r m) = []" if "m > ?n" for m using few(2) that by simp
  ultimately show ?thesis unfolding run at_rest_def using e(1) b by simp
qed

lemma settled_iff: "covered p \<Longrightarrow> outstanding p = 0 \<Longrightarrow> settled p"
  by (auto simp: covered_def covers_def outstanding_def settled_def list_all_iff)

lemma other_key_stays: "x \<in> set xs \<Longrightarrow> tg_key x \<noteq> tg_key t \<Longrightarrow> x \<in> set (remove1 t xs)"
  by (metis in_set_remove1)

lemma answered_at_rest:
  assumes rest: "at_rest p" and t: "t \<in> set (cr_awaited (pn_runs p n))"
  shows "at_rest (check_answered B pin n t reply p)
    \<and> (n = pn_runId p \<longrightarrow> outstanding (check_answered B pin n t reply p) < outstanding p)"
proof -
  let ?r = "pn_runs p n" and ?a = "remove1 t (cr_awaited (pn_runs p n))"
  let ?p1 = "with_run n (cr_queue ?r) ?a p"
  have len: "Suc (length ?a) = length (cr_awaited ?r)" using t by (metis One_nat_def Suc_pred length_pos_if_in_set length_remove1)
  have few: "\<forall>m. length (cr_awaited (pn_runs ?p1 m)) \<le> MAX_CONCURRENT_CHECKS"
    using rest len by (auto simp: at_rest_def intro: Suc_leD)
  have later: "\<forall>m > pn_runId p. cr_awaited (pn_runs p m) = []" using rest by (simp add: at_rest_def)
  show ?thesis
  proof (cases "n = pn_runId p")
    case False
    then have "current ?p1 = current p" by (simp add: current_def)
    moreover have "\<forall>m > pn_runId p. cr_awaited (pn_runs ?p1 m) = []" using later by auto
    ultimately have "at_rest ?p1" using rest few by (simp add: at_rest_def covered_def covers_def)
    with False show ?thesis by (simp add: check_answered_def Let_def)
  next
    case True
    let ?p2 = "show_result t (check_target B pin (cr_mirror ?r) t reply) ?p1"
    have c: "covered ?p2" using rest True by (auto simp: at_rest_def covered_def covers_def current_def other_key_stays)
    have b: "busy 3 (current ?p2)"
      using rest True len by (auto simp: at_rest_def busy_def current_def MAX_CONCURRENT_CHECKS_def)
    have o: "outstanding ?p2 < outstanding p" using True len by (simp add: outstanding_def current_def)
    note w = worker_effect[of n ?p2 3, OF _ c b]
    have "length (cr_awaited (pn_runs (worker n ?p2) m)) \<le> MAX_CONCURRENT_CHECKS" for m
    proof (cases "m = n")
      case same: True
      then show ?thesis using w(2) True by (auto simp: busy_def current_def MAX_CONCURRENT_CHECKS_def)
    next
      case False
      then show ?thesis using rest by (simp add: at_rest_def)
    qed
    moreover have "\<forall>m > n. cr_awaited (pn_runs (worker n ?p2) m) = []" using later True by simp
    ultimately have "at_rest (worker n ?p2)"
      using w(1,2) True by (simp add: at_rest_def MAX_CONCURRENT_CHECKS_def)
    then show ?thesis using w(3) o True by (simp add: check_answered_def Let_def)
  qed
qed

lemma unverified_complete: "pn_checks (p\<lparr>pn_checks := pn_checks p |` (- set (unverifiedKeys p))\<rparr>) (tg_key t) = None \<Longrightarrow>
    t \<in> set (pn_targets p) \<Longrightarrow> tg_key t \<in> set (unverifiedKeys p)"
  by (auto simp: unverifiedKeys_def restrict_map_def split: if_splits)

lemma panel_at_rest:
  assumes "panel_run B pin seal records es p"
  shows "at_rest p"
  using assms
proof induction
  case mount
  show ?case unfolding mounted_def check_all_def by (rule runChecks_at_rest) (auto simp: all_keys_def)
next
  case (event es p e)
  have few: "\<forall>n. length (cr_awaited (pn_runs p n)) \<le> MAX_CONCURRENT_CHECKS" "\<forall>n > pn_runId p. cr_awaited (pn_runs p n) = []"
    using event.IH by (simp_all add: at_rest_def)
  show ?case
  proof (cases e)
    case (Answered n t reply)
    then show ?thesis using answered_at_rest[OF event.IH] event.hyps(2) by simp
  next
    case Rerun_pressed
    have "at_rest (rerunBrowserChecks B p)"
      unfolding rerunBrowserChecks_def Let_def
    proof (rule runChecks_at_rest)
      let ?p = "p\<lparr>pn_checks := pn_checks p |` (- set (unverifiedKeys p))\<rparr>"
      show "\<forall>t \<in> set (pn_targets ?p). pn_checks ?p (tg_key t) = None \<longrightarrow> tg_key t \<in> set (unverifiedKeys p)"
      proof (intro ballI impI)
        fix t assume "t \<in> set (pn_targets ?p)" "pn_checks ?p (tg_key t) = None"
        then show "tg_key t \<in> set (unverifiedKeys p)" by (intro unverified_complete) (simp_all only: pn_targets_frame)
      qed
      show "\<forall>n. length (cr_awaited (pn_runs ?p n)) \<le> MAX_CONCURRENT_CHECKS" using few(1) by simp
      show "\<forall>n > pn_runId ?p. cr_awaited (pn_runs ?p n) = []" using few(2) by simp
    qed
    then show ?thesis using Rerun_pressed by simp
  next
    case Effect_again
    have "at_rest (check_all B (supersede p))"
      unfolding check_all_def by (rule runChecks_at_rest) (use few in \<open>auto simp: all_keys_def supersede_def\<close>)
    then show ?thesis using Effect_again by simp
  next
    case (Another_pack s rs)
    have "at_rest (check_all B (supersede (show_pack s rs p)))"
      unfolding check_all_def by (rule runChecks_at_rest) (use few in \<open>auto simp: all_keys_def supersede_def show_pack_def\<close>)
    then show ?thesis using Another_pack by simp
  next
    case Server_pressed
    then show ?thesis using event.IH by (simp add: at_rest_def covered_def covers_def current_def pn_targets_def)
  next
    case (Server_answered live)
    then show ?thesis using event.IH by (simp add: at_rest_def covered_def covers_def current_def pn_targets_def)
  qed
qed

section \<open>What the colour rests on\<close>

lemma count_all: "length (filter P xs) = length xs \<longleftrightarrow> (\<forall>x \<in> set xs. P x)"
  by (metis filter_True length_filter_less linorder_neq_iff)

lemma all_verified_targets:
  "allVerified p \<longleftrightarrow> (\<forall>t \<in> set (pn_targets p). map_option ac_state (pn_checks p (tg_key t)) = Some Verified)"
  using count_all[of "\<lambda>s. s = Some Verified" "recordStates p"]
  by (auto simp: allVerified_def recordsVerified_def recordStates_def seal_state_def pn_targets_def targets_of_def)

lemma failed_targets:
  "sealFailed p \<or> recordsFailed p > 0 \<longleftrightarrow>
     (\<exists>t \<in> set (pn_targets p). map_option ac_state (pn_checks p (tg_key t)) \<in> Some ` set FAILING_STATES)"
  by (auto simp: sealFailed_def recordsFailed_def recordStates_def seal_state_def pn_targets_def targets_of_def
      filter_empty_conv simp del: map_option_eq_Some)

lemma failing_tone: "s \<in> set FAILING_STATES \<longleftrightarrow> state_tone s = Tone_err"
  by (cases s) (simp_all add: FAILING_STATES_def)

lemma one_target_per_key:
  assumes "distinct (SEAL_KEY # map receipt_id records)" "t \<in> set (targets_of seal records)" "u \<in> set (targets_of seal records)"
    "tg_key t = tg_key u"
  shows "t = u"
proof -
  have "map tg_key (targets_of seal records) = SEAL_KEY # map receipt_id records" by (simp add: targets_of_def)
  then show ?thesis using assms by (metis distinct_map inj_on_eq_iff)
qed

text \<open>What a reply received for a target says of its anchor.\<close>

lemma evidence_result:
  assumes "evidence B pin M es t r" "ac_state r \<noteq> Unavailable" "ac_state r \<noteq> No_receipt"
  obtains n reply a where "Answered n t reply \<in> set es" "tg_anchor t = Some a"
    "verifyAnchoredRecord B a M (\<lambda>_. reply) pin = Inr r"
proof -
  obtain n reply where n: "Answered n t reply \<in> set es" and r: "r = check_target B pin M t reply"
    using assms(1,3) by (auto simp: evidence_def NOT_SEALED_def)
  obtain a where a: "tg_anchor t = Some a" using r assms(3) by (cases "tg_anchor t") (auto simp: check_target_def NOT_SEALED_def)
  have "verifyAnchoredRecord B a M (\<lambda>_. reply) pin = Inr r"
    using r a assms(2) by (auto simp: check_target_def split: sum.splits)
  with n a that show ?thesis by simp
qed

lemma evidence_verified:
  assumes "evidence B pin M es t r" "ac_state r = Verified"
  shows "\<exists>n reply a. Answered n t reply \<in> set es \<and> tg_anchor t = Some a \<and> confirmed B a M (\<lambda>_. reply) pin"
  by (rule evidence_result[OF assms(1)]) (use assms(2) ledger.verified_result in fastforce)+

lemma evidence_failing:
  assumes "evidence B pin M es t r" "state_tone (ac_state r) = Tone_err"
  shows "\<exists>n reply a. Answered n t reply \<in> set es \<and> tg_anchor t = Some a \<and> contradicted B a M (\<lambda>_. reply) pin"
  by (rule evidence_result[OF assms(1)]) (use assms(2) ledger.failing_result in fastforce)+

text \<open>The result shown for a target of the pack is the target's own.\<close>

lemma shown_evidence:
  assumes "panel_run B pin seal records es p" "list_all same_pack es" "distinct (SEAL_KEY # map receipt_id records)"
    and "t \<in> set (targets_of seal records)"
  shows "pn_checks p (tg_key t) = Some r \<Longrightarrow> evidence B pin (seal_mirror B seal) es t r"
    and "tg_key t = SEAL_KEY \<Longrightarrow> pn_sealCheck p = Some r \<Longrightarrow> evidence B pin (seal_mirror B seal) es t r"
  using panel_evidence[OF assms(1,2)] one_target_per_key[OF assms(3) _ assms(4)]
  by (fastforce simp: sound_def shown_backed_def)+

section \<open>Limits\<close>

text \<open>
  The limit of four holds within a run: starting the checks again does not abort the requests that the
  superseded run still awaits, so that many more are open at the mirror.
\<close>

definition demo_anchor :: anchor_to_check where
  "demo_anchor = \<lparr>canonical_payload = ''p'', data_hash = ''70'', hedera_topic_id = Some ''0.0.2002'', hedera_sequence_number = Some 118\<rparr>"

definition demo_seal :: pack_seal where
  "demo_seal = \<lparr>ps_pack_id = ''p1'', ps_pack_label = ''AP-1'', ps_issued_at = ''2026-10-01'', ps_expires_at = ''2026-11-01'',
     ps_revoked = False, ps_anchor_status = ''anchored'', ps_manifest_sha256 = [], ps_pdf_sha256 = [],
     ps_seal = Some demo_anchor, ps_hedera_network = ''testnet'', ps_mirror_base_url = []\<rparr>"

definition demo_browser :: browser where
  "demo_browser = \<lparr>subtle = True, digest = Some, url_origin = (\<lambda>_. None), print_number = (\<lambda>_. ''118''),
     parse_json = (\<lambda>_. Some (JObj [(''pdf_sha256'', JStr ''25504446'')]))\<rparr>"

definition demo_target :: target where
  "demo_target = \<lparr>tg_key = SEAL_KEY, tg_anchor = Some demo_anchor\<rparr>"

definition demo_reply :: mirror_reply where
  "demo_reply = Reply 200 (Some (JObj [(''message'', JStr ''NzA='')]))"

definition demo_records :: "anchored_record list" where
  "demo_records = map (\<lambda>k. \<lparr>canonical_payload = ''p'', data_hash = ''70'', hedera_topic_id = Some ''0.0.2002'',
     hedera_sequence_number = Some 118, receipt_id = k, subject_type = ''phase'', subject_id = k, receipt_type = ''loading'',
     hedera_tx_id = None, hedera_consensus_at = None, payload_matches_hash = True\<rparr>) [''a'', ''b'', ''c'']"

lemma reruns_exceed_the_limit:
  "length (cr_awaited (pn_runs (rerunBrowserChecks demo_browser (mounted demo_browser demo_seal demo_records)) 1))
   + length (cr_awaited (pn_runs (rerunBrowserChecks demo_browser (mounted demo_browser demo_seal demo_records)) 2))
   = 2 * MAX_CONCURRENT_CHECKS"
  by code_simp

text \<open>
  A result is kept under its key alone: a panel that is handed another pack shows the earlier seal's
  result for it until its own check is answered. (The pages of the portal mount a new panel for another link.)
\<close>

definition demo_checked :: panel where
  "demo_checked = panel_step demo_browser None (Answered 1 demo_target demo_reply) (mounted demo_browser demo_seal [])"

lemma earlier_seal_shown_for_another_pack:
  "panel_colour (panel_step demo_browser None
     (Another_pack (demo_seal\<lparr>ps_seal := Some (demo_anchor\<lparr>data_hash := ''00''\<rparr>)\<rparr>) []) demo_checked) = Green"
  by code_simp

lemma demo_checked_run: "panel_run demo_browser None demo_seal [] [Answered 1 demo_target demo_reply] demo_checked"
proof -
  have "may_happen (Answered 1 demo_target demo_reply) (mounted demo_browser demo_seal [])" by code_simp
  then show ?thesis using event[OF mount, of "Answered 1 demo_target demo_reply" demo_browser demo_seal "[]" None]
    by (simp add: demo_checked_def)
qed

section \<open>Properties\<close>

text \<open>
  Property C11. The panel of a pack is green, or says that the pack is unchanged, only when for the seal and
  for every record the mirror of the network has answered a request for that very record, its payload
  hashes to its claim and the answer holds that claim at the record's position; and it is red only when
  an answer for one of them, or its own payload, contradicts it. This holds at every moment, under every
  order of the replies, re-runs and superseded runs, as long as the pack shown is the same.
\<close>

theorem colour_rests_on_the_ledger:
  assumes "panel_run B pin seal records es p" and "list_all same_pack es" and "distinct (SEAL_KEY # map receipt_id records)"
  shows "(panel_colour p = Green \<or> plainHeadline p = Unchanged_since_issue \<longrightarrow>
       (\<forall>t \<in> set (targets_of seal records). \<exists>n reply a. Answered n t reply \<in> set es \<and> tg_anchor t = Some a
          \<and> confirmed B a (seal_mirror B seal) (\<lambda>_. reply) pin))
     \<and> (panel_colour p = Red \<or> plainHeadline p = Does_not_match \<longrightarrow>
       (\<exists>t \<in> set (targets_of seal records). \<exists>n reply a. Answered n t reply \<in> set es \<and> tg_anchor t = Some a
          \<and> contradicted B a (seal_mirror B seal) (\<lambda>_. reply) pin))"
proof -
  note shown = shown_evidence(1)[OF assms]
  have T: "pn_targets p = targets_of seal records" using panel_evidence[OF assms(1,2)] by (simp add: pn_targets_def)
  have "allVerified p" if "panel_colour p = Green \<or> plainHeadline p = Unchanged_since_issue"
    using that by (auto simp: panel_colour_def plainHeadline_def split: if_splits)
  moreover have "sealFailed p \<or> recordsFailed p > 0" if "panel_colour p = Red \<or> plainHeadline p = Does_not_match"
    using that by (auto simp: panel_colour_def plainHeadline_def split: if_splits)
  moreover have "\<forall>t \<in> set (targets_of seal records). \<exists>n reply a. Answered n t reply \<in> set es \<and> tg_anchor t = Some a
      \<and> confirmed B a (seal_mirror B seal) (\<lambda>_. reply) pin" if "allVerified p"
    using that shown evidence_verified by (fastforce simp: all_verified_targets T)
  moreover have "\<exists>t \<in> set (targets_of seal records). \<exists>n reply a. Answered n t reply \<in> set es \<and> tg_anchor t = Some a
      \<and> contradicted B a (seal_mirror B seal) (\<lambda>_. reply) pin" if "sealFailed p \<or> recordsFailed p > 0"
    using that shown evidence_failing unfolding failed_targets T by (fastforce simp: failing_tone[symmetric])
  ultimately show ?thesis by blast
qed

theorem colour_rests_on_the_ledger_witness:
  "\<exists>n reply a. Answered n demo_target reply \<in> set [Answered 1 demo_target demo_reply] \<and> tg_anchor demo_target = Some a
     \<and> confirmed demo_browser a (seal_mirror demo_browser demo_seal) (\<lambda>_. reply) None"
proof -
  have "panel_colour demo_checked = Green" by code_simp
  then show ?thesis
    using colour_rests_on_the_ledger[OF demo_checked_run] by (simp add: targets_of_def demo_target_def demo_seal_def)
qed

text \<open>
  Property C13. The check of a pack ends: no run ever awaits more than four answers; a panel on which
  something still shows as being checked awaits an answer in the run that counts, and each such answer,
  whatever it is, leaves strictly less to be done in that run.
\<close>

theorem every_check_settles:
  assumes "panel_run B pin seal records es p"
  shows "(\<forall>n. length (cr_awaited (pn_runs p n)) \<le> MAX_CONCURRENT_CHECKS)
     \<and> (settled p \<or> cr_awaited (current p) \<noteq> [])
     \<and> (\<forall>t \<in> set (cr_awaited (current p)). \<forall>reply.
          outstanding (panel_step B pin (Answered (pn_runId p) t reply) p) < outstanding p)"
proof -
  note rest = panel_at_rest[OF assms]
  have "settled p" if "cr_awaited (current p) = []"
    using rest that by (intro settled_iff) (auto simp: at_rest_def busy_def outstanding_def MAX_CONCURRENT_CHECKS_def)
  moreover have "outstanding (panel_step B pin (Answered (pn_runId p) t reply) p) < outstanding p"
    if "t \<in> set (cr_awaited (current p))" for t reply
    using answered_at_rest[OF rest that[unfolded current_def], of B pin reply] by simp
  ultimately show ?thesis using rest by (auto simp: at_rest_def)
qed

theorem every_check_settles_witness:
  "outstanding (mounted demo_browser demo_seal demo_records) = 4
   \<and> outstanding (panel_step demo_browser None (Answered 1 demo_target Unreachable) (mounted demo_browser demo_seal demo_records)) < 4"
proof -
  let ?p = "mounted demo_browser demo_seal demo_records"
  have "outstanding ?p = 4" "demo_target \<in> set (cr_awaited (current ?p))" "pn_runId ?p = 1" by code_simp+
  then show ?thesis using every_check_settles[OF mount, of demo_browser demo_seal demo_records None] by metis
qed

text \<open>
  Property C12. The page calls a PDF an unaltered copy only when the SHA-256 of the chosen file is the one
  named in the payload of the pack's seal, and the mirror's answer holds the hash of that very payload at
  the seal's position: the API's own copy of the fingerprint is never relied on.
\<close>

theorem genuine_pdf_is_sealed:
  assumes "panel_run B pin seal records es p" and "list_all same_pack es" and "distinct (SEAL_KEY # map receipt_id records)"
    and "pdf_tone (pn_sealCheck p) (onFile B seal file) = Tone_ok"
  shows "\<exists>bytes s payload h n reply. file = Some bytes \<and> ps_seal seal = Some s
     \<and> Answered n \<lparr>tg_key = SEAL_KEY, tg_anchor = Some s\<rparr> reply \<in> set es
     \<and> confirmed B s (seal_mirror B seal) (\<lambda>_. reply) pin
     \<and> parse_json B (canonical_payload s) = Some (JObj payload) \<and> map_of (rev payload) ''pdf_sha256'' = Some (JStr h)
     \<and> hashes_to B bytes (toLowerCase h)"
  using assms(4)
proof (rule pdf_ok)
  fix bytes s payload h
  let ?t = "\<lparr>tg_key = SEAL_KEY, tg_anchor = ps_seal seal\<rparr>"
  assume f: "file = Some bytes" "ps_seal seal = Some s" "parse_json B (canonical_payload s) = Some (JObj payload)"
    "map_of (rev payload) ''pdf_sha256'' = Some (JStr h)" "hashes_to B bytes (toLowerCase h)"
    and v: "map_option ac_state (pn_sealCheck p) = Some Verified"
  obtain r where r: "pn_sealCheck p = Some r" "ac_state r = Verified" using v by blast
  have "evidence B pin (seal_mirror B seal) es ?t r"
    by (rule shown_evidence(2)[OF assms(1-3)]) (simp_all add: targets_of_def r(1))
  from evidence_verified[OF this r(2)] show ?thesis using f by auto
qed

theorem genuine_pdf_is_sealed_witness:
  "\<exists>bytes s payload h n reply. Some ''%PDF'' = Some bytes \<and> ps_seal demo_seal = Some s
     \<and> Answered n \<lparr>tg_key = SEAL_KEY, tg_anchor = Some s\<rparr> reply \<in> set [Answered 1 demo_target demo_reply]
     \<and> confirmed demo_browser s (seal_mirror demo_browser demo_seal) (\<lambda>_. reply) None
     \<and> parse_json demo_browser (canonical_payload s) = Some (JObj payload) \<and> map_of (rev payload) ''pdf_sha256'' = Some (JStr h)
     \<and> hashes_to demo_browser bytes (toLowerCase h)"
proof (rule genuine_pdf_is_sealed[OF demo_checked_run])
  show "pdf_tone (pn_sealCheck demo_checked) (onFile demo_browser demo_seal (Some ''%PDF'')) = Tone_ok" by code_simp
qed simp_all

end
