(* ===== verification/SealPage.thy ===== *)
theory SealPage
  imports PackChecks
begin

text \<open>
  The page behind the address that is printed on every PDF (\<open>client-portal/components/SealCheck.tsx\<close>):
  it loads the seal of a pack, checks it against the ledger and may be asked to start over. Each load of
  a seal is told apart by its number, as the code tells the loaded objects apart.
\<close>

section \<open>State and operations\<close>

datatype load_error = No_such_pack | Not_an_identifier | Too_many_requests | Seal_not_loaded

definition loadErrorText :: "int option \<Rightarrow> load_error" where
  "loadErrorText packErrorStatus = (case packErrorStatus of
      None \<Rightarrow> Seal_not_loaded
    | Some status \<Rightarrow> if status = 404 then No_such_pack else if status = 422 then Not_an_identifier
        else if status = 429 then Too_many_requests else Seal_not_loaded)"

record seal_page =
  sp_seal :: "(nat \<times> pack_seal) option"
  sp_error :: "load_error option"
  sp_loadedAt :: number
  sp_attempt :: nat
  sp_checked :: "(nat \<times> anchor_check_result) option"

definition seal_page_opened :: seal_page where
  "seal_page_opened = \<lparr>sp_seal = None, sp_error = None, sp_loadedAt = 0, sp_attempt = 0, sp_checked = None\<rparr>"

text \<open>An effect that was cleaned up ignores what it still receives; \<open>i\<close> numbers the seal that is loaded.\<close>

definition seal_loaded :: "nat \<Rightarrow> nat \<Rightarrow> pack_seal \<Rightarrow> number \<Rightarrow> seal_page \<Rightarrow> seal_page" where
  "seal_loaded turn i seal now p = (if turn \<noteq> sp_attempt p then p
     else p\<lparr>sp_seal := Some (i, seal), sp_loadedAt := now, sp_error := None\<rparr>)"

definition seal_load_failed :: "nat \<Rightarrow> int option \<Rightarrow> seal_page \<Rightarrow> seal_page" where
  "seal_load_failed turn packErrorStatus p = (if turn \<noteq> sp_attempt p then p
     else p\<lparr>sp_error := Some (loadErrorText packErrorStatus)\<rparr>)"

definition seal_outcome :: "browser \<Rightarrow> string option \<Rightarrow> pack_seal \<Rightarrow> mirror_reply \<Rightarrow> js_error + anchor_check_result" where
  "seal_outcome B pin seal reply = (case ps_seal seal of
      None \<Rightarrow> Inr (only No_receipt) | Some a \<Rightarrow> verifyAnchoredRecord B a (seal_mirror B seal) (\<lambda>_. reply) pin)"

definition seal_checked :: "browser \<Rightarrow> string option \<Rightarrow> nat \<Rightarrow> mirror_reply \<Rightarrow> seal_page \<Rightarrow> seal_page" where
  "seal_checked B pin i reply p = (case sp_seal p of
      Some (j, seal) \<Rightarrow> if i \<noteq> j then p
        else (case seal_outcome B pin seal reply of Inl _ \<Rightarrow> p | Inr r \<Rightarrow> p\<lparr>sp_checked := Some (i, r)\<rparr>)
    | None \<Rightarrow> p)"

definition check_again :: "seal_page \<Rightarrow> seal_page" where
  "check_again p = p\<lparr>sp_attempt := Suc (sp_attempt p)\<rparr>"

definition shown_check :: "seal_page \<Rightarrow> anchor_check_result option" where
  "shown_check p = (case (sp_seal p, sp_checked p) of
      (Some (i, _), Some (j, r)) \<Rightarrow> if j = i then Some r else None | _ \<Rightarrow> None)"

datatype link_status = Link_revoked | Link_expired string | Link_valid_until string

definition linkStatus :: "(string \<Rightarrow> number option) \<Rightarrow> pack_seal \<Rightarrow> number \<Rightarrow> link_status" where
  "linkStatus parse seal loadedAt = (if ps_revoked seal then Link_revoked
     else if (case parse (ps_expires_at seal) of Some t \<Rightarrow> t \<le> loadedAt | None \<Rightarrow> False) then Link_expired (ps_expires_at seal)
     else Link_valid_until (ps_expires_at seal))"

definition may_check_again :: "seal_page \<Rightarrow> bool" where
  "may_check_again p \<longleftrightarrow> (case shown_check p of None \<Rightarrow> False | Some r \<Rightarrow> ac_state r \<noteq> Verified)"

section \<open>Runs\<close>

datatype seal_event = Loaded nat nat pack_seal number | Load_failed nat "int option" | Seal_answered nat mirror_reply | Again

fun seal_step :: "browser \<Rightarrow> string option \<Rightarrow> seal_event \<Rightarrow> seal_page \<Rightarrow> seal_page" where
  "seal_step B pin (Loaded a i seal now) p = seal_loaded a i seal now p"
| "seal_step B pin (Load_failed a why) p = seal_load_failed a why p"
| "seal_step B pin (Seal_answered i reply) p = seal_checked B pin i reply p"
| "seal_step B pin Again p = check_again p"

definition load_numbers :: "seal_event list \<Rightarrow> nat list" where
  "load_numbers es = concat (map (\<lambda>e. case e of Loaded _ i _ _ \<Rightarrow> [i] | _ \<Rightarrow> []) es)"

definition after_events :: "browser \<Rightarrow> string option \<Rightarrow> seal_event list \<Rightarrow> seal_page" where
  "after_events B pin es = fold (seal_step B pin) es seal_page_opened"

text \<open>What is on the page comes from a load, and a kept result from an answer for the seal of its number.\<close>

definition page_ok :: "browser \<Rightarrow> string option \<Rightarrow> seal_event list \<Rightarrow> seal_page \<Rightarrow> bool" where
  "page_ok B pin es p \<longleftrightarrow>
     (\<forall>i seal. sp_seal p = Some (i, seal) \<longrightarrow> (\<exists>a now. Loaded a i seal now \<in> set es))
     \<and> (\<forall>i r. sp_checked p = Some (i, r) \<longrightarrow> (\<exists>a seal now reply. Loaded a i seal now \<in> set es
          \<and> Seal_answered i reply \<in> set es \<and> seal_outcome B pin seal reply = Inr r))"

lemma page_ok_step: "page_ok B pin es p \<Longrightarrow> page_ok B pin (es @ [e]) (seal_step B pin e p)"
proof (cases e)
  case (Seal_answered i reply)
  assume ok: "page_ok B pin es p"
  show ?thesis
  proof (cases "seal_step B pin e p = p")
    case True
    then show ?thesis using ok unfolding page_ok_def by auto blast+
  next
    case False
    then obtain seal r where s: "sp_seal p = Some (i, seal)" "seal_outcome B pin seal reply = Inr r"
        "seal_step B pin e p = p\<lparr>sp_checked := Some (i, r)\<rparr>"
      using Seal_answered by (auto simp: seal_checked_def split: option.splits sum.splits if_splits)
    obtain a now where "Loaded a i seal now \<in> set es" using ok s(1) unfolding page_ok_def by blast
    then show ?thesis using ok s Seal_answered unfolding page_ok_def by auto
  qed
qed (auto simp: page_ok_def seal_loaded_def seal_load_failed_def check_again_def split: if_splits; blast)+

lemma page_ok_run: "page_ok B pin es (after_events B pin es)"
proof (induction es rule: rev_induct)
  case Nil
  show ?case by (simp add: after_events_def page_ok_def seal_page_opened_def)
next
  case (snoc e es)
  from page_ok_step[OF snoc, of e] show ?case by (simp add: after_events_def)
qed

lemma load_numbers_unique:
  "distinct (load_numbers es) \<Longrightarrow> Loaded a i s t \<in> set es \<Longrightarrow> Loaded b i s' t' \<in> set es \<Longrightarrow> s = s'"
proof (induction es)
  case (Cons e es)
  have "i \<in> set (load_numbers es)" if "Loaded c i u v \<in> set es" for c u v
    using that by (force simp: load_numbers_def)
  then show ?case using Cons by (auto simp: load_numbers_def)
qed simp

text \<open>
  The page says that a seal is verified only for the very seal that it shows: a late answer for one loaded
  earlier is never shown against it.
\<close>

lemma seal_verified_is_confirmed:
  assumes "distinct (load_numbers es)" and "map_option ac_state (shown_check (after_events B pin es)) = Some Verified"
    and "sp_seal (after_events B pin es) = Some (i, seal)"
  shows "\<exists>a reply. ps_seal seal = Some a \<and> Seal_answered i reply \<in> set es \<and> confirmed B a (seal_mirror B seal) (\<lambda>_. reply) pin"
proof -
  let ?p = "after_events B pin es"
  obtain r where r: "sp_checked ?p = Some (i, r)" "ac_state r = Verified"
    using assms(2,3) by (auto simp: shown_check_def split: option.splits prod.splits if_splits)
  obtain b t where l: "Loaded b i seal t \<in> set es" using page_ok_run assms(3) unfolding page_ok_def by blast
  obtain a s now reply where e: "Loaded a i s now \<in> set es" "Seal_answered i reply \<in> set es" "seal_outcome B pin s reply = Inr r"
    using page_ok_run r(1) unfolding page_ok_def by blast
  have "s = seal" using load_numbers_unique[OF assms(1) e(1) l] .
  with e(3) obtain anchor where "ps_seal seal = Some anchor"
      "verifyAnchoredRecord B anchor (seal_mirror B seal) (\<lambda>_. reply) pin = Inr r"
    using r(2) by (auto simp: seal_outcome_def split: option.splits)
  then show ?thesis using e(2) r(2) ledger.verified_result by blast
qed

text \<open>An answer on which the check throws leaves the page checking, without the button to start over.\<close>

lemma thrown_check_hangs:
  "seal_outcome B pin seal reply = Inl e \<Longrightarrow> sp_seal p = Some (i, seal) \<Longrightarrow> shown_check p = None \<Longrightarrow>
     shown_check (seal_checked B pin i reply p) = None \<and> \<not> may_check_again (seal_checked B pin i reply p)"
  by (simp add: seal_checked_def may_check_again_def)

end
