(* ===== verification/ViewerGrant.thy ===== *)
theory ViewerGrant
  imports ApiClient "HOL-Library.Sublist"
begin

text \<open>
  How the client portal reaches the API (\<open>client-portal/lib/api.ts\<close>): the viewer grant of a pack, kept in
  the memory of the page and in \<open>localStorage\<close>, the requests that carry it, the reading of refusals and
  the exchange of the mailed password for a grant.

  Sending a request and receiving its reply are separate events, so that calls may overlap in any way.
  Every access to \<open>localStorage\<close> may throw: an event says whether the one it makes does. A text is the
  string of its UTF-8 bytes. Downloading a file ends with the click on a link, which is not modelled. What other
  tabs write to the same storage after the page has loaded is not modelled.
\<close>

section \<open>Values and addresses\<close>

definition GRANT_HEADER :: string where "GRANT_HEADER = ''X-Audit-Pack-Grant''"
definition GRANT_STORAGE_PREFIX :: string where "GRANT_STORAGE_PREFIX = ''fp-audit-pack-grant:''"
definition LOCAL_API_URL :: string where "LOCAL_API_URL = ''http://localhost:8000''"

definition PUBLIC :: "string option \<Rightarrow> string" where
  "PUBLIC configuredApiUrl = (case configuredApiUrl of
      Some (c # url) \<Rightarrow> c # url | _ \<Rightarrow> LOCAL_API_URL) @ ''/api/v1/public/audit-packs''"

definition unreserved :: "char \<Rightarrow> bool" where
  "unreserved c \<longleftrightarrow> c \<in> set ''ABCDEFGHIJKLMNOPQRSTUVWXYZabcdefghijklmnopqrstuvwxyz0123456789-_.!~*()'' \<or> c = CHR 0x27"

definition escaped :: "char \<Rightarrow> string" where
  "escaped c = (let n = of_char c :: nat in [CHR ''%'', ''0123456789ABCDEF'' ! (n div 16), ''0123456789ABCDEF'' ! (n mod 16)])"

definition encodeURIComponent :: "string \<Rightarrow> string" where
  "encodeURIComponent s = concat (map (\<lambda>c. if unreserved c then [c] else escaped c) s)"

fun json_truthy :: "json option \<Rightarrow> bool" where
  "json_truthy None = False"
| "json_truthy (Some JNull) = False"
| "json_truthy (Some (JBool b)) = b"
| "json_truthy (Some (JNum n)) = (n \<noteq> 0)"
| "json_truthy (Some (JStr s)) = (s \<noteq> [])"
| "json_truthy (Some _) = True"

section \<open>The grants of a page\<close>

text \<open>
  The memory holds whatever value the server sent as the grant; \<open>show\<close> is \<open>String(value)\<close> for one that is
  not a string, as storage and a header make of it.
\<close>

record grants =
  memoryGrants :: "string \<Rightarrow> json option option"
  storedGrants :: "string \<Rightarrow> string option"
  storageWriteFailed :: bool

fun as_text :: "(json option \<Rightarrow> string) \<Rightarrow> json option \<Rightarrow> string" where
  "as_text show (Some (JStr s)) = s"
| "as_text show v = show v"

definition readGrant :: "(json option \<Rightarrow> string) \<Rightarrow> bool \<Rightarrow> string \<Rightarrow> grants \<Rightarrow> string option" where
  "readGrant show storageAnswers token g = (case memoryGrants g token of
      Some v \<Rightarrow> if json_truthy v then Some (as_text show v)
                else if storageAnswers then storedGrants g (GRANT_STORAGE_PREFIX @ token) else None
    | None \<Rightarrow> if storageAnswers then storedGrants g (GRANT_STORAGE_PREFIX @ token) else None)"

definition storeGrant :: "(json option \<Rightarrow> string) \<Rightarrow> bool \<Rightarrow> string \<Rightarrow> json option \<Rightarrow> grants \<Rightarrow> grants" where
  "storeGrant show storageAnswers token grant g = (let g1 = g\<lparr>memoryGrants := (memoryGrants g)(token \<mapsto> grant)\<rparr> in
     if storageAnswers then g1\<lparr>storedGrants := (storedGrants g1)(GRANT_STORAGE_PREFIX @ token \<mapsto> as_text show grant)\<rparr>
     else g1\<lparr>storageWriteFailed := True\<rparr>)"

definition forgetGrant :: "bool \<Rightarrow> string \<Rightarrow> grants \<Rightarrow> grants" where
  "forgetGrant storageAnswers token g = (let g1 = g\<lparr>memoryGrants := (memoryGrants g)(token := None)\<rparr> in
     if storageAnswers then g1\<lparr>storedGrants := (storedGrants g1)(GRANT_STORAGE_PREFIX @ token := None)\<rparr> else g1)"

definition storageBlocked :: "grants \<Rightarrow> bool" where
  "storageBlocked g = storageWriteFailed g"

section \<open>Requests\<close>

record pack_request =
  pr_url :: string
  pr_method :: string
  pr_headers :: "(string \<times> string) list"
  pr_body :: "json option"

definition packRequest :: "(json option \<Rightarrow> string) \<Rightarrow> bool \<Rightarrow> string \<Rightarrow> string \<Rightarrow> string \<Rightarrow> grants \<Rightarrow> pack_request" where
  "packRequest show storageAnswers token url verb g = \<lparr>pr_url = url, pr_method = verb,
     pr_headers = (case readGrant show storageAnswers token g of
        Some (c # grant) \<Rightarrow> [(GRANT_HEADER, c # grant)] | _ \<Rightarrow> []), pr_body = None\<rparr>"

datatype pack_call =
  FetchPack string | FetchSeal string | RunServerVerification string | FetchArtifactBytes string string
| VerifyPassword string string | DownloadPackFile string string

definition request_of :: "string \<Rightarrow> (json option \<Rightarrow> string) \<Rightarrow> bool \<Rightarrow> pack_call \<Rightarrow> grants \<Rightarrow> pack_request" where
  "request_of base show storageAnswers c g = (case c of
      FetchPack token \<Rightarrow> packRequest show storageAnswers token (base @ ''/'' @ encodeURIComponent token) ''GET'' g
    | FetchSeal packId \<Rightarrow> \<lparr>pr_url = base @ ''/seal/'' @ encodeURIComponent packId, pr_method = ''GET'', pr_headers = [], pr_body = None\<rparr>
    | RunServerVerification token \<Rightarrow>
        packRequest show storageAnswers token (base @ ''/'' @ encodeURIComponent token @ ''/verify'') ''POST'' g
    | FetchArtifactBytes token artifactId \<Rightarrow>
        packRequest show storageAnswers token
          (base @ ''/'' @ encodeURIComponent token @ ''/artifacts/'' @ encodeURIComponent artifactId) ''GET'' g
    | VerifyPassword token password \<Rightarrow>
        \<lparr>pr_url = base @ ''/'' @ encodeURIComponent token @ ''/password/verify'', pr_method = ''POST'',
         pr_headers = [(''Content-Type'', ''application/json'')], pr_body = Some (JObj [(''password'', JStr password)])\<rparr>
    | DownloadPackFile token file \<Rightarrow>
        packRequest show storageAnswers token (base @ ''/'' @ encodeURIComponent token @ ''/'' @ file) ''GET'' g)"

section \<open>Replies\<close>

datatype pack_reply = No_reply string | Http (http_status: int) (http_statusText: string) (http_json: "json option")

datatype pack_failure = Pack_error (pe_status: int) (pe_message: string) (pe_emailHint: "json option") | Thrown js_error

definition verificationRequired :: "pack_failure \<Rightarrow> bool" where
  "verificationRequired e = (case e of Pack_error _ _ hint \<Rightarrow> hint \<noteq> None | Thrown _ \<Rightarrow> False)"

fun join_with :: "string \<Rightarrow> string list \<Rightarrow> string" where
  "join_with sep [] = []"
| "join_with sep [s] = s"
| "join_with sep (s # ss) = s @ sep @ join_with sep ss"

fun item_messages :: "json list \<Rightarrow> js_error + string list" where
  "item_messages [] = Inr []"
| "item_messages (i # is) = (case json_get ''msg'' i of
      Inl e \<Rightarrow> Inl e
    | Inr m \<Rightarrow> (case item_messages is of Inl e \<Rightarrow> Inl e
        | Inr ms \<Rightarrow> Inr (case m of Some (JStr s) \<Rightarrow> if s = [] then ms else s # ms | _ \<Rightarrow> ms)))"

definition detailText :: "json option \<Rightarrow> js_error + string option" where
  "detailText detail = (case detail of
      Some (JStr s) \<Rightarrow> Inr (Some s)
    | Some (JArr items) \<Rightarrow> (case item_messages items of
        Inl e \<Rightarrow> Inl e | Inr ms \<Rightarrow> Inr (if ms = [] then None else Some (join_with ''; '' ms)))
    | _ \<Rightarrow> Inr None)"

definition MAILED_PASSWORD_NEEDED :: string where
  "MAILED_PASSWORD_NEEDED = ''Enter the mailed password to open this pack.''"

definition wants_password :: "int \<Rightarrow> json \<Rightarrow> bool" where
  "wants_password status body \<longleftrightarrow> status = 401 \<and> (case json_get ''verification_required'' body of Inr v \<Rightarrow> json_truthy v | Inl _ \<Rightarrow> False)"

definition email_hint :: "json \<Rightarrow> json" where
  "email_hint body = (case json_get ''email_hint'' body of Inr (Some h) \<Rightarrow> if h = JNull then JStr [] else h | _ \<Rightarrow> JStr [])"

definition error_body :: "json option \<Rightarrow> json" where
  "error_body parsed = (case parsed of None \<Rightarrow> JObj [] | Some b \<Rightarrow> b)"

text \<open>\<open>failure\<close>: the error, and the grants after dropping one that the server no longer accepts.\<close>

definition failure :: "bool \<Rightarrow> string option \<Rightarrow> int \<Rightarrow> string \<Rightarrow> json option \<Rightarrow> grants \<Rightarrow> pack_failure \<times> grants" where
  "failure storageAnswers token status statusText parsed g = (let body = error_body parsed in
     case json_get ''detail'' body of
       Inl e \<Rightarrow> (Thrown e, g)
     | Inr detail \<Rightarrow> (case detailText detail of
         Inl e \<Rightarrow> (Thrown e, g)
       | Inr message \<Rightarrow> (case token of
           Some t \<Rightarrow> if wants_password status body
             then (Pack_error 401 (case message of None \<Rightarrow> MAILED_PASSWORD_NEEDED | Some m \<Rightarrow> m) (Some (email_hint body)),
                   forgetGrant storageAnswers t g)
             else (Pack_error status (case message of None \<Rightarrow> statusText | Some m \<Rightarrow> m) None, g)
         | None \<Rightarrow> (Pack_error status (case message of None \<Rightarrow> statusText | Some m \<Rightarrow> m) None, g))))"

definition http_ok :: "int \<Rightarrow> bool" where
  "http_ok status \<longleftrightarrow> 200 \<le> status \<and> status \<le> 299"

text \<open>A reply that is not read as JSON (bytes of a file) is the result \<open>None\<close>.\<close>

definition read_reply :: "bool \<Rightarrow> string option \<Rightarrow> bool \<Rightarrow> pack_reply \<Rightarrow> grants \<Rightarrow> (pack_failure + json option) \<times> grants" where
  "read_reply storageAnswers token as_json reply g = (case reply of
      No_reply why \<Rightarrow> (Inl (Thrown (OtherErr why)), g)
    | Http status statusText parsed \<Rightarrow>
        if \<not> http_ok status then (let (e, g1) = failure storageAnswers token status statusText parsed g in (Inl e, g1))
        else if \<not> as_json then (Inr None, g)
        else (case parsed of None \<Rightarrow> (Inl (Thrown (OtherErr ''Unexpected token'')), g) | Some j \<Rightarrow> (Inr (Some j), g)))"

definition keep_grant :: "(json option \<Rightarrow> string) \<Rightarrow> bool \<Rightarrow> string \<Rightarrow> (pack_failure + json option) \<times> grants
    \<Rightarrow> (pack_failure + json option) \<times> grants" where
  "keep_grant show storageAnswers token r = (case r of
      (Inr (Some j), g) \<Rightarrow> (case json_get ''grant'' j of
          Inl e \<Rightarrow> (Inl (Thrown e), g) | Inr grant \<Rightarrow> (Inr None, storeGrant show storageAnswers token grant g))
    | _ \<Rightarrow> r)"

definition reply_to :: "(json option \<Rightarrow> string) \<Rightarrow> bool \<Rightarrow> pack_call \<Rightarrow> pack_reply \<Rightarrow> grants \<Rightarrow> (pack_failure + json option) \<times> grants" where
  "reply_to show storageAnswers c reply g = (case c of
      FetchPack token \<Rightarrow> read_reply storageAnswers (Some token) True reply g
    | FetchSeal packId \<Rightarrow> read_reply storageAnswers None True reply g
    | RunServerVerification token \<Rightarrow> read_reply storageAnswers (Some token) True reply g
    | FetchArtifactBytes token _ \<Rightarrow> read_reply storageAnswers (Some token) False reply g
    | VerifyPassword token _ \<Rightarrow> keep_grant show storageAnswers token (read_reply storageAnswers None True reply g)
    | DownloadPackFile token _ \<Rightarrow> read_reply storageAnswers (Some token) False reply g)"

section \<open>A page\<close>

datatype page_event = Sent pack_call bool | Received pack_call pack_reply bool

fun page_step :: "(json option \<Rightarrow> string) \<Rightarrow> page_event \<Rightarrow> grants \<Rightarrow> grants" where
  "page_step show (Sent c ok) g = g"
| "page_step show (Received c reply ok) g = snd (reply_to show ok c reply g)"

fun outgoing :: "string \<Rightarrow> (json option \<Rightarrow> string) \<Rightarrow> page_event list \<Rightarrow> grants \<Rightarrow> (pack_call \<times> pack_request) list" where
  "outgoing base show [] g = []"
| "outgoing base show (Sent c ok # es) g = (c, request_of base show ok c g) # outgoing base show es g"
| "outgoing base show (e # es) g = outgoing base show es (page_step show e g)"

definition page_loaded :: "(string \<Rightarrow> string option) \<Rightarrow> grants" where
  "page_loaded stored = \<lparr>memoryGrants = (\<lambda>_. None), storedGrants = stored, storageWriteFailed = False\<rparr>"

section \<open>Where a grant comes from\<close>

fun pack_of :: "pack_call \<Rightarrow> string option" where
  "pack_of (FetchPack t) = Some t"
| "pack_of (FetchSeal _) = None"
| "pack_of (RunServerVerification t) = Some t"
| "pack_of (FetchArtifactBytes t _) = Some t"
| "pack_of (VerifyPassword t _) = None"
| "pack_of (DownloadPackFile t _) = Some t"

text \<open>The grant that a reply to the password of a pack brings.\<close>

fun issues :: "(json option \<Rightarrow> string) \<Rightarrow> string \<Rightarrow> string \<Rightarrow> page_event \<Rightarrow> bool" where
  "issues show token v (Received (VerifyPassword t _) (Http status _ (Some body)) _) \<longleftrightarrow>
     t = token \<and> http_ok status \<and> (\<exists>grant. json_get ''grant'' body = Inr grant \<and> v = as_text show grant)"
| "issues show token v _ \<longleftrightarrow> False"

definition known_grant :: "(json option \<Rightarrow> string) \<Rightarrow> (string \<Rightarrow> string option) \<Rightarrow> page_event list \<Rightarrow> string \<Rightarrow> string \<Rightarrow> bool" where
  "known_grant show stored es token v \<longleftrightarrow>
     stored (GRANT_STORAGE_PREFIX @ token) = Some v \<or> list_ex (issues show token v) es"

definition provenance :: "(json option \<Rightarrow> string) \<Rightarrow> (string \<Rightarrow> string \<Rightarrow> bool) \<Rightarrow> grants \<Rightarrow> bool" where
  "provenance show known g \<longleftrightarrow>
     (\<forall>t v. memoryGrants g t = Some v \<longrightarrow> known t (as_text show v))
     \<and> (\<forall>t v. storedGrants g (GRANT_STORAGE_PREFIX @ t) = Some v \<longrightarrow> known t v)"

lemma provenance_mono: "provenance show known g \<Longrightarrow> (\<And>t v. known t v \<Longrightarrow> known' t v) \<Longrightarrow> provenance show known' g"
  unfolding provenance_def by blast

lemma provenance_forget: "provenance show known g \<Longrightarrow> provenance show known (forgetGrant ok t g)"
  by (auto simp: provenance_def forgetGrant_def Let_def)

lemma provenance_store: "provenance show known g \<Longrightarrow> known t (as_text show v) \<Longrightarrow> provenance show known (storeGrant show ok t v g)"
  by (auto simp: provenance_def storeGrant_def Let_def)

lemma failure_grants: "snd (failure ok token status statusText parsed g) \<in> insert g (range (\<lambda>t. forgetGrant ok t g))"
  by (auto simp: failure_def Let_def split: sum.splits option.splits)

lemma read_reply_grants: "snd (read_reply ok token as_json reply g) \<in> insert g (range (\<lambda>t. forgetGrant ok t g))"
  using failure_grants[of ok token _ _ _ g]
  by (auto simp: read_reply_def split: pack_reply.splits option.splits prod.splits) (metis snd_conv)+

lemma provenance_read_reply: "provenance show known g \<Longrightarrow> provenance show known (snd (read_reply ok token as_json reply g))"
  using read_reply_grants[of ok token as_json reply g] by (auto intro: provenance_forget)

lemma read_reply_json: "read_reply ok token True reply g = (Inr (Some j), g') \<Longrightarrow>
    g' = g \<and> (\<exists>status why. reply = Http status why (Some j) \<and> http_ok status)"
  by (auto simp: read_reply_def split: pack_reply.splits if_splits option.splits prod.splits)

lemma keep_grant_cases:
  obtains (kept) j v g where "r = (Inr (Some j), g)" "json_get ''grant'' j = Inr v"
      "snd (keep_grant show ok token r) = storeGrant show ok token v g"
  | (not_kept) "snd (keep_grant show ok token r) = snd r"
proof -
  consider (json) j g v where "r = (Inr (Some j), g)" "json_get ''grant'' j = Inr v"
    | (bad) j g e where "r = (Inr (Some j), g)" "json_get ''grant'' j = Inl e"
    | (bytes) g where "r = (Inr None, g)" | (error) e g where "r = (Inl e, g)"
    by (metis old.prod.exhaust option.exhaust sum.exhaust)
  then show thesis by cases (auto simp: keep_grant_def intro: kept not_kept)
qed

lemma provenance_step:
  assumes "provenance show (known_grant show stored es) g"
  shows "provenance show (known_grant show stored (es @ [e])) (page_step show e g)"
proof -
  have p: "provenance show (known_grant show stored (es @ [e])) g"
    using assms by (rule provenance_mono) (auto simp: known_grant_def)
  show ?thesis
  proof (cases e)
    case (Received c reply ok)
    show ?thesis
    proof (cases c)
      case (VerifyPassword t pw)
      let ?r = "read_reply ok None True reply g"
      have stays: "provenance show (known_grant show stored (es @ [e])) (snd ?r)" using p by (rule provenance_read_reply)
      have "provenance show (known_grant show stored (es @ [e])) (snd (keep_grant show ok t ?r))"
      proof (cases rule: keep_grant_cases[of ?r "show" ok t])
        case (kept j v g')
        from read_reply_json[OF kept(1)] obtain status why where h: "g' = g" "reply = Http status why (Some j)" "http_ok status" by auto
        have "known_grant show stored (es @ [e]) t (as_text show v)"
          using kept(2) h(2,3) Received VerifyPassword by (auto simp: known_grant_def)
        then show ?thesis using provenance_store[OF p] kept(3) h(1) by simp
      qed (use stays in simp)
      then show ?thesis using Received VerifyPassword by (simp add: reply_to_def)
    qed (use Received p in \<open>simp_all add: reply_to_def provenance_read_reply\<close>)
  qed (use p in simp)
qed

lemma outgoing_append:
  "outgoing base show (es @ [e]) g = outgoing base show es g @ outgoing base show [e] (fold (page_step show) es g)"
proof (induction es arbitrary: g)
  case Nil
  then show ?case by (cases e) simp_all
next
  case (Cons x es)
  then show ?case by (cases x) simp_all
qed

lemma provenance_page: "provenance show (known_grant show stored es) (fold (page_step show) es (page_loaded stored))"
proof (induction es rule: rev_induct)
  case Nil
  show ?case by (simp add: provenance_def page_loaded_def known_grant_def)
next
  case (snoc e es)
  from provenance_step[OF snoc, of e] show ?case by simp
qed

lemma readGrant_known: "provenance show known g \<Longrightarrow> readGrant show ok token g = Some v \<Longrightarrow> known token v"
  by (auto simp: readGrant_def provenance_def split: option.splits if_splits)

lemma request_grant:
  assumes "(GRANT_HEADER, v) \<in> set (pr_headers (request_of base show ok c g))"
  obtains token where "pack_of c = Some token" "readGrant show ok token g = Some v" "v \<noteq> []"
    "prefix (base @ ''/'' @ encodeURIComponent token) (pr_url (request_of base show ok c g))"
  using assms
  by (cases c) (auto simp: request_of_def packRequest_def GRANT_HEADER_def split: option.splits list.splits)

section \<open>Properties\<close>

text \<open>
  Property C14. Whatever calls a page makes, in whatever order replies arrive and whenever storage throws:
  a request that carries a viewer grant goes to the address of one pack, and the grant is one that the
  server gave for the password of that same pack, or that this browser had stored for it when the page loaded.
\<close>

theorem grant_stays_with_its_pack:
  assumes "(c, rq) \<in> set (outgoing base show es (page_loaded stored))" and "(GRANT_HEADER, v) \<in> set (pr_headers rq)"
  shows "\<exists>token. pack_of c = Some token \<and> prefix (base @ ''/'' @ encodeURIComponent token) (pr_url rq)
     \<and> v \<noteq> [] \<and> known_grant show stored es token v"
  using assms(1)
proof (induction es rule: rev_induct)
  case (snoc e es)
  show ?case
  proof (cases "(c, rq) \<in> set (outgoing base show es (page_loaded stored))")
    case True
    then show ?thesis using snoc.IH by (auto simp: known_grant_def)
  next
    case False
    let ?g = "fold (page_step show) es (page_loaded stored)"
    obtain ok where rq: "rq = request_of base show ok c ?g"
      using snoc.prems False unfolding outgoing_append by (cases e) auto
    obtain token where t: "pack_of c = Some token" "readGrant show ok token ?g = Some v" "v \<noteq> []"
        "prefix (base @ ''/'' @ encodeURIComponent token) (pr_url rq)"
      using request_grant assms(2) unfolding rq by blast
    have "known_grant show stored es token v" using readGrant_known[OF provenance_page t(2)] .
    with t show ?thesis by (auto simp: known_grant_def)
  qed
qed simp

theorem grant_stays_with_its_pack_witness:
  "\<exists>token. pack_of (FetchPack ''a'') = Some token
     \<and> prefix (PUBLIC None @ ''/'' @ encodeURIComponent token)
         (pr_url (request_of (PUBLIC None) (\<lambda>_. []) False (FetchPack ''a'')
            (fold (page_step (\<lambda>_. [])) [Received (VerifyPassword ''a'' ''pw'') (Http 200 [] (Some (JObj [(''grant'', JStr ''g'')]))) False]
               (page_loaded (\<lambda>_. None)))))
     \<and> ''g'' \<noteq> [] \<and> known_grant (\<lambda>_. []) (\<lambda>_. None)
         [Received (VerifyPassword ''a'' ''pw'') (Http 200 [] (Some (JObj [(''grant'', JStr ''g'')]))) False, Sent (FetchPack ''a'') False] token ''g''"
  by (rule grant_stays_with_its_pack[where base = "PUBLIC None"])
    (simp_all add: reply_to_def read_reply_def http_ok_def keep_grant_def storeGrant_def page_loaded_def request_of_def
      packRequest_def readGrant_def GRANT_HEADER_def)

text \<open>
  Once a password is accepted, its grant accompanies every request for the pack until a refusal asks for
  the password again or another grant replaces it; that storage is blocked changes nothing.
\<close>

fun disturbs :: "string \<Rightarrow> page_event \<Rightarrow> bool" where
  "disturbs token (Received c (Http status _ parsed) _) \<longleftrightarrow>
     pack_of c = Some token \<and> wants_password status (error_body parsed) \<or> (\<exists>pw. c = VerifyPassword token pw \<and> http_ok status)"
| "disturbs token _ \<longleftrightarrow> False"

lemma failure_memory:
  "token \<noteq> Some t \<or> \<not> wants_password status (error_body parsed) \<Longrightarrow>
     memoryGrants (snd (failure ok token status statusText parsed g)) t = memoryGrants g t"
  by (auto simp: failure_def forgetGrant_def Let_def split: sum.splits option.splits)

lemma read_reply_memory:
  assumes "token \<noteq> Some t \<or> (\<forall>status why parsed. reply = Http status why parsed \<longrightarrow> \<not> wants_password status (error_body parsed))"
  shows "memoryGrants (snd (read_reply ok token as_json reply g)) t = memoryGrants g t"
proof (cases reply)
  case (Http status why parsed)
  have "memoryGrants (snd (failure ok token status why parsed g)) t = memoryGrants g t"
    using assms Http by (intro failure_memory) auto
  then show ?thesis using Http by (auto simp: read_reply_def split: option.splits prod.splits)
qed (simp add: read_reply_def)

lemma undisturbed_memory:
  assumes "\<not> disturbs token e"
  shows "memoryGrants (page_step show e g) token = memoryGrants g token"
proof (cases e)
  case (Received c reply ok)
  have calm: "pack_of c \<noteq> Some token \<or> (\<forall>status why parsed. reply = Http status why parsed \<longrightarrow> \<not> wants_password status (error_body parsed))"
    using assms Received by auto
  show ?thesis
  proof (cases c)
    case (VerifyPassword t pw)
    let ?r = "read_reply ok None True reply g"
    have m: "memoryGrants (snd ?r) token = memoryGrants g token" by (rule read_reply_memory) simp
    have "memoryGrants (snd (keep_grant show ok t ?r)) token = memoryGrants g token"
    proof (cases rule: keep_grant_cases[of ?r "show" ok t])
      case (kept j v g')
      from read_reply_json[OF kept(1)] have "g' = g" "t \<noteq> token" using assms Received VerifyPassword by auto
      then show ?thesis using kept(3) by (simp add: storeGrant_def Let_def)
    qed (use m in simp)
    then show ?thesis using Received VerifyPassword by (simp add: reply_to_def)
  qed (use Received calm in \<open>auto simp: reply_to_def intro!: read_reply_memory\<close>)
qed simp

lemma accepted_password_lasts:
  assumes "list_all (\<lambda>e. \<not> disturbs token e) es" and "http_ok status" and "v \<noteq> []" and "pack_of c = Some token"
  shows "(GRANT_HEADER, v) \<in> set (pr_headers (request_of base show readable c (fold (page_step show) es
     (page_step show (Received (VerifyPassword token pw) (Http status why (Some (JObj [(''grant'', JStr v)]))) writable) g))))"
proof -
  let ?g = "page_step show (Received (VerifyPassword token pw) (Http status why (Some (JObj [(''grant'', JStr v)]))) writable) g"
  have "memoryGrants (fold (page_step show) es ?g) token = Some (Some (JStr v))"
    using assms(1)
  proof (induction es rule: rev_induct)
    case Nil
    then show ?case using assms(2) by (simp add: reply_to_def read_reply_def keep_grant_def storeGrant_def Let_def)
  next
    case (snoc e es)
    then show ?case using undisturbed_memory[of token e "show"] by simp
  qed
  then show ?thesis using assms(3,4)
    by (cases c; cases v) (auto simp: request_of_def packRequest_def readGrant_def)
qed

end
