(* ===== verification/PackTimeline.thy ===== *)
theory PackTimeline
  imports TripEvents
begin

text \<open>
  The one chronological list of an audit pack (\<open>client-portal/lib/timeline.ts\<close>), where its journey strip
  breaks (\<open>lib/overview.ts\<close>) and when an action on an exception counts as anchored (\<open>lib/anchors.ts\<close>),
  with the records of \<open>lib/types.ts\<close> they are about. A title is a constructor with the values
  it prints; how a date parses is the browser's \<open>parseDate\<close>.
\<close>

section \<open>Records of a pack\<close>

datatype evidence_tier = Tier_anchored | Tier_corroborated | Tier_recorded | Tier_declared

datatype position_source = Driver_phone | Vehicle_tracker | Trailer_tracker

record position_fix =
  pf_lat :: number
  pf_lng :: number
  pf_source :: position_source
  pf_recorded_at :: "string option"
  pf_accuracy_metres :: "number option"

record evidence_file =
  ef_artifact_id :: string
  ef_role :: string
  ef_sha256 :: string
  ef_mime_type :: string
  ef_captured_at :: string
  ef_tier :: evidence_tier

datatype field_value = Text_value string | Number_value number | No_value

record anchored_field =
  af_name :: string
  af_value :: field_value
  af_matches_anchor :: bool

datatype proximity = Within_limit | Separated | Unverified

record location_assessment =
  la_proximity :: proximity
  la_separation_metres :: "number option"
  la_driver_in_precinct :: "bool option"
  la_truck_in_precinct :: "bool option"
  la_reasons :: "string list"

record pack_phase =
  pp_phase_event_id :: string
  pp_sequence_number :: int
  pp_phase_type :: string
  pp_status :: string
  pp_anchor_status :: string
  pp_trip_stop_id :: "string option"
  pp_precinct_name :: "string option"
  pp_slot_time :: "string option"
  pp_completed_at :: "string option"
  pp_driver_captured_at :: "string option"
  pp_driver_phone :: "position_fix option"
  pp_vehicle_tracker :: "position_fix option"
  pp_trailer_fixes :: "position_fix list"
  pp_location_assessment :: "location_assessment option"
  pp_location_warning_acknowledged_at :: "string option"
  pp_location_warning_reason :: "string option"
  pp_overridden_by_dispatcher :: bool
  pp_override_note :: "string option"
  pp_seal_number :: "string option"
  pp_seal_condition :: "string field"
  pp_parcel_count_origin :: "number option"
  pp_parcel_count_destination :: "number option"
  pp_driver_visual_count :: "number option"
  pp_evidence :: "evidence_file list"
  pp_anchored_fields :: "anchored_field list"
  pp_anchor_receipt_id :: "string option"
  pp_tier :: evidence_tier

record pack_checkpoint =
  pc_checkpoint_id :: string
  pc_checkpoint_type :: string
  pc_recorded_at :: string
  pc_driver_phone :: "position_fix option"
  pc_vehicle_tracker :: "position_fix option"
  pc_is_deviation :: bool
  pc_note :: "string option"
  pc_evidence :: "evidence_file list"
  pc_tier :: evidence_tier

datatype anchor_action = Action_raised | Action_reviewed | Action_cancelled

record exception_photo =
  xp_artifact_id :: string
  xp_position :: number
  xp_sha256 :: string
  xp_mime_type :: string
  xp_captured_at :: string
  xp_tier :: evidence_tier
  xp_anchor_event_id :: "string option"
  xp_anchor_receipt_id :: "string option"

record exception_anchor =
  xa_event_id :: string
  xa_action :: anchor_action
  xa_receipt_type :: string
  xa_anchor_status :: string
  xa_receipt_id :: "string option"
  xa_occurred_at :: string
  xa_tier :: evidence_tier

record pack_exception =
  px_exception_id :: string
  px_exception_type :: string
  px_source :: string
  px_severity :: string
  px_description :: string
  px_raised_at :: string
  px_position :: "position_fix option"
  px_phase_event_id :: "string option"
  px_checkpoint_id :: "string option"
  px_consignment_id :: "string option"
  px_review_status :: string
  px_review_outcome :: "string option"
  px_reviewed_at :: "string option"
  px_reviewer_name :: "string option"
  px_contact_method :: "string option"
  px_review_note :: "string option"
  px_evidence :: "evidence_file list"
  px_tier :: evidence_tier
  px_photos :: "exception_photo list field"
  px_anchors :: "exception_anchor list field"
  px_position_tier :: "evidence_tier field"

text \<open>Of the manifest the lists the timeline is made of, and when the incident was first raised.\<close>

record pack_events =
  pm_phases :: "pack_phase list"
  pm_checkpoints :: "pack_checkpoint list"
  pm_exceptions :: "pack_exception list"
  pm_incident_first_raised_at :: "string option"

section \<open>The timeline\<close>

datatype item_title = Title_phase int string "string option" | Title_checkpoint string | Title_exception nat string

datatype item_kind = Phase_item pack_phase | Checkpoint_item pack_checkpoint | Exception_item pack_exception bool

record timeline_item =
  ti_kind :: item_kind
  ti_id :: string
  ti_at :: "string option"
  ti_title :: item_title
  ti_tier :: evidence_tier
  ti_pending :: bool
  ti_positions :: "position_fix list"
  ti_anchorWarning :: bool

text \<open>\<open>None\<close> is \<open>Infinity\<close>, the place of a time that is missing or cannot be read.\<close>

definition instantMs :: "js_locale \<Rightarrow> string option \<Rightarrow> number option" where
  "instantMs L t = (case t of None \<Rightarrow> None | Some s \<Rightarrow> if s = [] then None else parseDate L s)"

definition compareInstants :: "js_locale \<Rightarrow> string option \<Rightarrow> string option \<Rightarrow> number" where
  "compareInstants L a b = (case (instantMs L a, instantMs L b) of
      (Some x, Some y) \<Rightarrow> if x < y then - 1 else if x > y then 1 else 0
    | (Some _, None) \<Rightarrow> - 1
    | (None, Some _) \<Rightarrow> 1
    | (None, None) \<Rightarrow> 0)"

definition present :: "position_fix option list \<Rightarrow> position_fix list" where
  "present fixes = map the (filter (\<lambda>f. f \<noteq> None) fixes)"

definition exceptionLabel :: "nat \<Rightarrow> pack_exception \<Rightarrow> item_title" where
  "exceptionLabel index e = Title_exception (Suc index) (px_exception_type e)"

definition phase_item :: "pack_phase \<Rightarrow> timeline_item" where
  "phase_item p = (let anchorWarning = list_ex (\<lambda>f. \<not> af_matches_anchor f) (pp_anchored_fields p) in
     \<lparr>ti_kind = Phase_item p, ti_id = pp_phase_event_id p, ti_at = pp_completed_at p,
      ti_title = Title_phase (pp_sequence_number p) (pp_phase_type p)
        (if pp_precinct_name p = Some [] then None else pp_precinct_name p),
      ti_tier = (if anchorWarning then Tier_recorded else pp_tier p), ti_pending = (pp_completed_at p = None),
      ti_positions = present ([pp_driver_phone p, pp_vehicle_tracker p] @ map Some (pp_trailer_fixes p)),
      ti_anchorWarning = anchorWarning\<rparr>)"

definition checkpoint_item :: "pack_checkpoint \<Rightarrow> timeline_item" where
  "checkpoint_item c =
     \<lparr>ti_kind = Checkpoint_item c, ti_id = pc_checkpoint_id c, ti_at = Some (pc_recorded_at c),
      ti_title = Title_checkpoint (pc_checkpoint_type c), ti_tier = pc_tier c, ti_pending = False,
      ti_positions = present [pc_driver_phone c, pc_vehicle_tracker c], ti_anchorWarning = False\<rparr>"

definition exception_item :: "nat \<Rightarrow> pack_exception \<Rightarrow> timeline_item" where
  "exception_item i e =
     \<lparr>ti_kind = Exception_item e (px_severity e = ''critical''), ti_id = px_exception_id e, ti_at = Some (px_raised_at e),
      ti_title = exceptionLabel i e, ti_tier = px_tier e, ti_pending = False,
      ti_positions = present [px_position e], ti_anchorWarning = False\<rparr>"

definition timed_items :: "pack_events \<Rightarrow> timeline_item list" where
  "timed_items m = map phase_item (pm_phases m) @ map checkpoint_item (pm_checkpoints m)
     @ map (\<lambda>(i, e). exception_item i e) (zip [0..<length (pm_exceptions m)] (pm_exceptions m))"

definition plan_number :: "timeline_item \<Rightarrow> int" where
  "plan_number i = (case ti_kind i of Phase_item p \<Rightarrow> pp_sequence_number p | _ \<Rightarrow> 0)"

definition is_phase_item :: "timeline_item \<Rightarrow> bool" where
  "is_phase_item i \<longleftrightarrow> (case ti_kind i of Phase_item _ \<Rightarrow> True | _ \<Rightarrow> False)"

definition buildTimeline :: "js_locale \<Rightarrow> pack_events \<Rightarrow> timeline_item list" where
  "buildTimeline L m = (let timed = timed_items m in
     js_sort (\<lambda>a b. compareInstants L (ti_at a) (ti_at b)) (filter (\<lambda>i. \<not> ti_pending i) timed)
     @ js_sort (\<lambda>a b. of_int (plan_number a - plan_number b)) (filter (\<lambda>i. ti_pending i \<and> is_phase_item i) timed))"

section \<open>The break of the journey strip, and anchors of exceptions\<close>

definition incidentBreakAfter :: "js_locale \<Rightarrow> pack_events \<Rightarrow> int option" where
  "incidentBreakAfter L m = (case pm_incident_first_raised_at m of
      None \<Rightarrow> None
    | Some raised \<Rightarrow> foldl (\<lambda>after phase. case pp_completed_at phase of
          Some (c # s) \<Rightarrow> if compareInstants L (Some (c # s)) (Some raised) \<le> 0 then Some (pp_sequence_number phase) else after
        | _ \<Rightarrow> after) None (pm_phases m))"

datatype not_anchored = No_longer_matches | Anchoring_pending | Anchoring_failed | Not_anchored

definition notAnchoredReason :: "exception_anchor \<Rightarrow> not_anchored option" where
  "notAnchoredReason a =
     (if xa_anchor_status a = ''anchored'' then (if xa_tier a = Tier_anchored then None else Some No_longer_matches)
      else if xa_anchor_status a = ''pending'' then Some Anchoring_pending
      else if xa_anchor_status a = ''failed'' then Some Anchoring_failed
      else Some Not_anchored)"

section \<open>The timeline shows everything once, in order\<close>

text \<open>A time that cannot be read orders after every other.\<close>

definition instant_key :: "js_locale \<Rightarrow> timeline_item \<Rightarrow> nat \<times> number" where
  "instant_key L i = (case instantMs L (ti_at i) of None \<Rightarrow> (1, 0) | Some x \<Rightarrow> (0, x))"

lemma compareInstants_key: "compareInstants L (ti_at a) (ti_at b) \<le> 0 \<longleftrightarrow> instant_key L a \<le> instant_key L b"
  by (auto simp: compareInstants_def instant_key_def less_eq_prod_simp split: option.splits)

lemma only_phases_wait: "i \<in> set (timed_items m) \<Longrightarrow> ti_pending i \<Longrightarrow> is_phase_item i"
  by (auto simp: timed_items_def phase_item_def checkpoint_item_def exception_item_def is_phase_item_def Let_def)

lemma timed_item_fields:
  "ti_id (phase_item p) = pp_phase_event_id p" "ti_id (checkpoint_item c) = pc_checkpoint_id c"
  "ti_id (exception_item i e) = px_exception_id e"
  by (simp_all add: phase_item_def checkpoint_item_def exception_item_def Let_def)

lemma timed_ids:
  "map ti_id (timed_items m)
     = map pp_phase_event_id (pm_phases m) @ map pc_checkpoint_id (pm_checkpoints m) @ map px_exception_id (pm_exceptions m)"
proof -
  have "map (\<lambda>x. px_exception_id (snd x)) (zip [0..<length es] es) = map px_exception_id (map snd (zip [0..<length es] es))" for es
    by (simp only: map_map comp_def)
  then show ?thesis by (simp add: timed_items_def timed_item_fields comp_def case_prod_unfold)
qed

lemma timeline_is_complete_and_ordered:
  "mset (map ti_id (buildTimeline L m))
     = mset (map pp_phase_event_id (pm_phases m) @ map pc_checkpoint_id (pm_checkpoints m) @ map px_exception_id (pm_exceptions m))
   \<and> (\<exists>happened waiting. buildTimeline L m = happened @ waiting \<and> list_all (\<lambda>i. \<not> ti_pending i) happened
        \<and> list_all ti_pending waiting \<and> sorted (map (instant_key L) happened) \<and> sorted (map plan_number waiting))"
proof -
  let ?t = "timed_items m"
  let ?h = "sort_key (instant_key L) (filter (\<lambda>i. \<not> ti_pending i) ?t)" and ?w = "sort_key plan_number (filter ti_pending ?t)"
  have w: "filter (\<lambda>i. ti_pending i \<and> is_phase_item i) ?t = filter ti_pending ?t"
    by (rule filter_cong) (auto intro: only_phases_wait)
  have "js_sort (\<lambda>a b. of_int (plan_number a - plan_number b)) (filter ti_pending ?t) = ?w"
    by (rule js_sort_key) (simp add: of_int_le_0_iff[of "plan_number _ - plan_number _", where ?'a = real, simplified])
  moreover have "js_sort (\<lambda>a b. compareInstants L (ti_at a) (ti_at b)) (filter (\<lambda>i. \<not> ti_pending i) ?t) = ?h"
    by (rule js_sort_key) (simp add: compareInstants_key)
  ultimately have b: "buildTimeline L m = ?h @ ?w" by (simp add: buildTimeline_def Let_def w)
  have "mset (buildTimeline L m) = mset ?t"
    unfolding b by (simp add: union_commute flip: multiset_partition)
  then have "mset (map ti_id (buildTimeline L m)) = mset (map ti_id ?t)" by (metis mset_map)
  moreover have "list_all (\<lambda>i. \<not> ti_pending i) ?h" "list_all ti_pending ?w" "sorted (map (instant_key L) ?h)" "sorted (map plan_number ?w)"
    by (simp_all add: list_all_iff)
  ultimately show ?thesis unfolding timed_ids using b by blast
qed

text \<open>A record whose stored value no longer matches its receipt is never shown as anchored.\<close>

lemma mismatch_is_not_anchored:
  "i \<in> set (buildTimeline L m) \<Longrightarrow> ti_anchorWarning i \<Longrightarrow> ti_tier i = Tier_recorded"
  by (auto simp: buildTimeline_def Let_def timed_items_def phase_item_def checkpoint_item_def exception_item_def split: if_splits)

text \<open>The strip breaks after the last listed phase that was completed no later than the incident was raised.\<close>

lemma incident_break:
  assumes "pm_incident_first_raised_at m = Some raised" "pm_phases m = before @ phase # after"
    and "pp_completed_at phase = Some t" "t \<noteq> []" "compareInstants L (Some t) (Some raised) \<le> 0"
    and "list_all (\<lambda>q. case pp_completed_at q of Some u \<Rightarrow> u = [] \<or> compareInstants L (Some u) (Some raised) > 0 | None \<Rightarrow> True) after"
  shows "incidentBreakAfter L m = Some (pp_sequence_number phase)"
proof -
  let ?f = "\<lambda>after phase. case pp_completed_at phase of
      Some (c # s) \<Rightarrow> if compareInstants L (Some (c # s)) (Some raised) \<le> 0 then Some (pp_sequence_number phase) else after
    | _ \<Rightarrow> after"
  have stays: "foldl ?f x after = x" for x
    using assms(6) by (induction after arbitrary: x) (auto split: option.splits list.splits)
  show ?thesis using assms(1-5) by (cases t) (simp_all add: incidentBreakAfter_def stays)
qed

end
