(* ===== verification/SessionReturn.thy ===== *)
theory SessionReturn
  imports AnchorCheck "HOL-Library.Sublist"
begin

text \<open>
  The inactivity window of a session (\<open>shared/lib/session/idle.ts\<close>) with the hook that enforces it
  (\<open>driver-pwa/lib/hooks/useIdleTimeout.ts\<close>), and the path a user returns to after signing in again
  (\<open>shared/lib/session/return-path.ts\<close>). Storage is the stored text of the one key, or nothing; every access
  may throw, and says so by a truth value.
\<close>

section \<open>The inactivity window\<close>

definition SESSION_IDLE_TIMEOUT_MS :: number where "SESSION_IDLE_TIMEOUT_MS = 60 * 60 * 1000"
definition CLIENT_LEAD_MS :: number where "CLIENT_LEAD_MS = 15 * 1000"
definition CLIENT_IDLE_TIMEOUT_MS :: number where "CLIENT_IDLE_TIMEOUT_MS = SESSION_IDLE_TIMEOUT_MS - CLIENT_LEAD_MS"

definition recordActivity :: "(number \<Rightarrow> string) \<Rightarrow> bool \<Rightarrow> number \<Rightarrow> string option \<Rightarrow> string option" where
  "recordActivity print ok now store = (if ok then Some (print now) else store)"

definition clearActivity :: "bool \<Rightarrow> string option \<Rightarrow> string option" where
  "clearActivity ok store = (if ok then None else store)"

definition readLastActivity :: "bool \<Rightarrow> string option \<Rightarrow> number option" where
  "readLastActivity ok store = (if \<not> ok then None
     else case store of None \<Rightarrow> None | Some raw \<Rightarrow> stringNumber raw)"

definition isSessionExpired :: "number option \<Rightarrow> number \<Rightarrow> bool" where
  "isSessionExpired lastActivity now = (case lastActivity of
      None \<Rightarrow> False | Some t \<Rightarrow> now - t \<ge> CLIENT_IDLE_TIMEOUT_MS)"

definition msUntilExpiry :: "number option \<Rightarrow> number \<Rightarrow> number" where
  "msUntilExpiry lastActivity now = (case lastActivity of
      None \<Rightarrow> CLIENT_IDLE_TIMEOUT_MS | Some t \<Rightarrow> max 1 (t + CLIENT_IDLE_TIMEOUT_MS - now))"

section \<open>The hook\<close>

text \<open>Its state: whether it has expired, when its timer is due, and how often \<open>onExpire\<close> was called.\<close>

record idle_hook =
  ih_expired :: bool
  ih_timer :: "number option"
  ih_calls :: nat
  ih_store :: "string option"

definition expire :: "bool \<Rightarrow> idle_hook \<Rightarrow> idle_hook" where
  "expire ok h = (if ih_expired h then h
     else h\<lparr>ih_expired := True, ih_store := clearActivity ok (ih_store h), ih_calls := Suc (ih_calls h)\<rparr>)"

definition rearm :: "bool \<Rightarrow> number \<Rightarrow> idle_hook \<Rightarrow> idle_hook" where
  "rearm ok now h = (if ih_expired h then h
     else let lastActivity = readLastActivity ok (ih_store h) in
       if isSessionExpired lastActivity now then expire ok (h\<lparr>ih_timer := None\<rparr>)
       else h\<lparr>ih_timer := Some (now + msUntilExpiry lastActivity now)\<rparr>)"

definition onActivity :: "(number \<Rightarrow> string) \<Rightarrow> bool \<Rightarrow> bool \<Rightarrow> number \<Rightarrow> idle_hook \<Rightarrow> idle_hook" where
  "onActivity print ok visible now h = (if \<not> visible then h
     else rearm ok now (h\<lparr>ih_store := recordActivity print ok now (ih_store h)\<rparr>))"

definition idle_mounted :: "(number \<Rightarrow> string) \<Rightarrow> bool \<Rightarrow> number \<Rightarrow> string option \<Rightarrow> idle_hook" where
  "idle_mounted print ok now store = rearm ok now
     \<lparr>ih_expired = False, ih_timer = None, ih_calls = 0,
      ih_store = (if readLastActivity ok store = None then recordActivity print ok now store else store)\<rparr>"

text \<open>
  A run of the hook: an interaction, the timer at or after its due time, or another tab that writes or
  clears the timestamp. Time does not go back.
\<close>

inductive idle_run :: "(number \<Rightarrow> string) \<Rightarrow> number \<Rightarrow> idle_hook \<Rightarrow> bool" for print where
  mount: "idle_run print now (idle_mounted print ok now store)"
| activity: "idle_run print t h \<Longrightarrow> t \<le> now \<Longrightarrow> idle_run print now (onActivity print ok visible now h)"
| timer: "idle_run print t h \<Longrightarrow> t \<le> now \<Longrightarrow> ih_timer h = Some due \<Longrightarrow> due \<le> now \<Longrightarrow> idle_run print now (rearm ok now h)"
| other_tab: "idle_run print t h \<Longrightarrow> t \<le> now \<Longrightarrow> idle_run print now (rearm ok now (h\<lparr>ih_store := store\<rparr>))"

text \<open>
  While the session lives a timer is armed, due after the moment it was armed; \<open>onExpire\<close> is called
  once when the session ends, and never again.
\<close>

definition idle_ok :: "idle_hook \<Rightarrow> bool" where
  "idle_ok h \<longleftrightarrow> (if ih_expired h then ih_calls h = 1 else ih_calls h = 0 \<and> ih_timer h \<noteq> None)"

lemma rearm_ok:
  assumes "if ih_expired h then ih_calls h = 1 else ih_calls h = 0"
  shows "idle_ok (rearm ok now h)"
  using assms by (auto simp: rearm_def expire_def idle_ok_def Let_def)

lemma idle_expires_once: "idle_run print now h \<Longrightarrow> idle_ok h"
proof (induction rule: idle_run.induct)
  case (mount now ok store)
  show ?case unfolding idle_mounted_def by (rule rearm_ok) simp
next
  case (activity t h now ok visible)
  have "idle_ok (rearm ok now (h\<lparr>ih_store := recordActivity print ok now (ih_store h)\<rparr>))"
    by (rule rearm_ok) (use activity.IH in \<open>auto simp: idle_ok_def\<close>)
  then show ?case using activity.IH by (simp add: onActivity_def)
next
  case (timer t h now due ok)
  show ?case by (rule rearm_ok) (use timer.IH in \<open>auto simp: idle_ok_def\<close>)
next
  case (other_tab t h now ok store)
  show ?case by (rule rearm_ok) (use other_tab.IH in \<open>auto simp: idle_ok_def\<close>)
qed

lemma rearm_due_later: "\<not> ih_expired (rearm ok now h) \<Longrightarrow> \<exists>due. ih_timer (rearm ok now h) = Some due \<and> now < due"
  by (auto simp: rearm_def expire_def Let_def msUntilExpiry_def CLIENT_IDLE_TIMEOUT_MS_def SESSION_IDLE_TIMEOUT_MS_def
      CLIENT_LEAD_MS_def split: option.splits if_splits)

section \<open>The return path\<close>

definition isOrIsUnderPrefix :: "string \<Rightarrow> string \<Rightarrow> bool" where
  "isOrIsUnderPrefix path p \<longleftrightarrow> path = p \<or> prefix (p @ ''/'') path \<or> prefix (p @ ''?'') path"

text \<open>The class of the regular expression: NUL to space, and DEL.\<close>

definition control_or_space :: "char \<Rightarrow> bool" where
  "control_or_space c \<longleftrightarrow> (of_char c :: nat) \<le> 32 \<or> (of_char c :: nat) = 127"

definition isSafeReturnPath :: "string \<Rightarrow> string list \<Rightarrow> bool" where
  "isSafeReturnPath path disallowedPrefixes =
     (if path = [] then False
      else if \<not> prefix ''/'' path then False
      else if prefix ''//'' path \<or> prefix [CHR ''/'', CHR 0x5C] path then False
      else if sublist ''://'' path then False
      else if CHR 0x5C \<in> set path then False
      else if list_ex control_or_space path then False
      else \<not> list_ex (isOrIsUnderPrefix path) disallowedPrefixes)"

definition saveReturnPath :: "bool \<Rightarrow> string \<Rightarrow> string list \<Rightarrow> string option \<Rightarrow> string option" where
  "saveReturnPath ok path disallowedPrefixes store =
     (if \<not> isSafeReturnPath path disallowedPrefixes then store else if ok then Some path else store)"

definition clearReturnPath :: "bool \<Rightarrow> string option \<Rightarrow> string option" where
  "clearReturnPath ok store = (if ok then None else store)"

definition takeReturnPath :: "bool \<Rightarrow> bool \<Rightarrow> string list \<Rightarrow> string option \<Rightarrow> string option \<times> string option" where
  "takeReturnPath reads clears disallowedPrefixes store = (if \<not> reads then (None, store)
     else let store1 = clearReturnPath clears store in
       (case store of None \<Rightarrow> (None, store1)
        | Some raw \<Rightarrow> (if isSafeReturnPath raw disallowedPrefixes then Some raw else None, store1)))"

section \<open>Where the browser would go\<close>

text \<open>
  The first steps of the WHATWG URL parser on an address that is resolved against the page's own: control
  characters and spaces are stripped from both ends and tab, LF and CR everywhere; the address then names
  another origin if it has a scheme of its own or begins with two slashes of either kind.
\<close>

definition url_input :: "string \<Rightarrow> string" where
  "url_input s = (let c0 = (\<lambda>c. (of_char c :: nat) \<le> 32) in
     filter (\<lambda>c. c \<notin> {CHR 0x09, CHR 0x0A, CHR 0x0D}) (rev (dropWhile c0 (rev (dropWhile c0 s)))))"

definition is_slash :: "char \<Rightarrow> bool" where
  "is_slash c \<longleftrightarrow> c = CHR ''/'' \<or> c = CHR 0x5C"

definition has_scheme :: "string \<Rightarrow> bool" where
  "has_scheme u = (let letter = (\<lambda>c. c \<in> set ''abcdefghijklmnopqrstuvwxyzABCDEFGHIJKLMNOPQRSTUVWXYZ'');
       more = (\<lambda>c. letter c \<or> c \<in> set ''0123456789+-.'')
     in case u of [] \<Rightarrow> False | c # r \<Rightarrow> letter c \<and> prefix '':'' (dropWhile more r))"

definition stays_here :: "string \<Rightarrow> bool" where
  "stays_here s = (let u = url_input s in \<not> has_scheme u \<and> \<not> (case u of c # d # _ \<Rightarrow> is_slash c \<and> is_slash d | _ \<Rightarrow> False))"

lemma url_input_clean: "\<not> list_ex control_or_space s \<Longrightarrow> url_input s = s"
proof -
  assume "\<not> list_ex control_or_space s"
  then have clean: "\<forall>c \<in> set s. \<not> (of_char c :: nat) \<le> 32" by (auto simp: list_ex_iff control_or_space_def)
  moreover from this have "\<forall>c \<in> set s. c \<notin> {CHR 0x09, CHR 0x0A, CHR 0x0D}" by force
  ultimately show ?thesis by (simp add: url_input_def Let_def dropWhile_none)
qed

lemma safe_path_stays_here:
  assumes "isSafeReturnPath path barred"
  shows "stays_here path"
proof -
  have clean: "\<not> list_ex control_or_space path" and start: "prefix ''/'' path" "\<not> prefix ''//'' path" "CHR 0x5C \<notin> set path"
    using assms by (auto simp: isSafeReturnPath_def split: if_splits)
  then obtain r where r: "path = CHR ''/'' # r" by (auto simp: prefix_def)
  show ?thesis
    using start(2,3) r url_input_clean[OF clean] by (auto simp: stays_here_def has_scheme_def is_slash_def Let_def split: list.splits)
qed

text \<open>
  The ways a path can name a barred page: the page itself, one below it, or it with a query.
\<close>

lemma prefix_parts:
  "isOrIsUnderPrefix path p \<longleftrightarrow> path = p \<or> (\<exists>rest. path = p @ ''/'' @ rest) \<or> (\<exists>query. path = p @ ''?'' @ query)"
  by (auto simp: isOrIsUnderPrefix_def prefix_def)

text \<open>
  Property C15. What sign-in redirects to was stored, is an absolute path that keeps the browser on the
  application's own origin however the URL parser reads it, and is used up by being read. Its text is no barred
  page: for no barred page p is it p itself, a path p/... below it, or p?... with a query. (The text is compared as it
  stands; fragments and dot segments are not resolved, see \<open>barred_page_by_another_name\<close>.)
\<close>

theorem return_path_is_safe:
  assumes "takeReturnPath reads clears barred store = (Some path, store')"
  shows "store = Some path \<and> hd path = CHR ''/'' \<and> stays_here path
     \<and> (\<forall>p \<in> set barred. path \<noteq> p \<and> (\<forall>rest. path \<noteq> p @ ''/'' @ rest) \<and> (\<forall>query. path \<noteq> p @ ''?'' @ query))
     \<and> store' = (if clears then None else Some path)"
proof -
  have taken: "store = Some path" "isSafeReturnPath path barred" "store' = clearReturnPath clears store"
    using assms by (auto simp: takeReturnPath_def Let_def split: option.splits if_splits)
  then have "\<forall>p \<in> set barred. \<not> isOrIsUnderPrefix path p" "prefix ''/'' path"
    by (auto simp: isSafeReturnPath_def list_ex_iff split: if_splits)
  then show ?thesis using taken by (auto simp: prefix_parts prefix_def safe_path_stays_here clearReturnPath_def)
qed

text \<open>
  The check reads the path as text, so a barred page under another spelling of its address is let through: with a
  fragment, or reached by a dot segment that the browser resolves. Both stay on the application's origin.
\<close>

lemma barred_page_by_another_name:
  "isSafeReturnPath ''/login#top'' [''/login'', ''/otp'']" "isSafeReturnPath ''/trips/../login'' [''/login'', ''/otp'']"
  by code_simp+

lemma saved_path_is_returned:
  "isSafeReturnPath path barred \<Longrightarrow>
     takeReturnPath True clears barred (saveReturnPath True path barred store) = (Some path, clearReturnPath clears (Some path))"
  by (simp add: saveReturnPath_def takeReturnPath_def)

theorem return_path_is_safe_witness:
  "takeReturnPath True True [''/login'', ''/otp''] (Some ''/trips?id=1'') = (Some ''/trips?id=1'', None)
   \<and> stays_here ''/trips?id=1'' \<and> \<not> stays_here [CHR ''/'', CHR 0x0A, CHR ''/'', CHR ''e'']
   \<and> takeReturnPath True True [''/login'', ''/otp''] (Some ''/login?next=1'') = (None, None)"
proof -
  have taken: "takeReturnPath True True [''/login'', ''/otp''] (Some ''/trips?id=1'') = (Some ''/trips?id=1'', None)"
    "takeReturnPath True True [''/login'', ''/otp''] (Some ''/login?next=1'') = (None, None)" by code_simp+
  have "\<not> stays_here [CHR ''/'', CHR 0x0A, CHR ''/'', CHR ''e'']" by code_simp
  then show ?thesis using taken return_path_is_safe[OF taken(1)] by blast
qed

end
