(* ===== verification/ReceiverApi.thy ===== *)
theory ReceiverApi
  imports ApiClient
begin

text \<open>
  What the receiver page asks of the server and keeps in the tab: the requests and the errors of
  \<open>receiver/lib/api.ts\<close>, the two session-storage entries of \<open>receiver/lib/identity-stash.ts\<close>, the limits and the
  consent wording, and the shared checks of a recipient (\<open>shared/lib/utils/sa-id.ts\<close>).

  What is the browser's or the server's is a field of \<open>receiver_env\<close>: reading an HTTP date, the URL parser, the
  page's own origin, the canvas (in the theory \<open>Attestation\<close>) and the two casts \<open>as T\<close> of a reply to the
  shape that the server declares for it.
\<close>

section \<open>Errors\<close>

record handover_error =
  he_status :: int
  he_message :: string
  he_retryAfterMs :: "number option"

definition NETWORK_FAILURE_STATUS :: int where "NETWORK_FAILURE_STATUS = 0"
definition NETWORK_FAILURE_MESSAGE :: string where "NETWORK_FAILURE_MESSAGE = ''The server could not be reached.''"
definition UNREADABLE_REPLY_MESSAGE :: string where
  "UNREADABLE_REPLY_MESSAGE = ''The server'' @ [CHR 39] @ ''s reply could not be read.''"
definition HTTP_NOT_FOUND :: int where "HTTP_NOT_FOUND = 404"
definition HTTP_TOO_MANY_REQUESTS :: int where "HTTP_TOO_MANY_REQUESTS = 429"
definition HTTP_SERVER_ERROR_FLOOR :: int where "HTTP_SERVER_ERROR_FLOOR = 500"
definition SCAN_TIMEOUT_MS :: int where "SCAN_TIMEOUT_MS = 15000"
definition WRITE_TIMEOUT_MS :: int where "WRITE_TIMEOUT_MS = 30000"

lemmas api_constants = NETWORK_FAILURE_STATUS_def HTTP_NOT_FOUND_def HTTP_TOO_MANY_REQUESTS_def HTTP_SERVER_ERROR_FLOOR_def

definition isTokenRejected :: "handover_error \<Rightarrow> bool" where
  "isTokenRejected e \<longleftrightarrow> he_status e = HTTP_NOT_FOUND"

definition isTransientFailure :: "handover_error \<Rightarrow> bool" where
  "isTransientFailure e \<longleftrightarrow> he_status e = NETWORK_FAILURE_STATUS \<or> he_status e = HTTP_TOO_MANY_REQUESTS
     \<or> HTTP_SERVER_ERROR_FLOOR \<le> he_status e"

text \<open>Only \<open>msg\<close> is read of the items of a 422; what the receiver typed is echoed in \<open>input\<close>.\<close>

fun item_msg :: "json \<Rightarrow> string option" where
  "item_msg (JObj ps) = nullableString (map_of (rev ps) ''msg'')"
| "item_msg _ = None"

fun join_messages :: "string list \<Rightarrow> string" where
  "join_messages [] = []"
| "join_messages [m] = m"
| "join_messages (m # ms) = m @ ''; '' @ join_messages ms"

fun messageFromBody :: "json \<Rightarrow> string option" where
  "messageFromBody (JObj ps) = (case map_of (rev ps) ''detail'' of
      Some (JStr d) \<Rightarrow> if d = [] then None else Some d
    | Some (JArr items) \<Rightarrow> (let ms = List.map_filter item_msg items in if ms \<noteq> [] then Some (join_messages ms) else None)
    | _ \<Rightarrow> None)"
| "messageFromBody _ = None"

definition readFailureMessage :: "response \<Rightarrow> string" where
  "readFailureMessage res = (case messageFromBody (case rs_body res of None \<Rightarrow> JNull | Some b \<Rightarrow> b) of
      Some m \<Rightarrow> m
    | None \<Rightarrow> if rs_statusText res \<noteq> [] then rs_statusText res
        else ''Request failed ('' @ text_of_nat (nat (rs_status res)) @ '')'')"

text \<open>What the page's browser provides.\<close>

record page_url =
  url_origin :: string
  url_protocol :: string

record verification_state =
  vs_status :: string
  vs_tier :: string
  vs_unverified_reason :: "string option"
  vs_identity_match :: "bool option"

record handover_scan =
  hs_trip_reference :: string
  hs_destination_name :: string
  hs_waybill_references :: "string list"
  hs_expires_at :: iso
  hs_verification :: "verification_state option"

record receiver_env =
  rv_parseDate :: "string \<Rightarrow> number option"
  rv_URL :: "string \<Rightarrow> page_url option"
  rv_origin :: string
  rv_as_scan :: "json \<Rightarrow> handover_scan"
  rv_as_session_url :: "json \<Rightarrow> string option"

text \<open>\<open>Retry-After\<close>: whole seconds, or a date. Delays beyond the range of a double are not distinguished.\<close>

definition parseRetryAfterMs :: "receiver_env \<Rightarrow> number \<Rightarrow> string option \<Rightarrow> number option" where
  "parseRetryAfterMs E now header = (case header of None \<Rightarrow> None | Some h \<Rightarrow> (let v = trim h in
      if v \<noteq> [] \<and> snd (digits v) = [] then Some (real (nat_of_digits v) * 1000)
      else map_option (\<lambda>d. max 0 (d - now)) (rv_parseDate E v)))"

definition parse :: "receiver_env \<Rightarrow> number \<Rightarrow> (json \<Rightarrow> 'a) \<Rightarrow> response \<Rightarrow> handover_error + 'a" where
  "parse E now as res =
     (if \<not> rs_ok res then Inl \<lparr>he_status = rs_status res, he_message = readFailureMessage res,
        he_retryAfterMs = (if rs_status res = HTTP_TOO_MANY_REQUESTS then parseRetryAfterMs E now (rs_retryAfter res) else None)\<rparr>
      else case rs_body res of
        None \<Rightarrow> Inl \<lparr>he_status = NETWORK_FAILURE_STATUS, he_message = UNREADABLE_REPLY_MESSAGE, he_retryAfterMs = None\<rparr>
      | Some j \<Rightarrow> Inr (as j))"

definition receive :: "receiver_env \<Rightarrow> number \<Rightarrow> (json \<Rightarrow> 'a) \<Rightarrow> fetch_result \<Rightarrow> handover_error + 'a" where
  "receive E now as r = (case r of
      Response res \<Rightarrow> parse E now as res
    | _ \<Rightarrow> Inl \<lparr>he_status = NETWORK_FAILURE_STATUS, he_message = NETWORK_FAILURE_MESSAGE, he_retryAfterMs = None\<rparr>)"

text \<open>The server said yes: a success status with a readable body.\<close>

definition said_yes :: "fetch_result \<Rightarrow> bool" where
  "said_yes r \<longleftrightarrow> (\<exists>res. r = Response res \<and> rs_ok res \<and> rs_body res \<noteq> None)"

lemma receive_Inr: "receive E now as r = Inr x \<longleftrightarrow> (\<exists>res j. r = Response res \<and> rs_ok res \<and> rs_body res = Some j \<and> x = as j)"
  by (auto simp: receive_def parse_def split: fetch_result.splits option.splits if_splits)

lemma receive_yes: "receive E now as r = Inr x \<Longrightarrow> said_yes r"
  by (auto simp: receive_Inr said_yes_def)

text \<open>
  Only an answer of the server with status 404 is taken for a refusal of the token; an answer that never came, or
  could not be read, is transient.
\<close>

lemma receive_rejected:
  "receive E now as r = Inl e \<Longrightarrow> isTokenRejected e \<longleftrightarrow> (\<exists>res. r = Response res \<and> rs_status res = 404)"
  by (auto simp: receive_def parse_def isTokenRejected_def api_constants rs_ok_def split: fetch_result.splits option.splits if_splits)

lemma no_answer_is_transient:
  "receive E now as r = Inl e \<Longrightarrow> (\<nexists>res. r = Response res \<and> \<not> rs_ok res) \<Longrightarrow> isTransientFailure e"
  by (auto simp: receive_def parse_def isTransientFailure_def api_constants split: fetch_result.splits option.splits if_splits)

section \<open>Requests\<close>

record confirm_payload =
  cp_receiver_name :: string
  cp_receiver_id_number :: string
  cp_signature_png_base64 :: string
  cp_lat :: "number option"
  cp_lng :: "number option"
  cp_accuracy_m :: "number option"

datatype handover_request =
  Scan_request string
| Consent_request string string bool
| Decline_request string string
| Verify_request string
| Resolve_request string string string
| Confirm_request string confirm_payload

record handover_call =
  hc_method :: string
  hc_path :: string
  hc_body :: "json option"
  hc_credentials :: string
  hc_timeoutMs :: int

fun token_of :: "handover_request \<Rightarrow> string" where
  "token_of (Scan_request t) = t"
| "token_of (Consent_request t _ _) = t"
| "token_of (Decline_request t _) = t"
| "token_of (Verify_request t) = t"
| "token_of (Resolve_request t _ _) = t"
| "token_of (Confirm_request t _) = t"

definition num_or_null :: "number option \<Rightarrow> json" where
  "num_or_null v = (case v of None \<Rightarrow> JNull | Some x \<Rightarrow> JNum x)"

definition handover_post :: "string \<Rightarrow> string \<Rightarrow> json option \<Rightarrow> handover_call" where
  "handover_post token tail body = \<lparr>hc_method = ''POST'', hc_path = ''/api/v1/handover/'' @ token @ tail, hc_body = body,
     hc_credentials = ''include'', hc_timeoutMs = WRITE_TIMEOUT_MS\<rparr>"

text \<open>\<open>fetchScan\<close>, \<open>recordConsent\<close>, \<open>recordConsentDecline\<close>, \<open>startVerification\<close>, \<open>resolveVerification\<close>, \<open>confirmHandover\<close>.\<close>

fun call_of :: "handover_request \<Rightarrow> handover_call" where
  "call_of (Scan_request t) = \<lparr>hc_method = ''GET'', hc_path = ''/api/v1/handover/'' @ t, hc_body = None,
     hc_credentials = ''include'', hc_timeoutMs = SCAN_TIMEOUT_MS\<rparr>"
| "call_of (Consent_request t wording has_doc) = handover_post t ''/consent''
     (Some (JObj [(''consent_text'', JStr wording), (''consented'', JBool True), (''has_document'', JBool has_doc)]))"
| "call_of (Decline_request t wording) = handover_post t ''/consent''
     (Some (JObj [(''consent_text'', JStr wording), (''consented'', JBool False)]))"
| "call_of (Verify_request t) = handover_post t ''/verify'' None"
| "call_of (Resolve_request t n i) = handover_post t ''/verify/resolve''
     (Some (JObj [(''receiver_name'', JStr n), (''receiver_id_number'', JStr i)]))"
| "call_of (Confirm_request t p) = handover_post t ''/confirm''
     (Some (JObj [(''receiver_name'', JStr (cp_receiver_name p)), (''receiver_id_number'', JStr (cp_receiver_id_number p)),
        (''signature_png_base64'', JStr (cp_signature_png_base64 p)), (''receiver_lat'', num_or_null (cp_lat p)),
        (''receiver_lng'', num_or_null (cp_lng p)), (''receiver_accuracy_m'', num_or_null (cp_accuracy_m p))]))"

text \<open>The body that says \<open>consented: true\<close> is sent by an agreement and by nothing else.\<close>

fun says_consented :: "json option \<Rightarrow> bool" where
  "says_consented (Some (JObj ps)) \<longleftrightarrow> map_of (rev ps) ''consented'' = Some (JBool True)"
| "says_consented _ \<longleftrightarrow> False"

lemma only_agreement_says_consented:
  "says_consented (hc_body (call_of r)) \<longleftrightarrow> (\<exists>t wording has_doc. r = Consent_request t wording has_doc)"
  by (cases r) (auto simp: handover_post_def)

lemma what_is_typed_stays_out_of_the_address:
  "hc_path (call_of (Resolve_request t n i)) = hc_path (call_of (Resolve_request t n' i'))"
  "hc_path (call_of (Confirm_request t p)) = hc_path (call_of (Confirm_request t p'))"
  by (simp_all add: handover_post_def)

lemma every_call_carries_the_cookie: "hc_credentials (call_of r) = ''include''"
  by (cases r) (simp_all add: handover_post_def)

section \<open>The recipient\<close>

definition MAX_RECEIVER_NAME_LENGTH :: nat where "MAX_RECEIVER_NAME_LENGTH = 120"
definition MAX_RECEIVER_ID_NUMBER_LENGTH :: nat where "MAX_RECEIVER_ID_NUMBER_LENGTH = 60"
definition SA_ID_DIGIT_COUNT :: nat where "SA_ID_DIGIT_COUNT = 13"

definition looksLikeSaIdNumber :: "string \<Rightarrow> bool" where
  "looksLikeSaIdNumber v = (let s = trim v in length s = SA_ID_DIGIT_COUNT \<and> snd (digits s) = [])"

definition hasRecipientIdentity :: "string \<Rightarrow> string \<Rightarrow> bool" where
  "hasRecipientIdentity name idNumber \<longleftrightarrow> length (trim name) > 0 \<and> length (trim idNumber) > 0"

definition CONSENT_VERSION :: string where "CONSENT_VERSION = ''v2''"

definition CONSENT_TEXT :: string where
  "CONSENT_TEXT = ''To confirm this delivery we need to check your identity. '' @
     ''You will be asked to photograph an identity document and take a photograph of your face. '' @
     ''These images are sent to our verification provider, Didit, and are processed on servers '' @
     ''outside South Africa. They are not stored by FreightProof. '' @
     ''We keep only the result of the check, the time, and a reference number. '' @
     ''You can decline. The delivery can still be confirmed without this check.''"

definition consentPayloadText :: string where
  "consentPayloadText = CONSENT_VERSION @ '': '' @ CONSENT_TEXT"

section \<open>Session storage\<close>

text \<open>
  An entry that was stored is its JSON value, or \<open>None\<close> when the text is not JSON. Each access may throw; which
  ones do at the moment is part of the state.
\<close>

datatype storage_access = Storage_read | Storage_write | Storage_clear

record stashed_identity =
  si_name :: string
  si_idNumber :: string
  si_token :: string

datatype confirm_outcome = Confirm_attempted | Confirm_confirmed

record session_storage =
  ss_identity :: "json option option"
  ss_outcome :: "json option option"
  ss_faults :: "storage_access set"

definition outcome_text :: "confirm_outcome \<Rightarrow> string" where
  "outcome_text s = (case s of Confirm_attempted \<Rightarrow> ''attempted'' | Confirm_confirmed \<Rightarrow> ''confirmed'')"

definition isConfirmOutcome :: "json \<Rightarrow> confirm_outcome option" where
  "isConfirmOutcome j = (if j = JStr ''attempted'' then Some Confirm_attempted
     else if j = JStr ''confirmed'' then Some Confirm_confirmed else None)"

definition stashIdentity :: "stashed_identity \<Rightarrow> session_storage \<Rightarrow> session_storage" where
  "stashIdentity i s = (if Storage_write \<in> ss_faults s then s
     else s\<lparr>ss_identity := Some (Some (JObj [(''name'', JStr (si_name i)), (''idNumber'', JStr (si_idNumber i)), (''token'', JStr (si_token i))]))\<rparr>)"

definition readStashedIdentity :: "session_storage \<Rightarrow> stashed_identity option" where
  "readStashedIdentity s = (if Storage_read \<in> ss_faults s then None else case ss_identity s of
      Some (Some (JObj ps)) \<Rightarrow> (case (map_of (rev ps) ''name'', map_of (rev ps) ''idNumber'', map_of (rev ps) ''token'') of
          (Some (JStr n), Some (JStr i), Some (JStr t)) \<Rightarrow> Some \<lparr>si_name = n, si_idNumber = i, si_token = t\<rparr>
        | _ \<Rightarrow> None)
    | _ \<Rightarrow> None)"

definition clearStashedIdentity :: "session_storage \<Rightarrow> session_storage" where
  "clearStashedIdentity s = (if Storage_clear \<in> ss_faults s then s else s\<lparr>ss_identity := None\<rparr>)"

definition rememberConfirmOutcome :: "string \<Rightarrow> confirm_outcome \<Rightarrow> session_storage \<Rightarrow> session_storage" where
  "rememberConfirmOutcome token state s = (if Storage_write \<in> ss_faults s then s
     else s\<lparr>ss_outcome := Some (Some (JObj [(''token'', JStr token), (''state'', JStr (outcome_text state))]))\<rparr>)"

definition readConfirmOutcome :: "string \<Rightarrow> session_storage \<Rightarrow> confirm_outcome option" where
  "readConfirmOutcome token s = (if Storage_read \<in> ss_faults s then None else case ss_outcome s of
      Some (Some (JObj ps)) \<Rightarrow> if map_of (rev ps) ''token'' = Some (JStr token)
        then Option.bind (map_of (rev ps) ''state'') isConfirmOutcome else None
    | _ \<Rightarrow> None)"

text \<open>What one access leaves of the other entry, and the round trips when the storage works.\<close>

lemma storage_frame [simp]:
  "ss_outcome (stashIdentity i s) = ss_outcome s" "ss_faults (stashIdentity i s) = ss_faults s"
  "ss_outcome (clearStashedIdentity s) = ss_outcome s" "ss_faults (clearStashedIdentity s) = ss_faults s"
  "ss_identity (rememberConfirmOutcome t c s) = ss_identity s" "ss_faults (rememberConfirmOutcome t c s) = ss_faults s"
  by (simp_all add: stashIdentity_def clearStashedIdentity_def rememberConfirmOutcome_def)

lemma read_stashed:
  "ss_faults s \<inter> {Storage_read, Storage_write} = {} \<Longrightarrow> readStashedIdentity (stashIdentity i s) = Some i"
  by (simp add: readStashedIdentity_def stashIdentity_def)

lemma read_cleared: "Storage_clear \<notin> ss_faults s \<Longrightarrow> readStashedIdentity (clearStashedIdentity s) = None"
  by (simp add: readStashedIdentity_def clearStashedIdentity_def)

lemma read_remembered:
  "ss_faults s \<inter> {Storage_read, Storage_write} = {} \<Longrightarrow>
   readConfirmOutcome t' (rememberConfirmOutcome t c s) = (if t' = t then Some c else None)"
  by (cases c) (auto simp: readConfirmOutcome_def rememberConfirmOutcome_def outcome_text_def isConfirmOutcome_def)

text \<open>What can be read afterwards was written just now or could be read before.\<close>

definition stored_identity :: "session_storage \<Rightarrow> stashed_identity option" where
  "stored_identity s = readStashedIdentity (s\<lparr>ss_faults := {}\<rparr>)"

definition stored_outcome :: "string \<Rightarrow> session_storage \<Rightarrow> confirm_outcome option" where
  "stored_outcome t s = readConfirmOutcome t (s\<lparr>ss_faults := {}\<rparr>)"

lemma read_is_stored:
  "readStashedIdentity s = Some i \<Longrightarrow> stored_identity s = Some i"
  "readConfirmOutcome t s = Some c \<Longrightarrow> stored_outcome t s = Some c"
  by (auto simp: stored_identity_def stored_outcome_def readStashedIdentity_def readConfirmOutcome_def split: if_splits)

lemma stored_after [simp]:
  "stored_identity (stashIdentity i s) = (if Storage_write \<in> ss_faults s then stored_identity s else Some i)"
  "stored_identity (clearStashedIdentity s) = (if Storage_clear \<in> ss_faults s then stored_identity s else None)"
  "stored_identity (rememberConfirmOutcome t c s) = stored_identity s"
  "stored_outcome u (stashIdentity i s) = stored_outcome u s"
  "stored_outcome u (clearStashedIdentity s) = stored_outcome u s"
  "stored_outcome u (rememberConfirmOutcome t c s)
     = (if Storage_write \<in> ss_faults s then stored_outcome u s else if u = t then Some c else None)"
  "stored_identity (s\<lparr>ss_faults := f\<rparr>) = stored_identity s" "stored_outcome u (s\<lparr>ss_faults := f\<rparr>) = stored_outcome u s"
  by (cases c; auto simp: stored_identity_def stored_outcome_def stashIdentity_def clearStashedIdentity_def rememberConfirmOutcome_def
      readStashedIdentity_def readConfirmOutcome_def outcome_text_def isConfirmOutcome_def)+

end
