(* ===== verification/Attestation.thy ===== *)
theory Attestation
  imports ReceiverApi
begin

text \<open>
  The digital signature of a receiver as an image (\<open>shared/lib/utils/render-attestation.ts\<close>): the list of drawing
  steps that the canvas gets. The canvas is a parameter: whether a 2D context exists, how wide a text is under a
  font, the device's local rendering of an instant, and the PNG it makes of the steps. A character outside ASCII
  stands as its UTF-8 bytes.
\<close>

record position_fix =
  pf_lat :: number
  pf_lng :: number
  pf_accuracyM :: "number option"

record attestation =
  at_signedAt :: iso
  at_position :: "position_fix option"
  at_tripId :: string
  at_recipientName :: string
  at_recipientIdNumber :: string
  at_subtitle :: "string option"

datatype draw_step =
  Fill_rect string int int
| Fill_text string string string int int
| Stroke_line string int int int

record canvas =
  cv_context :: bool
  cv_width :: "string \<Rightarrow> string \<Rightarrow> number"
  cv_toLocaleString :: "iso \<Rightarrow> string"
  cv_toDataURL :: "draw_step list \<Rightarrow> string"

section \<open>Geometry and fonts\<close>

definition WIDTH_PX :: int where "WIDTH_PX = 720"
definition HEIGHT_PX :: int where "HEIGHT_PX = 600"
definition PADDING_PX :: int where "PADDING_PX = 40"
definition RULE_Y_PX :: int where "RULE_Y_PX = 116"
definition MAX_VALUE_WIDTH_PX :: int where "MAX_VALUE_WIDTH_PX = WIDTH_PX - PADDING_PX * 2"
definition ROW_START_Y_PX :: int where "ROW_START_Y_PX = 160"
definition ROW_HEIGHT_PX :: int where "ROW_HEIGHT_PX = 74"
definition LABEL_TO_VALUE_PX :: int where "LABEL_TO_VALUE_PX = 30"
definition COORD_DECIMALS :: nat where "COORD_DECIMALS = 6"

lemmas geometry = WIDTH_PX_def HEIGHT_PX_def PADDING_PX_def RULE_Y_PX_def MAX_VALUE_WIDTH_PX_def ROW_START_Y_PX_def
  ROW_HEIGHT_PX_def LABEL_TO_VALUE_PX_def

definition ELLIPSIS :: string where "ELLIPSIS = [CHR 0xE2, CHR 0x80, CHR 0xA6]"
definition COLOUR_BACKGROUND :: string where "COLOUR_BACKGROUND = ''#ffffff''"
definition COLOUR_TITLE :: string where "COLOUR_TITLE = ''#1b1b1c''"
definition COLOUR_LABEL :: string where "COLOUR_LABEL = ''#46464f''"
definition COLOUR_VALUE :: string where "COLOUR_VALUE = COLOUR_TITLE"
definition COLOUR_RULE :: string where "COLOUR_RULE = ''#c7c6ca''"
definition FONT_TITLE :: string where "FONT_TITLE = ''600 30px system-ui, sans-serif''"
definition FONT_LABEL :: string where "FONT_LABEL = ''500 16px system-ui, sans-serif''"
definition FONT_VALUE :: string where "FONT_VALUE = ''400 22px system-ui, sans-serif''"
definition FONT_MONO :: string where "FONT_MONO = ''400 18px ui-monospace, monospace''"
definition ATTESTATION_TITLE :: string where "ATTESTATION_TITLE = ''DIGITAL PROOF OF DELIVERY''"
definition LOCATION_UNAVAILABLE :: string where "LOCATION_UNAVAILABLE = ''Location unavailable''"

text \<open>The apostrophe of both subtitles is the typographic one.\<close>

definition subtitle_driver :: string where
  "subtitle_driver = ''Swipe attestation taken on the driver'' @ [CHR 0xE2, CHR 0x80, CHR 0x99] @ ''s device''"
definition subtitle_receiver :: string where
  "subtitle_receiver = ''Swipe attestation taken on the receiver'' @ [CHR 0xE2, CHR 0x80, CHR 0x99] @ ''s own phone''"

section \<open>Texts\<close>

function truncate_text :: "(string \<Rightarrow> number) \<Rightarrow> number \<Rightarrow> string \<Rightarrow> string" where
  "truncate_text w limit t = (if t \<noteq> [] \<and> w (t @ ELLIPSIS) > limit then truncate_text w limit (butlast t) else t)"
  by auto
termination by (relation "measure (\<lambda>(w, limit, t). length t)") auto

declare truncate_text.simps [simp del]

definition fitText :: "(string \<Rightarrow> number) \<Rightarrow> string \<Rightarrow> number \<Rightarrow> string" where
  "fitText w v limit = (if w v \<le> limit then v else truncate_text w limit v @ ELLIPSIS)"

text \<open>\<open>toFixed\<close> of a number below \<open>10 ^ 21\<close>, and an integer as text.\<close>

definition pad_digits :: "nat \<Rightarrow> string \<Rightarrow> string" where
  "pad_digits n s = replicate (n - length s) (CHR ''0'') @ s"

definition toFixed :: "nat \<Rightarrow> number \<Rightarrow> string" where
  "toFixed d x = (let n = nat \<lfloor>\<bar>x\<bar> * 10 ^ d + 1 / 2\<rfloor> in
     (if x < 0 then ''-'' else []) @ text_of_nat (n div 10 ^ d)
       @ (if d = 0 then [] else CHR ''.'' # pad_digits d (text_of_nat (n mod 10 ^ d))))"

definition text_of_int :: "int \<Rightarrow> string" where
  "text_of_int i = (if i < 0 then ''-'' else []) @ text_of_nat (nat \<bar>i\<bar>)"

definition formatPosition :: "position_fix option \<Rightarrow> string" where
  "formatPosition position = (case position of None \<Rightarrow> LOCATION_UNAVAILABLE
     | Some p \<Rightarrow> (let text = toFixed COORD_DECIMALS (pf_lat p) @ '', '' @ toFixed COORD_DECIMALS (pf_lng p) in
         case pf_accuracyM p of None \<Rightarrow> text
         | Some a \<Rightarrow> text @ ''  ('' @ [CHR 0xC2, CHR 0xB1] @ text_of_int \<lfloor>a + 1 / 2\<rfloor> @ '' m)''))"

section \<open>The drawing\<close>

record attestation_row =
  ar_label :: string
  ar_value :: string
  ar_mono :: bool

definition attestation_rows :: "canvas \<Rightarrow> attestation \<Rightarrow> attestation_row list" where
  "attestation_rows C f =
     [\<lparr>ar_label = ''SIGNED BY'', ar_value = at_recipientName f, ar_mono = False\<rparr>,
      \<lparr>ar_label = ''ID NUMBER'', ar_value = at_recipientIdNumber f, ar_mono = True\<rparr>,
      \<lparr>ar_label = ''SIGNED AT'', ar_value = cv_toLocaleString C (at_signedAt f), ar_mono = False\<rparr>,
      \<lparr>ar_label = ''UTC'', ar_value = at_signedAt f, ar_mono = True\<rparr>,
      \<lparr>ar_label = ''LOCATION'', ar_value = formatPosition (at_position f), ar_mono = True\<rparr>,
      \<lparr>ar_label = ''TRIP'', ar_value = at_tripId f, ar_mono = True\<rparr>]"

definition row_y :: "nat \<Rightarrow> int" where
  "row_y index = ROW_START_Y_PX + int index * ROW_HEIGHT_PX"

definition row_font :: "attestation_row \<Rightarrow> string" where
  "row_font r = (if ar_mono r then FONT_MONO else FONT_VALUE)"

definition draw_row :: "canvas \<Rightarrow> nat \<times> attestation_row \<Rightarrow> draw_step list" where
  "draw_row C ir = (case ir of (i, r) \<Rightarrow>
     [Fill_text FONT_LABEL COLOUR_LABEL (ar_label r) PADDING_PX (row_y i),
      Fill_text (row_font r) COLOUR_VALUE (fitText (cv_width C (row_font r)) (ar_value r) (of_int MAX_VALUE_WIDTH_PX))
        PADDING_PX (row_y i + LABEL_TO_VALUE_PX)])"

definition attestation_drawing :: "canvas \<Rightarrow> attestation \<Rightarrow> draw_step list" where
  "attestation_drawing C f =
     [Fill_rect COLOUR_BACKGROUND WIDTH_PX HEIGHT_PX,
      Fill_text FONT_TITLE COLOUR_TITLE ATTESTATION_TITLE PADDING_PX (PADDING_PX + 30),
      Fill_text FONT_LABEL COLOUR_LABEL (case at_subtitle f of None \<Rightarrow> subtitle_driver | Some s \<Rightarrow> s) PADDING_PX (PADDING_PX + 54),
      Stroke_line COLOUR_RULE PADDING_PX (WIDTH_PX - PADDING_PX) RULE_Y_PX]
     @ concat (map (draw_row C) (List.enumerate 0 (attestation_rows C f)))"

definition renderAttestation :: "canvas \<Rightarrow> attestation \<Rightarrow> string option" where
  "renderAttestation C f = (if cv_context C then Some (cv_toDataURL C (attestation_drawing C f)) else None)"

section \<open>What is drawn\<close>

lemma truncate_text_step: "t \<noteq> [] \<Longrightarrow> w (t @ ELLIPSIS) > limit \<Longrightarrow> truncate_text w limit t = truncate_text w limit (butlast t)"
  by (subst truncate_text.simps) simp

lemma truncate_text_done: "\<not> (t \<noteq> [] \<and> w (t @ ELLIPSIS) > limit) \<Longrightarrow> truncate_text w limit t = t"
  by (subst truncate_text.simps) (metis (no_types))

lemma truncate_text_rule [case_names cut stop]:
  assumes "\<And>t. t \<noteq> [] \<Longrightarrow> w (t @ ELLIPSIS) > limit \<Longrightarrow> P (butlast t) (truncate_text w limit t) \<Longrightarrow> P t (truncate_text w limit t)"
    and "\<And>t. t = [] \<or> w (t @ ELLIPSIS) \<le> limit \<Longrightarrow> P t t"
  shows "P t (truncate_text w limit t)"
proof (induction t rule: measure_induct_rule[of length])
  case (less t)
  then show ?case using assms(1)[of t] assms(2)[of t] truncate_text_step[of t limit w] truncate_text_done[of t limit w]
    by (cases "t \<noteq> [] \<and> w (t @ ELLIPSIS) > limit") (auto simp: not_less)
qed

text \<open>The result is a beginning of the text, it fits or is empty, and no longer beginning fits.\<close>

lemma truncate_text_prefix: "\<exists>k. truncate_text w limit t = take k t"
  by (rule truncate_text_rule[where P = "\<lambda>t r. \<exists>k. r = take k t"])
     (auto simp: butlast_conv_take take_take, metis take_all_iff order_refl)

lemma truncate_text_stops: "truncate_text w limit t = [] \<or> w (truncate_text w limit t @ ELLIPSIS) \<le> limit"
  by (rule truncate_text_rule[where P = "\<lambda>t r. r = [] \<or> w (r @ ELLIPSIS) \<le> limit"]) auto

lemma truncate_text_longest:
  "\<forall>k. length (truncate_text w limit t) < k \<and> k \<le> length t \<longrightarrow> w (take k t @ ELLIPSIS) > limit"
proof (rule truncate_text_rule[where P = "\<lambda>t r. \<forall>k. length r < k \<and> k \<le> length t \<longrightarrow> w (take k t @ ELLIPSIS) > limit"], goal_cases)
  case (1 t)
  show ?case
  proof (intro allI impI)
    fix k assume k: "length (truncate_text w limit t) < k \<and> k \<le> length t"
    show "w (take k t @ ELLIPSIS) > limit"
    proof (cases "k = length t")
      case False
      then have "k \<le> length (butlast t)" "take k (butlast t) = take k t" using k by (auto simp: butlast_conv_take)
      then show ?thesis using 1(3) k by metis
    qed (use 1 in simp)
  qed
qed simp

text \<open>A value that fits is drawn whole; any other is drawn as its longest beginning that fits with the mark of the cut.\<close>

theorem fitText_correct:
  "w v \<le> limit \<Longrightarrow> fitText w v limit = v"
  "\<not> w v \<le> limit \<Longrightarrow> \<exists>k \<le> length v. fitText w v limit = take k v @ ELLIPSIS
     \<and> (k = 0 \<or> w (take k v @ ELLIPSIS) \<le> limit) \<and> (\<forall>j. k < j \<and> j \<le> length v \<longrightarrow> w (take j v @ ELLIPSIS) > limit)"
proof -
  show "fitText w v limit = v" if "w v \<le> limit" using that by (simp add: fitText_def)
  let ?t = "truncate_text w limit v"
  assume "\<not> w v \<le> limit"
  moreover have "?t = take (length ?t) v" using truncate_text_prefix[of w limit v] by (metis length_take min.cobounded1 take_take min_def take_all_iff)
  moreover have "length ?t \<le> length v" using truncate_text_prefix[of w limit v] by auto
  ultimately show "\<exists>k \<le> length v. fitText w v limit = take k v @ ELLIPSIS
     \<and> (k = 0 \<or> w (take k v @ ELLIPSIS) \<le> limit) \<and> (\<forall>j. k < j \<and> j \<le> length v \<longrightarrow> w (take j v @ ELLIPSIS) > limit)"
    using truncate_text_stops[of w limit v] truncate_text_longest[of w limit v]
    by (intro exI[of _ "length ?t"]) (auto simp: fitText_def)
qed

text \<open>Every row lies on the canvas, with the padding below the last one.\<close>

theorem rows_lie_on_the_canvas:
  "i < length (attestation_rows C f) \<Longrightarrow>
     RULE_Y_PX < row_y i \<and> row_y i + LABEL_TO_VALUE_PX + PADDING_PX \<le> HEIGHT_PX"
  by (simp add: attestation_rows_def row_y_def geometry)

text \<open>Without a context nothing is signed; otherwise name, ID number and instant are on the drawing.\<close>

theorem attestation_names_the_signer:
  "renderAttestation C f = Some url \<Longrightarrow> cv_width C FONT_VALUE (at_recipientName f) \<le> of_int MAX_VALUE_WIDTH_PX \<Longrightarrow>
     (\<exists>y. Fill_text FONT_VALUE COLOUR_VALUE (at_recipientName f) PADDING_PX y \<in> set (attestation_drawing C f)) \<and> cv_context C"
  by (auto simp: renderAttestation_def attestation_drawing_def attestation_rows_def draw_row_def row_font_def
      enumerate_eq_zip fitText_correct(1) split: if_splits)

end
