(* ===== verification/HandoverPage.thy ===== *)
theory HandoverPage
  imports Attestation
begin

text \<open>
  The page on which a receiver confirms a delivery (\<open>receiver/app/h/[token]/HandoverPageClient.tsx\<close>, with the
  state of \<open>components/ConsentGate.tsx\<close> and the dispatch guard of \<open>components/Swipe.tsx\<close>): one tab, the page shown
  in it, the pages it left in the back/forward cache, its session storage, and what crossed the network.

  Every event is one turn of the browser: a press, one answer to a pending request, the position, a timer, leaving
  or coming back. A page may wait for several answers at once, and they may come in any order. An asynchronous
  function of the source is cut at its \<open>await\<close>s: a \<open>page_job\<close> is what it still waits for, with the values that its
  closure holds. Texts, the waybill list and the geometry of the drag are not modelled; a completed drag is an event.
\<close>

section \<open>State\<close>

datatype page_status = Loading | Unreachable | Invalid | Consent | Verifying | Resolving | Ready | Signing | Done

text \<open>What the closure of \<open>handleSign\<close> holds.\<close>

record signing =
  sg_scan :: "handover_scan option"
  sg_name :: string
  sg_idNumber :: string

text \<open>A job of a signature names the mount of the swipe that started it.\<close>

datatype page_job =
  Scan_job nat
| Resolve_job nat string string
| Position_job nat signing
| Confirm_job nat confirm_payload
| Consent_job string string
| Start_job string string
| No_document_job
| Decline_job

datatype page_notice = No_notice | Identity_check_unavailable | Identity_result_unavailable

record page =
  pg_token :: string
  pg_status :: page_status
  pg_scan :: "handover_scan option"
  pg_name :: string
  pg_idNumber :: string
  pg_message :: string
  pg_notice :: page_notice
  pg_mayHaveConfirmed :: bool
  pg_scanAttempt :: nat
  pg_consentBusy :: bool
  pg_stashed :: "stashed_identity option"
  pg_agreed :: bool
  pg_swipe :: nat
  pg_fired :: bool
  pg_settling :: "signing option"
  pg_jobs :: "page_job list"
  pg_leaving :: bool

record tab =
  tb_storage :: session_storage
  tb_page :: "page option"
  tb_cached :: "page list"
  tb_sent :: "handover_request list"
  tb_answered :: "(handover_request \<times> fetch_result) list"
  tb_departures :: "(string \<times> stashed_identity) list"

definition MS_PER_SECOND :: number where "MS_PER_SECOND = 1000"
definition SIGNATURE_FAILED_MESSAGE :: string where
  "SIGNATURE_FAILED_MESSAGE = ''The signature could not be generated on this device. Please try again.''"
definition CONNECTION_RETRY_MESSAGE :: string where
  "CONNECTION_RETRY_MESSAGE = ''We couldn'' @ [CHR 39] @ ''t reach the server. Check your connection and swipe again.''"
definition RATE_LIMITED_MESSAGE :: string where
  "RATE_LIMITED_MESSAGE = ''Too many attempts. Please wait a moment and swipe again.''"

section \<open>Small parts\<close>

definition describeConfirmFailure :: "handover_error \<Rightarrow> string" where
  "describeConfirmFailure e = (case he_retryAfterMs e of
      Some ms \<Rightarrow> (let seconds = max 1 \<lceil>ms / MS_PER_SECOND\<rceil> in
        ''Please wait '' @ text_of_int seconds @ '' '' @ (if seconds = 1 then ''second'' else ''seconds'') @ '' and try again.'')
    | None \<Rightarrow> if he_status e = 429 then RATE_LIMITED_MESSAGE
        else if isTransientFailure e then CONNECTION_RETRY_MESSAGE else he_message e)"

definition resolveSafeRedirect :: "receiver_env \<Rightarrow> string option \<Rightarrow> string option" where
  "resolveSafeRedirect E rawUrl = (case rawUrl of None \<Rightarrow> None | Some raw \<Rightarrow>
     (case rv_URL E raw of None \<Rightarrow> None | Some u \<Rightarrow>
        let isSameOriginWebUrl = url_origin u = rv_origin E \<and> (url_protocol u = ''http:'' \<or> url_protocol u = ''https:'')
        in if url_protocol u = ''https:'' \<or> isSameOriginWebUrl then Some raw else None))"

text \<open>
  The answer of the device to a signature: a fix (an accuracy that is not finite is \<open>None\<close>), no fix by refusal,
  failure or deadline, or a throw of the geolocation or the canvas.
\<close>

datatype device_answer = Position_fix number number "number option" | No_position | Device_throws

definition capturePosition :: "device_answer \<Rightarrow> position_fix option" where
  "capturePosition a = (case a of Position_fix lat lng acc \<Rightarrow> Some \<lparr>pf_lat = lat, pf_lng = lng, pf_accuracyM = acc\<rparr> | _ \<Rightarrow> None)"

text \<open>The expiry notice: whether to warn now, and after how long to look again.\<close>

definition EXPIRY_SKEW_GRACE_MS :: number where "EXPIRY_SKEW_GRACE_MS = 60000"
definition EXPIRY_RECHECK_MS :: number where "EXPIRY_RECHECK_MS = 30000"

definition expiry_check :: "number \<Rightarrow> number \<Rightarrow> bool \<times> number option" where
  "expiry_check expiresAtMs now = (let remaining = expiresAtMs + EXPIRY_SKEW_GRACE_MS - now in
     (remaining \<le> 0, if remaining > 0 then Some (min remaining EXPIRY_RECHECK_MS) else None))"

definition MAX_WAYBILLS_COLLAPSED :: nat where "MAX_WAYBILLS_COLLAPSED = 5"

definition visible_waybills :: "string list \<Rightarrow> bool \<Rightarrow> string list" where
  "visible_waybills references showAll =
     (if length references > MAX_WAYBILLS_COLLAPSED \<and> \<not> showAll then take MAX_WAYBILLS_COLLAPSED references else references)"

definition showIdShapeHint :: "page \<Rightarrow> bool" where
  "showIdShapeHint p \<longleftrightarrow> length (trim (pg_idNumber p)) > 0 \<and> \<not> looksLikeSaIdNumber (pg_idNumber p)"

section \<open>What is on the screen\<close>

definition swipe_shown :: "page \<Rightarrow> bool" where
  "swipe_shown p \<longleftrightarrow> pg_status p \<in> {Ready, Signing}"

definition swipe_disabled :: "page \<Rightarrow> bool" where
  "swipe_disabled p \<longleftrightarrow> \<not> hasRecipientIdentity (pg_name p) (pg_idNumber p)"

definition swipe_busy :: "page \<Rightarrow> bool" where
  "swipe_busy p \<longleftrightarrow> pg_status p = Signing"

definition swipe_armed :: "page \<Rightarrow> bool" where
  "swipe_armed p \<longleftrightarrow> swipe_shown p \<and> \<not> swipe_disabled p \<and> \<not> swipe_busy p \<and> \<not> pg_fired p"

definition gate_shown :: "page \<Rightarrow> bool" where
  "gate_shown p \<longleftrightarrow> pg_status p = Consent \<and> hasRecipientIdentity (pg_name p) (pg_idNumber p)"

definition fields_enabled :: "page \<Rightarrow> bool" where
  "fields_enabled p \<longleftrightarrow> pg_status p = Consent \<and> \<not> pg_consentBusy p \<or> pg_status p = Ready"

text \<open>
  The commit of a render: the consent gate forgets its tick when it goes, the swipe drops its timer when it goes,
  comes as a new one, and is armed again when what blocked it has cleared.
\<close>

definition rerender :: "page \<Rightarrow> page \<Rightarrow> page" where
  "rerender p q = (let r = q\<lparr>pg_agreed := pg_agreed q \<and> gate_shown q\<rparr> in
     if \<not> swipe_shown r then r\<lparr>pg_settling := None\<rparr>
     else if \<not> swipe_shown p then r\<lparr>pg_swipe := Suc (pg_swipe r), pg_fired := False, pg_settling := None\<rparr>
     else if (swipe_disabled p, swipe_busy p) \<noteq> (swipe_disabled r, swipe_busy r) \<and> \<not> swipe_disabled r \<and> \<not> swipe_busy r
       then r\<lparr>pg_fired := False\<rparr>
     else r)"

section \<open>Handlers\<close>

definition put :: "page \<Rightarrow> tab \<Rightarrow> tab" where
  "put p t = t\<lparr>tb_page := Some p\<rparr>"

definition send_request :: "handover_request \<Rightarrow> tab \<Rightarrow> tab" where
  "send_request r t = t\<lparr>tb_sent := tb_sent t @ [r]\<rparr>"

definition store :: "(session_storage \<Rightarrow> session_storage) \<Rightarrow> tab \<Rightarrow> tab" where
  "store f t = t\<lparr>tb_storage := f (tb_storage t)\<rparr>"

definition waits :: "page_job \<Rightarrow> page \<Rightarrow> page" where
  "waits j p = p\<lparr>pg_jobs := pg_jobs p @ [j]\<rparr>"

definition show_status :: "page_status \<Rightarrow> page \<Rightarrow> page" where
  "show_status s p = p\<lparr>pg_status := s\<rparr>"

text \<open>\<open>runConfirm\<close> of the swipe that started the signature, in its \<open>finally\<close>.\<close>

definition release :: "nat \<Rightarrow> page \<Rightarrow> page" where
  "release n p = (if pg_swipe p = n then p\<lparr>pg_fired := False\<rparr> else p)"

text \<open>The effect of a mount, and of "Try again": a stash is read once, and one of another delivery is ignored.\<close>

definition returning :: "page \<Rightarrow> stashed_identity option" where
  "returning p = (case pg_stashed p of None \<Rightarrow> None | Some s \<Rightarrow> if si_token s = pg_token p then Some s else None)"

definition load_scan :: "page \<Rightarrow> tab \<Rightarrow> tab" where
  "load_scan p t = put (waits (Scan_job (pg_scanAttempt p)) p) (send_request (Scan_request (pg_token p)) t)"

definition blank_page :: "string \<Rightarrow> page" where
  "blank_page token = \<lparr>pg_token = token, pg_status = Loading, pg_scan = None, pg_name = [], pg_idNumber = [], pg_message = [],
     pg_notice = No_notice, pg_mayHaveConfirmed = False, pg_scanAttempt = 0, pg_consentBusy = False, pg_stashed = None,
     pg_agreed = False, pg_swipe = 0, pg_fired = False, pg_settling = None, pg_jobs = [], pg_leaving = False\<rparr>"

definition open_page :: "string \<Rightarrow> tab \<Rightarrow> tab" where
  "open_page token t = load_scan ((blank_page token)\<lparr>pg_stashed := readStashedIdentity (tb_storage t)\<rparr>)
     (store clearStashedIdentity t)"

definition retryScan :: "page \<Rightarrow> tab \<Rightarrow> tab" where
  "retryScan p t = load_scan (p\<lparr>pg_status := Loading, pg_scanAttempt := Suc (pg_scanAttempt p)\<rparr>) t"

definition onPageShow :: "page \<Rightarrow> tab \<Rightarrow> tab" where
  "onPageShow p t = (if pg_status p \<noteq> Verifying then put (p\<lparr>pg_leaving := False\<rparr>) t
     else put ((show_status Consent p)\<lparr>pg_leaving := False\<rparr>) (store clearStashedIdentity t))"

text \<open>\<open>loadScan\<close> after the scan, its \<open>catch\<close>, and after the check was resolved.\<close>

definition scan_failed :: "handover_error \<Rightarrow> page \<Rightarrow> tab \<Rightarrow> tab" where
  "scan_failed e p t = (if \<not> isTokenRejected e then put (show_status Unreachable p) t
     else let outcome = readConfirmOutcome (pg_token p) (tb_storage t) in
       if outcome = Some Confirm_confirmed then put (show_status Done p) t
       else put (show_status Invalid (p\<lparr>pg_mayHaveConfirmed := outcome = Some Confirm_attempted\<rparr>)) t)"

definition scan_loaded :: "nat \<Rightarrow> handover_scan \<Rightarrow> page \<Rightarrow> tab \<Rightarrow> tab" where
  "scan_loaded n res p t = (let
       p1 = p\<lparr>pg_scan := Some res\<rparr>;
       p2 = (case returning p of None \<Rightarrow> p1 | Some s \<Rightarrow> p1\<lparr>pg_name := si_name s, pg_idNumber := si_idNumber s\<rparr>);
       (name, idNumber) = (case returning p of None \<Rightarrow> ([], []) | Some s \<Rightarrow> (si_name s, si_idNumber s))
     in case hs_verification res of
          None \<Rightarrow> put (show_status Consent p2) t
        | Some v \<Rightarrow> if returning p = None \<and> vs_status v \<noteq> ''pending'' then put (show_status Ready p2) t
            else put (waits (Resolve_job n name idNumber) (show_status Resolving p2))
                   (send_request (Resolve_request (pg_token p) name idNumber) t))"

definition scan_answered :: "nat \<Rightarrow> handover_error + handover_scan \<Rightarrow> page \<Rightarrow> tab \<Rightarrow> tab" where
  "scan_answered n r p t = (if n \<noteq> pg_scanAttempt p then put p t
     else case r of Inl e \<Rightarrow> scan_failed e p t | Inr res \<Rightarrow> scan_loaded n res p t)"

definition resolve_answered :: "nat \<Rightarrow> handover_error + json \<Rightarrow> page \<Rightarrow> tab \<Rightarrow> tab" where
  "resolve_answered n r p t = (if n \<noteq> pg_scanAttempt p then put p t
     else put (show_status Ready (case r of Inl _ \<Rightarrow> p\<lparr>pg_notice := Identity_result_unavailable\<rparr> | Inr _ \<Rightarrow> p)) t)"

text \<open>\<open>handleSign\<close>, called by the swipe \<open>n\<close>.\<close>

definition handleSign :: "nat \<Rightarrow> signing \<Rightarrow> page \<Rightarrow> tab \<Rightarrow> tab" where
  "handleSign n sg p t =
     (if sg_scan sg = None \<or> \<not> hasRecipientIdentity (sg_name sg) (sg_idNumber sg) then put (release n p) t
      else put (waits (Position_job n sg) ((show_status Signing p)\<lparr>pg_message := []\<rparr>)) t)"

definition closure :: "page \<Rightarrow> signing" where
  "closure p = \<lparr>sg_scan = pg_scan p, sg_name = pg_name p, sg_idNumber = pg_idNumber p\<rparr>"

definition sign_failed :: "nat \<Rightarrow> page \<Rightarrow> tab \<Rightarrow> tab" where
  "sign_failed n p t = put (release n ((show_status Ready p)\<lparr>pg_message := SIGNATURE_FAILED_MESSAGE\<rparr>)) t"

definition attestation_of :: "iso \<Rightarrow> position_fix option \<Rightarrow> signing \<Rightarrow> attestation" where
  "attestation_of signedAt fix sg = \<lparr>at_signedAt = signedAt, at_position = fix,
     at_tripId = (case sg_scan sg of None \<Rightarrow> [] | Some s \<Rightarrow> hs_trip_reference s),
     at_recipientName = trim (sg_name sg), at_recipientIdNumber = trim (sg_idNumber sg), at_subtitle = Some subtitle_receiver\<rparr>"

definition payload_of :: "position_fix option \<Rightarrow> string \<Rightarrow> signing \<Rightarrow> confirm_payload" where
  "payload_of fix dataUrl sg = \<lparr>cp_receiver_name = trim (sg_name sg), cp_receiver_id_number = trim (sg_idNumber sg),
     cp_signature_png_base64 = dataUrl, cp_lat = map_option pf_lat fix, cp_lng = map_option pf_lng fix,
     cp_accuracy_m = Option.bind fix pf_accuracyM\<rparr>"

definition positioned_answer :: "canvas \<Rightarrow> iso \<Rightarrow> device_answer \<Rightarrow> nat \<Rightarrow> signing \<Rightarrow> page \<Rightarrow> tab \<Rightarrow> tab" where
  "positioned_answer C signedAt a n sg p t = (if a = Device_throws then sign_failed n p t
     else case renderAttestation C (attestation_of signedAt (capturePosition a) sg) of
       None \<Rightarrow> sign_failed n p t
     | Some dataUrl \<Rightarrow> (let payload = payload_of (capturePosition a) dataUrl sg in
         put (waits (Confirm_job n payload) p)
           (send_request (Confirm_request (pg_token p) payload)
             (store (rememberConfirmOutcome (pg_token p) Confirm_attempted) t))))"

definition confirm_answered :: "nat \<Rightarrow> handover_error + json \<Rightarrow> page \<Rightarrow> tab \<Rightarrow> tab" where
  "confirm_answered n r p t = (case r of
      Inr _ \<Rightarrow> put (release n (show_status Done p)) (store (rememberConfirmOutcome (pg_token p) Confirm_confirmed) t)
    | Inl e \<Rightarrow> if isTokenRejected e then put (release n (show_status Invalid (p\<lparr>pg_mayHaveConfirmed := True\<rparr>))) t
        else put (release n ((show_status Ready p)\<lparr>pg_message := describeConfirmFailure e\<rparr>)) t)"

text \<open>\<open>handleConsentProceed\<close> and \<open>handleConsentDecline\<close>.\<close>

definition handleConsentProceed :: "bool \<Rightarrow> page \<Rightarrow> tab \<Rightarrow> tab" where
  "handleConsentProceed hasDocument p t = (if \<not> hasRecipientIdentity (pg_name p) (pg_idNumber p) then put p t
     else let t1 = send_request (Consent_request (pg_token p) consentPayloadText hasDocument) t in
       if hasDocument then put (waits (Consent_job (pg_name p) (pg_idNumber p)) (show_status Verifying p)) t1
       else put (waits No_document_job (p\<lparr>pg_consentBusy := True\<rparr>)) t1)"

definition check_unavailable :: "page \<Rightarrow> tab \<Rightarrow> tab" where
  "check_unavailable p t = put (show_status Ready (p\<lparr>pg_notice := Identity_check_unavailable\<rparr>)) t"

definition consent_answered :: "string \<Rightarrow> string \<Rightarrow> handover_error + json \<Rightarrow> page \<Rightarrow> tab \<Rightarrow> tab" where
  "consent_answered name idNumber r p t = (case r of
      Inl _ \<Rightarrow> check_unavailable p t
    | Inr _ \<Rightarrow> put (waits (Start_job name idNumber) p) (send_request (Verify_request (pg_token p)) t))"

definition start_answered :: "receiver_env \<Rightarrow> string \<Rightarrow> string \<Rightarrow> handover_error + string option \<Rightarrow> page \<Rightarrow> tab \<Rightarrow> tab" where
  "start_answered E name idNumber r p t = (case r of
      Inl _ \<Rightarrow> check_unavailable p t
    | Inr session_url \<Rightarrow> (case resolveSafeRedirect E session_url of
          None \<Rightarrow> check_unavailable p t
        | Some url \<Rightarrow> (let i = \<lparr>si_name = name, si_idNumber = idNumber, si_token = pg_token p\<rparr>; t1 = store (stashIdentity i) t in
            put (p\<lparr>pg_leaving := True\<rparr>) (t1\<lparr>tb_departures := tb_departures t1 @ [(url, i)]\<rparr>))))"

definition handleConsentDecline :: "page \<Rightarrow> tab \<Rightarrow> tab" where
  "handleConsentDecline p t = put (waits Decline_job (p\<lparr>pg_consentBusy := True\<rparr>))
     (send_request (Decline_request (pg_token p) consentPayloadText) t)"

definition consent_recorded :: "page \<Rightarrow> tab \<Rightarrow> tab" where
  "consent_recorded p t = put ((show_status Ready p)\<lparr>pg_consentBusy := False\<rparr>) t"

section \<open>Events\<close>

datatype answer = From_server fetch_result | From_device iso device_answer

datatype tab_event =
  Opened string
| Left bool
| Restored nat
| Storage_fails "storage_access set"
| Name_typed string
| Id_typed string
| Agree_ticked bool
| Proceeded bool
| Declined
| Retried
| Drag_completed
| Swipe_settled
| Key_confirmed
| Answered nat number answer

text \<open>The request that a job waits for; the position is asked of the device.\<close>

fun request_of :: "string \<Rightarrow> page_job \<Rightarrow> handover_request option" where
  "request_of token (Scan_job _) = Some (Scan_request token)"
| "request_of token (Resolve_job _ n i) = Some (Resolve_request token n i)"
| "request_of token (Position_job _ _) = None"
| "request_of token (Confirm_job _ payload) = Some (Confirm_request token payload)"
| "request_of token (Consent_job _ _) = Some (Consent_request token consentPayloadText True)"
| "request_of token (Start_job _ _) = Some (Verify_request token)"
| "request_of token No_document_job = Some (Consent_request token consentPayloadText False)"
| "request_of token Decline_job = Some (Decline_request token consentPayloadText)"

fun fits_job :: "page_job \<Rightarrow> answer \<Rightarrow> bool" where
  "fits_job (Position_job _ _) a \<longleftrightarrow> (\<exists>s d. a = From_device s d)"
| "fits_job _ a \<longleftrightarrow> (\<exists>r. a = From_server r)"

fun answered_job :: "receiver_env \<Rightarrow> canvas \<Rightarrow> number \<Rightarrow> page_job \<Rightarrow> answer \<Rightarrow> page \<Rightarrow> tab \<Rightarrow> tab" where
  "answered_job E C now (Position_job n sg) (From_device s d) p t = positioned_answer C s d n sg p t"
| "answered_job E C now (Scan_job n) (From_server r) p t = scan_answered n (receive E now (rv_as_scan E) r) p t"
| "answered_job E C now (Resolve_job n _ _) (From_server r) p t = resolve_answered n (receive E now id r) p t"
| "answered_job E C now (Confirm_job n _) (From_server r) p t = confirm_answered n (receive E now id r) p t"
| "answered_job E C now (Consent_job nm i) (From_server r) p t = consent_answered nm i (receive E now id r) p t"
| "answered_job E C now (Start_job nm i) (From_server r) p t = start_answered E nm i (receive E now (rv_as_session_url E) r) p t"
| "answered_job E C now No_document_job (From_server r) p t = consent_recorded p t"
| "answered_job E C now Decline_job (From_server r) p t = consent_recorded p t"
| "answered_job E C now _ _ p t = put p t"

definition log_answer :: "string \<Rightarrow> page_job \<Rightarrow> answer \<Rightarrow> tab \<Rightarrow> tab" where
  "log_answer token j a t = (case (request_of token j, a) of
      (Some q, From_server r) \<Rightarrow> t\<lparr>tb_answered := tb_answered t @ [(q, r)]\<rparr>
    | _ \<Rightarrow> t)"

definition drop_job :: "nat \<Rightarrow> page \<Rightarrow> page" where
  "drop_job k p = p\<lparr>pg_jobs := take k (pg_jobs p) @ drop (Suc k) (pg_jobs p)\<rparr>"

text \<open>What happens on a page that is shown, before the render.\<close>

fun page_turn :: "receiver_env \<Rightarrow> canvas \<Rightarrow> tab_event \<Rightarrow> page \<Rightarrow> tab \<Rightarrow> tab" where
  "page_turn E C (Name_typed v) p t = put (p\<lparr>pg_name := v\<rparr>) t"
| "page_turn E C (Id_typed v) p t = put (p\<lparr>pg_idNumber := v\<rparr>) t"
| "page_turn E C (Agree_ticked b) p t = put (p\<lparr>pg_agreed := b\<rparr>) t"
| "page_turn E C (Proceeded d) p t = handleConsentProceed d p t"
| "page_turn E C Declined p t = handleConsentDecline p t"
| "page_turn E C Retried p t = retryScan p t"
| "page_turn E C Drag_completed p t = put (p\<lparr>pg_fired := True, pg_settling := Some (closure p)\<rparr>) t"
| "page_turn E C Swipe_settled p t = (case pg_settling p of None \<Rightarrow> put p t
     | Some sg \<Rightarrow> handleSign (pg_swipe p) sg (p\<lparr>pg_settling := None\<rparr>) t)"
| "page_turn E C Key_confirmed p t = handleSign (pg_swipe p) (closure p) (p\<lparr>pg_fired := True\<rparr>) t"
| "page_turn E C (Answered k now a) p t =
     answered_job E C now (pg_jobs p ! k) a (drop_job k p) (log_answer (pg_token p) (pg_jobs p ! k) a t)"
| "page_turn E C _ p t = put p t"

definition rendered :: "page \<Rightarrow> tab \<Rightarrow> tab" where
  "rendered p t = t\<lparr>tb_page := map_option (rerender p) (tb_page t)\<rparr>"

text \<open>Which events a page that is shown allows: the guards of its controls.\<close>

fun page_allows :: "tab_event \<Rightarrow> page \<Rightarrow> bool" where
  "page_allows (Name_typed v) p \<longleftrightarrow> fields_enabled p \<and> length v \<le> MAX_RECEIVER_NAME_LENGTH"
| "page_allows (Id_typed v) p \<longleftrightarrow> fields_enabled p \<and> length v \<le> MAX_RECEIVER_ID_NUMBER_LENGTH"
| "page_allows (Agree_ticked _) p \<longleftrightarrow> gate_shown p \<and> \<not> pg_consentBusy p"
| "page_allows (Proceeded _) p \<longleftrightarrow> gate_shown p \<and> pg_agreed p \<and> \<not> pg_consentBusy p"
| "page_allows Declined p \<longleftrightarrow> gate_shown p \<and> \<not> pg_consentBusy p"
| "page_allows Retried p \<longleftrightarrow> pg_status p = Unreachable"
| "page_allows Drag_completed p \<longleftrightarrow> swipe_armed p"
| "page_allows Swipe_settled p \<longleftrightarrow> pg_settling p \<noteq> None"
| "page_allows Key_confirmed p \<longleftrightarrow> swipe_armed p"
| "page_allows (Answered k _ a) p \<longleftrightarrow> k < length (pg_jobs p) \<and> fits_job (pg_jobs p ! k) a"
| "page_allows _ p \<longleftrightarrow> False"

text \<open>A step of the tab: \<open>Left True\<close> keeps the page in the back/forward cache, with everything it waits for.\<close>

fun tab_step :: "receiver_env \<Rightarrow> canvas \<Rightarrow> tab_event \<Rightarrow> tab \<Rightarrow> tab" where
  "tab_step E C (Opened token) t = open_page token t"
| "tab_step E C (Left cached) t = t\<lparr>tb_page := None,
     tb_cached := (if cached then (case tb_page t of None \<Rightarrow> [] | Some p \<Rightarrow> [p]) @ tb_cached t else tb_cached t)\<rparr>"
| "tab_step E C (Restored k) t = (let p = tb_cached t ! k in
     rendered p (onPageShow p (t\<lparr>tb_cached := take k (tb_cached t) @ drop (Suc k) (tb_cached t)\<rparr>)))"
| "tab_step E C (Storage_fails f) t = store (\<lambda>s. s\<lparr>ss_faults := f\<rparr>) t"
| "tab_step E C e t = (case tb_page t of None \<Rightarrow> t | Some p \<Rightarrow> rendered p (page_turn E C e p t))"

fun tab_allows :: "tab_event \<Rightarrow> tab \<Rightarrow> bool" where
  "tab_allows (Opened _) t \<longleftrightarrow> tb_page t = None"
| "tab_allows (Left _) t \<longleftrightarrow> tb_page t \<noteq> None"
| "tab_allows (Restored k) t \<longleftrightarrow> tb_page t = None \<and> k < length (tb_cached t)"
| "tab_allows (Storage_fails _) t \<longleftrightarrow> True"
| "tab_allows e t \<longleftrightarrow> (case tb_page t of None \<Rightarrow> False | Some p \<Rightarrow> page_allows e p)"

definition new_tab :: tab where
  "new_tab = \<lparr>tb_storage = \<lparr>ss_identity = None, ss_outcome = None, ss_faults = {}\<rparr>, tb_page = None, tb_cached = [],
     tb_sent = [], tb_answered = [], tb_departures = []\<rparr>"

inductive tab_run :: "receiver_env \<Rightarrow> canvas \<Rightarrow> tab_event list \<Rightarrow> tab \<Rightarrow> bool" for E C where
  new: "tab_run E C [] new_tab"
| event: "tab_run E C es t \<Longrightarrow> tab_allows e t \<Longrightarrow> tab_run E C (es @ [e]) (tab_step E C e t)"

end
