(* ===== verification/HandoverSafety.thy ===== *)
theory HandoverSafety
  imports HandoverPage "HOL-Library.Sublist"
begin

text \<open>
  What the receiver page guarantees in every run of a tab (\<open>HandoverPage\<close>): "Delivery confirmed" is only shown for
  what the server confirmed, every confirmation is complete, the vendor is only reached after an agreement the
  server recorded, and what was typed for one delivery is never used for another. One invariant of the tab carries
  all four: it speaks of the requests that left, of the answers that came, of the storage, and of every page shown
  or cached.
\<close>

section \<open>Facts that stay true\<close>

definition answered_yes :: "tab \<Rightarrow> handover_request \<Rightarrow> bool" where
  "answered_yes t q \<longleftrightarrow> (\<exists>r. (q, r) \<in> set (tb_answered t) \<and> said_yes r)"

definition confirmed_by_server :: "tab \<Rightarrow> string \<Rightarrow> bool" where
  "confirmed_by_server t token \<longleftrightarrow> (\<exists>payload. answered_yes t (Confirm_request token payload))"

definition agreement_recorded :: "tab \<Rightarrow> string \<Rightarrow> bool" where
  "agreement_recorded t token \<longleftrightarrow> answered_yes t (Consent_request token consentPayloadText True)"

definition refused_by_server :: "tab \<Rightarrow> string \<Rightarrow> bool" where
  "refused_by_server t token \<longleftrightarrow> (\<exists>q res. (q, Response res) \<in> set (tb_answered t) \<and> token_of q = token \<and> rs_status res = 404)"

definition departed :: "tab \<Rightarrow> stashed_identity set" where
  "departed t = snd ` set (tb_departures t)"

definition identity_ok :: "string \<Rightarrow> string \<Rightarrow> bool" where
  "identity_ok name idNumber \<longleftrightarrow> hasRecipientIdentity name idNumber
     \<and> length name \<le> MAX_RECEIVER_NAME_LENGTH \<and> length idNumber \<le> MAX_RECEIVER_ID_NUMBER_LENGTH"

definition compared_identity :: "tab \<Rightarrow> string \<Rightarrow> string \<Rightarrow> string \<Rightarrow> bool" where
  "compared_identity t token name idNumber \<longleftrightarrow> name = [] \<and> idNumber = []
     \<or> \<lparr>si_name = name, si_idNumber = idNumber, si_token = token\<rparr> \<in> departed t"

definition payload_ok :: "confirm_payload \<Rightarrow> bool" where
  "payload_ok p \<longleftrightarrow> cp_receiver_name p \<noteq> [] \<and> cp_receiver_id_number p \<noteq> []
     \<and> length (cp_receiver_name p) \<le> MAX_RECEIVER_NAME_LENGTH \<and> length (cp_receiver_id_number p) \<le> MAX_RECEIVER_ID_NUMBER_LENGTH
     \<and> trim (cp_receiver_name p) = cp_receiver_name p \<and> trim (cp_receiver_id_number p) = cp_receiver_id_number p"

definition safe_url :: "receiver_env \<Rightarrow> string \<Rightarrow> bool" where
  "safe_url E url \<longleftrightarrow> (\<exists>u. rv_URL E url = Some u \<and> (url_protocol u = ''https:''
     \<or> url_origin u = rv_origin E \<and> url_protocol u = ''http:''))"

text \<open>Later tabs know more.\<close>

definition knows_more :: "tab \<Rightarrow> tab \<Rightarrow> bool" where
  "knows_more t u \<longleftrightarrow> set (tb_answered t) \<subseteq> set (tb_answered u) \<and> set (tb_departures t) \<subseteq> set (tb_departures u)"

lemma facts_mono:
  assumes "knows_more t u"
  shows "answered_yes t q \<Longrightarrow> answered_yes u q" "confirmed_by_server t token \<Longrightarrow> confirmed_by_server u token"
    "agreement_recorded t token \<Longrightarrow> agreement_recorded u token" "departed t \<subseteq> departed u"
    "compared_identity t token n i \<Longrightarrow> compared_identity u token n i"
    "refused_by_server t token \<Longrightarrow> refused_by_server u token"
  using assms unfolding knows_more_def answered_yes_def confirmed_by_server_def agreement_recorded_def departed_def compared_identity_def
    refused_by_server_def
  by blast+

lemma same_facts [simp]:
  "answered_yes (send_request r t) = answered_yes t" "answered_yes (store f t) = answered_yes t" "answered_yes (put p t) = answered_yes t"
  "departed (send_request r t) = departed t" "departed (store f t) = departed t" "departed (put p t) = departed t"
  "refused_by_server (send_request r t) = refused_by_server t" "refused_by_server (store f t) = refused_by_server t"
  "refused_by_server (put p t) = refused_by_server t"
  by (simp_all add: fun_eq_iff refused_by_server_def answered_yes_def departed_def send_request_def store_def put_def)

section \<open>The invariant\<close>

fun job_ok :: "tab \<Rightarrow> string \<Rightarrow> page_job \<Rightarrow> bool" where
  "job_ok t token (Resolve_job _ n i) \<longleftrightarrow> compared_identity t token n i"
| "job_ok t token (Position_job _ sg) \<longleftrightarrow> sg_scan sg \<noteq> None \<and> identity_ok (sg_name sg) (sg_idNumber sg)"
| "job_ok t token (Confirm_job _ payload) \<longleftrightarrow> payload_ok payload"
| "job_ok t token (Consent_job n i) \<longleftrightarrow> identity_ok n i"
| "job_ok t token (Start_job n i) \<longleftrightarrow> identity_ok n i \<and> agreement_recorded t token"
| "job_ok t token _ \<longleftrightarrow> True"

fun request_ok :: "tab \<Rightarrow> handover_request \<Rightarrow> bool" where
  "request_ok t (Resolve_request token n i) \<longleftrightarrow> compared_identity t token n i"
| "request_ok t (Confirm_request token payload) \<longleftrightarrow> payload_ok payload"
| "request_ok t _ \<longleftrightarrow> True"

definition fields_ok :: "page \<Rightarrow> bool" where
  "fields_ok p \<longleftrightarrow> length (pg_name p) \<le> MAX_RECEIVER_NAME_LENGTH \<and> length (pg_idNumber p) \<le> MAX_RECEIVER_ID_NUMBER_LENGTH
     \<and> (\<forall>sg. pg_settling p = Some sg \<longrightarrow> length (sg_name sg) \<le> MAX_RECEIVER_NAME_LENGTH
            \<and> length (sg_idNumber sg) \<le> MAX_RECEIVER_ID_NUMBER_LENGTH)"

definition page_ok :: "tab \<Rightarrow> page \<Rightarrow> bool" where
  "page_ok t p \<longleftrightarrow> (\<forall>j \<in> set (pg_jobs p). job_ok t (pg_token p) j) \<and> fields_ok p
     \<and> (\<forall>s. pg_stashed p = Some s \<longrightarrow> s \<in> departed t)
     \<and> (pg_status p = Done \<longrightarrow> confirmed_by_server t (pg_token p))
     \<and> (pg_status p = Invalid \<longrightarrow> refused_by_server t (pg_token p))"

definition departure_ok :: "receiver_env \<Rightarrow> tab \<Rightarrow> string \<times> stashed_identity \<Rightarrow> bool" where
  "departure_ok E t d \<longleftrightarrow> safe_url E (fst d) \<and> identity_ok (si_name (snd d)) (si_idNumber (snd d))
     \<and> agreement_recorded t (si_token (snd d)) \<and> answered_yes t (Verify_request (si_token (snd d)))"

definition storage_ok :: "tab \<Rightarrow> session_storage \<Rightarrow> bool" where
  "storage_ok t s \<longleftrightarrow> (\<forall>i. stored_identity s = Some i \<longrightarrow> i \<in> departed t)
     \<and> (\<forall>token. stored_outcome token s = Some Confirm_confirmed \<longrightarrow> confirmed_by_server t token)"

definition base_ok :: "receiver_env \<Rightarrow> tab \<Rightarrow> bool" where
  "base_ok E t \<longleftrightarrow> (\<forall>p \<in> set (tb_cached t). page_ok t p) \<and> (\<forall>q \<in> set (tb_sent t). request_ok t q)
     \<and> (\<forall>d \<in> set (tb_departures t). departure_ok E t d) \<and> storage_ok t (tb_storage t)"

definition tab_ok :: "receiver_env \<Rightarrow> tab \<Rightarrow> bool" where
  "tab_ok E t \<longleftrightarrow> base_ok E t \<and> (\<forall>p. tb_page t = Some p \<longrightarrow> page_ok t p)"

text \<open>The predicates under what a handler does to the tab.\<close>

lemma same_ok [simp]:
  "compared_identity (send_request r t) = compared_identity t" "compared_identity (store f t) = compared_identity t"
  "compared_identity (put p t) = compared_identity t"
  "confirmed_by_server (send_request r t) = confirmed_by_server t" "confirmed_by_server (store f t) = confirmed_by_server t"
  "confirmed_by_server (put p t) = confirmed_by_server t"
  "agreement_recorded (send_request r t) = agreement_recorded t" "agreement_recorded (store f t) = agreement_recorded t"
  "agreement_recorded (put p t) = agreement_recorded t"
  by (simp_all add: fun_eq_iff compared_identity_def confirmed_by_server_def agreement_recorded_def)

lemma same_job_ok [simp]:
  "job_ok (send_request r t) = job_ok t" "job_ok (store f t) = job_ok t" "job_ok (put p t) = job_ok t"
  by (intro ext; rename_tac token j; case_tac j; simp)+

lemma same_request_ok [simp]:
  "request_ok (send_request r t) = request_ok t" "request_ok (store f t) = request_ok t" "request_ok (put p t) = request_ok t"
  by (intro ext; rename_tac q; case_tac q; simp)+

lemma same_page_ok [simp]:
  "page_ok (send_request r t) = page_ok t" "page_ok (store f t) = page_ok t" "page_ok (put p t) = page_ok t"
  "departure_ok E (send_request r t) = departure_ok E t" "departure_ok E (store f t) = departure_ok E t"
  "departure_ok E (put p t) = departure_ok E t"
  "storage_ok (send_request r t) = storage_ok t" "storage_ok (store f t) = storage_ok t" "storage_ok (put p t) = storage_ok t"
  by (simp_all add: fun_eq_iff page_ok_def departure_ok_def storage_ok_def)

lemma tab_fields [simp]:
  "tb_storage (send_request r t) = tb_storage t" "tb_page (send_request r t) = tb_page t" "tb_cached (send_request r t) = tb_cached t"
  "tb_sent (send_request r t) = tb_sent t @ [r]" "tb_departures (send_request r t) = tb_departures t"
  "tb_answered (send_request r t) = tb_answered t"
  "tb_storage (store f t) = f (tb_storage t)" "tb_page (store f t) = tb_page t" "tb_cached (store f t) = tb_cached t"
  "tb_sent (store f t) = tb_sent t" "tb_departures (store f t) = tb_departures t" "tb_answered (store f t) = tb_answered t"
  "tb_storage (put p t) = tb_storage t" "tb_page (put p t) = Some p" "tb_cached (put p t) = tb_cached t"
  "tb_sent (put p t) = tb_sent t" "tb_departures (put p t) = tb_departures t" "tb_answered (put p t) = tb_answered t"
  by (simp_all add: send_request_def store_def put_def)

lemma base_ok_simps [simp]:
  "base_ok E (send_request r t) \<longleftrightarrow> base_ok E t \<and> request_ok t r"
  "base_ok E (put p t) \<longleftrightarrow> base_ok E t" "tab_ok E (put p t) \<longleftrightarrow> base_ok E t \<and> page_ok t p"
  by (auto simp: base_ok_def tab_ok_def)

lemma base_store: "base_ok E t \<Longrightarrow> storage_ok t (f (tb_storage t)) \<Longrightarrow> base_ok E (store f t)"
  by (simp add: base_ok_def)

text \<open>An answer or a departure more is more knowledge.\<close>

lemma job_ok_mono: "knows_more t u \<Longrightarrow> job_ok t token j \<Longrightarrow> job_ok u token j"
  by (cases j) (auto dest: facts_mono)

lemma page_ok_mono: "knows_more t u \<Longrightarrow> page_ok t p \<Longrightarrow> page_ok u p"
  unfolding page_ok_def using facts_mono(2,4,6) job_ok_mono by blast

lemma base_ok_mono:
  assumes "knows_more t u" "base_ok E t" "\<And>p. p \<in> set (tb_cached u) \<Longrightarrow> page_ok t p" "tb_sent u = tb_sent t" "tb_storage u = tb_storage t"
    and "\<And>d. d \<in> set (tb_departures u) \<Longrightarrow> d \<notin> set (tb_departures t) \<Longrightarrow> departure_ok E u d"
  shows "base_ok E u"
proof -
  have "request_ok u q" if "request_ok t q" for q using that facts_mono(5)[OF assms(1)] by (cases q) auto
  moreover have "departure_ok E u d" if "departure_ok E t d" for d
    using that facts_mono(1,3)[OF assms(1)] unfolding departure_ok_def by blast
  moreover have "storage_ok u s" if "storage_ok t s" for s
    using that facts_mono(2,4)[OF assms(1)] unfolding storage_ok_def by blast
  ultimately show ?thesis using assms page_ok_mono[OF assms(1)] unfolding base_ok_def by metis
qed

lemma trim_trim [simp]: "trim (trim s) = trim s"
proof -
  let ?u = "dropWhile isWhite s"
  define v where "v = rev (dropWhile isWhite (rev ?u))"
  have "dropWhile isWhite v = v"
  proof (cases v)
    case (Cons c cs)
    have "prefix v ?u" using suffix_dropWhile[of isWhite "rev ?u"] by (simp add: v_def suffix_to_prefix)
    then obtain zs where u: "?u = c # cs @ zs" using Cons by (auto simp: prefix_def)
    then have "\<not> isWhite c" using hd_dropWhile[of isWhite s] by (metis list.distinct(1) list.sel(1))
    then show ?thesis using Cons by simp
  qed simp
  moreover have "dropWhile isWhite (rev v) = rev v" by (simp add: v_def dropWhile_idem)
  ultimately show ?thesis by (simp add: trim_def flip: v_def)
qed

section \<open>Every handler keeps it\<close>

text \<open>A page that only changed in parts the invariant does not speak of, or as it allows.\<close>

lemma page_ok_parts [simp]:
  "page_ok t (p\<lparr>pg_message := m\<rparr>) = page_ok t p" "page_ok t (p\<lparr>pg_notice := n\<rparr>) = page_ok t p"
  "page_ok t (p\<lparr>pg_mayHaveConfirmed := b\<rparr>) = page_ok t p" "page_ok t (p\<lparr>pg_scanAttempt := k\<rparr>) = page_ok t p"
  "page_ok t (p\<lparr>pg_consentBusy := b\<rparr>) = page_ok t p" "page_ok t (p\<lparr>pg_agreed := b\<rparr>) = page_ok t p"
  "page_ok t (p\<lparr>pg_swipe := k\<rparr>) = page_ok t p" "page_ok t (p\<lparr>pg_fired := b\<rparr>) = page_ok t p"
  "page_ok t (p\<lparr>pg_leaving := b\<rparr>) = page_ok t p" "page_ok t (p\<lparr>pg_scan := sc\<rparr>) = page_ok t p"
  "page_ok t (release k p) = page_ok t p"
  "page_ok t (waits j p) \<longleftrightarrow> page_ok t p \<and> job_ok t (pg_token p) j"
  by (auto simp: page_ok_def fields_ok_def release_def waits_def)

lemma page_ok_status: "page_ok t p \<Longrightarrow> st \<noteq> Done \<or> confirmed_by_server t (pg_token p) \<Longrightarrow>
   st \<noteq> Invalid \<or> refused_by_server t (pg_token p) \<Longrightarrow> page_ok t (show_status st p)"
  by (auto simp: page_ok_def fields_ok_def show_status_def)

lemma page_ok_status_parts [simp]:
  "pg_token (show_status st p) = pg_token p" "pg_token (waits j p) = pg_token p" "pg_token (release k p) = pg_token p"
  by (simp_all add: show_status_def waits_def release_def)

lemma page_ok_settled: "page_ok t p \<Longrightarrow> page_ok t (p\<lparr>pg_settling := None\<rparr>)"
  by (auto simp: page_ok_def fields_ok_def)

lemma page_ok_drop: "page_ok t p \<Longrightarrow> page_ok t (drop_job k p)"
  by (auto simp: page_ok_def fields_ok_def drop_job_def dest: in_set_takeD in_set_dropD)

lemma page_ok_rerender: "page_ok t q \<Longrightarrow> page_ok t (rerender p q)"
  by (auto simp: rerender_def Let_def intro: page_ok_settled)

lemma tab_ok_rendered: "tab_ok E t \<Longrightarrow> tab_ok E (rendered p t)"
proof -
  assume ok: "tab_ok E t"
  have m: "knows_more t (rendered p t)" by (simp add: knows_more_def rendered_def)
  have "base_ok E (rendered p t)" using ok by (intro base_ok_mono[OF m]) (auto simp: tab_ok_def rendered_def base_ok_def)
  moreover have "page_ok (rendered p t) q" if "tb_page (rendered p t) = Some q" for q
    using that ok page_ok_mono[OF m] page_ok_rerender by (auto simp: tab_ok_def rendered_def)
  ultimately show ?thesis by (simp add: tab_ok_def)
qed

named_theorems handler_ok \<open>the invariant after each handler\<close>

lemma storage_ok_steps:
  "storage_ok t s \<Longrightarrow> storage_ok t (clearStashedIdentity s)"
  "storage_ok t s \<Longrightarrow> storage_ok t (rememberConfirmOutcome token Confirm_attempted s)"
  "storage_ok t s \<Longrightarrow> confirmed_by_server t token \<Longrightarrow> storage_ok t (rememberConfirmOutcome token Confirm_confirmed s)"
  "storage_ok t s \<Longrightarrow> storage_ok t (s\<lparr>ss_faults := f\<rparr>)"
  "storage_ok t s \<Longrightarrow> i \<in> departed t \<Longrightarrow> storage_ok t (stashIdentity i s)"
  by (auto simp: storage_ok_def split: if_splits)

lemma base_ok_storage: "base_ok E t \<Longrightarrow> storage_ok t (tb_storage t)"
  by (simp add: base_ok_def)

lemma base_ok_storage_steps:
  assumes "base_ok E t"
  shows "base_ok E (store clearStashedIdentity t)" "base_ok E (store (rememberConfirmOutcome token Confirm_attempted) t)"
    "confirmed_by_server t token \<Longrightarrow> base_ok E (store (rememberConfirmOutcome token Confirm_confirmed) t)"
    "base_ok E (store (\<lambda>s. s\<lparr>ss_faults := f\<rparr>) t)"
  using assms by (auto intro!: base_store storage_ok_steps base_ok_storage)

lemma load_scan_ok [handler_ok]: "base_ok E t \<Longrightarrow> page_ok t p \<Longrightarrow> tab_ok E (load_scan p t)"
  by (simp add: load_scan_def)

lemma open_page_ok [handler_ok]: "base_ok E t \<Longrightarrow> tab_ok E (open_page token t)"
  unfolding open_page_def
  by (intro load_scan_ok base_ok_storage_steps)
     (auto simp: page_ok_def fields_ok_def blank_page_def base_ok_def storage_ok_def dest: read_is_stored)

lemma retryScan_ok [handler_ok]: "base_ok E t \<Longrightarrow> page_ok t p \<Longrightarrow> tab_ok E (retryScan p t)"
  unfolding retryScan_def using page_ok_status[of t p Loading] by (intro load_scan_ok) (simp_all add: show_status_def)

lemma onPageShow_ok [handler_ok]: "base_ok E t \<Longrightarrow> page_ok t p \<Longrightarrow> tab_ok E (onPageShow p t)"
  by (simp add: onPageShow_def base_ok_storage_steps page_ok_status)

lemma page_ok_returning:
  assumes "page_ok t p" "returning p = Some s" "base_ok E t"
  shows "page_ok t (p\<lparr>pg_scan := sc, pg_name := si_name s, pg_idNumber := si_idNumber s\<rparr>)" "compared_identity t (pg_token p) (si_name s) (si_idNumber s)"
proof -
  have s: "s \<in> departed t" "si_token s = pg_token p"
    using assms(1,2) by (auto simp: returning_def page_ok_def split: option.splits if_splits)
  then have "\<lparr>si_name = si_name s, si_idNumber = si_idNumber s, si_token = pg_token p\<rparr> \<in> departed t" by (cases s) auto
  then show "compared_identity t (pg_token p) (si_name s) (si_idNumber s)" by (simp add: compared_identity_def)
  have "identity_ok (si_name s) (si_idNumber s)" using s assms(3) by (auto simp: departed_def base_ok_def departure_ok_def)
  then show "page_ok t (p\<lparr>pg_scan := sc, pg_name := si_name s, pg_idNumber := si_idNumber s\<rparr>)"
    using assms(1) by (auto simp: page_ok_def fields_ok_def identity_ok_def)
qed

lemma scan_failed_ok:
  "base_ok E t \<Longrightarrow> page_ok t p \<Longrightarrow> isTokenRejected e \<longrightarrow> refused_by_server t (pg_token p) \<Longrightarrow> tab_ok E (scan_failed e p t)"
  unfolding scan_failed_def Let_def
  by (auto intro!: page_ok_status dest!: read_is_stored(2) simp: base_ok_def storage_ok_def)

lemma scan_loaded_ok: "base_ok E t \<Longrightarrow> page_ok t p \<Longrightarrow> tab_ok E (scan_loaded n res p t)"
proof (cases "returning p")
  case None
  then show "base_ok E t \<Longrightarrow> page_ok t p \<Longrightarrow> ?thesis"
    by (auto simp: scan_loaded_def Let_def compared_identity_def intro!: page_ok_status split: option.split)
next
  case (Some s)
  assume b: "base_ok E t" and p: "page_ok t p"
  then show ?thesis using Some page_ok_returning[OF p Some b]
    by (auto simp: scan_loaded_def Let_def intro!: page_ok_status split: option.split)
qed

lemma scan_answered_ok [handler_ok]:
  "base_ok E t \<Longrightarrow> page_ok t p \<Longrightarrow> \<forall>e. r = Inl e \<and> isTokenRejected e \<longrightarrow> refused_by_server t (pg_token p) \<Longrightarrow> tab_ok E (scan_answered n r p t)"
  by (simp add: scan_answered_def scan_failed_ok scan_loaded_ok split: sum.split)

lemma resolve_answered_ok [handler_ok]: "base_ok E t \<Longrightarrow> page_ok t p \<Longrightarrow> tab_ok E (resolve_answered n r p t)"
  by (auto simp: resolve_answered_def intro!: page_ok_status split: sum.split)

lemma handleSign_ok [handler_ok]:
  assumes "base_ok E t" "page_ok t p" "length (sg_name sg) \<le> MAX_RECEIVER_NAME_LENGTH" "length (sg_idNumber sg) \<le> MAX_RECEIVER_ID_NUMBER_LENGTH"
  shows "tab_ok E (handleSign n sg p t)"
  using assms by (auto simp: handleSign_def identity_ok_def intro!: page_ok_status)

lemma sign_failed_ok: "base_ok E t \<Longrightarrow> page_ok t p \<Longrightarrow> tab_ok E (sign_failed n p t)"
  by (simp add: sign_failed_def page_ok_status)

lemma payload_of_ok: "identity_ok (sg_name sg) (sg_idNumber sg) \<Longrightarrow> payload_ok (payload_of fix url sg)"
  using length_trim[of "sg_name sg"] length_trim[of "sg_idNumber sg"]
  by (auto simp: payload_ok_def payload_of_def identity_ok_def hasRecipientIdentity_def)

lemma positioned_ok [handler_ok]:
  "base_ok E t \<Longrightarrow> page_ok t p \<Longrightarrow> identity_ok (sg_name sg) (sg_idNumber sg) \<Longrightarrow> tab_ok E (positioned_answer C s a n sg p t)"
  by (auto simp: positioned_answer_def Let_def sign_failed_ok payload_of_ok base_ok_storage_steps split: option.split)

lemma confirm_answered_ok [handler_ok]:
  assumes "base_ok E t" "page_ok t p" "\<And>x. r = Inr x \<Longrightarrow> confirmed_by_server t (pg_token p)"
    "\<And>e. r = Inl e \<Longrightarrow> isTokenRejected e \<Longrightarrow> refused_by_server t (pg_token p)"
  shows "tab_ok E (confirm_answered n r p t)"
  using assms by (auto simp: confirm_answered_def base_ok_storage_steps intro!: page_ok_status split: sum.split)

lemma handleConsentProceed_ok [handler_ok]: "base_ok E t \<Longrightarrow> page_ok t p \<Longrightarrow> tab_ok E (handleConsentProceed d p t)"
  by (auto simp: handleConsentProceed_def Let_def identity_ok_def intro!: page_ok_status)
     (auto simp: page_ok_def fields_ok_def)

lemma check_unavailable_ok: "base_ok E t \<Longrightarrow> page_ok t p \<Longrightarrow> tab_ok E (check_unavailable p t)"
  by (simp add: check_unavailable_def page_ok_status)

lemma consent_answered_ok [handler_ok]:
  assumes "base_ok E t" "page_ok t p" "identity_ok n i" "\<And>x. r = Inr x \<Longrightarrow> agreement_recorded t (pg_token p)"
  shows "tab_ok E (consent_answered n i r p t)"
  using assms by (auto simp: consent_answered_def check_unavailable_ok split: sum.split)

lemma safe_redirect: "resolveSafeRedirect E raw = Some url \<Longrightarrow> safe_url E url"
  by (auto simp: resolveSafeRedirect_def safe_url_def Let_def split: option.splits if_splits)

lemma start_answered_ok [handler_ok]:
  assumes "base_ok E t" "page_ok t p" "identity_ok n i" "agreement_recorded t (pg_token p)"
    and "\<And>x. r = Inr x \<Longrightarrow> answered_yes t (Verify_request (pg_token p))"
  shows "tab_ok E (start_answered E n i r p t)"
proof (cases "\<exists>raw url. r = Inr raw \<and> resolveSafeRedirect E raw = Some url")
  case True
  then obtain raw url where r: "r = Inr raw" "resolveSafeRedirect E raw = Some url" by blast
  let ?i = "\<lparr>si_name = n, si_idNumber = i, si_token = pg_token p\<rparr>"
  let ?t = "t\<lparr>tb_departures := tb_departures t @ [(url, ?i)]\<rparr>"
  have m: "knows_more t ?t" by (auto simp: knows_more_def)
  have "departure_ok E ?t (url, ?i)"
    using assms r safe_redirect[OF r(2)] facts_mono(1,3)[OF m] by (auto simp: departure_ok_def)
  then have b: "base_ok E ?t" using assms(1) by (intro base_ok_mono[OF m]) (auto simp: base_ok_def)
  have "?i \<in> departed ?t" by (simp add: departed_def)
  then have "base_ok E (store (stashIdentity ?i) ?t)" using b by (intro base_store storage_ok_steps base_ok_storage)
  moreover have "start_answered E n i r p t = put (p\<lparr>pg_leaving := True\<rparr>) (store (stashIdentity ?i) ?t)"
    using r by (simp add: start_answered_def Let_def store_def put_def)
  ultimately show ?thesis using page_ok_mono[OF m assms(2)] by simp
next
  case False
  then show ?thesis using assms by (auto simp: start_answered_def check_unavailable_ok split: sum.split option.split)
qed

lemma handleConsentDecline_ok [handler_ok]: "base_ok E t \<Longrightarrow> page_ok t p \<Longrightarrow> tab_ok E (handleConsentDecline p t)"
  by (simp add: handleConsentDecline_def)

lemma consent_recorded_ok [handler_ok]: "base_ok E t \<Longrightarrow> page_ok t p \<Longrightarrow> tab_ok E (consent_recorded p t)"
  by (simp add: consent_recorded_def page_ok_status)

section \<open>Every step keeps it\<close>

lemma log_answer_fields [simp]:
  "tb_storage (log_answer token j a t) = tb_storage t" "tb_page (log_answer token j a t) = tb_page t"
  "tb_cached (log_answer token j a t) = tb_cached t" "tb_sent (log_answer token j a t) = tb_sent t"
  "tb_departures (log_answer token j a t) = tb_departures t"
  by (simp_all add: log_answer_def split: option.split answer.split)

lemma log_answer_more: "knows_more t (log_answer token j a t)"
  by (auto simp: knows_more_def log_answer_def split: option.split answer.split)

lemma logged: "request_of token j = Some q \<Longrightarrow> said_yes r \<Longrightarrow> answered_yes (log_answer token j (From_server r) t) q"
  by (auto simp: log_answer_def answered_yes_def)

lemma logged_refusal:
  assumes "request_of token j \<noteq> None" "receive E now as r = Inl e" "isTokenRejected e"
  shows "refused_by_server (log_answer token j (From_server r) t) token"
proof -
  obtain q where q: "request_of token j = Some q" using assms(1) by auto
  then have "token_of q = token" by (cases j) auto
  then show ?thesis using q assms(2,3) by (auto simp: log_answer_def refused_by_server_def receive_rejected)
qed

lemma answered_ok:
  assumes "tab_ok E t" "tb_page t = Some p" "page_allows (Answered k now a) p"
  shows "tab_ok E (page_turn E C (Answered k now a) p t)"
proof -
  let ?j = "pg_jobs p ! k" and ?q = "drop_job k p"
  let ?t = "log_answer (pg_token p) ?j a t"
  have m: "knows_more t ?t" by (rule log_answer_more)
  have b: "base_ok E ?t" using assms(1) by (intro base_ok_mono[OF m]) (auto simp: tab_ok_def base_ok_def)
  have p: "page_ok ?t p" using assms(1,2) page_ok_mono[OF m] by (auto simp: tab_ok_def)
  then have j: "job_ok ?t (pg_token p) ?j" using assms(3) by (auto simp: page_ok_def)
  note q = page_ok_drop[OF p, of k]
  have tok: "pg_token ?q = pg_token p" by (simp add: drop_job_def)
  have "tab_ok E (answered_job E C now ?j a ?q ?t)"
  proof (cases a)
    case (From_server r)
    have yes: "answered_yes ?t x" if "request_of (pg_token p) ?j = Some x" "said_yes r" for x
      using logged[OF that] From_server by simp
    show ?thesis
    proof (cases ?j)
      case (Confirm_job n payload)
      have "confirmed_by_server ?t (pg_token p)" if "said_yes r"
        unfolding confirmed_by_server_def using yes[OF _ that] Confirm_job by (intro exI[of _ payload]) simp
      then show ?thesis using b q tok From_server Confirm_job receive_yes[of E now id r] logged_refusal[of "pg_token p" ?j E now id r _ t]
        by (auto intro!: confirm_answered_ok)
    next
      case (Scan_job n)
      then show ?thesis using b q tok From_server logged_refusal[of "pg_token p" ?j E now "rv_as_scan E" r _ t]
        by (auto intro!: scan_answered_ok)
    next
      case (Consent_job n i)
      then show ?thesis using b q j tok yes From_server receive_yes[of E now id r]
        by (auto simp: agreement_recorded_def intro!: consent_answered_ok)
    next
      case (Start_job n i)
      then show ?thesis using b q j tok yes From_server receive_yes[of E now "rv_as_session_url E" r]
        by (auto intro!: start_answered_ok)
    qed (use b q From_server in \<open>simp_all add: handler_ok\<close>)
  next
    case (From_device s d)
    then show ?thesis using b q j by (cases ?j) (auto intro!: positioned_ok)
  qed
  then show ?thesis by simp
qed

lemma page_turn_ok:
  assumes "tab_ok E t" "tb_page t = Some p" "page_allows e p"
  shows "tab_ok E (page_turn E C e p t)"
proof -
  have b: "base_ok E t" and p: "page_ok t p" using assms(1,2) by (auto simp: tab_ok_def)
  then have f: "fields_ok p" by (simp add: page_ok_def)
  show ?thesis
  proof (cases e)
    case (Answered k now a)
    then show ?thesis using answered_ok[OF assms(1,2)] assms(3) by blast
  next
    case Swipe_settled
    then obtain sg where "pg_settling p = Some sg" using assms(3) by auto
    then show ?thesis using Swipe_settled b f page_ok_settled[OF p] by (auto simp: fields_ok_def intro!: handleSign_ok)
  next
    case Key_confirmed
    then show ?thesis using b p f by (auto simp: fields_ok_def closure_def intro!: handleSign_ok)
  qed (use b p f assms(3) in \<open>auto simp: handler_ok, auto simp: page_ok_def fields_ok_def closure_def\<close>)
qed

lemma tab_step_ok:
  assumes "tab_ok E t" "tab_allows e t"
  shows "tab_ok E (tab_step E C e t)"
proof -
  have b: "base_ok E t" using assms(1) by (simp add: tab_ok_def)
  have turn: "tab_ok E (rendered p (page_turn E C e p t))" if "tb_page t = Some p" "page_allows e p" for p
    using page_turn_ok[OF assms(1) that] by (rule tab_ok_rendered)
  show ?thesis
  proof (cases e)
    case (Restored k)
    let ?t = "t\<lparr>tb_cached := take k (tb_cached t) @ drop (Suc k) (tb_cached t)\<rparr>"
    have m: "knows_more t ?t" by (simp add: knows_more_def)
    have "base_ok E ?t"
      using b by (intro base_ok_mono[OF m]) (auto simp: base_ok_def dest: in_set_takeD in_set_dropD)
    moreover have "page_ok ?t (tb_cached t ! k)" using b assms(2) Restored page_ok_mono[OF m] by (auto simp: base_ok_def)
    ultimately show ?thesis using Restored by (simp add: Let_def onPageShow_ok tab_ok_rendered)
  next
    case (Left cached)
    have m: "knows_more t (tab_step E C e t)" using Left by (simp add: knows_more_def)
    have "base_ok E (tab_step E C e t)"
      using assms(1) Left by (intro base_ok_mono[OF m]) (auto simp: base_ok_def tab_ok_def split: if_splits option.splits)
    then show ?thesis using Left by (simp add: tab_ok_def)
  next
    case (Storage_fails f)
    then show ?thesis using assms(1) base_ok_storage_steps(4)[OF b] by (auto simp: tab_ok_def)
  qed (use assms turn b in \<open>auto simp: handler_ok split: option.splits\<close>)
qed

theorem tab_run_ok: "tab_run E C es t \<Longrightarrow> tab_ok E t"
proof (induction rule: tab_run.induct)
  case new
  then show ?case
    by (auto simp: tab_ok_def base_ok_def storage_ok_def new_tab_def stored_identity_def stored_outcome_def
        readStashedIdentity_def readConfirmOutcome_def)
qed (rule tab_step_ok)

lemma tab_run_logs:
  assumes "tab_run E C es t"
  shows "q \<in> set (tb_sent t) \<Longrightarrow> request_ok t q" "d \<in> set (tb_departures t) \<Longrightarrow> departure_ok E t d"
  using tab_run_ok[OF assms] unfolding tab_ok_def base_ok_def by blast+

section \<open>Agreement\<close>

text \<open>A page whose consent gate is not shown holds no tick, so a gate never comes up ticked.\<close>

lemma sent_by_turn:
  assumes "page_allows e p" "Consent_request token wording d \<in> set (tb_sent (page_turn E C e p t))"
    "Consent_request token wording d \<notin> set (tb_sent t)"
  shows "e = Proceeded d \<and> token = pg_token p \<and> wording = consentPayloadText \<and> gate_shown p \<and> pg_agreed p"
proof (cases e)
  case (Answered k now a)
  have "tb_sent (answered_job E C now j a q u) = tb_sent u
      \<or> (\<exists>r. tb_sent (answered_job E C now j a q u) = tb_sent u @ [r] \<and> (\<nexists>t w d. r = Consent_request t w d))" for j q u
    by (cases "(E, C, now, j, a, q, u)" rule: answered_job.cases)
       (auto simp: positioned_answer_def sign_failed_def scan_answered_def scan_failed_def scan_loaded_def resolve_answered_def
          confirm_answered_def consent_answered_def check_unavailable_def start_answered_def consent_recorded_def Let_def
          split: option.split sum.split)
  from this[of "pg_jobs p ! k" "drop_job k p" "log_answer (pg_token p) (pg_jobs p ! k) a t"]
  show ?thesis using assms Answered by auto
qed (use assms in \<open>auto simp: handleConsentProceed_def handleConsentDecline_def retryScan_def load_scan_def handleSign_def Let_def
       split: if_splits option.splits\<close>)

lemma rendered_sent [simp]: "tb_sent (rendered p t) = tb_sent t"
  by (simp add: rendered_def)

fun page_event :: "tab_event \<Rightarrow> bool" where
  "page_event (Opened _) = False"
| "page_event (Left _) = False"
| "page_event (Restored _) = False"
| "page_event (Storage_fails _) = False"
| "page_event _ = True"

lemma page_event_step:
  "page_event e \<Longrightarrow> tb_page t = Some p \<Longrightarrow> tab_step E C e t = rendered p (page_turn E C e p t)"
  "page_event e \<Longrightarrow> tab_allows e t \<longleftrightarrow> (\<exists>p. tb_page t = Some p \<and> page_allows e p)"
  by (cases e; auto split: option.splits)+

lemma other_event_sends:
  "\<not> page_event e \<Longrightarrow> Consent_request token wording d \<in> set (tb_sent (tab_step E C e t)) \<Longrightarrow> Consent_request token wording d \<in> set (tb_sent t)"
  by (cases e) (auto simp: open_page_def load_scan_def onPageShow_def Let_def split: if_splits)

lemma sent_by_step:
  assumes "tab_allows e t" "Consent_request token wording d \<in> set (tb_sent (tab_step E C e t))"
    "Consent_request token wording d \<notin> set (tb_sent t)"
  shows "\<exists>p. tb_page t = Some p \<and> e = Proceeded d \<and> token = pg_token p \<and> wording = consentPayloadText \<and> gate_shown p \<and> pg_agreed p"
proof -
  have e: "page_event e" using other_event_sends assms(2,3) by blast
  then obtain p where p: "tb_page t = Some p" "page_allows e p" using assms(1) page_event_step(2) by blast
  then show ?thesis using sent_by_turn[OF p(2), of token wording d E C t] assms(2,3) page_event_step(1)[OF e p(1)] by auto
qed

definition agreed_on_page :: "receiver_env \<Rightarrow> canvas \<Rightarrow> tab_event list \<Rightarrow> string \<Rightarrow> bool \<Rightarrow> bool" where
  "agreed_on_page E C es token d \<longleftrightarrow> (\<exists>before after u p. es = before @ Proceeded d # after \<and> tab_run E C before u
     \<and> tb_page u = Some p \<and> pg_token p = token \<and> gate_shown p \<and> pg_agreed p)"

lemma consent_has_its_press:
  "tab_run E C es t \<Longrightarrow> Consent_request token wording d \<in> set (tb_sent t) \<Longrightarrow>
     wording = consentPayloadText \<and> agreed_on_page E C es token d"
proof (induction rule: tab_run.induct)
  case new
  then show ?case by (simp add: new_tab_def)
next
  case (event es t e)
  show ?case
  proof (cases "Consent_request token wording d \<in> set (tb_sent t)")
    case True
    then show ?thesis using event.IH unfolding agreed_on_page_def by (metis append.assoc append_Cons)
  next
    case False
    from sent_by_step[OF event.hyps(2) event.prems this] show ?thesis
      using event.hyps(1) unfolding agreed_on_page_def by blast
  qed
qed

section \<open>The gate is never ticked in advance\<close>

text \<open>A gate that comes up is not ticked: the tick is of this gate.\<close>

lemma gate_comes_up_unticked: "pg_agreed p \<longrightarrow> gate_shown p \<Longrightarrow> pg_agreed (rerender p q) \<longrightarrow> gate_shown (rerender p q)"
  by (auto simp: rerender_def Let_def gate_shown_def)

section \<open>A run to evaluate\<close>

fun follow :: "receiver_env \<Rightarrow> canvas \<Rightarrow> tab_event list \<Rightarrow> tab \<Rightarrow> tab option" where
  "follow E C [] t = Some t"
| "follow E C (e # es) t = (if tab_allows e t then follow E C es (tab_step E C e t) else None)"

lemma follow_run: "tab_run E C es t \<Longrightarrow> follow E C fs t = Some u \<Longrightarrow> tab_run E C (es @ fs) u"
proof (induction fs arbitrary: es t)
  case (Cons f fs)
  then have "tab_run E C (es @ [f]) (tab_step E C f t)" by (auto intro: tab_run.event split: if_splits)
  from Cons.IH[OF this] Cons.prems(2) show ?case by (auto split: if_splits)
qed simp

lemmas follow_new = follow_run[OF tab_run.new, simplified]

definition a_server :: receiver_env where
  "a_server = \<lparr>rv_parseDate = (\<lambda>_. None), rv_URL = (\<lambda>_. Some \<lparr>url_origin = ''https://idvs.example'', url_protocol = ''https:''\<rparr>),
     rv_origin = ''https://receiver.example'',
     rv_as_scan = (\<lambda>j. \<lparr>hs_trip_reference = ''FP-1'', hs_destination_name = ''Depot'', hs_waybill_references = [], hs_expires_at = ''2026'',
        hs_verification = (if j = JNull then None else Some \<lparr>vs_status = ''verified'', vs_tier = ''document_and_face'',
          vs_unverified_reason = None, vs_identity_match = None\<rparr>)\<rparr>),
     rv_as_session_url = (\<lambda>_. Some ''https://idvs.example/1'')\<rparr>"

definition a_canvas :: canvas where
  "a_canvas = \<lparr>cv_context = True, cv_width = (\<lambda>_ _. 0), cv_toLocaleString = id, cv_toDataURL = (\<lambda>_. ''data:image/png;base64,AA=='')\<rparr>"

definition replied :: "int \<Rightarrow> json \<Rightarrow> answer" where
  "replied status body = From_server (Response \<lparr>rs_status = status, rs_statusText = [], rs_retryAfter = None, rs_body = Some body\<rparr>)"

text \<open>A receiver goes to the identity check, comes back, and confirms; the next scan of the code is refused.\<close>

definition to_the_vendor :: "tab_event list" where
  "to_the_vendor = [Opened ''tok'', Answered 0 0 (replied 200 JNull), Name_typed ''Ann'', Id_typed ''P7'', Agree_ticked True,
     Proceeded True, Answered 0 0 (replied 200 JNull), Answered 0 0 (replied 200 JNull), Left False]"

definition back_and_confirm :: "tab_event list" where
  "back_and_confirm = [Opened ''tok'', Answered 0 0 (replied 200 (JBool True)), Answered 0 0 (replied 200 JNull), Key_confirmed,
     Answered 0 0 (From_device ''2026'' No_position), Answered 0 0 (replied 200 JNull)]"

lemmas page_defs = rerender_def rendered_def swipe_shown_def swipe_disabled_def swipe_busy_def swipe_armed_def gate_shown_def
  fields_enabled_def put_def send_request_def store_def waits_def show_status_def release_def returning_def load_scan_def
  blank_page_def open_page_def retryScan_def onPageShow_def scan_failed_def scan_loaded_def scan_answered_def resolve_answered_def
  handleSign_def closure_def sign_failed_def positioned_answer_def confirm_answered_def
  handleConsentProceed_def check_unavailable_def consent_answered_def start_answered_def handleConsentDecline_def
  consent_recorded_def log_answer_def drop_job_def receive_def parse_def rs_ok_def replied_def resolveSafeRedirect_def
  hasRecipientIdentity_def trim_def isWhite_def MAX_RECEIVER_NAME_LENGTH_def MAX_RECEIVER_ID_NUMBER_LENGTH_def
  stashIdentity_def readStashedIdentity_def clearStashedIdentity_def rememberConfirmOutcome_def readConfirmOutcome_def
  capturePosition_def renderAttestation_def payload_of_def new_tab_def a_server_def a_canvas_def

definition whole_visit :: "tab_event list" where
  "whole_visit = to_the_vendor @ back_and_confirm"

definition visited :: tab where
  "visited = the (follow a_server a_canvas whole_visit new_tab)"

lemma visit_follow: "follow a_server a_canvas whole_visit new_tab = Some visited"
  unfolding visited_def whole_visit_def to_the_vendor_def back_and_confirm_def by (simp add: page_defs Let_def)

lemmas visit_run = follow_new[OF visit_follow]

lemma visit_result:
  "\<exists>p. tb_page visited = Some p \<and> pg_status p = Done \<and> pg_token p = ''tok''"
  "\<lparr>si_name = ''Ann'', si_idNumber = ''P7'', si_token = ''tok''\<rparr> \<in> departed visited"
  "Resolve_request ''tok'' ''Ann'' ''P7'' \<in> set (tb_sent visited)"
  "\<exists>payload. Confirm_request ''tok'' payload \<in> set (tb_sent visited) \<and> cp_receiver_name payload = ''Ann''"
  "Consent_request ''tok'' consentPayloadText True \<in> set (tb_sent visited)"
  unfolding visited_def whole_visit_def to_the_vendor_def back_and_confirm_def departed_def
  by (simp_all add: page_defs Let_def)

section \<open>Properties\<close>

text \<open>
  Property C16. What the page tells the receiver is what the server said, in every run of a tab with failing
  storage, lost answers, reloads and restored pages: "Delivery confirmed" is shown only when the server answered a
  confirmation of this token with a success, and "This link is no longer valid" only when it answered a request for
  this token with 404.
\<close>

theorem screens_follow_the_server:
  assumes "tab_run E C es t" "tb_page t = Some p"
  shows "(pg_status p = Done \<longrightarrow> (\<exists>payload r. (Confirm_request (pg_token p) payload, r) \<in> set (tb_answered t) \<and> said_yes r))
     \<and> (pg_status p = Invalid \<longrightarrow> (\<exists>q res. (q, Response res) \<in> set (tb_answered t) \<and> token_of q = pg_token p \<and> rs_status res = 404))"
  using tab_run_ok[OF assms(1)] assms(2)
  by (auto simp: tab_ok_def page_ok_def confirmed_by_server_def answered_yes_def refused_by_server_def)

theorem screens_follow_the_server_witness:
  "\<exists>payload r. (Confirm_request ''tok'' payload, r) \<in> set (tb_answered visited) \<and> said_yes r"
  using visit_result(1) screens_follow_the_server[OF visit_run] by metis

text \<open>
  Property C17. The identity check needs an agreement: a consent is only ever sent by a press on a gate whose box was
  ticked, with the current wording, and the receiver only leaves for a vendor address that is https or of the page's
  own origin, with an identity within the server's limits, after the server recorded that agreement and started the
  check.
\<close>

theorem identity_check_needs_agreement:
  assumes "tab_run E C es t"
  shows "(\<forall>token wording d. Consent_request token wording d \<in> set (tb_sent t) \<longrightarrow>
       wording = consentPayloadText \<and> agreed_on_page E C es token d)
     \<and> (\<forall>(url, i) \<in> set (tb_departures t). safe_url E url \<and> identity_ok (si_name i) (si_idNumber i)
       \<and> answered_yes t (Consent_request (si_token i) consentPayloadText True) \<and> answered_yes t (Verify_request (si_token i)))"
  using consent_has_its_press[OF assms] tab_run_logs(2)[OF assms] by (auto simp: departure_ok_def agreement_recorded_def)

theorem identity_check_needs_agreement_witness:
  "agreed_on_page a_server a_canvas whole_visit ''tok'' True \<and> answered_yes visited (Verify_request ''tok'')"
  using visit_result(2,5) identity_check_needs_agreement[OF visit_run] by (fastforce simp: departed_def)

text \<open>
  Property C18. What was typed for one delivery is never used for another: the identity that a vendor's decision is
  compared with is the one typed on a page of the same token before it left for the vendor, or nothing; and opening
  any page takes the stash out of the storage, unless the storage refuses to clear it.
\<close>

theorem identity_stays_with_its_delivery:
  assumes "tab_run E C es t"
  shows "(\<forall>token name idNumber. Resolve_request token name idNumber \<in> set (tb_sent t) \<longrightarrow>
       name = [] \<and> idNumber = [] \<or> (\<exists>url. (url, \<lparr>si_name = name, si_idNumber = idNumber, si_token = token\<rparr>) \<in> set (tb_departures t)))
     \<and> (Storage_clear \<notin> ss_faults (tb_storage t) \<longrightarrow> stored_identity (tb_storage (tab_step E C (Opened token) t)) = None)"
  using tab_run_logs(1)[OF assms] by (fastforce simp: compared_identity_def departed_def open_page_def load_scan_def)

theorem identity_stays_with_its_delivery_witness:
  "\<exists>url. (url, \<lparr>si_name = ''Ann'', si_idNumber = ''P7'', si_token = ''tok''\<rparr>) \<in> set (tb_departures visited)"
  using visit_result(3) identity_stays_with_its_delivery[OF visit_run] by fastforce

text \<open>
  Every confirmation that leaves the phone names a receiver and an ID number, neither empty nor longer
  than the server accepts, without surrounding white space.
\<close>

theorem confirmation_is_complete:
  assumes "tab_run E C es t" "Confirm_request token payload \<in> set (tb_sent t)"
  shows "0 < length (cp_receiver_name payload) \<and> length (cp_receiver_name payload) \<le> MAX_RECEIVER_NAME_LENGTH
     \<and> 0 < length (cp_receiver_id_number payload) \<and> length (cp_receiver_id_number payload) \<le> MAX_RECEIVER_ID_NUMBER_LENGTH
     \<and> trim (cp_receiver_name payload) = cp_receiver_name payload \<and> trim (cp_receiver_id_number payload) = cp_receiver_id_number payload"
  using tab_run_logs(1)[OF assms] by (simp add: payload_ok_def)

theorem confirmation_is_complete_witness:
  "\<exists>payload. Confirm_request ''tok'' payload \<in> set (tb_sent visited) \<and> cp_receiver_name payload = ''Ann'' \<and> 0 < length (cp_receiver_id_number payload)"
proof -
  obtain payload where "Confirm_request ''tok'' payload \<in> set (tb_sent visited)" "cp_receiver_name payload = ''Ann''"
    using visit_result(4) by blast
  then show ?thesis using confirmation_is_complete[OF visit_run, of "''tok''" payload] by blast
qed

end
