(* ===== verification/HandoverProgress.thy ===== *)
theory HandoverProgress
  imports HandoverSafety
begin

text \<open>
  Nobody is stranded on the receiver page: a screen that waits has the request pending that ends the wait, whatever
  the answer, and a control that refuses input has something under way that will free it. And how many confirmations
  may be in flight: one, in every run in which no identity check that is still pending is restored and nobody types
  while a completed swipe settles; with either, two.
\<close>

section \<open>What a screen waits for\<close>

definition waiting :: "page \<Rightarrow> bool" where
  "waiting p \<longleftrightarrow> pg_status p \<in> {Loading, Resolving, Signing} \<or> pg_status p = Verifying \<and> \<not> pg_leaving p"

fun awaits :: "page \<Rightarrow> page_job \<Rightarrow> bool" where
  "awaits p (Scan_job n) \<longleftrightarrow> pg_status p = Loading \<and> n = pg_scanAttempt p"
| "awaits p (Resolve_job n _ _) \<longleftrightarrow> pg_status p = Resolving \<and> n = pg_scanAttempt p"
| "awaits p (Consent_job _ _) \<longleftrightarrow> pg_status p = Verifying"
| "awaits p (Start_job _ _) \<longleftrightarrow> pg_status p = Verifying"
| "awaits p (Position_job _ _) \<longleftrightarrow> pg_status p = Signing"
| "awaits p (Confirm_job _ _) \<longleftrightarrow> pg_status p = Signing"
| "awaits p _ \<longleftrightarrow> False"

fun job_of_swipe :: "nat \<Rightarrow> page_job \<Rightarrow> bool" where
  "job_of_swipe n (Position_job m _) \<longleftrightarrow> m = n"
| "job_of_swipe n (Confirm_job m _) \<longleftrightarrow> m = n"
| "job_of_swipe n _ \<longleftrightarrow> False"

definition waits_ok :: "page \<Rightarrow> bool" where
  "waits_ok p \<longleftrightarrow> (waiting p \<longrightarrow> (\<exists>j \<in> set (pg_jobs p). awaits p j))
     \<and> (pg_consentBusy p \<longrightarrow> No_document_job \<in> set (pg_jobs p) \<or> Decline_job \<in> set (pg_jobs p))"

definition swipe_ok :: "page \<Rightarrow> bool" where
  "swipe_ok p \<longleftrightarrow> (pg_fired p \<longrightarrow> pg_settling p \<noteq> None \<or> (\<exists>j \<in> set (pg_jobs p). job_of_swipe (pg_swipe p) j))"

definition live_ok :: "page \<Rightarrow> bool" where
  "live_ok p \<longleftrightarrow> waits_ok p \<and> (swipe_shown p \<longrightarrow> swipe_ok p)"

text \<open>The page a turn leaves, before it is rendered: a swipe that is shown anew is a new one.\<close>

definition turn_ok :: "page \<Rightarrow> page \<Rightarrow> bool" where
  "turn_ok p q \<longleftrightarrow> waits_ok q \<and> (swipe_shown p \<and> swipe_shown q \<longrightarrow> swipe_ok q)"

lemma awaits_cong:
  "pg_status q = pg_status p \<Longrightarrow> pg_scanAttempt q = pg_scanAttempt p \<Longrightarrow> awaits q j = awaits p j"
  by (cases j) auto

lemma rerender_fields [simp]:
  "pg_status (rerender p q) = pg_status q" "pg_jobs (rerender p q) = pg_jobs q" "pg_leaving (rerender p q) = pg_leaving q"
  "pg_scanAttempt (rerender p q) = pg_scanAttempt q" "pg_consentBusy (rerender p q) = pg_consentBusy q"
  "pg_name (rerender p q) = pg_name q" "pg_idNumber (rerender p q) = pg_idNumber q" "pg_token (rerender p q) = pg_token q"
  by (simp_all add: rerender_def Let_def)

lemma live_rerender:
  assumes "turn_ok p q"
  shows "live_ok (rerender p q)"
proof -
  have "waits_ok (rerender p q)"
    using assms awaits_cong[of "rerender p q" q] by (simp add: turn_ok_def waits_ok_def waiting_def)
  moreover have "swipe_ok (rerender p q)" if "swipe_shown (rerender p q)"
    using assms that by (auto simp: turn_ok_def swipe_ok_def swipe_shown_def rerender_def Let_def)
  ultimately show ?thesis by (simp add: live_ok_def)
qed

section \<open>Every turn keeps it\<close>

lemma in_drop_job: "j \<in> set (pg_jobs p) \<Longrightarrow> k < length (pg_jobs p) \<Longrightarrow> j = pg_jobs p ! k \<or> j \<in> set (pg_jobs (drop_job k p))"
proof -
  assume "j \<in> set (pg_jobs p)" "k < length (pg_jobs p)"
  then have "j \<in> set (take k (pg_jobs p) @ pg_jobs p ! k # drop (Suc k) (pg_jobs p))" by (simp only: id_take_nth_drop[symmetric])
  then show ?thesis by (auto simp: drop_job_def)
qed

lemma drop_job_fields [simp]:
  "pg_status (drop_job k p) = pg_status p" "pg_leaving (drop_job k p) = pg_leaving p" "pg_scanAttempt (drop_job k p) = pg_scanAttempt p"
  "pg_consentBusy (drop_job k p) = pg_consentBusy p" "pg_swipe (drop_job k p) = pg_swipe p" "pg_fired (drop_job k p) = pg_fired p"
  "pg_settling (drop_job k p) = pg_settling p" "pg_token (drop_job k p) = pg_token p" "pg_scan (drop_job k p) = pg_scan p"
  "pg_stashed (drop_job k p) = pg_stashed p" "returning (drop_job k p) = returning p"
  by (simp_all add: drop_job_def returning_def split: option.split)

text \<open>After a job was taken out, what was awaited is that job or still pending.\<close>

definition but_for :: "page_job \<Rightarrow> page \<Rightarrow> bool" where
  "but_for j q \<longleftrightarrow> (waiting q \<longrightarrow> awaits q j \<or> (\<exists>x \<in> set (pg_jobs q). awaits q x))
     \<and> (pg_consentBusy q \<longrightarrow> j \<in> {No_document_job, Decline_job} \<or> No_document_job \<in> set (pg_jobs q) \<or> Decline_job \<in> set (pg_jobs q))
     \<and> (swipe_shown q \<and> pg_fired q \<longrightarrow> pg_settling q \<noteq> None \<or> job_of_swipe (pg_swipe q) j \<or> (\<exists>x \<in> set (pg_jobs q). job_of_swipe (pg_swipe q) x))"

lemma but_for_drop:
  assumes "live_ok p" "k < length (pg_jobs p)"
  shows "but_for (pg_jobs p ! k) (drop_job k p)"
proof -
  have a: "awaits (drop_job k p) x = awaits p x" for x by (rule awaits_cong) simp_all
  show ?thesis using assms in_drop_job[OF _ assms(2)]
    unfolding but_for_def live_ok_def waits_ok_def swipe_ok_def waiting_def swipe_shown_def a by (simp, metis)
qed

lemma waits_fields [simp]:
  "pg_jobs (waits j p) = pg_jobs p @ [j]" "pg_status (waits j p) = pg_status p" "pg_leaving (waits j p) = pg_leaving p"
  "pg_consentBusy (waits j p) = pg_consentBusy p" "pg_scanAttempt (waits j p) = pg_scanAttempt p" "pg_swipe (waits j p) = pg_swipe p"
  "pg_fired (waits j p) = pg_fired p" "pg_settling (waits j p) = pg_settling p" "awaits (waits j p) x = awaits p x"
  by (simp_all add: waits_def) (rule awaits_cong; simp)

lemma show_status_fields [simp]:
  "pg_status (show_status st p) = st" "pg_jobs (show_status st p) = pg_jobs p" "pg_leaving (show_status st p) = pg_leaving p"
  "pg_consentBusy (show_status st p) = pg_consentBusy p" "pg_scanAttempt (show_status st p) = pg_scanAttempt p"
  "pg_swipe (show_status st p) = pg_swipe p" "pg_fired (show_status st p) = pg_fired p" "pg_settling (show_status st p) = pg_settling p"
  by (simp_all add: show_status_def)

lemma release_fields [simp]:
  "pg_jobs (release n p) = pg_jobs p" "pg_status (release n p) = pg_status p" "pg_leaving (release n p) = pg_leaving p"
  "pg_consentBusy (release n p) = pg_consentBusy p" "pg_scanAttempt (release n p) = pg_scanAttempt p" "pg_swipe (release n p) = pg_swipe p"
  "pg_fired (release n p) \<longleftrightarrow> pg_fired p \<and> pg_swipe p \<noteq> n" "pg_settling (release n p) = pg_settling p"
  by (auto simp: release_def)

lemmas turn_defs = turn_ok_def waits_ok_def swipe_ok_def waiting_def swipe_shown_def

lemma awaits_other_fields [simp]:
  "awaits (p\<lparr>pg_name := v\<rparr>) x = awaits p x" "awaits (p\<lparr>pg_idNumber := v\<rparr>) x = awaits p x"
  "awaits (p\<lparr>pg_agreed := b\<rparr>) x = awaits p x" "awaits (p\<lparr>pg_fired := b\<rparr>) x = awaits p x"
  "awaits (p\<lparr>pg_fired := b, pg_settling := sg\<rparr>) x = awaits p x" "awaits (p\<lparr>pg_settling := sg\<rparr>) x = awaits p x"
  "awaits (p\<lparr>pg_consentBusy := b\<rparr>) x = awaits p x" "awaits (p\<lparr>pg_leaving := b\<rparr>) x = awaits p x"
  "awaits (release n p) x = awaits p x"
  by (rule awaits_cong; simp)+

lemma turn_keeps:
  assumes "but_for j q" "waiting r \<longrightarrow> (\<exists>x \<in> set (pg_jobs r). awaits r x)" "set (pg_jobs q) \<subseteq> set (pg_jobs r)"
    and "pg_consentBusy r \<longrightarrow> pg_consentBusy q \<and> j \<noteq> No_document_job \<and> j \<noteq> Decline_job"
    and "pg_fired r \<longrightarrow> pg_fired q \<and> \<not> job_of_swipe (pg_swipe q) j" "pg_swipe r = pg_swipe q" "pg_settling r = pg_settling q"
  shows "turn_ok q r"
  using assms unfolding but_for_def turn_ok_def waits_ok_def swipe_ok_def by auto

lemma scan_turn:
  assumes "but_for (Scan_job n) q"
  shows "\<exists>r. tb_page (scan_answered n res q t) = Some r \<and> turn_ok q r"
proof (cases "n = pg_scanAttempt q")
  case True
  show ?thesis
  proof (cases res)
    case (Inl e)
    then show ?thesis using True
      by (auto simp: scan_answered_def scan_failed_def Let_def waiting_def intro!: turn_keeps[OF assms])
  next
    case (Inr s)
    then show ?thesis using True
      by (cases "returning q"; cases "hs_verification s")
         (auto simp: scan_answered_def scan_loaded_def Let_def waiting_def intro!: turn_keeps[OF assms])
  qed
next
  case False
  then show ?thesis using assms by (auto simp: scan_answered_def but_for_def turn_defs)
qed

lemma start_turn:
  assumes "but_for (Start_job nm i) q"
  shows "\<exists>r. tb_page (start_answered E nm i res q t) = Some r \<and> turn_ok q r"
proof -
  have "waiting (q\<lparr>pg_leaving := True\<rparr>) \<longrightarrow> (\<exists>x \<in> set (pg_jobs q). awaits q x)"
    using assms by (auto simp: but_for_def waiting_def)
  then have "turn_ok q (q\<lparr>pg_leaving := True\<rparr>)" by (intro turn_keeps[OF assms]) simp_all
  moreover have "turn_ok q (show_status Ready (q\<lparr>pg_notice := Identity_check_unavailable\<rparr>))"
    by (intro turn_keeps[OF assms]) (simp_all add: waiting_def)
  ultimately show ?thesis by (auto simp: start_answered_def check_unavailable_def Let_def split: sum.split option.split)
qed

lemma answered_turn:
  assumes "but_for j q" "fits_job j a"
  shows "\<exists>r. tb_page (answered_job E C now j a q t) = Some r \<and> turn_ok q r"
proof (cases j)
  case (Scan_job n)
  then obtain r where "a = From_server r" using assms(2) by auto
  then show ?thesis using Scan_job scan_turn[of n q] assms(1) by simp
next
  case (Resolve_job n nm i)
  then obtain r where "a = From_server r" using assms(2) by auto
  then show ?thesis using assms(1) Resolve_job
    by (auto simp: resolve_answered_def but_for_def turn_defs split: sum.split)
next
  case (Position_job n sg)
  then obtain s d where "a = From_device s d" using assms(2) by auto
  then show ?thesis using assms(1) Position_job
    by (auto simp: positioned_answer_def sign_failed_def Let_def but_for_def turn_defs split: option.split)
next
  case (Confirm_job n payload)
  then obtain r where "a = From_server r" using assms(2) by auto
  then show ?thesis using assms(1) Confirm_job
    by (auto simp: confirm_answered_def but_for_def turn_defs split: sum.split)
next
  case (Consent_job nm i)
  then obtain r where "a = From_server r" using assms(2) by auto
  then show ?thesis using assms(1) Consent_job
    by (auto simp: consent_answered_def check_unavailable_def but_for_def turn_defs split: sum.split)
next
  case (Start_job nm i)
  then obtain r where "a = From_server r" using assms(2) by auto
  then show ?thesis using Start_job start_turn[of nm i q] assms(1) by simp
next
  case No_document_job
  then obtain r where "a = From_server r" using assms(2) by auto
  then show ?thesis using assms(1) No_document_job by (auto simp: consent_recorded_def but_for_def turn_defs)
next
  case Decline_job
  then obtain r where "a = From_server r" using assms(2) by auto
  then show ?thesis using assms(1) Decline_job by (auto simp: consent_recorded_def but_for_def turn_defs)
qed

lemma handleSign_turn:
  "waits_ok q \<Longrightarrow> pg_swipe q = n \<Longrightarrow> \<exists>r. tb_page (handleSign n sg q t) = Some r \<and> turn_ok p r"
  by (auto simp: handleSign_def turn_defs)

lemma turn_page:
  assumes "page_allows e p" "live_ok p"
  shows "\<exists>q. tb_page (page_turn E C e p t) = Some q \<and> turn_ok p q"
proof (cases e)
  case (Answered k now a)
  then have k: "k < length (pg_jobs p)" "fits_job (pg_jobs p ! k) a" using assms(1) by auto
  from answered_turn[OF but_for_drop[OF assms(2) k(1)] k(2)]
  show ?thesis using Answered by (simp add: turn_ok_def swipe_shown_def)
next
  case Swipe_settled
  then show ?thesis using assms handleSign_turn[of "p\<lparr>pg_settling := None\<rparr>" "pg_swipe p"]
    by (auto simp: live_ok_def waits_ok_def waiting_def)
next
  case Key_confirmed
  then show ?thesis using assms handleSign_turn[of "p\<lparr>pg_fired := True\<rparr>" "pg_swipe p"]
    by (auto simp: live_ok_def waits_ok_def waiting_def)
qed (use assms in \<open>auto simp: handleConsentProceed_def handleConsentDecline_def retryScan_def load_scan_def Let_def live_ok_def turn_defs
       gate_shown_def swipe_armed_def\<close>)

definition live_tab :: "tab \<Rightarrow> bool" where
  "live_tab t \<longleftrightarrow> (\<forall>p. tb_page t = Some p \<or> p \<in> set (tb_cached t) \<longrightarrow> live_ok p)"

lemma rendered_page [simp]: "tb_page (rendered p t) = map_option (rerender p) (tb_page t)" "tb_cached (rendered p t) = tb_cached t"
  by (simp_all add: rendered_def)

lemma answered_job_cached: "tb_cached (answered_job E C now j a q t) = tb_cached t"
  by (cases "(E, C, now, j, a, q, t)" rule: answered_job.cases)
     (auto simp: positioned_answer_def sign_failed_def scan_answered_def scan_failed_def scan_loaded_def resolve_answered_def
        confirm_answered_def consent_answered_def check_unavailable_def start_answered_def consent_recorded_def Let_def
        split: option.split sum.split)

lemma page_turn_cached: "page_event e \<Longrightarrow> tb_cached (page_turn E C e p t) = tb_cached t"
  by (cases e) (auto simp: answered_job_cached handleConsentProceed_def handleConsentDecline_def retryScan_def load_scan_def
      handleSign_def Let_def split: option.split)

lemma live_step:
  assumes "live_tab t" "tab_allows e t"
  shows "live_tab (tab_step E C e t)"
proof (cases "page_event e")
  case True
  then obtain p where p: "tb_page t = Some p" "page_allows e p" using assms(2) page_event_step(2) by blast
  obtain q where "tb_page (page_turn E C e p t) = Some q" "turn_ok p q"
    using turn_page[OF p(2)] assms(1) p(1) unfolding live_tab_def by metis
  then show ?thesis
    using assms(1) live_rerender page_event_step(1)[OF True p(1)] page_turn_cached[OF True] by (auto simp: live_tab_def)
next
  case False
  then show ?thesis
  proof (cases e)
    case (Opened token)
    then show ?thesis using assms
      by (auto simp: live_tab_def open_page_def load_scan_def live_ok_def turn_defs blank_page_def)
  next
    case (Left cached)
    then show ?thesis using assms(1) by (auto simp: live_tab_def split: option.splits)
  next
    case (Restored k)
    let ?p = "tb_cached t ! k"
    have "live_ok ?p" using assms Restored by (auto simp: live_tab_def)
    then have "turn_ok ?p (if pg_status ?p \<noteq> Verifying then ?p\<lparr>pg_leaving := False\<rparr> else (show_status Consent ?p)\<lparr>pg_leaving := False\<rparr>)"
      by (auto simp: live_ok_def turn_defs)
    then show ?thesis using Restored assms(1) live_rerender
      by (auto simp: live_tab_def onPageShow_def Let_def dest: in_set_takeD in_set_dropD)
  next
    case (Storage_fails f)
    then show ?thesis using assms(1) by (simp add: live_tab_def)
  qed simp_all
qed

lemma live_run: "tab_run E C es t \<Longrightarrow> live_tab t"
proof (induction rule: tab_run.induct)
  case new
  then show ?case by (simp add: live_tab_def new_tab_def)
qed (rule live_step)

section \<open>The wait ends\<close>

definition still_waits :: "tab \<Rightarrow> bool" where
  "still_waits t \<longleftrightarrow> (\<exists>p. tb_page t = Some p \<and> waiting p)"

text \<open>\<open>ends_within n t\<close>: some pending request has the property that every answer to it ends the wait, or leaves a wait that ends within \<open>n - 1\<close>.\<close>

fun ends_within :: "receiver_env \<Rightarrow> canvas \<Rightarrow> nat \<Rightarrow> tab \<Rightarrow> bool" where
  "ends_within E C 0 t \<longleftrightarrow> \<not> still_waits t"
| "ends_within E C (Suc n) t \<longleftrightarrow> \<not> still_waits t \<or> (\<exists>p k. tb_page t = Some p \<and> k < length (pg_jobs p)
     \<and> (\<forall>now a. fits_job (pg_jobs p ! k) a \<longrightarrow> ends_within E C n (tab_step E C (Answered k now a) t)))"

fun second_half :: "page_job \<Rightarrow> bool" where
  "second_half (Resolve_job _ _ _) = True"
| "second_half (Start_job _ _) = True"
| "second_half (Confirm_job _ _) = True"
| "second_half _ = False"

lemma answer_ends:
  assumes "fits_job j a" "awaits q j"
  shows "\<exists>r. tb_page (answered_job E C now j a q t) = Some r \<and> (\<not> waiting r
      \<or> \<not> second_half j \<and> (\<exists>x \<in> set (pg_jobs r). awaits r x \<and> second_half x))"
  using assms
  by (cases "(E, C, now, j, a, q, t)" rule: answered_job.cases)
     (auto simp: positioned_answer_def sign_failed_def scan_answered_def scan_failed_def scan_loaded_def resolve_answered_def
        confirm_answered_def consent_answered_def check_unavailable_def start_answered_def consent_recorded_def Let_def waiting_def
        split: option.split sum.split)

lemma step_answer_ends:
  assumes "tb_page t = Some p" "k < length (pg_jobs p)" "fits_job (pg_jobs p ! k) a" "awaits p (pg_jobs p ! k)"
  shows "\<exists>r. tb_page (tab_step E C (Answered k now a) t) = Some r \<and> (\<not> waiting r
      \<or> \<not> second_half (pg_jobs p ! k) \<and> (\<exists>x \<in> set (pg_jobs r). awaits r x \<and> second_half x))"
proof -
  let ?j = "pg_jobs p ! k" and ?q = "drop_job k p"
  have "awaits ?q ?j" using assms(4) by (subst awaits_cong[of ?q p]) simp_all
  from answer_ends[OF assms(3) this, of E C now "log_answer (pg_token p) ?j a t"]
  obtain r where r: "tb_page (page_turn E C (Answered k now a) p t) = Some r"
    "\<not> waiting r \<or> \<not> second_half ?j \<and> (\<exists>x \<in> set (pg_jobs r). awaits r x \<and> second_half x)" by auto
  have "awaits (rerender p r) x = awaits r x" "waiting (rerender p r) = waiting r" for x
    using awaits_cong[of "rerender p r" r] by (simp_all add: waiting_def)
  then show ?thesis using r assms(1) by auto
qed

lemma ends_within_second:
  assumes "tb_page t = Some p" "x \<in> set (pg_jobs p)" "awaits p x" "second_half x"
  shows "ends_within E C (Suc 0) t"
proof -
  obtain k where k: "k < length (pg_jobs p)" "x = pg_jobs p ! k" using assms(2) by (auto simp: in_set_conv_nth)
  have "\<not> still_waits (tab_step E C (Answered k now a) t)" if "fits_job (pg_jobs p ! k) a" for now a
    using step_answer_ends[OF assms(1) k(1) that, of E C now] assms(3,4) k(2) by (auto simp: still_waits_def)
  then show ?thesis using assms(1) k(1) by (simp only: ends_within.simps) blast
qed

lemma every_wait_ends:
  assumes "live_tab t"
  shows "ends_within E C 2 t"
proof (cases "still_waits t")
  case True
  then obtain p where p: "tb_page t = Some p" "waiting p" by (auto simp: still_waits_def)
  then have "\<exists>x \<in> set (pg_jobs p). awaits p x" using assms by (auto simp: live_tab_def live_ok_def waits_ok_def)
  then obtain k where k: "k < length (pg_jobs p)" "awaits p (pg_jobs p ! k)" by (metis in_set_conv_nth)
  have "ends_within E C (Suc 0) (tab_step E C (Answered k now a) t)" if "fits_job (pg_jobs p ! k) a" for now a
    using step_answer_ends[OF p(1) k(1) that k(2), of E C now] ends_within_second
    by (metis ends_within.simps(2) still_waits_def option.inject)
  then show ?thesis using p(1) k(1) by (simp only: ends_within.simps numeral_2_eq_2) blast
qed (simp add: numeral_2_eq_2)

lemma busy_answer:
  assumes "tb_page t = Some p" "k < length (pg_jobs p)" "pg_jobs p ! k \<in> {No_document_job, Decline_job}"
  shows "\<exists>q. tb_page (tab_step E C (Answered k now (From_server r)) t) = Some q \<and> pg_status q = Ready \<and> \<not> pg_consentBusy q"
proof -
  from assms(3) consider "pg_jobs p ! k = No_document_job" | "pg_jobs p ! k = Decline_job" by blast
  then show ?thesis using assms(1) by cases (simp_all add: consent_recorded_def)
qed

definition waiting_run :: "tab_event list" where
  "waiting_run = take 6 to_the_vendor"

definition waiting_tab :: tab where
  "waiting_tab = the (follow a_server a_canvas waiting_run new_tab)"

lemma waiting_follow: "follow a_server a_canvas waiting_run new_tab = Some waiting_tab"
  unfolding waiting_tab_def waiting_run_def to_the_vendor_def by (simp add: page_defs Let_def)

lemma waiting_result: "still_waits waiting_tab"
  unfolding waiting_tab_def waiting_run_def to_the_vendor_def still_waits_def waiting_def by (simp add: page_defs Let_def)

text \<open>
  Property C19. Nobody is stranded: in every run of a tab a screen that only waits has a request pending such that
  two answers at the most, whatever they say, end the wait; a consent screen whose buttons are blocked has the
  request pending whose answer, whatever it says, leads to the signature; and a swipe that refuses to fire again has
  a timer or a request of its own under way.
\<close>

theorem nobody_is_stranded:
  assumes "tab_run E C es t"
  shows "ends_within E C 2 t \<and> (\<forall>p. tb_page t = Some p \<longrightarrow>
       (pg_consentBusy p \<longrightarrow> (\<exists>k < length (pg_jobs p). \<forall>now r. \<exists>q.
          tb_page (tab_step E C (Answered k now (From_server r)) t) = Some q \<and> pg_status q = Ready \<and> \<not> pg_consentBusy q))
     \<and> (swipe_shown p \<and> pg_fired p \<longrightarrow> pg_settling p \<noteq> None \<or> (\<exists>j \<in> set (pg_jobs p). job_of_swipe (pg_swipe p) j)))"
proof (intro conjI allI impI)
  show "ends_within E C 2 t" by (rule every_wait_ends[OF live_run[OF assms]])
  fix p assume p: "tb_page t = Some p"
  then have live: "live_ok p" using live_run[OF assms] by (simp add: live_tab_def)
  show "\<exists>k < length (pg_jobs p). \<forall>now r. \<exists>q.
      tb_page (tab_step E C (Answered k now (From_server r)) t) = Some q \<and> pg_status q = Ready \<and> \<not> pg_consentBusy q" if "pg_consentBusy p"
  proof -
    have "\<exists>j \<in> set (pg_jobs p). j \<in> {No_document_job, Decline_job}"
      using live that unfolding live_ok_def waits_ok_def by blast
    then obtain k where k: "k < length (pg_jobs p)" "pg_jobs p ! k \<in> {No_document_job, Decline_job}"
      by (metis in_set_conv_nth)
    show ?thesis by (intro exI[of _ k] conjI allI k(1) busy_answer[OF p k])
  qed
  show "pg_settling p \<noteq> None \<or> (\<exists>j \<in> set (pg_jobs p). job_of_swipe (pg_swipe p) j)" if "swipe_shown p \<and> pg_fired p"
    using live that by (simp add: live_ok_def swipe_ok_def)
qed

theorem nobody_is_stranded_witness: "still_waits waiting_tab \<and> ends_within a_server a_canvas 2 waiting_tab"
  using waiting_result nobody_is_stranded[OF follow_new[OF waiting_follow]] by blast

section \<open>One thing at a time\<close>

fun one_at_a_time :: "page_status \<Rightarrow> page \<Rightarrow> bool" where
  "one_at_a_time Loading p \<longleftrightarrow> pg_jobs p = [Scan_job (pg_scanAttempt p)]"
| "one_at_a_time Resolving p \<longleftrightarrow> (\<exists>n i. pg_jobs p = [Resolve_job (pg_scanAttempt p) n i])"
| "one_at_a_time Verifying p \<longleftrightarrow> (if pg_leaving p then pg_jobs p = [] else \<exists>n i. pg_jobs p = [Consent_job n i] \<or> pg_jobs p = [Start_job n i])"
| "one_at_a_time Consent p \<longleftrightarrow> (if pg_consentBusy p then pg_jobs p = [No_document_job] \<or> pg_jobs p = [Decline_job] else pg_jobs p = [])"
| "one_at_a_time Signing p \<longleftrightarrow> pg_fired p \<and> (\<exists>sg payload. pg_jobs p = [Position_job (pg_swipe p) sg] \<or> pg_jobs p = [Confirm_job (pg_swipe p) payload])"
| "one_at_a_time _ p \<longleftrightarrow> pg_jobs p = []"

definition calm :: "page \<Rightarrow> bool" where
  "calm p \<longleftrightarrow> one_at_a_time (pg_status p) p \<and> (pg_consentBusy p \<longrightarrow> pg_status p = Consent)
     \<and> (pg_settling p \<noteq> None \<longrightarrow> pg_status p = Ready \<and> pg_fired p) \<and> (pg_leaving p \<longrightarrow> pg_status p = Verifying)"

fun quiet :: "tab_event \<Rightarrow> tab \<Rightarrow> bool" where
  "quiet (Name_typed _) t \<longleftrightarrow> (\<forall>p. tb_page t = Some p \<longrightarrow> pg_settling p = None)"
| "quiet (Id_typed _) t \<longleftrightarrow> (\<forall>p. tb_page t = Some p \<longrightarrow> pg_settling p = None)"
| "quiet (Restored k) t \<longleftrightarrow> pg_status (tb_cached t ! k) = Verifying \<longrightarrow> pg_leaving (tb_cached t ! k)"
| "quiet _ t \<longleftrightarrow> True"

inductive quiet_run :: "receiver_env \<Rightarrow> canvas \<Rightarrow> tab_event list \<Rightarrow> tab \<Rightarrow> bool" for E C where
  new: "quiet_run E C [] new_tab"
| event: "quiet_run E C es t \<Longrightarrow> tab_allows e t \<Longrightarrow> quiet e t \<Longrightarrow> quiet_run E C (es @ [e]) (tab_step E C e t)"

lemma quiet_run_is_run: "quiet_run E C es t \<Longrightarrow> tab_run E C es t"
  by (induction rule: quiet_run.induct) (auto intro: tab_run.intros)

lemma one_pending:
  "one_at_a_time (pg_status p) p \<Longrightarrow> k < length (pg_jobs p) \<Longrightarrow> k = 0 \<and> pg_jobs p = [pg_jobs p ! k]"
  by (cases "pg_status p") (auto split: if_splits)

fun job_fits_status :: "page_job \<Rightarrow> page \<Rightarrow> bool" where
  "job_fits_status (Scan_job n) p \<longleftrightarrow> pg_status p = Loading \<and> n = pg_scanAttempt p"
| "job_fits_status (Resolve_job n _ _) p \<longleftrightarrow> pg_status p = Resolving \<and> n = pg_scanAttempt p"
| "job_fits_status (Position_job n _) p \<longleftrightarrow> pg_status p = Signing \<and> n = pg_swipe p \<and> pg_fired p"
| "job_fits_status (Confirm_job n _) p \<longleftrightarrow> pg_status p = Signing \<and> n = pg_swipe p \<and> pg_fired p"
| "job_fits_status No_document_job p \<longleftrightarrow> pg_status p = Consent"
| "job_fits_status Decline_job p \<longleftrightarrow> pg_status p = Consent"
| "job_fits_status _ p \<longleftrightarrow> pg_status p = Verifying \<and> \<not> pg_leaving p"

lemma one_job_fits: "one_at_a_time (pg_status p) p \<Longrightarrow> pg_jobs p = [j] \<Longrightarrow> job_fits_status j p"
  by (cases "pg_status p") (auto split: if_splits)

text \<open>A page that is not settling and waits for nothing is calm on every screen that waits for nothing.\<close>

lemma calm_rerender:
  assumes "one_at_a_time (pg_status q) (rerender p q)" "pg_consentBusy q \<longrightarrow> pg_status q = Consent" "pg_leaving q \<longrightarrow> pg_status q = Verifying"
    "pg_settling q = None"
  shows "calm (rerender p q)"
  using assms by (auto simp: calm_def rerender_def Let_def)

lemma one_rerender:
  assumes "one_at_a_time (pg_status q) q" "pg_status q = Signing \<longrightarrow> swipe_shown p"
  shows "one_at_a_time (pg_status q) (rerender p q)"
  using assms by (cases "pg_status q") (auto simp: rerender_def Let_def swipe_shown_def swipe_busy_def)

lemma calm_answered:
  assumes "calm p" "k < length (pg_jobs p)" "fits_job (pg_jobs p ! k) a"
  shows "\<exists>q. tb_page (answered_job E C now (pg_jobs p ! k) a (drop_job k p) t) = Some q \<and> calm (rerender p q)"
proof -
  have k: "k = 0" "pg_jobs p = [pg_jobs p ! k]" using one_pending[of p k] assms by (auto simp: calm_def)
  obtain j where j: "pg_jobs p = [j]" "pg_jobs p ! k = j" using k by metis
  have d: "pg_jobs (drop_job k p) = []" using j(1) k(1) by (simp add: drop_job_def)
  have f: "job_fits_status j p" using one_job_fits assms(1) j(1) by (simp add: calm_def)
  have c: "pg_settling p = None" "pg_consentBusy p \<longrightarrow> pg_status p = Consent" "pg_leaving p \<longrightarrow> pg_status p = Verifying"
    using assms(1) f by (cases j; auto simp: calm_def)+
  have ok: "calm (rerender p q)" if "one_at_a_time (pg_status q) q" "pg_status q = Signing \<longrightarrow> pg_status p = Signing"
    "pg_consentBusy q \<longrightarrow> pg_status q = Consent" "pg_leaving q \<longrightarrow> pg_status q = Verifying" "pg_settling q = None" for q
    using that by (intro calm_rerender one_rerender) (auto simp: swipe_shown_def)
  show ?thesis
  proof (cases j)
    case (Scan_job n)
    then obtain r where a: "a = From_server r" using assms(3) j by auto
    show ?thesis
    proof (cases "receive E now (rv_as_scan E) r")
      case (Inl e)
      then show ?thesis using a Scan_job j f c d by (auto simp: scan_answered_def scan_failed_def Let_def intro!: ok)
    next
      case (Inr sc)
      then show ?thesis using a Scan_job j f c d
        by (cases "returning p"; cases "hs_verification sc") (auto simp: scan_answered_def scan_loaded_def Let_def intro!: ok)
    qed
  qed (use assms(3) j f c d in \<open>auto simp: resolve_answered_def positioned_answer_def sign_failed_def confirm_answered_def
      consent_answered_def check_unavailable_def start_answered_def consent_recorded_def Let_def intro!: ok split: sum.split option.split\<close>)
qed

lemma calm_turn:
  assumes "page_allows e p" "calm p" "e \<in> range Name_typed \<union> range Id_typed \<longrightarrow> pg_settling p = None"
  shows "\<exists>q. tb_page (page_turn E C e p t) = Some q \<and> calm (rerender p q)"
proof (cases e)
  case (Answered k now a)
  then show ?thesis using calm_answered[OF assms(2)] assms(1) by simp
next
  case Drag_completed
  then show ?thesis using assms
    by (cases "pg_status p") (auto simp: calm_def swipe_armed_def rerender_def Let_def swipe_shown_def swipe_disabled_def swipe_busy_def)
next
  case Swipe_settled
  then obtain sg where "pg_settling p = Some sg" "pg_status p = Ready" "pg_fired p" using assms by (auto simp: calm_def)
  then show ?thesis using Swipe_settled assms(2)
    by (auto simp: handleSign_def calm_def release_def rerender_def Let_def swipe_shown_def swipe_disabled_def swipe_busy_def waits_def show_status_def)
next
  case Key_confirmed
  then have "pg_status p = Ready" "pg_settling p = None"
    using assms by (auto simp: swipe_armed_def swipe_shown_def swipe_busy_def calm_def)
  then show ?thesis using Key_confirmed assms(2)
    by (auto simp: handleSign_def calm_def release_def rerender_def Let_def swipe_shown_def swipe_disabled_def swipe_busy_def waits_def show_status_def)
next
  case (Name_typed v)
  then show ?thesis using assms by (cases "pg_status p") (auto simp: calm_def rerender_def Let_def fields_enabled_def swipe_shown_def)
next
  case (Id_typed v)
  then show ?thesis using assms by (cases "pg_status p") (auto simp: calm_def rerender_def Let_def fields_enabled_def swipe_shown_def)
next
  case Retried
  then show ?thesis using assms
    by (auto simp: calm_def rerender_def Let_def retryScan_def load_scan_def swipe_shown_def waits_def)
qed (use assms in \<open>auto simp: calm_def rerender_def Let_def handleConsentProceed_def handleConsentDecline_def gate_shown_def swipe_shown_def
       waits_def show_status_def\<close>)

definition calm_tab :: "tab \<Rightarrow> bool" where
  "calm_tab t \<longleftrightarrow> (\<forall>p. tb_page t = Some p \<or> p \<in> set (tb_cached t) \<longrightarrow> calm p)"

lemma calm_step:
  assumes "calm_tab t" "tab_allows e t" "quiet e t"
  shows "calm_tab (tab_step E C e t)"
proof (cases "page_event e")
  case True
  then obtain p where p: "tb_page t = Some p" "page_allows e p" using assms(2) page_event_step(2) by blast
  have "e \<in> range Name_typed \<union> range Id_typed \<longrightarrow> pg_settling p = None" using assms(3) p(1) by auto
  then obtain q where "tb_page (page_turn E C e p t) = Some q" "calm (rerender p q)"
    using calm_turn[OF p(2)] assms(1) p(1) unfolding calm_tab_def by metis
  then show ?thesis using assms(1) page_event_step(1)[OF True p(1)] page_turn_cached[OF True] by (auto simp: calm_tab_def)
next
  case False
  then show ?thesis
  proof (cases e)
    case (Opened token)
    then show ?thesis using assms by (auto simp: calm_tab_def open_page_def load_scan_def calm_def blank_page_def waits_def)
  next
    case (Left cached)
    then show ?thesis using assms(1) by (auto simp: calm_tab_def split: option.splits)
  next
    case (Restored k)
    let ?p = "tb_cached t ! k"
    have "calm ?p" using assms Restored by (auto simp: calm_tab_def)
    then have "calm (rerender ?p (if pg_status ?p \<noteq> Verifying then ?p\<lparr>pg_leaving := False\<rparr> else (show_status Consent ?p)\<lparr>pg_leaving := False\<rparr>))"
      using assms(3) Restored
      by (cases "pg_status ?p") (auto simp: calm_def rerender_def Let_def swipe_shown_def swipe_busy_def swipe_disabled_def show_status_def)
    then show ?thesis using Restored assms(1)
      by (auto simp: calm_tab_def onPageShow_def Let_def dest: in_set_takeD in_set_dropD)
  next
    case (Storage_fails f)
    then show ?thesis using assms(1) by (simp add: calm_tab_def)
  qed simp_all
qed

lemma calm_run: "quiet_run E C es t \<Longrightarrow> calm_tab t"
proof (induction rule: quiet_run.induct)
  case new
  then show ?case by (simp add: calm_tab_def new_tab_def)
qed (rule calm_step)

fun follow_quiet :: "receiver_env \<Rightarrow> canvas \<Rightarrow> tab_event list \<Rightarrow> tab \<Rightarrow> bool" where
  "follow_quiet E C [] t = True"
| "follow_quiet E C (e # es) t \<longleftrightarrow> quiet e t \<and> follow_quiet E C es (tab_step E C e t)"

lemma follow_quiet_run:
  "quiet_run E C es t \<Longrightarrow> follow E C fs t = Some u \<Longrightarrow> follow_quiet E C fs t \<Longrightarrow> quiet_run E C (es @ fs) u"
proof (induction fs arbitrary: es t)
  case (Cons f fs)
  then have "quiet_run E C (es @ [f]) (tab_step E C f t)" by (auto intro: quiet_run.event split: if_splits)
  from Cons.IH[OF this] Cons.prems(2,3) show ?case by (auto split: if_splits)
qed simp

lemma waiting_quiet: "follow_quiet a_server a_canvas waiting_run new_tab"
  unfolding waiting_run_def to_the_vendor_def by (simp add: page_defs Let_def)

text \<open>
  Property C20. In every run of a tab in which no pending identity check is restored and nobody types while a
  completed swipe settles, a page waits for one answer at the most; a swipe can be fired only while nothing at all
  is pending, and a swipe that settles keeps every other from firing. So at most one confirmation is in flight.
\<close>

theorem one_confirmation_in_flight:
  assumes "quiet_run E C es t" "tb_page t = Some p"
  shows "length (pg_jobs p) \<le> 1 \<and> (swipe_armed p \<longrightarrow> pg_jobs p = [] \<and> pg_settling p = None)
     \<and> (pg_settling p \<noteq> None \<longrightarrow> pg_jobs p = [] \<and> \<not> swipe_armed p)"
proof -
  have "calm p" using calm_run[OF assms(1)] assms(2) by (simp add: calm_tab_def)
  then show ?thesis
    by (cases "pg_status p") (auto simp: calm_def swipe_armed_def swipe_shown_def swipe_busy_def split: if_splits)
qed

theorem one_confirmation_in_flight_witness:
  "\<exists>p. tb_page waiting_tab = Some p \<and> pg_jobs p \<noteq> [] \<and> length (pg_jobs p) \<le> 1 \<and> \<not> swipe_armed p"
proof -
  obtain p where p: "tb_page waiting_tab = Some p" "waiting p" using waiting_result by (auto simp: still_waits_def)
  have run: "quiet_run a_server a_canvas ([] @ waiting_run) waiting_tab"
    by (rule follow_quiet_run[OF quiet_run.new waiting_follow waiting_quiet])
  have "\<exists>j \<in> set (pg_jobs p). awaits p j"
    using live_run[OF follow_new[OF waiting_follow]] p by (simp add: live_tab_def live_ok_def waits_ok_def)
  then show ?thesis using one_confirmation_in_flight[OF run p(1)] p(1) by auto
qed

section \<open>Without that, two\<close>

definition in_flight :: "tab \<Rightarrow> nat" where
  "in_flight t = (case tb_page t of None \<Rightarrow> 0 | Some p \<Rightarrow> length (filter (\<lambda>j. case j of Confirm_job _ _ \<Rightarrow> True | _ \<Rightarrow> False) (pg_jobs p)))"

definition typed_page :: "tab_event list" where
  "typed_page = [Opened ''tok'', Answered 0 0 (replied 200 JNull), Name_typed ''Ann'', Id_typed ''P7'']"

definition positioned :: "nat \<Rightarrow> tab_event" where
  "positioned k = Answered k 0 (From_device ''2026'' No_position)"

text \<open>
  The receiver leaves while the check is being started and comes back to the page from the back/forward cache, which
  shows the consent again; they skip the check and swipe; the late failure of the first check puts the page back to
  "ready" and arms the swipe while the confirmation is in flight.
\<close>

definition late_check :: "tab_event list" where
  "late_check = typed_page @ [Agree_ticked True, Proceeded True, Left True, Restored 0, Declined, Answered 1 0 (replied 200 JNull),
     Key_confirmed, positioned 1, Answered 0 0 (replied 500 JNull), Key_confirmed, positioned 1]"

lemma late_check_sends_twice: "\<exists>t. tab_run a_server a_canvas late_check t \<and> in_flight t = 2"
proof -
  have "\<exists>t. follow a_server a_canvas late_check new_tab = Some t \<and> in_flight t = 2"
    unfolding late_check_def typed_page_def positioned_def in_flight_def by (simp add: page_defs Let_def)
  then show ?thesis using follow_new by blast
qed

text \<open>
  A name that is emptied and typed again within the settle time of a completed drag arms the swipe again: the key
  confirms, and then the drag does.
\<close>

definition typing_while_settling :: "tab_event list" where
  "typing_while_settling = typed_page @ [Declined, Answered 0 0 (replied 200 JNull), Drag_completed, Name_typed [], Name_typed ''Ann'',
     Key_confirmed, Swipe_settled, positioned 0, positioned 0]"

lemma typing_while_settling_sends_twice: "\<exists>t. tab_run a_server a_canvas typing_while_settling t \<and> in_flight t = 2"
proof -
  have "\<exists>t. follow a_server a_canvas typing_while_settling new_tab = Some t \<and> in_flight t = 2"
    unfolding typing_while_settling_def typed_page_def positioned_def in_flight_def by (simp add: page_defs Let_def)
  then show ?thesis using follow_new by blast
qed

end
