(* ===== verification/Spec2Isabelle.thy ===== *)
theory Spec2Isabelle
  imports SubmissionStore PhaseDraft RetainedEvidence CheckTypes PhaseCard LockProgress ReportLedger
    SealPage ViewerGrant PackTimeline SessionReturn HandoverProgress
begin

text \<open>
  Verification of the offline evidence path of the FreightProof driver app, of the phase cards on
  which a dispatcher reads that evidence, of the portal on which an outsider checks it against the
  public ledger, and of the page on which a receiver confirms a delivery.

  The program. FreightProof is a server (\<open>src/backend\<close>, Python) with several web clients
  (\<open>src/frontend\<close>, TypeScript). The client whose own logic decides whether evidence survives is the
  driver app, \<open>src/frontend/driver-pwa\<close>: a driver works through the phases of a trip without a
  reliable network, and what was captured must reach the server once, under the driver and the custody
  period that captured it, or stay on the phone. This development models that path: \<open>lib/session\<close>,
  \<open>lib/phase\<close>, \<open>lib/api\<close>, \<open>lib/offline\<close>, \<open>lib/submission\<close>, \<open>lib/hooks/useOfflineQueue.ts\<close> and
  \<open>lib/hooks/usePhaseDraft.ts\<close>, with the shared types they use. Definitions have the names of the
  code; a definition that stands for a part of a function has a name of its own.

  How code becomes definitions. A function without effects is a function. An asynchronous one is a
  function \<open>world \<Rightarrow> (error + result) \<times> world\<close>, sequenced by \<open>and_then\<close> and \<open>attempt\<close> (JsPrelude);
  \<open>world\<close> (World) holds the module variables, \<open>localStorage\<close>, IndexedDB and the log of the requests
  that left the phone. Every \<open>await\<close> of the source is the function \<open>await\<close>, which first applies the
  events the environment \<open>env\<close> has in store for that moment: session changes, other tabs' writes, other
  tasks. The environment also answers every request, every storage failure, the clock and the random
  ids; all of it is arbitrary, so a theorem over \<open>env\<close> covers every interleaving, every server and
  every failure. What a theorem needs of the other tasks is a named hypothesis (\<open>undisturbed\<close>, \<open>alone\<close>,
  \<open>well_behaved\<close>).

  The theories, in the order the code calls them.
  \<^item> JsPrelude: absent values, sequencing, the locale \<open>state_rel\<close> of relations that effects compose to.
  \<^item> Custody (\<open>session/custody-context.ts\<close>): who is signed in and in which custody period; leases die at
    every session boundary and stamps name a bound account and a reported period.
  \<^item> Conflict (\<open>offline/live-write-conflict.ts\<close>, \<open>utils/is-queueable-failure.ts\<close>): what a refusal means.
  \<^item> PhasePlan (\<open>phase/derive.ts\<close>, \<open>shared/lib/types/phase.ts\<close>): the current phase of the ledger.
  \<^item> PhaseRequest (\<open>api/phases.ts\<close>), Captures (\<open>api/checkpoints.ts\<close> and the other shapes): the bodies built from captures.
    What a body must have is stated from the server's schema (\<open>meets_schema\<close>), what it may say from the draft (\<open>made_of\<close>).
  \<^item> DataUrl (\<open>offline/exception-sync.ts\<close>): photos between data URL and \<open>Blob\<close>, a round trip.
  \<^item> QueueStorage (\<open>offline/queue-storage.ts\<close>): the queue in \<open>localStorage\<close> and its migration.
  \<^item> KeyedStore, ExceptionStore (\<open>offline/exception-store.ts\<close>): the keyed store as a locale with its
    interpretation on sorted lists, and the store of incident reports over it.
  \<^item> ReportLock (\<open>offline/exception-sync.ts\<close>): the per-report lock as a step relation of any number of callers.
  \<^item> World: the shared state, the environment, and the locale \<open>world_rel\<close>, in which each operation's
    effect is proved once and then read with the relations that matter (only allowed requests leave, the
    generation grows, what is stored stays).
  \<^item> ApiClient (\<open>api/client.ts\<close>), Submit (\<open>api/*.ts\<close>): one request with its account checks and one
    refresh, and the uploads and posts of each kind of capture. \<open>server_has\<close> says of a call, in terms of what the server
    answered, that the server has what it carries; nothing may leave the phone on less.
  \<^item> ExceptionSync (\<open>offline/exception-sync.ts\<close>), LegacyMigration (\<open>offline/legacy-exception-migration.ts\<close>):
    sending a report, and the move of the reports an earlier build queued.
  \<^item> OfflineQueue, FlushSafety, Enqueue (\<open>hooks/useOfflineQueue.ts\<close>): the operations of the queue, what a
    flush guarantees, and what a driver who captures something is told.
  \<^item> PhaseSubmitter, SubmissionStore (\<open>submission/phase-submitter.ts\<close>): one background submission with
    its outcomes, and the store of all of them as a step relation over every order of swipes and settlements.
  \<^item> RetainedDrafts (\<open>offline/retained-drafts.ts\<close>), PhaseDraft (\<open>hooks/usePhaseDraft.ts\<close>): the drafts of the
    phase steps, bound to account and period, and the screen that edits them. Who may give a draft up (\<open>gives_up\<close>) is said
    with the account and the period on record.
  \<^item> LateEvidence (\<open>offline/late-evidence-sync.ts\<close>): captures refused for a change of custody, sent to the
    late evidence routes by the driver and under the period they were captured in. \<open>offered\<close> reads from the stored capture
    what entitles it, \<open>late_settled\<close> from the answers what may end it.
  \<^item> Substitution, SubstitutionCapture, SubstitutionScreen, CheckTypes (\<open>hooks/useSubstitutionCapture.ts\<close>, with the
    captures of \<open>offline/substitution-store.ts\<close>, \<open>api/driver-substitutions.ts\<close> and \<open>utils/driver-substitution.ts\<close>): a
    driver's own check at a handover. Its rules and body; the send, which fixes the body, stores it and only then posts
    it; the screen that opens, edits and confirms it; and what every stored check looks like, as preservation and
    progress over all runs.
  \<^item> RetainedEvidence (\<open>offline/retained-evidence.ts\<close>): the review screen of everything the phone keeps for a
    decision, and the actions on one item.
  \<^item> ReportLedger, LockProgress: the abstract ledger that the report store refines (the locale \<open>simulation\<close>,
    interpreted on the store), and progress of the report lock over infinite runs.

  The second part is the logic with which the dispatcher's console (\<open>src/frontend/dispatcher\<close>) judges what the server holds of a trip:
  pure functions over the phase ledger, the artifacts, the exceptions and the events of the trip.
  \<^item> DispatchPlan (\<open>dispatcher/lib/phase/derive.ts\<close>): position, seals, counts and anchors of the ledger.
  \<^item> PrecinctGeometry (\<open>phase/geo.ts\<close>, \<open>map/polygon.ts\<close>), LocationEvidence (\<open>phase/location-evidence.ts\<close>): distances
    (great-circle distances, by the spherical law of cosines) and outlines, and which recorded fixes and verdicts a phase shows.
  \<^item> PhaseChecks (\<open>phase/checks.ts\<close>): the comparisons of recorded values.
  \<^item> PhaseActs, PhaseRail (\<open>phase/acts.ts\<close>, \<open>trip-events.ts\<close>): the rows of what happened, and what the rail shows.
  \<^item> TripEvents (\<open>phase/driver-transfers.ts\<close>, \<open>trip-events.ts\<close>): where transfers and incidents stand on the timeline.
  \<^item> CardRows (\<open>phase/exception-rows.ts\<close>, \<open>act-groups.ts\<close>, \<open>act-wording.ts\<close>, \<open>layout.ts\<close>): which rows a card shows, and in which groups.
  \<^item> PhaseVerdict (\<open>phase/verdict.ts\<close>): the one outcome in the header of a card.
  \<^item> PhaseCard (\<open>phase/card.ts\<close>, \<open>trip-detail.ts\<close>): the card as a whole, where rows, checks and verdict meet.

  The third part is the client portal (\<open>src/frontend/client-portal\<close>), where the recipient of an audit pack checks it
  without trusting the server: the page hashes what the pack claims and asks a public mirror of the ledger.
  \<^item> AnchorCheck (\<open>client-portal/lib/verify.ts\<close>, \<open>lib/seal.ts\<close>, \<open>lib/anchor-text.ts\<close>, \<open>components/PdfCheck.tsx\<close>): the check
    of one record, with the locale \<open>anchor_checker\<close> of what its clients use of it, and the check of a PDF copy.
  \<^item> PackChecks (\<open>components/VerificationPanel.tsx\<close>): all checks of a pack, run by workers whose answers arrive in any
    order, with re-runs and superseded runs, as a relation over traces of events; SealPage (\<open>components/SealCheck.tsx\<close>).
  \<^item> ViewerGrant (\<open>lib/api.ts\<close>): the grants that open a pack, and the requests that carry them.
  \<^item> PackTimeline (\<open>lib/timeline.ts\<close>, \<open>lib/overview.ts\<close>, \<open>lib/anchors.ts\<close>): the one chronological list of a pack.
  \<^item> SessionReturn (\<open>shared/lib/session\<close>, \<open>hooks/useIdleTimeout.ts\<close>): when an idle session ends, and where sign-in leads back to
    (barred pages are recognised by their text alone, as the code does).

  The fourth part is the receiver page (\<open>src/frontend/receiver\<close>), opened from a QR code by someone without an account.
  \<^item> ReceiverApi (\<open>receiver/lib\<close>, \<open>shared/lib/utils/sa-id.ts\<close>): requests, errors, and the two entries of the session storage.
  \<^item> Attestation (\<open>shared/lib/utils/render-attestation.ts\<close>): the drawing of the signature, with the fitting of its texts.
  \<^item> HandoverPage (\<open>app/h/[token]/HandoverPageClient.tsx\<close>, \<open>components/ConsentGate.tsx\<close>, \<open>Swipe.tsx\<close>): a tab with its page, its
    back/forward cache and what crossed the network; an asynchronous handler is cut at its awaits, so that answers come
    in any order. HandoverSafety has the one invariant of every run and what follows from it, HandoverProgress that no
    screen waits for ever, and when one confirmation at most is in flight.

  What the theorems show. No loss: a flush, a migration, a submission, a report and a draft each keep what was
  captured unless the server accepted it, proved it holds it, or its own driver gave it up. Attribution: a
  request leaves only for a capture of the driver who is signed in, with the trip, period, key and instant
  of the capture. Honesty: what is reported as recorded, queued or saved is. Once: one press of confirm is one request, however often it is
  sent. Order: a phase is not sent past a stalled earlier one, and the lock is fair and serves everyone. Function: classification, bodies and plans on every
  branch. Judgement: a card says that its checks passed exactly when the facts are recorded and agree, hides no work
  that waits (on phases that have a verdict), shows every file, exception and event once, and places nothing where the record does not prove it.
  Proof: the portal says that a pack or a PDF is genuine only on answers of the ledger for those very records,
  says that it is not only on a contradiction, and its checks come to an end; a grant stays with its pack. Handover: the receiver is told what the server said,
  is only sent to the identity check after agreeing, is never compared under what was typed for another delivery, and
  is never left on a screen that waits for nothing.

  Bounds. Recursion is structural or over lists throughout, except for the wait for the report lock
  (\<open>take_turn\<close>, Enqueue): there the number of turns to wait is an argument, and \<open>take_turn_returns\<close> shows
  that it returns as soon as that number reaches the moment the caller is no longer among the waiters, which
  LockProgress shows to come when every caller ahead of it releases in the end. A request is tried at most twice.

  Representation. Numbers the code only carries are reals, periods and status codes are integers, ids,
  instants and texts are strings. A stored text is represented by what \<open>JSON.parse\<close> makes of it, with texts that
  do not parse as a case of their own; \<open>JSON.stringify\<close> is then a constructor (in the portal, where the text itself is hashed, \<open>JSON.parse\<close> is an argument,
  as are SHA-256 and the parsers of the platform: record \<open>browser\<close>). Drafts of a phase are records of
  their fields, each of which an older build may have left out (\<open>field\<close>). Photos are bytes with a type;
  the decoding of data URLs is modelled, their capture is not. Geometry is over the reals; percentages are computed in
  doubles (\<open>double_of\<close>). How dates parse and texts collate is the browser's, an argument (\<open>js_locale\<close>). A text that a card
  prints is a constructor with the values it prints, and sorting by a comparator is insertion, which is
  what \<open>sort\<close> computes for every consistent comparator. White space and letter case are those of ASCII.

  Not modelled. Rendering, navigation, gestures and device APIs (camera, GPS, OCR, push): React components
  and hooks without a decision about stored or sent evidence. The subscriptions by which React re-reads the
  stores; only what they read is modelled. The session library and the server: arguments of the model. The
  rest of the dispatcher's console (pages, fetching, lists and their formatting), the sections and the map of
  the client portal, and of the receiver page the geometry of the drag and its texts. The backend, which is not TypeScript.
\<close>

end
